(* ===== verification/JFX_Prelude.thy ===== *)
theory JFX_Prelude
  imports Main "HOL-Library.Word" "HOL-Library.Monad_Syntax"
begin

unbundle bit_operations_syntax

text \<open>
  Shared vocabulary of the development.

  \<^item> C integers. A \<open>jint\<close> (a 32-bit two's complement \<open>int\<close>) and a \<open>jlong\<close> are HOL integers;
    \<open>i32\<close> and \<open>i64\<close> are the wrap-around to 32 and 64 bits. \<open>i32\<close> is a ring homomorphism
    (\<open>i32_add\<close>, \<open>i32_mult\<close>), so a polynomial expression of the source is wrapped once, where
    its value is next shifted, masked, compared, divided or stored. \<open>sar\<close> is C's arithmetic
    shift to the right, \<open>shl\<close> the shift to the left before it is wrapped; \<open>AND\<close> and \<open>OR\<close> are
    HOL's bit operations on integers. Unsigned types of the media components are words.
  \<^item> Memory. A pointer to an array is a \<open>buf\<close>: \<open>None\<close> is the null pointer, \<open>Some xs\<close> a block with
    the cells \<open>xs\<close>. \<open>rd\<close> and \<open>wr\<close> are the only ways to reach a cell, and they return \<open>None\<close> (no
    defined behaviour) for a null pointer and for an index outside the block.
  \<^item> Loops. \<open>loopM f a n s\<close> is a counted \<open>for\<close> loop: \<open>n\<close> rounds of \<open>f\<close>, called with the
    counter \<open>a\<close>, \<open>a + 1\<close>, and so on; \<open>px_loop\<close> is the source's \<open>while (a < am)\<close> loop over a pointer
    that moves by a stride. \<open>loopM_inv\<close> is the total-correctness rule of the development: it
    shows that the loop returns and that an invariant holds at its end.
\<close>

named_theorems jint_simps \<open>normal forms of shifts and masks\<close>
named_theorems mem_simps \<open>reads and writes of blocks\<close>

type_synonym jint = int
type_synonym jlong = int

section \<open>C integers\<close>

definition i32 :: "int \<Rightarrow> jint" where
  "i32 x = (x + 2147483648) mod 4294967296 - 2147483648"

definition i64 :: "int \<Rightarrow> jlong" where
  "i64 x = (x + 9223372036854775808) mod 18446744073709551616 - 9223372036854775808"

definition sar :: "int \<Rightarrow> nat \<Rightarrow> int" where
  "sar x n = x div 2 ^ n"

definition shl :: "int \<Rightarrow> nat \<Rightarrow> int" where
  "shl x n = x * 2 ^ n"

text \<open>C's division and remainder round towards zero.\<close>

definition cdiv :: "int \<Rightarrow> int \<Rightarrow> int" where
  "cdiv x y = sgn x * sgn y * (\<bar>x\<bar> div \<bar>y\<bar>)"

definition crem :: "int \<Rightarrow> int \<Rightarrow> int" where
  "crem x y = sgn x * (\<bar>x\<bar> mod \<bar>y\<bar>)"

definition jint_range :: "int \<Rightarrow> bool" where
  "jint_range x \<longleftrightarrow> - 2147483648 \<le> x \<and> x < 2147483648"

declare sar_def [jint_simps] shl_def [jint_simps]

lemma cdiv_crem: "cdiv x y * y + crem x y = x"
proof -
  have "cdiv x y * y + crem x y = sgn x * (\<bar>x\<bar> div \<bar>y\<bar> * (sgn y * y) + \<bar>x\<bar> mod \<bar>y\<bar>)"
    by (simp add: cdiv_def crem_def algebra_simps)
  also have "\<dots> = sgn x * \<bar>x\<bar>" by (simp add: abs_sgn [symmetric] mult.commute [of "sgn y"])
  finally show ?thesis by (simp add: sgn_mult_abs)
qed

lemma crem_bound: "y \<noteq> 0 \<Longrightarrow> \<bar>crem x y\<bar> < \<bar>y\<bar>"
  by (simp add: crem_def abs_mult sgn_if)

lemma crem_sign: "0 \<le> x \<Longrightarrow> 0 \<le> crem x y" "x \<le> 0 \<Longrightarrow> crem x y \<le> 0"
  by (cases "y = 0"; auto simp: crem_def sgn_if)+

lemma i32_id: "- 2147483648 \<le> x \<Longrightarrow> x < 2147483648 \<Longrightarrow> i32 x = x"
  by (simp add: i32_def)

lemma i32_range: "jint_range (i32 x)"
  by (simp add: i32_def jint_range_def)

lemma i32_idem [simp]: "i32 (i32 x) = i32 x"
  using i32_range [of x] by (simp add: jint_range_def i32_id)

lemma i32_cong: "x mod 4294967296 = y mod 4294967296 \<Longrightarrow> i32 x = i32 y"
  unfolding i32_def by (metis mod_add_left_eq)

lemma i32_mod: "i32 x mod 4294967296 = x mod 4294967296"
proof -
  have "i32 x mod 4294967296 =
      ((x + 2147483648) mod 4294967296 + (- 2147483648)) mod 4294967296"
    by (simp add: i32_def)
  also have "\<dots> = (x + 2147483648 + (- 2147483648)) mod 4294967296"
    by (rule mod_add_left_eq)
  finally show ?thesis by simp
qed

lemma i32_add: "i32 (i32 x + i32 y) = i32 (x + y)"
  by (rule i32_cong) (metis i32_mod mod_add_eq)

lemma i32_diff: "i32 (i32 x - i32 y) = i32 (x - y)"
  by (rule i32_cong) (metis i32_mod mod_diff_eq)

lemma i32_mult: "i32 (i32 x * i32 y) = i32 (x * y)"
  by (rule i32_cong) (metis i32_mod mod_mult_eq)

lemma i32_add_left [jint_simps]: "i32 (i32 x + y) = i32 (x + y)"
  by (rule i32_cong) (metis i32_mod mod_add_left_eq)

lemma i32_add_right [jint_simps]: "i32 (x + i32 y) = i32 (x + y)"
  by (rule i32_cong) (metis i32_mod mod_add_right_eq)

lemma i32_word: "i32 x = sint (word_of_int x :: 32 word)"
proof -
  have "signed_take_bit 31 x = (x + 2 ^ 31) mod 2 ^ 32 - 2 ^ 31"
    by (simp add: signed_take_bit_eq_take_bit_shift take_bit_eq_mod)
  then show ?thesis
    by (simp add: i32_def sint_sbintrunc')
qed

lemma i64_id:
  "- 9223372036854775808 \<le> x \<Longrightarrow> x < 9223372036854775808 \<Longrightarrow> i64 x = x"
  by (simp add: i64_def)

lemma and_255 [jint_simps]: "(x :: int) AND 255 = x mod 256"
proof -
  have "x AND mask 8 = take_bit 8 x" by (simp add: take_bit_eq_mask)
  then show ?thesis by (simp add: mask_eq_exp_minus_1 take_bit_eq_mod)
qed

lemma and_ffff [jint_simps]: "(x :: int) AND 65535 = x mod 65536"
proof -
  have "x AND mask 16 = take_bit 16 x" by (simp add: take_bit_eq_mask)
  then show ?thesis by (simp add: mask_eq_exp_minus_1 take_bit_eq_mod)
qed

lemma and_1ffff [jint_simps]: "(x :: int) AND 131071 = x mod 131072"
proof -
  have "x AND mask 17 = take_bit 17 x" by (simp add: take_bit_eq_mask)
  then show ?thesis by (simp add: mask_eq_exp_minus_1 take_bit_eq_mod)
qed

lemma or_disjoint_add:
  assumes "0 \<le> y" and "y < 2 ^ n"
  shows "(x * 2 ^ n :: int) OR y = x * 2 ^ n + y"
proof -
  have y: "take_bit n y = y" using assms by (simp add: take_bit_int_eq_self)
  have "concat_bit n y x = y OR push_bit n x" using y by (simp add: concat_bit_def)
  moreover have "concat_bit n y x = y + push_bit n x" using y by (simp add: concat_bit_eq)
  ultimately show ?thesis
    by (simp add: push_bit_eq_mult or.commute add.commute)
qed

lemma zdiv_less_iff:
  fixes x h W :: int
  assumes "0 < W"
  shows "x div W < h \<longleftrightarrow> x < h * W"
  using pos_imp_zdiv_neg_iff [OF assms, of "x + (- h) * W"] div_mult_self1 [of W x "- h"] assms
  by simp

section \<open>Memory blocks\<close>

type_synonym 'a buf = "'a list option"

fun rd :: "'a buf \<Rightarrow> int \<Rightarrow> 'a option" where
  "rd None i = None"
| "rd (Some xs) i = (if 0 \<le> i \<and> i < int (length xs) then Some (xs ! nat i) else None)"

fun wr :: "'a buf \<Rightarrow> int \<Rightarrow> 'a \<Rightarrow> 'a buf option" where
  "wr None i v = None"
| "wr (Some xs) i v =
     (if 0 \<le> i \<and> i < int (length xs) then Some (Some (xs[nat i := v])) else None)"

text \<open>Read a cell, compute its new value and write it back, as \<open>f(&p[i])\<close> does.\<close>

definition upd_px :: "'a buf \<Rightarrow> int \<Rightarrow> ('a \<Rightarrow> 'a option) \<Rightarrow> 'a buf option" where
  "upd_px b i f = do { v \<leftarrow> rd b i; v' \<leftarrow> f v; wr b i v' }"

lemma rd_eq_Some [mem_simps]:
  "rd b i = Some v \<longleftrightarrow>
     (\<exists>xs. b = Some xs \<and> 0 \<le> i \<and> i < int (length xs) \<and> v = xs ! nat i)"
  by (cases b) auto

lemma wr_eq_Some [mem_simps]:
  "wr b i v = Some b' \<longleftrightarrow>
     (\<exists>xs. b = Some xs \<and> 0 \<le> i \<and> i < int (length xs) \<and> b' = Some (xs[nat i := v]))"
  by (cases b) auto

lemma upd_px_Some [simp]:
  "0 \<le> i \<Longrightarrow> i < int (length xs) \<Longrightarrow> f (xs ! nat i) = Some v \<Longrightarrow>
     upd_px (Some xs) i f = Some (Some (xs[nat i := v]))"
  by (simp add: upd_px_def)

section \<open>Loops\<close>

fun loopM :: "(int \<Rightarrow> 's \<Rightarrow> 's option) \<Rightarrow> int \<Rightarrow> nat \<Rightarrow> 's \<Rightarrow> 's option" where
  "loopM f a 0 s = Some s"
| "loopM f a (Suc n) s = do { s' \<leftarrow> f a s; loopM f (a + 1) n s' }"

lemma loopM_numeral [simp]:
  "loopM f a (numeral k) s = do { s' \<leftarrow> f a s; loopM f (a + 1) (pred_numeral k) s' }"
  by (simp add: numeral_eq_Suc)

lemma loopM_inv:
  assumes "I a s"
    and "\<And>k s. a \<le> k \<Longrightarrow> k < a + int n \<Longrightarrow> I k s \<Longrightarrow> \<exists>s'. f k s = Some s' \<and> I (k + 1) s'"
  shows "\<exists>s'. loopM f a n s = Some s' \<and> I (a + int n) s'"
  using assms
proof (induction n arbitrary: a s)
  case 0
  then show ?case by simp
next
  case (Suc n)
  from Suc.prems(2) [of a s] Suc.prems(1) obtain s1
    where s1: "f a s = Some s1" "I (a + 1) s1" by auto
  have "\<exists>s'. loopM f (a + 1) n s1 = Some s' \<and> I (a + 1 + int n) s'"
    by (rule Suc.IH [OF s1(2)]) (use Suc.prems(2) in auto)
  then show ?case using s1(1) by (simp add: add.assoc)
qed

lemma loopM_cong:
  assumes "\<And>k s. a \<le> k \<Longrightarrow> k < a + int n \<Longrightarrow> f k s = g k s"
  shows "loopM f a n s = loopM g a n s"
  using assms
proof (induction n arbitrary: a s)
  case 0
  then show ?case by simp
next
  case (Suc n)
  have "loopM f (a + 1) n t = loopM g (a + 1) n t" for t
    by (rule Suc.IH) (use Suc.prems in auto)
  then show ?case using Suc.prems [of a s] by (cases "g a s") auto
qed

partial_function (option) px_loop ::
  "(int \<Rightarrow> 's \<Rightarrow> 's option) \<Rightarrow> int \<Rightarrow> int \<Rightarrow> int \<Rightarrow> 's \<Rightarrow> (int \<times> 's) option" where
  "px_loop f stride a am s =
     (if a < am then do { s' \<leftarrow> f a s; px_loop f stride (a + stride) am s' } else Some (a, s))"

text \<open>With a stride of one pixel the pointer loop is a counted loop, so it returns.\<close>

lemma px_loop_unit:
  "px_loop f 1 a am s = map_option (\<lambda>t. (max a am, t)) (loopM f a (nat (am - a)) s)"
proof (induction "nat (am - a)" arbitrary: a s)
  case 0
  then show ?case by (simp add: px_loop.simps max_def)
next
  case (Suc n)
  then have lt: "a < am" and n: "n = nat (am - (a + 1))" by auto
  have step: "nat (am - a) = Suc (nat (am - (a + 1)))" using lt by simp
  have "px_loop f 1 a am s = do { s' \<leftarrow> f a s; px_loop f 1 (a + 1) am s' }"
    using lt by (simp add: px_loop.simps [of f 1 a])
  also have "\<dots> = do { s' \<leftarrow> f a s;
      map_option (\<lambda>t. (max (a + 1) am, t)) (loopM f (a + 1) (nat (am - (a + 1))) s') }"
    by (simp only: Suc.hyps(1) [OF n])
  also have "\<dots> = map_option (\<lambda>t. (max a am, t)) (loopM f a (nat (am - a)) s)"
    using lt unfolding step by (cases "f a s") (auto simp: max_def)
  finally show ?case .
qed

section \<open>Updates of an interval of a block\<close>

definition upd_range :: "int \<Rightarrow> int \<Rightarrow> (int \<Rightarrow> 'a \<Rightarrow> 'a) \<Rightarrow> 'a list \<Rightarrow> 'a list" where
  "upd_range lo n g xs =
     map (\<lambda>i. if lo \<le> int i \<and> int i < lo + n then g (int i - lo) (xs ! i) else xs ! i) [0..<length xs]"

lemma length_upd_range [simp]: "length (upd_range lo n g xs) = length xs"
  by (simp add: upd_range_def)

lemma nth_upd_range [simp]:
  "i < length xs \<Longrightarrow> upd_range lo n g xs ! i =
     (if lo \<le> int i \<and> int i < lo + n then g (int i - lo) (xs ! i) else xs ! i)"
  by (simp add: upd_range_def)

lemma upd_range_0 [simp]: "n \<le> 0 \<Longrightarrow> upd_range lo n g xs = xs"
  by (rule nth_equalityI) auto

lemma upd_range_step:
  assumes "0 \<le> lo" "lo < int (length xs)" "0 < n"
  shows "upd_range (lo + 1) (n - 1) (\<lambda>c. g (c + 1)) (xs[nat lo := g 0 (xs ! nat lo)])
       = upd_range lo n g xs"
proof (rule nth_equalityI)
  fix i assume "i < length (upd_range (lo + 1) (n - 1) (\<lambda>c. g (c + 1)) (xs[nat lo := g 0 (xs ! nat lo)]))"
  then have i: "i < length xs" by simp
  show "upd_range (lo + 1) (n - 1) (\<lambda>c. g (c + 1)) (xs[nat lo := g 0 (xs ! nat lo)]) ! i
      = upd_range lo n g xs ! i"
  proof (cases "int i = lo")
    case True
    then have "nat lo = i" by simp
    with True i assms show ?thesis by simp
  next
    case False
    then have "nat lo \<noteq> i" using assms(1) by auto
    with False i assms show ?thesis by auto
  qed
qed simp

lemma upd_range_append:
  assumes "0 \<le> m" "0 \<le> n"
  shows "upd_range (lo + m) n h (upd_range lo m g xs)
       = upd_range lo (m + n) (\<lambda>c. if c < m then g c else h (c - m)) xs"
  by (rule nth_equalityI) (use assms in \<open>auto simp: algebra_simps\<close>)

lemma upd_range_snoc:
  assumes "0 \<le> lo" "0 \<le> k" "lo + k < int (length xs)"
  shows "(upd_range lo k g xs)[nat (lo + k) := g k (xs ! nat (lo + k))] = upd_range lo (k + 1) g xs"
proof (rule nth_equalityI)
  fix i assume "i < length ((upd_range lo k g xs)[nat (lo + k) := g k (xs ! nat (lo + k))])"
  then have i: "i < length xs" by simp
  have "i = nat (lo + k) \<longleftrightarrow> int i = lo + k" using assms by auto
  then show "(upd_range lo k g xs)[nat (lo + k) := g k (xs ! nat (lo + k))] ! i = upd_range lo (k + 1) g xs ! i"
    using i assms by (cases "int i = lo + k") auto
qed simp

text \<open>
  The loop that reads, changes and writes back one cell per round, and whose change at
  distance \<open>c\<close> from the start of the interval is \<open>g c\<close>.
\<close>

lemma loopM_upd_range:
  assumes "0 \<le> lo" "lo + int n \<le> int (length xs)"
    and "\<And>k ys. lo \<le> k \<Longrightarrow> k < lo + int n \<Longrightarrow> length ys = length xs \<Longrightarrow>
           f k (Some ys) = Some (Some (ys[nat k := g (k - lo) (ys ! nat k)]))"
  shows "loopM f lo n (Some xs) = Some (Some (upd_range lo (int n) g xs))"
  using assms
proof (induction n arbitrary: lo xs g)
  case 0
  then show ?case by simp
next
  case (Suc n)
  let ?ys = "xs[nat lo := g 0 (xs ! nat lo)]"
  have f1: "f lo (Some xs) = Some (Some ?ys)"
    using Suc.prems(3) [of lo xs] by simp
  have "loopM f (lo + 1) n (Some ?ys) = Some (Some (upd_range (lo + 1) (int n) (\<lambda>c. g (c + 1)) ?ys))"
  proof (rule Suc.IH)
    fix k :: int and ys :: "'a list" assume "lo + 1 \<le> k" "k < lo + 1 + int n" "length ys = length ?ys"
    then show "f k (Some ys) = Some (Some (ys[nat k := g (k - (lo + 1) + 1) (ys ! nat k)]))"
      using Suc.prems(3) [of k ys] by simp
  qed (use Suc.prems in auto)
  moreover have "upd_range (lo + 1) (int n) (\<lambda>c. g (c + 1)) ?ys = upd_range lo (int (Suc n)) g xs"
    using upd_range_step [of lo xs "int (Suc n)" g] Suc.prems by simp
  ultimately show ?case using f1 by simp
qed

text \<open>The same with a second counter that runs along, as an index into a paint or a mask.\<close>

lemma loopM_upd_range_idx:
  assumes "0 \<le> lo" "lo + int n \<le> int (length xs)"
    and "\<And>c p. 0 \<le> c \<Longrightarrow> c < int n \<Longrightarrow> h (idx + c) p = Some (g c p)"
  shows "loopM (\<lambda>a (d, i). do { d' \<leftarrow> upd_px d a (h i); Some (d', i + 1) }) lo n (Some xs, idx)
       = Some (Some (upd_range lo (int n) g xs), idx + int n)"
  using assms
proof (induction n arbitrary: lo xs g idx)
  case 0
  then show ?case by simp
next
  case (Suc n)
  let ?ys = "xs[nat lo := g 0 (xs ! nat lo)]"
  have f1: "upd_px (Some xs) lo (h idx) = Some (Some ?ys)"
    using Suc.prems(3) [of 0] Suc.prems(1,2) by simp
  have "loopM (\<lambda>a (d, i). do { d' \<leftarrow> upd_px d a (h i); Some (d', i + 1) }) (lo + 1) n (Some ?ys, idx + 1)
      = Some (Some (upd_range (lo + 1) (int n) (\<lambda>c. g (c + 1)) ?ys), idx + 1 + int n)"
  proof (rule Suc.IH)
    fix c :: int and p assume "0 \<le> c" "c < int n"
    then show "h (idx + 1 + c) p = Some (g (c + 1) p)"
      using Suc.prems(3) [of "c + 1" p] by (simp add: algebra_simps)
  qed (use Suc.prems in auto)
  moreover have "upd_range (lo + 1) (int n) (\<lambda>c. g (c + 1)) ?ys = upd_range lo (int (Suc n)) g xs"
    using upd_range_step [of lo xs "int (Suc n)" g] Suc.prems by simp
  ultimately show ?case using f1 by (simp add: add.assoc)
qed

lemma upd_range_cong:
  assumes "\<And>c p. 0 \<le> c \<Longrightarrow> c < n \<Longrightarrow> p \<in> set xs \<Longrightarrow> g c p = h c p"
  shows "upd_range lo n g xs = upd_range lo n h xs"
  by (rule nth_equalityI) (use assms in auto)

lemma upd_px_range:
  assumes "0 \<le> lo" "lo < int (length xs)" "f (xs ! nat lo) = Some (g 0 (xs ! nat lo))"
  shows "upd_px (Some xs) lo f = Some (Some (upd_range lo 1 g xs))"
  using upd_range_step [of lo xs 1 g] assms by simp

section \<open>Updates of a rectangle of an image\<close>

text \<open>
  Row \<open>j\<close> of the rectangle starts at \<open>lo + j * stride\<close>; the cell in its column \<open>c\<close> is changed by
  \<open>g j c\<close>, a cell outside the rectangle keeps its value.
\<close>

definition in_rect :: "int \<Rightarrow> int \<Rightarrow> int \<Rightarrow> int \<Rightarrow> int \<Rightarrow> bool" where
  "in_rect lo stride w h i \<longleftrightarrow> lo \<le> i \<and> (i - lo) div stride < h \<and> (i - lo) mod stride < w"

definition upd_rect ::
  "int \<Rightarrow> int \<Rightarrow> int \<Rightarrow> int \<Rightarrow> (int \<Rightarrow> int \<Rightarrow> 'a \<Rightarrow> 'a) \<Rightarrow> 'a list \<Rightarrow> 'a list" where
  "upd_rect lo stride w h g xs =
     map (\<lambda>i. if in_rect lo stride w h (int i)
              then g ((int i - lo) div stride) ((int i - lo) mod stride) (xs ! i) else xs ! i)
       [0..<length xs]"

lemma length_upd_rect [simp]: "length (upd_rect lo stride w h g xs) = length xs"
  by (simp add: upd_rect_def)

lemma nth_upd_rect [simp]:
  "i < length xs \<Longrightarrow> upd_rect lo stride w h g xs ! i =
     (if in_rect lo stride w h (int i)
      then g ((int i - lo) div stride) ((int i - lo) mod stride) (xs ! i) else xs ! i)"
  by (simp add: upd_rect_def)

lemma in_rect_0: "0 < stride \<Longrightarrow> h \<le> 0 \<Longrightarrow> \<not> in_rect lo stride w h i"
  unfolding in_rect_def using pos_imp_zdiv_nonneg_iff [of stride "i - lo"] by linarith

lemma upd_rect_0 [simp]: "0 < stride \<Longrightarrow> h \<le> 0 \<Longrightarrow> upd_rect lo stride w h g xs = xs"
  by (rule nth_equalityI) (auto simp: in_rect_0)

text \<open>An index of the rectangle has one row and one column.\<close>

lemma rect_index:
  fixes c w stride :: int
  assumes "0 \<le> c" "c < w" "w \<le> stride"
  shows "(lo + j * stride + c - lo) div stride = j" "(lo + j * stride + c - lo) mod stride = c"
  using assms by (simp_all add: add.commute [of _ c] div_mult_self1 mod_mult_self1)

lemma in_rect_iff:
  assumes "w \<le> stride" "0 < stride"
  shows "in_rect lo stride w h i \<longleftrightarrow> (\<exists>j c. 0 \<le> j \<and> j < h \<and> 0 \<le> c \<and> c < w \<and> i = lo + j * stride + c)"
proof
  assume r: "in_rect lo stride w h i"
  have "i = lo + (i - lo) div stride * stride + (i - lo) mod stride" by simp
  moreover have "0 \<le> (i - lo) div stride" "0 \<le> (i - lo) mod stride"
    using r assms(2) by (simp_all add: in_rect_def pos_imp_zdiv_nonneg_iff)
  ultimately show "\<exists>j c. 0 \<le> j \<and> j < h \<and> 0 \<le> c \<and> c < w \<and> i = lo + j * stride + c"
    using r unfolding in_rect_def by blast
next
  assume "\<exists>j c. 0 \<le> j \<and> j < h \<and> 0 \<le> c \<and> c < w \<and> i = lo + j * stride + c"
  then obtain j c where "0 \<le> j" "j < h" "0 \<le> c" "c < w" and i: "i = lo + j * stride + c" by blast
  then show "in_rect lo stride w h i"
    unfolding in_rect_def i using rect_index [of c w stride lo j] assms by simp
qed

lemma upd_rect_step:
  assumes "0 \<le> h" "w \<le> stride" "0 < stride"
  shows "upd_range (lo + h * stride) w (g h) (upd_rect lo stride w h g xs)
       = upd_rect lo stride w (h + 1) g xs"
proof (rule nth_equalityI)
  fix i assume "i < length (upd_range (lo + h * stride) w (g h) (upd_rect lo stride w h g xs))"
  then have i: "i < length xs" by simp
  show "upd_range (lo + h * stride) w (g h) (upd_rect lo stride w h g xs) ! i
      = upd_rect lo stride w (h + 1) g xs ! i"
  proof (cases "lo + h * stride \<le> int i \<and> int i < lo + h * stride + w")
    case True
    define c where "c = int i - (lo + h * stride)"
    have c: "0 \<le> c" "c < w" and ii: "int i = lo + h * stride + c"
      using True by (auto simp: c_def)
    have q: "(int i - lo) div stride = h" "(int i - lo) mod stride = c"
      using rect_index [OF c assms(2), of lo h] unfolding ii by simp_all
    have "\<not> in_rect lo stride w h (int i)" "in_rect lo stride w (h + 1) (int i)"
      using q c True assms by (auto simp: in_rect_def ii)
    then show ?thesis using i True by (simp add: q c_def)
  next
    case False
    have "in_rect lo stride w (h + 1) (int i) \<longleftrightarrow> in_rect lo stride w h (int i)"
    proof -
      have "False" if "in_rect lo stride w (h + 1) (int i)" "(int i - lo) div stride = h"
      proof -
        have "int i - lo = h * stride + (int i - lo) mod stride" "0 \<le> (int i - lo) mod stride"
          using div_mult_mod_eq [of "int i - lo" stride, symmetric] assms(3) unfolding that(2) by simp_all
        then show False using that(1) False unfolding in_rect_def by linarith
      qed
      then show ?thesis unfolding in_rect_def zless_add1_eq by blast
    qed
    then show ?thesis using i False by (auto simp del: upt_Suc)
  qed
qed simp

lemma upd_rect_cong:
  assumes "0 < stride"
    and "\<And>j c p. 0 \<le> j \<Longrightarrow> j < h \<Longrightarrow> 0 \<le> c \<Longrightarrow> c < w \<Longrightarrow> p \<in> set xs \<Longrightarrow> g j c p = k j c p"
  shows "upd_rect lo stride w h g xs = upd_rect lo stride w h k xs"
proof (rule nth_equalityI)
  fix i assume "i < length (upd_rect lo stride w h g xs)"
  then have i: "i < length xs" by simp
  have "0 \<le> (int i - lo) div stride" if "lo \<le> int i"
    using that assms(1) by (simp add: pos_imp_zdiv_nonneg_iff)
  then show "upd_rect lo stride w h g xs ! i = upd_rect lo stride w h k xs ! i"
    using i assms by (auto simp: in_rect_def)
qed simp

text \<open>A predicate on cells that the change of each column keeps holds after the update.\<close>

lemma upd_rect_all:
  assumes "0 < stride" "\<forall>p\<in>set xs. P p"
    and "\<And>j c p. 0 \<le> j \<Longrightarrow> j < h \<Longrightarrow> 0 \<le> c \<Longrightarrow> c < w \<Longrightarrow> P p \<Longrightarrow> P (g j c p)"
  shows "\<forall>p\<in>set (upd_rect lo stride w h g xs). P p"
proof
  fix p assume "p \<in> set (upd_rect lo stride w h g xs)"
  then obtain i where i: "i < length xs" "p = upd_rect lo stride w h g xs ! i"
    by (auto simp: in_set_conv_nth)
  have "P (xs ! i)" using assms(2) i(1) by simp
  moreover have "0 \<le> (int i - lo) div stride" if "lo \<le> int i"
    using that assms(1) by (simp add: pos_imp_zdiv_nonneg_iff)
  ultimately show "P p" using i assms(1,3) by (auto simp: in_rect_def)
qed

lemma upd_rect_append:
  assumes "0 \<le> h" "w \<le> stride" "0 < stride"
  shows "upd_rect (lo + h * stride) stride w (int n) (\<lambda>i. g (h + i)) (upd_rect lo stride w h g xs)
       = upd_rect lo stride w (h + int n) g xs"
proof (induction n)
  case 0
  then show ?case using assms by simp
next
  case (Suc n)
  have "upd_rect (lo + h * stride) stride w (int (Suc n)) (\<lambda>i. g (h + i)) (upd_rect lo stride w h g xs)
      = upd_range (lo + h * stride + int n * stride) w (g (h + int n))
          (upd_rect (lo + h * stride) stride w (int n) (\<lambda>i. g (h + i)) (upd_rect lo stride w h g xs))"
    using upd_rect_step [of "int n" w stride "lo + h * stride" "\<lambda>i. g (h + i)"] assms
    by (simp add: add.commute)
  also have "\<dots> = upd_range (lo + (h + int n) * stride) w (g (h + int n)) (upd_rect lo stride w (h + int n) g xs)"
    unfolding Suc.IH by (simp add: algebra_simps)
  also have "\<dots> = upd_rect lo stride w (h + int (Suc n)) g xs"
    using upd_rect_step [of "h + int n" w stride lo g xs] assms by (simp add: algebra_simps)
  finally show ?case .
qed

end
