(* ===== verification/Pisces_Blend.thy ===== *)
theory Pisces_Blend
  imports JFX_Prelude
begin

text \<open>
  The pixel arithmetic of \<open>PiscesBlit.c\<close>: a pixel is a \<open>jint\<close> with the four bytes alpha, red,
  green and blue, the colour bytes premultiplied by alpha. The blend routines of the source
  read and overwrite \<open>*intData\<close>; here each takes the old value of the pixel and returns the
  new one. The gamma tables are static arrays of the source, filled by \<open>initGammaArrays\<close>.

  The lemmas show that \<open>div255\<close> is the exact division by 255, that the SrcOver blends keep a
  premultiplied pixel premultiplied, that the fast paths of the blitters agree with the
  blends they replace, and that the Src blends do so only when coverage and complement add
  up to at most 255.
\<close>

section \<open>Channels\<close>

definition MAX_ALPHA :: jint where
  "MAX_ALPHA = 255"

definition div255 :: "jint \<Rightarrow> jint" where
  "div255 x = sar (i32 (x * 257 + 257)) 16"

definition pxA :: "jint \<Rightarrow> jint" where
  "pxA x = sar x 24 AND 0xFF"

definition pxR :: "jint \<Rightarrow> jint" where
  "pxR x = sar x 16 AND 0xFF"

definition pxG :: "jint \<Rightarrow> jint" where
  "pxG x = sar x 8 AND 0xFF"

definition pxB :: "jint \<Rightarrow> jint" where
  "pxB x = x AND 0xFF"

text \<open>The expression \<open>(a << 24) | (r << 16) | (g << 8) | b\<close> that ends every blend.\<close>

definition argb :: "jint \<Rightarrow> jint \<Rightarrow> jint \<Rightarrow> jint \<Rightarrow> jint" where
  "argb a r g b = i32 (shl a 24 OR shl r 16 OR shl g 8 OR b)"

section \<open>Blend routines\<close>

definition blendSrcOver8888_pre :: "jint \<Rightarrow> jint \<Rightarrow> jint \<Rightarrow> jint \<Rightarrow> jint \<Rightarrow> jint" where
  "blendSrcOver8888_pre ival aval sred sgreen sblue =
    (let dalpha = sar ival 24 AND 0xff;
         dred = sar ival 16 AND 0xff;
         dgreen = sar ival 8 AND 0xff;
         dblue = ival AND 0xff;
         oneminusaval = i32 (255 - aval);
         oalpha = div255 (i32 (255 * aval + oneminusaval * dalpha));
         ored = div255 (i32 (sred * aval + oneminusaval * dred));
         ogreen = div255 (i32 (sgreen * aval + oneminusaval * dgreen));
         oblue = div255 (i32 (sblue * aval + oneminusaval * dblue))
     in argb oalpha ored ogreen oblue)"

definition blendSrcOver8888_pre_pre ::
  "jint \<Rightarrow> jint \<Rightarrow> jint \<Rightarrow> jint \<Rightarrow> jint \<Rightarrow> jint \<Rightarrow> jint" where
  "blendSrcOver8888_pre_pre ival frac aval sred sgreen sblue =
    (let dalpha = sar ival 24 AND 0xff;
         dred = sar ival 16 AND 0xff;
         dgreen = sar ival 8 AND 0xff;
         dblue = ival AND 0xff;
         aval2 = sar (i32 (aval * frac)) 8;
         oneminusaval = i32 (255 - aval2);
         oalpha = i32 (aval2 + div255 (i32 (oneminusaval * dalpha)));
         ored = i32 (sar (i32 (sred * frac)) 8 + div255 (i32 (oneminusaval * dred)));
         ogreen = i32 (sar (i32 (sgreen * frac)) 8 + div255 (i32 (oneminusaval * dgreen)));
         oblue = i32 (sar (i32 (sblue * frac)) 8 + div255 (i32 (oneminusaval * dblue)))
     in argb oalpha ored ogreen oblue)"

definition blendSrcOver8888_pre_pre_fullFrac ::
  "jint \<Rightarrow> jint \<Rightarrow> jint \<Rightarrow> jint \<Rightarrow> jint \<Rightarrow> jint" where
  "blendSrcOver8888_pre_pre_fullFrac ival aval sred sgreen sblue =
    (let dalpha = sar ival 24 AND 0xff;
         dred = sar ival 16 AND 0xff;
         dgreen = sar ival 8 AND 0xff;
         dblue = ival AND 0xff;
         oneminusaval = i32 (255 - aval);
         oalpha = i32 (aval + div255 (i32 (oneminusaval * dalpha)));
         ored = i32 (sred + div255 (i32 (oneminusaval * dred)));
         ogreen = i32 (sgreen + div255 (i32 (oneminusaval * dgreen)));
         oblue = i32 (sblue + div255 (i32 (oneminusaval * dblue)))
     in argb oalpha ored ogreen oblue)"

definition blendSrc8888_pre ::
  "jint \<Rightarrow> jint \<Rightarrow> jint \<Rightarrow> jint \<Rightarrow> jint \<Rightarrow> jint \<Rightarrow> jint" where
  "blendSrc8888_pre ival aval raaval sred sgreen sblue =
    (let dalpha = sar ival 24 AND 0xff;
         dred = sar ival 16 AND 0xff;
         dgreen = sar ival 8 AND 0xff;
         dblue = ival AND 0xff;
         denom = i32 (255 * aval + dalpha * raaval)
     in if denom = 0 then 0
        else
          (let oalpha = div255 denom;
               ored = div255 (i32 (aval * sred + raaval * dred));
               ogreen = div255 (i32 (aval * sgreen + raaval * dgreen));
               oblue = div255 (i32 (aval * sblue + raaval * dblue))
           in argb oalpha ored ogreen oblue))"

definition blendSrc8888_pre_pre ::
  "jint \<Rightarrow> jint \<Rightarrow> jint \<Rightarrow> jint \<Rightarrow> jint \<Rightarrow> jint \<Rightarrow> jint" where
  "blendSrc8888_pre_pre ival aval raaval sred sgreen sblue =
    (let dalpha = sar ival 24 AND 0xff;
         dred = sar ival 16 AND 0xff;
         dgreen = sar ival 8 AND 0xff;
         dblue = ival AND 0xff;
         denom = i32 (255 * aval + dalpha * raaval)
     in if denom = 0 then 0
        else
          (let oalpha = div255 denom;
               ored = i32 (sred + div255 (i32 (raaval * dred)));
               ogreen = i32 (sgreen + div255 (i32 (raaval * dgreen)));
               oblue = i32 (sblue + div255 (i32 (raaval * dblue)))
           in argb oalpha ored ogreen oblue))"

section \<open>Gamma tables\<close>

text \<open>
  \<open>currentGamma\<close> is a C float and the table entries are \<open>(jint)(255 * pow(i/255.0, g))\<close>; the
  C library's \<open>pow\<close> is a parameter: \<open>gpow g i\<close> is that entry and \<open>ginv g\<close> is \<open>1.0f / g\<close>.
\<close>

record 'f gamma_tables =
  currentGamma :: 'f
  gammaArray :: "jint list"
  invGammaArray :: "jint list"

definition initGammaArrays ::
  "('f \<Rightarrow> jint \<Rightarrow> jint) \<Rightarrow> ('f \<Rightarrow> 'f) \<Rightarrow> 'f \<Rightarrow> 'f gamma_tables \<Rightarrow> 'f gamma_tables" where
  "initGammaArrays gpow ginv gamma gt =
    (if currentGamma gt \<noteq> gamma
     then gt\<lparr>currentGamma := gamma,
             gammaArray := map (\<lambda>i. gpow gamma (int i)) [0..<256],
             invGammaArray := map (\<lambda>i. gpow (ginv gamma) (int i)) [0..<256]\<rparr>
     else gt)"

definition blendLCDSrcOver8888_pre ::
  "'f gamma_tables \<Rightarrow> jint \<Rightarrow> jint \<Rightarrow> jint \<Rightarrow> jint \<Rightarrow> jint \<Rightarrow> jint \<Rightarrow> jint \<Rightarrow> jint option" where
  "blendLCDSrcOver8888_pre gt ival ared agreen ablue sred sgreen sblue =
    do {
      dred \<leftarrow> rd (Some (invGammaArray gt)) (sar ival 16 AND 0xff);
      dgreen \<leftarrow> rd (Some (invGammaArray gt)) (sar ival 8 AND 0xff);
      dblue \<leftarrow> rd (Some (invGammaArray gt)) (ival AND 0xff);
      let ored = div255 (i32 (ared * sred + (255 - ared) * dred));
      let ogreen = div255 (i32 (agreen * sgreen + (255 - agreen) * dgreen));
      let oblue = div255 (i32 (ablue * sblue + (255 - ablue) * dblue));
      ored \<leftarrow> rd (Some (gammaArray gt)) ored;
      ogreen \<leftarrow> rd (Some (gammaArray gt)) ogreen;
      oblue \<leftarrow> rd (Some (gammaArray gt)) oblue;
      Some (argb 0xFF ored ogreen oblue)
    }"

section \<open>Well-formed pixels\<close>

text \<open>A byte value, and a premultiplied pixel: no colour byte exceeds the alpha byte.\<close>

definition byte :: "jint \<Rightarrow> bool" where
  "byte x \<longleftrightarrow> 0 \<le> x \<and> x \<le> 255"

definition premul :: "jint \<Rightarrow> bool" where
  "premul p \<longleftrightarrow> pxR p \<le> pxA p \<and> pxG p \<le> pxA p \<and> pxB p \<le> pxA p"

section \<open>Arithmetic of the channels\<close>

lemma px_range [simp]:
  "0 \<le> pxA p" "pxA p \<le> 255" "0 \<le> pxR p" "pxR p \<le> 255"
  "0 \<le> pxG p" "pxG p \<le> 255" "0 \<le> pxB p" "pxB p \<le> 255"
  using pos_mod_bound [of 256 "p div 2 ^ 24"] pos_mod_bound [of 256 "p div 2 ^ 16"]
    pos_mod_bound [of 256 "p div 2 ^ 8"] pos_mod_bound [of 256 p]
  by (simp_all add: pxA_def pxR_def pxG_def pxB_def jint_simps)

lemma byte_px [simp]: "byte (pxA p)" "byte (pxR p)" "byte (pxG p)" "byte (pxB p)"
  by (simp_all add: byte_def)

lemma argb_sum:
  assumes "byte r" "byte g" "byte b"
  shows "argb a r g b = i32 (a * 16777216 + r * 65536 + g * 256 + b)"
proof -
  have gb: "(g * 2 ^ 8) OR b = g * 2 ^ 8 + b"
    by (rule or_disjoint_add) (use assms in \<open>auto simp: byte_def\<close>)
  have rgb: "(r * 2 ^ 16) OR (g * 2 ^ 8 + b) = r * 2 ^ 16 + (g * 2 ^ 8 + b)"
    by (rule or_disjoint_add) (use assms in \<open>auto simp: byte_def\<close>)
  have argb: "(a * 2 ^ 24) OR (r * 2 ^ 16 + (g * 2 ^ 8 + b)) = a * 2 ^ 24 + (r * 2 ^ 16 + (g * 2 ^ 8 + b))"
    by (rule or_disjoint_add) (use assms in \<open>auto simp: byte_def\<close>)
  show ?thesis
    unfolding argb_def shl_def or.assoc gb rgb argb by (simp add: add.assoc)
qed

lemma digits256:
  fixes a r g b :: int
  assumes "byte r" "byte g" "byte b"
  shows "(a * 16777216 + r * 65536 + g * 256 + b) div 16777216 = a"
    and "(a * 16777216 + r * 65536 + g * 256 + b) div 65536 = a * 256 + r"
    and "(a * 16777216 + r * 65536 + g * 256 + b) div 256 = a * 65536 + r * 256 + g"
    and "(a * 16777216 + r * 65536 + g * 256 + b) mod 256 = b"
proof -
  let ?n = "a * 16777216 + r * 65536 + g * 256 + b"
  show "?n div 16777216 = a"
    by (rule int_div_pos_eq [where r = "r * 65536 + g * 256 + b"]) (use assms in \<open>auto simp: byte_def\<close>)
  show "?n div 65536 = a * 256 + r"
    by (rule int_div_pos_eq [where r = "g * 256 + b"]) (use assms in \<open>auto simp: byte_def\<close>)
  show "?n div 256 = a * 65536 + r * 256 + g"
    by (rule int_div_pos_eq [where r = b]) (use assms in \<open>auto simp: byte_def\<close>)
  show "?n mod 256 = b"
    by (rule int_mod_pos_eq [where q = "a * 65536 + r * 256 + g"]) (use assms in \<open>auto simp: byte_def\<close>)
qed

text \<open>The bytes of a word, as the iterated quotients of its value.\<close>

lemma px_split:
  "p = 4294967296 * (p div 4294967296) + pxA p * 16777216 + pxR p * 65536 + pxG p * 256 + pxB p"
proof -
  have d: "p div 65536 = p div 256 div 256" "p div 16777216 = p div 65536 div 256"
    "p div 4294967296 = p div 16777216 div 256"
    by (simp_all add: zdiv_zmult2_eq [symmetric])
  have m: "pxB p = p mod 256" "pxG p = p div 256 mod 256" "pxR p = p div 65536 mod 256"
    "pxA p = p div 16777216 mod 256"
    by (simp_all add: pxA_def pxR_def pxG_def pxB_def jint_simps)
  have s: "p = 256 * (p div 256) + pxB p" "p div 256 = 256 * (p div 65536) + pxG p"
    "p div 65536 = 256 * (p div 16777216) + pxR p"
    "p div 16777216 = 256 * (p div 4294967296) + pxA p"
    unfolding m d by (simp_all only: mult_div_mod_eq)
  show ?thesis using s by linarith
qed

lemma i32_div_mod:
  "i32 x div 16777216 mod 256 = x div 16777216 mod 256"
  "i32 x div 65536 mod 256 = x div 65536 mod 256"
  "i32 x div 256 mod 256 = x div 256 mod 256"
  "i32 x mod 256 = x mod 256"
proof -
  obtain k where k: "i32 x = x + 4294967296 * k"
  proof
    show "i32 x = x + 4294967296 * (- ((x + 2147483648) div 4294967296))"
      unfolding i32_def by (simp add: minus_div_mult_eq_mod [symmetric])
  qed
  show "i32 x div 16777216 mod 256 = x div 16777216 mod 256"
    using div_mult_self2 [of 16777216 x "256 * k"] mod_mult_self2 [of "x div 16777216" 256 k]
    unfolding k by (simp add: add.commute)
  show "i32 x div 65536 mod 256 = x div 65536 mod 256"
    using div_mult_self2 [of 65536 x "65536 * k"] mod_mult_self2 [of "x div 65536" 256 "256 * k"]
    unfolding k by (simp add: add.commute)
  show "i32 x div 256 mod 256 = x div 256 mod 256"
    using div_mult_self2 [of 256 x "16777216 * k"] mod_mult_self2 [of "x div 256" 256 "65536 * k"]
    unfolding k by (simp add: add.commute)
  show "i32 x mod 256 = x mod 256"
    using mod_mult_self2 [of x 256 "16777216 * k"] unfolding k by simp
qed

lemma px_argb [simp]:
  assumes "byte a" "byte r" "byte g" "byte b"
  shows "pxA (argb a r g b) = a" "pxR (argb a r g b) = r"
    "pxG (argb a r g b) = g" "pxB (argb a r g b) = b"
proof -
  note b = assms(2-4)
  have a: "0 \<le> a" "a < 256" "0 \<le> r" "r < 256" "0 \<le> g" "g < 256"
    using assms by (auto simp: byte_def)
  have s: "a mod 256 = a" "r mod 256 = r" "g mod 256 = g"
    using a by (simp_all only: mod_pos_pos_trivial)
  have m: "(a * 256 + r) mod 256 = r" "(a * 65536 + r * 256 + g) mod 256 = g"
    using s mod_mult_self3 [of a 256 r] mod_mult_self3 [of "a * 256 + r" 256 g]
    by (simp_all add: algebra_simps)
  show "pxA (argb a r g b) = a" "pxR (argb a r g b) = r"
    "pxG (argb a r g b) = g" "pxB (argb a r g b) = b"
    by (simp_all add: argb_sum [OF b] pxA_def pxR_def pxG_def pxB_def jint_simps i32_div_mod
        digits256 [OF b] s m)
qed

lemma argb_eqI:
  assumes "jint_range p" "pxA p = a" "pxR p = r" "pxG p = g" "pxB p = b"
  shows "argb a r g b = p"
proof -
  have b: "byte a" "byte r" "byte g" "byte b" using assms by auto
  have "(a * 16777216 + r * 65536 + g * 256 + b) mod 4294967296 = p mod 4294967296"
  proof -
    have "p = 4294967296 * (p div 4294967296) + (a * 16777216 + r * 65536 + g * 256 + b)"
      using px_split [of p] unfolding assms(2-5) by linarith
    then show ?thesis by (metis mod_mult_self4)
  qed
  then have "argb a r g b = i32 p"
    unfolding argb_sum [OF b(2-4)] by (rule i32_cong)
  then show ?thesis using assms(1) by (simp add: i32_id jint_range_def)
qed

text \<open>\<open>div255\<close> multiplies and shifts; on every sum the blends form it is the exact quotient.\<close>

lemma div255_exact:
  assumes "0 \<le> x" "x < 65790"
  shows "div255 x = x div 255"
proof -
  define q r where "q = x div 255" and "r = x mod 255"
  have x: "x = 255 * q + r" and r: "0 \<le> r" "r \<le> 254"
    using pos_mod_bound [of 255 x] by (simp_all add: q_def r_def)
  have q: "0 \<le> q" "q \<le> 257" using assms by (auto simp: q_def)
  have "i32 (x * 257 + 257) = x * 257 + 257"
    using assms by (intro i32_id) auto
  moreover have "(x * 257 + 257) div 65536 = q"
    by (rule int_div_pos_eq [where r = "257 * (r + 1) - q"]) (use q r x in auto)
  ultimately show ?thesis
    unfolding div255_def sar_def q_def by simp
qed

lemma byte_prod: "byte x \<Longrightarrow> byte y \<Longrightarrow> 0 \<le> x * y \<and> x * y \<le> 255 * 255"
  unfolding byte_def using mult_mono [of x 255 y 255] by auto

text \<open>The weighted sum of two bytes with weights \<open>w\<close> and \<open>255 - w\<close> stays in range.\<close>

lemma lerp_range:
  assumes "byte w" "byte s" "byte d"
  shows "0 \<le> s * w + (255 - w) * d" "s * w + (255 - w) * d \<le> 255 * 255"
proof -
  have "s * w \<le> 255 * w" "(255 - w) * d \<le> (255 - w) * 255"
    using assms unfolding byte_def by (intro mult_right_mono mult_left_mono; simp)+
  then show "s * w + (255 - w) * d \<le> 255 * 255" by (simp add: algebra_simps)
  show "0 \<le> s * w + (255 - w) * d" using assms by (auto simp: byte_def)
qed

lemma div255_lerp:
  assumes "byte w" "byte s" "byte d"
  shows "div255 (i32 (s * w + (255 - w) * d)) = (s * w + (255 - w) * d) div 255"
    and "byte ((s * w + (255 - w) * d) div 255)"
proof -
  note r = lerp_range [OF assms]
  have "i32 (s * w + (255 - w) * d) = s * w + (255 - w) * d"
    using r by (intro i32_id) auto
  then show "div255 (i32 (s * w + (255 - w) * d)) = (s * w + (255 - w) * d) div 255"
    using r by (simp add: div255_exact)
  show "byte ((s * w + (255 - w) * d) div 255)" using r by (auto simp: byte_def)
qed

lemma div255_prod:
  assumes "byte w" "byte d"
  shows "div255 (i32 (w * d)) = (w * d) div 255" "0 \<le> (w * d) div 255" "(w * d) div 255 \<le> w"
proof -
  note r = byte_prod [OF assms]
  have "i32 (w * d) = w * d" using r by (intro i32_id) auto
  then show "div255 (i32 (w * d)) = (w * d) div 255" using r by (simp add: div255_exact)
  show "0 \<le> (w * d) div 255" using r by (simp add: pos_imp_zdiv_nonneg_iff)
  have "w * d \<le> w * 255" using assms unfolding byte_def by (intro mult_left_mono; simp)
  then show "(w * d) div 255 \<le> w" using zdiv_mono1 [of "w * d" "w * 255" 255] by simp
qed


section \<open>What the blends compute\<close>

lemma fold_px:
  "p AND 0xff = pxB p" "pxB (sar p 24) = pxA p" "pxB (sar p 16) = pxR p" "pxB (sar p 8) = pxG p"
  by (simp_all add: pxA_def pxR_def pxG_def pxB_def)

lemma i32_complement: "byte a \<Longrightarrow> i32 (255 - a) = 255 - a"
  by (rule i32_id) (auto simp: byte_def)

lemma blendSrcOver8888_pre_eq:
  assumes "byte aval" "byte r" "byte g" "byte b"
  shows "blendSrcOver8888_pre p aval r g b =
    argb ((255 * aval + (255 - aval) * pxA p) div 255) ((r * aval + (255 - aval) * pxR p) div 255)
         ((g * aval + (255 - aval) * pxG p) div 255) ((b * aval + (255 - aval) * pxB p) div 255)"
  unfolding blendSrcOver8888_pre_def Let_def fold_px
  using assms by (simp add: i32_complement div255_lerp byte_def)

lemma lerp_mono:
  fixes s d w t e :: int
  assumes "byte w" "s \<le> t" "d \<le> e"
  shows "(s * w + (255 - w) * d) div 255 \<le> (t * w + (255 - w) * e) div 255"
proof (rule zdiv_mono1)
  have "s * w \<le> t * w" "(255 - w) * d \<le> (255 - w) * e"
    using assms unfolding byte_def by (intro mult_right_mono mult_left_mono; simp)+
  then show "s * w + (255 - w) * d \<le> t * w + (255 - w) * e" by simp
qed simp

lemma premul_argb:
  assumes "byte a" "0 \<le> r" "r \<le> a" "0 \<le> g" "g \<le> a" "0 \<le> b" "b \<le> a"
  shows "premul (argb a r g b)"
proof -
  have "byte r" "byte g" "byte b" using assms by (auto simp: byte_def)
  with assms show ?thesis by (simp add: premul_def)
qed

lemma premul_blendSrcOver8888_pre:
  assumes "premul p" "byte aval" "byte r" "byte g" "byte b"
  shows "premul (blendSrcOver8888_pre p aval r g b)"
proof -
  have n: "0 \<le> (s * aval + (255 - aval) * d) div 255" if "byte s" "byte d" for s d
    using lerp_range(1) [OF assms(2) that] by (simp add: pos_imp_zdiv_nonneg_iff)
  show ?thesis
    unfolding blendSrcOver8888_pre_eq [OF assms(2-5)]
    using assms
    by (intro premul_argb div255_lerp(2) lerp_mono n) (auto simp: premul_def byte_def)
qed

text \<open>The fast path of the blitters for full alpha stores exactly what the blend would.\<close>

lemma blendSrcOver8888_pre_full:
  assumes "byte r" "byte g" "byte b"
  shows "blendSrcOver8888_pre p 255 r g b = argb 255 r g b"
  using assms by (simp add: blendSrcOver8888_pre_eq byte_def)

lemma blendSrcOver8888_pre_zero:
  assumes "jint_range p" "byte r" "byte g" "byte b"
  shows "blendSrcOver8888_pre p 0 r g b = p"
  using assms by (simp add: blendSrcOver8888_pre_eq byte_def argb_eqI)

text \<open>Premultiplied sources: the coverage \<open>frac\<close> is out of 256.\<close>

lemma scale_range:
  fixes s frac :: int
  assumes "byte s" "0 \<le> frac" "frac \<le> 256"
  shows "sar (i32 (s * frac)) 8 = s * frac div 256" "0 \<le> s * frac div 256" "s * frac div 256 \<le> s"
proof -
  have u: "s * frac \<le> s * 256" and u': "s * 256 \<le> 255 * 256" and l: "0 \<le> s * frac"
    using assms unfolding byte_def by (auto intro: mult_left_mono)
  have "i32 (s * frac) = s * frac" using u u' l by (intro i32_id) auto
  then show "sar (i32 (s * frac)) 8 = s * frac div 256" by (simp add: sar_def)
  show "0 \<le> s * frac div 256" using l by (simp add: pos_imp_zdiv_nonneg_iff)
  show "s * frac div 256 \<le> s" using zdiv_mono1 [OF u, of 256] by simp
qed

lemma over_sum:
  assumes "byte a" "byte d" "0 \<le> s" "s \<le> a"
  shows "i32 (s + div255 (i32 ((255 - a) * d))) = s + (255 - a) * d div 255"
    and "0 \<le> s + (255 - a) * d div 255" "s + (255 - a) * d div 255 \<le> 255"
proof -
  have b: "byte (255 - a)" using assms(1) by (auto simp: byte_def)
  note r = div255_prod [OF b assms(2)]
  show l: "0 \<le> s + (255 - a) * d div 255" using assms r by simp
  show u: "s + (255 - a) * d div 255 \<le> 255" using assms r by simp
  show "i32 (s + div255 (i32 ((255 - a) * d))) = s + (255 - a) * d div 255"
    unfolding r(1) using l u by (intro i32_id) auto
qed

lemma blendSrcOver8888_pre_pre_eq:
  assumes "byte a" "0 \<le> frac" "frac \<le> 256" "0 \<le> r" "r \<le> a" "0 \<le> g" "g \<le> a" "0 \<le> b" "b \<le> a"
  defines "a2 \<equiv> a * frac div 256"
  shows "blendSrcOver8888_pre_pre p frac a r g b =
    argb (a2 + (255 - a2) * pxA p div 255) (r * frac div 256 + (255 - a2) * pxR p div 255)
         (g * frac div 256 + (255 - a2) * pxG p div 255) (b * frac div 256 + (255 - a2) * pxB p div 255)"
proof -
  have bytes: "byte r" "byte g" "byte b" using assms by (auto simp: byte_def)
  have a2: "byte a2" using assms(1) scale_range [OF assms(1-3)] by (auto simp: byte_def a2_def)
  have le: "s * frac div 256 \<le> a2" if "s \<le> a" for s
    unfolding a2_def using that assms by (intro zdiv_mono1 mult_right_mono) auto
  note sc = scale_range(1) [OF assms(1-3)] scale_range(1) [OF bytes(1) assms(2,3)]
    scale_range(1) [OF bytes(2) assms(2,3)] scale_range(1) [OF bytes(3) assms(2,3)]
  show ?thesis
    unfolding blendSrcOver8888_pre_pre_def Let_def fold_px sc
    using assms a2 scale_range(2) [OF bytes(1) assms(2,3)] scale_range(2) [OF bytes(2) assms(2,3)]
      scale_range(2) [OF bytes(3) assms(2,3)] scale_range(2) [OF assms(1-3)]
    by (simp add: a2_def [symmetric] i32_complement over_sum le)
qed

lemma premul_blendSrcOver8888_pre_pre:
  assumes "premul p" "byte a" "0 \<le> frac" "frac \<le> 256"
    "0 \<le> r" "r \<le> a" "0 \<le> g" "g \<le> a" "0 \<le> b" "b \<le> a"
  shows "premul (blendSrcOver8888_pre_pre p frac a r g b)"
proof -
  define a2 where "a2 = a * frac div 256"
  have a2: "byte a2" using assms(2) scale_range [OF assms(2-4)] by (auto simp: byte_def a2_def)
  have b2: "byte (255 - a2)" using a2 by (auto simp: byte_def)
  have nonneg: "0 \<le> s * frac div 256 + (255 - a2) * d div 255" if "0 \<le> s" "byte d" for s d
    using that assms(3) div255_prod [OF b2 that(2)] by (simp add: pos_imp_zdiv_nonneg_iff)
  have le: "s * frac div 256 + (255 - a2) * d div 255 \<le> a2 + (255 - a2) * pxA p div 255"
    if "s \<le> a" "d \<le> pxA p" for s d
    unfolding a2_def using that assms b2
    by (intro add_mono zdiv_mono1 mult_right_mono mult_left_mono) (auto simp: byte_def a2_def)
  have top: "byte (a2 + (255 - a2) * pxA p div 255)"
    using over_sum(2,3) [OF a2 byte_px(1) [of p], of a2] a2 by (auto simp: byte_def)
  show ?thesis
    unfolding blendSrcOver8888_pre_pre_eq [OF assms(2-10)]
    unfolding a2_def [symmetric]
    using assms by (intro premul_argb top nonneg le) (auto simp: premul_def)
qed

text \<open>The full-coverage variant is the general routine at \<open>frac = 256\<close>.\<close>

lemma fullFrac_eq:
  assumes "byte a" "0 \<le> r" "r \<le> a" "0 \<le> g" "g \<le> a" "0 \<le> b" "b \<le> a"
  shows "blendSrcOver8888_pre_pre_fullFrac p a r g b = blendSrcOver8888_pre_pre p 256 a r g b"
proof -
  have "blendSrcOver8888_pre_pre p 256 a r g b =
      argb (a + (255 - a) * pxA p div 255) (r + (255 - a) * pxR p div 255)
           (g + (255 - a) * pxG p div 255) (b + (255 - a) * pxB p div 255)"
    using assms by (subst blendSrcOver8888_pre_pre_eq) auto
  also have "\<dots> = blendSrcOver8888_pre_pre_fullFrac p a r g b"
    unfolding blendSrcOver8888_pre_pre_fullFrac_def Let_def fold_px
    using assms by (simp add: i32_complement over_sum byte_def)
  finally show ?thesis by simp
qed

text \<open>The Src blends, with the coverage of the source in \<open>aval\<close> and its complement in \<open>raaval\<close>.\<close>

lemma src_sum:
  assumes "0 \<le> aval" "0 \<le> ra" "aval + ra \<le> 255" "byte s" "byte d"
  shows "div255 (i32 (aval * s + ra * d)) = (aval * s + ra * d) div 255"
    and "i32 (aval * s + ra * d) = aval * s + ra * d"
    and "0 \<le> aval * s + ra * d" "aval * s + ra * d \<le> 255 * 255"
proof -
  have "aval * s \<le> aval * 255" "ra * d \<le> ra * 255"
    using assms unfolding byte_def by (intro mult_left_mono; simp)+
  then show u: "aval * s + ra * d \<le> 255 * 255" using assms(3) by linarith
  show l: "0 \<le> aval * s + ra * d" using assms by (auto simp: byte_def)
  show i: "i32 (aval * s + ra * d) = aval * s + ra * d" using u l by (intro i32_id) auto
  show "div255 (i32 (aval * s + ra * d)) = (aval * s + ra * d) div 255"
    unfolding i using u l by (intro div255_exact) auto
qed

lemma blendSrc8888_pre_eq:
  assumes "0 \<le> aval" "0 \<le> ra" "aval + ra \<le> 255" "byte r" "byte g" "byte b"
  shows "blendSrc8888_pre p aval ra r g b =
    (if aval * 255 + ra * pxA p = 0 then 0
     else argb ((aval * 255 + ra * pxA p) div 255) ((aval * r + ra * pxR p) div 255)
               ((aval * g + ra * pxG p) div 255) ((aval * b + ra * pxB p) div 255))"
proof -
  have A: "255 * aval + pxA p * ra = aval * 255 + ra * pxA p" by (simp add: mult.commute)
  have b255: "byte 255" by (simp add: byte_def)
  note s = src_sum [OF assms(1-3)]
  have d: "div255 (aval * c + ra * e) = (aval * c + ra * e) div 255" if "byte c" "byte e" for c e
    using s(1,2) [OF that] by simp
  show ?thesis
    unfolding blendSrc8888_pre_def Let_def fold_px A
    by (simp add: s(2) d b255 assms)
qed

lemma premulD: "premul p \<Longrightarrow> pxR p \<le> pxA p" "premul p \<Longrightarrow> pxG p \<le> pxA p" "premul p \<Longrightarrow> pxB p \<le> pxA p"
  by (simp_all add: premul_def)

lemma premul_0: "premul 0"
  by (simp add: premul_def pxA_def pxR_def pxG_def pxB_def sar_def)

lemma premul_blendSrc8888_pre:
  assumes "premul p" "0 \<le> aval" "0 \<le> ra" "aval + ra \<le> 255" "byte r" "byte g" "byte b"
  shows "premul (blendSrc8888_pre p aval ra r g b)"
proof -
  have b255: "byte 255" by (simp add: byte_def)
  note s = src_sum [OF assms(2-4)]
  have le: "(aval * c + ra * d) div 255 \<le> (aval * 255 + ra * pxA p) div 255"
    if "byte c" "d \<le> pxA p" for c d
    using that assms(2,3) by (intro zdiv_mono1 add_mono mult_left_mono) (auto simp: byte_def)
  have top: "byte ((aval * 255 + ra * pxA p) div 255)"
    using s(3,4) [OF b255 byte_px(1) [of p]] by (auto simp: byte_def)
  have n: "0 \<le> (aval * c + ra * d) div 255" if "byte c" "byte d" for c d
    using s(3) [OF that] by (simp add: pos_imp_zdiv_nonneg_iff)
  have "premul (argb ((aval * 255 + ra * pxA p) div 255) ((aval * r + ra * pxR p) div 255)
      ((aval * g + ra * pxG p) div 255) ((aval * b + ra * pxB p) div 255))"
    using assms by (intro premul_argb top le n) (auto simp: premul_def)
  then show ?thesis
    unfolding blendSrc8888_pre_eq [OF assms(2-7)] by (simp add: premul_0)
qed

section \<open>The contract of a pixel kernel\<close>

text \<open>
  A kernel \<open>k c\<close> maps the old value of a pixel to the new one, for a parameter \<open>c\<close> (coverage
  and colour). The rows and rectangles of the next theory only rely on this contract.
\<close>

locale pixel_kernel =
  fixes k :: "'c \<Rightarrow> jint \<Rightarrow> jint"
    and valid :: "'c \<Rightarrow> bool"
  assumes keeps_premul: "valid c \<Longrightarrow> premul p \<Longrightarrow> premul (k c p)"
begin

lemma premul_upd_range:
  assumes "\<forall>p\<in>set xs. premul p" "\<And>i. 0 \<le> i \<Longrightarrow> i < n \<Longrightarrow> valid (c i)"
  shows "\<forall>p\<in>set (upd_range lo n (\<lambda>i. k (c i)) xs). premul p"
proof -
  have "premul (xs ! i)" if "i < length xs" for i using assms(1) that by auto
  then show ?thesis using assms(2) by (auto simp: in_set_conv_nth intro!: keeps_premul)
qed

lemma premul_iterate:
  assumes "premul p" "\<forall>c\<in>set cs. valid c"
  shows "premul (fold k cs p)"
  using assms by (induction cs arbitrary: p) (auto intro: keeps_premul)

end

interpretation over_flat: pixel_kernel
  "\<lambda>(aval, r, g, b) p. blendSrcOver8888_pre p aval r g b"
  "\<lambda>(aval, r, g, b). byte aval \<and> byte r \<and> byte g \<and> byte b"
  by unfold_locales (auto intro: premul_blendSrcOver8888_pre)

interpretation over_paint: pixel_kernel
  "\<lambda>(frac, s) p. blendSrcOver8888_pre_pre p frac (pxA s) (pxR s) (pxG s) (pxB s)"
  "\<lambda>(frac, s). 0 \<le> frac \<and> frac \<le> 256 \<and> premul s"
  by unfold_locales (auto intro: premul_blendSrcOver8888_pre_pre dest: premulD)

interpretation src_flat: pixel_kernel
  "\<lambda>(aval, ra, r, g, b) p. blendSrc8888_pre p aval ra r g b"
  "\<lambda>(aval, ra, r, g, b). 0 \<le> aval \<and> 0 \<le> ra \<and> aval + ra \<le> 255 \<and> byte r \<and> byte g \<and> byte b"
  by unfold_locales (auto intro: premul_blendSrc8888_pre)

end
