(* ===== verification/Pisces_State.thy ===== *)
theory Pisces_State
  imports Pisces_Blend
begin

text \<open>
  The data of the software renderer: \<open>Surface\<close> (\<open>PiscesSurface.h\<close>), \<open>Transform6\<close>
  (\<open>PiscesTransform.h\<close>) and \<open>Renderer\<close> (\<open>PiscesRenderer.h\<close>). The members of \<open>Renderer\<close> keep their names with the
  prefix \<open>r_\<close>; those that belong together are kept in records of their own: the table of function
  pointers, the texture and the gradient. A function pointer is a value of a datatype with
  one constructor per routine and \<open>NULL\<close>.

  Floating point is not interpreted: \<open>'f\<close> is the type of C's floats and \<open>float_ops\<close> the
  operations the code uses, parameters of the definitions that compute with them. What is
  proved of those definitions holds for every float arithmetic.
\<close>

section \<open>Constants of RendererBase and PiscesRenderer.h\<close>

definition COMPOSITE_CLEAR :: jint where "COMPOSITE_CLEAR = 0"
definition COMPOSITE_SRC :: jint where "COMPOSITE_SRC = 1"
definition COMPOSITE_SRC_OVER :: jint where "COMPOSITE_SRC_OVER = 2"
definition TYPE_INT_ARGB_PRE :: jint where "TYPE_INT_ARGB_PRE = 1"
definition IMAGE_MODE_NORMAL :: jint where "IMAGE_MODE_NORMAL = 1"
definition IMAGE_FRAC_EDGE_KEEP :: jint where "IMAGE_FRAC_EDGE_KEEP = 0"
definition IMAGE_FRAC_EDGE_PAD :: jint where "IMAGE_FRAC_EDGE_PAD = 1"
definition IMAGE_FRAC_EDGE_TRIM :: jint where "IMAGE_FRAC_EDGE_TRIM = 2"

definition PAINT_FLAT_COLOR :: jint where "PAINT_FLAT_COLOR = 0"
definition PAINT_LINEAR_GRADIENT :: jint where "PAINT_LINEAR_GRADIENT = 1"
definition PAINT_RADIAL_GRADIENT :: jint where "PAINT_RADIAL_GRADIENT = 2"
definition PAINT_TEXTURE8888 :: jint where "PAINT_TEXTURE8888 = 4"
definition PAINT_TEXTURE8888_MULTIPLY :: jint where "PAINT_TEXTURE8888_MULTIPLY = 5"

definition CYCLE_NONE :: jint where "CYCLE_NONE = 0"
definition CYCLE_REPEAT :: jint where "CYCLE_REPEAT = 1"
definition CYCLE_REFLECT :: jint where "CYCLE_REFLECT = 2"

definition NO_MASK :: jint where "NO_MASK = 0"
definition ALPHA_MASK :: jint where "ALPHA_MASK = 1"
definition LCD_ALPHA_MASK :: jint where "LCD_ALPHA_MASK = 2"

definition TEXTURE_TRANSFORM_IDENTITY :: jint where "TEXTURE_TRANSFORM_IDENTITY = 1"
definition TEXTURE_TRANSFORM_TRANSLATE :: jint where "TEXTURE_TRANSFORM_TRANSLATE = 2"
definition TEXTURE_TRANSFORM_SCALE_TRANSLATE :: jint where "TEXTURE_TRANSFORM_SCALE_TRANSLATE = 3"
definition TEXTURE_TRANSFORM_GENERIC :: jint where "TEXTURE_TRANSFORM_GENERIC = 4"

lemmas pisces_consts = COMPOSITE_CLEAR_def COMPOSITE_SRC_def COMPOSITE_SRC_OVER_def
  TYPE_INT_ARGB_PRE_def IMAGE_MODE_NORMAL_def IMAGE_FRAC_EDGE_KEEP_def IMAGE_FRAC_EDGE_PAD_def
  IMAGE_FRAC_EDGE_TRIM_def PAINT_FLAT_COLOR_def PAINT_LINEAR_GRADIENT_def
  PAINT_RADIAL_GRADIENT_def PAINT_TEXTURE8888_def PAINT_TEXTURE8888_MULTIPLY_def CYCLE_NONE_def
  CYCLE_REPEAT_def CYCLE_REFLECT_def NO_MASK_def ALPHA_MASK_def LCD_ALPHA_MASK_def
  TEXTURE_TRANSFORM_IDENTITY_def TEXTURE_TRANSFORM_TRANSLATE_def
  TEXTURE_TRANSFORM_SCALE_TRANSLATE_def TEXTURE_TRANSFORM_GENERIC_def MAX_ALPHA_def

section \<open>Floating point as a parameter\<close>

text \<open>\<open>f_add_sqrt u v\<close> is \<open>(jint)(u + sqrt(v))\<close>, which the source computes in double precision.\<close>

record 'f float_ops =
  f_of_int :: "int \<Rightarrow> 'f"
  f_add :: "'f \<Rightarrow> 'f \<Rightarrow> 'f"
  f_sub :: "'f \<Rightarrow> 'f \<Rightarrow> 'f"
  f_mul :: "'f \<Rightarrow> 'f \<Rightarrow> 'f"
  f_div :: "'f \<Rightarrow> 'f \<Rightarrow> 'f"
  f_neg :: "'f \<Rightarrow> 'f"
  f_less :: "'f \<Rightarrow> 'f \<Rightarrow> bool"
  f_to_jint :: "'f \<Rightarrow> jint"
  f_add_sqrt :: "'f \<Rightarrow> 'f \<Rightarrow> jint"
  f_sqrt :: "'f \<Rightarrow> 'f"

section \<open>Surface and transforms\<close>

record surface =
  s_width :: jint
  s_height :: jint
  s_offset :: jint
  s_scanlineStride :: jint
  s_pixelStride :: jint
  s_imageType :: jint
  s_data :: "jint buf"

record transform6 =
  m00 :: jint
  m01 :: jint
  m10 :: jint
  m11 :: jint
  m02 :: jint
  m12 :: jint

section \<open>Function pointers\<close>

datatype blit_fn = BlitNULL
  | BlitSrcOver8888_pre | BlitPTSrcOver8888_pre | BlitSrc8888_pre | BlitPTSrc8888_pre
  | BlitSrcOverMask8888_pre | BlitPTSrcOverMask8888_pre | BlitSrcMask8888_pre | BlitPTSrcMask8888_pre
  | BlitSrcOverLCDMask8888_pre

datatype emit_fn = EmitNULL
  | EmitLineSource8888_pre | EmitLineSourceOver8888_pre
  | EmitLinePTSource8888_pre | EmitLinePTSourceOver8888_pre

datatype clear_fn = ClearNULL | ClearRect8888_any

datatype gen_fn = GenNULL
  | GenLinearGradientPaint | GenRadialGradientPaint | GenTexturePaint | GenTexturePaintMultiply

record routines =
  bl_SourceOverMask :: blit_fn
  bl_PT_SourceOverMask :: blit_fn
  bl_SourceMask :: blit_fn
  bl_PT_SourceMask :: blit_fn
  bl_SourceOverLCDMask :: blit_fn
  bl_PT_SourceOverLCDMask :: blit_fn
  bl_SourceLCDMask :: blit_fn
  bl_PT_SourceLCDMask :: blit_fn
  bl_SourceOverNoMask :: blit_fn
  bl_PT_SourceOverNoMask :: blit_fn
  bl_SourceNoMask :: blit_fn
  bl_PT_SourceNoMask :: blit_fn
  bl_SourceOver :: blit_fn
  bl_PT_SourceOver :: blit_fn
  bl_Source :: blit_fn
  bl_PT_Source :: blit_fn
  el_Source :: emit_fn
  el_SourceOver :: emit_fn
  el_PT_Source :: emit_fn
  el_PT_SourceOver :: emit_fn
  bl_Clear :: blit_fn
  bl_PT_Clear :: blit_fn
  bl :: blit_fn
  bl_PT :: blit_fn
  el :: emit_fn
  el_PT :: emit_fn
  clearRect_fn :: clear_fn
  emitRows :: blit_fn
  emitLine :: emit_fn
  genPaint :: gen_fn

section \<open>Paint sources\<close>

text \<open>
  The texture pointer \<open>_texture_intData\<close> may point into a Java array (\<open>data + offset\<close>): it is a
  block and the offset of the pointer in it.
\<close>

record texture =
  tx_intData :: "jint buf"
  tx_base :: int
  tx_hasAlpha :: bool
  tx_imageWidth :: jint
  tx_imageHeight :: jint
  tx_stride :: jint
  txMin :: jint
  tyMin :: jint
  txMax :: jint
  tyMax :: jint
  tx_repeat :: bool
  tx_m00 :: jlong
  tx_m01 :: jlong
  tx_m02 :: jlong
  tx_m10 :: jlong
  tx_m11 :: jlong
  tx_m12 :: jlong
  tx_interpolate :: bool
  tx_transformType :: jint
  tx_free :: bool

record 'f gradient =
  lg_mx :: 'f
  lg_my :: 'f
  lg_b :: 'f
  rg_a00 :: 'f
  rg_a01 :: 'f
  rg_a02 :: 'f
  rg_a10 :: 'f
  rg_a11 :: 'f
  rg_a12 :: 'f
  rg_cx :: 'f
  rg_cy :: 'f
  rg_fx :: 'f
  rg_fy :: 'f
  rg_r :: 'f
  rg_rsq :: 'f
  rg_a00a00 :: 'f
  rg_a10a10 :: 'f
  rg_a00a10 :: 'f
  gradient_colors :: "jint list"
  gradient_cycleMethod :: jint
  gradient_transform :: transform6
  gradient_inverse_transform :: transform6

section \<open>The renderer\<close>

record 'f renderer =
  r_paintMode :: jint
  r_prevPaintMode :: jint
  r_ured :: jint
  r_ugreen :: jint
  r_ublue :: jint
  r_ualpha :: jint
  r_cred :: jint
  r_cgreen :: jint
  r_cblue :: jint
  r_calpha :: jint
  r_compositeRule :: jint
  r_data :: "jint buf"
  r_width :: jint
  r_height :: jint
  r_imageOffset :: jint
  r_imageScanlineStride :: jint
  r_imagePixelStride :: jint
  r_imageType :: jint
  r_fns :: routines
  r_rowNum :: jint
  r_alphaWidth :: jint
  r_minTouched :: jint
  r_maxTouched :: jint
  r_currX :: jint
  r_currY :: jint
  r_currImageOffset :: jint
  r_alphaMap :: "jint buf"
  r_rowAAInt :: "jint buf"
  r_rectX :: jint
  r_rectY :: jint
  r_mask_free :: bool
  r_maskType :: jint
  r_mask_byteData :: "jint buf"
  r_maskOffset :: jint
  r_mask_width :: jint
  r_mask_height :: jint
  r_paint :: "jint buf"
  r_paint_transform :: transform6
  r_gradient :: "'f gradient"
  r_texture :: texture
  r_clip_bbMinX :: jint
  r_clip_bbMinY :: jint
  r_clip_bbMaxX :: jint
  r_clip_bbMaxY :: jint
  r_el_lfrac :: jint
  r_el_rfrac :: jint
  r_rendererState :: jint

end
