(* ===== verification/Pisces_Rows.thy ===== *)
theory Pisces_Rows
  imports Pisces_State
begin

text \<open>
  The loop over rows that the blit and the paint routines have in common, and the contract of a
  row from which its effect on a rectangle follows.
\<close>

text \<open>
  The \<open>for\<close> loop over the rows; \<open>off\<close> is the running offset of the row in the image, \<open>po\<close> that
  of the row in the paint buffer or in the mask.
\<close>

definition row_loop ::
  "jint \<Rightarrow> jint \<Rightarrow> (jint \<Rightarrow> jint \<Rightarrow> jint buf \<Rightarrow> jint buf option) \<Rightarrow> nat \<Rightarrow>
   jint \<Rightarrow> jint \<Rightarrow> jint buf \<Rightarrow> jint buf option" where
  "row_loop stride pstride row n off po data =
    do {
      (data, _, _) \<leftarrow>
        loopM (\<lambda>_ (data, off, po). do {
            data \<leftarrow> row off po data;
            Some (data, i32 (off + stride), i32 (po + pstride)) }) 0 n (data, off, po);
      Some data
    }"

section \<open>Rows and rectangles\<close>

text \<open>
  The contract of a row routine with parameters \<open>p\<close>: on the row that starts at \<open>a\<close>, with the paint
  or mask offset \<open>po\<close>, it changes the \<open>W p\<close> pixels from \<open>a\<close> on by \<open>G p po\<close> and nothing else.
\<close>

locale row_painter =
  fixes row :: "'p \<Rightarrow> jint \<Rightarrow> jint \<Rightarrow> jint buf \<Rightarrow> jint buf option"
    and W :: "'p \<Rightarrow> int"
    and G :: "'p \<Rightarrow> jint \<Rightarrow> int \<Rightarrow> jint \<Rightarrow> jint"
    and ok :: "'p \<Rightarrow> jint \<Rightarrow> bool"
  assumes row_exact: "ok p po \<Longrightarrow> 0 \<le> a \<Longrightarrow> a + W p \<le> int (length xs) \<Longrightarrow> int (length xs) < 2147483648 \<Longrightarrow>
      row p a po (Some xs) = Some (Some (upd_range a (W p) (G p po) xs))"
begin

lemma rows_exact:
  assumes W: "0 \<le> W p" "W p \<le> stride" "0 < stride"
    and lo: "0 \<le> lo" "n = 0 \<or> lo + (int n - 1) * stride + W p \<le> int (length xs)"
    and len: "int (length xs) < 2147483648"
    and adr: "\<And>k. 0 \<le> k \<Longrightarrow> k < int n \<Longrightarrow> adr (i32 (off + k * stride)) = lo + k * stride"
    and ok: "\<And>j. 0 \<le> j \<Longrightarrow> j < int n \<Longrightarrow> ok p (i32 (po + j * pstride))"
    and po: "jint_range off" "jint_range po"
  shows "row_loop stride pstride (\<lambda>off. row p (adr off)) n off po (Some xs)
    = Some (Some (upd_rect lo stride (W p) (int n) (\<lambda>j. G p (i32 (po + j * pstride))) xs))"
proof -
  let ?G = "\<lambda>j. G p (i32 (po + j * pstride))"
  let ?I = "\<lambda>k s. s = (Some (upd_rect lo stride (W p) k ?G xs), i32 (off + k * stride), i32 (po + k * pstride))"
  let ?f = "\<lambda>_ (data, off, po). do { data \<leftarrow> row p (adr off) po data;
      Some (data, i32 (off + stride), i32 (po + pstride)) }"
  have "\<exists>s. loopM ?f 0 n (Some xs, off, po) = Some s \<and> ?I (0 + int n) s"
  proof (rule loopM_inv)
    show "?I 0 (Some xs, off, po)"
      using W po by (simp add: i32_id jint_range_def)
  next
    fix k s assume k: "0 \<le> k" "k < 0 + int n" and s: "?I k s"
    have "k * stride \<le> (int n - 1) * stride" using k W by (intro mult_right_mono) auto
    then have fit: "lo + k * stride + W p \<le> int (length xs)" using lo(2) k by linarith
    have ge: "0 \<le> lo + k * stride" using lo(1) k W by simp
    have nxt: "i32 (i32 (x + k * d) + d) = i32 (x + (k + 1) * d)" for x d
      by (simp add: i32_add_left i32_add_right algebra_simps)
    have "ok p (i32 (po + k * pstride))" using ok k by simp
    then show "\<exists>s'. ?f k s = Some s' \<and> ?I (k + 1) s'"
      unfolding s using row_exact [of p "i32 (po + k * pstride)" "lo + k * stride"] ge fit k len
      by (simp add: adr nxt upd_rect_step [OF k(1) W(2,3), of lo ?G xs])
  qed
  then show ?thesis by (auto simp: row_loop_def)
qed

text \<open>Rows of an image, whose first touched pixel is \<open>m\<close> cells into the row.\<close>

lemma rect_exact:
  assumes W: "W p \<le> stride" "0 < stride"
    and lo: "0 \<le> off + m" "n = 0 \<or> off + m + (int n - 1) * stride + W p \<le> int (length xs)"
    and len: "int (length xs) < 2147483648" "0 \<le> W p"
    and ok: "\<And>j. 0 \<le> j \<Longrightarrow> j < int n \<Longrightarrow> ok p (i32 (po + j * pstride))"
    and po: "jint_range off" "jint_range po"
  shows "row_loop stride pstride (\<lambda>off. row p (i32 (off + m))) n off po (Some xs)
    = Some (Some (upd_rect (off + m) stride (W p) (int n) (\<lambda>j. G p (i32 (po + j * pstride))) xs))"
proof (rule rows_exact [OF len(2) W lo len(1) _ ok po])
  fix k assume k: "0 \<le> k" "k < int n"
  have "k * stride \<le> (int n - 1) * stride" using k W by (intro mult_right_mono) auto
  then have fit: "off + m + k * stride + W p \<le> int (length xs)" using lo(2) k by linarith
  have ge: "0 \<le> off + m + k * stride" using lo(1) k W by simp
  have "i32 (i32 (off + k * stride) + m) = i32 (off + m + k * stride)"
    by (simp add: i32_add_left i32_add_right algebra_simps)
  also have "\<dots> = off + m + k * stride" using fit ge len by (intro i32_id) auto
  finally show "i32 (i32 (off + k * stride) + m) = off + m + k * stride" .
qed

text \<open>Rows of a paint buffer, one after the other from its start.\<close>

lemma paint_exact:
  assumes W: "0 < W p" and len: "int n * W p \<le> int (length xs)" "int (length xs) < 2147483648"
    and ok: "\<And>j. 0 \<le> j \<Longrightarrow> j < int n \<Longrightarrow> ok p (i32 (po + j))" and po: "jint_range po"
  shows "row_loop (W p) 1 (row p) n 0 po (Some xs)
    = Some (Some (upd_rect 0 (W p) (W p) (int n) (\<lambda>j. G p (i32 (po + j))) xs))"
proof -
  have adr: "i32 (0 + k * W p) = 0 + k * W p" if "0 \<le> k" "k < int n" for k
  proof -
    have "k * W p \<le> int n * W p" using that W by (intro mult_right_mono) auto
    moreover have "0 \<le> k * W p" using that W by simp
    ultimately have "i32 (k * W p) = k * W p" using len by (intro i32_id) linarith+
    then show ?thesis by simp
  qed
  have "row_loop (W p) 1 (\<lambda>off. row p off) n 0 po (Some xs)
    = Some (Some (upd_rect 0 (W p) (W p) (int n) (\<lambda>j. G p (i32 (po + j * 1))) xs))"
    by (rule rows_exact [where adr = "\<lambda>off. off"])
       (use assms adr in \<open>auto simp: jint_range_def algebra_simps\<close>)
  then show ?thesis by simp
qed

end

end
