(* ===== verification/Pisces_Blit.thy ===== *)
theory Pisces_Blit
  imports Pisces_Rows
begin

text \<open>
  The scanline routines of \<open>PiscesBlit.c\<close>. The four \<open>emitLine\<close> routines fill rows of a
  rectangle whose left and right columns may be covered in part; they share the control
  structure \<open>emit_row\<close>. The \<open>blit\<close> routines take a coverage per pixel: from a row of deltas that is
  summed up and cleared on the way (\<open>aa_rows\<close>), or from a mask of bytes (\<open>mask_rows\<close>).

  Every routine returns \<open>None\<close> when it reads or writes outside a block. The lemmas give the
  exact pixels each row writes.
\<close>

section \<open>Control structure of the emitLine routines\<close>

text \<open>
  One row: \<open>a\<close> is the pixel pointer, \<open>aidx\<close> the index into the paint buffer, \<open>lk\<close>, \<open>mk\<close>
  and \<open>rk\<close> the changes of the left, the inner and the right pixels; those
  of a flat colour do not look at \<open>aidx\<close>.
\<close>

definition emit_row ::
  "bool \<Rightarrow> (int \<Rightarrow> jint \<Rightarrow> jint option) \<Rightarrow> (int \<Rightarrow> jint \<Rightarrow> jint option) \<Rightarrow>
   bool \<Rightarrow> (int \<Rightarrow> jint \<Rightarrow> jint option) \<Rightarrow> int \<Rightarrow> int \<Rightarrow> int \<Rightarrow> int \<Rightarrow> jint buf \<Rightarrow> jint buf option" where
  "emit_row lfrac lk mk rfrac rk ps w a aidx data =
    do {
      (data, a, aidx) \<leftarrow>
        (if lfrac then do { d \<leftarrow> upd_px data a (lk aidx); Some (d, a + ps, aidx + 1) }
         else Some (data, a, aidx));
      (a, data, aidx) \<leftarrow>
        px_loop (\<lambda>a (d, i). do { d' \<leftarrow> upd_px d a (mk i); Some (d', i + 1) }) ps a (a + w) (data, aidx);
      if rfrac then upd_px data a (rk aidx) else Some data
    }"

text \<open>\<open>row\<close> is given the index of the first touched pixel of the row, not of the row.\<close>

definition emit_rows ::
  "'f renderer \<Rightarrow> (jint \<Rightarrow> jint \<Rightarrow> jint buf \<Rightarrow> jint buf option) \<Rightarrow> jint \<Rightarrow> 'f renderer option" where
  "emit_rows rdr row height =
    do {
      data \<leftarrow>
        row_loop (r_imageScanlineStride rdr) (r_alphaWidth rdr)
          (\<lambda>off. row (i32 (off + r_minTouched rdr * r_imagePixelStride rdr)))
          (nat height) (r_currImageOffset rdr) 0 (r_data rdr);
      Some (rdr\<lparr>r_data := data\<rparr>)
    }"

section \<open>emitLine\<close>

definition emitLineSource8888_pre :: "'f renderer \<Rightarrow> jint \<Rightarrow> jint \<Rightarrow> 'f renderer option" where
  "emitLineSource8888_pre rdr height frac =
    (let calpha = r_calpha rdr; cred = r_cred rdr; cgreen = r_cgreen rdr; cblue = r_cblue rdr;
         lfrac = r_el_lfrac rdr; rfrac = r_el_rfrac rdr;
         w = i32 (r_alphaWidth rdr - (if lfrac \<noteq> 0 then 1 else 0) - (if rfrac \<noteq> 0 then 1 else 0));
         ps = r_imagePixelStride rdr
     in if frac = 0x10000 then
          (let pre_red = sar (i32 ((calpha + 1) * cred)) 8;
               pre_green = sar (i32 ((calpha + 1) * cgreen)) 8;
               pre_blue = sar (i32 ((calpha + 1) * cblue)) 8;
               pixel = argb calpha pre_red pre_green pre_blue
           in emit_rows rdr (\<lambda>a po. emit_row
                (lfrac \<noteq> 0) (\<lambda>_ p. Some (blendSrc8888_pre p calpha (255 - sar lfrac 8) cred cgreen cblue))
                (\<lambda>_ _. Some pixel)
                (rfrac \<noteq> 0) (\<lambda>_ p. Some (blendSrc8888_pre p calpha (255 - sar rfrac 8) cred cgreen cblue))
                ps w a po) height)
        else
          (let comp_frac = 255 - sar frac 8;
               lfrac = i32 (sar (i64 (lfrac * frac)) 16);
               rfrac = i32 (sar (i64 (rfrac * frac)) 16)
           in emit_rows rdr (\<lambda>a po. emit_row
                (lfrac \<noteq> 0) (\<lambda>_ p. Some (blendSrc8888_pre p calpha (255 - sar lfrac 8) cred cgreen cblue))
                (\<lambda>_ p. Some (blendSrc8888_pre p calpha comp_frac cred cgreen cblue))
                (rfrac \<noteq> 0) (\<lambda>_ p. Some (blendSrc8888_pre p calpha (255 - sar rfrac 8) cred cgreen cblue))
                ps w a po) height))"

definition emitLinePTSource8888_pre :: "'f renderer \<Rightarrow> jint \<Rightarrow> jint \<Rightarrow> 'f renderer option" where
  "emitLinePTSource8888_pre rdr height frac =
    (let comp_frac = 255 - sar frac 8;
         lfrac = i32 (sar (i64 (r_el_lfrac rdr * frac)) 16);
         rfrac = i32 (sar (i64 (r_el_rfrac rdr * frac)) 16);
         w = i32 (r_alphaWidth rdr - (if lfrac \<noteq> 0 then 1 else 0) - (if rfrac \<noteq> 0 then 1 else 0));
         ps = r_imagePixelStride rdr;
         blend = (\<lambda>ra aidx p. do {
           cval \<leftarrow> rd (r_paint rdr) aidx;
           Some (blendSrc8888_pre_pre p (pxA cval) ra (pxR cval) (pxG cval) (pxB cval)) })
     in emit_rows rdr (\<lambda>a paint_offset. emit_row
          (lfrac \<noteq> 0) (blend (255 - sar lfrac 8))
          (if frac = 0x10000 then (\<lambda>aidx _. rd (r_paint rdr) aidx) else blend comp_frac)
          (rfrac \<noteq> 0) (blend (255 - sar rfrac 8))
          ps w a paint_offset) height)"

definition emitLineSourceOver8888_pre :: "'f renderer \<Rightarrow> jint \<Rightarrow> jint \<Rightarrow> 'f renderer option" where
  "emitLineSourceOver8888_pre rdr height frac =
    (let calpha = r_calpha rdr; cred = r_cred rdr; cgreen = r_cgreen rdr; cblue = r_cblue rdr;
         alpha = sar (i32 (calpha * frac)) 16;
         lfrac = r_el_lfrac rdr; rfrac = r_el_rfrac rdr;
         w = i32 (r_alphaWidth rdr - (if lfrac \<noteq> 0 then 1 else 0) - (if rfrac \<noteq> 0 then 1 else 0));
         ps = r_imagePixelStride rdr
     in if alpha = MAX_ALPHA then
          (let solid_pixel = argb 0xFF cred cgreen cblue
           in emit_rows rdr (\<lambda>a po. emit_row
                (lfrac \<noteq> 0) (\<lambda>_ p. Some (blendSrcOver8888_pre p (sar lfrac 8) cred cgreen cblue))
                (\<lambda>_ _. Some solid_pixel)
                (rfrac \<noteq> 0) (\<lambda>_ p. Some (blendSrcOver8888_pre p (sar rfrac 8) cred cgreen cblue))
                ps w a po) height)
        else
          (let lalpha = sar (i32 (lfrac * alpha)) 16;
               ralpha = sar (i32 (rfrac * alpha)) 16
           in emit_rows rdr (\<lambda>a po. emit_row
                (lfrac \<noteq> 0) (\<lambda>_ p. Some (blendSrcOver8888_pre p lalpha cred cgreen cblue))
                (\<lambda>_ p. Some (blendSrcOver8888_pre p alpha cred cgreen cblue))
                (rfrac \<noteq> 0) (\<lambda>_ p. Some (blendSrcOver8888_pre p ralpha cred cgreen cblue))
                ps w a po) height))"

definition emitLinePTSourceOver8888_pre :: "'f renderer \<Rightarrow> jint \<Rightarrow> jint \<Rightarrow> 'f renderer option" where
  "emitLinePTSourceOver8888_pre rdr height frac =
    (let lfrac = i32 (sar (i64 (r_el_lfrac rdr * frac)) 16);
         rfrac = i32 (sar (i64 (r_el_rfrac rdr * frac)) 16);
         w = i32 (r_alphaWidth rdr - (if lfrac \<noteq> 0 then 1 else 0) - (if rfrac \<noteq> 0 then 1 else 0));
         ps = r_imagePixelStride rdr;
         blend = (\<lambda>fr aidx p. do {
           cval \<leftarrow> rd (r_paint rdr) aidx;
           Some (blendSrcOver8888_pre_pre p fr (pxA cval) (pxR cval) (pxG cval) (pxB cval)) });
         full = (\<lambda>aidx p. do {
           cval \<leftarrow> rd (r_paint rdr) aidx;
           let palpha = pxA cval;
           Some (if palpha = 0 then p
                 else if palpha = MAX_ALPHA then cval
                 else blendSrcOver8888_pre_pre_fullFrac p palpha (pxR cval) (pxG cval) (pxB cval)) })
     in emit_rows rdr (\<lambda>a paint_offset. emit_row
          (lfrac \<noteq> 0) (blend (sar lfrac 8))
          (if frac = 0x10000 then full else blend (sar frac 8))
          (rfrac \<noteq> 0) (blend (sar rfrac 8))
          ps w a paint_offset) height)"

section \<open>Control structure of the blit routines\<close>

definition touched_width :: "'f renderer \<Rightarrow> jint" where
  "touched_width rdr =
    (if r_maxTouched rdr \<ge> r_minTouched rdr
     then i32 (r_maxTouched rdr - r_minTouched rdr + 1) else 0)"

text \<open>
  The row of coverage deltas: \<open>aval_relative\<close> is their running sum, the row is cleared as it is read.
  \<open>px aidx rel iidx data\<close> is what the routine does with the pixel \<open>iidx\<close>.
\<close>

definition aa_rows ::
  "'f renderer \<Rightarrow> (int \<Rightarrow> jint \<Rightarrow> int \<Rightarrow> jint buf \<Rightarrow> jint buf option) \<Rightarrow> jint \<Rightarrow> 'f renderer option" where
  "aa_rows rdr px height =
    do {
      (data, row, _) \<leftarrow>
        loopM (\<lambda>j (data, row, imageOffset). do {
            (data, row, _, _) \<leftarrow>
              loopM (\<lambda>a (data, row, iidx, rel). do {
                  d \<leftarrow> rd row a;
                  let rel = i32 (rel + d);
                  row \<leftarrow> wr row a 0;
                  data \<leftarrow> px a rel iidx data;
                  Some (data, row, i32 (iidx + r_imagePixelStride rdr), rel) })
                0 (nat (touched_width rdr))
                (data, row, i32 (imageOffset + r_minTouched rdr * r_imagePixelStride rdr), 0);
            Some (data, row, i32 (imageOffset + r_imageScanlineStride rdr)) })
          0 (nat height) (r_data rdr, r_rowAAInt rdr, r_currImageOffset rdr);
      Some (rdr\<lparr>r_data := data, r_rowAAInt := row\<rparr>)
    }"

text \<open>
  The mask of bytes; \<open>n\<close> bytes per pixel and \<open>stride\<close> bytes from a row to the next. \<open>px i iidx\<close>
  is given the number of the pixel in the row and the index of its first byte.
\<close>

definition mask_rows ::
  "'f renderer \<Rightarrow> int \<Rightarrow> jint \<Rightarrow> (int \<Rightarrow> int \<Rightarrow> int \<Rightarrow> jint buf \<Rightarrow> jint buf option) \<Rightarrow> jint \<Rightarrow>
   'f renderer option" where
  "mask_rows rdr n stride px height =
    do {
      data \<leftarrow>
        row_loop (r_imageScanlineStride rdr) stride
          (\<lambda>imageOffset alphaOffset data. do {
            (data, _) \<leftarrow>
              loopM (\<lambda>i (data, iidx). do {
                  data \<leftarrow> px i (alphaOffset + n * i) iidx data;
                  Some (data, i32 (iidx + r_imagePixelStride rdr)) })
                0 (nat (touched_width rdr))
                (data, i32 (imageOffset + r_minTouched rdr * r_imagePixelStride rdr));
            Some data })
          (nat height) (r_currImageOffset rdr) (r_maskOffset rdr) (r_data rdr);
      Some (rdr\<lparr>r_data := data\<rparr>)
    }"

section \<open>blit\<close>

definition blitSrc8888_pre :: "'f renderer \<Rightarrow> jint \<Rightarrow> 'f renderer option" where
  "blitSrc8888_pre rdr height =
    (let calpha = r_calpha rdr; cred = r_cred rdr; cgreen = r_cgreen rdr; cblue = r_cblue rdr
     in aa_rows rdr (\<lambda>_ rel iidx data. do {
          m \<leftarrow> rd (r_alphaMap rdr) rel;
          let acoverage = m AND 0xff;
          if acoverage = MAX_ALPHA then wr data iidx (argb calpha cred cgreen cblue)
          else if acoverage > 0 then
            (let aval = sar (i32 ((acoverage + 1) * calpha)) 8
             in upd_px data iidx (\<lambda>p. Some (blendSrc8888_pre p aval (255 - acoverage) cred cgreen cblue)))
          else Some data }) height)"

definition blitSrcMask8888_pre :: "'f renderer \<Rightarrow> jint \<Rightarrow> 'f renderer option" where
  "blitSrcMask8888_pre rdr height =
    (let calpha = r_calpha rdr; cred = r_cred rdr; cgreen = r_cgreen rdr; cblue = r_cblue rdr
     in mask_rows rdr 1 (r_alphaWidth rdr) (\<lambda>_ a iidx data. do {
          m \<leftarrow> rd (r_mask_byteData rdr) a;
          let acoverage = m AND 0xff;
          if acoverage = MAX_ALPHA then wr data iidx (argb calpha cred cgreen cblue)
          else if acoverage > 0 then
            (let aval = sar (i32 ((acoverage + 1) * calpha)) 8
             in upd_px data iidx (\<lambda>p. Some (blendSrc8888_pre p aval (255 - acoverage) cred cgreen cblue)))
          else Some data }) height)"

definition blitPTSrc8888_pre :: "'f renderer \<Rightarrow> jint \<Rightarrow> 'f renderer option" where
  "blitPTSrc8888_pre rdr height =
    aa_rows rdr (\<lambda>aidx rel iidx data. do {
      cval \<leftarrow> rd (r_paint rdr) aidx;
      m \<leftarrow> rd (r_alphaMap rdr) rel;
      let acoverage = m AND 0xff;
      if acoverage = MAX_ALPHA then wr data iidx cval
      else if acoverage > 0 then
        (let aval = sar (i32 ((acoverage + 1) * pxA cval)) 8
         in upd_px data iidx
              (\<lambda>p. Some (blendSrc8888_pre_pre p aval (255 - acoverage) (pxR cval) (pxG cval) (pxB cval))))
      else Some data }) height"

definition blitPTSrcMask8888_pre :: "'f renderer \<Rightarrow> jint \<Rightarrow> 'f renderer option" where
  "blitPTSrcMask8888_pre rdr height =
    mask_rows rdr 1 0 (\<lambda>aidx a iidx data. do {
      cval \<leftarrow> rd (r_paint rdr) aidx;
      m \<leftarrow> rd (r_mask_byteData rdr) a;
      let acoverage = m AND 0xff;
      if acoverage = MAX_ALPHA then wr data iidx cval
      else if acoverage > 0 then
        (let aval = sar (i32 ((acoverage + 1) * pxA cval)) 8
         in upd_px data iidx
              (\<lambda>p. Some (blendSrc8888_pre_pre p aval (255 - acoverage) (pxR cval) (pxG cval) (pxB cval))))
      else Some data }) height"

definition blitSrcOver8888_pre :: "'f renderer \<Rightarrow> jint \<Rightarrow> 'f renderer option" where
  "blitSrcOver8888_pre rdr height =
    (let calpha = r_calpha rdr; cred = r_cred rdr; cgreen = r_cgreen rdr; cblue = r_cblue rdr
     in aa_rows rdr (\<lambda>_ rel iidx data.
          if rel \<noteq> 0 then do {
            m \<leftarrow> rd (r_alphaMap rdr) rel;
            let aval = sar (i32 (((m AND 0xff) + 1) * calpha)) 8;
            if aval = MAX_ALPHA then wr data iidx (argb 0xff cred cgreen cblue)
            else if aval > 0 then upd_px data iidx (\<lambda>p. Some (blendSrcOver8888_pre p aval cred cgreen cblue))
            else Some data }
          else Some data) height)"

definition blitSrcOverMask8888_pre :: "'f renderer \<Rightarrow> jint \<Rightarrow> 'f renderer option" where
  "blitSrcOverMask8888_pre rdr height =
    (let calpha = r_calpha rdr; cred = r_cred rdr; cgreen = r_cgreen rdr; cblue = r_cblue rdr
     in mask_rows rdr 1 (r_alphaWidth rdr) (\<lambda>_ a iidx data. do {
          m \<leftarrow> rd (r_mask_byteData rdr) a;
          if m \<noteq> 0 then
            (let aval = sar (i32 (((m AND 0xff) + 1) * calpha)) 8
             in if aval = MAX_ALPHA then wr data iidx (argb 0xff cred cgreen cblue)
                else if aval > 0 then
                  upd_px data iidx (\<lambda>p. Some (blendSrcOver8888_pre p aval cred cgreen cblue))
                else Some data)
          else Some data }) height)"

definition blitSrcOverLCDMask8888_pre ::
  "'f gamma_tables \<Rightarrow> 'f renderer \<Rightarrow> jint \<Rightarrow> 'f renderer option" where
  "blitSrcOverLCDMask8888_pre gt rdr height =
    do {
      calpha \<leftarrow> rd (Some (invGammaArray gt)) (r_calpha rdr);
      cred \<leftarrow> rd (Some (invGammaArray gt)) (r_cred rdr);
      cgreen \<leftarrow> rd (Some (invGammaArray gt)) (r_cgreen rdr);
      cblue \<leftarrow> rd (Some (invGammaArray gt)) (r_cblue rdr);
      mask_rows rdr 3 (r_alphaWidth rdr) (\<lambda>_ a iidx data. do {
          m0 \<leftarrow> rd (r_mask_byteData rdr) a;
          m1 \<leftarrow> rd (r_mask_byteData rdr) (a + 1);
          m2 \<leftarrow> rd (r_mask_byteData rdr) (a + 2);
          let scale = (\<lambda>m. if calpha < MAX_ALPHA then sar (i32 (((m AND 0xff) + 1) * calpha)) 8
                           else m AND 0xff);
          let ared = scale m0;
          let agreen = scale m1;
          let ablue = scale m2;
          if (ared AND agreen AND ablue) = MAX_ALPHA then wr data iidx (argb 0xff cred cgreen cblue)
          else upd_px data iidx
                 (\<lambda>p. blendLCDSrcOver8888_pre gt p ared agreen ablue cred cgreen cblue) }) height
    }"

definition blitPTSrcOver8888_pre :: "'f renderer \<Rightarrow> jint \<Rightarrow> 'f renderer option" where
  "blitPTSrcOver8888_pre rdr height =
    aa_rows rdr (\<lambda>aidx rel iidx data. do {
      cval \<leftarrow> rd (r_paint rdr) aidx;
      let palpha = pxA cval;
      if rel \<noteq> 0 then do {
        m \<leftarrow> rd (r_alphaMap rdr) rel;
        let malpha = m AND 0xff;
        let aval = sar (i32 ((malpha + 1) * palpha)) 8;
        if aval = MAX_ALPHA then wr data iidx cval
        else if aval > 0 then
          upd_px data iidx
            (\<lambda>p. Some (blendSrcOver8888_pre_pre p (malpha + 1) palpha (pxR cval) (pxG cval) (pxB cval)))
        else Some data }
      else Some data }) height"

definition blitPTSrcOverMask8888_pre :: "'f renderer \<Rightarrow> jint \<Rightarrow> 'f renderer option" where
  "blitPTSrcOverMask8888_pre rdr height =
    mask_rows rdr 1 0 (\<lambda>aidx a iidx data. do {
      m \<leftarrow> rd (r_mask_byteData rdr) a;
      if m \<noteq> 0 then do {
        cval \<leftarrow> rd (r_paint rdr) aidx;
        let palpha = pxA cval;
        let malpha = m AND 0xff;
        let aval = sar (i32 ((malpha + 1) * palpha)) 8;
        if aval = MAX_ALPHA then wr data iidx cval
        else if aval > 0 then
          upd_px data iidx
            (\<lambda>p. Some (blendSrcOver8888_pre_pre p (malpha + 1) palpha (pxR cval) (pxG cval) (pxB cval)))
        else Some data }
      else Some data }) height"

section \<open>clearRect\<close>

text \<open>
  \<open>memset\<close> and \<open>memcpy\<close> of \<open>n\<close> cells, as loops over the cells. Their size is a \<open>size_t\<close>: a negative
  one is far beyond every block.
\<close>

definition fill_cells :: "'a buf \<Rightarrow> int \<Rightarrow> int \<Rightarrow> 'a \<Rightarrow> 'a buf option" where
  "fill_cells b at n v = (if n < 0 then None else loopM (\<lambda>i b. wr b i v) at (nat n) b)"

definition copy_cells :: "'a buf \<Rightarrow> int \<Rightarrow> int \<Rightarrow> int \<Rightarrow> 'a buf option" where
  "copy_cells b dst src n =
    (if n < 0 then None
     else loopM (\<lambda>i b. do { v \<leftarrow> rd b (src + (i - dst)); wr b i v }) dst (nat n) b)"

definition clearRect8888_any ::
  "'f renderer \<Rightarrow> jint \<Rightarrow> jint \<Rightarrow> jint \<Rightarrow> jint \<Rightarrow> 'f renderer option" where
  "clearRect8888_any rdr x y w h =
    (let cval = argb (r_calpha rdr) (r_cred rdr) (r_cgreen rdr) (r_cblue rdr);
         stride = r_imageScanlineStride rdr;
         intData = r_imageOffset rdr + i32 (y * stride) + i32 (x * r_imagePixelStride rdr)
     in do {
       data \<leftarrow>
         (if cval = 0 then
            (if x = 0 \<and> w = r_width rdr then fill_cells (r_data rdr) intData (w * h) 0
             else do {
               (data, _) \<leftarrow> loopM (\<lambda>_ (data, p). do {
                   data \<leftarrow> fill_cells data p w 0;
                   Some (data, p + stride) }) 0 (nat h) (r_data rdr, intData);
               Some data })
          else do {
            data \<leftarrow> loopM (\<lambda>i b. wr b i cval) intData (nat w) (r_data rdr);
            (data, _) \<leftarrow> loopM (\<lambda>_ (data, p). do {
                data \<leftarrow> copy_cells data p intData w;
                Some (data, p + stride) }) 0 (nat (h - 1)) (data, intData + stride);
            Some data });
       Some (rdr\<lparr>r_data := data\<rparr>)
     })"

section \<open>Rows of the emitLine routines\<close>

text \<open>The row of the \<open>emitLine\<close> routines meets the contract when its kernels are defined on the row.\<close>

definition emit_width :: "bool \<Rightarrow> bool \<Rightarrow> int \<Rightarrow> int" where
  "emit_width lf rf w = (if lf then 1 else 0) + w + (if rf then 1 else 0)"

definition emit_kernel ::
  "bool \<Rightarrow> (int \<Rightarrow> jint \<Rightarrow> jint option) \<Rightarrow> (int \<Rightarrow> jint \<Rightarrow> jint option) \<Rightarrow>
   (int \<Rightarrow> jint \<Rightarrow> jint option) \<Rightarrow> int \<Rightarrow> int \<Rightarrow> int \<Rightarrow> jint \<Rightarrow> jint option" where
  "emit_kernel lf lk mk rk w idx c p =
    (if lf \<and> c = 0 then lk idx p
     else if c < (if lf then 1 else 0) + w then mk (idx + c) p else rk (idx + c) p)"

lemma emit_row_exact:
  assumes k: "\<And>c p. 0 \<le> c \<Longrightarrow> c < emit_width lf rf w \<Longrightarrow> emit_kernel lf lk mk rk w idx c p = Some (g c p)"
    and w: "0 \<le> w" "0 \<le> a" "a + emit_width lf rf w \<le> int (length xs)"
  shows "emit_row lf lk mk rf rk 1 w a idx (Some xs)
    = Some (Some (upd_range a (emit_width lf rf w) g xs))"
proof -
  define l where "l = (if lf then 1 else 0 :: int)"
  define r where "r = (if rf then 1 else 0 :: int)"
  have lr: "emit_width lf rf w = l + w + r" "0 \<le> l" "0 \<le> r"
    by (simp_all add: emit_width_def l_def r_def)
  define ys where "ys = upd_range a l g xs"
  have left: "(if lf then do { d \<leftarrow> upd_px (Some xs) a (lk idx); Some (d, a + 1, idx + 1) }
       else Some (Some xs, a, idx)) = Some (Some ys, a + l, idx + l)"
  proof (cases lf)
    case True
    then have "upd_px (Some xs) a (lk idx) = Some (Some ys)"
      unfolding ys_def l_def using k [of 0] w
      by (simp add: emit_kernel_def emit_width_def, intro upd_px_range) (auto split: if_splits)
    with True show ?thesis by (simp add: l_def)
  qed (simp add: ys_def l_def)
  define zs where "zs = upd_range (a + l) w (\<lambda>c. g (l + c)) ys"
  have mid: "px_loop (\<lambda>a (d, i). do { d' \<leftarrow> upd_px d a (mk i); Some (d', i + 1) }) 1 (a + l) (a + l + w)
      (Some ys, idx + l) = Some (a + l + w, Some zs, idx + l + w)"
  proof -
    have "mk (idx + l + c) p = Some (g (l + c) p)" if "0 \<le> c" "c < w" for c p
      using k [of "l + c" p] that lr by (auto simp: emit_kernel_def l_def add.assoc split: if_splits)
    then have "loopM (\<lambda>a (d, i). do { d' \<leftarrow> upd_px d a (mk i); Some (d', i + 1) }) (a + l) (nat w)
        (Some ys, idx + l) = Some (Some (upd_range (a + l) (int (nat w)) (\<lambda>c. g (l + c)) ys), idx + l + int (nat w))"
      by (intro loopM_upd_range_idx) (use w lr in \<open>auto simp: ys_def\<close>)
    then show ?thesis using w(1) by (simp add: px_loop_unit zs_def)
  qed
  have right: "(if rf then upd_px (Some zs) (a + l + w) (rk (idx + l + w)) else Some (Some zs))
      = Some (Some (upd_range (a + l + w) r (\<lambda>c. g (l + w + c)) zs))"
  proof (cases rf)
    case True
    have "upd_px (Some zs) (a + l + w) (rk (idx + l + w))
        = Some (Some (upd_range (a + l + w) 1 (\<lambda>c. g (l + w + c)) zs))"
      by (intro upd_px_range)
         (use True k [of "l + w"] w lr in \<open>auto simp: emit_kernel_def r_def l_def zs_def ys_def add.assoc\<close>)
    with True show ?thesis by (simp add: r_def)
  qed (simp add: r_def)
  have "upd_range (a + l + w) r (\<lambda>c. g (l + w + c)) zs = upd_range a (l + w + r) g xs"
    unfolding zs_def ys_def
    by (simp add: upd_range_append [OF lr(2) w(1)] add.assoc [of a] upd_range_append lr w)
       (rule upd_range_cong, simp)
  then show ?thesis unfolding emit_row_def lr(1) left
    by (simp add: mid right)
qed

interpretation emit: row_painter
  "\<lambda>(lf, lk, mk, rf, rk, w) a po. emit_row lf lk mk rf rk 1 w a po"
  "\<lambda>(lf, lk, mk, rf, rk, w). emit_width lf rf w"
  "\<lambda>(lf, lk, mk, rf, rk, w) po c p. the (emit_kernel lf lk mk rk w po c p)"
  "\<lambda>(lf, lk, mk, rf, rk, w) po. 0 \<le> w \<and>
     (\<forall>c p. 0 \<le> c \<longrightarrow> c < emit_width lf rf w \<longrightarrow> emit_kernel lf lk mk rk w po c p \<noteq> None)"
  by unfold_locales (auto intro!: emit_row_exact)


section \<open>Rectangles of the emitLine routines\<close>

text \<open>
  The rectangle of \<open>W\<close> columns and \<open>h\<close> rows that the renderer is about to paint lies in its image:
  pixels are one cell wide, rows do not overlap and no index overflows.
\<close>

definition rect_fits :: "'f renderer \<Rightarrow> int \<Rightarrow> jint \<Rightarrow> jint list \<Rightarrow> bool" where
  "rect_fits rdr W h xs \<longleftrightarrow>
     r_data rdr = Some xs \<and> r_imagePixelStride rdr = 1 \<and> 0 \<le> W \<and> W \<le> r_imageScanlineStride rdr \<and>
     W < 2147483648 \<and> 0 < r_imageScanlineStride rdr \<and> 0 \<le> r_currImageOffset rdr + r_minTouched rdr \<and>
     (h \<le> 0 \<or> r_currImageOffset rdr + r_minTouched rdr + (h - 1) * r_imageScanlineStride rdr + W
                \<le> int (length xs)) \<and>
     int (length xs) < 2147483648 \<and> jint_range (r_currImageOffset rdr)"

text \<open>The image after \<open>h\<close> rows whose pixel in row \<open>j\<close> and column \<open>c\<close> is changed by \<open>g j c\<close>.\<close>

definition painted :: "'f renderer \<Rightarrow> int \<Rightarrow> jint \<Rightarrow> (int \<Rightarrow> int \<Rightarrow> jint \<Rightarrow> jint) \<Rightarrow> jint list \<Rightarrow> 'f renderer" where
  "painted rdr W h g xs = rdr\<lparr>r_data := Some (upd_rect (r_currImageOffset rdr + r_minTouched rdr)
       (r_imageScanlineStride rdr) W h g xs)\<rparr>"

lemma painted_cong:
  assumes "rect_fits rdr W h xs"
    and "\<And>j c p. 0 \<le> j \<Longrightarrow> j < h \<Longrightarrow> 0 \<le> c \<Longrightarrow> c < W \<Longrightarrow> p \<in> set xs \<Longrightarrow> g j c p = k j c p"
  shows "painted rdr W h g xs = painted rdr W h k xs"
  unfolding painted_def using assms by (subst upd_rect_cong [where k = k]) (auto simp: rect_fits_def)

lemma painted_all:
  assumes "rect_fits rdr W h xs" "\<forall>p\<in>set xs. P p"
    and "\<And>j c p. 0 \<le> j \<Longrightarrow> j < h \<Longrightarrow> 0 \<le> c \<Longrightarrow> c < W \<Longrightarrow> P p \<Longrightarrow> P (g j c p)"
  shows "\<exists>ys. r_data (painted rdr W h g xs) = Some ys \<and> length ys = length xs \<and> (\<forall>p\<in>set ys. P p)"
  unfolding painted_def using assms upd_rect_all [of "r_imageScanlineStride rdr" xs P h W g]
  by (auto simp: rect_fits_def)

lemma emit_rows_exact:
  assumes fit: "rect_fits rdr W h xs" and W: "W = emit_width lf rf w" "0 \<le> w"
    and k: "\<And>j c p. 0 \<le> j \<Longrightarrow> j < h \<Longrightarrow> 0 \<le> c \<Longrightarrow> c < W \<Longrightarrow>
      emit_kernel lf lk mk rk w (i32 (j * r_alphaWidth rdr)) c p = Some (g j c p)"
  shows "emit_rows rdr (\<lambda>a po. emit_row lf lk mk rf rk (r_imagePixelStride rdr) w a po) h
    = Some (painted rdr W h g xs)"
proof -
  let ?p = "(lf, lk, mk, rf, rk, w)"
  have f: "r_data rdr = Some xs" "r_imagePixelStride rdr = 1" using fit by (auto simp: rect_fits_def)
  have "row_loop (r_imageScanlineStride rdr) (r_alphaWidth rdr)
      (\<lambda>off. (case ?p of (lf, lk, mk, rf, rk, w) \<Rightarrow> \<lambda>a po. emit_row lf lk mk rf rk 1 w a po)
         (i32 (off + r_minTouched rdr)))
      (nat h) (r_currImageOffset rdr) 0 (Some xs)
    = Some (Some (upd_rect (r_currImageOffset rdr + r_minTouched rdr) (r_imageScanlineStride rdr)
        (case ?p of (lf, lk, mk, rf, rk, w) \<Rightarrow> emit_width lf rf w) (int (nat h))
        (\<lambda>j. (case ?p of (lf, lk, mk, rf, rk, w) \<Rightarrow> \<lambda>po c p. the (emit_kernel lf lk mk rk w po c p))
           (i32 (0 + j * r_alphaWidth rdr))) xs))"
    by (rule emit.rect_exact) (use fit W k in \<open>auto simp: rect_fits_def jint_range_def split: if_splits\<close>)
  moreover have "upd_rect (r_currImageOffset rdr + r_minTouched rdr) (r_imageScanlineStride rdr) W (int (nat h))
      (\<lambda>j c p. the (emit_kernel lf lk mk rk w (i32 (0 + j * r_alphaWidth rdr)) c p)) xs
    = upd_rect (r_currImageOffset rdr + r_minTouched rdr) (r_imageScanlineStride rdr) W h g xs"
  proof (cases "0 \<le> h")
    case True
    then have "int (nat h) = h" by simp
    then show ?thesis
      using fit k by (simp only:, intro upd_rect_cong) (simp_all add: rect_fits_def)
  next
    case False
    then show ?thesis using fit by (simp add: rect_fits_def)
  qed
  ultimately show ?thesis
    unfolding emit_rows_def f by (simp add: painted_def W)
qed

text \<open>
  The coverage of column \<open>c\<close>, out of 255, that the flat SrcOver emitter uses: the alpha of the
  colour scaled by the vertical coverage \<open>frac\<close>, and in the edge columns by the horizontal one.
\<close>

definition el_alpha :: "'f renderer \<Rightarrow> jint \<Rightarrow> jint" where
  "el_alpha rdr frac = r_calpha rdr * frac div 65536"

definition el_coverage :: "'f renderer \<Rightarrow> jint \<Rightarrow> int \<Rightarrow> jint" where
  "el_coverage rdr frac c =
    (let alpha = el_alpha rdr frac;
         edge = (\<lambda>f. if alpha = 255 then f div 256 else f * alpha div 65536)
     in if r_el_lfrac rdr \<noteq> 0 \<and> c = 0 then edge (r_el_lfrac rdr)
        else if r_el_rfrac rdr \<noteq> 0 \<and> c = r_alphaWidth rdr - 1 then edge (r_el_rfrac rdr)
        else alpha)"

definition flat_colour :: "'f renderer \<Rightarrow> bool" where
  "flat_colour rdr \<longleftrightarrow> byte (r_calpha rdr) \<and> byte (r_cred rdr) \<and> byte (r_cgreen rdr) \<and> byte (r_cblue rdr)"

definition el_fracs :: "'f renderer \<Rightarrow> jint \<Rightarrow> bool" where
  "el_fracs rdr frac \<longleftrightarrow> 0 \<le> frac \<and> frac \<le> 0x10000 \<and>
     0 \<le> r_el_lfrac rdr \<and> r_el_lfrac rdr < 0x10000 \<and> 0 \<le> r_el_rfrac rdr \<and> r_el_rfrac rdr < 0x10000 \<and>
     (if r_el_lfrac rdr \<noteq> 0 then 1 else 0) + (if r_el_rfrac rdr \<noteq> 0 then 1 else 0) \<le> r_alphaWidth rdr"

lemma frac_scale:
  fixes a f :: int
  assumes "byte a" "0 \<le> f" "f \<le> 0x10000"
  shows "sar (i32 (a * f)) 16 = a * f div 65536" "byte (a * f div 65536)" "a * f div 65536 \<le> a"
proof -
  have m: "0 \<le> a * f" "a * f \<le> a * 65536" "a * 65536 \<le> 255 * 65536"
    using assms unfolding byte_def by (auto intro: mult_left_mono)
  then have "i32 (a * f) = a * f" by (intro i32_id) auto
  then show "sar (i32 (a * f)) 16 = a * f div 65536" by (simp add: sar_def)
  show le: "a * f div 65536 \<le> a" using zdiv_mono1 [OF m(2), of 65536] by simp
  show "byte (a * f div 65536)" using le assms m by (auto simp: byte_def pos_imp_zdiv_nonneg_iff)
qed

lemma byte_el_coverage:
  assumes "flat_colour rdr" "el_fracs rdr frac"
  shows "byte (el_coverage rdr frac c)"
proof -
  have a: "byte (el_alpha rdr frac)"
    unfolding el_alpha_def using assms by (intro frac_scale) (auto simp: flat_colour_def el_fracs_def)
  have "byte (f div 256)" "byte (f * el_alpha rdr frac div 65536)" if "0 \<le> f" "f < 0x10000" for f
    using that frac_scale(2) [OF a, of f] by (auto simp: byte_def mult.commute)
  then show ?thesis using a assms(2) by (auto simp: el_coverage_def Let_def el_fracs_def)
qed

lemma emitLineSourceOver_exact:
  assumes fit: "rect_fits rdr (r_alphaWidth rdr) h xs" and col: "flat_colour rdr" and fr: "el_fracs rdr frac"
  shows "emitLineSourceOver8888_pre rdr h frac = Some (painted rdr (r_alphaWidth rdr) h
    (\<lambda>_ c p. blendSrcOver8888_pre p (el_coverage rdr frac c) (r_cred rdr) (r_cgreen rdr) (r_cblue rdr)) xs)"
proof -
  let ?l = "r_el_lfrac rdr" and ?r = "r_el_rfrac rdr" and ?a = "el_alpha rdr frac"
  define w where "w = r_alphaWidth rdr - (if ?l \<noteq> 0 then 1 else 0) - (if ?r \<noteq> 0 then 1 else 0)"
  have w: "i32 (r_alphaWidth rdr - (if ?l \<noteq> 0 then 1 else 0) - (if ?r \<noteq> 0 then 1 else 0)) = w" "0 \<le> w"
    "r_alphaWidth rdr = emit_width (?l \<noteq> 0) (?r \<noteq> 0) w"
    using fit fr unfolding w_def emit_width_def
    by (auto simp: rect_fits_def el_fracs_def split: if_splits intro!: i32_id)
  have al: "sar (i32 (r_calpha rdr * frac)) 16 = ?a" and ab: "byte ?a"
    unfolding el_alpha_def using col fr by (auto intro!: frac_scale simp: flat_colour_def el_fracs_def)
  have ed: "sar (i32 (?l * ?a)) 16 = ?l * ?a div 65536" "sar (i32 (?r * ?a)) 16 = ?r * ?a div 65536"
    using frac_scale(1) [OF ab] fr by (simp_all add: mult.commute el_fracs_def)
  show ?thesis
  proof (cases "?a = 255")
    case True
    with col show ?thesis
      unfolding emitLineSourceOver8888_pre_def Let_def al MAX_ALPHA_def w(1)
      by (simp, intro emit_rows_exact [OF fit w(3,2)])
         (auto simp: emit_kernel_def el_coverage_def flat_colour_def blendSrcOver8888_pre_full w(3)
           emit_width_def sar_def split: if_splits)
  next
    case False
    then show ?thesis
      unfolding emitLineSourceOver8888_pre_def Let_def al MAX_ALPHA_def w(1) ed
      by (simp, intro emit_rows_exact [OF fit w(3,2)])
         (auto simp: emit_kernel_def el_coverage_def Let_def w(3) emit_width_def split: if_splits)
  qed
qed

text \<open>
  The painted emitter. \<open>el_frac_scaled\<close> is the coverage of an edge after it was scaled by the
  vertical one; the paint is premultiplied and is read at row \<open>j\<close> and column \<open>c\<close>.
\<close>

definition el_scaled :: "jint \<Rightarrow> jint \<Rightarrow> jint" where
  "el_scaled f frac = f * frac div 65536"

definition pt_coverage :: "'f renderer \<Rightarrow> jint \<Rightarrow> int \<Rightarrow> jint" where
  "pt_coverage rdr frac c =
    (if el_scaled (r_el_lfrac rdr) frac \<noteq> 0 \<and> c = 0 then el_scaled (r_el_lfrac rdr) frac div 256
     else if el_scaled (r_el_rfrac rdr) frac \<noteq> 0 \<and> c = r_alphaWidth rdr - 1
     then el_scaled (r_el_rfrac rdr) frac div 256
     else frac div 256)"

definition paint_ok :: "'f renderer \<Rightarrow> jint \<Rightarrow> jint list \<Rightarrow> bool" where
  "paint_ok rdr h ps \<longleftrightarrow> r_paint rdr = Some ps \<and> h * r_alphaWidth rdr \<le> int (length ps) \<and>
     int (length ps) < 2147483648 \<and> (\<forall>s\<in>set ps. premul s \<and> jint_range s)"

definition paint_at :: "'f renderer \<Rightarrow> jint list \<Rightarrow> int \<Rightarrow> int \<Rightarrow> jint" where
  "paint_at rdr ps j c = ps ! nat (j * r_alphaWidth rdr + c)"

lemma paint_index:
  fixes aw :: int
  assumes "0 \<le> j" "j < h" "0 \<le> c" "c < aw"
  shows "0 \<le> j * aw + c" "j * aw + c < h * aw"
proof -
  have "(j + 1) * aw \<le> h * aw" using assms by (intro mult_right_mono) auto
  then show "j * aw + c < h * aw" using assms by (simp add: algebra_simps)
  show "0 \<le> j * aw + c" using assms by simp
qed

lemma rd_paint:
  assumes "paint_ok rdr h ps" "0 \<le> j" "j < h" "0 \<le> c" "c < r_alphaWidth rdr"
  shows "rd (r_paint rdr) (i32 (j * r_alphaWidth rdr) + c) = Some (paint_at rdr ps j c)"
    and "premul (paint_at rdr ps j c)" "jint_range (paint_at rdr ps j c)"
proof -
  note i = paint_index [OF assms(2-5)]
  have len: "h * r_alphaWidth rdr \<le> int (length ps)" "int (length ps) < 2147483648"
    using assms(1) by (auto simp: paint_ok_def)
  have "i32 (j * r_alphaWidth rdr) = j * r_alphaWidth rdr"
    using paint_index [OF assms(2,3), of 0 "r_alphaWidth rdr"] assms(4,5) len by (intro i32_id) linarith+
  then show "rd (r_paint rdr) (i32 (j * r_alphaWidth rdr) + c) = Some (paint_at rdr ps j c)"
    using assms(1) i len by (simp add: paint_ok_def paint_at_def)
  have "paint_at rdr ps j c \<in> set ps" using i len by (auto simp: paint_at_def intro!: nth_mem)
  then show "premul (paint_at rdr ps j c)" "jint_range (paint_at rdr ps j c)"
    using assms(1) by (auto simp: paint_ok_def)
qed

text \<open>Blending a premultiplied pixel \<open>s\<close> over \<open>p\<close> with the coverage \<open>f\<close> out of 256.\<close>

definition over_pre :: "jint \<Rightarrow> jint \<Rightarrow> jint \<Rightarrow> jint" where
  "over_pre f s p = blendSrcOver8888_pre_pre p f (pxA s) (pxR s) (pxG s) (pxB s)"

lemma premul_over_pre: "premul p \<Longrightarrow> premul s \<Longrightarrow> 0 \<le> f \<Longrightarrow> f \<le> 256 \<Longrightarrow> premul (over_pre f s p)"
  unfolding over_pre_def by (intro premul_blendSrcOver8888_pre_pre) (auto dest: premulD)

lemma over_pre_256:
  assumes "premul s"
  shows "over_pre 256 s p = argb (pxA s + (255 - pxA s) * pxA p div 255) (pxR s + (255 - pxA s) * pxR p div 255)
    (pxG s + (255 - pxA s) * pxG p div 255) (pxB s + (255 - pxA s) * pxB p div 255)"
  unfolding over_pre_def using premulD [OF assms] by (subst blendSrcOver8888_pre_pre_eq) simp_all

text \<open>The three-way shortcut of the fully covered columns computes the general blend.\<close>

lemma over_pre_fast:
  assumes "premul s" "jint_range s" "jint_range p"
  shows "(if pxA s = 0 then p else if pxA s = 255 then s
          else blendSrcOver8888_pre_pre_fullFrac p (pxA s) (pxR s) (pxG s) (pxB s)) = over_pre 256 s p"
proof -
  note d = premulD [OF assms(1)]
  consider "pxA s = 0" | "pxA s = 255" | "pxA s \<noteq> 0" "pxA s \<noteq> 255" by blast
  then show ?thesis
  proof cases
    case 1
    then have z: "pxR s = 0" "pxG s = 0" "pxB s = 0" using d px_range [of s] by linarith+
    then show ?thesis using 1 assms by (simp add: over_pre_256 argb_eqI)
  next
    case 2
    then show ?thesis using assms by (simp add: over_pre_256 argb_eqI)
  next
    case 3
    then show ?thesis using d by (simp add: over_pre_def fullFrac_eq)
  qed
qed

lemma el_scaled_eq:
  assumes "0 \<le> f" "f < 0x10000" "0 \<le> frac" "frac \<le> 0x10000"
  shows "i32 (sar (i64 (f * frac)) 16) = el_scaled f frac" "0 \<le> el_scaled f frac" "el_scaled f frac < 0x10000"
proof -
  have m: "0 \<le> f * frac" "f * frac \<le> f * 65536" using assms by (auto intro: mult_left_mono)
  have "i64 (f * frac) = f * frac" using m assms by (intro i64_id) linarith+
  moreover show r: "0 \<le> el_scaled f frac" "el_scaled f frac < 0x10000"
    using m assms zdiv_mono1 [OF m(2), of 65536] by (auto simp: el_scaled_def pos_imp_zdiv_nonneg_iff)
  ultimately show "i32 (sar (i64 (f * frac)) 16) = el_scaled f frac"
    by (simp add: sar_def el_scaled_def i32_id)
qed

lemma emitLinePTSourceOver_exact:
  assumes fit: "rect_fits rdr (r_alphaWidth rdr) h xs" and fr: "el_fracs rdr frac"
    and paint: "paint_ok rdr h ps" and xs: "\<forall>p\<in>set xs. jint_range p"
  shows "emitLinePTSourceOver8888_pre rdr h frac = Some (painted rdr (r_alphaWidth rdr) h
    (\<lambda>j c p. over_pre (pt_coverage rdr frac c) (paint_at rdr ps j c) p) xs)"
proof -
  let ?l = "el_scaled (r_el_lfrac rdr) frac" and ?r = "el_scaled (r_el_rfrac rdr) frac"
  define w where "w = r_alphaWidth rdr - (if ?l \<noteq> 0 then 1 else 0) - (if ?r \<noteq> 0 then 1 else 0)"
  have sc: "i32 (sar (i64 (r_el_lfrac rdr * frac)) 16) = ?l" "i32 (sar (i64 (r_el_rfrac rdr * frac)) 16) = ?r"
    using fr by (auto simp: el_fracs_def intro!: el_scaled_eq)
  have z: "r_el_lfrac rdr = 0 \<Longrightarrow> ?l = 0" "r_el_rfrac rdr = 0 \<Longrightarrow> ?r = 0" by (auto simp: el_scaled_def)
  have w: "i32 (r_alphaWidth rdr - (if ?l \<noteq> 0 then 1 else 0) - (if ?r \<noteq> 0 then 1 else 0)) = w" "0 \<le> w"
    "r_alphaWidth rdr = emit_width (?l \<noteq> 0) (?r \<noteq> 0) w"
    using fit fr z unfolding w_def emit_width_def
    by (auto simp: rect_fits_def el_fracs_def split: if_splits intro!: i32_id)
  define g where "g = (\<lambda>j c p. let s = paint_at rdr ps j c in
     if frac = 0x10000 \<and> \<not> (?l \<noteq> 0 \<and> c = 0) \<and> \<not> (?r \<noteq> 0 \<and> c = r_alphaWidth rdr - 1)
     then (if pxA s = 0 then p else if pxA s = 255 then s
           else blendSrcOver8888_pre_pre_fullFrac p (pxA s) (pxR s) (pxG s) (pxB s))
     else over_pre (pt_coverage rdr frac c) s p)"
  have "emitLinePTSourceOver8888_pre rdr h frac = Some (painted rdr (r_alphaWidth rdr) h g xs)"
    unfolding emitLinePTSourceOver8888_pre_def sc Let_def w(1) MAX_ALPHA_def
  proof (rule emit_rows_exact [OF fit w(3,2)], goal_cases)
    case (1 j c p)
    have "c = 0 \<Longrightarrow> rd (r_paint rdr) (i32 (j * r_alphaWidth rdr)) = Some (paint_at rdr ps j c)"
      using rd_paint(1) [OF paint 1] by simp
    then show ?case
      using rd_paint(1) [OF paint 1] 1(4)
      by (auto simp: emit_kernel_def g_def Let_def pt_coverage_def over_pre_def w_def sar_def split: if_splits)
  qed
  also have "painted rdr (r_alphaWidth rdr) h g xs = painted rdr (r_alphaWidth rdr) h
    (\<lambda>j c p. over_pre (pt_coverage rdr frac c) (paint_at rdr ps j c) p) xs"
  proof (rule painted_cong [OF fit])
    fix j c p assume a: "0 \<le> j" "j < h" "0 \<le> c" "c < r_alphaWidth rdr" "p \<in> set xs"
    then show "g j c p = over_pre (pt_coverage rdr frac c) (paint_at rdr ps j c) p"
      using over_pre_fast [OF rd_paint(2,3) [OF paint a(1-4)]] xs
      by (auto simp: g_def Let_def pt_coverage_def)
  qed
  finally show ?thesis .
qed

section \<open>Rows of the blit routines\<close>

text \<open>A pixel routine that changes the cell \<open>iidx\<close> by \<open>g\<close> and touches no other.\<close>

definition px_cell :: "(int \<Rightarrow> 'a buf \<Rightarrow> 'a buf option) \<Rightarrow> ('a \<Rightarrow> 'a) \<Rightarrow> bool" where
  "px_cell f g \<longleftrightarrow> (\<forall>ys i. 0 \<le> i \<longrightarrow> i < int (length ys) \<longrightarrow>
     f i (Some ys) = Some (Some (ys[nat i := g (ys ! nat i)])))"

lemma px_cell_if:
  "(b \<Longrightarrow> px_cell f g) \<Longrightarrow> (\<not> b \<Longrightarrow> px_cell f' g') \<Longrightarrow>
   px_cell (\<lambda>i d. if b then f i d else f' i d) (\<lambda>p. if b then g p else g' p)"
  by (simp add: px_cell_def)

lemma px_cell_wr: "px_cell (\<lambda>i d. wr d i v) (\<lambda>_. v)"
  by (simp add: px_cell_def)

lemma px_cell_upd: "px_cell (\<lambda>i d. upd_px d i (\<lambda>p. Some (g p))) g"
  by (simp add: px_cell_def)

lemma px_cell_skip: "px_cell (\<lambda>i d. Some d) (\<lambda>p. p)"
  by (auto simp: px_cell_def)

lemmas px_cells = px_cell_if px_cell_wr px_cell_upd px_cell_skip

text \<open>One row of a mask: pixel \<open>i\<close> of the row is changed by \<open>g i\<close>.\<close>

lemma mask_row_exact:
  assumes px: "\<And>i. 0 \<le> i \<Longrightarrow> i < int n \<Longrightarrow> px_cell (px i) (g i)"
    and a: "0 \<le> a" "a + int n \<le> int (length xs)" "int (length xs) < 2147483648"
  shows "\<exists>t. loopM (\<lambda>i (data, iidx). do { data \<leftarrow> px i iidx data; Some (data, i32 (iidx + 1)) }) 0 n (Some xs, a)
    = Some (Some (upd_range a (int n) g xs), t)"
proof -
  let ?I = "\<lambda>k s. s = (Some (upd_range a k g xs), i32 (a + k))"
  have "\<exists>s. loopM (\<lambda>i (data, iidx). do { data \<leftarrow> px i iidx data; Some (data, i32 (iidx + 1)) }) 0 n (Some xs, a)
    = Some s \<and> ?I (0 + int n) s"
  proof (rule loopM_inv)
    show "?I 0 (Some xs, a)" using a by (simp add: i32_id)
  next
    fix k s assume k: "0 \<le> k" "k < 0 + int n" and s: "?I k s"
    have i: "i32 (a + k) = a + k" using a k by (intro i32_id) auto
    have "(upd_range a k g xs) ! nat (a + k) = xs ! nat (a + k)" using a k by simp
    then show "\<exists>s'. (case s of (data, iidx) \<Rightarrow> do { data \<leftarrow> px k iidx data; Some (data, i32 (iidx + 1)) }) = Some s'
        \<and> ?I (k + 1) s'"
      unfolding s using px [of k] a k upd_range_snoc [of a k xs g]
      by (simp add: i px_cell_def add.assoc)
  qed
  then show ?thesis by auto
qed

text \<open>All rows: the routine is given the mask offset \<open>po\<close> of its row.\<close>

definition mask_row ::
  "int \<Rightarrow> nat \<Rightarrow> (int \<Rightarrow> int \<Rightarrow> int \<Rightarrow> jint buf \<Rightarrow> jint buf option) \<Rightarrow> jint \<Rightarrow> jint \<Rightarrow> jint buf \<Rightarrow> jint buf option" where
  "mask_row n w px a po data = do {
     (data, _) \<leftarrow> loopM (\<lambda>i (data, iidx). do {
         data \<leftarrow> px i (po + n * i) iidx data; Some (data, i32 (iidx + 1)) }) 0 w (data, a);
     Some data }"

interpretation mask: row_painter
  "\<lambda>(n, w, px, g). mask_row n w px"
  "\<lambda>(n, w, px, g). int w"
  "\<lambda>(n, w, px, g). g"
  "\<lambda>(n, w, px, g) po. \<forall>i. 0 \<le> i \<longrightarrow> i < int w \<longrightarrow> px_cell (px i (po + n * i)) (g po i)"
proof unfold_locales
  fix p :: "int \<times> nat \<times> (int \<Rightarrow> int \<Rightarrow> int \<Rightarrow> jint buf \<Rightarrow> jint buf option) \<times> (jint \<Rightarrow> int \<Rightarrow> jint \<Rightarrow> jint)"
    and po a :: jint and xs :: "jint list"
  obtain n w px g where p: "p = (n, w, px, g)" by (cases p)
  assume "(case p of (n, w, px, g) \<Rightarrow>
      \<lambda>po. \<forall>i. 0 \<le> i \<longrightarrow> i < int w \<longrightarrow> px_cell (px i (po + n * i)) (g po i)) po"
    and "0 \<le> a" "a + (case p of (n, w, px, g) \<Rightarrow> int w) \<le> int (length xs)"
    and "int (length xs) < 2147483648"
  then show "(case p of (n, w, px, g) \<Rightarrow> mask_row n w px) a po (Some xs)
      = Some (Some (upd_range a (case p of (n, w, px, g) \<Rightarrow> int w) ((case p of (n, w, px, g) \<Rightarrow> g) po) xs))"
    using mask_row_exact [of w "\<lambda>i. px i (po + n * i)" "g po" a xs] unfolding p mask_row_def by auto
qed

lemma mask_rows_exact:
  assumes fit: "rect_fits rdr W h xs" and W: "W = touched_width rdr" and po: "jint_range (r_maskOffset rdr)"
    and px: "\<And>j i. 0 \<le> j \<Longrightarrow> j < h \<Longrightarrow> 0 \<le> i \<Longrightarrow> i < W \<Longrightarrow>
      px_cell (px i (i32 (r_maskOffset rdr + j * stride) + n * i)) (g (i32 (r_maskOffset rdr + j * stride)) i)"
  shows "mask_rows rdr n stride px h
    = Some (painted rdr W h (\<lambda>j. g (i32 (r_maskOffset rdr + j * stride))) xs)"
proof -
  let ?p = "(n, nat W, px, g)"
  have f: "r_data rdr = Some xs" "r_imagePixelStride rdr = 1" "0 \<le> W" using fit by (auto simp: rect_fits_def)
  have "row_loop (r_imageScanlineStride rdr) stride
      (\<lambda>off. (case ?p of (n, w, px, g) \<Rightarrow> mask_row n w px) (i32 (off + r_minTouched rdr)))
      (nat h) (r_currImageOffset rdr) (r_maskOffset rdr) (Some xs)
    = Some (Some (upd_rect (r_currImageOffset rdr + r_minTouched rdr) (r_imageScanlineStride rdr)
        (case ?p of (n, w, px, g) \<Rightarrow> int w) (int (nat h))
        (\<lambda>j. (case ?p of (n, w, px, g) \<Rightarrow> g) (i32 (r_maskOffset rdr + j * stride))) xs))"
    by (rule mask.rect_exact) (use fit po px in \<open>auto simp: rect_fits_def split: if_splits\<close>)
  then show ?thesis
    unfolding mask_rows_def f W [symmetric] using f(3) fit
    by (cases "0 \<le> h") (simp_all add: mask_row_def [abs_def] painted_def rect_fits_def)
qed

text \<open>The coverage, out of 255, of a colour of alpha \<open>ca\<close> under the mask byte \<open>m\<close>.\<close>

definition mask_cov :: "jint \<Rightarrow> jint \<Rightarrow> jint" where
  "mask_cov ca m = (if m = 0 then 0 else (m mod 256 + 1) * ca div 256)"

lemma mask_scale:
  assumes "byte ca"
  shows "sar (i32 (((m AND 0xff) + 1) * ca)) 8 = (m mod 256 + 1) * ca div 256" "byte ((m mod 256 + 1) * ca div 256)"
proof -
  have r: "0 \<le> m mod 256 + 1" "m mod 256 + 1 \<le> 256" using pos_mod_bound [of 256 m] by simp_all
  have "sar (i32 (ca * (m mod 256 + 1))) 8 = ca * (m mod 256 + 1) div 256"
    by (rule scale_range(1) [OF assms r])
  then show "sar (i32 (((m AND 0xff) + 1) * ca)) 8 = (m mod 256 + 1) * ca div 256"
    by (simp add: and_255 mult.commute)
  show "byte ((m mod 256 + 1) * ca div 256)"
    using scale_range(2,3) [OF assms r] assms by (simp add: byte_def mult.commute)
qed

lemma byte_mask_cov: "byte ca \<Longrightarrow> byte (mask_cov ca m)"
  using mask_scale(2) by (simp add: mask_cov_def byte_def)

text \<open>The shortcuts for full and for no coverage compute the blend.\<close>

lemma over_fast:
  assumes "byte v" "jint_range p" "byte r" "byte g" "byte b"
  shows "(if v = 255 then argb 255 r g b else if v > 0 then blendSrcOver8888_pre p v r g b else p)
    = blendSrcOver8888_pre p v r g b"
  using assms by (auto simp: blendSrcOver8888_pre_full blendSrcOver8888_pre_zero byte_def)

definition mask_at :: "jint list \<Rightarrow> jint \<Rightarrow> int \<Rightarrow> jint" where
  "mask_at ms po i = ms ! nat (po + i)"

text \<open>The rows of the mask that are read lie in it; \<open>n\<close> bytes for each of the \<open>W\<close> pixels.\<close>

definition mask_ok :: "'f renderer \<Rightarrow> int \<Rightarrow> jint \<Rightarrow> int \<Rightarrow> jint \<Rightarrow> jint list \<Rightarrow> bool" where
  "mask_ok rdr n stride W h ms \<longleftrightarrow> r_mask_byteData rdr = Some ms \<and> 0 \<le> r_maskOffset rdr \<and> 0 \<le> stride \<and>
     jint_range (r_maskOffset rdr) \<and>
     (h \<le> 0 \<or> r_maskOffset rdr + (h - 1) * stride + n * W \<le> int (length ms)) \<and> int (length ms) < 2147483648"

lemma mask_index:
  assumes "mask_ok rdr n stride W h ms" "0 \<le> j" "j < h" "0 \<le> W" "0 \<le> n"
  shows "i32 (r_maskOffset rdr + j * stride) = r_maskOffset rdr + j * stride"
    and "0 \<le> r_maskOffset rdr + j * stride" "r_maskOffset rdr + j * stride + n * W \<le> int (length ms)"
proof -
  have "j * stride \<le> (h - 1) * stride" using assms by (intro mult_right_mono) (auto simp: mask_ok_def)
  then show u: "r_maskOffset rdr + j * stride + n * W \<le> int (length ms)"
    using assms by (auto simp: mask_ok_def)
  show l: "0 \<le> r_maskOffset rdr + j * stride" using assms by (simp add: mask_ok_def)
  have "0 \<le> n * W" using assms by simp
  then show "i32 (r_maskOffset rdr + j * stride) = r_maskOffset rdr + j * stride"
    using u l assms(1) by (intro i32_id) (auto simp: mask_ok_def)
qed

lemma rd_mask:
  assumes "mask_ok rdr 1 stride W h ms" "0 \<le> j" "j < h" "0 \<le> i" "i < W"
  shows "rd (r_mask_byteData rdr) (i32 (r_maskOffset rdr + j * stride) + i)
    = Some (mask_at ms (r_maskOffset rdr + j * stride) i)"
  using mask_index [OF assms(1-3)] assms by (simp add: mask_ok_def mask_at_def)

lemma blitSrcOverMask_exact:
  assumes fit: "rect_fits rdr (touched_width rdr) h xs" and col: "flat_colour rdr"
    and mask: "mask_ok rdr 1 (r_alphaWidth rdr) (touched_width rdr) h ms"
    and xs: "\<forall>p\<in>set xs. jint_range p"
  shows "blitSrcOverMask8888_pre rdr h = Some (painted rdr (touched_width rdr) h
    (\<lambda>j c p. blendSrcOver8888_pre p
       (mask_cov (r_calpha rdr) (mask_at ms (r_maskOffset rdr + j * r_alphaWidth rdr) c))
       (r_cred rdr) (r_cgreen rdr) (r_cblue rdr)) xs)"
proof -
  let ?ca = "r_calpha rdr" and ?r = "r_cred rdr" and ?g = "r_cgreen rdr" and ?b = "r_cblue rdr"
  define g where "g = (\<lambda>po c p. let m = mask_at ms po c; v = (m mod 256 + 1) * ?ca div 256 in
      if m \<noteq> 0 then (if v = 255 then argb 255 ?r ?g ?b else if v > 0 then blendSrcOver8888_pre p v ?r ?g ?b else p)
      else p)"
  have ca: "byte ?ca" and W: "0 \<le> touched_width rdr" and po: "jint_range (r_maskOffset rdr)"
    using col fit mask by (auto simp: flat_colour_def rect_fits_def mask_ok_def)
  have "blitSrcOverMask8888_pre rdr h = Some (painted rdr (touched_width rdr) h
      (\<lambda>j. g (i32 (r_maskOffset rdr + j * r_alphaWidth rdr))) xs)"
    unfolding blitSrcOverMask8888_pre_def Let_def mask_scale(1) [OF ca] MAX_ALPHA_def
  proof (rule mask_rows_exact [OF fit refl po], goal_cases)
    case (1 j i)
    show ?case
      unfolding mult_1 rd_mask [OF mask 1]
      unfolding mask_index(1) [OF mask 1(1,2) W zero_le_one] g_def Let_def bind.bind_lunit
      by (intro px_cells)
  qed
  also have "painted rdr (touched_width rdr) h (\<lambda>j. g (i32 (r_maskOffset rdr + j * r_alphaWidth rdr))) xs
    = painted rdr (touched_width rdr) h (\<lambda>j c p. blendSrcOver8888_pre p
       (mask_cov ?ca (mask_at ms (r_maskOffset rdr + j * r_alphaWidth rdr) c)) ?r ?g ?b) xs"
  proof (rule painted_cong [OF fit])
    fix j c p assume a: "0 \<le> j" "j < h" "0 \<le> c" "c < touched_width rdr" "p \<in> set xs"
    have "g po c p = blendSrcOver8888_pre p (mask_cov ?ca (mask_at ms po c)) ?r ?g ?b" for po
      using over_fast [OF mask_scale(2) [OF ca], of p ?r ?g ?b "mask_at ms po c"] xs a(5) col
      by (simp add: g_def Let_def mask_cov_def flat_colour_def blendSrcOver8888_pre_zero)
    then show "g (i32 (r_maskOffset rdr + j * r_alphaWidth rdr)) c p = blendSrcOver8888_pre p
       (mask_cov ?ca (mask_at ms (r_maskOffset rdr + j * r_alphaWidth rdr) c)) ?r ?g ?b"
      by (simp add: mask_index(1) [OF mask a(1,2) W])
  qed
  finally show ?thesis .
qed

section \<open>The row of coverage deltas\<close>

text \<open>The running sum at pixel \<open>c\<close>, the row after its first \<open>n\<close> deltas were cleared.\<close>

definition aa_rel :: "jint list \<Rightarrow> int \<Rightarrow> jint" where
  "aa_rel row c = sum_list (take (Suc (nat c)) row)"

definition aa_cleared :: "nat \<Rightarrow> jint list \<Rightarrow> jint list" where
  "aa_cleared n row = replicate n 0 @ drop n row"

lemma aa_cleared_step:
  assumes "n < length row"
  shows "(aa_cleared n row)[n := 0] = aa_cleared (Suc n) row" "aa_cleared n row ! n = row ! n"
    "length (aa_cleared n row) = length row"
  using assms by (simp_all add: aa_cleared_def list_update_append nth_append Cons_nth_drop_Suc [symmetric]
      replicate_append_same [symmetric])

definition aa_ok :: "'f renderer \<Rightarrow> int \<Rightarrow> jint list \<Rightarrow> bool" where
  "aa_ok rdr W row \<longleftrightarrow> r_rowAAInt rdr = Some row \<and> W \<le> int (length row) \<and> int (length row) < 2147483648 \<and>
     (\<forall>c. 0 \<le> c \<longrightarrow> c < W \<longrightarrow> jint_range (aa_rel row c))"

lemma aa_rows_exact:
  assumes fit: "rect_fits rdr W 1 xs" and W: "W = touched_width rdr" and row: "aa_ok rdr W row"
    and px: "\<And>c. 0 \<le> c \<Longrightarrow> c < W \<Longrightarrow> px_cell (px c (aa_rel row c)) (g c)"
  shows "aa_rows rdr px 1 = Some ((painted rdr W 1 (\<lambda>_. g) xs)\<lparr>r_rowAAInt := Some (aa_cleared (nat W) row)\<rparr>)"
proof -
  define a where "a = r_currImageOffset rdr + r_minTouched rdr"
  have f: "r_data rdr = Some xs" "r_imagePixelStride rdr = 1" "0 \<le> W" "0 \<le> a" "a + W \<le> int (length xs)"
    "int (length xs) < 2147483648" "r_rowAAInt rdr = Some row" "W \<le> int (length row)" "0 < r_imageScanlineStride rdr"
    "W \<le> r_imageScanlineStride rdr"
    using fit row by (auto simp: rect_fits_def aa_ok_def a_def)
  have ia: "i32 a = a" using f by (intro i32_id) auto
  let ?I = "\<lambda>k s. s = (Some (upd_range a k g xs), Some (aa_cleared (nat k) row), i32 (a + k),
      sum_list (take (nat k) row))"
  let ?f = "\<lambda>c (data, row, iidx, rel). do { d \<leftarrow> rd row c; let rel = i32 (rel + d); row \<leftarrow> wr row c 0;
      data \<leftarrow> px c rel iidx data; Some (data, row, i32 (iidx + 1), rel) }"
  have "\<exists>s. loopM ?f 0 (nat W) (Some xs, Some row, i32 a, 0) = Some s \<and> ?I (0 + int (nat W)) s"
  proof (rule loopM_inv)
    show "?I 0 (Some xs, Some row, i32 a, 0)" by (simp add: aa_cleared_def)
  next
    fix k s assume k: "0 \<le> k" "k < 0 + int (nat W)" and s: "?I k s"
    have kl: "nat k < length row" using k f by auto
    have sk: "nat (k + 1) = Suc (nat k)" using k by simp
    have "jint_range (aa_rel row k)" using row k f(3) by (simp add: aa_ok_def)
    then have rel: "i32 (sum_list (take (nat k) row) + row ! nat k) = aa_rel row k"
      unfolding aa_rel_def take_Suc_conv_app_nth [OF kl] by (simp add: jint_range_def i32_id)
    have i: "i32 (a + k) = a + k" using f k by (intro i32_id) auto
    have "upd_range a k g xs ! nat (a + k) = xs ! nat (a + k)" using f k by simp
    then have px': "px k (aa_rel row k) (a + k) (Some (upd_range a k g xs)) = Some (Some (upd_range a (k + 1) g xs))"
      using px [of k] k f upd_range_snoc [of a k xs g] by (simp add: px_cell_def)
    have cl: "rd (Some (aa_cleared (nat k) row)) k = Some (row ! nat k)"
      "wr (Some (aa_cleared (nat k) row)) k 0 = Some (Some (aa_cleared (nat (k + 1)) row))"
      using aa_cleared_step [OF kl] k kl by (simp_all add: sk)
    have tl: "sum_list (take (nat (k + 1)) row) = aa_rel row k" unfolding sk aa_rel_def ..
    show "\<exists>s'. ?f k s = Some s' \<and> ?I (k + 1) s'"
      unfolding s tl by (simp add: cl rel i px' add.assoc del: rd.simps wr.simps)
  qed
  then have inner: "loopM ?f 0 (nat W) (Some xs, Some row, i32 a, 0) = Some (Some (upd_range a W g xs),
      Some (aa_cleared (nat W) row), i32 (a + W), sum_list (take (nat W) row))"
    using f(3) by simp
  have "upd_rect a (r_imageScanlineStride rdr) W 1 (\<lambda>_. g) xs = upd_range a W g xs"
    using upd_rect_step [of 0 W "r_imageScanlineStride rdr" a "\<lambda>_. g" xs] f by simp
  then show ?thesis
    unfolding aa_rows_def W [symmetric] f
    by (simp add: a_def [symmetric] inner painted_def)
qed


text \<open>The coverage at pixel \<open>c\<close>: the entry of the alpha map at the running sum.\<close>

definition aa_map_ok :: "'f renderer \<Rightarrow> int \<Rightarrow> jint list \<Rightarrow> jint list \<Rightarrow> bool" where
  "aa_map_ok rdr W row am \<longleftrightarrow> r_alphaMap rdr = Some am \<and>
     (\<forall>c. 0 \<le> c \<longrightarrow> c < W \<longrightarrow> 0 \<le> aa_rel row c \<and> aa_rel row c < int (length am))"

definition aa_cov :: "jint \<Rightarrow> jint list \<Rightarrow> jint \<Rightarrow> jint" where
  "aa_cov ca am rel = (if rel = 0 then 0 else (am ! nat rel mod 256 + 1) * ca div 256)"

lemma byte_aa_cov: "byte ca \<Longrightarrow> byte (aa_cov ca am rel)"
  using mask_scale(2) [of ca "am ! nat rel"] by (simp add: aa_cov_def byte_def)

lemma rd_aa_map:
  "aa_map_ok rdr W row am \<Longrightarrow> 0 \<le> c \<Longrightarrow> c < W \<Longrightarrow>
   rd (r_alphaMap rdr) (aa_rel row c) = Some (am ! nat (aa_rel row c))"
  by (simp add: aa_map_ok_def)

lemma blitSrcOver_exact:
  assumes fit: "rect_fits rdr (touched_width rdr) 1 xs" and col: "flat_colour rdr"
    and row: "aa_ok rdr (touched_width rdr) row" and am: "aa_map_ok rdr (touched_width rdr) row am"
    and xs: "\<forall>p\<in>set xs. jint_range p"
  shows "blitSrcOver8888_pre rdr 1 = Some ((painted rdr (touched_width rdr) 1
    (\<lambda>_ c p. blendSrcOver8888_pre p (aa_cov (r_calpha rdr) am (aa_rel row c))
       (r_cred rdr) (r_cgreen rdr) (r_cblue rdr)) xs)
    \<lparr>r_rowAAInt := Some (aa_cleared (nat (touched_width rdr)) row)\<rparr>)"
proof -
  let ?ca = "r_calpha rdr" and ?r = "r_cred rdr" and ?g = "r_cgreen rdr" and ?b = "r_cblue rdr"
  define g where "g = (\<lambda>c p. let rel = aa_rel row c; v = (am ! nat rel mod 256 + 1) * ?ca div 256 in
      if rel \<noteq> 0 then (if v = 255 then argb 255 ?r ?g ?b else if v > 0 then blendSrcOver8888_pre p v ?r ?g ?b else p)
      else p)"
  have ca: "byte ?ca" using col by (auto simp: flat_colour_def)
  have "blitSrcOver8888_pre rdr 1 = Some ((painted rdr (touched_width rdr) 1 (\<lambda>_. g) xs)
      \<lparr>r_rowAAInt := Some (aa_cleared (nat (touched_width rdr)) row)\<rparr>)"
    unfolding blitSrcOver8888_pre_def Let_def mask_scale(1) [OF ca] MAX_ALPHA_def
  proof (rule aa_rows_exact [OF fit refl row], goal_cases)
    case (1 c)
    show ?case
      unfolding rd_aa_map [OF am 1] g_def Let_def bind.bind_lunit by (intro px_cells)
  qed
  also have "painted rdr (touched_width rdr) 1 (\<lambda>_. g) xs = painted rdr (touched_width rdr) 1
      (\<lambda>_ c p. blendSrcOver8888_pre p (aa_cov ?ca am (aa_rel row c)) ?r ?g ?b) xs"
  proof (rule painted_cong [OF fit])
    fix j c p assume a: "0 \<le> j" "j < 1" "0 \<le> c" "c < touched_width rdr" "p \<in> set xs"
    show "g c p = blendSrcOver8888_pre p (aa_cov ?ca am (aa_rel row c)) ?r ?g ?b"
      using over_fast [OF mask_scale(2) [OF ca], of p ?r ?g ?b "am ! nat (aa_rel row c)"] xs a(5) col
      by (simp add: g_def Let_def aa_cov_def flat_colour_def blendSrcOver8888_pre_zero)
  qed
  finally show ?thesis .
qed


text \<open>The painted blit: both shortcuts are the general blend with the coverage \<open>m + 1\<close> out of 256.\<close>

lemma over_pre_cov_fast:
  assumes "premul s" "jint_range s" "jint_range p" "byte m"
  shows "(if (m + 1) * pxA s div 256 = 255 then s else if (m + 1) * pxA s div 256 > 0 then over_pre (m + 1) s p else p)
    = over_pre (m + 1) s p"
proof -
  note d = premulD [OF assms(1)]
  have f: "0 \<le> m + 1" "m + 1 \<le> 256" using assms(4) by (auto simp: byte_def)
  have e: "over_pre (m + 1) s p = argb (pxA s * (m + 1) div 256 + (255 - pxA s * (m + 1) div 256) * pxA p div 255)
      (pxR s * (m + 1) div 256 + (255 - pxA s * (m + 1) div 256) * pxR p div 255)
      (pxG s * (m + 1) div 256 + (255 - pxA s * (m + 1) div 256) * pxG p div 255)
      (pxB s * (m + 1) div 256 + (255 - pxA s * (m + 1) div 256) * pxB p div 255)"
    unfolding over_pre_def using d f by (intro blendSrcOver8888_pre_pre_eq) simp_all
  have r: "0 \<le> pxA s * (m + 1) div 256" by (rule scale_range(2)) (use f in auto)
  consider "pxA s * (m + 1) div 256 = 255" | "pxA s * (m + 1) div 256 = 0" | "pxA s * (m + 1) div 256 > 0"
    "pxA s * (m + 1) div 256 \<noteq> 255" using r by linarith
  then show ?thesis
  proof cases
    case 1
    have "pxA s * (m + 1) \<ge> 255 * 256" using 1 by simp
    moreover have "pxA s * (m + 1) \<le> 255 * (m + 1)" using f by (intro mult_right_mono) simp_all
    ultimately have "255 * 256 \<le> 255 * (m + 1)" by (rule order_trans)
    then have "m = 255" using f by simp
    then show ?thesis using 1 assms by (simp add: over_pre_256 argb_eqI mult.commute)
  next
    case 2
    have z: "c * (m + 1) div 256 = 0" if "0 \<le> c" "c \<le> pxA s" for c
      using zdiv_mono1 [OF mult_right_mono [OF that(2) f(1)], of 256] 2 that f
      by (simp add: order.antisym pos_imp_zdiv_nonneg_iff)
    show ?thesis using 2 assms d unfolding e by (simp add: z argb_eqI mult.commute)
  next
    case 3
    then show ?thesis by (simp add: mult.commute)
  qed
qed

lemma blitPTSrcOver_exact:
  assumes fit: "rect_fits rdr (touched_width rdr) 1 xs"
    and row: "aa_ok rdr (touched_width rdr) row" and am: "aa_map_ok rdr (touched_width rdr) row am"
    and paint: "r_paint rdr = Some ps" "touched_width rdr \<le> int (length ps)" "\<forall>s\<in>set ps. premul s \<and> jint_range s"
    and xs: "\<forall>p\<in>set xs. jint_range p"
  shows "blitPTSrcOver8888_pre rdr 1 = Some ((painted rdr (touched_width rdr) 1
    (\<lambda>_ c p. if aa_rel row c = 0 then p else over_pre (am ! nat (aa_rel row c) mod 256 + 1) (ps ! nat c) p) xs)
    \<lparr>r_rowAAInt := Some (aa_cleared (nat (touched_width rdr)) row)\<rparr>)"
proof -
  define g where "g = (\<lambda>c p. let rel = aa_rel row c; s = ps ! nat c; m = am ! nat rel mod 256; v = (m + 1) * pxA s div 256 in
      if rel \<noteq> 0 then (if v = 255 then s else if v > 0 then over_pre (m + 1) s p else p) else p)"
  have "blitPTSrcOver8888_pre rdr 1 = Some ((painted rdr (touched_width rdr) 1 (\<lambda>_. g) xs)
      \<lparr>r_rowAAInt := Some (aa_cleared (nat (touched_width rdr)) row)\<rparr>)"
    unfolding blitPTSrcOver8888_pre_def Let_def mask_scale(1) [OF byte_px(1)] MAX_ALPHA_def and_255
  proof (rule aa_rows_exact [OF fit refl row], goal_cases)
    case (1 c)
    have s: "rd (r_paint rdr) c = Some (ps ! nat c)" using paint 1 by simp
    have r: "sar (i32 ((am ! nat (aa_rel row c) mod 256 + 1) * pxA (ps ! nat c))) 8
        = (am ! nat (aa_rel row c) mod 256 + 1) * pxA (ps ! nat c) div 256"
      using mask_scale(1) [OF byte_px(1), of "am ! nat (aa_rel row c)" "ps ! nat c"] by (simp add: and_255)
    show ?case
      unfolding rd_aa_map [OF am 1] s g_def Let_def bind.bind_lunit r over_pre_def by (intro px_cells)
  qed
  also have "painted rdr (touched_width rdr) 1 (\<lambda>_. g) xs = painted rdr (touched_width rdr) 1
      (\<lambda>_ c p. if aa_rel row c = 0 then p else over_pre (am ! nat (aa_rel row c) mod 256 + 1) (ps ! nat c) p) xs"
  proof (rule painted_cong [OF fit])
    fix j c p assume a: "0 \<le> j" "j < 1" "0 \<le> c" "c < touched_width rdr" "p \<in> set xs"
    have "ps ! nat c \<in> set ps" using a paint(2) by (intro nth_mem) auto
    moreover have "byte (am ! nat (aa_rel row c) mod 256)"
      using pos_mod_bound [of 256 "am ! nat (aa_rel row c)"] by (simp add: byte_def)
    ultimately show "g c p = (if aa_rel row c = 0 then p
        else over_pre (am ! nat (aa_rel row c) mod 256 + 1) (ps ! nat c) p)"
      using over_pre_cov_fast [of "ps ! nat c" p "am ! nat (aa_rel row c) mod 256"] xs a(5) paint(3)
      by (simp add: g_def Let_def)
  qed
  finally show ?thesis .
qed

section \<open>The cleared rectangle\<close>

lemma fill_loop_exact:
  assumes "0 \<le> at" "at + int n \<le> int (length xs)"
  shows "loopM (\<lambda>i b. wr b i v) at n (Some xs) = Some (Some (upd_range at (int n) (\<lambda>_ _. v) xs))"
  by (rule loopM_upd_range) (use assms in auto)

lemma fill_cells_exact:
  assumes "0 \<le> at" "0 \<le> n" "at + n \<le> int (length xs)"
  shows "fill_cells (Some xs) at n v = Some (Some (upd_range at n (\<lambda>_ _. v) xs))"
  unfolding fill_cells_def using fill_loop_exact [of at "nat n" xs v] assms by simp

text \<open>Copying a row whose cells all hold \<open>v\<close> to a place behind it fills that place with \<open>v\<close>.\<close>

lemma copy_cells_exact:
  assumes "0 \<le> src" "src + n \<le> dst" "0 \<le> n" "dst + n \<le> int (length xs)"
    and "\<And>c. 0 \<le> c \<Longrightarrow> c < n \<Longrightarrow> xs ! nat (src + c) = v"
  shows "copy_cells (Some xs) dst src n = Some (Some (upd_range dst n (\<lambda>_ _. v) xs))"
proof -
  let ?I = "\<lambda>k s. s = Some (upd_range dst (k - dst) (\<lambda>_ _. v) xs)"
  have "\<exists>s. loopM (\<lambda>i b. do { v \<leftarrow> rd b (src + (i - dst)); wr b i v }) dst (nat n) (Some xs) = Some s
      \<and> ?I (dst + int (nat n)) s"
  proof (rule loopM_inv)
    fix k s assume k: "dst \<le> k" "k < dst + int (nat n)" and s: "?I k s"
    have "upd_range dst (k - dst) (\<lambda>_ _. v) xs ! nat (src + (k - dst)) = v"
      using assms(1-4) k assms(5) [of "k - dst"] by (auto simp: nat_less_iff)
    then have "rd s (src + (k - dst)) = Some v" unfolding s using assms k by auto
    then show "\<exists>s'. (do { v \<leftarrow> rd s (src + (k - dst)); wr s k v }) = Some s' \<and> ?I (k + 1) s'"
      using upd_range_snoc [of dst "k - dst" xs "\<lambda>_ _. v"] assms k unfolding s
      by (simp add: algebra_simps)
  qed simp
  then show ?thesis unfolding copy_cells_def using assms(3) by simp
qed

text \<open>The rectangle \<open>x, y, w, h\<close> lies in the surface of the renderer and its rows are contiguous.\<close>

definition clear_ok :: "'f renderer \<Rightarrow> jint \<Rightarrow> jint \<Rightarrow> jint \<Rightarrow> jint \<Rightarrow> jint list \<Rightarrow> bool" where
  "clear_ok rdr x y w h xs \<longleftrightarrow>
     r_data rdr = Some xs \<and> r_imagePixelStride rdr = 1 \<and> r_imageScanlineStride rdr = r_width rdr \<and>
     0 < r_width rdr \<and> 0 \<le> r_imageOffset rdr \<and> 0 \<le> x \<and> 0 < w \<and> x + w \<le> r_width rdr \<and> 0 \<le> y \<and> 0 < h \<and>
     r_imageOffset rdr + (y + h) * r_width rdr \<le> int (length xs) \<and> int (length xs) < 2147483648"

lemma clear_rows_exact:
  assumes "0 \<le> lo" "0 < W" "W \<le> stride" "0 \<le> k"
    and fits: "k + int n = 0 \<or> lo + (k + int n - 1) * stride + W \<le> int (length xs)"
    and row: "\<And>ys j. k \<le> j \<Longrightarrow> j < k + int n \<Longrightarrow> ys = upd_rect lo stride W j (\<lambda>_ _ _. v) xs \<Longrightarrow>
      f (Some ys) (lo + j * stride) = Some (Some (upd_range (lo + j * stride) W (\<lambda>_ _. v) ys))"
  shows "\<exists>t. loopM (\<lambda>_ (data, p). do { data \<leftarrow> f data p; Some (data, p + stride) }) 0 n
      (Some (upd_rect lo stride W k (\<lambda>_ _ _. v) xs), lo + k * stride)
    = Some (Some (upd_rect lo stride W (k + int n) (\<lambda>_ _ _. v) xs), t)"
proof -
  let ?I = "\<lambda>i s. s = (Some (upd_rect lo stride W (k + i) (\<lambda>_ _ _. v) xs), lo + (k + i) * stride)"
  have "\<exists>s. loopM (\<lambda>_ (data, p). do { data \<leftarrow> f data p; Some (data, p + stride) }) 0 n
      (Some (upd_rect lo stride W k (\<lambda>_ _ _. v) xs), lo + k * stride) = Some s \<and> ?I (0 + int n) s"
  proof (rule loopM_inv)
    fix i s assume i: "0 \<le> i" "i < 0 + int n" and s: "?I i s"
    show "\<exists>s'. (case s of (data, p) \<Rightarrow> do { data \<leftarrow> f data p; Some (data, p + stride) }) = Some s' \<and> ?I (i + 1) s'"
      unfolding s using row [of "k + i", OF _ _ refl] i assms(2-4)
        upd_rect_step [of "k + i" W stride lo "\<lambda>_ _ _. v" xs]
      by (simp add: algebra_simps)
  qed simp
  then show ?thesis by auto
qed


lemma full_width_rect:
  assumes "0 < W" "0 \<le> h"
  shows "upd_range lo (W * h) (\<lambda>_ _. v) xs = upd_rect lo W W h (\<lambda>_ _ _. v) xs"
proof (rule nth_equalityI)
  fix i assume "i < length (upd_range lo (W * h) (\<lambda>_ _. v) xs)"
  moreover have "(int i - lo) div W < h \<longleftrightarrow> int i < lo + W * h"
    using zdiv_less_iff [OF assms(1), of "int i - lo" h] by (simp add: algebra_simps)
  ultimately show "upd_range lo (W * h) (\<lambda>_ _. v) xs ! i = upd_rect lo W W h (\<lambda>_ _ _. v) xs ! i"
    using assms by (auto simp: in_rect_def)
qed simp

lemma clearRect8888_any_exact:
  assumes ok: "clear_ok rdr x y w h xs"
  shows "clearRect8888_any rdr x y w h = Some (rdr\<lparr>r_data :=
    Some (upd_rect (r_imageOffset rdr + y * r_width rdr + x) (r_width rdr) w h
      (\<lambda>_ _ _. argb (r_calpha rdr) (r_cred rdr) (r_cgreen rdr) (r_cblue rdr)) xs)\<rparr>)"
proof -
  let ?W = "r_width rdr"
  define v where "v = argb (r_calpha rdr) (r_cred rdr) (r_cgreen rdr) (r_cblue rdr)"
  define lo where "lo = r_imageOffset rdr + y * ?W + x"
  have c: "r_data rdr = Some xs" "r_imagePixelStride rdr = 1" "r_imageScanlineStride rdr = ?W"
    "0 < ?W" "0 \<le> r_imageOffset rdr" "0 \<le> x" "0 < w" "x + w \<le> ?W" "0 \<le> y" "0 < h"
    "r_imageOffset rdr + (y + h) * ?W \<le> int (length xs)" "int (length xs) < 2147483648"
    using ok by (auto simp: clear_ok_def)
  have hW: "?W \<le> h * ?W" using mult_right_mono [of 1 h ?W] c by simp
  have y: "0 \<le> y * ?W" "y * ?W + h * ?W + r_imageOffset rdr \<le> int (length xs)"
    using c by (simp_all add: algebra_simps)
  have iy: "i32 (y * ?W) = y * ?W" "i32 x = x" using y c hW by (intro i32_id; linarith)+
  have at: "r_imageOffset rdr + i32 (y * ?W) + i32 (x * 1) = lo" by (simp add: iy lo_def)
  have lo0: "0 \<le> lo" using y c by (simp add: lo_def)
  have fit: "lo + j * ?W + w \<le> int (length xs)" if "0 \<le> j" "j < h" for j
  proof -
    have "(j + 1) * ?W \<le> h * ?W" using that c by (intro mult_right_mono) auto
    then show ?thesis using y c by (simp add: lo_def algebra_simps)
  qed
  have nh: "int (nat h) = h" "int (nat (h - 1)) = h - 1" using c by auto
  show ?thesis
  proof (cases "v = 0")
    case True
    have full: "fill_cells (Some xs) lo (w * h) 0 = Some (Some (upd_rect lo ?W w h (\<lambda>_ _ _. 0) xs))"
      if "x = 0" "w = ?W"
      using fill_cells_exact [of lo "w * h" xs "0 :: jint"] full_width_rect [of w h lo "0 :: jint" xs] that lo0 c y
      by (simp add: lo_def algebra_simps)
    have "\<exists>t. loopM (\<lambda>_ (data, p). do { data \<leftarrow> fill_cells data p w 0; Some (data, p + ?W) }) 0 (nat h)
        (Some (upd_rect lo ?W w 0 (\<lambda>_ _ _. 0) xs), lo + 0 * ?W)
      = Some (Some (upd_rect lo ?W w (0 + int (nat h)) (\<lambda>_ _ _. 0) xs), t)"
      using lo0 c fit [of "h - 1"] fit by (intro clear_rows_exact fill_cells_exact) auto
    then show ?thesis
      unfolding clearRect8888_any_def Let_def c(1-3) at v_def [symmetric] lo_def [symmetric]
      using True full c(4,10) by (auto simp: nh)
  next
    case False
    have first: "loopM (\<lambda>i b. wr b i v) lo (nat w) (Some xs) = Some (Some (upd_rect lo ?W w 1 (\<lambda>_ _ _. v) xs))"
      using fill_loop_exact [of lo "nat w" xs v] fit [of 0] lo0 c
        upd_rect_step [of 0 w ?W lo "\<lambda>_ _ _. v" xs] by simp
    have cp: "copy_cells (Some ys) (lo + j * ?W) lo w = Some (Some (upd_range (lo + j * ?W) w (\<lambda>_ _. v) ys))"
      if j: "1 \<le> j" "j < h" and ys: "ys = upd_rect lo ?W w j (\<lambda>_ _ _. v) xs" for ys j
    proof (rule copy_cells_exact)
      have "1 * ?W \<le> j * ?W" using j c by (intro mult_right_mono) auto
      then show "lo + w \<le> lo + j * ?W" using c(6,8) by linarith
      fix k assume k: "0 \<le> k" "k < w"
      then have "in_rect lo ?W w j (int (nat (lo + k)))"
        using rect_index [of k w ?W lo 0] lo0 j c by (simp add: in_rect_def)
      then show "ys ! nat (lo + k) = v" unfolding ys using k lo0 fit [of 0] c by simp
    qed (use lo0 c fit [of j] j ys in auto)
    have "\<exists>t. loopM (\<lambda>_ (data, p). do { data \<leftarrow> copy_cells data p lo w; Some (data, p + ?W) }) 0 (nat (h - 1))
        (Some (upd_rect lo ?W w 1 (\<lambda>_ _ _. v) xs), lo + 1 * ?W)
      = Some (Some (upd_rect lo ?W w (1 + int (nat (h - 1))) (\<lambda>_ _ _. v) xs), t)"
      using lo0 c fit [of "h - 1"] cp by (intro clear_rows_exact) auto
    then show ?thesis
      unfolding clearRect8888_any_def Let_def c(1-3) at v_def [symmetric] lo_def [symmetric]
      using False first c(4,10) by (auto simp: nh)
  qed
qed

end
