(* ===== verification/Pisces_Math.thy ===== *)
theory Pisces_Math
  imports Pisces_State
begin

text \<open>
  The arithmetic the renderer is set up with: \<open>PiscesMath.c\<close> (fixed-point sine and angle
  conversions), \<open>PiscesTransform.c\<close> (affine transforms in S15.16), \<open>PiscesUtil.c\<close> (stroke bias) and
  \<open>toPiscesCoords\<close> of \<open>JPiscesRenderer.c\<close> (a float, given by its bits, to S15.16).

  The sine table is filled with the C library's \<open>sin\<close>, a parameter; the table is a block that is null
  until \<open>piscesmath_moduleInitialize\<close> has run.
\<close>

section \<open>PiscesMath\<close>

definition PISCES_SINTAB_ENTRIES :: jint where "PISCES_SINTAB_ENTRIES = 1024"
definition PISCES_PI :: jint where "PISCES_PI = 205887"
definition PISCES_TWO_PI :: jint where "PISCES_TWO_PI = 411774"
definition PISCES_PI_OVER_TWO :: jint where "PISCES_PI_OVER_TWO = 102943"
definition PISCES_360_DEGREES :: jint where "PISCES_360_DEGREES = 23592960"
definition PISCES_RADIANS_TO_DEGREES_MULTIPLIER :: jint where
  "PISCES_RADIANS_TO_DEGREES_MULTIPLIER = 3754936"
definition PISCES_DEGREES_TO_RADIANS_MULTIPLIER :: jint where
  "PISCES_DEGREES_TO_RADIANS_MULTIPLIER = 1143"

lemmas math_consts = PISCES_SINTAB_ENTRIES_def PISCES_PI_def PISCES_TWO_PI_def PISCES_PI_OVER_TWO_def
  PISCES_360_DEGREES_def PISCES_RADIANS_TO_DEGREES_MULTIPLIER_def PISCES_DEGREES_TO_RADIANS_MULTIPLIER_def

text \<open>\<open>fsin i\<close> is \<open>(jint)(sin(i * (PI / 2) / 1024) * 65536)\<close>, \<open>mem\<close> whether \<open>malloc\<close> succeeds.\<close>

definition piscesmath_moduleInitialize :: "(jint \<Rightarrow> jint) \<Rightarrow> bool \<Rightarrow> jint buf \<Rightarrow> bool \<times> jint buf" where
  "piscesmath_moduleInitialize fsin mem sintab =
    (if sintab = None then
       (if \<not> mem then (False, None)
        else (True, Some (map (\<lambda>i. fsin (int i)) [0..<nat (PISCES_SINTAB_ENTRIES + 1)])))
     else (True, sintab))"

definition piscesmath_moduleFinalize :: "jint buf \<Rightarrow> jint buf" where
  "piscesmath_moduleFinalize sintab = None"

text \<open>The loop \<open>while (theta >= PISCES_TWO_PI) theta -= PISCES_TWO_PI\<close>.\<close>

function sin_reduce :: "jint \<Rightarrow> jint" where
  "sin_reduce theta = (if theta \<ge> PISCES_TWO_PI then sin_reduce (theta - PISCES_TWO_PI) else theta)"
  by pat_completeness auto
termination by (relation "measure nat") (auto simp: PISCES_TWO_PI_def)

declare sin_reduce.simps [simp del]

definition piscesmath_sin :: "jint buf \<Rightarrow> jint \<Rightarrow> jint option" where
  "piscesmath_sin sintab theta =
    (let (theta, sign) = (if theta < 0 then (i32 (- theta), - 1) else (theta, 1));
         theta = sin_reduce theta;
         (theta, sign) = (if theta \<ge> PISCES_PI then (PISCES_TWO_PI - theta, - sign) else (theta, sign));
         theta = (if theta > PISCES_PI_OVER_TWO then PISCES_PI - theta else theta);
         itheta = i32 (cdiv (i64 (theta * PISCES_SINTAB_ENTRIES)) PISCES_PI_OVER_TWO)
     in do { s \<leftarrow> rd sintab itheta; Some (i32 (sign * s)) })"

definition piscesmath_cos :: "jint buf \<Rightarrow> jint \<Rightarrow> jint option" where
  "piscesmath_cos sintab theta = piscesmath_sin sintab (i32 (PISCES_PI_OVER_TWO - theta))"

definition piscesmath_toRadians :: "jint \<Rightarrow> jint" where
  "piscesmath_toRadians thetaDegrees =
    i32 (sar (i64 (crem thetaDegrees PISCES_360_DEGREES * PISCES_DEGREES_TO_RADIANS_MULTIPLIER)) 16)"

definition piscesmath_toDegrees :: "jint \<Rightarrow> jint" where
  "piscesmath_toDegrees thetaRadians =
    i32 (sar (i64 (crem thetaRadians PISCES_TWO_PI * PISCES_RADIANS_TO_DEGREES_MULTIPLIER)) 16)"

definition piscesmath_abs :: "jint \<Rightarrow> jint" where
  "piscesmath_abs x = (if x \<ge> 0 then x else i32 (- x))"

section \<open>PiscesTransform\<close>

definition pisces_transform_assign :: "transform6 \<Rightarrow> transform6 \<Rightarrow> transform6" where
  "pisces_transform_assign transformD transformS = transformS"

definition pisces_transform_invert :: "'f float_ops \<Rightarrow> transform6 \<Rightarrow> transform6" where
  "pisces_transform_invert fo transform =
    (let c = f_of_int fo 65536;
         fm00 = f_div fo (f_of_int fo (m00 transform)) c;
         fm01 = f_div fo (f_of_int fo (m01 transform)) c;
         fm02 = f_div fo (f_of_int fo (m02 transform)) c;
         fm10 = f_div fo (f_of_int fo (m10 transform)) c;
         fm11 = f_div fo (f_of_int fo (m11 transform)) c;
         fm12 = f_div fo (f_of_int fo (m12 transform)) c;
         fdet = f_sub fo (f_mul fo fm00 fm11) (f_mul fo fm01 fm10);
         fa00 = f_div fo fm11 fdet;
         fa01 = f_div fo (f_neg fo fm01) fdet;
         fa10 = f_div fo (f_neg fo fm10) fdet;
         fa11 = f_div fo fm00 fdet;
         fa02 = f_div fo (f_sub fo (f_mul fo fm01 fm12) (f_mul fo fm02 fm11)) fdet;
         fa12 = f_div fo (f_sub fo (f_mul fo fm02 fm10) (f_mul fo fm00 fm12)) fdet
     in \<lparr>m00 = f_to_jint fo (f_mul fo fa00 c), m01 = f_to_jint fo (f_mul fo fa01 c),
         m10 = f_to_jint fo (f_mul fo fa10 c), m11 = f_to_jint fo (f_mul fo fa11 c),
         m02 = f_to_jint fo (f_mul fo fa02 c), m12 = f_to_jint fo (f_mul fo fa12 c)\<rparr>)"

definition pisces_transform_multiply :: "transform6 \<Rightarrow> transform6 \<Rightarrow> transform6" where
  "pisces_transform_multiply D S =
    (let n00 = sar (i64 (m00 D * m00 S + m01 D * m10 S)) 16;
         n01 = sar (i64 (m00 D * m01 S + m01 D * m11 S)) 16;
         n10 = sar (i64 (m10 D * m00 S + m11 D * m10 S)) 16;
         n11 = sar (i64 (m10 D * m01 S + m11 D * m11 S)) 16;
         n02 = sar (i64 (shl (m02 D) 16 + m00 D * m02 S + m01 D * m12 S)) 16;
         n12 = sar (i64 (shl (m12 D) 16 + m10 D * m02 S + m11 D * m12 S)) 16
     in \<lparr>m00 = i32 n00, m01 = i32 n01, m10 = i32 n10, m11 = i32 n11, m02 = i32 n02, m12 = i32 n12\<rparr>)"

text \<open>The arguments are pointers; two pointers are equal when they have the same address.\<close>

definition pisces_transform_equals ::
  "(int \<times> transform6) option \<Rightarrow> (int \<times> transform6) option \<Rightarrow> bool" where
  "pisces_transform_equals tr1 tr2 =
    (if map_option fst tr1 = map_option fst tr2 then True
     else (case (tr1, tr2) of
       (Some (_, t1), Some (_, t2)) \<Rightarrow>
         m00 t1 = m00 t2 \<and> m01 t1 = m01 t2 \<and> m02 t1 = m02 t2 \<and>
         m10 t1 = m10 t2 \<and> m11 t1 = m11 t2 \<and> m12 t1 = m12 t2
     | _ \<Rightarrow> False))"

definition transform_ident :: transform6 where
  "transform_ident = \<lparr>m00 = 65536, m01 = 0, m10 = 0, m11 = 65536, m02 = 0, m12 = 0\<rparr>"

definition transform_jint :: "transform6 \<Rightarrow> bool" where
  "transform_jint t \<longleftrightarrow> jint_range (m00 t) \<and> jint_range (m01 t) \<and> jint_range (m10 t) \<and>
     jint_range (m11 t) \<and> jint_range (m02 t) \<and> jint_range (m12 t)"

section \<open>PiscesUtil and toPiscesCoords\<close>

record stroke_bias =
  PISCES_STROKE_X_BIAS :: jint
  PISCES_STROKE_Y_BIAS :: jint

definition piscesutil_setStrokeBias :: "jint \<Rightarrow> jint \<Rightarrow> stroke_bias \<Rightarrow> stroke_bias" where
  "piscesutil_setStrokeBias xbias ybias b =
    b\<lparr>PISCES_STROKE_X_BIAS := xbias, PISCES_STROKE_Y_BIAS := ybias\<rparr>"

text \<open>A shift by 32 or more has no defined value in C.\<close>

definition toPiscesCoords :: "32 word \<Rightarrow> jint option" where
  "toPiscesCoords ff =
    (let gg = (ff AND 0xffffff) OR 0x800000;
         shift = 134 - uint (drop_bit 23 ff AND 0xff)
     in if shift \<ge> 32 \<or> shift \<le> - 32 then None
        else
          (let gg = (if shift < 0 then push_bit (nat (- shift)) gg else drop_bit (nat shift) gg);
               gg = (gg XOR - drop_bit 31 ff) + drop_bit 31 ff;
               gg = gg AND - (if ff \<noteq> 0 then 1 else 0)
           in Some (sint gg)))"

section \<open>The sine\<close>

lemma PISCES_PI_gt: "- 2147483648 < PISCES_PI_OVER_TWO" "\<not> PISCES_PI_OVER_TWO < - 2147483648"
  by (simp_all add: PISCES_PI_OVER_TWO_def)

lemma sin_reduce_mod: "0 \<le> theta \<Longrightarrow> sin_reduce theta = theta mod PISCES_TWO_PI"
proof (induction theta rule: sin_reduce.induct)
  case (1 theta)
  show ?case
  proof (cases "theta \<ge> PISCES_TWO_PI")
    case True
    then have "sin_reduce theta = (theta - PISCES_TWO_PI) mod PISCES_TWO_PI"
      using 1 by (subst sin_reduce.simps) simp
    then show ?thesis by simp
  next
    case False
    then show ?thesis using 1(2) by (subst sin_reduce.simps) simp
  qed
qed

text \<open>The table index of an angle in the first turn, and the sign of its quadrant.\<close>

definition sin_index :: "jint \<Rightarrow> jint" where
  "sin_index t = (let t = (if t \<ge> PISCES_PI then PISCES_TWO_PI - t else t);
                      t = (if t > PISCES_PI_OVER_TWO then PISCES_PI - t else t)
                  in t * PISCES_SINTAB_ENTRIES div PISCES_PI_OVER_TWO)"

lemma sin_index_range:
  assumes "0 \<le> t" "t < PISCES_TWO_PI"
  shows "0 \<le> sin_index t" "sin_index t \<le> 1024"
  using assms by (auto simp: sin_index_def math_consts Let_def)

lemma piscesmath_sin_eq:
  assumes "length tab = 1025" "\<forall>s\<in>set tab. 0 \<le> s \<and> s \<le> 65536" "jint_range theta" "theta \<noteq> - 2147483648"
  shows "piscesmath_sin (Some tab) theta =
    (let t = \<bar>theta\<bar> mod PISCES_TWO_PI
     in Some ((if theta < 0 then - 1 else 1) * (if t \<ge> PISCES_PI then - 1 else 1) * tab ! nat (sin_index t)))"
proof -
  define t where "t = \<bar>theta\<bar> mod PISCES_TWO_PI"
  have t: "0 \<le> t" "t < PISCES_TWO_PI" by (simp_all add: t_def PISCES_TWO_PI_def)
  have a: "(if theta < 0 then i32 (- theta) else theta) = \<bar>theta\<bar>"
    using assms(3,4) by (auto simp: jint_range_def intro!: i32_id)
  have red: "sin_reduce \<bar>theta\<bar> = t" by (simp add: sin_reduce_mod t_def)
  define u where "u = (let t = (if t \<ge> PISCES_PI then PISCES_TWO_PI - t else t)
      in if t > PISCES_PI_OVER_TWO then PISCES_PI - t else t)"
  have u: "0 \<le> u" "u \<le> 102944" using t by (auto simp: u_def Let_def math_consts)
  have idx: "i32 (cdiv (i64 (u * PISCES_SINTAB_ENTRIES)) PISCES_PI_OVER_TWO) = sin_index t"
  proof -
    have "i64 (u * PISCES_SINTAB_ENTRIES) = u * PISCES_SINTAB_ENTRIES"
      using u by (intro i64_id) (auto simp: math_consts)
    moreover have "cdiv (u * PISCES_SINTAB_ENTRIES) PISCES_PI_OVER_TWO = sin_index t"
      using u by (auto simp: cdiv_def sgn_if sin_index_def u_def Let_def math_consts)
    ultimately show ?thesis using sin_index_range [OF t] by (simp add: i32_id)
  qed
  have s: "tab ! nat (sin_index t) \<in> set tab"
    using sin_index_range [OF t] assms(1) by (intro nth_mem) auto
  have r: "rd (Some tab) (sin_index t) = Some (tab ! nat (sin_index t))"
    using sin_index_range [OF t] assms(1) by simp
  have "\<bar>tab ! nat (sin_index t)\<bar> \<le> 65536" using assms(2) s by auto
  then have sg: "i32 (sgn * tab ! nat (sin_index t)) = sgn * tab ! nat (sin_index t)" if "sgn = 1 \<or> sgn = - 1" for sgn
    using that by (intro i32_id) auto
  show ?thesis
    unfolding piscesmath_sin_def t_def [symmetric]
    using a red idx r sg [of 1] sg [of "- 1"] by (auto simp: Let_def u_def split: if_splits simp del: rd.simps)
qed


lemma piscesmath_sin_odd:
  assumes "length tab = 1025" "\<forall>s\<in>set tab. 0 \<le> s \<and> s \<le> 65536" "tab ! 0 = 0"
    "jint_range theta" "theta \<noteq> - 2147483648"
  obtains s where "piscesmath_sin (Some tab) theta = Some s" "piscesmath_sin (Some tab) (- theta) = Some (- s)"
    "- 65536 \<le> s" "s \<le> 65536"
proof -
  let ?t = "\<bar>theta\<bar> mod PISCES_TWO_PI"
  have t: "0 \<le> ?t" "?t < PISCES_TWO_PI" by (simp_all add: PISCES_TWO_PI_def)
  define s where "s = (if theta < 0 then - 1 else 1) * (if ?t \<ge> PISCES_PI then - 1 else 1) * tab ! nat (sin_index ?t)"
  have "tab ! nat (sin_index ?t) \<in> set tab"
    using sin_index_range [OF t] assms(1) by (intro nth_mem) auto
  then have b: "0 \<le> tab ! nat (sin_index ?t)" "tab ! nat (sin_index ?t) \<le> 65536" using assms(2) by auto
  have e: "piscesmath_sin (Some tab) theta = Some s"
    using assms by (simp add: piscesmath_sin_eq Let_def s_def)
  have z: "s = 0" if "theta = 0"
    using assms(3) that by (simp add: s_def sin_index_def PISCES_TWO_PI_def PISCES_PI_def PISCES_PI_OVER_TWO_def)
  have "piscesmath_sin (Some tab) (- theta) = Some (- s)"
  proof (cases "theta = 0")
    case True
    then show ?thesis using e z by simp
  next
    case False
    have "jint_range (- theta)" "- theta \<noteq> - 2147483648" using assms(4,5) by (auto simp: jint_range_def)
    then show ?thesis
      using piscesmath_sin_eq [OF assms(1,2), of "- theta"] False by (auto simp: Let_def s_def)
  qed
  moreover have "- 65536 \<le> s" "s \<le> 65536" using b by (auto simp: s_def)
  ultimately show thesis using that e by blast
qed

text \<open>The most negative angle has no absolute value: the loop leaves it and the index is negative.\<close>

lemma piscesmath_sin_min: "piscesmath_sin (Some tab) (- 2147483648) = None"
proof -
  have "sin_reduce (- 2147483648) = - 2147483648"
    by (subst sin_reduce.simps) (simp add: PISCES_TWO_PI_def)
  moreover have "i32 2147483648 = - 2147483648" by (simp add: i32_def)
  moreover have "i32 (cdiv (i64 (- 2147483648 * PISCES_SINTAB_ENTRIES)) PISCES_PI_OVER_TWO) < 0"
    by (simp add: cdiv_def i64_def i32_def math_consts sgn_if)
  ultimately show ?thesis
    by (simp add: piscesmath_sin_def Let_def PISCES_PI_def PISCES_PI_gt)
qed

lemma toRadians_range: "- 411480 \<le> piscesmath_toRadians d" "piscesmath_toRadians d \<le> 411479"
proof -
  define c where "c = crem d PISCES_360_DEGREES"
  have c: "- 23592960 < c" "c < 23592960"
    using crem_bound [of PISCES_360_DEGREES d] by (auto simp: c_def PISCES_360_DEGREES_def)
  have "i64 (c * 1143) = c * 1143" using c by (intro i64_id) auto
  moreover have "- 411480 \<le> c * 1143 div 65536" "c * 1143 div 65536 \<le> 411479" using c by auto
  ultimately show "- 411480 \<le> piscesmath_toRadians d" "piscesmath_toRadians d \<le> 411479"
    unfolding piscesmath_toRadians_def c_def [symmetric]
    by (simp_all add: PISCES_DEGREES_TO_RADIANS_MULTIPLIER_def sar_def i32_id)
qed

section \<open>Transforms\<close>

lemma fixed_mult_one:
  assumes "jint_range x"
  shows "i32 (sar (i64 (x * 65536)) 16) = x" "i32 (sar (i64 (65536 * x)) 16) = x"
  using assms by (simp_all add: jint_range_def i64_id sar_def i32_id)

lemma transform_multiply_ident:
  assumes "transform_jint t"
  shows "pisces_transform_multiply t transform_ident = t" "pisces_transform_multiply transform_ident t = t"
  using assms
  by (auto simp: pisces_transform_multiply_def transform_ident_def transform_jint_def Let_def shl_def fixed_mult_one)

lemma transform_multiply_translate:
  assumes "transform_jint t" "jint_range dx" "jint_range dy"
  shows "pisces_transform_multiply \<lparr>m00 = 65536, m01 = 0, m10 = 0, m11 = 65536, m02 = dx, m12 = dy\<rparr> t
    = t\<lparr>m02 := i32 (dx + m02 t), m12 := i32 (dy + m12 t)\<rparr>"
proof -
  have s: "sar (i64 (shl a 16 + 65536 * b)) 16 = a + b" if "jint_range a" "jint_range b" for a b
  proof -
    have "i64 (shl a 16 + 65536 * b) = shl a 16 + 65536 * b"
      using that by (intro i64_id) (auto simp: shl_def jint_range_def)
    then show ?thesis by (simp add: sar_def shl_def algebra_simps)
  qed
  show ?thesis
    using assms
    by (intro transform6.equality)
       (simp_all add: pisces_transform_multiply_def transform_jint_def Let_def s fixed_mult_one)
qed

lemma transform_equals_iff:
  "pisces_transform_equals (Some (a, t)) (Some (b, u)) \<longleftrightarrow> a = b \<or> t = u"
  by (auto simp: pisces_transform_equals_def)

section \<open>Floats to fixed point\<close>

lemma mantissa_int: "(x AND 0xffffff) OR 0x800000 = x mod 0x800000 + (0x800000 :: int)"
proof -
  define r b where "r = x mod 0x800000" and "b = x div 0x800000 mod 2"
  have r: "0 \<le> r" "r < 2 ^ 23" by (simp_all add: r_def)
  have "x AND mask 24 = take_bit 24 x" by (simp add: take_bit_eq_mask)
  then have "x AND 0xffffff = x mod (0x800000 * 2)" by (simp add: mask_eq_exp_minus_1 take_bit_eq_mod)
  also have "\<dots> = b * 2 ^ 23 + r"
    using zmod_zmult2_eq [where ?a = x and ?b = "0x800000" and ?c = 2] by (simp add: r_def b_def mult.commute)
  also have "\<dots> = (b * 2 ^ 23) OR r" by (rule or_disjoint_add [OF r, symmetric])
  finally have "(x AND 0xffffff) OR 0x800000 = ((b * 2 ^ 23) OR 0x800000) OR r"
    by (simp add: or.assoc or.commute [of r])
  also have "(b * 2 ^ 23) OR 0x800000 = 1 * 2 ^ 23"
  proof -
    have "b = 0 \<or> b = 1" by (auto simp: b_def)
    then show ?thesis by auto
  qed
  also have "(1 * 2 ^ 23) OR r = 1 * 2 ^ 23 + r" by (rule or_disjoint_add [OF r])
  finally show ?thesis by (simp add: r_def)
qed

text \<open>Sign, exponent and mantissa of the bits of a float.\<close>

definition float_exp :: "32 word \<Rightarrow> int" where
  "float_exp ff = uint ff div 0x800000 mod 256"

definition float_mant :: "32 word \<Rightarrow> int" where
  "float_mant ff = uint ff mod 0x800000 + 0x800000"

lemma uint_shr: "uint (drop_bit n (w :: 32 word)) = uint w div 2 ^ n"
proof -
  have "take_bit 32 (uint w) = uint w" using uint_lt2p [of w] by (intro take_bit_int_eq_self) simp_all
  then have "uint (drop_bit n w) = drop_bit n (uint w)" by (simp add: unsigned_drop_bit_eq)
  then show ?thesis using drop_bit_eq_div [of n "uint w"] by simp
qed

lemma uint_exp: "uint (drop_bit 23 ff AND 0xff :: 32 word) = float_exp ff"
  by (simp add: float_exp_def uint_and uint_shr and_255)

lemma uint_mant: "uint ((ff AND 0xffffff) OR 0x800000 :: 32 word) = float_mant ff"
  using mantissa_int [of "uint ff"] by (simp add: float_mant_def uint_and uint_or)

lemma sign_bit: "drop_bit 31 (ff :: 32 word) = (if uint ff < 0x80000000 then 0 else 1)"
proof -
  have "uint (drop_bit 31 ff) = uint ff div 0x80000000" by (simp add: uint_shr)
  also have "\<dots> = (if uint ff < 0x80000000 then 0 else 1)"
    using uint_lt2p [of ff] uint_ge_0 [of ff] by auto
  finally show ?thesis by (auto simp: word_uint_eq_iff)
qed

lemma sint_signed:
  fixes g :: "32 word"
  assumes "uint g < 0x80000000"
  shows "sint g = uint g" "sint (- g) = - uint g"
proof -
  have "sint g = i32 (uint g)" by (simp add: i32_word)
  then show "sint g = uint g" using assms i32_id [of "uint g"] uint_ge_0 [of g] by linarith
  have "- g = word_of_int (- uint g)" by simp
  then have "sint (- g) = i32 (- uint g)" by (simp only: i32_word)
  then show "sint (- g) = - uint g"
    using assms i32_id [of "- uint g"] uint_ge_0 [of g] by linarith
qed

lemma toPiscesCoords_eq:
  assumes "103 \<le> float_exp ff" "float_exp ff \<le> 141"
  shows "toPiscesCoords ff = Some ((if uint ff < 0x80000000 then 1 else - 1) *
    (float_mant ff * 2 ^ nat (float_exp ff) div 2 ^ 134))"
proof -
  define e m where "e = float_exp ff" and "m = float_mant ff"
  have m: "0x800000 \<le> m" "m < 0x1000000" by (simp_all add: m_def float_mant_def)
  define g where "g = (if 134 - e < 0 then push_bit (nat (- (134 - e))) ((ff AND 0xffffff) OR 0x800000)
      else drop_bit (nat (134 - e)) ((ff AND 0xffffff) OR 0x800000 :: 32 word))"
  have e: "103 \<le> e" "e \<le> 141" using assms by (simp_all add: e_def)
  have g: "uint g = m * 2 ^ nat e div 2 ^ 134" "m * 2 ^ nat e div 2 ^ 134 < 0x80000000"
  proof -
    have "uint g = m * 2 ^ nat e div 2 ^ 134 \<and> m * 2 ^ nat e div 2 ^ 134 < 0x80000000"
    proof (cases "134 - e < 0")
      case True
      define k where "k = nat (e - 134)"
      have k: "nat e = k + 134" "k \<le> 7" using True e by (auto simp: k_def)
      have q: "m * 2 ^ nat e div 2 ^ 134 = m * 2 ^ k" by (simp add: k(1) power_add)
      have "(2 :: int) ^ k \<le> 2 ^ 7" using k(2) by (intro power_increasing) auto
      then have "m * 2 ^ k \<le> 0xffffff * 2 ^ 7" using m by (intro mult_mono) auto
      moreover have "uint g = take_bit 32 (m * 2 ^ k)"
      proof -
        have "uint (push_bit k w) = take_bit 32 (uint w * 2 ^ k)" for w :: "32 word"
          by (simp add: unsigned_push_bit_eq push_bit_eq_mult [of k "uint w"] del: push_bit_of_1)
        moreover have "g = push_bit k ((ff AND 0xffffff) OR 0x800000)"
          unfolding g_def k_def using True by simp
        ultimately show ?thesis unfolding m_def by (simp only: uint_mant)
      qed
      ultimately show ?thesis using m q by (simp add: take_bit_int_eq_self)
    next
      case False
      define k where "k = nat (134 - e)"
      have "nat e + k = 134" using False e by (simp add: k_def)
      then have "(2 :: int) ^ 134 = 2 ^ k * 2 ^ nat e" by (metis power_add mult.commute)
      moreover have "m * 2 ^ nat e div (2 ^ k * 2 ^ nat e) = m div 2 ^ k" by (rule div_mult_mult2) simp
      ultimately have q: "m * 2 ^ nat e div 2 ^ 134 = m div 2 ^ k" by (simp only:)
      have "m div 2 ^ k \<le> m" using zdiv_mono2 [of m 1 "2 ^ k"] m by simp
      moreover have "uint g = m div 2 ^ k"
        unfolding g_def k_def m_def using False by (simp only: if_False uint_shr uint_mant)
      ultimately show ?thesis using m q by simp
    qed
    then show "uint g = m * 2 ^ nat e div 2 ^ 134" "m * 2 ^ nat e div 2 ^ 134 < 0x80000000" by auto
  qed
  have nz: "ff \<noteq> 0" using e by (auto simp: e_def float_exp_def)
  have "(g XOR - drop_bit 31 ff) + drop_bit 31 ff = (if uint ff < 0x80000000 then g else - g)"
    unfolding sign_bit using minus_eq_not_plus_1 [of g] by simp
  then have "toPiscesCoords ff = Some (sint (if uint ff < 0x80000000 then g else - g))"
    unfolding toPiscesCoords_def Let_def uint_exp e_def [symmetric] g_def [symmetric] using e nz by simp
  then show ?thesis using g sint_signed [of g] by (simp add: e_def m_def)
qed

end
