(* ===== verification/Pisces_Paint.thy ===== *)
theory Pisces_Paint
  imports Pisces_Rows Pisces_Math
begin

text \<open>
  The paint generators of \<open>PiscesPaint.c\<close>: they fill the paint buffer with one colour per pixel of
  the rows about to be emitted, from a linear or radial gradient, from a texture, or from the
  product of a texture with the previous paint.

  A generator runs over its rows with \<open>row_loop\<close> and over a row with \<open>px_fill\<close>, whose state is what the
  source steps from pixel to pixel (the gradient fraction, the texture coordinates). A read of the
  texture outside its block has no result. The eighteen cases of \<open>genTexturePaintTarget\<close> (three kinds
  of transform, six modes) are the pixel routines below with the bounds check and the sampler of
  the mode.
\<close>

section \<open>Scalars\<close>

definition lmod :: "jlong \<Rightarrow> jlong \<Rightarrow> jlong option" where
  "lmod x y = (if y = 0 then None else
     (let x = crem x y in Some (if x < 0 then x + y else x)))"

definition interp :: "jint \<Rightarrow> jint \<Rightarrow> jint \<Rightarrow> jint" where
  "interp x0 x1 frac = sar (i32 (shl x0 16 + (x1 - x0) * frac + 0x8000)) 16"

definition pad :: "jint \<Rightarrow> jint \<Rightarrow> jint" where
  "pad ifrac cycleMethod =
    (if cycleMethod = CYCLE_NONE then (if ifrac < 0 then 0 else if ifrac > 0xffff then 0xffff else ifrac)
     else if cycleMethod = CYCLE_REPEAT then ifrac AND 0xffff
     else if cycleMethod = CYCLE_REFLECT then
       (let ifrac = (if ifrac < 0 then i32 (- ifrac) else ifrac);
            ifrac = ifrac AND 0x1ffff
        in if ifrac > 0xffff then 0x1ffff - ifrac else ifrac)
     else ifrac)"

section \<open>Filling a row\<close>

definition px_fill :: "('s \<Rightarrow> (jint \<times> 's) option) \<Rightarrow> int \<Rightarrow> nat \<Rightarrow> 's \<Rightarrow> jint buf \<Rightarrow> jint buf option" where
  "px_fill f off n s paint =
    do {
      (paint, _) \<leftarrow> loopM (\<lambda>i (paint, s). do {
          (v, s) \<leftarrow> f s;
          paint \<leftarrow> wr paint i v;
          Some (paint, s) }) off n (paint, s);
      Some paint
    }"

text \<open>The rows of a generator: \<open>row off y\<close> fills the row of the image line \<open>y\<close>.\<close>

definition paint_rows ::
  "'f renderer \<Rightarrow> (jint \<Rightarrow> jint \<Rightarrow> jint buf \<Rightarrow> jint buf option) \<Rightarrow> jint \<Rightarrow> jint buf \<Rightarrow> jint buf option" where
  "paint_rows rdr row height paint = row_loop (r_alphaWidth rdr) 1 row (nat height) 0 (r_currY rdr) paint"

section \<open>Gradients\<close>

definition gradient_px :: "'f gradient \<Rightarrow> jint \<Rightarrow> jint option" where
  "gradient_px g ifrac = rd (Some (gradient_colors g)) (sar (pad ifrac (gradient_cycleMethod g)) 8)"

definition linear_row :: "'f float_ops \<Rightarrow> 'f renderer \<Rightarrow> jint \<Rightarrow> jint \<Rightarrow> jint buf \<Rightarrow> jint buf option" where
  "linear_row fo rdr off y =
    (let g = r_gradient rdr; mx = lg_mx g; my = lg_my g; b = lg_b g;
         frac = f_add fo (f_add fo (f_mul fo (f_of_int fo (r_currX rdr)) mx) (f_mul fo (f_of_int fo y) my)) b
     in px_fill (\<lambda>frac. do {
            v \<leftarrow> gradient_px g (f_to_jint fo frac);
            Some (v, f_add fo frac mx) })
          off (nat (r_alphaWidth rdr)) frac)"

definition genLinearGradientPaint :: "'f float_ops \<Rightarrow> 'f renderer \<Rightarrow> jint \<Rightarrow> 'f renderer option" where
  "genLinearGradientPaint fo rdr height =
    do {
      paint \<leftarrow> paint_rows rdr (linear_row fo rdr) height (r_paint rdr);
      Some (rdr\<lparr>r_paint := paint\<rparr>)
    }"

text \<open>The start values \<open>U, dU, V, dV, ddV\<close> of a row of the radial gradient.\<close>

definition radial_start :: "'f float_ops \<Rightarrow> 'f gradient \<Rightarrow> jint \<Rightarrow> jint \<Rightarrow> 'f \<times> 'f \<times> 'f \<times> 'f \<times> 'f" where
  "radial_start fo g x y =
    (let add = f_add fo; sub = f_sub fo; mul = f_mul fo; fi = f_of_int fo; two = fi 2; k = fi 65536;
         a00 = rg_a00 g; a01 = rg_a01 g; a02 = rg_a02 g; a10 = rg_a10 g; a11 = rg_a11 g; a12 = rg_a12 g;
         a00a00 = rg_a00a00 g; a10a10 = rg_a10a10 g; a00a10 = rg_a00a10 g;
         cx = rg_cx g; cy = rg_cy g; fx = rg_fx g; fy = rg_fy g; rsq = rg_rsq g;
         txx = add (add (mul (fi x) a00) (mul (fi y) a01)) a02;
         tyy = add (add (mul (fi x) a10) (mul (fi y) a11)) a12;
         fxx = sub fx txx;
         fyy = sub fy tyy;
         A = add (mul fxx fxx) (mul fyy fyy);
         cfx = sub cx fx;
         cfy = sub cy fy;
         cfxcfx = mul cfx cfx;
         cfycfy = mul cfy cfy;
         cfxcfy = mul cfx cfy;
         B = add (mul cfx fxx) (mul cfy fyy);
         B2 = mul (f_neg fo B) two;
         C = sub (add cfxcfx cfycfy) rsq;
         C2 = mul two C;
         C_inv = f_div fo (fi 1) C;
         C_sq = mul C_inv C_inv;
         U = mul (f_neg fo B) C_inv;
         dU = mul (add (mul a00 cfx) (mul a10 cfy)) C_inv;
         V = mul (sub (mul B B) (mul A C)) C_sq;
         sube = mul (mul two a00a10) cfxcfy;
         dV = mul (add (add sube (add (mul a00a00 (sub cfxcfx C)) (mul a00 (add (mul B2 cfx) (mul C2 fxx)))))
                       (add (mul a10a10 (sub cfycfy C)) (mul a10 (add (mul B2 cfy) (mul C2 fyy))))) C_sq;
         tmp = add (sub (mul a00a00 cfycfy) sube) (mul a10a10 cfxcfx);
         ddV = mul (mul two (sub (mul (add a00a00 a10a10) rsq) tmp)) C_sq
     in (mul k U, mul k dU, mul (mul k k) V, mul (mul k k) dV, mul (mul k k) ddV))"

definition radial_row :: "'f float_ops \<Rightarrow> 'f renderer \<Rightarrow> jint \<Rightarrow> jint \<Rightarrow> jint buf \<Rightarrow> jint buf option" where
  "radial_row fo rdr off y =
    (let g = r_gradient rdr;
         (U, dU, V, dV, ddV) = radial_start fo g (r_currX rdr) y
     in px_fill (\<lambda>(U, V, dV).
            (let V = (if f_less fo V (f_of_int fo 0) then f_of_int fo 0 else V);
                 ifrac = f_add_sqrt fo U V
             in do {
               v \<leftarrow> gradient_px g ifrac;
               Some (v, f_add fo U dU, f_add fo V dV, f_add fo dV ddV) }))
          off (nat (r_alphaWidth rdr)) (U, V, dV))"

definition genRadialGradientPaint :: "'f float_ops \<Rightarrow> 'f renderer \<Rightarrow> jint \<Rightarrow> 'f renderer option" where
  "genRadialGradientPaint fo rdr height =
    do {
      paint \<leftarrow> paint_rows rdr (radial_row fo rdr) height (r_paint rdr);
      Some (rdr\<lparr>r_paint := paint\<rparr>)
    }"

section \<open>Interpolation\<close>

definition interpolate2points :: "jint \<Rightarrow> jint \<Rightarrow> jint \<Rightarrow> jint" where
  "interpolate2points p0 p1 frac =
    (let aa = interp (pxA p0) (pxA p1) frac;
         rr = interp (pxR p0) (pxR p1) frac;
         gg = interp (pxG p0) (pxG p1) frac;
         bb = interp (pxB p0) (pxB p1) frac
     in argb aa rr gg bb)"

definition interpolate4points :: "jint \<Rightarrow> jint \<Rightarrow> jint \<Rightarrow> jint \<Rightarrow> jint \<Rightarrow> jint \<Rightarrow> jint" where
  "interpolate4points p00 p01 p10 p11 hfrac vfrac =
    (let a0 = interp (pxA p00) (pxA p01) hfrac;
         r0 = interp (pxR p00) (pxR p01) hfrac;
         g0 = interp (pxG p00) (pxG p01) hfrac;
         b0 = interp (pxB p00) (pxB p01) hfrac;
         a1 = interp (pxA p10) (pxA p11) hfrac;
         r1 = interp (pxR p10) (pxR p11) hfrac;
         g1 = interp (pxG p10) (pxG p11) hfrac;
         b1 = interp (pxB p10) (pxB p11) hfrac;
         aa = interp a0 a1 vfrac;
         rr = interp r0 r1 vfrac;
         gg = interp g0 g1 vfrac;
         bb = interp b0 b1 vfrac
     in argb aa rr gg bb)"

definition interpolate2pointsNoAlpha :: "jint \<Rightarrow> jint \<Rightarrow> jint \<Rightarrow> jint" where
  "interpolate2pointsNoAlpha p0 p1 frac =
    (let rr = interp (pxR p0) (pxR p1) frac;
         gg = interp (pxG p0) (pxG p1) frac;
         bb = interp (pxB p0) (pxB p1) frac
     in argb 0xff rr gg bb)"

definition interpolate4pointsNoAlpha :: "jint \<Rightarrow> jint \<Rightarrow> jint \<Rightarrow> jint \<Rightarrow> jint \<Rightarrow> jint \<Rightarrow> jint" where
  "interpolate4pointsNoAlpha p00 p01 p10 p11 hfrac vfrac =
    (let r0 = interp (pxR p00) (pxR p01) hfrac;
         g0 = interp (pxG p00) (pxG p01) hfrac;
         b0 = interp (pxB p00) (pxB p01) hfrac;
         r1 = interp (pxR p10) (pxR p11) hfrac;
         g1 = interp (pxG p10) (pxG p11) hfrac;
         b1 = interp (pxB p10) (pxB p11) hfrac;
         rr = interp r0 r1 vfrac;
         gg = interp g0 g1 vfrac;
         bb = interp b0 b1 vfrac
     in argb 0xff rr gg bb)"

section \<open>Bounds checks and neighbours\<close>

definition isInBoundsNoRepeat :: "jint \<Rightarrow> jint \<Rightarrow> jint \<Rightarrow> bool" where
  "isInBoundsNoRepeat a mn mx \<longleftrightarrow> \<not> (a < mn \<or> a > mx)"

definition checkBoundsRepeat :: "jint \<Rightarrow> jlong \<Rightarrow> jint \<Rightarrow> jint \<Rightarrow> (jint \<times> jlong) option" where
  "checkBoundsRepeat a la mn mx =
    (if a < mn \<or> a > mx then
       (if mx \<ge> 0 then do { la \<leftarrow> lmod la (i32 (shl (mx + 1) 16)); Some (i32 (sar la 16), la) }
        else Some (0, 0))
     else Some (a, la))"

definition checkBoundsNoRepeat :: "jint \<Rightarrow> jlong \<Rightarrow> jint \<Rightarrow> jint \<Rightarrow> (jint \<times> jlong) option" where
  "checkBoundsNoRepeat a la mn mx = Some (if a < mn then mn else if a > mx then mx else a, la)"

text \<open>\<open>txtData[i]\<close>.\<close>

definition txtData :: "texture \<Rightarrow> int \<Rightarrow> jint option" where
  "txtData t i = rd (tx_intData t) (tx_base t + i)"

definition getPointsToInterpolate ::
  "texture \<Rightarrow> jint \<Rightarrow> jint \<Rightarrow> jint \<Rightarrow> jint \<Rightarrow> jint \<Rightarrow> jint \<Rightarrow> jint \<Rightarrow> (jint \<times> jint \<times> jint) option" where
  "getPointsToInterpolate t sidx stride p00 tx txMx ty tyMx =
    (let sidx2 = (if ty \<ge> tyMx then sidx else i32 (sidx + stride));
         isXin = tx < txMx
     in do {
       p0 \<leftarrow> (if isXin then txtData t (sidx + 1) else Some p00);
       p1 \<leftarrow> txtData t sidx2;
       p2 \<leftarrow> (if isXin then txtData t (sidx2 + 1) else txtData t sidx2);
       Some (p0, p1, p2) })"

definition getPointsToInterpolateRepeat ::
  "texture \<Rightarrow> jint \<Rightarrow> jint \<Rightarrow> jint \<Rightarrow> jint \<Rightarrow> jint \<Rightarrow> jint \<Rightarrow> jint \<Rightarrow> (jint \<times> jint \<times> jint) option" where
  "getPointsToInterpolateRepeat t sidx stride p00 tx txMx ty tyMx =
    (let sidx2 = (if ty \<ge> tyMx then max tx 0 else i32 (sidx + stride));
         isXin = tx < txMx
     in do {
       p0 \<leftarrow> (if isXin then txtData t (sidx + 1) else txtData t (sidx - max tx 0));
       p1 \<leftarrow> txtData t sidx2;
       p2 \<leftarrow> (if isXin then txtData t (sidx2 + 1) else txtData t (sidx2 - max tx 0));
       Some (p0, p1, p2) })"

section \<open>Modes\<close>

datatype tex_mode = NO_REPEAT_NO_INTERPOLATE | REPEAT_NO_INTERPOLATE
  | NO_REPEAT_INTERPOLATE_NO_ALPHA | NO_REPEAT_INTERPOLATE_ALPHA
  | REPEAT_INTERPOLATE_NO_ALPHA | REPEAT_INTERPOLATE_ALPHA

definition repeatInterpolateMode :: "texture \<Rightarrow> tex_mode" where
  "repeatInterpolateMode t =
    (if tx_interpolate t then
       (if tx_hasAlpha t then
          (if tx_repeat t then REPEAT_INTERPOLATE_ALPHA else NO_REPEAT_INTERPOLATE_ALPHA)
        else (if tx_repeat t then REPEAT_INTERPOLATE_NO_ALPHA else NO_REPEAT_INTERPOLATE_NO_ALPHA))
     else (if tx_repeat t then REPEAT_NO_INTERPOLATE else NO_REPEAT_NO_INTERPOLATE))"

fun mode_repeat :: "tex_mode \<Rightarrow> bool" where
  "mode_repeat REPEAT_NO_INTERPOLATE = True"
| "mode_repeat REPEAT_INTERPOLATE_NO_ALPHA = True"
| "mode_repeat REPEAT_INTERPOLATE_ALPHA = True"
| "mode_repeat _ = False"

definition mode_check :: "tex_mode \<Rightarrow> jint \<Rightarrow> jlong \<Rightarrow> jint \<Rightarrow> jint \<Rightarrow> (jint \<times> jlong) option" where
  "mode_check m = (if mode_repeat m then checkBoundsRepeat else checkBoundsNoRepeat)"

text \<open>The choice between four points, two points and one, by the fractions of the coordinates.\<close>

definition sample_alpha :: "jint \<Rightarrow> jint \<times> jint \<times> jint \<Rightarrow> jint \<Rightarrow> jint \<Rightarrow> jint" where
  "sample_alpha p00 pts hfrac vfrac =
    (case pts of (q0, q1, q2) \<Rightarrow>
       if hfrac \<noteq> 0 \<and> vfrac \<noteq> 0 then interpolate4points p00 q0 q1 q2 hfrac vfrac
       else if hfrac \<noteq> 0 then interpolate2points p00 q0 hfrac
       else if vfrac \<noteq> 0 then interpolate2points p00 q1 vfrac
       else p00)"

definition sample_no_alpha :: "jint \<Rightarrow> jint \<times> jint \<times> jint \<Rightarrow> jint \<Rightarrow> jint \<Rightarrow> jint" where
  "sample_no_alpha p00 pts hfrac vfrac =
    (case pts of (q0, q1, q2) \<Rightarrow>
       if hfrac \<noteq> 0 \<and> vfrac \<noteq> 0 then interpolate4pointsNoAlpha p00 q0 q1 q2 hfrac vfrac
       else if hfrac \<noteq> 0 then interpolate2pointsNoAlpha p00 q0 hfrac
       else if vfrac \<noteq> 0 then interpolate2pointsNoAlpha p00 q1 vfrac
       else p00)"

text \<open>What a mode computes at the checked coordinates \<open>tx\<close>, \<open>ty\<close>.\<close>

definition mode_sample :: "tex_mode \<Rightarrow> texture \<Rightarrow> jint \<Rightarrow> jint \<Rightarrow> jint \<Rightarrow> jint \<Rightarrow> jint option" where
  "mode_sample m t tx ty hfrac vfrac =
    (let sidx = i32 (max 0 ty * tx_stride t + max 0 tx);
         txMx = i32 (tx_imageWidth t - 1); tyMx = i32 (tx_imageHeight t - 1)
     in do {
       p00 \<leftarrow> txtData t sidx;
       (case m of
          NO_REPEAT_NO_INTERPOLATE \<Rightarrow> Some p00
        | REPEAT_NO_INTERPOLATE \<Rightarrow> Some p00
        | NO_REPEAT_INTERPOLATE_ALPHA \<Rightarrow> do {
            pts \<leftarrow> getPointsToInterpolate t sidx (tx_stride t) p00 tx txMx ty tyMx;
            Some (sample_alpha p00 pts hfrac vfrac) }
        | REPEAT_INTERPOLATE_ALPHA \<Rightarrow> do {
            pts \<leftarrow> getPointsToInterpolateRepeat t sidx (tx_stride t) p00 tx txMx ty tyMx;
            Some (sample_alpha p00 pts hfrac vfrac) }
        | NO_REPEAT_INTERPOLATE_NO_ALPHA \<Rightarrow> do {
            pts \<leftarrow> getPointsToInterpolate t sidx (tx_stride t) p00 tx txMx ty tyMx;
            Some (sample_no_alpha p00 pts hfrac vfrac) }
        | REPEAT_INTERPOLATE_NO_ALPHA \<Rightarrow> do {
            pts \<leftarrow> getPointsToInterpolateRepeat t sidx (tx_stride t) p00 tx txMx ty tyMx;
            Some (sample_no_alpha p00 pts hfrac vfrac) }) })"

section \<open>Textures: translation\<close>

text \<open>
  Without repetition and interpolation a row is three runs: copies of the pixel at \<open>txMin\<close>, the pixels
  of the texture row, copies of the pixel at \<open>txMax\<close>.
\<close>

definition translate_copy :: "texture \<Rightarrow> jint \<Rightarrow> jint \<Rightarrow> int \<Rightarrow> int \<Rightarrow> jint buf \<Rightarrow> jint buf option" where
  "translate_copy t ty tx a w paint =
    (let am = a + w;
         txtRow = i32 (max 0 ty * tx_stride t);
         n1 = max 0 (min (txMin t - tx) w)
     in do {
       paint \<leftarrow> loopM (\<lambda>a p. do { v \<leftarrow> txtData t (txtRow + txMin t); wr p a v }) a (nat n1) paint;
       let a = a + n1;
       let tx = tx + n1;
       let len = max 0 (min (am - a) (i32 (txMax t - tx + 1)));
       paint \<leftarrow> loopM (\<lambda>i p. do { v \<leftarrow> txtData t (txtRow + tx + (i - a)); wr p i v }) a (nat len) paint;
       let a = a + len;
       loopM (\<lambda>a p. do { v \<leftarrow> txtData t (txtRow + txMax t); wr p a v }) a (nat (am - a)) paint
     })"

definition translate_px ::
  "tex_mode \<Rightarrow> texture \<Rightarrow> jint \<Rightarrow> jint \<Rightarrow> jint \<Rightarrow> jlong \<Rightarrow> (jint \<times> jlong) option" where
  "translate_px m t ty hfrac vfrac ltx =
    do {
      let tx = i32 (sar ltx 16);
      (tx, ltx) \<leftarrow> mode_check m tx ltx (i32 (txMin t - 1)) (txMax t);
      v \<leftarrow> mode_sample m t tx ty hfrac vfrac;
      Some (v, i64 (ltx + 0x10000))
    }"

definition translate_row ::
  "tex_mode \<Rightarrow> texture \<Rightarrow> jint \<Rightarrow> jint \<Rightarrow> jint \<Rightarrow> jint \<Rightarrow> jint buf \<Rightarrow> jint buf option" where
  "translate_row m t x w off y paint =
    (let ltx = i64 (i32 (shl x 16) + tx_m02 t);
         lty = i64 (i32 (shl y 16) + tx_m12 t);
         tx = i32 (sar ltx 16);
         ty = i32 (sar lty 16);
         hfrac = ltx AND 0xffff;
         vfrac = lty AND 0xffff
     in do {
       (ty, lty) \<leftarrow> (if tx_repeat t then checkBoundsRepeat else checkBoundsNoRepeat)
                      ty lty (i32 (tyMin t - 1)) (tyMax t);
       (if m = NO_REPEAT_NO_INTERPOLATE then translate_copy t ty tx off w paint
        else px_fill (translate_px m t ty hfrac vfrac) off (nat w) ltx paint)
     })"

section \<open>Textures: scaling\<close>

definition scale_px :: "tex_mode \<Rightarrow> texture \<Rightarrow> jlong \<times> jlong \<Rightarrow> (jint \<times> jlong \<times> jlong) option" where
  "scale_px m t l =
    (case l of (ltx, lty) \<Rightarrow>
       let hfrac = ltx AND 0xffff; vfrac = lty AND 0xffff
       in do {
         (tx, ltx) \<leftarrow> mode_check m (i32 (sar ltx 16)) ltx (i32 (txMin t - 1)) (txMax t);
         (ty, lty) \<leftarrow> mode_check m (i32 (sar lty 16)) lty (i32 (tyMin t - 1)) (tyMax t);
         v \<leftarrow> mode_sample m t tx ty hfrac vfrac;
         Some (v, i64 (ltx + tx_m00 t), i64 (lty + tx_m10 t))
       })"

text \<open>The start coordinates of a row under a scaling or a generic transform.\<close>

definition affine_start :: "texture \<Rightarrow> jint \<Rightarrow> jint \<Rightarrow> jlong \<times> jlong" where
  "affine_start t x y =
    (i64 (x * tx_m00 t + y * tx_m01 t + tx_m02 t), i64 (x * tx_m10 t + y * tx_m11 t + tx_m12 t))"

definition scale_row ::
  "tex_mode \<Rightarrow> texture \<Rightarrow> jint \<Rightarrow> jint \<Rightarrow> jint \<Rightarrow> jint \<Rightarrow> jint buf \<Rightarrow> jint buf option" where
  "scale_row m t x w off y paint = px_fill (scale_px m t) off (nat w) (affine_start t x y) paint"

section \<open>Textures: generic transforms\<close>

text \<open>Without repetition a pixel outside the texture is transparent.\<close>

definition generic_norepeat_px :: "tex_mode \<Rightarrow> texture \<Rightarrow> jlong \<times> jlong \<Rightarrow> (jint \<times> jlong \<times> jlong) option" where
  "generic_norepeat_px m t l =
    (case l of (ltx, lty) \<Rightarrow>
       let tx = i32 (sar ltx 16); ty = i32 (sar lty 16);
           hfrac = ltx AND 0xffff; vfrac = lty AND 0xffff;
           inBounds = isInBoundsNoRepeat tx (i32 (txMin t - 1)) (txMax t) \<and>
                      isInBoundsNoRepeat ty (i32 (tyMin t - 1)) (tyMax t)
       in do {
         v \<leftarrow> (if inBounds then mode_sample m t tx ty hfrac vfrac else Some 0);
         Some (v, i64 (ltx + tx_m00 t), i64 (lty + tx_m10 t))
       })"

definition generic_repeat_px :: "tex_mode \<Rightarrow> texture \<Rightarrow> jlong \<times> jlong \<Rightarrow> (jint \<times> jlong \<times> jlong) option" where
  "generic_repeat_px m t l =
    (case l of (ltx, lty) \<Rightarrow>
       let hfrac = ltx AND 0xffff; vfrac = lty AND 0xffff
       in do {
         (tx, ltx) \<leftarrow> checkBoundsRepeat (i32 (sar ltx 16)) ltx (i32 (txMin t - 1)) (txMax t);
         (ty, lty) \<leftarrow> checkBoundsRepeat (i32 (sar lty 16)) lty (i32 (tyMin t - 1)) (tyMax t);
         v \<leftarrow> mode_sample m t tx ty hfrac vfrac;
         Some (v, i64 (ltx + tx_m00 t), i64 (lty + tx_m10 t))
       })"

definition generic_row ::
  "tex_mode \<Rightarrow> texture \<Rightarrow> jint \<Rightarrow> jint \<Rightarrow> jint \<Rightarrow> jint \<Rightarrow> jint buf \<Rightarrow> jint buf option" where
  "generic_row m t x w off y paint =
    px_fill (if mode_repeat m then generic_repeat_px m t else generic_norepeat_px m t)
      off (nat w) (affine_start t x y) paint"

section \<open>The texture generators\<close>

definition genTexturePaintTarget :: "'f renderer \<Rightarrow> jint buf \<Rightarrow> jint \<Rightarrow> jint buf option" where
  "genTexturePaintTarget rdr paint height =
    (let t = r_texture rdr; m = repeatInterpolateMode t; x = r_currX rdr; w = r_alphaWidth rdr
     in if tx_transformType t = TEXTURE_TRANSFORM_IDENTITY \<or> tx_transformType t = TEXTURE_TRANSFORM_TRANSLATE
        then paint_rows rdr (translate_row m t x w) height paint
        else if tx_transformType t = TEXTURE_TRANSFORM_SCALE_TRANSLATE
        then paint_rows rdr (scale_row m t x w) height paint
        else if tx_transformType t = TEXTURE_TRANSFORM_GENERIC
        then paint_rows rdr (generic_row m t x w) height paint
        else Some paint)"

definition genTexturePaint :: "'f renderer \<Rightarrow> jint \<Rightarrow> 'f renderer option" where
  "genTexturePaint rdr height =
    do { paint \<leftarrow> genTexturePaintTarget rdr (r_paint rdr) height; Some (rdr\<lparr>r_paint := paint\<rparr>) }"

text \<open>The double loop that multiplies the pixels of the paint; \<open>f\<close> is given the index of the pixel.\<close>

definition multiply_rows ::
  "'f renderer \<Rightarrow> (int \<Rightarrow> jint \<Rightarrow> jint option) \<Rightarrow> jint \<Rightarrow> jint buf \<Rightarrow> jint buf option" where
  "multiply_rows rdr f height paint =
    (let w = i32 (r_maxTouched rdr - r_minTouched rdr + 1)
     in loopM (\<lambda>i paint.
          loopM (\<lambda>j paint. (let k = i32 (i * r_alphaWidth rdr) + j in upd_px paint k (f k))) 0 (nat w) paint)
        0 (nat height) paint)"

definition mul_channel :: "jint \<Rightarrow> jint \<Rightarrow> jint \<Rightarrow> jint" where
  "mul_channel c v palpha_1 = sar (i32 (sar (i32 ((c + 1) * v)) 8 * palpha_1)) 8"

definition multiply_flat_px :: "'f renderer \<Rightarrow> jint \<Rightarrow> jint" where
  "multiply_flat_px rdr tval =
    (let palpha_1 = r_calpha rdr + 1
     in argb (sar (i32 (palpha_1 * pxA tval)) 8)
          (mul_channel (r_cred rdr) (pxR tval) palpha_1)
          (mul_channel (r_cgreen rdr) (pxG tval) palpha_1)
          (mul_channel (r_cblue rdr) (pxB tval) palpha_1))"

definition multiply_white_px :: "'f renderer \<Rightarrow> jint \<Rightarrow> jint" where
  "multiply_white_px rdr tval =
    (let palpha_1 = r_calpha rdr + 1
     in argb (sar (i32 (palpha_1 * pxA tval)) 8) (sar (i32 (palpha_1 * pxR tval)) 8)
          (sar (i32 (palpha_1 * pxG tval)) 8) (sar (i32 (palpha_1 * pxB tval)) 8))"

definition multiply_paint_px :: "jint \<Rightarrow> jint \<Rightarrow> jint" where
  "multiply_paint_px pval tval =
    (let palpha_1 = pxA pval + 1
     in argb (sar (i32 (palpha_1 * pxA tval)) 8)
          (mul_channel (pxR pval) (pxR tval) palpha_1)
          (mul_channel (pxG pval) (pxG tval) palpha_1)
          (mul_channel (pxB pval) (pxB tval) palpha_1))"

text \<open>\<open>mem n\<close>: whether there is memory for \<open>n\<close> more cells.\<close>

definition my_malloc :: "(int \<Rightarrow> bool) \<Rightarrow> int \<Rightarrow> jint buf" where
  "my_malloc mem n = (if 0 \<le> n \<and> mem n then Some (replicate (nat n) 0) else None)"

definition genTexturePaintMultiply ::
  "'f float_ops \<Rightarrow> (int \<Rightarrow> bool) \<Rightarrow> 'f renderer \<Rightarrow> jint \<Rightarrow> 'f renderer option" where
  "genTexturePaintMultiply fo mem rdr height =
    (let w = i32 (r_maxTouched rdr - r_minTouched rdr + 1)
     in if r_prevPaintMode rdr = PAINT_FLAT_COLOR then do {
          paint \<leftarrow> genTexturePaintTarget rdr (r_paint rdr) height;
          paint \<leftarrow>
            (if r_cred rdr = 0xFF \<and> r_cgreen rdr = 0xFF \<and> r_cblue rdr = 0xFF then
               (if r_calpha rdr < 0xFF
                then multiply_rows rdr (\<lambda>_ tval. Some (multiply_white_px rdr tval)) height paint
                else Some paint)
             else multiply_rows rdr (\<lambda>_ tval. Some (multiply_flat_px rdr tval)) height paint);
          Some (rdr\<lparr>r_paint := paint\<rparr>) }
        else if r_prevPaintMode rdr = PAINT_LINEAR_GRADIENT \<or> r_prevPaintMode rdr = PAINT_RADIAL_GRADIENT then
          (case my_malloc mem (i32 (w * height)) of
             None \<Rightarrow> Some rdr
           | Some imagePaint \<Rightarrow> do {
               rdr \<leftarrow> (if r_prevPaintMode rdr = PAINT_LINEAR_GRADIENT then genLinearGradientPaint fo rdr height
                       else genRadialGradientPaint fo rdr height);
               imagePaint \<leftarrow> genTexturePaintTarget rdr (Some imagePaint) height;
               paint \<leftarrow> multiply_rows rdr (\<lambda>k pval. do {
                   tval \<leftarrow> rd imagePaint k;
                   Some (multiply_paint_px pval tval) }) height (r_paint rdr);
               Some (rdr\<lparr>r_paint := paint\<rparr>) })
        else Some rdr)"

section \<open>Fractions and interpolation\<close>

definition cycle_ok :: "jint \<Rightarrow> bool" where
  "cycle_ok m \<longleftrightarrow> m = CYCLE_NONE \<or> m = CYCLE_REPEAT \<or> m = CYCLE_REFLECT"

lemma pad_range: "cycle_ok m \<Longrightarrow> 0 \<le> pad x m \<and> pad x m \<le> 0xffff"
  using pos_mod_bound [of 65536 x] pos_mod_bound [of 131072 "if x < 0 then i32 (- x) else x"]
  by (auto simp: pad_def Let_def pisces_consts cycle_ok_def and_ffff and_1ffff)

lemma lmod_eq:
  assumes "0 < y"
  shows "lmod x y = Some (x mod y)"
proof (cases "x < 0")
  case False
  then have "crem x y = x mod y" using assms by (auto simp: crem_def sgn_if)
  moreover have "\<not> x mod y < 0" using assms by (simp add: not_less)
  ultimately show ?thesis using assms by (simp add: lmod_def)
next
  case True
  then have c: "crem x y = - ((- x) mod y)" using assms by (simp add: crem_def sgn_if)
  have m: "x mod y = (if (- x) mod y = 0 then 0 else y - (- x) mod y)"
    using zmod_zminus1_eq_if [of "- x" y] by simp
  have "0 < (- x) mod y \<longleftrightarrow> (- x) mod y \<noteq> 0" using pos_mod_sign [OF assms, of "- x"] by linarith
  then show ?thesis unfolding lmod_def c m using assms by (auto simp: Let_def)
qed

lemma interp_eq:
  assumes "byte x0" "byte x1" "0 \<le> f" "f \<le> 0x10000"
  shows "interp x0 x1 f = (x0 * (0x10000 - f) + x1 * f + 0x8000) div 0x10000"
proof -
  have e: "shl x0 16 + (x1 - x0) * f + 0x8000 = x0 * (0x10000 - f) + x1 * f + 0x8000"
    by (simp add: shl_def algebra_simps)
  have "x0 * (0x10000 - f) \<le> 255 * (0x10000 - f)" "x1 * f \<le> 255 * f"
    using assms unfolding byte_def by (intro mult_right_mono; simp)+
  moreover have "0 \<le> x0 * (0x10000 - f)" "0 \<le> x1 * f" using assms by (auto simp: byte_def)
  moreover have "255 * (0x10000 - f) + 255 * f = 255 * 0x10000" by simp
  ultimately have "0 \<le> x0 * (0x10000 - f) + x1 * f \<and> x0 * (0x10000 - f) + x1 * f \<le> 255 * 0x10000"
    by (metis add_mono add_nonneg_nonneg)
  then have "i32 (x0 * (0x10000 - f) + x1 * f + 0x8000) = x0 * (0x10000 - f) + x1 * f + 0x8000"
    by (intro i32_id) auto
  then show ?thesis unfolding interp_def e by (simp add: sar_def)
qed

lemma interp_mono:
  assumes "byte x0" "byte x1" "byte y0" "byte y1" "x0 \<le> y0" "x1 \<le> y1" "0 \<le> f" "f \<le> 0x10000"
  shows "interp x0 x1 f \<le> interp y0 y1 f"
proof -
  have "x0 * (0x10000 - f) \<le> y0 * (0x10000 - f)" "x1 * f \<le> y1 * f"
    using assms by (auto intro!: mult_right_mono)
  then show ?thesis
    unfolding interp_eq [OF assms(1,2,7,8)] interp_eq [OF assms(3,4,7,8)] by (intro zdiv_mono1) auto
qed

lemma interp_const: "byte x \<Longrightarrow> 0 \<le> f \<Longrightarrow> f \<le> 0x10000 \<Longrightarrow> interp x x f = x"
  by (simp add: interp_eq flip: distrib_left)

text \<open>The interpolated byte lies between its neighbours.\<close>

lemma interp_between:
  assumes "byte x0" "byte x1" "0 \<le> f" "f \<le> 0x10000"
  shows "min x0 x1 \<le> interp x0 x1 f" "interp x0 x1 f \<le> max x0 x1"
proof -
  have b: "byte (min x0 x1)" "byte (max x0 x1)" using assms by (auto simp: byte_def)
  show "min x0 x1 \<le> interp x0 x1 f"
    using interp_mono [OF b(1,1) assms(1,2) _ _ assms(3,4)] interp_const [OF b(1) assms(3,4)] by simp
  show "interp x0 x1 f \<le> max x0 x1"
    using interp_mono [OF assms(1,2) b(2,2) _ _ assms(3,4)] interp_const [OF b(2) assms(3,4)] by simp
qed

lemma byte_interp: "byte x0 \<Longrightarrow> byte x1 \<Longrightarrow> 0 \<le> f \<Longrightarrow> f \<le> 0x10000 \<Longrightarrow> byte (interp x0 x1 f)"
  using interp_between [of x0 x1 f] by (auto simp: byte_def)

lemma premul_argbI:
  "byte a \<Longrightarrow> byte r \<Longrightarrow> byte g \<Longrightarrow> byte b \<Longrightarrow> r \<le> a \<Longrightarrow> g \<le> a \<Longrightarrow> b \<le> a \<Longrightarrow> premul (argb a r g b)"
  by (simp add: premul_argb byte_def)

lemma jint_range_argb: "jint_range (argb a r g b)"
  by (simp add: argb_def i32_range)

lemma premul_interpolate2points:
  assumes "premul p" "premul q" "0 \<le> f" "f \<le> 0x10000"
  shows "premul (interpolate2points p q f)"
  unfolding interpolate2points_def Let_def using assms premulD [OF assms(1)] premulD [OF assms(2)]
  by (intro premul_argbI byte_interp interp_mono) auto

lemma premul_interpolate4points:
  assumes "premul p00" "premul p01" "premul p10" "premul p11" "0 \<le> h" "h \<le> 0x10000" "0 \<le> v" "v \<le> 0x10000"
  shows "premul (interpolate4points p00 p01 p10 p11 h v)"
  unfolding interpolate4points_def Let_def
  using assms premulD [OF assms(1)] premulD [OF assms(2)] premulD [OF assms(3)] premulD [OF assms(4)]
  by (intro premul_argbI byte_interp interp_mono) auto

lemma premul_noAlpha:
  assumes "byte r" "byte g" "byte b"
  shows "premul (argb 255 r g b)"
  using assms by (intro premul_argbI) (auto simp: byte_def)

lemma premul_interpolate2pointsNoAlpha:
  "0 \<le> f \<Longrightarrow> f \<le> 0x10000 \<Longrightarrow> premul (interpolate2pointsNoAlpha p q f)"
  unfolding interpolate2pointsNoAlpha_def Let_def by (intro premul_noAlpha byte_interp) auto

lemma premul_interpolate4pointsNoAlpha:
  "0 \<le> h \<Longrightarrow> h \<le> 0x10000 \<Longrightarrow> 0 \<le> v \<Longrightarrow> v \<le> 0x10000 \<Longrightarrow> premul (interpolate4pointsNoAlpha p00 p01 p10 p11 h v)"
  unfolding interpolate4pointsNoAlpha_def Let_def by (intro premul_noAlpha byte_interp) auto

section \<open>Exact rows\<close>

text \<open>The state before pixel \<open>c\<close> of a row.\<close>

fun px_state :: "('s \<Rightarrow> (jint \<times> 's) option) \<Rightarrow> 's \<Rightarrow> nat \<Rightarrow> 's option" where
  "px_state f s 0 = Some s"
| "px_state f s (Suc c) = do { s \<leftarrow> px_state f s c; (v, s) \<leftarrow> f s; Some s }"

definition px_value :: "('s \<Rightarrow> (jint \<times> 's) option) \<Rightarrow> 's \<Rightarrow> nat \<Rightarrow> jint option" where
  "px_value f s c = do { s \<leftarrow> px_state f s c; (v, s) \<leftarrow> f s; Some v }"

lemma px_fill_exact:
  assumes v: "\<And>c. c < n \<Longrightarrow> px_value f s c = Some (g (int c))"
    and off: "0 \<le> off" "off + int n \<le> int (length xs)"
  shows "px_fill f off n s (Some xs) = Some (Some (upd_range off (int n) (\<lambda>c _. g c) xs))"
proof -
  let ?I = "\<lambda>k t. fst t = Some (upd_range off (k - off) (\<lambda>c _. g c) xs) \<and> px_state f s (nat (k - off)) = Some (snd t)"
  have "\<exists>t. loopM (\<lambda>i (paint, s). do { (v, s) \<leftarrow> f s; paint \<leftarrow> wr paint i v; Some (paint, s) }) off n (Some xs, s)
      = Some t \<and> ?I (off + int n) t"
  proof (rule loopM_inv)
    fix k t assume k: "off \<le> k" "k < off + int n" and I: "?I k t"
    obtain p u where t: "t = (p, u)" by (cases t)
    from v [of "nat (k - off)"] I k obtain u' where fu: "f u = Some (g (k - off), u')"
      by (auto simp: px_value_def t bind_eq_Some_conv nat_less_iff)
    have sn: "nat (k + 1 - off) = Suc (nat (k - off))" using k by simp
    have e: "k - off + 1 = k + 1 - off" by simp
    have "(upd_range off (k - off) (\<lambda>c _. g c) xs)[nat k := g (k - off)] = upd_range off (k + 1 - off) (\<lambda>c _. g c) xs"
      using upd_range_snoc [of off "k - off" xs "\<lambda>c _. g c"] k off unfolding e by simp
    then show "\<exists>t'. (case t of (paint, s) \<Rightarrow> do { (v, s) \<leftarrow> f s; paint \<leftarrow> wr paint k v; Some (paint, s) }) = Some t'
        \<and> ?I (k + 1) t'"
      using I k off by (auto simp: t fu sn)
  qed simp
  then show ?thesis by (auto simp: px_fill_def)
qed

text \<open>A step that keeps an invariant of the state is defined at every pixel.\<close>

lemma px_value_inv:
  assumes "Inv s" and step: "\<And>s. Inv s \<Longrightarrow> \<exists>v s'. f s = Some (v, s') \<and> Inv s' \<and> Q v"
  shows "\<exists>v. px_value f s c = Some v \<and> Q v"
proof -
  have "\<exists>s'. px_state f s c = Some s' \<and> Inv s'"
  proof (induction c)
    case (Suc c)
    then obtain s' where "px_state f s c = Some s'" "Inv s'" by blast
    with step [of s'] show ?case by auto
  qed (use assms(1) in simp)
  with step show ?thesis by (fastforce simp: px_value_def)
qed

text \<open>
  The contract of a paint row: it returns, and each of the \<open>W\<close> cells it writes satisfies \<open>Q\<close>.
\<close>

definition row_fills :: "(jint \<Rightarrow> jint \<Rightarrow> jint buf \<Rightarrow> jint buf option) \<Rightarrow> int \<Rightarrow> (jint \<Rightarrow> bool) \<Rightarrow> bool" where
  "row_fills row W Q \<longleftrightarrow> (\<exists>g. (\<forall>y c. Q (g y c)) \<and> (\<forall>y off xs. 0 \<le> off \<longrightarrow> off + W \<le> int (length xs) \<longrightarrow>
     row off y (Some xs) = Some (Some (upd_range off W (\<lambda>c _. g y c) xs))))"

interpretation paint_row: row_painter
  "\<lambda>(row, W, g). row" "\<lambda>(row, W, g). W" "\<lambda>(row, W, g) y c p. g y c"
  "\<lambda>(row, W, g) y. \<forall>off xs. 0 \<le> off \<longrightarrow> off + W \<le> int (length xs) \<longrightarrow>
     row off y (Some xs) = Some (Some (upd_range off W (\<lambda>c _. g y c) xs))"
  by unfold_locales auto

definition paint_space :: "'f renderer \<Rightarrow> jint \<Rightarrow> jint list \<Rightarrow> bool" where
  "paint_space rdr h xs \<longleftrightarrow> 0 < r_alphaWidth rdr \<and> 0 \<le> h \<and> h * r_alphaWidth rdr \<le> int (length xs) \<and>
     int (length xs) < 2147483648 \<and> jint_range (r_currY rdr)"

text \<open>The first \<open>n\<close> cells now satisfy \<open>Q\<close>, the others are as before.\<close>

definition filled :: "int \<Rightarrow> (jint \<Rightarrow> bool) \<Rightarrow> jint list \<Rightarrow> jint list \<Rightarrow> bool" where
  "filled n Q xs ys \<longleftrightarrow> length ys = length xs \<and>
     (\<forall>i < length xs. if int i < n then Q (ys ! i) else ys ! i = xs ! i)"

lemma filled_mono: "filled n Q xs ys \<Longrightarrow> (\<And>v. Q v \<Longrightarrow> R v) \<Longrightarrow> filled n R xs ys"
  by (auto simp: filled_def)

lemma paint_rows_fill:
  assumes "paint_space rdr h xs" "row_fills row (r_alphaWidth rdr) Q"
  shows "\<exists>ys. paint_rows rdr row h (Some xs) = Some (Some ys) \<and> filled (h * r_alphaWidth rdr) Q xs ys"
proof -
  let ?W = "r_alphaWidth rdr"
  obtain g where Q: "\<And>y c. Q (g y c)" and row: "\<And>y off xs. 0 \<le> off \<Longrightarrow> off + ?W \<le> int (length xs) \<Longrightarrow>
     row off y (Some xs) = Some (Some (upd_range off ?W (\<lambda>c _. g y c) xs))"
    using assms(2) unfolding row_fills_def by blast
  define ys where "ys = upd_rect 0 ?W ?W h (\<lambda>j c p. g (i32 (r_currY rdr + j)) c) xs"
  have h: "0 \<le> h" "0 < ?W" "h * ?W \<le> int (length xs)" using assms(1) by (auto simp: paint_space_def)
  have "paint_rows rdr row h (Some xs) = Some (Some ys)"
    unfolding paint_rows_def ys_def
    using paint_row.paint_exact [of "(row, ?W, g)" "nat h" xs "r_currY rdr"] assms(1) row
    by (simp add: paint_space_def)
  moreover have "in_rect 0 ?W ?W h (int i) \<longleftrightarrow> int i < h * ?W" for i
    using zdiv_less_iff [OF h(2), of "int i" h] h by (simp add: in_rect_def)
  ultimately show ?thesis using h Q by (auto simp: ys_def filled_def)
qed

lemma px_fill_row_fills:
  assumes step: "\<And>y s. \<exists>v s'. f y s = Some (v, s') \<and> Q v" and W: "0 \<le> W"
  shows "row_fills (\<lambda>off y. px_fill (f y) off (nat W) (st y)) W Q"
proof -
  define g where "g = (\<lambda>y c. the (px_value (f y) (st y) (nat c)))"
  have v: "px_value (f y) (st y) c = Some (g y (int c)) \<and> Q (g y (int c))" for y c
    using px_value_inv [of "\<lambda>_. True" "st y" "f y" Q c] step by (auto simp: g_def)
  have "g y c = g y (int (nat c))" for y c by (simp add: g_def)
  then have "Q (g y c)" for y c using v [of y "nat c"] by metis
  moreover have "px_fill (f y) off (nat W) (st y) (Some xs) = Some (Some (upd_range off W (\<lambda>c _. g y c) xs))"
    if "0 \<le> off" "off + W \<le> int (length xs)" for off y xs
    using px_fill_exact [of "nat W" "f y" "st y" "g y" off xs] v that W by simp
  ultimately show ?thesis unfolding row_fills_def by blast
qed

lemma row_fills_cong: "row_fills row W Q \<Longrightarrow> (\<And>off y. row' off y = row off y) \<Longrightarrow> row_fills row' W Q"
  unfolding row_fills_def by simp

section \<open>Gradients\<close>

definition gradient_ok :: "'f gradient \<Rightarrow> bool" where
  "gradient_ok g \<longleftrightarrow> length (gradient_colors g) = 256 \<and> cycle_ok (gradient_cycleMethod g)"

lemma gradient_px_total:
  assumes "gradient_ok g"
  obtains v where "gradient_px g i = Some v" "v \<in> set (gradient_colors g)"
proof -
  have "0 \<le> sar (pad i (gradient_cycleMethod g)) 8" "sar (pad i (gradient_cycleMethod g)) 8 < 256"
    using pad_range [of "gradient_cycleMethod g" i] assms by (auto simp: gradient_ok_def sar_def)
  then show thesis using assms by (intro that) (auto simp: gradient_px_def gradient_ok_def)
qed

lemma gradient_step:
  assumes "gradient_ok g"
  shows "\<exists>v s'. (do { v \<leftarrow> gradient_px g i; Some (v, t) }) = Some (v, s') \<and> v \<in> set (gradient_colors g)"
  by (rule gradient_px_total [OF assms, of i]) auto

lemma linear_row_fills:
  assumes "gradient_ok (r_gradient rdr)" "0 \<le> r_alphaWidth rdr"
  shows "row_fills (linear_row fo rdr) (r_alphaWidth rdr) (\<lambda>v. v \<in> set (gradient_colors (r_gradient rdr)))"
  unfolding linear_row_def [abs_def] Let_def
  by (intro px_fill_row_fills gradient_step assms)

lemma radial_row_fills:
  assumes "gradient_ok (r_gradient rdr)" "0 \<le> r_alphaWidth rdr"
  shows "row_fills (radial_row fo rdr) (r_alphaWidth rdr) (\<lambda>v. v \<in> set (gradient_colors (r_gradient rdr)))"
proof -
  let ?g = "r_gradient rdr"
  define f where "f y = (\<lambda>(U, V, dV). (let V = (if f_less fo V (f_of_int fo 0) then f_of_int fo 0 else V)
      in do { v \<leftarrow> gradient_px ?g (f_add_sqrt fo U V);
        Some (v, f_add fo U (fst (snd (radial_start fo ?g (r_currX rdr) y))), f_add fo V dV,
          f_add fo dV (snd (snd (snd (snd (radial_start fo ?g (r_currX rdr) y)))))) }))" for y
  have "\<exists>v s'. f y s = Some (v, s') \<and> v \<in> set (gradient_colors ?g)" for y s
    unfolding f_def Let_def by (cases s) (simp only: prod.case gradient_step [OF assms(1)])
  then have "row_fills (\<lambda>off y. px_fill (f y) off (nat (r_alphaWidth rdr))
      (case radial_start fo ?g (r_currX rdr) y of (U, dU, V, dV, ddV) \<Rightarrow> (U, V, dV)))
      (r_alphaWidth rdr) (\<lambda>v. v \<in> set (gradient_colors ?g))"
    using assms(2) by (rule px_fill_row_fills)
  then show ?thesis
    by (rule row_fills_cong) (simp add: radial_row_def f_def Let_def split: prod.split)
qed

lemma gradient_paint_fills:
  assumes "gradient_ok (r_gradient rdr)" "r_paint rdr = Some xs" "paint_space rdr h xs"
  shows "\<exists>ys. genLinearGradientPaint fo rdr h = Some (rdr\<lparr>r_paint := Some ys\<rparr>) \<and>
      filled (h * r_alphaWidth rdr) (\<lambda>v. v \<in> set (gradient_colors (r_gradient rdr))) xs ys"
    and "\<exists>ys. genRadialGradientPaint fo rdr h = Some (rdr\<lparr>r_paint := Some ys\<rparr>) \<and>
      filled (h * r_alphaWidth rdr) (\<lambda>v. v \<in> set (gradient_colors (r_gradient rdr))) xs ys"
proof -
  have W: "0 \<le> r_alphaWidth rdr" using assms(3) by (simp add: paint_space_def)
  show "\<exists>ys. genLinearGradientPaint fo rdr h = Some (rdr\<lparr>r_paint := Some ys\<rparr>) \<and>
      filled (h * r_alphaWidth rdr) (\<lambda>v. v \<in> set (gradient_colors (r_gradient rdr))) xs ys"
    using paint_rows_fill [OF assms(3) linear_row_fills [OF assms(1) W, of fo]]
    by (auto simp: genLinearGradientPaint_def assms(2))
  show "\<exists>ys. genRadialGradientPaint fo rdr h = Some (rdr\<lparr>r_paint := Some ys\<rparr>) \<and>
      filled (h * r_alphaWidth rdr) (\<lambda>v. v \<in> set (gradient_colors (r_gradient rdr))) xs ys"
    using paint_rows_fill [OF assms(3) radial_row_fills [OF assms(1) W, of fo]]
    by (auto simp: genRadialGradientPaint_def assms(2))
qed

section \<open>Textures\<close>

text \<open>
  The texture is a block of \<open>H\<close> rows of \<open>W\<close> pixels and its sub-rectangle lies in it. For interpolation
  the texture must be two pixels wide and high.
\<close>

definition tex_ok :: "texture \<Rightarrow> jint list \<Rightarrow> bool" where
  "tex_ok t xs \<longleftrightarrow> tx_intData t = Some xs \<and> 0 \<le> tx_base t \<and> tx_imageWidth t \<le> tx_stride t \<and>
     tx_base t + (tx_imageHeight t - 1) * tx_stride t + tx_imageWidth t \<le> int (length xs) \<and>
     int (length xs) < 2147483648 \<and> tx_imageWidth t < 32768 \<and> tx_imageHeight t < 32768 \<and>
     0 \<le> txMin t \<and> txMin t \<le> txMax t \<and> txMax t < tx_imageWidth t \<and>
     0 \<le> tyMin t \<and> tyMin t \<le> tyMax t \<and> tyMax t < tx_imageHeight t \<and>
     (tx_interpolate t \<longrightarrow> 2 \<le> tx_imageWidth t \<and> 2 \<le> tx_imageHeight t)"

lemma txtData_in:
  assumes t: "tex_ok t xs" and rc: "0 \<le> r" "r < tx_imageHeight t" "0 \<le> c" "c < tx_imageWidth t"
  shows "\<exists>v. txtData t (r * tx_stride t + c) = Some v \<and> v \<in> set xs"
    and "0 \<le> r * tx_stride t + c" "r * tx_stride t + c < 2147483648"
proof -
  have s: "0 \<le> tx_stride t" "tx_base t + (tx_imageHeight t - 1) * tx_stride t + tx_imageWidth t \<le> int (length xs)"
    "0 \<le> tx_base t" "tx_intData t = Some xs" "int (length xs) < 2147483648"
    using t rc by (auto simp: tex_ok_def)
  have "r * tx_stride t \<le> (tx_imageHeight t - 1) * tx_stride t" using rc s by (intro mult_right_mono) auto
  then have u: "tx_base t + (r * tx_stride t + c) < int (length xs)" using s rc by linarith
  show l: "0 \<le> r * tx_stride t + c" using rc s by simp
  then show "r * tx_stride t + c < 2147483648" using u s by linarith
  have "rd (tx_intData t) (tx_base t + (r * tx_stride t + c)) = Some (xs ! nat (tx_base t + (r * tx_stride t + c)))"
    using u l s by simp
  moreover have "xs ! nat (tx_base t + (r * tx_stride t + c)) \<in> set xs" using u l s by (intro nth_mem) auto
  ultimately show "\<exists>v. txtData t (r * tx_stride t + c) = Some v \<and> v \<in> set xs"
    unfolding txtData_def by blast
qed

lemma checkBoundsNoRepeat_range:
  assumes "0 \<le> mn" "mn \<le> mx"
  shows "\<exists>a' la'. checkBoundsNoRepeat a la (mn - 1) mx = Some (a', la') \<and> - 1 \<le> a' \<and> a' \<le> mx"
  using assms by (auto simp: checkBoundsNoRepeat_def)

lemma checkBoundsRepeat_range:
  assumes "0 \<le> mn" "mn \<le> mx" "mx < 32767"
  shows "\<exists>a' la'. checkBoundsRepeat a la (mn - 1) mx = Some (a', la') \<and> - 1 \<le> a' \<and> a' \<le> mx"
proof -
  define d where "d = (mx + 1) * 65536"
  have d: "0 < d" "d < 2147483648" using assms by (auto simp: d_def)
  have "i32 (shl (mx + 1) 16) = d" using d by (simp add: shl_def d_def i32_id)
  moreover have "0 \<le> la mod d" "la mod d < d" using d by simp_all
  moreover have "0 \<le> la mod d div 65536" "la mod d div 65536 \<le> mx"
    using d calculation(2,3) zdiv_less_iff [of 65536 "la mod d" "mx + 1"]
    by (simp_all add: pos_imp_zdiv_nonneg_iff d_def)
  ultimately show ?thesis
    using assms d by (auto simp: checkBoundsRepeat_def lmod_eq sar_def i32_id)
qed

definition frac_ok :: "jint \<Rightarrow> bool" where
  "frac_ok f \<longleftrightarrow> 0 \<le> f \<and> f \<le> 0xffff"

lemma frac_ok_and [simp]: "frac_ok (x AND 0xffff)"
  using pos_mod_bound [of 65536 x] by (simp add: frac_ok_def and_ffff)

lemma copy_run:
  assumes "\<And>i. 0 \<le> i \<Longrightarrow> i < n \<Longrightarrow> src i = Some (g i)" "0 \<le> a" "a + n \<le> int (length ps)" "0 \<le> n"
  shows "loopM (\<lambda>i p. do { v \<leftarrow> src (i - a); wr p i v }) a (nat n) (Some ps)
    = Some (Some (upd_range a n (\<lambda>c _. g c) ps))"
  using loopM_upd_range [of a "nat n" ps "\<lambda>i p. do { v \<leftarrow> src (i - a); wr p i v }" "\<lambda>c _. g c"] assms by simp

lemma mode_check_range:
  assumes "tex_ok t xs"
  shows "\<exists>a' la'. mode_check m a la (i32 (txMin t - 1)) (txMax t) = Some (a', la') \<and> - 1 \<le> a' \<and> a' \<le> txMax t"
    and "\<exists>a' la'. mode_check m a la (i32 (tyMin t - 1)) (tyMax t) = Some (a', la') \<and> - 1 \<le> a' \<and> a' \<le> tyMax t"
proof -
  have i: "i32 (txMin t - 1) = txMin t - 1" "i32 (tyMin t - 1) = tyMin t - 1"
    using assms by (auto simp: tex_ok_def intro!: i32_id)
  show "\<exists>a' la'. mode_check m a la (i32 (txMin t - 1)) (txMax t) = Some (a', la') \<and> - 1 \<le> a' \<and> a' \<le> txMax t"
    unfolding i mode_check_def using checkBoundsNoRepeat_range [of "txMin t" "txMax t" a la]
      checkBoundsRepeat_range [of "txMin t" "txMax t" a la] assms by (auto simp: tex_ok_def)
  show "\<exists>a' la'. mode_check m a la (i32 (tyMin t - 1)) (tyMax t) = Some (a', la') \<and> - 1 \<le> a' \<and> a' \<le> tyMax t"
    unfolding i mode_check_def using checkBoundsNoRepeat_range [of "tyMin t" "tyMax t" a la]
      checkBoundsRepeat_range [of "tyMin t" "tyMax t" a la] assms by (auto simp: tex_ok_def)
qed

text \<open>The three runs of an unscaled row are the texture row with its column clamped to the sub-rectangle.\<close>

lemma translate_copy_exact:
  assumes t: "tex_ok t xs" and ty: "- 1 \<le> ty" "ty \<le> tyMax t" and w: "0 \<le> w"
    and a: "0 \<le> a" "a + w \<le> int (length ps)" and tx: "jint_range tx"
  shows "translate_copy t ty tx a w (Some ps) = Some (Some (upd_range a w
    (\<lambda>c _. the (txtData t (max 0 ty * tx_stride t + max (txMin t) (min (txMax t) (tx + c))))) ps))"
proof -
  let ?row = "max 0 ty * tx_stride t"
  have b: "0 \<le> max 0 ty" "max 0 ty < tx_imageHeight t" "0 \<le> txMin t" "txMin t \<le> txMax t" "txMax t < tx_imageWidth t"
    "tx_imageWidth t < 32768"
    using t ty by (auto simp: tex_ok_def)
  have at: "txtData t (?row + k) = Some (the (txtData t (?row + k)))" if "txMin t \<le> k" "k \<le> txMax t" for k
    using txtData_in(1) [OF t b(1,2), of k] that b by auto
  have ri: "i32 ?row = ?row" using txtData_in(2,3) [OF t b(1,2), of 0] b by (simp add: i32_id)
  define n1 where "n1 = max 0 (min (txMin t - tx) w)"
  define len where "len = max 0 (min (a + w - (a + n1)) (i32 (txMax t - (tx + n1) + 1)))"
  have n1: "0 \<le> n1" "n1 \<le> w" using w by (auto simp: n1_def)
  have len: "0 \<le> len" "n1 + len \<le> w" using n1 by (auto simp: len_def)
  have li: "i32 (txMax t - (tx + n1) + 1) = txMax t - (tx + n1) + 1" if "n1 < w"
    using that tx b by (intro i32_id) (auto simp: n1_def jint_range_def)
  have mid: "txMin t \<le> tx + c \<and> tx + c \<le> txMax t" if "n1 \<le> c" "c < n1 + len" for c
  proof -
    have "n1 < w" using that len by linarith
    then have "len \<le> max 0 (txMax t - (tx + n1) + 1)" "txMin t - tx \<le> n1"
      using li by (auto simp: len_def n1_def)
    then show ?thesis using that by linarith
  qed
  have last: "txMax t < tx + c" if "n1 + len \<le> c" "c < w" for c
  proof -
    have "n1 < w" using that len by linarith
    then have "len = max 0 (min (w - n1) (txMax t - (tx + n1) + 1))" using li by (simp add: len_def)
    then show ?thesis using that by linarith
  qed
  have first: "tx + c < txMin t" if "0 \<le> c" "c < n1" for c using that by (auto simp: n1_def)
  define G where "G c = the (txtData t (?row + max (txMin t) (min (txMax t) (tx + c))))" for c
  have l1: "loopM (\<lambda>a p. do { v \<leftarrow> txtData t (?row + txMin t); wr p a v }) a (nat n1) (Some ps)
      = Some (Some (upd_range a n1 (\<lambda>c _. G c) ps))"
    by (rule copy_run [where src = "\<lambda>_. txtData t (?row + txMin t)"])
       (use first b at [of "txMin t"] a n1 in \<open>force simp: G_def\<close>)+
  have l2: "loopM (\<lambda>i p. do { v \<leftarrow> txtData t (?row + (tx + n1) + (i - (a + n1))); wr p i v }) (a + n1) (nat len) (Some qs)
      = Some (Some (upd_range (a + n1) len (\<lambda>c _. G (n1 + c)) qs))" if "length qs = length ps" for qs
  proof (rule copy_run [where src = "\<lambda>i. txtData t (?row + (tx + n1) + i)"])
    fix i assume i: "0 \<le> i" "i < len"
    then have m: "txMin t \<le> tx + (n1 + i)" "tx + (n1 + i) \<le> txMax t" using mid [of "n1 + i"] by auto
    then show "txtData t (?row + (tx + n1) + i) = Some (G (n1 + i))"
      using at [OF m] by (simp add: G_def add.assoc)
  qed (use that a n1 len in auto)
  have l3: "loopM (\<lambda>a p. do { v \<leftarrow> txtData t (?row + txMax t); wr p a v }) (a + n1 + len) (nat (w - n1 - len)) (Some qs)
      = Some (Some (upd_range (a + n1 + len) (w - n1 - len) (\<lambda>c _. G (n1 + len + c)) qs))" if "length qs = length ps" for qs
    by (rule copy_run [where src = "\<lambda>_. txtData t (?row + txMax t)"])
       (use last b at [of "txMax t"] a n1 len that in \<open>force simp: G_def\<close>)+
  have "a + w - (a + n1 + len) = w - n1 - len" by simp
  then have "translate_copy t ty tx a w (Some ps) = Some (Some (upd_range (a + n1 + len) (w - n1 - len) (\<lambda>c _. G (n1 + len + c))
      (upd_range (a + n1) len (\<lambda>c _. G (n1 + c)) (upd_range a n1 (\<lambda>c _. G c) ps))))"
    unfolding translate_copy_def Let_def ri n1_def [symmetric] len_def [symmetric]
    by (simp only: l1 l2 l3 length_upd_range bind.bind_lunit)
  also have "upd_range (a + n1 + len) (w - n1 - len) (\<lambda>c _. G (n1 + len + c))
      (upd_range (a + n1) len (\<lambda>c _. G (n1 + c)) (upd_range a n1 (\<lambda>c _. G c) ps)) = upd_range a w (\<lambda>c _. G c) ps"
    by (rule nth_equalityI) (use n1 len in \<open>auto simp: algebra_simps\<close>)
  finally show ?thesis unfolding G_def .
qed

text \<open>
  A predicate on pixels that transparent black satisfies and that the samplers keep: what is
  known of the pixels of a texture is then known of the generated paint.
\<close>

locale sampled =
  fixes Q :: "jint \<Rightarrow> bool"
  assumes zero: "Q 0"
    and alpha: "Q p \<Longrightarrow> Q q0 \<Longrightarrow> Q q1 \<Longrightarrow> Q q2 \<Longrightarrow> frac_ok h \<Longrightarrow> frac_ok v \<Longrightarrow>
      Q (sample_alpha p (q0, q1, q2) h v)"
    and no_alpha: "Q p \<Longrightarrow> Q q0 \<Longrightarrow> Q q1 \<Longrightarrow> Q q2 \<Longrightarrow> frac_ok h \<Longrightarrow> frac_ok v \<Longrightarrow>
      Q (sample_no_alpha p (q0, q1, q2) h v)"
begin

lemma points:
  assumes t: "tex_ok t xs" "\<forall>p\<in>set xs. Q p" "2 \<le> tx_imageWidth t" "2 \<le> tx_imageHeight t"
    and tx: "- 1 \<le> tx" "tx < tx_imageWidth t" and ty: "- 1 \<le> ty" "ty < tx_imageHeight t"
    and s: "s = max 0 ty * tx_stride t + max 0 tx" and p: "Q p"
  shows "\<exists>q0 q1 q2. getPointsToInterpolate t s (tx_stride t) p tx (tx_imageWidth t - 1) ty (tx_imageHeight t - 1)
      = Some (q0, q1, q2) \<and> Q q0 \<and> Q q1 \<and> Q q2"
    and "\<exists>q0 q1 q2. getPointsToInterpolateRepeat t s (tx_stride t) p tx (tx_imageWidth t - 1) ty (tx_imageHeight t - 1)
      = Some (q0, q1, q2) \<and> Q q0 \<and> Q q1 \<and> Q q2"
proof -
  let ?st = "tx_stride t" and ?w = "tx_imageWidth t" and ?h = "tx_imageHeight t"
  have at: "\<exists>v. txtData t (r * ?st + c) = Some v \<and> Q v" if "0 \<le> r" "r < ?h" "0 \<le> c" "c < ?w" for r c
    using txtData_in(1) [OF t(1) that] t(2) by blast
  have row: "0 \<le> max 0 ty" "max 0 ty < ?h" and col: "0 \<le> max 0 tx" "max 0 tx < ?w" using tx ty t by auto
  have right: "\<exists>v. txtData t (s + 1) = Some v \<and> Q v" if "tx < ?w - 1"
    using at [OF row, of "max 0 tx + 1"] that col t(3) by (simp add: s add.assoc)
  have left: "\<exists>v. txtData t (s - max tx 0) = Some v \<and> Q v"
    using at [OF row, of 0] t(3) by (simp add: s max.commute)
  have down: "i32 (s + ?st) = (max 0 ty + 1) * ?st + max 0 tx" if "ty < ?h - 1"
  proof -
    have "s + ?st = (max 0 ty + 1) * ?st + max 0 tx" by (simp add: s algebra_simps)
    moreover have "max 0 ty + 1 < ?h" using that t(4) by auto
    ultimately show ?thesis
      using txtData_in(2,3) [OF t(1), of "max 0 ty + 1" "max 0 tx"] row col by (simp add: i32_id)
  qed
  have row2: "\<exists>r. 0 \<le> r \<and> r < ?h \<and> (if ty \<ge> ?h - 1 then s else i32 (s + ?st)) = r * ?st + max 0 tx"
  proof (cases "ty \<ge> ?h - 1")
    case True
    then show ?thesis using row by (intro exI [of _ "max 0 ty"]) (simp add: s)
  next
    case False
    then show ?thesis using row t(4) down by (intro exI [of _ "max 0 ty + 1"]) auto
  qed
  then obtain r where r: "0 \<le> r" "r < ?h" "(if ty \<ge> ?h - 1 then s else i32 (s + ?st)) = r * ?st + max 0 tx" by blast
  have rowr: "\<exists>r. 0 \<le> r \<and> r < ?h \<and> (if ty \<ge> ?h - 1 then max tx 0 else i32 (s + ?st)) = r * ?st + max 0 tx"
  proof (cases "ty \<ge> ?h - 1")
    case True
    then show ?thesis using t(4) by (intro exI [of _ 0]) (simp add: max.commute)
  next
    case False
    then show ?thesis using row t(4) down by (intro exI [of _ "max 0 ty + 1"]) auto
  qed
  then obtain r' where r': "0 \<le> r'" "r' < ?h"
    "(if ty \<ge> ?h - 1 then max tx 0 else i32 (s + ?st)) = r' * ?st + max 0 tx" by blast
  have rt: "\<exists>v. txtData t (k * ?st + max 0 tx + 1) = Some v \<and> Q v" if "0 \<le> k" "k < ?h" "tx < ?w - 1" for k
    using at [OF that(1,2), of "max 0 tx + 1"] that(3) col t(3) by (simp add: add.assoc)
  have lf: "\<exists>v. txtData t (k * ?st + max 0 tx - max tx 0) = Some v \<and> Q v" if "0 \<le> k" "k < ?h" for k
    using at [OF that, of 0] t(3) by (simp add: max.commute)
  show "\<exists>q0 q1 q2. getPointsToInterpolate t s ?st p tx (?w - 1) ty (?h - 1) = Some (q0, q1, q2) \<and> Q q0 \<and> Q q1 \<and> Q q2"
    unfolding getPointsToInterpolate_def Let_def r(3)
    using right at [OF r(1,2) col] rt [OF r(1,2)] p by (cases "tx < ?w - 1") auto
  show "\<exists>q0 q1 q2. getPointsToInterpolateRepeat t s ?st p tx (?w - 1) ty (?h - 1) = Some (q0, q1, q2) \<and> Q q0 \<and> Q q1 \<and> Q q2"
    unfolding getPointsToInterpolateRepeat_def Let_def r'(3)
    using right left at [OF r'(1,2) col] rt [OF r'(1,2)] lf [OF r'(1,2)] by (cases "tx < ?w - 1") auto
qed

lemma mode_sample_total:
  assumes t: "tex_ok t xs" "\<forall>p\<in>set xs. Q p" and m: "m = repeatInterpolateMode t"
    and tx: "- 1 \<le> tx" "tx \<le> txMax t" and ty: "- 1 \<le> ty" "ty \<le> tyMax t" and f: "frac_ok h" "frac_ok v"
  shows "\<exists>p. mode_sample m t tx ty h v = Some p \<and> Q p"
proof -
  define s where "s = max 0 ty * tx_stride t + max 0 tx"
  have b: "tx < tx_imageWidth t" "ty < tx_imageHeight t" "0 < tx_imageWidth t" "0 < tx_imageHeight t"
    "tx_imageWidth t < 32768" "tx_imageHeight t < 32768"
    using t(1) tx ty by (auto simp: tex_ok_def)
  note i = txtData_in [OF t(1), of "max 0 ty" "max 0 tx"]
  have si: "i32 s = s" using i(2,3) b by (simp add: s_def i32_id)
  have wi: "i32 (tx_imageWidth t - 1) = tx_imageWidth t - 1" "i32 (tx_imageHeight t - 1) = tx_imageHeight t - 1"
    using b by (simp_all add: i32_id)
  obtain p where p: "txtData t s = Some p" "Q p" using i(1) b t(2) by (auto simp: s_def)
  have two: "2 \<le> tx_imageWidth t" "2 \<le> tx_imageHeight t" if "tx_interpolate t" using t(1) that by (auto simp: tex_ok_def)
  note pts = points [OF t two tx(1) b(1) ty(1) b(2) s_def p(2)]
  have A: "\<exists>q. (do { pts \<leftarrow> getPointsToInterpolate t s (tx_stride t) p tx (tx_imageWidth t - 1) ty (tx_imageHeight t - 1);
        Some (sample_alpha p pts h v) }) = Some q \<and> Q q" if "tx_interpolate t"
    using pts(1) [OF that that] alpha [OF p(2) _ _ _ f] by fastforce
  have B: "\<exists>q. (do { pts \<leftarrow> getPointsToInterpolateRepeat t s (tx_stride t) p tx (tx_imageWidth t - 1) ty (tx_imageHeight t - 1);
        Some (sample_alpha p pts h v) }) = Some q \<and> Q q" if "tx_interpolate t"
    using pts(2) [OF that that] alpha [OF p(2) _ _ _ f] by fastforce
  have C: "\<exists>q. (do { pts \<leftarrow> getPointsToInterpolate t s (tx_stride t) p tx (tx_imageWidth t - 1) ty (tx_imageHeight t - 1);
        Some (sample_no_alpha p pts h v) }) = Some q \<and> Q q" if "tx_interpolate t"
    using pts(1) [OF that that] no_alpha [OF p(2) _ _ _ f] by fastforce
  have D: "\<exists>q. (do { pts \<leftarrow> getPointsToInterpolateRepeat t s (tx_stride t) p tx (tx_imageWidth t - 1) ty (tx_imageHeight t - 1);
        Some (sample_no_alpha p pts h v) }) = Some q \<and> Q q" if "tx_interpolate t"
    using pts(2) [OF that that] no_alpha [OF p(2) _ _ _ f] by fastforce
  show ?thesis
    unfolding mode_sample_def Let_def s_def [symmetric] si wi p(1) bind.bind_lunit
    using A B C D p(2) m by (cases m) (auto simp: repeatInterpolateMode_def split: if_splits)
qed

lemma translate_px_total:
  assumes t: "tex_ok t xs" "\<forall>p\<in>set xs. Q p" and m: "m = repeatInterpolateMode t"
    and ty: "- 1 \<le> ty" "ty \<le> tyMax t" and f: "frac_ok h" "frac_ok v"
  shows "\<exists>p s'. translate_px m t ty h v ltx = Some (p, s') \<and> Q p"
proof -
  obtain a la where "mode_check m (i32 (sar ltx 16)) ltx (i32 (txMin t - 1)) (txMax t) = Some (a, la)"
    "- 1 \<le> a" "a \<le> txMax t" using mode_check_range(1) [OF t(1)] by blast
  then show ?thesis
    using mode_sample_total [OF t m _ _ ty f, of a] by (auto simp: translate_px_def Let_def)
qed

lemma scale_px_total:
  assumes t: "tex_ok t xs" "\<forall>p\<in>set xs. Q p" and m: "m = repeatInterpolateMode t"
  shows "\<exists>p s'. scale_px m t l = Some (p, s') \<and> Q p"
proof -
  obtain ltx lty where l: "l = (ltx, lty)" by (cases l)
  obtain a la where a: "mode_check m (i32 (sar ltx 16)) ltx (i32 (txMin t - 1)) (txMax t) = Some (a, la)"
    "- 1 \<le> a" "a \<le> txMax t" using mode_check_range(1) [OF t(1)] by blast
  obtain b lb where b: "mode_check m (i32 (sar lty 16)) lty (i32 (tyMin t - 1)) (tyMax t) = Some (b, lb)"
    "- 1 \<le> b" "b \<le> tyMax t" using mode_check_range(2) [OF t(1)] by blast
  show ?thesis
    using mode_sample_total [OF t m a(2,3) b(2,3) frac_ok_and frac_ok_and, of ltx lty]
    by (auto simp: scale_px_def l a(1) b(1) Let_def)
qed

lemma generic_px_total:
  assumes t: "tex_ok t xs" "\<forall>p\<in>set xs. Q p" and m: "m = repeatInterpolateMode t"
  shows "\<exists>p s'. (if mode_repeat m then generic_repeat_px m t else generic_norepeat_px m t) l = Some (p, s') \<and> Q p"
proof (cases "mode_repeat m")
  case True
  then have "generic_repeat_px m t l = scale_px m t l"
    by (simp add: generic_repeat_px_def scale_px_def mode_check_def)
  then show ?thesis using True scale_px_total [OF t m, of l] by simp
next
  case False
  obtain ltx lty where l: "l = (ltx, lty)" by (cases l)
  have i: "i32 (txMin t - 1) = txMin t - 1" "i32 (tyMin t - 1) = tyMin t - 1"
    using t(1) by (auto simp: tex_ok_def intro!: i32_id)
  have r: "0 \<le> txMin t" "0 \<le> tyMin t" using t(1) by (auto simp: tex_ok_def)
  show ?thesis
  proof (cases "isInBoundsNoRepeat (i32 (sar ltx 16)) (txMin t - 1) (txMax t) \<and>
      isInBoundsNoRepeat (i32 (sar lty 16)) (tyMin t - 1) (tyMax t)")
    case True
    then have "\<exists>p. mode_sample m t (i32 (sar ltx 16)) (i32 (sar lty 16)) (ltx AND 0xffff) (lty AND 0xffff) = Some p \<and> Q p"
      using r by (intro mode_sample_total [OF t m]) (auto simp: isInBoundsNoRepeat_def)
    then show ?thesis using True False by (auto simp: generic_norepeat_px_def l Let_def i)
  next
    case out: False
    then show ?thesis using False zero by (auto simp: generic_norepeat_px_def l Let_def i)
  qed
qed

lemma translate_row_fills:
  assumes t: "tex_ok t xs" "\<forall>p\<in>set xs. Q p" and w: "0 \<le> w"
  shows "row_fills (translate_row (repeatInterpolateMode t) t x w) w Q"
proof -
  let ?m = "repeatInterpolateMode t"
  define ltx where "ltx = i64 (i32 (shl x 16) + tx_m02 t)"
  define lty where "lty y = i64 (i32 (shl y 16) + tx_m12 t)" for y
  define cty where "cty y = fst (the (mode_check ?m (i32 (sar (lty y) 16)) (lty y) (i32 (tyMin t - 1)) (tyMax t)))" for y
  have rep: "mode_repeat ?m = tx_repeat t" by (auto simp: repeatInterpolateMode_def)
  have cty: "\<exists>la. (if tx_repeat t then checkBoundsRepeat else checkBoundsNoRepeat) (i32 (sar (lty y) 16)) (lty y)
      (i32 (tyMin t - 1)) (tyMax t) = Some (cty y, la)" "- 1 \<le> cty y" "cty y \<le> tyMax t" for y
    using mode_check_range(2) [OF t(1), of ?m "i32 (sar (lty y) 16)" "lty y"]
    by (auto simp: cty_def mode_check_def rep)
  show ?thesis
  proof (cases "?m = NO_REPEAT_NO_INTERPOLATE")
    case True
    let ?g = "\<lambda>y c. the (txtData t (max 0 (cty y) * tx_stride t + max (txMin t) (min (txMax t) (i32 (sar ltx 16) + c))))"
    have "Q (?g y c)" for y c
    proof -
      have "\<exists>v. txtData t (max 0 (cty y) * tx_stride t + max (txMin t) (min (txMax t) (i32 (sar ltx 16) + c))) = Some v \<and> v \<in> set xs"
        using cty(2,3) [of y] t(1) by (intro txtData_in(1)) (auto simp: tex_ok_def)
      then show ?thesis using t(2) by auto
    qed
    moreover have "translate_row ?m t x w off y (Some ps) = Some (Some (upd_range off w (\<lambda>c _. ?g y c) ps))"
      if "0 \<le> off" "off + w \<le> int (length ps)" for off y ps
      unfolding translate_row_def Let_def ltx_def [symmetric] lty_def [symmetric]
      using cty [of y] True translate_copy_exact [OF t(1) cty(2,3) w that i32_range] by auto
    ultimately show ?thesis unfolding row_fills_def by (intro exI [of _ ?g]) blast
  next
    case False
    have "row_fills (\<lambda>off y. px_fill (translate_px ?m t (cty y) (ltx AND 0xffff) (lty y AND 0xffff)) off (nat w) ltx) w Q"
      by (intro px_fill_row_fills translate_px_total [OF t refl] cty w frac_ok_and)
    moreover have "translate_row ?m t x w off y
        = px_fill (translate_px ?m t (cty y) (ltx AND 0xffff) (lty y AND 0xffff)) off (nat w) ltx" for off y
      unfolding translate_row_def Let_def ltx_def [symmetric] lty_def [symmetric]
      using cty(1) [of y] False by (auto intro!: ext)
    ultimately show ?thesis by (rule row_fills_cong)
  qed
qed

lemma scale_row_fills:
  assumes t: "tex_ok t xs" "\<forall>p\<in>set xs. Q p" and w: "0 \<le> w"
  shows "row_fills (scale_row (repeatInterpolateMode t) t x w) w Q"
  using px_fill_row_fills [of "\<lambda>_. scale_px (repeatInterpolateMode t) t" Q w "affine_start t x",
      OF scale_px_total [OF t refl] w]
  by (simp add: scale_row_def [abs_def])

lemma generic_row_fills:
  assumes t: "tex_ok t xs" "\<forall>p\<in>set xs. Q p" and w: "0 \<le> w"
  shows "row_fills (generic_row (repeatInterpolateMode t) t x w) w Q"
  using px_fill_row_fills [of "\<lambda>_. if mode_repeat (repeatInterpolateMode t) then generic_repeat_px (repeatInterpolateMode t) t
        else generic_norepeat_px (repeatInterpolateMode t) t" Q w "affine_start t x",
      OF generic_px_total [OF t refl] w]
  by (simp add: generic_row_def [abs_def])

lemma texture_paint_fills:
  assumes t: "tex_ok (r_texture rdr) xs" "\<forall>p\<in>set xs. Q p" and sp: "paint_space rdr h ps"
    and ty: "tx_transformType (r_texture rdr) \<in> {1, 2, 3, 4}"
  shows "\<exists>qs. genTexturePaintTarget rdr (Some ps) h = Some (Some qs) \<and> filled (h * r_alphaWidth rdr) Q ps qs"
proof -
  have w: "0 \<le> r_alphaWidth rdr" using sp by (simp add: paint_space_def)
  note rows = paint_rows_fill [OF sp translate_row_fills [OF t w]] paint_rows_fill [OF sp scale_row_fills [OF t w]]
    paint_rows_fill [OF sp generic_row_fills [OF t w]]
  show ?thesis
    using ty rows [of "r_currX rdr"] by (auto simp: genTexturePaintTarget_def Let_def pisces_consts)
qed

end

interpretation any_pixel: sampled "\<lambda>_. True"
  by unfold_locales simp_all

interpretation premul_pixel: sampled "\<lambda>p. premul p \<and> jint_range p"
proof unfold_locales
  fix p q0 q1 q2 h v
  assume "premul p \<and> jint_range p" "premul q0 \<and> jint_range q0" "premul q1 \<and> jint_range q1"
    "premul q2 \<and> jint_range q2" "frac_ok h" "frac_ok v"
  then show "premul (sample_alpha p (q0, q1, q2) h v) \<and> jint_range (sample_alpha p (q0, q1, q2) h v)"
    by (auto simp: sample_alpha_def frac_ok_def premul_interpolate2points premul_interpolate4points)
       (auto simp: interpolate2points_def interpolate4points_def Let_def jint_range_argb)
next
  fix p q0 q1 q2 h v
  assume "premul p \<and> jint_range p" "premul q0 \<and> jint_range q0" "premul q1 \<and> jint_range q1"
    "premul q2 \<and> jint_range q2" "frac_ok h" "frac_ok v"
  then show "premul (sample_no_alpha p (q0, q1, q2) h v) \<and> jint_range (sample_no_alpha p (q0, q1, q2) h v)"
    by (auto simp: sample_no_alpha_def frac_ok_def premul_interpolate2pointsNoAlpha premul_interpolate4pointsNoAlpha)
       (auto simp: interpolate2pointsNoAlpha_def interpolate4pointsNoAlpha_def Let_def jint_range_argb)
qed (simp add: premul_0 jint_range_def)

section \<open>Products of paints\<close>

lemma mul_channel_eq:
  assumes "byte c" "byte v" "byte a" "0 \<le> v" "v \<le> t" "byte t"
  shows "0 \<le> mul_channel c v (a + 1)" "mul_channel c v (a + 1) \<le> sar (i32 ((a + 1) * t)) 8"
proof -
  have f: "0 \<le> c + 1" "c + 1 \<le> 256" "0 \<le> a + 1" "a + 1 \<le> 256" using assms by (auto simp: byte_def)
  note s1 = scale_range [OF assms(2) f(1,2)]
  have v1: "sar (i32 ((c + 1) * v)) 8 = v * (c + 1) div 256" using s1(1) by (simp add: mult.commute)
  have bv: "byte (v * (c + 1) div 256)" using s1(2,3) assms(2) by (auto simp: byte_def)
  note s2 = scale_range [OF bv f(3,4)]
  have t: "sar (i32 ((a + 1) * t)) 8 = t * (a + 1) div 256"
    using scale_range(1) [OF assms(6) f(3,4)] by (simp add: mult.commute)
  show "0 \<le> mul_channel c v (a + 1)" unfolding mul_channel_def v1 s2(1) by (rule s2(2))
  have "v * (c + 1) div 256 * (a + 1) \<le> t * (a + 1)"
    using s1(3) assms(5) f(3) by (intro mult_right_mono) auto
  then show "mul_channel c v (a + 1) \<le> sar (i32 ((a + 1) * t)) 8"
    unfolding mul_channel_def v1 s2(1) t by (rule zdiv_mono1) simp
qed

lemma scaled_byte: "byte a \<Longrightarrow> byte v \<Longrightarrow> byte (sar (i32 ((a + 1) * v)) 8)"
  using scale_range [of v "a + 1"] by (auto simp: byte_def mult.commute)

lemma premul_multiply:
  assumes "premul t" "byte a" "byte r" "byte g" "byte b"
  shows "premul (argb (sar (i32 ((a + 1) * pxA t)) 8) (mul_channel r (pxR t) (a + 1))
    (mul_channel g (pxG t) (a + 1)) (mul_channel b (pxB t) (a + 1)))"
  using assms premulD [OF assms(1)]
  by (intro premul_argb scaled_byte mul_channel_eq(1) [where t = "pxA t"] mul_channel_eq(2)) auto

lemma premul_multiply_flat_px:
  "premul t \<Longrightarrow> byte (r_calpha rdr) \<Longrightarrow> byte (r_cred rdr) \<Longrightarrow> byte (r_cgreen rdr) \<Longrightarrow> byte (r_cblue rdr) \<Longrightarrow>
   premul (multiply_flat_px rdr t)"
  unfolding multiply_flat_px_def Let_def by (intro premul_multiply)

lemma premul_multiply_paint_px: "premul t \<Longrightarrow> premul (multiply_paint_px p t)"
  unfolding multiply_paint_px_def Let_def by (intro premul_multiply) auto

lemma jint_range_multiply_paint_px: "jint_range (multiply_paint_px p t)"
  by (simp add: multiply_paint_px_def Let_def jint_range_argb)

lemma premul_multiply_white_px:
  assumes "premul t" "byte (r_calpha rdr)"
  shows "premul (multiply_white_px rdr t)"
proof -
  have m: "sar (i32 ((r_calpha rdr + 1) * v)) 8 \<le> sar (i32 ((r_calpha rdr + 1) * pxA t)) 8" if "byte v" "v \<le> pxA t" for v
    using scale_range(1) [of v "r_calpha rdr + 1"] scale_range(1) [of "pxA t" "r_calpha rdr + 1"] that assms(2)
    by (auto simp: byte_def mult.commute intro!: zdiv_mono1 mult_right_mono)
  have n: "0 \<le> sar (i32 ((r_calpha rdr + 1) * v)) 8" if "byte v" for v
    using scaled_byte [OF assms(2) that] by (simp add: byte_def)
  show ?thesis
    unfolding multiply_white_px_def Let_def using premulD [OF assms(1)] assms(2)
    by (intro premul_argb scaled_byte m n) auto
qed

lemma filled_step:
  assumes "filled k Q ps qs" "0 \<le> k" "k < int (length ps)" "Q v"
  shows "filled (k + 1) Q ps (qs[nat k := v])" "qs ! nat k = ps ! nat k" "length qs = length ps"
  using assms by (auto simp: filled_def nth_list_update)

lemma multiply_rows_fill:
  assumes sp: "paint_space rdr h ps" and w: "i32 (r_maxTouched rdr - r_minTouched rdr + 1) = r_alphaWidth rdr"
    and f: "\<And>k. 0 \<le> k \<Longrightarrow> k < h * r_alphaWidth rdr \<Longrightarrow> \<exists>v. f k (ps ! nat k) = Some v \<and> Q v"
  shows "\<exists>qs. multiply_rows rdr f h (Some ps) = Some (Some qs) \<and> filled (h * r_alphaWidth rdr) Q ps qs"
proof -
  let ?W = "r_alphaWidth rdr"
  let ?I = "\<lambda>n s. \<exists>qs. s = Some qs \<and> filled n Q ps qs"
  have h: "0 \<le> h" "0 < ?W" "h * ?W \<le> int (length ps)" "int (length ps) < 2147483648"
    using sp by (auto simp: paint_space_def)
  have inner: "\<exists>s'. loopM (\<lambda>j paint. let k = i32 (i * ?W) + j in upd_px paint k (f k)) 0 (nat ?W) s = Some s' \<and> ?I ((i + 1) * ?W) s'"
    if i: "0 \<le> i" "i < h" and s: "?I (i * ?W) s" for i s
  proof -
    have "(i + 1) * ?W \<le> h * ?W" using i h by (intro mult_right_mono) auto
    then have b: "0 \<le> i * ?W" "i * ?W + ?W \<le> h * ?W" using i h by (auto simp: algebra_simps)
    have ii: "i32 (i * ?W) = i * ?W" using b h by (intro i32_id) linarith+
    have "\<exists>s'. loopM (\<lambda>j paint. let k = i32 (i * ?W) + j in upd_px paint k (f k)) 0 (nat ?W) s = Some s'
        \<and> ?I (i * ?W + (0 + int (nat ?W))) s'"
    proof (rule loopM_inv)
      fix j s assume j: "0 \<le> j" "j < 0 + int (nat ?W)" and I: "?I (i * ?W + j) s"
      then obtain qs where qs: "s = Some qs" "filled (i * ?W + j) Q ps qs" by blast
      have k: "0 \<le> i * ?W + j" "i * ?W + j < h * ?W" using b j h by auto
      then have kl: "i * ?W + j < int (length ps)" using h by linarith
      obtain v where v: "f (i * ?W + j) (ps ! nat (i * ?W + j)) = Some v" "Q v" using f k by blast
      note st = filled_step [OF qs(2) k(1) kl v(2)]
      have "upd_px s (i * ?W + j) (f (i * ?W + j)) = Some (Some (qs[nat (i * ?W + j) := v]))"
        unfolding qs(1) using k(1) kl st(2,3) v(1) by (intro upd_px_Some) auto
      then show "\<exists>s'. (let k = i32 (i * ?W) + j in upd_px s k (f k)) = Some s' \<and> ?I (i * ?W + (j + 1)) s'"
        unfolding ii Let_def using st(1) by (auto simp: add.assoc)
    qed (use s in simp)
    moreover have "i * ?W + (0 + int (nat ?W)) = (i + 1) * ?W" using h by (simp add: algebra_simps)
    ultimately show ?thesis by (simp only:)
  qed
  have "\<exists>s'. loopM (\<lambda>i paint. loopM (\<lambda>j paint. let k = i32 (i * ?W) + j in upd_px paint k (f k)) 0 (nat ?W) paint)
      0 (nat h) (Some ps) = Some s' \<and> ?I ((0 + int (nat h)) * ?W) s'"
  proof (rule loopM_inv)
    fix i s assume "0 \<le> i" "i < 0 + int (nat h)" "?I (i * ?W) s"
    then show "\<exists>s'. loopM (\<lambda>j paint. let k = i32 (i * ?W) + j in upd_px paint k (f k)) 0 (nat ?W) s = Some s' \<and> ?I ((i + 1) * ?W) s'"
      using h(1) by (intro inner) auto
  qed (simp add: filled_def)
  then show ?thesis unfolding multiply_rows_def w Let_def using h(1) by auto
qed


lemma filled_nth: "filled n Q ps qs \<Longrightarrow> 0 \<le> k \<Longrightarrow> k < n \<Longrightarrow> n \<le> int (length ps) \<Longrightarrow> Q (qs ! nat k)"
  by (auto simp: filled_def)

lemma filled_trans: "filled n Q ps qs \<Longrightarrow> filled n R qs rs \<Longrightarrow> filled n R ps rs"
  by (auto simp: filled_def)

lemma filled_length: "filled n Q ps qs \<Longrightarrow> length qs = length ps"
  by (simp add: filled_def)

text \<open>What the product of a texture with the previous paint relies on.\<close>

definition multiply_ok :: "'f renderer \<Rightarrow> bool" where
  "multiply_ok rdr \<longleftrightarrow>
     i32 (r_maxTouched rdr - r_minTouched rdr + 1) = r_alphaWidth rdr \<and>
     (r_prevPaintMode rdr = PAINT_FLAT_COLOR \<and> byte (r_calpha rdr) \<and> byte (r_cred rdr) \<and>
        byte (r_cgreen rdr) \<and> byte (r_cblue rdr) \<or>
      (r_prevPaintMode rdr = PAINT_LINEAR_GRADIENT \<or> r_prevPaintMode rdr = PAINT_RADIAL_GRADIENT) \<and>
        gradient_ok (r_gradient rdr))"

lemma multiply_flat_fills:
  assumes t: "tex_ok (r_texture rdr) xs" "\<forall>p\<in>set xs. premul p \<and> jint_range p" and p: "r_paint rdr = Some ps"
    and sp: "paint_space rdr h ps" and ty: "tx_transformType (r_texture rdr) \<in> {1, 2, 3, 4}"
    and ok: "multiply_ok rdr" and prev: "r_prevPaintMode rdr = PAINT_FLAT_COLOR"
  shows "\<exists>rs. genTexturePaintMultiply fo mem rdr h = Some (rdr\<lparr>r_paint := Some rs\<rparr>) \<and>
    filled (h * r_alphaWidth rdr) (\<lambda>p. premul p \<and> jint_range p) ps rs"
proof -
  let ?n = "h * r_alphaWidth rdr" and ?Q = "\<lambda>p. premul p \<and> jint_range p"
  obtain qs where qs: "genTexturePaintTarget rdr (Some ps) h = Some (Some qs)" "filled ?n ?Q ps qs"
    using premul_pixel.texture_paint_fills [OF t sp ty] by blast
  have len: "?n \<le> int (length ps)" and sp': "paint_space rdr h qs"
    using sp filled_length [OF qs(2)] by (auto simp: paint_space_def)
  have w: "i32 (r_maxTouched rdr - r_minTouched rdr + 1) = r_alphaWidth rdr"
    and c: "byte (r_calpha rdr)" "byte (r_cred rdr)" "byte (r_cgreen rdr)" "byte (r_cblue rdr)"
    using ok prev by (auto simp: multiply_ok_def pisces_consts)
  have pre: "premul (qs ! nat k)" if "0 \<le> k" "k < ?n" for k using filled_nth [OF qs(2) that len] by simp
  obtain us where us: "multiply_rows rdr (\<lambda>_ tval. Some (multiply_white_px rdr tval)) h (Some qs) = Some (Some us)"
    "filled ?n ?Q qs us"
    using multiply_rows_fill [OF sp' w, of "\<lambda>_ tval. Some (multiply_white_px rdr tval)" ?Q] pre c
    by (auto simp: premul_multiply_white_px) (auto simp: multiply_white_px_def Let_def jint_range_argb)
  obtain vs where vs: "multiply_rows rdr (\<lambda>_ tval. Some (multiply_flat_px rdr tval)) h (Some qs) = Some (Some vs)"
    "filled ?n ?Q qs vs"
    using multiply_rows_fill [OF sp' w, of "\<lambda>_ tval. Some (multiply_flat_px rdr tval)" ?Q] pre c
    by (auto simp: premul_multiply_flat_px) (auto simp: multiply_flat_px_def Let_def jint_range_argb)
  show ?thesis
    unfolding genTexturePaintMultiply_def Let_def prev p qs(1) bind.bind_lunit
    using us vs qs(2) filled_trans [OF qs(2) us(2)] filled_trans [OF qs(2) vs(2)] by auto
qed


lemma multiply_gradient_fills:
  assumes t: "tex_ok (r_texture rdr) xs" "\<forall>p\<in>set xs. premul p \<and> jint_range p" and p: "r_paint rdr = Some ps"
    and sp: "paint_space rdr h ps" and ty: "tx_transformType (r_texture rdr) \<in> {1, 2, 3, 4}"
    and ok: "multiply_ok rdr" and prev: "r_prevPaintMode rdr \<noteq> PAINT_FLAT_COLOR" and mem: "mem (r_alphaWidth rdr * h)"
  shows "\<exists>rs. genTexturePaintMultiply fo mem rdr h = Some (rdr\<lparr>r_paint := Some rs\<rparr>) \<and>
    filled (h * r_alphaWidth rdr) (\<lambda>p. premul p \<and> jint_range p) ps rs"
proof -
  let ?n = "h * r_alphaWidth rdr" and ?Q = "\<lambda>p. premul p \<and> jint_range p"
  have s: "0 \<le> h" "0 < r_alphaWidth rdr" "?n \<le> int (length ps)" "int (length ps) < 2147483648" "jint_range (r_currY rdr)"
    using sp by (auto simp: paint_space_def)
  have n0: "0 \<le> ?n" using s by simp
  have w: "i32 (r_maxTouched rdr - r_minTouched rdr + 1) = r_alphaWidth rdr" and g: "gradient_ok (r_gradient rdr)"
    using ok prev by (auto simp: multiply_ok_def)
  define gen where "gen = (if r_prevPaintMode rdr = PAINT_LINEAR_GRADIENT then genLinearGradientPaint fo rdr h
      else genRadialGradientPaint fo rdr h)"
  obtain qs where qs: "gen = Some (rdr\<lparr>r_paint := Some qs\<rparr>)"
    "filled ?n (\<lambda>v. v \<in> set (gradient_colors (r_gradient rdr))) ps qs"
    using gradient_paint_fills [OF g p sp, of fo]
    by (cases "r_prevPaintMode rdr = PAINT_LINEAR_GRADIENT") (auto simp: gen_def)
  define rdr' where "rdr' = rdr\<lparr>r_paint := Some qs\<rparr>"
  define zs where "zs = replicate (nat ?n) (0 :: jint)"
  have mal: "my_malloc mem (i32 (r_alphaWidth rdr * h)) = Some zs"
    using mem n0 s(3,4) by (simp add: my_malloc_def zs_def mult.commute i32_id)
  have spz: "paint_space rdr' h zs" using s n0 by (simp add: paint_space_def zs_def rdr'_def)
  have spq: "paint_space rdr' h qs" using sp filled_length [OF qs(2)] by (simp add: paint_space_def rdr'_def)
  obtain ms where ms: "genTexturePaintTarget rdr' (Some zs) h = Some (Some ms)" "filled ?n ?Q zs ms"
    using premul_pixel.texture_paint_fills [of rdr' xs h zs] t ty spz by (auto simp: rdr'_def)
  have pre: "rd (Some ms) k = Some (ms ! nat k)" "premul (ms ! nat k)" if "0 \<le> k" "k < ?n" for k
    using filled_nth [OF ms(2) that] filled_length [OF ms(2)] n0 that by (auto simp: zs_def)
  obtain rs where rs: "multiply_rows rdr' (\<lambda>k pval. do { tval \<leftarrow> rd (Some ms) k; Some (multiply_paint_px pval tval) }) h (Some qs)
      = Some (Some rs)" "filled ?n ?Q qs rs"
    using multiply_rows_fill [OF spq, of "\<lambda>k pval. do { tval \<leftarrow> rd (Some ms) k; Some (multiply_paint_px pval tval) }" ?Q] w pre
    by (auto simp: rdr'_def premul_multiply_paint_px jint_range_multiply_paint_px simp del: rd.simps)
  have prev2: "r_prevPaintMode rdr = PAINT_LINEAR_GRADIENT \<or> r_prevPaintMode rdr = PAINT_RADIAL_GRADIENT"
    using ok prev by (auto simp: multiply_ok_def)
  have "genTexturePaintMultiply fo mem rdr h = Some (rdr'\<lparr>r_paint := Some rs\<rparr>)"
    unfolding genTexturePaintMultiply_def Let_def w gen_def [symmetric] mal
    using prev prev2 qs(1) ms(1) rs(1) by (simp add: rdr'_def)
  then show ?thesis using filled_trans [OF qs(2) rs(2)] by (intro exI [of _ rs]) (simp add: rdr'_def)
qed

end
