(* ===== verification/Pisces_Renderer.thy ===== *)
theory Pisces_Renderer
  imports Pisces_Blit Pisces_Paint
begin

text \<open>
  The renderer of \<open>PiscesRenderer.inl\<close>: its setters mark what they invalidate in \<open>_rendererState\<close>, and
  \<open>VALIDATE_BLITTING\<close> recomputes the internal colour and the function pointers before something is
  drawn. \<open>call_emitRows\<close>, \<open>call_emitLine\<close>, \<open>call_genPaint\<close> and \<open>call_clearRect\<close> are the calls through the
  pointers; a call through \<open>NULL\<close> has no result.

  The surface a renderer points to is an argument of the operations that read it. A freed block is
  a pointer that is overwritten, so \<open>my_free\<close> leaves no trace of its own in the model.

  The lemmas show that the lazy scheme agrees with the eager one: in every state that the
  operations reach, after a validation each pointer is the routine that surface, mask, composite
  rule and paint mode call for.
\<close>

section \<open>Invalidation bits\<close>

definition INVALID_COLOR_ALPHA_MAP :: jint where "INVALID_COLOR_ALPHA_MAP = 1"
definition INVALID_PAINT_ALPHA_MAP :: jint where "INVALID_PAINT_ALPHA_MAP = 2"
definition INVALID_INTERNAL_COLOR :: jint where "INVALID_INTERNAL_COLOR = 8"
definition INVALID_RENDERER_SURFACE :: jint where "INVALID_RENDERER_SURFACE = 16"
definition INVALID_COMPOSITE_DEPENDED_ROUTINES :: jint where "INVALID_COMPOSITE_DEPENDED_ROUTINES = 32"
definition INVALID_PAINT_DEPENDED_ROUTINES :: jint where "INVALID_PAINT_DEPENDED_ROUTINES = 64"
definition INVALID_MASK_DEPENDED_ROUTINES :: jint where "INVALID_MASK_DEPENDED_ROUTINES = 128"

definition INVALID_BLITTING_MASK :: jint where
  "INVALID_BLITTING_MASK = INVALID_INTERNAL_COLOR OR INVALID_RENDERER_SURFACE OR
     INVALID_COMPOSITE_DEPENDED_ROUTINES OR INVALID_PAINT_DEPENDED_ROUTINES OR INVALID_MASK_DEPENDED_ROUTINES"

definition INVALID_ALL :: jint where
  "INVALID_ALL = INVALID_COLOR_ALPHA_MAP OR INVALID_PAINT_ALPHA_MAP OR INVALID_BLITTING_MASK"

lemmas invalid_consts = INVALID_COLOR_ALPHA_MAP_def INVALID_PAINT_ALPHA_MAP_def INVALID_INTERNAL_COLOR_def
  INVALID_RENDERER_SURFACE_def INVALID_COMPOSITE_DEPENDED_ROUTINES_def INVALID_PAINT_DEPENDED_ROUTINES_def
  INVALID_MASK_DEPENDED_ROUTINES_def INVALID_BLITTING_MASK_def INVALID_ALL_def

definition invalidate :: "jint \<Rightarrow> 'f renderer \<Rightarrow> 'f renderer" where
  "invalidate bits rdr = rdr\<lparr>r_rendererState := r_rendererState rdr OR bits\<rparr>"

definition validate :: "jint \<Rightarrow> 'f renderer \<Rightarrow> 'f renderer" where
  "validate bits rdr = rdr\<lparr>r_rendererState := r_rendererState rdr AND NOT bits\<rparr>"

section \<open>Update routines\<close>

text \<open>The \<open>switch\<close> of each update routine, on the function pointers alone.\<close>

definition paint_switch :: "jint \<Rightarrow> routines \<Rightarrow> routines" where
  "paint_switch pm f =
    (if pm = PAINT_LINEAR_GRADIENT
     then f\<lparr>genPaint := GenLinearGradientPaint, emitRows := bl_PT f, emitLine := el_PT f\<rparr>
     else if pm = PAINT_RADIAL_GRADIENT
     then f\<lparr>genPaint := GenRadialGradientPaint, emitRows := bl_PT f, emitLine := el_PT f\<rparr>
     else if pm = PAINT_TEXTURE8888
     then f\<lparr>genPaint := GenTexturePaint, emitRows := bl_PT f, emitLine := el_PT f\<rparr>
     else if pm = PAINT_TEXTURE8888_MULTIPLY
     then f\<lparr>genPaint := GenTexturePaintMultiply, emitRows := bl_PT f, emitLine := el_PT f\<rparr>
     else if pm = PAINT_FLAT_COLOR
     then f\<lparr>genPaint := GenNULL, emitRows := bl f, emitLine := el f\<rparr>
     else f)"

definition updatePaintDependedRoutines :: "'f renderer \<Rightarrow> 'f renderer" where
  "updatePaintDependedRoutines rdr =
    validate INVALID_PAINT_DEPENDED_ROUTINES (rdr\<lparr>r_fns := paint_switch (r_paintMode rdr) (r_fns rdr)\<rparr>)"

definition composite_switch :: "jint \<Rightarrow> routines \<Rightarrow> routines" where
  "composite_switch rule f =
    (if rule = COMPOSITE_SRC_OVER
     then f\<lparr>bl := bl_SourceOver f, bl_PT := bl_PT_SourceOver f, el := el_SourceOver f, el_PT := el_PT_SourceOver f\<rparr>
     else if rule = COMPOSITE_SRC
     then f\<lparr>bl := bl_Source f, bl_PT := bl_PT_Source f, el := el_Source f, el_PT := el_PT_Source f\<rparr>
     else if rule = COMPOSITE_CLEAR
     then f\<lparr>bl := bl_Clear f, bl_PT := bl_PT_Clear f, el := el_Source f, el_PT := el_Source f\<rparr>
     else f)"

definition updateCompositeDependedRoutines :: "'f renderer \<Rightarrow> 'f renderer" where
  "updateCompositeDependedRoutines rdr =
    validate INVALID_COMPOSITE_DEPENDED_ROUTINES
      (updatePaintDependedRoutines (rdr\<lparr>r_fns := composite_switch (r_compositeRule rdr) (r_fns rdr)\<rparr>))"

definition mask_switch :: "jint \<Rightarrow> routines \<Rightarrow> routines" where
  "mask_switch mt f =
    (if mt = NO_MASK
     then f\<lparr>bl_SourceOver := bl_SourceOverNoMask f, bl_PT_SourceOver := bl_PT_SourceOverNoMask f,
            bl_Source := bl_SourceNoMask f, bl_PT_Source := bl_PT_SourceNoMask f\<rparr>
     else if mt = ALPHA_MASK
     then f\<lparr>bl_SourceOver := bl_SourceOverMask f, bl_PT_SourceOver := bl_PT_SourceOverMask f,
            bl_Source := bl_SourceMask f, bl_PT_Source := bl_PT_SourceMask f\<rparr>
     else if mt = LCD_ALPHA_MASK
     then f\<lparr>bl_SourceOver := bl_SourceOverLCDMask f, bl_PT_SourceOver := bl_PT_SourceOverLCDMask f,
            bl_Source := bl_SourceLCDMask f, bl_PT_Source := bl_PT_SourceLCDMask f\<rparr>
     else f)"

definition updateMaskDependedRoutines :: "'f renderer \<Rightarrow> 'f renderer" where
  "updateMaskDependedRoutines rdr =
    validate INVALID_MASK_DEPENDED_ROUTINES
      (updateCompositeDependedRoutines (rdr\<lparr>r_fns := mask_switch (r_maskType rdr) (r_fns rdr)\<rparr>))"

definition surface_switch :: "jint \<Rightarrow> routines \<Rightarrow> routines" where
  "surface_switch ty f =
    (if ty = TYPE_INT_ARGB_PRE then
       f\<lparr>bl_SourceOverNoMask := BlitSrcOver8888_pre, bl_PT_SourceOverNoMask := BlitPTSrcOver8888_pre,
         bl_SourceNoMask := BlitSrc8888_pre, bl_PT_SourceNoMask := BlitPTSrc8888_pre,
         bl_SourceOverMask := BlitSrcOverMask8888_pre, bl_PT_SourceOverMask := BlitPTSrcOverMask8888_pre,
         bl_SourceMask := BlitSrcMask8888_pre, bl_PT_SourceMask := BlitPTSrcMask8888_pre,
         bl_SourceOverLCDMask := BlitSrcOverLCDMask8888_pre, bl_PT_SourceOverLCDMask := BlitNULL,
         bl_SourceLCDMask := BlitNULL, bl_PT_SourceLCDMask := BlitNULL,
         bl_Clear := BlitSrc8888_pre, bl_PT_Clear := BlitSrc8888_pre,
         clearRect_fn := ClearRect8888_any,
         el_Source := EmitLineSource8888_pre, el_SourceOver := EmitLineSourceOver8888_pre,
         el_PT_Source := EmitLinePTSource8888_pre, el_PT_SourceOver := EmitLinePTSourceOver8888_pre\<rparr>
     else f)"

definition updateSurfaceDependedRoutines :: "'f renderer \<Rightarrow> 'f renderer" where
  "updateSurfaceDependedRoutines rdr =
    updateMaskDependedRoutines (rdr\<lparr>r_fns := surface_switch (r_imageType rdr) (r_fns rdr)\<rparr>)"

definition updateRendererSurface :: "surface \<Rightarrow> 'f renderer \<Rightarrow> 'f renderer" where
  "updateRendererSurface surface rdr =
    (let rdr = rdr\<lparr>r_width := s_width surface, r_height := s_height surface, r_data := s_data surface,
                   r_imageOffset := s_offset surface, r_imageScanlineStride := s_scanlineStride surface,
                   r_imagePixelStride := s_pixelStride surface\<rparr>;
         rdr = (if r_imageType rdr \<noteq> s_imageType surface then
                  (let rdr = (if r_compositeRule rdr \<noteq> COMPOSITE_SRC_OVER \<and> s_imageType surface = TYPE_INT_ARGB_PRE
                              then invalidate (INVALID_COLOR_ALPHA_MAP OR INVALID_PAINT_ALPHA_MAP) rdr else rdr)
                   in updateSurfaceDependedRoutines (rdr\<lparr>r_imageType := s_imageType surface\<rparr>))
                else rdr)
     in validate INVALID_RENDERER_SURFACE rdr)"

definition updateInternalColor :: "'f renderer \<Rightarrow> 'f renderer" where
  "updateInternalColor rdr =
    validate INVALID_INTERNAL_COLOR
      (if r_compositeRule rdr = COMPOSITE_CLEAR
       then rdr\<lparr>r_cred := 0, r_cgreen := 0, r_cblue := 0, r_calpha := 0\<rparr>
       else rdr\<lparr>r_cred := r_ured rdr, r_cgreen := r_ugreen rdr, r_cblue := r_ublue rdr, r_calpha := r_ualpha rdr\<rparr>)"

text \<open>The macro \<open>VALIDATE_BLITTING\<close>; \<open>st\<close> is the copy \<open>__state\<close> of the bits it takes first.\<close>

definition VALIDATE_BLITTING :: "surface \<Rightarrow> 'f renderer \<Rightarrow> 'f renderer" where
  "VALIDATE_BLITTING surface rdr =
    (if r_rendererState rdr AND INVALID_BLITTING_MASK \<noteq> 0 then
       (let st = r_rendererState rdr;
            rdr = (if st AND INVALID_RENDERER_SURFACE \<noteq> 0 then updateRendererSurface surface rdr else rdr);
            rdr = (if st AND INVALID_INTERNAL_COLOR \<noteq> 0 then updateInternalColor rdr else rdr)
        in if st AND INVALID_MASK_DEPENDED_ROUTINES \<noteq> 0 then updateMaskDependedRoutines rdr
           else if st AND INVALID_COMPOSITE_DEPENDED_ROUTINES \<noteq> 0 then updateCompositeDependedRoutines rdr
           else if st AND INVALID_PAINT_DEPENDED_ROUTINES \<noteq> 0 then updatePaintDependedRoutines rdr
           else rdr)
     else rdr)"

section \<open>Setters\<close>

definition setPaintMode :: "jint \<Rightarrow> 'f renderer \<Rightarrow> 'f renderer" where
  "setPaintMode newPaintMode rdr =
    (if r_paintMode rdr \<noteq> newPaintMode then
       (invalidate INVALID_PAINT_DEPENDED_ROUTINES rdr)
         \<lparr>r_texture := (r_texture rdr)\<lparr>tx_intData := None\<rparr>,
          r_prevPaintMode := r_paintMode rdr, r_paintMode := newPaintMode\<rparr>
     else rdr)"

definition renderer_setClip :: "'f renderer \<Rightarrow> jint \<Rightarrow> jint \<Rightarrow> jint \<Rightarrow> jint \<Rightarrow> 'f renderer" where
  "renderer_setClip rdr minX minY width height =
    rdr\<lparr>r_clip_bbMinX := minX, r_clip_bbMinY := minY,
        r_clip_bbMaxX := i32 (minX + width - 1), r_clip_bbMaxY := i32 (minY + height - 1)\<rparr>"

definition renderer_setColor :: "'f renderer \<Rightarrow> jint \<Rightarrow> jint \<Rightarrow> jint \<Rightarrow> jint \<Rightarrow> 'f renderer" where
  "renderer_setColor rdr red green blue alpha =
    setPaintMode PAINT_FLAT_COLOR
      (if r_ured rdr \<noteq> red \<or> r_ugreen rdr \<noteq> green \<or> r_ublue rdr \<noteq> blue \<or> r_ualpha rdr \<noteq> alpha then
         (let rdr = invalidate INVALID_INTERNAL_COLOR rdr;
              rdr = (if r_ualpha rdr \<noteq> alpha
                     then invalidate (INVALID_COLOR_ALPHA_MAP OR INVALID_PAINT_ALPHA_MAP) rdr else rdr)
          in rdr\<lparr>r_ured := red, r_ugreen := green, r_ublue := blue, r_ualpha := alpha\<rparr>)
       else rdr)"

definition renderer_setCompositeRule :: "'f renderer \<Rightarrow> jint \<Rightarrow> 'f renderer" where
  "renderer_setCompositeRule rdr compositeRule =
    (if r_compositeRule rdr \<noteq> compositeRule then
       (let rdr = invalidate (INVALID_INTERNAL_COLOR OR INVALID_COMPOSITE_DEPENDED_ROUTINES) rdr;
            rdr = (if compositeRule = COMPOSITE_SRC_OVER \<or>
                      (compositeRule = COMPOSITE_CLEAR \<or> compositeRule = COMPOSITE_SRC) \<and>
                        r_imageType rdr = TYPE_INT_ARGB_PRE
                   then invalidate (INVALID_COLOR_ALPHA_MAP OR INVALID_PAINT_ALPHA_MAP) rdr else rdr)
        in rdr\<lparr>r_compositeRule := compositeRule\<rparr>)
     else rdr)"

text \<open>The \<open>memcpy\<close> of the colour ramp reads \<open>GRADIENT_MAP_SIZE\<close> cells of the array.\<close>

definition copy_ramp :: "jint buf \<Rightarrow> jint list option" where
  "copy_ramp colors = (case colors of None \<Rightarrow> None
     | Some cs \<Rightarrow> if 256 \<le> length cs then Some (take 256 cs) else None)"

definition renderer_setLinearGradient ::
  "'f float_ops \<Rightarrow> 'f renderer \<Rightarrow> jint \<Rightarrow> jint \<Rightarrow> jint \<Rightarrow> jint \<Rightarrow> jint buf \<Rightarrow> transform6 \<Rightarrow> 'f renderer option" where
  "renderer_setLinearGradient fo rdr x0 y0 x1 y1 colors transform =
    (let add = f_add fo; sub = f_sub fo; mul = f_mul fo; dv = f_div fo; fi = f_of_int fo; k = fi 65536;
         inv = pisces_transform_invert fo transform;
         a00 = fi (m00 inv); a01 = fi (m01 inv); a02 = dv (fi (m02 inv)) k;
         a10 = fi (m10 inv); a11 = fi (m11 inv); a12 = dv (fi (m12 inv)) k;
         fx0 = dv (fi x0) k; fx1 = dv (fi x1) k; fy0 = dv (fi y0) k; fy1 = dv (fi y1) k;
         fdx = sub fx1 fx0; fdy = sub fy1 fy0;
         flensq = add (mul fdx fdx) (mul fdy fdy);
         t = add (mul fdx fx0) (mul fdy fy0);
         g = (r_gradient rdr)\<lparr>gradient_transform := transform, gradient_inverse_transform := inv,
               lg_mx := dv (add (mul a00 fdx) (mul a10 fdy)) flensq,
               lg_my := dv (add (mul a01 fdx) (mul a11 fdy)) flensq,
               lg_b := dv (mul k (sub (add (mul a02 fdx) (mul a12 fdy)) t)) flensq\<rparr>;
         rdr = setPaintMode PAINT_LINEAR_GRADIENT (rdr\<lparr>r_gradient := g\<rparr>)
     in do {
       cs \<leftarrow> copy_ramp colors;
       Some (rdr\<lparr>r_gradient := g\<lparr>gradient_colors := cs\<rparr>\<rparr>) })"

definition renderer_setRadialGradient ::
  "'f float_ops \<Rightarrow> 'f \<Rightarrow> 'f \<Rightarrow> 'f renderer \<Rightarrow> jint \<Rightarrow> jint \<Rightarrow> jint \<Rightarrow> jint \<Rightarrow> jint \<Rightarrow> jint buf \<Rightarrow> transform6 \<Rightarrow>
   'f renderer option" where
  "renderer_setRadialGradient fo c094 c097 rdr cx cy fx fy radius colors transform =
    (let add = f_add fo; sub = f_sub fo; mul = f_mul fo; dv = f_div fo; fi = f_of_int fo; k = fi 65536;
         inv = pisces_transform_invert fo transform;
         a00 = dv (fi (m00 inv)) k; a01 = dv (fi (m01 inv)) k; a02 = dv (fi (m02 inv)) k;
         a10 = dv (fi (m10 inv)) k; a11 = dv (fi (m11 inv)) k; a12 = dv (fi (m12 inv)) k;
         cx' = dv (fi cx) k; cy' = dv (fi cy) k; fx' = dv (fi fx) k; fy' = dv (fi fy) k;
         r = dv (fi radius) k;
         rsq = mul r r;
         fcx = sub fx' cx'; fcy = sub fy' cy';
         dsq = add (mul fcx fcx) (mul fcy fcy);
         (fx', fy') = (if f_less fo (mul rsq c094) dsq then
                         (let f = dv (mul r c097) (f_sqrt fo dsq)
                          in (add cx' (mul f fcx), add cy' (mul f fcy)))
                       else (fx', fy'));
         g = (r_gradient rdr)\<lparr>gradient_transform := transform, gradient_inverse_transform := inv,
               rg_a00 := a00, rg_a01 := a01, rg_a02 := a02, rg_a10 := a10, rg_a11 := a11, rg_a12 := a12,
               rg_a00a00 := mul a00 a00, rg_a10a10 := mul a10 a10, rg_a00a10 := mul a00 a10,
               rg_r := r, rg_rsq := rsq, rg_cx := cx', rg_cy := cy', rg_fx := fx', rg_fy := fy'\<rparr>;
         rdr = setPaintMode PAINT_RADIAL_GRADIENT (rdr\<lparr>r_gradient := g\<rparr>)
     in do {
       cs \<leftarrow> copy_ramp colors;
       Some (rdr\<lparr>r_gradient := g\<lparr>gradient_colors := cs\<rparr>\<rparr>) })"

text \<open>The kind of a texture transform and whether interpolation is still of use.\<close>

definition texture_classify :: "texture \<Rightarrow> texture" where
  "texture_classify t =
    (if tx_m00 t = 65536 \<and> tx_m11 t = 65536 \<and> tx_m01 t = 0 \<and> tx_m10 t = 0 then
       (if tx_m02 t = 0 \<and> tx_m12 t = 0
        then t\<lparr>tx_transformType := TEXTURE_TRANSFORM_IDENTITY, tx_interpolate := False\<rparr>
        else
          (let t = t\<lparr>tx_transformType := TEXTURE_TRANSFORM_TRANSLATE\<rparr>
           in if tx_m02 t AND 0xFFFF = 0 \<and> tx_m12 t AND 0xFFFF = 0
              then t\<lparr>tx_interpolate := False\<rparr> else t))
     else (if tx_m01 t = 0 \<and> tx_m10 t = 0
           then t\<lparr>tx_transformType := TEXTURE_TRANSFORM_SCALE_TRANSLATE\<rparr>
           else t\<lparr>tx_transformType := TEXTURE_TRANSFORM_GENERIC\<rparr>))"

definition renderer_setTexture ::
  "'f float_ops \<Rightarrow> 'f renderer \<Rightarrow> jint \<Rightarrow> jint buf \<Rightarrow> int \<Rightarrow> jint \<Rightarrow> jint \<Rightarrow> jint \<Rightarrow> bool \<Rightarrow> bool \<Rightarrow> transform6 \<Rightarrow>
   bool \<Rightarrow> bool \<Rightarrow> jint \<Rightarrow> jint \<Rightarrow> jint \<Rightarrow> jint \<Rightarrow> 'f renderer" where
  "renderer_setTexture fo rdr renderMode data base width height stride rpt smooth transform freeData
     textureHasAlpha txMn tyMn txMx tyMx =
    (let inv = pisces_transform_invert fo transform;
         rdr = setPaintMode (if renderMode = IMAGE_MODE_NORMAL then PAINT_TEXTURE8888 else PAINT_TEXTURE8888_MULTIPLY)
                 (rdr\<lparr>r_paint_transform := transform\<rparr>);
         t = \<lparr>tx_intData = data, tx_base = base, tx_hasAlpha = textureHasAlpha,
              tx_imageWidth = width, tx_imageHeight = height, tx_stride = stride,
              txMin = txMn, tyMin = tyMn, txMax = txMx, tyMax = tyMx, tx_repeat = rpt,
              tx_m00 = m00 inv, tx_m01 = m01 inv, tx_m02 = m02 inv,
              tx_m10 = m10 inv, tx_m11 = m11 inv, tx_m12 = m12 inv,
              tx_interpolate = smooth, tx_transformType = tx_transformType (r_texture rdr), tx_free = freeData\<rparr>;
         t = (if smooth then
                t\<lparr>tx_m02 := i64 (tx_m02 t + sar (tx_m00 t) 1 + sar (tx_m01 t) 1 - 32768),
                  tx_m12 := i64 (tx_m12 t + sar (tx_m10 t) 1 + sar (tx_m11 t) 1 - 32768)\<rparr>
              else t)
     in rdr\<lparr>r_texture := texture_classify t\<rparr>)"

definition renderer_setMask ::
  "'f renderer \<Rightarrow> jint \<Rightarrow> jint buf \<Rightarrow> jint \<Rightarrow> jint \<Rightarrow> bool \<Rightarrow> 'f renderer" where
  "renderer_setMask rdr maskType data width height freeData =
    invalidate (INVALID_BLITTING_MASK OR INVALID_MASK_DEPENDED_ROUTINES)
      (rdr\<lparr>r_mask_free := freeData, r_maskType := maskType, r_mask_byteData := data,
           r_mask_width := width, r_mask_height := height\<rparr>)"

definition renderer_removeMask :: "'f renderer \<Rightarrow> 'f renderer" where
  "renderer_removeMask rdr =
    invalidate (INVALID_BLITTING_MASK OR INVALID_MASK_DEPENDED_ROUTINES)
      (rdr\<lparr>r_maskType := NO_MASK, r_mask_byteData := None\<rparr>)"

section \<open>Creation\<close>

definition null_routines :: routines where
  "null_routines = \<lparr>bl_SourceOverMask = BlitNULL, bl_PT_SourceOverMask = BlitNULL, bl_SourceMask = BlitNULL,
     bl_PT_SourceMask = BlitNULL, bl_SourceOverLCDMask = BlitNULL, bl_PT_SourceOverLCDMask = BlitNULL,
     bl_SourceLCDMask = BlitNULL, bl_PT_SourceLCDMask = BlitNULL, bl_SourceOverNoMask = BlitNULL,
     bl_PT_SourceOverNoMask = BlitNULL, bl_SourceNoMask = BlitNULL, bl_PT_SourceNoMask = BlitNULL,
     bl_SourceOver = BlitNULL, bl_PT_SourceOver = BlitNULL, bl_Source = BlitNULL, bl_PT_Source = BlitNULL,
     el_Source = EmitNULL, el_SourceOver = EmitNULL, el_PT_Source = EmitNULL, el_PT_SourceOver = EmitNULL,
     bl_Clear = BlitNULL, bl_PT_Clear = BlitNULL, bl = BlitNULL, bl_PT = BlitNULL, el = EmitNULL, el_PT = EmitNULL,
     clearRect_fn = ClearNULL, emitRows = BlitNULL, emitLine = EmitNULL, genPaint = GenNULL\<rparr>"

definition null_transform :: transform6 where
  "null_transform = \<lparr>m00 = 0, m01 = 0, m10 = 0, m11 = 0, m02 = 0, m12 = 0\<rparr>"

definition null_texture :: texture where
  "null_texture = \<lparr>tx_intData = None, tx_base = 0, tx_hasAlpha = False, tx_imageWidth = 0, tx_imageHeight = 0,
     tx_stride = 0, txMin = 0, tyMin = 0, txMax = 0, tyMax = 0, tx_repeat = False, tx_m00 = 0, tx_m01 = 0,
     tx_m02 = 0, tx_m10 = 0, tx_m11 = 0, tx_m12 = 0, tx_interpolate = False, tx_transformType = 0, tx_free = False\<rparr>"

definition null_gradient :: "'f \<Rightarrow> 'f gradient" where
  "null_gradient z = \<lparr>lg_mx = z, lg_my = z, lg_b = z, rg_a00 = z, rg_a01 = z, rg_a02 = z, rg_a10 = z, rg_a11 = z,
     rg_a12 = z, rg_cx = z, rg_cy = z, rg_fx = z, rg_fy = z, rg_r = z, rg_rsq = z, rg_a00a00 = z, rg_a10a10 = z,
     rg_a00a10 = z, gradient_colors = replicate 256 0, gradient_cycleMethod = 0,
     gradient_transform = null_transform, gradient_inverse_transform = null_transform\<rparr>"

text \<open>\<open>calloc\<close> gives a renderer of zeros, or nothing.\<close>

definition createCommon :: "'f float_ops \<Rightarrow> bool \<Rightarrow> surface \<Rightarrow> 'f renderer option" where
  "createCommon fo mem surface =
    (if \<not> mem then None
     else Some \<lparr>r_paintMode = PAINT_FLAT_COLOR, r_prevPaintMode = 0, r_ured = 0, r_ugreen = 0, r_ublue = 0,
       r_ualpha = 0, r_cred = 0, r_cgreen = 0, r_cblue = 0, r_calpha = 0, r_compositeRule = COMPOSITE_SRC_OVER,
       r_data = None, r_width = 0, r_height = 0, r_imageOffset = 0, r_imageScanlineStride = 0,
       r_imagePixelStride = 0, r_imageType = - 1, r_fns = null_routines, r_rowNum = 0, r_alphaWidth = 0,
       r_minTouched = 0, r_maxTouched = 0, r_currX = 0, r_currY = 0, r_currImageOffset = 0, r_alphaMap = None,
       r_rowAAInt = None, r_rectX = 0, r_rectY = 0, r_mask_free = False, r_maskType = NO_MASK,
       r_mask_byteData = None, r_maskOffset = 0, r_mask_width = 0, r_mask_height = 0, r_paint = None,
       r_paint_transform = null_transform, r_gradient = null_gradient (f_of_int fo 0), r_texture = null_texture,
       r_clip_bbMinX = 0, r_clip_bbMinY = 0, r_clip_bbMaxX = i32 (s_width surface - 1),
       r_clip_bbMaxY = i32 (s_height surface - 1), r_el_lfrac = 0, r_el_rfrac = 0, r_rendererState = INVALID_ALL\<rparr>)"

section \<open>Calls through the function pointers\<close>

text \<open>What the routines need beside the renderer: float arithmetic, the gamma tables and memory.\<close>

record 'f genv =
  g_float :: "'f float_ops"
  g_gamma :: "'f gamma_tables"
  g_mem :: "int \<Rightarrow> bool"

definition call_emitRows :: "'f genv \<Rightarrow> 'f renderer \<Rightarrow> jint \<Rightarrow> 'f renderer option" where
  "call_emitRows G rdr height =
    (case emitRows (r_fns rdr) of
       BlitNULL \<Rightarrow> None
     | BlitSrcOver8888_pre \<Rightarrow> blitSrcOver8888_pre rdr height
     | BlitPTSrcOver8888_pre \<Rightarrow> blitPTSrcOver8888_pre rdr height
     | BlitSrc8888_pre \<Rightarrow> blitSrc8888_pre rdr height
     | BlitPTSrc8888_pre \<Rightarrow> blitPTSrc8888_pre rdr height
     | BlitSrcOverMask8888_pre \<Rightarrow> blitSrcOverMask8888_pre rdr height
     | BlitPTSrcOverMask8888_pre \<Rightarrow> blitPTSrcOverMask8888_pre rdr height
     | BlitSrcMask8888_pre \<Rightarrow> blitSrcMask8888_pre rdr height
     | BlitPTSrcMask8888_pre \<Rightarrow> blitPTSrcMask8888_pre rdr height
     | BlitSrcOverLCDMask8888_pre \<Rightarrow> blitSrcOverLCDMask8888_pre (g_gamma G) rdr height)"

definition call_emitLine :: "'f renderer \<Rightarrow> jint \<Rightarrow> jint \<Rightarrow> 'f renderer option" where
  "call_emitLine rdr height frac =
    (case emitLine (r_fns rdr) of
       EmitNULL \<Rightarrow> None
     | EmitLineSource8888_pre \<Rightarrow> emitLineSource8888_pre rdr height frac
     | EmitLineSourceOver8888_pre \<Rightarrow> emitLineSourceOver8888_pre rdr height frac
     | EmitLinePTSource8888_pre \<Rightarrow> emitLinePTSource8888_pre rdr height frac
     | EmitLinePTSourceOver8888_pre \<Rightarrow> emitLinePTSourceOver8888_pre rdr height frac)"

definition call_clearRect :: "'f renderer \<Rightarrow> jint \<Rightarrow> jint \<Rightarrow> jint \<Rightarrow> jint \<Rightarrow> 'f renderer option" where
  "call_clearRect rdr x y w h =
    (case clearRect_fn (r_fns rdr) of ClearNULL \<Rightarrow> None | ClearRect8888_any \<Rightarrow> clearRect8888_any rdr x y w h)"

definition call_genPaint :: "'f genv \<Rightarrow> 'f renderer \<Rightarrow> jint \<Rightarrow> 'f renderer option" where
  "call_genPaint G rdr height =
    (case genPaint (r_fns rdr) of
       GenNULL \<Rightarrow> None
     | GenLinearGradientPaint \<Rightarrow> genLinearGradientPaint (g_float G) rdr height
     | GenRadialGradientPaint \<Rightarrow> genRadialGradientPaint (g_float G) rdr height
     | GenTexturePaint \<Rightarrow> genTexturePaint rdr height
     | GenTexturePaintMultiply \<Rightarrow> genTexturePaintMultiply (g_float G) (g_mem G) rdr height)"

text \<open>The macro \<open>ALLOC3\<close> on the paint buffer: it grows, with its contents discarded, or stays.\<close>

definition alloc_paint :: "'f genv \<Rightarrow> int \<Rightarrow> 'f renderer \<Rightarrow> 'f renderer" where
  "alloc_paint G l rdr =
    (case r_paint rdr of
       Some p \<Rightarrow> if int (length p) < l then rdr\<lparr>r_paint := my_malloc (g_mem G) l\<rparr> else rdr
     | None \<Rightarrow> rdr\<lparr>r_paint := my_malloc (g_mem G) l\<rparr>)"

definition renderer_clearRect ::
  "surface \<Rightarrow> 'f renderer \<Rightarrow> jint \<Rightarrow> jint \<Rightarrow> jint \<Rightarrow> jint \<Rightarrow> 'f renderer option" where
  "renderer_clearRect surface rdr x y w h =
    (let maxX = i32 (x + w - 1);
         maxY = i32 (y + h - 1);
         rdr = VALIDATE_BLITTING surface rdr;
         x = max (max x 0) (r_clip_bbMinX rdr);
         y = max (max y 0) (r_clip_bbMinY rdr);
         maxX = min (min maxX (i32 (r_width rdr - 1))) (r_clip_bbMaxX rdr);
         maxY = min (min maxY (i32 (r_height rdr - 1))) (r_clip_bbMaxY rdr)
     in if x \<le> maxX \<and> y \<le> maxY
        then call_clearRect rdr x y (i32 (maxX - x + 1)) (i32 (maxY - y + 1))
        else Some rdr)"

section \<open>The bits\<close>

abbreviation pending :: "'f renderer \<Rightarrow> nat \<Rightarrow> bool" where
  "pending rdr n \<equiv> bit (r_rendererState rdr) n"

lemma and_pow2: "(s :: int) AND 2 ^ n \<noteq> 0 \<longleftrightarrow> bit s n"
  by (simp add: and_exp_eq_0_iff_not_bit)

lemma state_bits:
  "s AND INVALID_INTERNAL_COLOR \<noteq> 0 \<longleftrightarrow> bit s 3"
  "s AND INVALID_RENDERER_SURFACE \<noteq> 0 \<longleftrightarrow> bit s 4"
  "s AND INVALID_COMPOSITE_DEPENDED_ROUTINES \<noteq> 0 \<longleftrightarrow> bit s 5"
  "s AND INVALID_PAINT_DEPENDED_ROUTINES \<noteq> 0 \<longleftrightarrow> bit s 6"
  "s AND INVALID_MASK_DEPENDED_ROUTINES \<noteq> 0 \<longleftrightarrow> bit s 7"
  using and_pow2 [of s 3] and_pow2 [of s 4] and_pow2 [of s 5] and_pow2 [of s 6] and_pow2 [of s 7]
  by (simp_all add: invalid_consts)

lemma bit_pow2_int: "bit (2 ^ k :: int) n \<longleftrightarrow> n = k"
  by (auto simp: bit_exp_iff)

lemma bit_consts:
  "bit INVALID_COLOR_ALPHA_MAP n \<longleftrightarrow> n = 0"
  "bit INVALID_PAINT_ALPHA_MAP n \<longleftrightarrow> n = 1"
  "bit INVALID_INTERNAL_COLOR n \<longleftrightarrow> n = 3"
  "bit INVALID_RENDERER_SURFACE n \<longleftrightarrow> n = 4"
  "bit INVALID_COMPOSITE_DEPENDED_ROUTINES n \<longleftrightarrow> n = 5"
  "bit INVALID_PAINT_DEPENDED_ROUTINES n \<longleftrightarrow> n = 6"
  "bit INVALID_MASK_DEPENDED_ROUTINES n \<longleftrightarrow> n = 7"
  using bit_pow2_int [of 0 n] bit_pow2_int [of 1 n] bit_pow2_int [of 3 n] bit_pow2_int [of 4 n]
    bit_pow2_int [of 5 n] bit_pow2_int [of 6 n] bit_pow2_int [of 7 n]
  by (simp_all add: invalid_consts)

lemma bit_masks:
  "bit INVALID_BLITTING_MASK n \<longleftrightarrow> 3 \<le> n \<and> n \<le> 7"
  "bit INVALID_ALL n \<longleftrightarrow> n = 0 \<or> n = 1 \<or> 3 \<le> n \<and> n \<le> 7"
  by (auto simp: INVALID_BLITTING_MASK_def INVALID_ALL_def bit_or_iff bit_consts)

lemma blitting_mask: "s AND INVALID_BLITTING_MASK \<noteq> 0 \<longleftrightarrow> bit s 3 \<or> bit s 4 \<or> bit s 5 \<or> bit s 6 \<or> bit s 7"
proof -
  have "s AND INVALID_BLITTING_MASK = 0 \<longleftrightarrow> (\<forall>n. \<not> (bit s n \<and> 3 \<le> n \<and> n \<le> 7))"
    by (simp add: bit_eq_iff bit_and_iff bit_masks)
  also have "\<dots> \<longleftrightarrow> (\<forall>n\<in>{3..7 :: nat}. \<not> bit s n)" by auto
  also have "{3..7 :: nat} = {3, 4, 5, 6, 7}" by auto
  finally show ?thesis by auto
qed

lemma pending_invalidate [simp]: "pending (invalidate b rdr) n \<longleftrightarrow> pending rdr n \<or> bit b n"
  by (simp add: invalidate_def bit_or_iff)

lemma pending_validate [simp]: "pending (validate b rdr) n \<longleftrightarrow> pending rdr n \<and> \<not> bit b n"
  by (auto simp: validate_def bit_and_iff bit_not_iff_eq)

text \<open>Neither touches another member.\<close>

lemma validate_sel [simp]:
  "r_fns (validate b rdr) = r_fns rdr" "r_paintMode (validate b rdr) = r_paintMode rdr"
  "r_compositeRule (validate b rdr) = r_compositeRule rdr" "r_maskType (validate b rdr) = r_maskType rdr"
  "r_imageType (validate b rdr) = r_imageType rdr"
  "r_cred (validate b rdr) = r_cred rdr" "r_cgreen (validate b rdr) = r_cgreen rdr"
  "r_cblue (validate b rdr) = r_cblue rdr" "r_calpha (validate b rdr) = r_calpha rdr"
  "r_ured (validate b rdr) = r_ured rdr" "r_ugreen (validate b rdr) = r_ugreen rdr"
  "r_ublue (validate b rdr) = r_ublue rdr" "r_ualpha (validate b rdr) = r_ualpha rdr"
  by (simp_all add: validate_def)

lemma invalidate_sel [simp]:
  "r_fns (invalidate b rdr) = r_fns rdr" "r_paintMode (invalidate b rdr) = r_paintMode rdr"
  "r_compositeRule (invalidate b rdr) = r_compositeRule rdr" "r_maskType (invalidate b rdr) = r_maskType rdr"
  "r_imageType (invalidate b rdr) = r_imageType rdr"
  "r_cred (invalidate b rdr) = r_cred rdr" "r_cgreen (invalidate b rdr) = r_cgreen rdr"
  "r_cblue (invalidate b rdr) = r_cblue rdr" "r_calpha (invalidate b rdr) = r_calpha rdr"
  "r_ured (invalidate b rdr) = r_ured rdr" "r_ugreen (invalidate b rdr) = r_ugreen rdr"
  "r_ublue (invalidate b rdr) = r_ublue rdr" "r_ualpha (invalidate b rdr) = r_ualpha rdr"
  by (simp_all add: invalidate_def)

section \<open>The eager specification\<close>

text \<open>The routine a call must reach, from mask type, composite rule and paint mode alone.\<close>

definition rows_for :: "jint \<Rightarrow> jint \<Rightarrow> jint \<Rightarrow> blit_fn" where
  "rows_for mt rule pm =
    (let flat = (pm = PAINT_FLAT_COLOR)
     in if rule = COMPOSITE_CLEAR then BlitSrc8888_pre
        else if rule = COMPOSITE_SRC_OVER then
          (if mt = NO_MASK then (if flat then BlitSrcOver8888_pre else BlitPTSrcOver8888_pre)
           else if mt = ALPHA_MASK then (if flat then BlitSrcOverMask8888_pre else BlitPTSrcOverMask8888_pre)
           else (if flat then BlitSrcOverLCDMask8888_pre else BlitNULL))
        else
          (if mt = NO_MASK then (if flat then BlitSrc8888_pre else BlitPTSrc8888_pre)
           else if mt = ALPHA_MASK then (if flat then BlitSrcMask8888_pre else BlitPTSrcMask8888_pre)
           else BlitNULL))"

definition line_for :: "jint \<Rightarrow> jint \<Rightarrow> emit_fn" where
  "line_for rule pm =
    (let flat = (pm = PAINT_FLAT_COLOR)
     in if rule = COMPOSITE_CLEAR then EmitLineSource8888_pre
        else if rule = COMPOSITE_SRC_OVER
        then (if flat then EmitLineSourceOver8888_pre else EmitLinePTSourceOver8888_pre)
        else (if flat then EmitLineSource8888_pre else EmitLinePTSource8888_pre))"

definition gen_for :: "jint \<Rightarrow> gen_fn" where
  "gen_for pm =
    (if pm = PAINT_FLAT_COLOR then GenNULL else if pm = PAINT_LINEAR_GRADIENT then GenLinearGradientPaint
     else if pm = PAINT_RADIAL_GRADIENT then GenRadialGradientPaint
     else if pm = PAINT_TEXTURE8888 then GenTexturePaint else GenTexturePaintMultiply)"

definition modes_ok :: "jint \<Rightarrow> jint \<Rightarrow> jint \<Rightarrow> bool" where
  "modes_ok mt rule pm \<longleftrightarrow> mt \<in> {0, 1, 2} \<and> rule \<in> {0, 1, 2} \<and> pm \<in> {0, 1, 2, 4, 5}"

section \<open>The invariant of the lazy scheme\<close>

definition surf_fns :: "routines \<Rightarrow> bool" where
  "surf_fns f \<longleftrightarrow>
    bl_SourceOverNoMask f = BlitSrcOver8888_pre \<and> bl_PT_SourceOverNoMask f = BlitPTSrcOver8888_pre \<and>
    bl_SourceNoMask f = BlitSrc8888_pre \<and> bl_PT_SourceNoMask f = BlitPTSrc8888_pre \<and>
    bl_SourceOverMask f = BlitSrcOverMask8888_pre \<and> bl_PT_SourceOverMask f = BlitPTSrcOverMask8888_pre \<and>
    bl_SourceMask f = BlitSrcMask8888_pre \<and> bl_PT_SourceMask f = BlitPTSrcMask8888_pre \<and>
    bl_SourceOverLCDMask f = BlitSrcOverLCDMask8888_pre \<and> bl_PT_SourceOverLCDMask f = BlitNULL \<and>
    bl_SourceLCDMask f = BlitNULL \<and> bl_PT_SourceLCDMask f = BlitNULL \<and>
    bl_Clear f = BlitSrc8888_pre \<and> bl_PT_Clear f = BlitSrc8888_pre \<and> clearRect_fn f = ClearRect8888_any \<and>
    el_Source f = EmitLineSource8888_pre \<and> el_SourceOver f = EmitLineSourceOver8888_pre \<and>
    el_PT_Source f = EmitLinePTSource8888_pre \<and> el_PT_SourceOver f = EmitLinePTSourceOver8888_pre"

text \<open>The pointers of one level, by the value \<open>pm\<close> selects: \<open>0\<close> the flat one, \<open>1\<close> the painted one.\<close>

definition mask_fns :: "jint \<Rightarrow> routines \<Rightarrow> bool" where
  "mask_fns mt f \<longleftrightarrow>
    bl_SourceOver f = rows_for mt COMPOSITE_SRC_OVER 0 \<and> bl_PT_SourceOver f = rows_for mt COMPOSITE_SRC_OVER 1 \<and>
    bl_Source f = rows_for mt COMPOSITE_SRC 0 \<and> bl_PT_Source f = rows_for mt COMPOSITE_SRC 1"

definition comp_fns :: "jint \<Rightarrow> jint \<Rightarrow> routines \<Rightarrow> bool" where
  "comp_fns mt rule f \<longleftrightarrow>
    bl f = rows_for mt rule 0 \<and> bl_PT f = rows_for mt rule 1 \<and> el f = line_for rule 0 \<and> el_PT f = line_for rule 1"

definition paint_fns :: "jint \<Rightarrow> jint \<Rightarrow> jint \<Rightarrow> routines \<Rightarrow> bool" where
  "paint_fns mt rule pm f \<longleftrightarrow> emitRows f = rows_for mt rule pm \<and> emitLine f = line_for rule pm \<and> genPaint f = gen_for pm"

definition colour_ok :: "'f renderer \<Rightarrow> bool" where
  "colour_ok rdr \<longleftrightarrow>
    (r_cred rdr, r_cgreen rdr, r_cblue rdr, r_calpha rdr) =
    (if r_compositeRule rdr = COMPOSITE_CLEAR then (0, 0, 0, 0)
     else (r_ured rdr, r_ugreen rdr, r_ublue rdr, r_ualpha rdr))"

definition rinv :: "'f renderer \<Rightarrow> bool" where
  "rinv rdr \<longleftrightarrow>
    modes_ok (r_maskType rdr) (r_compositeRule rdr) (r_paintMode rdr) \<and>
    (r_imageType rdr = TYPE_INT_ARGB_PRE \<longrightarrow>
       surf_fns (r_fns rdr) \<and>
       (\<not> pending rdr 7 \<longrightarrow> mask_fns (r_maskType rdr) (r_fns rdr)) \<and>
       (\<not> pending rdr 7 \<longrightarrow> \<not> pending rdr 5 \<longrightarrow> comp_fns (r_maskType rdr) (r_compositeRule rdr) (r_fns rdr)) \<and>
       (\<not> pending rdr 7 \<longrightarrow> \<not> pending rdr 5 \<longrightarrow> \<not> pending rdr 6 \<longrightarrow>
          paint_fns (r_maskType rdr) (r_compositeRule rdr) (r_paintMode rdr) (r_fns rdr))) \<and>
    (\<not> pending rdr 3 \<longrightarrow> colour_ok rdr)"

section \<open>What the switches establish\<close>

lemma surface_switch_fns: "surf_fns (surface_switch TYPE_INT_ARGB_PRE f)"
  by (simp add: surface_switch_def surf_fns_def)

lemma mask_switch_fns:
  "surf_fns (mask_switch mt f) = surf_fns f"
  "surf_fns f \<Longrightarrow> mt \<in> {0, 1, 2} \<Longrightarrow> mask_fns mt (mask_switch mt f)"
  by (auto simp: mask_switch_def surf_fns_def mask_fns_def rows_for_def pisces_consts)

lemma composite_switch_fns:
  "surf_fns (composite_switch rule f) = surf_fns f"
  "mask_fns mt (composite_switch rule f) = mask_fns mt f"
  "surf_fns f \<Longrightarrow> mask_fns mt f \<Longrightarrow> rule \<in> {0, 1, 2} \<Longrightarrow> comp_fns mt rule (composite_switch rule f)"
  by (auto simp: composite_switch_def surf_fns_def mask_fns_def comp_fns_def rows_for_def line_for_def pisces_consts)

lemma paint_switch_fns:
  "surf_fns (paint_switch pm f) = surf_fns f"
  "mask_fns mt (paint_switch pm f) = mask_fns mt f"
  "comp_fns mt rule (paint_switch pm f) = comp_fns mt rule f"
  "comp_fns mt rule f \<Longrightarrow> pm \<in> {0, 1, 2, 4, 5} \<Longrightarrow> paint_fns mt rule pm (paint_switch pm f)"
  by (auto simp: paint_switch_def surf_fns_def mask_fns_def comp_fns_def paint_fns_def rows_for_def line_for_def
      gen_for_def pisces_consts)

lemmas switch_fns = mask_switch_fns composite_switch_fns paint_switch_fns

section \<open>What the update routines establish\<close>

text \<open>Their effect: the pointers go through the switches, the bits are cleared, the rest is kept.\<close>

lemma paint_update:
  "updatePaintDependedRoutines rdr = rdr\<lparr>r_fns := paint_switch (r_paintMode rdr) (r_fns rdr),
     r_rendererState := r_rendererState (updatePaintDependedRoutines rdr)\<rparr>"
  "pending (updatePaintDependedRoutines rdr) n \<longleftrightarrow> pending rdr n \<and> n \<noteq> 6"
  by (simp add: updatePaintDependedRoutines_def validate_def)
     (simp add: updatePaintDependedRoutines_def bit_consts)

lemma composite_update:
  "updateCompositeDependedRoutines rdr = rdr\<lparr>r_fns := paint_switch (r_paintMode rdr) (composite_switch (r_compositeRule rdr) (r_fns rdr)),
     r_rendererState := r_rendererState (updateCompositeDependedRoutines rdr)\<rparr>"
  "pending (updateCompositeDependedRoutines rdr) n \<longleftrightarrow> pending rdr n \<and> n \<noteq> 6 \<and> n \<noteq> 5"
  by (simp add: updateCompositeDependedRoutines_def validate_def updatePaintDependedRoutines_def)
     (simp add: updateCompositeDependedRoutines_def bit_consts paint_update(2))

lemma mask_update:
  "updateMaskDependedRoutines rdr = rdr\<lparr>r_fns := paint_switch (r_paintMode rdr) (composite_switch (r_compositeRule rdr)
       (mask_switch (r_maskType rdr) (r_fns rdr))),
     r_rendererState := r_rendererState (updateMaskDependedRoutines rdr)\<rparr>"
  "pending (updateMaskDependedRoutines rdr) n \<longleftrightarrow> pending rdr n \<and> n \<noteq> 6 \<and> n \<noteq> 5 \<and> n \<noteq> 7"
  by (simp add: updateMaskDependedRoutines_def updateCompositeDependedRoutines_def validate_def updatePaintDependedRoutines_def)
     (simp add: updateMaskDependedRoutines_def bit_consts composite_update(2))

text \<open>The parts of the renderer that the invariant speaks of.\<close>

definition core :: "'f renderer \<Rightarrow> 'f renderer \<Rightarrow> bool" where
  "core a b \<longleftrightarrow> r_maskType b = r_maskType a \<and> r_compositeRule b = r_compositeRule a \<and> r_paintMode b = r_paintMode a \<and>
     r_imageType b = r_imageType a \<and> (colour_ok b \<longleftrightarrow> colour_ok a)"

lemma core_update:
  "core rdr (updatePaintDependedRoutines rdr)" "core rdr (updateCompositeDependedRoutines rdr)"
  "core rdr (updateMaskDependedRoutines rdr)"
  by (subst paint_update(1), simp add: core_def colour_ok_def)
     (subst composite_update(1), simp add: core_def colour_ok_def,
      subst mask_update(1), simp add: core_def colour_ok_def)

lemma rinv_paint:
  assumes "rinv rdr" "\<not> pending rdr 5" "\<not> pending rdr 7"
  shows "rinv (updatePaintDependedRoutines rdr)"
proof -
  have f: "r_fns (updatePaintDependedRoutines rdr) = paint_switch (r_paintMode rdr) (r_fns rdr)"
    by (subst paint_update(1)) simp
  show ?thesis using assms core_update(1) [of rdr]
    by (auto simp: rinv_def core_def f paint_update(2) switch_fns modes_ok_def)
qed

lemma rinv_composite:
  assumes "rinv rdr" "\<not> pending rdr 7"
  shows "rinv (updateCompositeDependedRoutines rdr)"
proof -
  have f: "r_fns (updateCompositeDependedRoutines rdr)
      = paint_switch (r_paintMode rdr) (composite_switch (r_compositeRule rdr) (r_fns rdr))"
    by (subst composite_update(1)) simp
  show ?thesis using assms core_update(2) [of rdr]
    by (auto simp: rinv_def core_def f composite_update(2) switch_fns modes_ok_def)
qed

lemma rinv_mask:
  assumes "modes_ok (r_maskType rdr) (r_compositeRule rdr) (r_paintMode rdr)"
    and "r_imageType rdr = TYPE_INT_ARGB_PRE \<longrightarrow> surf_fns (r_fns rdr)" and "\<not> pending rdr 3 \<longrightarrow> colour_ok rdr"
  shows "rinv (updateMaskDependedRoutines rdr)"
proof -
  have f: "r_fns (updateMaskDependedRoutines rdr) = paint_switch (r_paintMode rdr) (composite_switch (r_compositeRule rdr)
       (mask_switch (r_maskType rdr) (r_fns rdr)))"
    by (subst mask_update(1)) simp
  show ?thesis using assms core_update(3) [of rdr]
    by (auto simp: rinv_def core_def f mask_update(2) switch_fns modes_ok_def)
qed

lemma rinv_core:
  assumes "rinv rdr" "core rdr b" "r_fns b = r_fns rdr" "\<And>n. pending rdr n \<Longrightarrow> n \<noteq> 4 \<Longrightarrow> pending b n"
  shows "rinv b"
  using assms(1-3) assms(4) [of 3] assms(4) [of 5] assms(4) [of 6] assms(4) [of 7]
  by (auto simp: rinv_def core_def)

lemma surface_update:
  assumes "rinv rdr"
  shows "rinv (updateRendererSurface s rdr)" "r_imageType (updateRendererSurface s rdr) = s_imageType s"
    "pending (updateRendererSurface s rdr) n \<Longrightarrow> n \<noteq> 0 \<Longrightarrow> n \<noteq> 1 \<Longrightarrow> pending rdr n \<and> n \<noteq> 4"
proof -
  define r1 where "r1 = rdr\<lparr>r_width := s_width s, r_height := s_height s, r_data := s_data s,
      r_imageOffset := s_offset s, r_imageScanlineStride := s_scanlineStride s, r_imagePixelStride := s_pixelStride s\<rparr>"
  define r2 where "r2 = (if r_compositeRule r1 \<noteq> COMPOSITE_SRC_OVER \<and> s_imageType s = TYPE_INT_ARGB_PRE
      then invalidate (INVALID_COLOR_ALPHA_MAP OR INVALID_PAINT_ALPHA_MAP) r1 else r1)"
  define r3 where "r3 = r2\<lparr>r_imageType := s_imageType s, r_fns := surface_switch (s_imageType s) (r_fns rdr)\<rparr>"
  have f2: "r_fns r2 = r_fns rdr" by (simp add: r2_def r1_def)
  have u: "updateRendererSurface s rdr = validate INVALID_RENDERER_SURFACE
      (if r_imageType rdr \<noteq> s_imageType s then updateMaskDependedRoutines r3 else r1)"
    by (simp add: updateRendererSurface_def updateSurfaceDependedRoutines_def Let_def r3_def r2_def r1_def
        invalidate_def)
  have c1: "core rdr r1" "r_fns r1 = r_fns rdr" "\<And>n. pending r1 n = pending rdr n"
    by (simp_all add: core_def r1_def colour_ok_def)
  have p3: "pending r3 n \<Longrightarrow> n = 0 \<or> n = 1 \<or> pending rdr n" "pending rdr n \<Longrightarrow> pending r3 n" for n
    by (auto simp: r3_def r2_def c1 bit_consts bit_or_iff split: if_splits)
  have m3: "r_maskType r3 = r_maskType rdr" "r_compositeRule r3 = r_compositeRule rdr" "r_paintMode r3 = r_paintMode rdr"
    "colour_ok r3 = colour_ok rdr" "r_imageType r3 = s_imageType s"
    by (simp_all add: r3_def r2_def r1_def colour_ok_def)
  have "rinv (updateMaskDependedRoutines r3)"
  proof (rule rinv_mask)
    show "modes_ok (r_maskType r3) (r_compositeRule r3) (r_paintMode r3)" using assms by (simp add: m3 rinv_def)
    show "r_imageType r3 = TYPE_INT_ARGB_PRE \<longrightarrow> surf_fns (r_fns r3)"
      by (auto simp: m3) (simp add: r3_def surface_switch_fns)
    show "\<not> pending r3 3 \<longrightarrow> colour_ok r3" using assms p3(2) [of 3] by (auto simp: m3 rinv_def)
  qed
  moreover have "rinv r1" using rinv_core [OF assms c1(1,2)] c1(3) by simp
  moreover have "rinv (validate INVALID_RENDERER_SURFACE r)" if "rinv r" for r :: "'a renderer"
    by (rule rinv_core [OF that]) (auto simp: core_def colour_ok_def bit_consts)
  ultimately show "rinv (updateRendererSurface s rdr)" unfolding u by simp
  have "r_imageType (updateMaskDependedRoutines r3) = s_imageType s"
    using core_update(3) [of r3] m3 by (simp add: core_def)
  then show "r_imageType (updateRendererSurface s rdr) = s_imageType s"
    unfolding u by (simp add: r1_def)
  show "pending rdr n \<and> n \<noteq> 4" if "pending (updateRendererSurface s rdr) n" "n \<noteq> 0" "n \<noteq> 1"
    using that p3(1) [of n] unfolding u by (auto simp: bit_consts mask_update(2) c1 split: if_splits)
qed

lemma colour_update:
  assumes "rinv rdr"
  shows "rinv (updateInternalColor rdr)" "pending (updateInternalColor rdr) n \<longleftrightarrow> pending rdr n \<and> n \<noteq> 3"
    "r_imageType (updateInternalColor rdr) = r_imageType rdr"
proof -
  define b where "b = updateInternalColor rdr"
  have p: "pending b n \<longleftrightarrow> pending rdr n \<and> n \<noteq> 3" for n
    by (auto simp: b_def updateInternalColor_def bit_consts)
  then show "pending (updateInternalColor rdr) n \<longleftrightarrow> pending rdr n \<and> n \<noteq> 3" by (simp add: b_def)
  have m: "r_maskType b = r_maskType rdr" "r_compositeRule b = r_compositeRule rdr" "r_paintMode b = r_paintMode rdr"
    "r_imageType b = r_imageType rdr" "r_fns b = r_fns rdr" "colour_ok b"
    by (auto simp: b_def updateInternalColor_def colour_ok_def)
  show "rinv (updateInternalColor rdr)"
    using assms m p unfolding b_def [symmetric] rinv_def by simp
  show "r_imageType (updateInternalColor rdr) = r_imageType rdr" using m(4) by (simp add: b_def)
qed

text \<open>
  After a validation no bit of the mask is set, the invariant holds, and the surface has been
  taken over if it was marked.
\<close>

lemma validate_blitting:
  fixes s :: surface
  assumes "rinv rdr"
  defines "v \<equiv> VALIDATE_BLITTING s rdr"
  shows "rinv v" "\<And>n. 3 \<le> n \<Longrightarrow> n \<le> 7 \<Longrightarrow> \<not> pending v n"
    "r_imageType v = (if pending rdr 4 then s_imageType s else r_imageType rdr)"
proof -
  define r1 where "r1 = (if pending rdr 4 then updateRendererSurface s rdr else rdr)"
  define r2 where "r2 = (if pending rdr 3 then updateInternalColor r1 else r1)"
  have i1: "rinv r1" "r_imageType r1 = (if pending rdr 4 then s_imageType s else r_imageType rdr)"
    using surface_update(1,2) [OF assms(1), of s] assms(1) by (auto simp: r1_def)
  have p1: "pending r1 n \<Longrightarrow> 3 \<le> n \<Longrightarrow> pending rdr n \<and> n \<noteq> 4" for n
    using surface_update(3) [OF assms(1), of s n] by (auto simp: r1_def split: if_splits)
  have i2: "rinv r2" "r_imageType r2 = r_imageType r1" using colour_update [OF i1(1)] i1 by (auto simp: r2_def)
  have p2: "pending r2 n \<Longrightarrow> 3 \<le> n \<Longrightarrow> pending rdr n \<and> n \<noteq> 4 \<and> n \<noteq> 3" for n
    using p1 [of n] colour_update(2) [OF i1(1), of n] by (auto simp: r2_def split: if_splits)
  have v: "v = (if pending rdr 7 then updateMaskDependedRoutines r2
      else if pending rdr 5 then updateCompositeDependedRoutines r2
      else if pending rdr 6 then updatePaintDependedRoutines r2 else r2)"
    by (auto simp: v_def VALIDATE_BLITTING_def Let_def state_bits blitting_mask r2_def r1_def)
  have "rinv (updateMaskDependedRoutines r2)" using i2(1) by (intro rinv_mask) (auto simp: rinv_def)
  moreover have "rinv (updateCompositeDependedRoutines r2)" if "\<not> pending rdr 7"
    using p2 [of 7] that by (intro rinv_composite i2) auto
  moreover have "rinv (updatePaintDependedRoutines r2)" if "\<not> pending rdr 7" "\<not> pending rdr 5"
    using p2 [of 7] p2 [of 5] that by (intro rinv_paint i2) auto
  ultimately show "rinv v" using i2(1) unfolding v by auto
  show "\<not> pending v n" if "3 \<le> n" "n \<le> 7" for n
  proof -
    have "n = 3 \<or> n = 4 \<or> n = 5 \<or> n = 6 \<or> n = 7" using that by auto
    then show ?thesis using p2 [of n] that unfolding v
      by (auto simp: mask_update(2) composite_update(2) paint_update(2))
  qed
  show "r_imageType v = (if pending rdr 4 then s_imageType s else r_imageType rdr)"
    using core_update [of r2] i2(2) i1(2) unfolding v core_def by auto
qed


section \<open>The operations of a renderer\<close>

text \<open>A renderer is created and then changed by its operations in any order.\<close>

inductive rstep :: "'f float_ops \<Rightarrow> 'f renderer \<Rightarrow> 'f renderer \<Rightarrow> bool" for fo where
  step_clip: "rstep fo rdr (renderer_setClip rdr x y w h)"
| step_color: "rstep fo rdr (renderer_setColor rdr r g b a)"
| step_rule: "rule \<in> {0, 1, 2} \<Longrightarrow> rstep fo rdr (renderer_setCompositeRule rdr rule)"
| step_linear: "renderer_setLinearGradient fo rdr x0 y0 x1 y1 cs t = Some rdr' \<Longrightarrow> rstep fo rdr rdr'"
| step_radial: "renderer_setRadialGradient fo c1 c2 rdr cx cy fx fy rad cs t = Some rdr' \<Longrightarrow> rstep fo rdr rdr'"
| step_texture: "rstep fo rdr (renderer_setTexture fo rdr mode d o' w h st rp sm t fr al x0 y0 x1 y1)"
| step_mask: "mt \<in> {0, 1, 2} \<Longrightarrow> rstep fo rdr (renderer_setMask rdr mt d w h fr)"
| step_unmask: "rstep fo rdr (renderer_removeMask rdr)"
| step_surface: "rstep fo rdr (invalidate INVALID_RENDERER_SURFACE rdr)"
| step_validate: "rstep fo rdr (VALIDATE_BLITTING s rdr)"

inductive reachable :: "'f float_ops \<Rightarrow> 'f renderer \<Rightarrow> bool" for fo where
  reach_create: "createCommon fo True s = Some rdr \<Longrightarrow> reachable fo rdr"
| reach_step: "reachable fo rdr \<Longrightarrow> rstep fo rdr rdr' \<Longrightarrow> reachable fo rdr'"

text \<open>An operation keeps the invariant if it marks what depends on the mode it changes.\<close>

lemma rinv_weaken:
  assumes "rinv rdr" "modes_ok (r_maskType b) (r_compositeRule b) (r_paintMode b)"
    and "r_imageType b = r_imageType rdr" "r_fns b = r_fns rdr"
    and "\<And>n. n \<in> {3, 5, 6, 7} \<Longrightarrow> pending rdr n \<Longrightarrow> pending b n"
    and "r_maskType b = r_maskType rdr \<or> pending b 7" "r_compositeRule b = r_compositeRule rdr \<or> pending b 5"
    and "r_paintMode b = r_paintMode rdr \<or> pending b 6" "\<not> pending b 3 \<Longrightarrow> colour_ok b"
  shows "rinv b"
proof -
  have p: "pending rdr 5 \<Longrightarrow> pending b 5" "pending rdr 6 \<Longrightarrow> pending b 6" "pending rdr 7 \<Longrightarrow> pending b 7"
    using assms(5) by simp_all
  have m: "mask_fns (r_maskType b) (r_fns b)" if "r_imageType b = TYPE_INT_ARGB_PRE" "\<not> pending b 7"
    using assms(1,3,4,6) p(3) that unfolding rinv_def by metis
  have c: "comp_fns (r_maskType b) (r_compositeRule b) (r_fns b)"
    if "r_imageType b = TYPE_INT_ARGB_PRE" "\<not> pending b 7" "\<not> pending b 5"
    using assms(1,3,4,6,7) p(1,3) that unfolding rinv_def by metis
  have q: "paint_fns (r_maskType b) (r_compositeRule b) (r_paintMode b) (r_fns b)"
    if "r_imageType b = TYPE_INT_ARGB_PRE" "\<not> pending b 7" "\<not> pending b 5" "\<not> pending b 6"
    using assms(1,3,4,6,7,8) p that unfolding rinv_def by metis
  show ?thesis using assms(1-4,9) m c q unfolding rinv_def by simp
qed

lemma rinv_setPaintMode:
  assumes "rinv rdr" "pm \<in> {0, 1, 2, 4, 5}"
  shows "rinv (setPaintMode pm rdr)"
proof (cases "r_paintMode rdr = pm")
  case False
  define b where "b = setPaintMode pm rdr"
  have f: "r_maskType b = r_maskType rdr" "r_compositeRule b = r_compositeRule rdr" "r_paintMode b = pm"
    "r_imageType b = r_imageType rdr" "r_fns b = r_fns rdr" "colour_ok b = colour_ok rdr"
    "\<And>n. pending b n \<longleftrightarrow> pending rdr n \<or> n = 6"
    using False by (simp_all add: b_def setPaintMode_def invalidate_def colour_ok_def bit_or_iff bit_consts)
  show ?thesis unfolding b_def [symmetric]
    by (rule rinv_weaken [OF assms(1)]) (use assms f in \<open>simp_all add: rinv_def modes_ok_def\<close>)
qed (use assms in \<open>simp add: setPaintMode_def\<close>)

lemma rinv_same:
  assumes "rinv rdr" "r_maskType b = r_maskType rdr" "r_compositeRule b = r_compositeRule rdr"
    "r_paintMode b = r_paintMode rdr" "r_imageType b = r_imageType rdr" "r_fns b = r_fns rdr"
    "r_rendererState b = r_rendererState rdr" "colour_ok b = colour_ok rdr"
  shows "rinv b"
  using assms by (simp add: rinv_def)

lemma rinv_upd:
  assumes "rinv rdr"
  shows "rinv (rdr\<lparr>r_gradient := g\<rparr>)" "rinv (rdr\<lparr>r_texture := t\<rparr>)" "rinv (rdr\<lparr>r_paint_transform := m\<rparr>)"
  by (rule rinv_same [OF assms]; simp add: colour_ok_def)+

lemma rinv_gradient:
  assumes "rinv rdr"
  shows "renderer_setLinearGradient fo rdr x0 y0 x1 y1 cs t = Some rdr' \<Longrightarrow> rinv rdr'"
    and "renderer_setRadialGradient fo c1 c2 rdr cx cy fx fy rad cs t = Some rdr' \<Longrightarrow> rinv rdr'"
  by (auto simp: renderer_setLinearGradient_def renderer_setRadialGradient_def Let_def bind_eq_Some_conv pisces_consts
      split: prod.splits intro!: rinv_upd rinv_setPaintMode assms)

lemma rinv_mask_ops:
  assumes "rinv rdr"
  shows "mt \<in> {0, 1, 2} \<Longrightarrow> rinv (renderer_setMask rdr mt d w h fr)" "rinv (renderer_removeMask rdr)"
  by (rule rinv_weaken [OF assms];
      use assms in \<open>simp add: rinv_def modes_ok_def renderer_setMask_def renderer_removeMask_def bit_masks bit_or_iff
        pisces_consts\<close>)+

lemma rinv_setColor:
  assumes "rinv rdr"
  shows "rinv (renderer_setColor rdr r g b a)"
proof -
  let ?c = "r_ured rdr \<noteq> r \<or> r_ugreen rdr \<noteq> g \<or> r_ublue rdr \<noteq> b \<or> r_ualpha rdr \<noteq> a"
  define u where "u = (let rdr = invalidate INVALID_INTERNAL_COLOR rdr;
      rdr = (if r_ualpha rdr \<noteq> a then invalidate (INVALID_COLOR_ALPHA_MAP OR INVALID_PAINT_ALPHA_MAP) rdr else rdr)
      in rdr\<lparr>r_ured := r, r_ugreen := g, r_ublue := b, r_ualpha := a\<rparr>)"
  have f: "r_maskType u = r_maskType rdr" "r_compositeRule u = r_compositeRule rdr" "r_paintMode u = r_paintMode rdr"
    "r_imageType u = r_imageType rdr" "r_fns u = r_fns rdr" "pending u 3" "\<And>n. pending rdr n \<Longrightarrow> pending u n"
    by (auto simp: u_def Let_def bit_consts bit_or_iff)
  have "rinv u"
    by (rule rinv_weaken [OF assms]) (use assms f in \<open>simp_all add: rinv_def\<close>)
  moreover have "renderer_setColor rdr r g b a = setPaintMode PAINT_FLAT_COLOR (if ?c then u else rdr)"
    by (simp add: renderer_setColor_def u_def)
  ultimately show ?thesis using assms by (simp add: rinv_setPaintMode pisces_consts)
qed

lemma rinv_setCompositeRule:
  assumes "rinv rdr" "rule \<in> {0, 1, 2}"
  shows "rinv (renderer_setCompositeRule rdr rule)"
proof (cases "r_compositeRule rdr = rule")
  case False
  define u where "u = renderer_setCompositeRule rdr rule"
  have f: "r_maskType u = r_maskType rdr" "r_compositeRule u = rule" "r_paintMode u = r_paintMode rdr"
    "r_imageType u = r_imageType rdr" "r_fns u = r_fns rdr" "pending u 3" "pending u 5" "\<And>n. pending rdr n \<Longrightarrow> pending u n"
    using False by (auto simp: u_def renderer_setCompositeRule_def Let_def bit_consts bit_or_iff)
  show ?thesis unfolding u_def [symmetric]
    by (rule rinv_weaken [OF assms(1)]) (use assms f in \<open>simp_all add: rinv_def modes_ok_def\<close>)
qed (use assms in \<open>simp add: renderer_setCompositeRule_def\<close>)

lemma rinv_step:
  assumes "rstep fo rdr rdr'" "rinv rdr"
  shows "rinv rdr'"
  using assms(1)
proof cases
  case (step_clip x y w h)
  show ?thesis unfolding step_clip
    by (rule rinv_same [OF assms(2)]) (simp_all add: renderer_setClip_def colour_ok_def)
next
  case (step_color r g b a)
  show ?thesis unfolding step_color by (rule rinv_setColor [OF assms(2)])
next
  case (step_rule rule)
  then show ?thesis using rinv_setCompositeRule [OF assms(2)] by simp
next
  case step_linear
  then show ?thesis by (rule rinv_gradient(1) [OF assms(2)])
next
  case step_radial
  then show ?thesis by (rule rinv_gradient(2) [OF assms(2)])
next
  case step_texture
  then show ?thesis unfolding step_texture renderer_setTexture_def Let_def
    by (intro rinv_upd rinv_setPaintMode assms(2)) (auto simp: pisces_consts)
next
  case step_mask
  then show ?thesis using rinv_mask_ops(1) [OF assms(2)] by simp
next
  case step_unmask
  then show ?thesis using rinv_mask_ops(2) [OF assms(2)] by simp
next
  case step_surface
  show ?thesis unfolding step_surface
    by (rule rinv_core [OF assms(2)]) (auto simp: core_def colour_ok_def)
next
  case step_validate
  then show ?thesis using validate_blitting(1) [OF assms(2)] by simp
qed

lemma rinv_create: "createCommon fo True s = Some rdr \<Longrightarrow> rinv rdr"
  by (auto simp: createCommon_def rinv_def modes_ok_def pisces_consts bit_masks)

lemma reachable_rinv: "reachable fo rdr \<Longrightarrow> rinv rdr"
  by (induction rule: reachable.induct) (auto intro: rinv_create rinv_step)

text \<open>The core of the dispatch: what the pointers are after a validation.\<close>

lemma validated_routines:
  assumes "rinv rdr" "v = VALIDATE_BLITTING s rdr" "r_imageType v = TYPE_INT_ARGB_PRE"
  shows "emitRows (r_fns v) = rows_for (r_maskType v) (r_compositeRule v) (r_paintMode v)"
    "emitLine (r_fns v) = line_for (r_compositeRule v) (r_paintMode v)"
    "genPaint (r_fns v) = gen_for (r_paintMode v)" "clearRect_fn (r_fns v) = ClearRect8888_any" "colour_ok v"
  using validate_blitting(1,2) [OF assms(1), where s = s] assms(3) unfolding assms(2) [symmetric]
  by (auto simp: rinv_def paint_fns_def surf_fns_def)

section \<open>What a validation keeps\<close>

text \<open>The members that a validation never changes.\<close>

definition same_settings :: "'f renderer \<Rightarrow> 'f renderer \<Rightarrow> bool" where
  "same_settings a b \<longleftrightarrow>
     r_compositeRule b = r_compositeRule a \<and> r_paintMode b = r_paintMode a \<and> r_maskType b = r_maskType a \<and>
     r_ured b = r_ured a \<and> r_ugreen b = r_ugreen a \<and> r_ublue b = r_ublue a \<and> r_ualpha b = r_ualpha a \<and>
     r_clip_bbMinX b = r_clip_bbMinX a \<and> r_clip_bbMinY b = r_clip_bbMinY a \<and>
     r_clip_bbMaxX b = r_clip_bbMaxX a \<and> r_clip_bbMaxY b = r_clip_bbMaxY a \<and>
     r_paint b = r_paint a \<and> r_gradient b = r_gradient a \<and> r_texture b = r_texture a"

definition same_surface :: "'f renderer \<Rightarrow> 'f renderer \<Rightarrow> bool" where
  "same_surface a b \<longleftrightarrow>
     r_data b = r_data a \<and> r_width b = r_width a \<and> r_height b = r_height a \<and> r_imageOffset b = r_imageOffset a \<and>
     r_imageScanlineStride b = r_imageScanlineStride a \<and> r_imagePixelStride b = r_imagePixelStride a"

lemma same_trans:
  "same_settings a b \<Longrightarrow> same_settings b c \<Longrightarrow> same_settings a c"
  "same_surface a b \<Longrightarrow> same_surface b c \<Longrightarrow> same_surface a c"
  by (simp_all add: same_settings_def same_surface_def)

lemma same_routines:
  "same_settings rdr (updatePaintDependedRoutines rdr)" "same_surface rdr (updatePaintDependedRoutines rdr)"
  "same_settings rdr (updateCompositeDependedRoutines rdr)" "same_surface rdr (updateCompositeDependedRoutines rdr)"
  "same_settings rdr (updateMaskDependedRoutines rdr)" "same_surface rdr (updateMaskDependedRoutines rdr)"
  by (subst paint_update(1), simp add: same_settings_def)
     (subst paint_update(1), simp add: same_surface_def,
      subst composite_update(1), simp add: same_settings_def, subst composite_update(1), simp add: same_surface_def,
      subst mask_update(1), simp add: same_settings_def, subst mask_update(1), simp add: same_surface_def)

lemma same_colour: "same_settings rdr (updateInternalColor rdr)" "same_surface rdr (updateInternalColor rdr)"
  by (simp_all add: updateInternalColor_def validate_def same_settings_def same_surface_def)

lemma surface_taken:
  "same_settings rdr (updateRendererSurface s rdr)"
  "r_data (updateRendererSurface s rdr) = s_data s \<and> r_width (updateRendererSurface s rdr) = s_width s \<and>
   r_height (updateRendererSurface s rdr) = s_height s \<and> r_imageOffset (updateRendererSurface s rdr) = s_offset s \<and>
   r_imageScanlineStride (updateRendererSurface s rdr) = s_scanlineStride s \<and>
   r_imagePixelStride (updateRendererSurface s rdr) = s_pixelStride s"
proof -
  define r1 where "r1 = rdr\<lparr>r_width := s_width s, r_height := s_height s, r_data := s_data s,
      r_imageOffset := s_offset s, r_imageScanlineStride := s_scanlineStride s, r_imagePixelStride := s_pixelStride s\<rparr>"
  define r2 where "r2 = (if r_compositeRule r1 \<noteq> COMPOSITE_SRC_OVER \<and> s_imageType s = TYPE_INT_ARGB_PRE
      then invalidate (INVALID_COLOR_ALPHA_MAP OR INVALID_PAINT_ALPHA_MAP) r1 else r1)"
  define r3 where "r3 = r2\<lparr>r_imageType := s_imageType s, r_fns := surface_switch (s_imageType s) (r_fns r2)\<rparr>"
  have u: "updateRendererSurface s rdr = validate INVALID_RENDERER_SURFACE
      (if r_imageType r1 \<noteq> s_imageType s then updateMaskDependedRoutines r3 else r1)"
    by (simp add: updateRendererSurface_def updateSurfaceDependedRoutines_def Let_def r3_def r2_def r1_def)
  have s1: "same_settings rdr r1" by (simp add: r1_def same_settings_def)
  have s3: "same_settings r1 r3" "same_surface r1 r3"
    by (simp_all add: r3_def r2_def invalidate_def same_settings_def same_surface_def)
  define r4 where "r4 = (if r_imageType r1 \<noteq> s_imageType s then updateMaskDependedRoutines r3 else r1)"
  have s4: "same_settings r1 r4" "same_surface r1 r4"
    using same_trans(1) [OF s3(1) same_routines(5)] same_trans(2) [OF s3(2) same_routines(6)]
    by (simp_all add: r4_def) (simp_all add: same_settings_def same_surface_def)
  have s5: "same_settings r4 (validate b r4)" "same_surface r4 (validate b r4)" for b
    by (simp_all add: validate_def same_settings_def same_surface_def)
  show "same_settings rdr (updateRendererSurface s rdr)"
    unfolding u r4_def [symmetric] using same_trans(1) [OF s1 same_trans(1) [OF s4(1) s5(1)]] .
  have "same_surface r1 (updateRendererSurface s rdr)"
    unfolding u r4_def [symmetric] using same_trans(2) [OF s4(2) s5(2)] .
  then show "r_data (updateRendererSurface s rdr) = s_data s \<and> r_width (updateRendererSurface s rdr) = s_width s \<and>
   r_height (updateRendererSurface s rdr) = s_height s \<and> r_imageOffset (updateRendererSurface s rdr) = s_offset s \<and>
   r_imageScanlineStride (updateRendererSurface s rdr) = s_scanlineStride s \<and>
   r_imagePixelStride (updateRendererSurface s rdr) = s_pixelStride s"
    by (simp add: same_surface_def r1_def)
qed

lemma validate_keeps:
  fixes rdr :: "'f renderer" and s :: surface
  shows "same_settings rdr (VALIDATE_BLITTING s rdr)"
    and "pending rdr 4 \<Longrightarrow> same_surface (updateRendererSurface s rdr) (VALIDATE_BLITTING s rdr)"
proof -
  define r1 where "r1 = (if pending rdr 4 then updateRendererSurface s rdr else rdr)"
  define r2 where "r2 = (if pending rdr 3 then updateInternalColor r1 else r1)"
  have id: "same_settings r r" "same_surface r r" for r :: "'f renderer"
    by (simp_all add: same_settings_def same_surface_def)
  have v: "VALIDATE_BLITTING s rdr = (if pending rdr 7 then updateMaskDependedRoutines r2
      else if pending rdr 5 then updateCompositeDependedRoutines r2
      else if pending rdr 6 then updatePaintDependedRoutines r2 else r2)"
    by (auto simp: VALIDATE_BLITTING_def Let_def state_bits blitting_mask r2_def r1_def)
  have s1: "same_settings rdr r1" using surface_taken(1) [of rdr s] by (simp add: r1_def id)
  have s2: "same_settings r1 r2" "same_surface r1 r2" using same_colour [of r1] by (simp_all add: r2_def id)
  have s3: "same_settings r2 (VALIDATE_BLITTING s rdr)" "same_surface r2 (VALIDATE_BLITTING s rdr)"
    using same_routines [of r2] unfolding v by (simp_all add: id)
  show "same_settings rdr (VALIDATE_BLITTING s rdr)" using same_trans(1) [OF s1 same_trans(1) [OF s2(1) s3(1)]] .
  show "pending rdr 4 \<Longrightarrow> same_surface (updateRendererSurface s rdr) (VALIDATE_BLITTING s rdr)"
    using same_trans(2) [OF s2(2) s3(2)] by (simp add: r1_def)
qed

text \<open>The frame in which a drawing method emits: the surface is marked, then validated.\<close>

lemma validated_surface:
  fixes rdr :: "'f renderer" and s :: surface
  defines "v \<equiv> VALIDATE_BLITTING s (invalidate INVALID_RENDERER_SURFACE rdr)"
  shows "r_data v = s_data s" "r_width v = s_width s" "r_height v = s_height s" "r_imageOffset v = s_offset s"
    "r_imageScanlineStride v = s_scanlineStride s" "r_imagePixelStride v = s_pixelStride s" "same_settings rdr v"
proof -
  let ?i = "invalidate INVALID_RENDERER_SURFACE rdr"
  have "pending ?i 4" by (simp add: bit_consts)
  from validate_keeps(2) [OF this, of s] surface_taken(2) [of s ?i]
  show "r_data v = s_data s" "r_width v = s_width s" "r_height v = s_height s" "r_imageOffset v = s_offset s"
    "r_imageScanlineStride v = s_scanlineStride s" "r_imagePixelStride v = s_pixelStride s"
    by (simp_all add: same_surface_def v_def)
  have "same_settings rdr ?i" by (simp add: invalidate_def same_settings_def)
  then show "same_settings rdr v" using same_trans(1) validate_keeps(1) unfolding v_def by blast
qed

lemma validated_routines_surface:
  fixes rdr :: "'f renderer" and s :: surface
  defines "v \<equiv> VALIDATE_BLITTING s (invalidate INVALID_RENDERER_SURFACE rdr)"
  assumes "rinv rdr" "s_imageType s = TYPE_INT_ARGB_PRE"
  shows "emitRows (r_fns v) = rows_for (r_maskType rdr) (r_compositeRule rdr) (r_paintMode rdr)"
    "emitLine (r_fns v) = line_for (r_compositeRule rdr) (r_paintMode rdr)"
    "genPaint (r_fns v) = gen_for (r_paintMode rdr)" "clearRect_fn (r_fns v) = ClearRect8888_any" "colour_ok v" "rinv v"
proof -
  let ?i = "invalidate INVALID_RENDERER_SURFACE rdr"
  have i: "rinv ?i" by (rule rinv_core [OF assms(2)]) (auto simp: core_def colour_ok_def)
  have t: "r_imageType v = TYPE_INT_ARGB_PRE"
    using validate_blitting(3) [OF i, of s] assms(3) by (simp add: v_def bit_consts)
  note r = validated_routines [OF i v_def [THEN meta_eq_to_obj_eq] t]
  have s: "same_settings rdr v" unfolding v_def by (rule validated_surface(7))
  show "emitRows (r_fns v) = rows_for (r_maskType rdr) (r_compositeRule rdr) (r_paintMode rdr)"
    "emitLine (r_fns v) = line_for (r_compositeRule rdr) (r_paintMode rdr)"
    "genPaint (r_fns v) = gen_for (r_paintMode rdr)" "clearRect_fn (r_fns v) = ClearRect8888_any" "colour_ok v"
    using r s by (simp_all add: same_settings_def)
  show "rinv v" unfolding v_def by (rule validate_blitting(1) [OF i])
qed

end
