(* ===== verification/Pisces_JNI.thy ===== *)
theory Pisces_JNI
  imports Pisces_Renderer
begin

text \<open>
  The native methods behind the Java classes of \<open>com.sun.pisces\<close>: \<open>JPiscesRenderer.c\<close>,
  \<open>JAbstractSurface.c\<close>, \<open>JJavaSurface.c\<close>, \<open>JTransform.c\<close>, \<open>JNIUtil.c\<close> and \<open>PiscesSysutils.c\<close>.

  The state is a \<open>world\<close>: the native renderer and surface, the Java array that holds the pixels of the
  surface, the flag of \<open>PiscesSysutils.c\<close> and the pending Java exception. The Java VM is a parameter:
  \<open>jvm\<close> says which calls of it succeed. A null pointer that is dereferenced, an access outside an
  array and \<open>FatalError\<close>, which stops the VM, have no result.

  While a surface is acquired the renderer holds the block of its pixels (\<open>r_data\<close> and
  \<open>surface->data\<close> are the same pointer); the release puts it back into the Java array.
\<close>

section \<open>The world\<close>

datatype jexception = OutOfMemoryError | IllegalStateException | IllegalArgumentException

record 'f world =
  w_rdr :: "'f renderer"
  w_surface :: surface
  w_array :: "jint list"
  w_memerr :: bool
  w_exc :: "jexception option"

text \<open>
  \<open>v_critical k\<close>: whether the call of \<open>GetPrimitiveArrayCritical\<close> (or \<open>GetIntArrayElements\<close>) with number
  \<open>k\<close> in a native method gives a pointer; number 0 is that for the pixels of the surface.
\<close>

record 'f jvm =
  v_genv :: "'f genv"
  v_critical :: "nat \<Rightarrow> bool"

section \<open>PiscesSysutils and JNIUtil\<close>

definition setMemErrorFlag :: "'f world \<Rightarrow> 'f world" where
  "setMemErrorFlag w = w\<lparr>w_memerr := True\<rparr>"

definition readAndClearMemErrorFlag :: "'f world \<Rightarrow> bool \<times> 'f world" where
  "readAndClearMemErrorFlag w = (if w_memerr w then (True, w\<lparr>w_memerr := False\<rparr>) else (False, w))"

definition readMemErrorFlag :: "'f world \<Rightarrow> bool" where
  "readMemErrorFlag w = w_memerr w"

text \<open>
  \<open>ThrowNew\<close> of the VM makes the exception pending and returns 0. \<open>FindClass\<close> finds the three classes.
  \<open>FatalError\<close> stops the VM: no result.
\<close>

definition ThrowNew :: "jexception \<Rightarrow> 'f world \<Rightarrow> jint \<times> 'f world" where
  "ThrowNew e w = (0, w\<lparr>w_exc := Some e\<rparr>)"

definition ExceptionCheck :: "'f world \<Rightarrow> bool" where
  "ExceptionCheck w \<longleftrightarrow> w_exc w \<noteq> None"

definition JNI_ThrowNew :: "jexception \<Rightarrow> 'f world \<Rightarrow> 'f world option" where
  "JNI_ThrowNew e w =
    (if ExceptionCheck w then None
     else (case ThrowNew e w of (status, w) \<Rightarrow> if ExceptionCheck w \<or> status \<noteq> 0 then None else Some w))"

definition checkAndClearException :: "'f world \<Rightarrow> bool \<times> 'f world" where
  "checkAndClearException w = (if \<not> ExceptionCheck w then (False, w) else (True, w\<lparr>w_exc := None\<rparr>))"

text \<open>The last lines of almost every native method.\<close>

definition report_mem_error :: "'f world \<Rightarrow> 'f world option" where
  "report_mem_error w =
    (case readAndClearMemErrorFlag w of
       (True, w) \<Rightarrow> JNI_ThrowNew OutOfMemoryError w
     | (False, w) \<Rightarrow> Some w)"

text \<open>
  \<open>initializeFieldIds\<close> stores the ids of the fields in order until one is missing; \<open>getid\<close> is the VM's
  \<open>GetFieldID\<close>, whose exception is cleared. The static variant is the same loop over \<open>GetStaticFieldID\<close>.
\<close>

fun initializeFieldIds :: "('n \<Rightarrow> 'i option) \<Rightarrow> 'n list \<Rightarrow> bool \<times> 'i option list" where
  "initializeFieldIds getid [] = (True, [])"
| "initializeFieldIds getid (n # ns) =
    (case getid n of
       None \<Rightarrow> (False, [None])
     | Some i \<Rightarrow> (case initializeFieldIds getid ns of (ok, ids) \<Rightarrow> (ok, Some i # ids)))"

definition initializeStaticFieldIds :: "('n \<Rightarrow> 'i option) \<Rightarrow> 'n list \<Rightarrow> bool \<times> 'i option list" where
  "initializeStaticFieldIds getid fds = initializeFieldIds getid fds"

text \<open>
  The cached ids of a class: a flag and the array. \<open>cls\<close> says whether the class of the object or the
  named class was found.
\<close>

definition initializeObjectFieldIds ::
  "bool \<Rightarrow> ('n \<Rightarrow> 'i option) \<Rightarrow> 'n list \<Rightarrow> bool \<times> 'i option list \<Rightarrow> bool \<times> (bool \<times> 'i option list)" where
  "initializeObjectFieldIds cls getid fds cache =
    (case cache of (initialized, ids) \<Rightarrow>
       if initialized then (True, cache)
       else if \<not> cls then (False, cache)
       else (case initializeFieldIds getid fds of (ok, stored) \<Rightarrow>
               (ok, (ok, stored @ drop (length stored) ids))))"

section \<open>JTransform\<close>

text \<open>A Java \<open>Transform6\<close> has the same six \<open>int\<close> fields.\<close>

definition transform_get6 :: "transform6 \<Rightarrow> transform6" where
  "transform_get6 object =
    \<lparr>m00 = m00 object, m01 = m01 object, m10 = m10 object, m11 = m11 object, m02 = m02 object, m12 = m12 object\<rparr>"

definition transform_set6 :: "transform6 \<Rightarrow> transform6 \<Rightarrow> transform6" where
  "transform_set6 object t =
    object\<lparr>m00 := m00 t, m01 := m01 t, m10 := m10 t, m11 := m11 t, m02 := m02 t, m12 := m12 t\<rparr>"

section \<open>Surfaces\<close>

definition surface_init :: "jint \<Rightarrow> jint \<Rightarrow> jint \<Rightarrow> surface" where
  "surface_init dataType width height =
    \<lparr>s_width = width, s_height = height, s_offset = 0, s_scanlineStride = width, s_pixelStride = 1,
     s_imageType = dataType, s_data = None\<rparr>"

text \<open>\<open>fieldsOK\<close>: both sets of field ids are there; \<open>mem\<close>: the allocation succeeds.\<close>

definition JavaSurface_initialize ::
  "bool \<Rightarrow> bool \<Rightarrow> jint \<Rightarrow> jint \<Rightarrow> jint \<Rightarrow> 'f world \<Rightarrow> 'f world option" where
  "JavaSurface_initialize fieldsOK mem dataType width height w =
    (if fieldsOK
     then (if mem then Some (w\<lparr>w_surface := surface_init dataType width height\<rparr>)
           else JNI_ThrowNew OutOfMemoryError w)
     else JNI_ThrowNew IllegalStateException w)"

text \<open>Only a surface of type \<open>TYPE_INT_ARGB_PRE\<close> has the id of an array field; with another the VM is given \<open>NULL\<close>.\<close>

definition surface_acquire :: "'f jvm \<Rightarrow> 'f world \<Rightarrow> 'f world option" where
  "surface_acquire v w =
    (let s = w_surface w; width = s_width s; height = s_height s; dataArrayLength = int (length (w_array w))
     in if s_imageType s \<noteq> TYPE_INT_ARGB_PRE then None
        else if width < 0 \<or> height < 0 then JNI_ThrowNew IllegalArgumentException (w\<lparr>w_surface := s\<lparr>s_data := None\<rparr>\<rparr>)
        else if width = 0 then None
        else if cdiv dataArrayLength width < height
        then JNI_ThrowNew IllegalArgumentException (w\<lparr>w_surface := s\<lparr>s_data := None\<rparr>\<rparr>)
        else if v_critical v 0 then Some (w\<lparr>w_surface := s\<lparr>s_data := Some (w_array w)\<rparr>\<rparr>)
        else Some (setMemErrorFlag (w\<lparr>w_surface := s\<lparr>s_data := None\<rparr>\<rparr>)))"

text \<open>\<open>data\<close> is the block of the pixels when the surface is released.\<close>

definition surface_release :: "jint buf \<Rightarrow> 'f world \<Rightarrow> 'f world" where
  "surface_release data w =
    (if s_data (w_surface w) = None then w
     else (case data of Some xs \<Rightarrow> w\<lparr>w_array := xs\<rparr> | None \<Rightarrow> w))"

text \<open>The macro \<open>CORRECT_DIMS\<close> gives \<open>x, y, width, height, x1, y1\<close>.\<close>

definition CORRECT_DIMS ::
  "surface \<Rightarrow> jint \<Rightarrow> jint \<Rightarrow> jint \<Rightarrow> jint \<Rightarrow> jint \<times> jint \<times> jint \<times> jint \<times> jint \<times> jint" where
  "CORRECT_DIMS s x y w h =
    (let (x1, w, x) = (if x < 0 then (i32 (- x), i32 (w + x), 0) else (0, w, x));
         (y1, h, y) = (if y < 0 then (i32 (- y), i32 (h + y), 0) else (0, h, y));
         w = (if i32 (x + w) > s_width s then i32 (s_width s - x) else w);
         h = (if i32 (y + h) > s_height s then i32 (s_height s - y) else h)
     in (x, y, w, h, x1, y1))"

text \<open>The copy loop of \<open>getRGBImpl\<close> and of \<open>setRGB\<close>: \<open>height\<close> rows of \<open>width\<close> cells.\<close>

definition copy_rect ::
  "jint buf \<Rightarrow> int \<Rightarrow> jint \<Rightarrow> jint buf \<Rightarrow> int \<Rightarrow> jint \<Rightarrow> jint \<Rightarrow> jint \<Rightarrow> jint buf option" where
  "copy_rect dst d dstScan src s srcScan width height =
    do {
      (dst, _, _) \<leftarrow> loopM (\<lambda>_ (dst, d, s). do {
          dst \<leftarrow> loopM (\<lambda>i dst. do { v \<leftarrow> rd src (s + i); wr dst (d + i) v }) 0 (nat width) dst;
          Some (dst, d + dstScan, s + srcScan) }) 0 (nat height) (dst, d, s);
      Some dst
    }"

definition rgb_range_error :: "jint \<Rightarrow> jint \<Rightarrow> jint \<Rightarrow> jint \<Rightarrow> bool" where
  "rgb_range_error start height scanLength len =
    (let end' = i32 (start + height * scanLength - 1)
     in start < 0 \<or> start \<ge> len \<or> end' < 0 \<or> end' \<ge> len)"

text \<open>\<open>arr\<close> is the Java array of the caller; the method returns it with the world.\<close>

definition getRGBImpl ::
  "'f jvm \<Rightarrow> 'f world \<Rightarrow> jint list \<Rightarrow> jint \<Rightarrow> jint \<Rightarrow> jint \<Rightarrow> jint \<Rightarrow> jint \<Rightarrow> jint \<Rightarrow> ('f world \<times> jint list) option" where
  "getRGBImpl v w arr offset scanLength x y width height =
    (let s = w_surface w;
         (x, y, width, height, dstX, dstY) = CORRECT_DIMS s x y width height
     in if width > 0 \<and> height > 0 then
          (let dstStart = i32 (offset + dstY * scanLength + dstX)
           in if rgb_range_error dstStart height scanLength (int (length arr))
              then do { w \<leftarrow> JNI_ThrowNew IllegalArgumentException w; Some (w, arr) }
              else if v_critical v 1 then do {
                w \<leftarrow> surface_acquire v w;
                (w, dst) \<leftarrow>
                  (if \<not> readMemErrorFlag w then do {
                     dst \<leftarrow> copy_rect (Some arr) dstStart scanLength (s_data (w_surface w))
                              (i32 (y * s_width s) + x) (s_width s) width height;
                     Some (surface_release (s_data (w_surface w)) w, dst) }
                   else Some (w, Some arr));
                w \<leftarrow> report_mem_error w;
                Some (w, the dst) }
              else do { w \<leftarrow> JNI_ThrowNew OutOfMemoryError w; Some (w, arr) })
        else Some (w, arr))"

definition surface_setRGB ::
  "surface \<Rightarrow> jint \<Rightarrow> jint \<Rightarrow> jint \<Rightarrow> jint \<Rightarrow> jint buf \<Rightarrow> int \<Rightarrow> jint \<Rightarrow> jint buf option" where
  "surface_setRGB s x y width height data srcStart scanLength =
    (if s_data s = None then Some None
     else copy_rect (s_data s) (i32 (y * s_width s) + x) (s_width s) data srcStart scanLength width height)"

definition setRGBImpl ::
  "'f jvm \<Rightarrow> 'f world \<Rightarrow> jint list \<Rightarrow> jint \<Rightarrow> jint \<Rightarrow> jint \<Rightarrow> jint \<Rightarrow> jint \<Rightarrow> jint \<Rightarrow> 'f world option" where
  "setRGBImpl v w arr offset scanLength x y width height =
    (let s = w_surface w;
         (x, y, width, height, srcX, srcY) = CORRECT_DIMS s x y width height
     in if width > 0 \<and> height > 0 then
          (let srcStart = i32 (offset + srcY * scanLength + srcX)
           in if rgb_range_error srcStart height scanLength (int (length arr))
              then JNI_ThrowNew IllegalArgumentException w
              else if v_critical v 1 then do {
                w \<leftarrow> surface_acquire v w;
                w \<leftarrow>
                  (if \<not> readMemErrorFlag w then do {
                     data \<leftarrow> surface_setRGB (w_surface w) x y width height (Some arr) srcStart scanLength;
                     Some (surface_release data w) }
                   else Some w);
                report_mem_error w }
              else JNI_ThrowNew OutOfMemoryError w)
        else Some w)"

section \<open>Setters of the renderer\<close>

definition PiscesRenderer_initialize :: "'f float_ops \<Rightarrow> bool \<Rightarrow> bool \<Rightarrow> 'f world \<Rightarrow> 'f world option" where
  "PiscesRenderer_initialize fo sfieldsOK mem w =
    (if sfieldsOK then
       (case createCommon fo mem (w_surface w) of
          Some rdr \<Rightarrow> report_mem_error (w\<lparr>w_rdr := rdr\<rparr>)
        | None \<Rightarrow> report_mem_error (setMemErrorFlag w))
     else JNI_ThrowNew IllegalStateException w)"

definition setClipImpl :: "'f world \<Rightarrow> jint \<Rightarrow> jint \<Rightarrow> jint \<Rightarrow> jint \<Rightarrow> 'f world option" where
  "setClipImpl w minX minY width height =
    report_mem_error (w\<lparr>w_rdr := renderer_setClip (w_rdr w) minX minY width height\<rparr>)"

definition setColorImpl :: "'f world \<Rightarrow> jint \<Rightarrow> jint \<Rightarrow> jint \<Rightarrow> jint \<Rightarrow> 'f world option" where
  "setColorImpl w red green blue alpha =
    report_mem_error (w\<lparr>w_rdr := renderer_setColor (w_rdr w) red green blue alpha\<rparr>)"

definition setCompositeRuleImpl :: "'f world \<Rightarrow> jint \<Rightarrow> 'f world option" where
  "setCompositeRuleImpl w compositeRule =
    report_mem_error (w\<lparr>w_rdr := renderer_setCompositeRule (w_rdr w) compositeRule\<rparr>)"

definition setLinearGradientImpl ::
  "'f jvm \<Rightarrow> 'f world \<Rightarrow> jint \<Rightarrow> jint \<Rightarrow> jint \<Rightarrow> jint \<Rightarrow> jint list \<Rightarrow> jint \<Rightarrow> transform6 \<Rightarrow> 'f world option" where
  "setLinearGradientImpl v w x0 y0 x1 y1 jramp cycleMethod jTransform =
    (let t = transform_get6 jTransform; rdr = w_rdr w
     in do {
       w \<leftarrow> (if v_critical v 1 then do {
               rdr \<leftarrow> renderer_setLinearGradient (g_float (v_genv v))
                        (rdr\<lparr>r_gradient := (r_gradient rdr)\<lparr>gradient_cycleMethod := cycleMethod\<rparr>\<rparr>)
                        x0 y0 x1 y1 (Some jramp) t;
               Some (w\<lparr>w_rdr := rdr\<rparr>) }
             else Some (setMemErrorFlag w));
       report_mem_error w })"

definition setRadialGradientImpl ::
  "'f jvm \<Rightarrow> 'f \<Rightarrow> 'f \<Rightarrow> 'f world \<Rightarrow> jint \<Rightarrow> jint \<Rightarrow> jint \<Rightarrow> jint \<Rightarrow> jint \<Rightarrow> jint list \<Rightarrow> jint \<Rightarrow> transform6 \<Rightarrow>
   'f world option" where
  "setRadialGradientImpl v c094 c097 w cx cy fx fy radius jramp cycleMethod jTransform =
    (let t = transform_get6 jTransform; rdr = w_rdr w
     in do {
       w \<leftarrow> (if v_critical v 1 then do {
               rdr \<leftarrow> renderer_setRadialGradient (g_float (v_genv v)) c094 c097
                        (rdr\<lparr>r_gradient := (r_gradient rdr)\<lparr>gradient_cycleMethod := cycleMethod\<rparr>\<rparr>)
                        cx cy fx fy radius (Some jramp) t;
               Some (w\<lparr>w_rdr := rdr\<rparr>) }
             else Some (setMemErrorFlag w));
       report_mem_error w })"

text \<open>The copy of a texture into memory of its own, row by row when the strides differ.\<close>

definition copy_texture :: "jint buf \<Rightarrow> jint list \<Rightarrow> jint \<Rightarrow> jint \<Rightarrow> jint \<Rightarrow> jint buf option" where
  "copy_texture alloc data width height stride =
    (if stride = width
     then copy_rect alloc 0 0 (Some data) 0 0 (width * height) 1
     else copy_rect alloc 0 width (Some data) 0 stride width height)"

definition setTextureImpl ::
  "'f jvm \<Rightarrow> 'f world \<Rightarrow> jint list \<Rightarrow> jint \<Rightarrow> jint \<Rightarrow> jint \<Rightarrow> transform6 \<Rightarrow> bool \<Rightarrow> bool \<Rightarrow> 'f world option" where
  "setTextureImpl v w dataArray width height stride jTransform rpt hasAlpha =
    (let t = transform_get6 jTransform
     in do {
       w \<leftarrow> (if v_critical v 1 then
               (case my_malloc (g_mem (v_genv v)) (i32 (width * height)) of
                  None \<Rightarrow> Some (setMemErrorFlag w)
                | Some alloc \<Rightarrow> do {
                    alloc \<leftarrow> copy_texture (Some alloc) dataArray width height stride;
                    Some (w\<lparr>w_rdr := renderer_setTexture (g_float (v_genv v)) (w_rdr w) IMAGE_MODE_NORMAL alloc 0
                       width height width rpt True t True hasAlpha 0 0 (i32 (width - 1)) (i32 (height - 1))\<rparr>) })
             else Some (setMemErrorFlag w));
       report_mem_error w })"

section \<open>Errors\<close>

text \<open>The exception that was just thrown is pending, so the second check of \<open>JNI_ThrowNew\<close> always fails.\<close>

lemma JNI_ThrowNew_none [simp]: "JNI_ThrowNew e w = None"
  by (simp add: JNI_ThrowNew_def ThrowNew_def ExceptionCheck_def)

lemma report_mem_error_eq: "report_mem_error w = (if w_memerr w then None else Some w)"
  by (simp add: report_mem_error_def readAndClearMemErrorFlag_def)

section \<open>A surface that can be drawn on\<close>

text \<open>A Java surface whose array holds its pixels, a VM that hands the array out, and no pending error.\<close>

definition surface_ok :: "'f jvm \<Rightarrow> 'f world \<Rightarrow> bool" where
  "surface_ok v w \<longleftrightarrow>
     (let s = w_surface w
      in s_imageType s = TYPE_INT_ARGB_PRE \<and> s_offset s = 0 \<and> s_scanlineStride s = s_width s \<and> s_pixelStride s = 1 \<and>
         0 < s_width s \<and> 0 \<le> s_height s \<and> jint_range (s_width s) \<and> jint_range (s_height s) \<and>
         s_width s * s_height s \<le> int (length (w_array w)) \<and>
         int (length (w_array w)) < 2147483648 \<and> v_critical v 0 \<and> \<not> w_memerr w \<and> w_exc w = None)"

lemma acquire_ok:
  assumes "surface_ok v w"
  shows "surface_acquire v w = Some (w\<lparr>w_surface := (w_surface w)\<lparr>s_data := Some (w_array w)\<rparr>\<rparr>)"
proof -
  have p: "0 < s_width (w_surface w)" "0 \<le> s_height (w_surface w)"
    "s_width (w_surface w) * s_height (w_surface w) \<le> int (length (w_array w))" "v_critical v 0"
    "s_imageType (w_surface w) = TYPE_INT_ARGB_PRE"
    using assms by (auto simp: surface_ok_def Let_def)
  have "s_height (w_surface w) \<le> int (length (w_array w)) div s_width (w_surface w)"
    using zdiv_mono1 [OF p(3) p(1)] p(1) by simp
  moreover have "cdiv (int (length (w_array w))) (s_width (w_surface w)) = int (length (w_array w)) div s_width (w_surface w)"
    using p(1) by (cases "w_array w") (simp_all add: cdiv_def)
  ultimately show ?thesis using p by (simp add: surface_acquire_def Let_def)
qed

lemma report_none: "\<not> w_memerr w \<Longrightarrow> report_mem_error w = Some w"
  by (simp add: report_mem_error_def readAndClearMemErrorFlag_def)

section \<open>Copying a rectangle\<close>

lemma copy_row_exact:
  assumes "0 \<le> d" "0 \<le> n" "d + n \<le> int (length xs)" "0 \<le> s" "s + n \<le> int (length src)"
  shows "loopM (\<lambda>i dst. do { v \<leftarrow> rd (Some src) (s + i); wr dst (d + i) v }) 0 (nat n) (Some xs)
    = Some (Some (upd_range d n (\<lambda>c _. src ! nat (s + c)) xs))"
proof -
  let ?I = "\<lambda>k st. st = Some (upd_range d k (\<lambda>c _. src ! nat (s + c)) xs)"
  have "\<exists>st. loopM (\<lambda>i dst. do { v \<leftarrow> rd (Some src) (s + i); wr dst (d + i) v }) 0 (nat n) (Some xs) = Some st
      \<and> ?I (0 + int (nat n)) st"
  proof (rule loopM_inv)
    fix k st assume k: "0 \<le> k" "k < 0 + int (nat n)" and st: "?I k st"
    then show "\<exists>st'. (do { v \<leftarrow> rd (Some src) (s + k); wr st (d + k) v }) = Some st' \<and> ?I (k + 1) st'"
      using upd_range_snoc [of d k xs "\<lambda>c _. src ! nat (s + c)"] assms unfolding st by simp
  qed simp
  then show ?thesis using assms by simp
qed

definition copy_fits :: "int \<Rightarrow> int \<Rightarrow> int \<Rightarrow> int \<Rightarrow> 'a list \<Rightarrow> bool" where
  "copy_fits at scan n h xs \<longleftrightarrow> 0 \<le> at \<and> 0 < n \<and> n \<le> scan \<and> 0 < h \<and> at + (h - 1) * scan + n \<le> int (length xs)"

lemma copy_fits_row:
  assumes "copy_fits at scan n h xs" "0 \<le> j" "j < h"
  shows "0 \<le> at + j * scan" "at + j * scan + n \<le> int (length xs)"
proof -
  have "j * scan \<le> (h - 1) * scan" using assms by (intro mult_right_mono) (auto simp: copy_fits_def)
  moreover have "at + (h - 1) * scan + n \<le> int (length xs)" using assms by (simp add: copy_fits_def)
  ultimately show "at + j * scan + n \<le> int (length xs)" by linarith
  show "0 \<le> at + j * scan" using assms by (simp add: copy_fits_def)
qed

lemma copy_rect_exact:
  assumes "copy_fits d ds n h xs" "copy_fits s ss n h src"
  shows "copy_rect (Some xs) d ds (Some src) s ss n h
    = Some (Some (upd_rect d ds n h (\<lambda>j c _. src ! nat (s + j * ss + c)) xs))"
proof -
  let ?g = "\<lambda>j c (_ :: jint). src ! nat (s + j * ss + c)"
  let ?I = "\<lambda>j st. st = (Some (upd_rect d ds n j ?g xs), d + j * ds, s + j * ss)"
  have p: "0 < n" "n \<le> ds" "0 < h" using assms(1) by (auto simp: copy_fits_def)
  have "\<exists>st. loopM (\<lambda>_ (dst, d, s). do {
          dst \<leftarrow> loopM (\<lambda>i dst. do { v \<leftarrow> rd (Some src) (s + i); wr dst (d + i) v }) 0 (nat n) dst;
          Some (dst, d + ds, s + ss) }) 0 (nat h) (Some xs, d, s) = Some st \<and> ?I (0 + int (nat h)) st"
  proof (rule loopM_inv)
    fix j st assume j: "0 \<le> j" "j < 0 + int (nat h)" and st: "?I j st"
    then have j': "j < h" using p(3) by simp
    show "\<exists>st'. (case st of (dst, d, s) \<Rightarrow> do {
          dst \<leftarrow> loopM (\<lambda>i dst. do { v \<leftarrow> rd (Some src) (s + i); wr dst (d + i) v }) 0 (nat n) dst;
          Some (dst, d + ds, s + ss) }) = Some st' \<and> ?I (j + 1) st'"
      unfolding st prod.case
      using copy_row_exact [of "d + j * ds" n "upd_rect d ds n j ?g xs" "s + j * ss" src]
        copy_fits_row [OF assms(1) j(1) j'] copy_fits_row [OF assms(2) j(1) j'] p j
        upd_rect_step [of j n ds d ?g xs]
      by (simp add: algebra_simps)
  qed (use p in simp)
  then show ?thesis unfolding copy_rect_def using p by auto
qed

text \<open>Cell \<open>(j, c)\<close> of the rectangle that was copied.\<close>

lemma nth_copied:
  assumes "copy_fits d ds n h xs" "0 \<le> j" "j < h" "0 \<le> c" "c < n"
  shows "upd_rect d ds n h g xs ! nat (d + j * ds + c) = g j c (xs ! nat (d + j * ds + c))"
proof -
  have p: "n \<le> ds" "0 < ds" using assms by (auto simp: copy_fits_def)
  note r = copy_fits_row [OF assms(1-3)]
  have "nat (d + j * ds + c) < length xs" "int (nat (d + j * ds + c)) = d + j * ds + c" using r assms by auto
  moreover have "in_rect d ds n h (d + j * ds + c)" using in_rect_iff [OF p] assms by blast
  ultimately show ?thesis using rect_index [OF assms(4,5) p(1), of d j] by simp
qed

section \<open>The clipped rectangle of getRGB and setRGB\<close>

lemma CORRECT_DIMS_spec:
  assumes "CORRECT_DIMS s x y w h = (x', y', w', h', dx, dy)"
    and "jint_range x" "jint_range w" "jint_range (x + w)" "0 \<le> s_width s" "jint_range (s_width s)"
    and "jint_range y" "jint_range h" "jint_range (y + h)" "0 \<le> s_height s" "jint_range (s_height s)"
    and "- 2147483648 < x" "- 2147483648 < y"
  shows "x' = x + dx \<and> y' = y + dy \<and> 0 \<le> dx \<and> 0 \<le> dy"
    and "(x' \<le> X \<and> X < x' + w') = (0 \<le> X \<and> X < s_width s \<and> x \<le> X \<and> X < x + w)"
    and "(y' \<le> Y \<and> Y < y' + h') = (0 \<le> Y \<and> Y < s_height s \<and> y \<le> Y \<and> Y < y + h)"
  using assms unfolding CORRECT_DIMS_def Let_def jint_range_def
  by (auto simp: i32_id split: if_splits)

text \<open>The arguments of \<open>getRGB\<close> and \<open>setRGB\<close> as they are after the clip, in a rectangle that is not empty.\<close>

definition rgb_args ::
  "surface \<Rightarrow> jint list \<Rightarrow> jint \<Rightarrow> jint \<Rightarrow> jint \<Rightarrow> jint \<Rightarrow> jint \<Rightarrow> jint \<Rightarrow> jint \<times> jint \<times> jint \<times> jint \<times> jint \<Rightarrow> bool" where
  "rgb_args s arr offset scan x y w h a \<longleftrightarrow>
    (case a of (x', y', w', h', start) \<Rightarrow>
       jint_range x \<and> jint_range w \<and> jint_range (x + w) \<and> - 2147483648 < x \<and>
       jint_range y \<and> jint_range h \<and> jint_range (y + h) \<and> - 2147483648 < y \<and>
       (\<exists>dx dy. CORRECT_DIMS s x y w h = (x', y', w', h', dx, dy) \<and> start = offset + dy * scan + dx) \<and>
       0 < w' \<and> w' \<le> scan \<and> 0 < h' \<and> 0 \<le> start \<and> start + h' * scan \<le> int (length arr) \<and>
       int (length arr) < 2147483648)"

lemma rgb_args_ok:
  assumes "surface_ok v w" "rgb_args (w_surface w) arr offset scan x y wd h (x', y', w', h', start)"
  shows "copy_fits start scan w' h' arr" "\<not> rgb_range_error start h' scan (int (length arr))" "i32 start = start"
    "copy_fits (y' * s_width (w_surface w) + x') (s_width (w_surface w)) w' h' (w_array w)"
    "i32 (y' * s_width (w_surface w)) = y' * s_width (w_surface w)"
proof -
  let ?W = "s_width (w_surface w)" and ?H = "s_height (w_surface w)"
  obtain dx dy where r: "jint_range x" "jint_range wd" "jint_range (x + wd)" "- 2147483648 < x"
    "jint_range y" "jint_range h" "jint_range (y + h)" "- 2147483648 < y"
    "CORRECT_DIMS (w_surface w) x y wd h = (x', y', w', h', dx, dy)"
    "0 < w'" "w' \<le> scan" "0 < h'" "0 \<le> start" "start + h' * scan \<le> int (length arr)" "int (length arr) < 2147483648"
    using assms(2) by (auto simp: rgb_args_def)
  have s: "0 < ?W" "0 \<le> ?H" "jint_range ?W" "jint_range ?H" "?W * ?H \<le> int (length (w_array w))"
    "int (length (w_array w)) < 2147483648"
    using assms(1) by (auto simp: surface_ok_def Let_def)
  note c = CORRECT_DIMS_spec [OF r(9) r(1-3) _ s(3) r(5-7) s(2,4) r(4,8)]
  have x: "0 \<le> x'" "x' + w' \<le> ?W" using c(2) [of x'] c(2) [of "x' + w' - 1"] s(1) r(10) by auto
  have y: "0 \<le> y'" "y' + h' \<le> ?H" using c(3) [of y'] c(3) [of "y' + h' - 1"] s(1) r(12) by auto
  have hs: "1 * scan \<le> h' * scan" using r by (intro mult_right_mono) auto
  then show "i32 start = start" using r by (intro i32_id) linarith+
  have e: "(h' - 1) * scan = h' * scan - scan" by (simp add: algebra_simps)
  show "copy_fits start scan w' h' arr" using r e by (simp add: copy_fits_def)
  have "i32 (start + h' * scan - 1) = start + h' * scan - 1" using r hs by (intro i32_id) linarith+
  then show "\<not> rgb_range_error start h' scan (int (length arr))"
    unfolding rgb_range_error_def Let_def using r(10,11,13-15) hs by linarith
  have m: "(y' + h') * ?W \<le> ?H * ?W" "0 \<le> y' * ?W" "1 * ?W \<le> h' * ?W"
    using y s r by (auto intro!: mult_right_mono)
  have e2: "y' * ?W + x' + (h' - 1) * ?W + w' \<le> (y' + h') * ?W" using x by (simp add: algebra_simps)
  have HW: "?H * ?W \<le> int (length (w_array w))" using s(5) by (simp add: mult.commute)
  with e2 have "y' * ?W + x' + (h' - 1) * ?W + w' \<le> int (length (w_array w))" using m(1) by linarith
  then show "copy_fits (y' * ?W + x') ?W w' h' (w_array w)" using x y s r by (simp add: copy_fits_def)
  have "y' * ?W \<le> ?H * ?W" using y r s by (intro mult_right_mono) auto
  then show "i32 (y' * ?W) = y' * ?W" using m(2) s(6) HW by (intro i32_id) linarith+
qed

lemma getRGBImpl_exact:
  assumes v: "surface_ok v w" "v_critical v 1"
    and a: "rgb_args (w_surface w) arr offset scan x y wd h (x', y', w', h', start)"
  shows "\<exists>w2. getRGBImpl v w arr offset scan x y wd h = Some (w2,
      upd_rect start scan w' h' (\<lambda>j c _. w_array w ! nat (y' * s_width (w_surface w) + x' + j * s_width (w_surface w) + c)) arr) \<and>
    w_array w2 = w_array w \<and> w_exc w2 = None"
proof -
  obtain dx dy where r: "CORRECT_DIMS (w_surface w) x y wd h = (x', y', w', h', dx, dy)" "start = offset + dy * scan + dx"
    "0 < w'" "0 < h'" using a by (auto simp: rgb_args_def)
  note k = rgb_args_ok [OF v(1) a]
  have n: "\<not> w_memerr w" "w_exc w = None" using v(1) by (auto simp: surface_ok_def Let_def)
  show ?thesis
    unfolding getRGBImpl_def Let_def r(1)
    using r k v n copy_rect_exact [OF k(1,4)]
    by (simp add: r(2) [symmetric] acquire_ok readMemErrorFlag_def surface_release_def report_none)
qed

lemma setRGBImpl_exact:
  assumes v: "surface_ok v w" "v_critical v 1"
    and a: "rgb_args (w_surface w) arr offset scan x y wd h (x', y', w', h', start)"
  shows "\<exists>w2. setRGBImpl v w arr offset scan x y wd h = Some w2 \<and>
    w_array w2 = upd_rect (y' * s_width (w_surface w) + x') (s_width (w_surface w)) w' h'
      (\<lambda>j c _. arr ! nat (start + j * scan + c)) (w_array w) \<and> w_exc w2 = None \<and> w_memerr w2 = w_memerr w \<and>
    w_surface w2 = (w_surface w)\<lparr>s_data := Some (w_array w)\<rparr>"
proof -
  obtain dx dy where r: "CORRECT_DIMS (w_surface w) x y wd h = (x', y', w', h', dx, dy)" "start = offset + dy * scan + dx"
    "0 < w'" "0 < h'" using a by (auto simp: rgb_args_def)
  note k = rgb_args_ok [OF v(1) a]
  have n: "\<not> w_memerr w" "w_exc w = None" using v(1) by (auto simp: surface_ok_def Let_def)
  show ?thesis
    unfolding setRGBImpl_def Let_def r(1)
    using r k v n copy_rect_exact [OF k(4,1)]
    by (simp add: r(2) [symmetric] acquire_ok readMemErrorFlag_def surface_release_def report_none surface_setRGB_def)
qed

text \<open>What \<open>setRGB\<close> stores, \<open>getRGB\<close> with the same arguments reads back.\<close>

lemma set_get_RGB:
  assumes v: "surface_ok v w" "v_critical v 1"
    and a: "rgb_args (w_surface w) arr offset scan x y wd h (x', y', w', h', start)" and l: "length arr2 = length arr"
  shows "\<exists>w2 w3 out. setRGBImpl v w arr offset scan x y wd h = Some w2 \<and>
    getRGBImpl v w2 arr2 offset scan x y wd h = Some (w3, out) \<and> length out = length arr \<and>
    (\<forall>j c. 0 \<le> j \<longrightarrow> j < h' \<longrightarrow> 0 \<le> c \<longrightarrow> c < w' \<longrightarrow> out ! nat (start + j * scan + c) = arr ! nat (start + j * scan + c))"
proof -
  let ?W = "s_width (w_surface w)"
  obtain w2 where w2: "setRGBImpl v w arr offset scan x y wd h = Some w2"
    "w_array w2 = upd_rect (y' * ?W + x') ?W w' h' (\<lambda>j c _. arr ! nat (start + j * scan + c)) (w_array w)"
    "w_exc w2 = None" "w_memerr w2 = w_memerr w" "w_surface w2 = (w_surface w)\<lparr>s_data := Some (w_array w)\<rparr>"
    using setRGBImpl_exact [OF v a] by blast
  have v2: "surface_ok v w2" using v w2 by (simp add: surface_ok_def Let_def)
  have dims: "CORRECT_DIMS (w_surface w2) = CORRECT_DIMS (w_surface w)"
    unfolding w2(5) by (intro ext) (simp add: CORRECT_DIMS_def)
  have a2: "rgb_args (w_surface w2) arr2 offset scan x y wd h (x', y', w', h', start)"
    using a l dims by (simp add: rgb_args_def)
  obtain w3 where w3: "getRGBImpl v w2 arr2 offset scan x y wd h = Some (w3,
      upd_rect start scan w' h' (\<lambda>j c _. w_array w2 ! nat (y' * ?W + x' + j * ?W + c)) arr2)"
    using getRGBImpl_exact [OF v2 v(2) a2] w2(5) by auto
  note k = rgb_args_ok [OF v(1) a] and k2 = rgb_args_ok [OF v2 a2]
  show ?thesis
    using w2(1) w3 nth_copied [OF k2(1)] nth_copied [OF k(4)] l by (simp add: w2(2))
qed

end
