(* ===== verification/Pisces_Draw.thy ===== *)
theory Pisces_Draw
  imports Pisces_JNI
begin

text \<open>
  The drawing methods of \<open>JPiscesRenderer.c\<close>: each acquires the surface, marks it for the renderer,
  validates, emits rows and releases the surface.
\<close>

section \<open>Drawing\<close>

text \<open>
  The frame of every drawing method: acquire the surface, draw unless the flag is set, release.
\<close>

definition with_surface ::
  "'f jvm \<Rightarrow> (surface \<Rightarrow> 'f world \<Rightarrow> 'f world option) \<Rightarrow> 'f world \<Rightarrow> 'f world option" where
  "with_surface v body w =
    do {
      w \<leftarrow> surface_acquire v w;
      w \<leftarrow> (if \<not> readMemErrorFlag w
            then do { w \<leftarrow> body (w_surface w) w; Some (surface_release (r_data (w_rdr w)) w) }
            else Some w);
      report_mem_error w
    }"

definition clearRectImpl :: "'f jvm \<Rightarrow> 'f world \<Rightarrow> jint \<Rightarrow> jint \<Rightarrow> jint \<Rightarrow> jint \<Rightarrow> 'f world option" where
  "clearRectImpl v w x y wd h =
    with_surface v (\<lambda>s w. do {
        rdr \<leftarrow> renderer_clearRect s
          ((invalidate INVALID_RENDERER_SURFACE (w_rdr w))\<lparr>r_imagePixelStride := 1, r_imageScanlineStride := s_width s\<rparr>)
          x y wd h;
        Some (w\<lparr>w_rdr := rdr\<rparr>) }) w"

text \<open>The edges of \<open>fillRect\<close>: \<open>from, to, lfrac, rfrac\<close> of one axis, before the clip.\<close>

definition fill_axis :: "jint \<Rightarrow> jint \<Rightarrow> jint \<Rightarrow> jint \<Rightarrow> jint \<times> jint \<times> jint \<times> jint" where
  "fill_axis x w lEdge rEdge =
    (let lfrac = (0x10000 - (x AND 0xFFFF)) AND 0xFFFF;
         rfrac = i32 (x + w) AND 0xFFFF;
         x_from = sar x 16;
         x_to = (if rfrac \<noteq> 0 then sar (i32 (x + w)) 16 else sar (i32 (x + w)) 16 - 1);
         (x_from, lfrac) =
           (if lEdge = IMAGE_FRAC_EDGE_PAD then (x_from, 0)
            else if lEdge = IMAGE_FRAC_EDGE_TRIM then (if lfrac \<noteq> 0 then x_from + 1 else x_from, 0)
            else (x_from, lfrac));
         (x_to, rfrac) =
           (if rEdge = IMAGE_FRAC_EDGE_PAD then (x_to, 0)
            else if rEdge = IMAGE_FRAC_EDGE_TRIM then (if rfrac \<noteq> 0 then x_to - 1 else x_to, 0)
            else (x_to, rfrac))
     in (x_from, x_to, lfrac, rfrac))"

definition clip_axis :: "jint \<Rightarrow> jint \<Rightarrow> jint \<times> jint \<times> jint \<times> jint \<Rightarrow> jint \<times> jint \<times> jint \<times> jint" where
  "clip_axis mn mx e =
    (case e of (x_from, x_to, lfrac, rfrac) \<Rightarrow>
       let (x_from, lfrac) = (if x_from < mn then (mn, 0) else (x_from, lfrac));
           (x_to, rfrac) = (if x_to > mx then (mx, 0) else (x_to, rfrac))
       in (x_from, x_to, lfrac, rfrac))"

text \<open>A rectangle within one column or row: the two coverages become one.\<close>

definition single_axis :: "jint \<times> jint \<times> jint \<times> jint \<Rightarrow> jint \<times> jint" where
  "single_axis e =
    (case e of (x_from, x_to, lfrac, rfrac) \<Rightarrow>
       if x_from = x_to \<and> (lfrac \<noteq> 0 \<or> rfrac \<noteq> 0)
       then ((rfrac - 0x10000 + lfrac) AND 0xFFFF, 0) else (lfrac, rfrac))"

text \<open>Generate the paint of \<open>n\<close> rows if there is a generator, then emit them.\<close>

definition emit_part :: "'f genv \<Rightarrow> jint \<Rightarrow> jint \<Rightarrow> 'f renderer \<Rightarrow> 'f renderer option" where
  "emit_part G n frac rdr =
    do {
      rdr \<leftarrow> (if genPaint (r_fns rdr) \<noteq> GenNULL
              then call_genPaint G (alloc_paint G (r_alphaWidth rdr * n) rdr) n else Some rdr);
      call_emitLine rdr n frac
    }"

definition advance_rows :: "surface \<Rightarrow> jint \<Rightarrow> jint \<Rightarrow> 'f renderer \<Rightarrow> 'f renderer" where
  "advance_rows s x_from n rdr =
    rdr\<lparr>r_currX := x_from, r_currY := i32 (r_currY rdr + n),
        r_currImageOffset := i32 (i32 (r_currY rdr + n) * s_width s), r_rowNum := i32 (r_rowNum rdr + n)\<rparr>"

definition NUM_ALPHA_ROWS :: jint where "NUM_ALPHA_ROWS = 8"

function fill_full_rows :: "'f genv \<Rightarrow> surface \<Rightarrow> jint \<Rightarrow> jint \<Rightarrow> 'f renderer \<Rightarrow> 'f renderer option" where
  "fill_full_rows G s x_from rows rdr =
    (if rows > 0 then do {
       rdr \<leftarrow> emit_part G (min rows NUM_ALPHA_ROWS) 0x10000 rdr;
       fill_full_rows G s x_from (rows - min rows NUM_ALPHA_ROWS)
         (advance_rows s x_from (min rows NUM_ALPHA_ROWS) rdr) }
     else Some rdr)"
  by pat_completeness auto
termination
  by (relation "measure (\<lambda>(G, s, x, rows, rdr). nat rows)") (auto simp: NUM_ALPHA_ROWS_def)

declare fill_full_rows.simps [simp del]

text \<open>The members \<open>fillRect\<close> sets before the first row; \<open>lfrac\<close>, \<open>rfrac\<close> are the final edge coverages.\<close>

definition fill_prepare ::
  "surface \<Rightarrow> jint \<Rightarrow> jint \<Rightarrow> jint \<Rightarrow> jint \<Rightarrow> jint \<Rightarrow> 'f renderer \<Rightarrow> 'f renderer" where
  "fill_prepare s x_from x_to y_from lfrac rfrac rdr =
    (VALIDATE_BLITTING s (invalidate INVALID_RENDERER_SURFACE rdr))
      \<lparr>r_minTouched := x_from, r_maxTouched := x_to, r_currX := x_from, r_currY := y_from,
       r_alphaWidth := i32 (x_to - x_from + 1), r_currImageOffset := i32 (y_from * s_width s),
       r_imageScanlineStride := s_width s, r_imagePixelStride := 1, r_rowNum := 0,
       r_el_lfrac := lfrac, r_el_rfrac := rfrac\<rparr>"

text \<open>The fractional line at the top, the full ones, the fractional line at the bottom.\<close>

definition fill_band ::
  "'f genv \<Rightarrow> surface \<Rightarrow> jint \<Rightarrow> jint \<Rightarrow> jint \<Rightarrow> jint \<Rightarrow> 'f renderer \<Rightarrow> 'f renderer option" where
  "fill_band G s x_from H tfrac bfrac rdr =
    (let rows = H - (if bfrac \<noteq> 0 then 1 else 0)
     in do {
       (rdr, rows) \<leftarrow>
         (if tfrac \<noteq> 0 then do {
            rdr \<leftarrow> emit_part G 1 tfrac rdr;
            Some (advance_rows s x_from 1 rdr, rows - 1) }
          else Some (rdr, rows));
       rdr \<leftarrow> fill_full_rows G s x_from rows rdr;
       (if bfrac \<noteq> 0 then emit_part G 1 bfrac rdr else Some rdr)
     })"

definition fill_rows ::
  "'f genv \<Rightarrow> surface \<Rightarrow> jint \<times> jint \<times> jint \<times> jint \<Rightarrow> jint \<times> jint \<times> jint \<times> jint \<Rightarrow> 'f renderer \<Rightarrow> 'f renderer option" where
  "fill_rows G s ex ey rdr =
    (let (x_from, x_to, _, _) = ex; (y_from, y_to, _, _) = ey;
         (tfrac, bfrac) = single_axis ey;
         (lfrac, rfrac) = single_axis ex
     in fill_band G s x_from (i32 (y_to - y_from + 1)) tfrac bfrac
          (fill_prepare s x_from x_to y_from lfrac rfrac rdr))"

definition fillRect ::
  "'f jvm \<Rightarrow> 'f world \<Rightarrow> jint \<Rightarrow> jint \<Rightarrow> jint \<Rightarrow> jint \<Rightarrow> jint \<Rightarrow> jint \<Rightarrow> jint \<Rightarrow> jint \<Rightarrow> 'f world option" where
  "fillRect v w x y wd h lEdge rEdge tEdge bEdge =
    (let rdr = (w_rdr w)\<lparr>r_rectX := sar x 16, r_rectY := sar y 16\<rparr>;
         w = w\<lparr>w_rdr := rdr\<rparr>;
         ex = clip_axis (r_clip_bbMinX rdr) (r_clip_bbMaxX rdr) (fill_axis x wd lEdge rEdge);
         ey = clip_axis (r_clip_bbMinY rdr) (r_clip_bbMaxY rdr) (fill_axis y h tEdge bEdge)
     in if fst ex \<le> fst (snd ex) \<and> fst ey \<le> fst (snd ey) then
          with_surface v (\<lambda>s w. do {
              rdr \<leftarrow> fill_rows (v_genv v) s ex ey (w_rdr w);
              Some (w\<lparr>w_rdr := rdr\<rparr>) }) w
        else Some w)"

definition fillRectImpl :: "'f jvm \<Rightarrow> 'f world \<Rightarrow> jint \<Rightarrow> jint \<Rightarrow> jint \<Rightarrow> jint \<Rightarrow> 'f world option" where
  "fillRectImpl v w x y wd h =
    fillRect v w x y wd h IMAGE_FRAC_EDGE_KEEP IMAGE_FRAC_EDGE_KEEP IMAGE_FRAC_EDGE_KEEP IMAGE_FRAC_EDGE_KEEP"

text \<open>\<open>jAlphaMap\<close> and \<open>jAlphaDeltas\<close> are Java arrays; the row comes back cleared.\<close>

definition emitAndClearAlphaRowImpl ::
  "'f jvm \<Rightarrow> 'f world \<Rightarrow> jint list \<Rightarrow> jint list \<Rightarrow> jint \<Rightarrow> jint \<Rightarrow> jint \<Rightarrow> jint \<Rightarrow> ('f world \<times> jint list) option" where
  "emitAndClearAlphaRowImpl v w jAlphaMap jAlphaDeltas y x_from x_to rowNum =
    do {
      w \<leftarrow> surface_acquire v w;
      (w, deltas) \<leftarrow>
        (if \<not> readMemErrorFlag w then
           (let s = w_surface w;
                rdr = VALIDATE_BLITTING s (invalidate INVALID_RENDERER_SURFACE (w_rdr w));
                w = w\<lparr>w_rdr := rdr\<rparr>
            in do {
              (w, deltas) \<leftarrow>
                (if v_critical v 1 \<and> v_critical v 2 then
                   (let x_from = max x_from (r_clip_bbMinX rdr);
                        x_to = min x_to (r_clip_bbMaxX rdr)
                    in if x_to \<ge> x_from \<and> y \<ge> r_clip_bbMinY rdr \<and> y \<le> r_clip_bbMaxY rdr then
                         (let rdr = rdr\<lparr>r_minTouched := x_from, r_maxTouched := x_to, r_currX := x_from,
                              r_currY := y, r_rowNum := rowNum, r_alphaMap := Some jAlphaMap,
                              r_rowAAInt := Some jAlphaDeltas, r_alphaWidth := i32 (x_to - x_from + 1),
                              r_currImageOffset := i32 (y * s_width s), r_imageScanlineStride := s_width s,
                              r_imagePixelStride := 1\<rparr>
                          in do {
                            rdr \<leftarrow> (if genPaint (r_fns rdr) \<noteq> GenNULL
                                    then call_genPaint (v_genv v) (alloc_paint (v_genv v) (r_alphaWidth rdr) rdr) 1
                                    else Some rdr);
                            rdr \<leftarrow> call_emitRows (v_genv v) rdr 1;
                            Some (w\<lparr>w_rdr := rdr\<lparr>r_rowAAInt := None\<rparr>\<rparr>, the (r_rowAAInt rdr)) })
                       else Some (w, jAlphaDeltas))
                 else Some (setMemErrorFlag w, jAlphaDeltas));
              Some (surface_release (r_data (w_rdr w)) w, deltas) })
         else Some (w, jAlphaDeltas));
      w \<leftarrow> report_mem_error w;
      Some (w, deltas)
    }"

definition drawImageImpl ::
  "'f jvm \<Rightarrow> 'f world \<Rightarrow> jint \<Rightarrow> jint list \<Rightarrow> jint \<Rightarrow> jint \<Rightarrow> jint \<Rightarrow> jint \<Rightarrow> transform6 \<Rightarrow> bool \<Rightarrow>
   jint \<Rightarrow> jint \<Rightarrow> jint \<Rightarrow> jint \<Rightarrow> jint \<Rightarrow> jint \<Rightarrow> jint \<Rightarrow> jint \<Rightarrow> jint \<Rightarrow> jint \<Rightarrow> jint \<Rightarrow> jint \<Rightarrow> bool \<Rightarrow> 'f world option" where
  "drawImageImpl v w imageMode dataArray width height offset stride jTransform rpt bboxX bboxY bboxW bboxH
     lEdge rEdge tEdge bEdge txMn tyMn txMx tyMx hasAlpha =
    do {
      w \<leftarrow> (if v_critical v 1 then
              (let t = transform_get6 jTransform;
                   rdr = renderer_setTexture (g_float (v_genv v)) (w_rdr w) imageMode (Some dataArray) offset
                           width height stride rpt True t False hasAlpha txMn tyMn txMx tyMx
               in do {
                 w \<leftarrow> fillRect v (w\<lparr>w_rdr := rdr\<rparr>) bboxX bboxY bboxW bboxH lEdge rEdge tEdge bEdge;
                 Some (w\<lparr>w_rdr := (w_rdr w)\<lparr>r_texture := (r_texture (w_rdr w))\<lparr>tx_intData := None\<rparr>\<rparr>\<rparr>) })
            else Some (setMemErrorFlag w));
      report_mem_error w
    }"

text \<open>The rows of a mask; \<open>x\<close> is the column the source sets \<open>_currX\<close> back to.\<close>

definition fill_mask_rows ::
  "'f genv \<Rightarrow> surface \<Rightarrow> jint \<Rightarrow> jint \<Rightarrow> jint \<Rightarrow> 'f renderer \<Rightarrow> 'f renderer option" where
  "fill_mask_rows G s x maskWidth height rdr =
    loopM (\<lambda>_ rdr.
        (let rdr = rdr\<lparr>r_currImageOffset := i32 (r_currY rdr * s_width s)\<rparr>
         in do {
           rdr \<leftarrow> (if genPaint (r_fns rdr) \<noteq> GenNULL
                   then call_genPaint G (alloc_paint G (r_alphaWidth rdr) rdr) 1 else Some rdr);
           rdr \<leftarrow> call_emitRows G rdr 1;
           Some (rdr\<lparr>r_maskOffset := i32 (r_maskOffset rdr + maskWidth), r_rowNum := i32 (r_rowNum rdr + 1),
                     r_currX := x, r_currY := i32 (r_currY rdr + 1)\<rparr>) }))
      0 (nat height) rdr"

definition fillAlphaMask ::
  "'f jvm \<Rightarrow> 'f world \<Rightarrow> jint \<Rightarrow> jint \<Rightarrow> jint \<Rightarrow> jint \<Rightarrow> jint \<Rightarrow> jint list \<Rightarrow> jint \<Rightarrow> jint \<Rightarrow> jint \<Rightarrow> jint \<Rightarrow> 'f world option" where
  "fillAlphaMask v w minX minY maxX maxY maskType jmask x maskWidth maskHeight offset =
    (if maxX \<ge> minX \<and> maxY \<ge> minY then
       with_surface v (\<lambda>s w.
           if v_critical v 1 then
             (let rdr = renderer_setMask (w_rdr w) maskType (Some jmask) maskWidth maskHeight False;
                  rdr = VALIDATE_BLITTING s (invalidate INVALID_RENDERER_SURFACE rdr);
                  rdr = rdr\<lparr>r_minTouched := minX, r_maxTouched := maxX, r_currX := minX, r_currY := minY,
                            r_alphaWidth := i32 (maxX - minX + 1), r_imageScanlineStride := s_width s,
                            r_imagePixelStride := 1, r_rowNum := 0, r_maskOffset := offset\<rparr>
              in do {
                rdr \<leftarrow> fill_mask_rows (v_genv v) s x maskWidth (i32 (maxY - minY + 1)) rdr;
                Some (w\<lparr>w_rdr := renderer_removeMask rdr\<rparr>) })
           else Some (setMemErrorFlag w)) w
     else Some w)"

definition fillAlphaMaskImpl ::
  "'f jvm \<Rightarrow> 'f world \<Rightarrow> jint list \<Rightarrow> jint \<Rightarrow> jint \<Rightarrow> jint \<Rightarrow> jint \<Rightarrow> jint \<Rightarrow> jint \<Rightarrow> 'f world option" where
  "fillAlphaMaskImpl v w jmask x y maskWidth maskHeight offset stride =
    (let rdr = w_rdr w;
         minX = max x (r_clip_bbMinX rdr);
         minY = max y (r_clip_bbMinY rdr);
         maxX = min (i32 (x + maskWidth - 1)) (r_clip_bbMaxX rdr);
         maxY = min (i32 (y + maskHeight - 1)) (r_clip_bbMaxY rdr);
         maskOffset = i32 (offset + (minY - y) * maskWidth + minX - x)
     in fillAlphaMask v w minX minY maxX maxY ALPHA_MASK jmask x maskWidth maskHeight maskOffset)"

definition fillLCDAlphaMaskImpl ::
  "'f jvm \<Rightarrow> 'f world \<Rightarrow> jint list \<Rightarrow> jint \<Rightarrow> jint \<Rightarrow> jint \<Rightarrow> jint \<Rightarrow> jint \<Rightarrow> jint \<Rightarrow> 'f world option" where
  "fillLCDAlphaMaskImpl v w jmask x y maskWidth maskHeight offset stride =
    (let rdr = w_rdr w;
         minX = max x (r_clip_bbMinX rdr);
         minY = max y (r_clip_bbMinY rdr);
         maxX = min (i32 (x + cdiv maskWidth 3 - 1)) (r_clip_bbMaxX rdr);
         maxY = min (i32 (y + maskHeight - 1)) (r_clip_bbMaxY rdr);
         maskOffset = i32 (offset + (minY - y) * maskWidth + (minX - x) * 3)
     in fillAlphaMask v w minX minY maxX maxY LCD_ALPHA_MASK jmask x maskWidth maskHeight maskOffset)"

definition setLCDGammaCorrectionImpl ::
  "('f \<Rightarrow> jint \<Rightarrow> jint) \<Rightarrow> ('f \<Rightarrow> 'f) \<Rightarrow> 'f \<Rightarrow> 'f gamma_tables \<Rightarrow> 'f gamma_tables" where
  "setLCDGammaCorrectionImpl gpow ginv gamma gt = initGammaArrays gpow ginv gamma gt"

section \<open>A band of rows\<close>

text \<open>The vertical coverage of row \<open>j\<close> of a rectangle of \<open>H\<close> rows.\<close>

definition row_frac :: "jint \<Rightarrow> jint \<Rightarrow> jint \<Rightarrow> int \<Rightarrow> jint" where
  "row_frac H tfrac bfrac j =
    (if tfrac \<noteq> 0 \<and> j = 0 then tfrac else if bfrac \<noteq> 0 \<and> j = H - 1 then bfrac else 0x10000)"

definition band_ok :: "jint \<Rightarrow> jint \<Rightarrow> jint \<Rightarrow> bool" where
  "band_ok H tfrac bfrac \<longleftrightarrow> (if tfrac \<noteq> 0 then 1 else 0) + (if bfrac \<noteq> 0 then 1 else 0) \<le> H \<and> 0 \<le> H"

text \<open>
  The contract of a way to paint rows: \<open>D p j rdr\<close> says that the renderer stands before row \<open>j\<close> with the
  rows above it painted, and one call of \<open>emit_part\<close> paints \<open>n\<close> more rows of the same coverage.
\<close>

locale band_fill =
  fixes G :: "'f genv" and s :: surface
    and geo :: "'p \<Rightarrow> jint \<times> jint \<times> jint \<times> jint"
    and D :: "'p \<Rightarrow> int \<Rightarrow> 'f renderer \<Rightarrow> bool"
  assumes emit: "geo p = (x_from, H, tfrac, bfrac) \<Longrightarrow> D p j rdr \<Longrightarrow> 0 \<le> j \<Longrightarrow> 1 \<le> n \<Longrightarrow> j + n \<le> H \<Longrightarrow>
      (\<And>i. j \<le> i \<Longrightarrow> i < j + n \<Longrightarrow> row_frac H tfrac bfrac i = frac) \<Longrightarrow>
      \<exists>rdr'. emit_part G n frac rdr = Some rdr' \<and> D p (j + n) (advance_rows s x_from n rdr')"
begin

lemma full_rows:
  assumes geo: "geo p = (x_from, H, tfrac, bfrac)" and D: "D p j rdr"
    and j: "0 \<le> j" "tfrac \<noteq> 0 \<longrightarrow> 0 < j" "0 \<le> rows" "j + rows + (if bfrac \<noteq> 0 then 1 else 0) \<le> H"
  shows "\<exists>rdr'. fill_full_rows G s x_from rows rdr = Some rdr' \<and> D p (j + rows) rdr'"
  using D j
proof (induction "nat rows" arbitrary: rows j rdr rule: less_induct)
  case less
  show ?case
  proof (cases "rows > 0")
    case True
    let ?n = "min rows NUM_ALPHA_ROWS"
    have n: "1 \<le> ?n" "?n \<le> rows" using True by (auto simp: NUM_ALPHA_ROWS_def)
    have "\<exists>rdr'. emit_part G ?n 0x10000 rdr = Some rdr' \<and> D p (j + ?n) (advance_rows s x_from ?n rdr')"
    proof (rule emit [OF geo less.prems(1,2) n(1)])
      fix i assume "j \<le> i" "i < j + ?n"
      then show "row_frac H tfrac bfrac i = 0x10000"
        using less.prems n by (auto simp: row_frac_def split: if_splits)
    qed (use n less.prems in \<open>auto split: if_splits\<close>)
    then obtain r1 where r1: "emit_part G ?n 0x10000 rdr = Some r1" "D p (j + ?n) (advance_rows s x_from ?n r1)" by blast
    have "\<exists>rdr'. fill_full_rows G s x_from (rows - ?n) (advance_rows s x_from ?n r1) = Some rdr'
        \<and> D p (j + ?n + (rows - ?n)) rdr'"
      by (rule less.hyps [OF _ r1(2)]) (use n less.prems in auto)
    then show ?thesis using True r1(1) by (subst fill_full_rows.simps) simp
  next
    case False
    then show ?thesis using less.prems by (subst fill_full_rows.simps) simp
  qed
qed

lemma band:
  assumes geo: "geo p = (x_from, H, tfrac, bfrac)" and D: "D p 0 rdr" and ok: "band_ok H tfrac bfrac"
  shows "\<exists>rdr'. fill_band G s x_from H tfrac bfrac rdr = Some rdr' \<and>
    (D p H rdr' \<or> D p H (advance_rows s x_from 1 rdr'))"
proof -
  let ?t = "if tfrac \<noteq> 0 then 1 else 0 :: int" and ?b = "if bfrac \<noteq> 0 then 1 else 0 :: int"
  have H: "?t + ?b \<le> H" "0 \<le> H" using ok by (auto simp: band_ok_def)
  have top: "\<exists>r1. (if tfrac \<noteq> 0 then do { rdr \<leftarrow> emit_part G 1 tfrac rdr;
        Some (advance_rows s x_from 1 rdr, H - ?b - 1) } else Some (rdr, H - ?b)) = Some (r1, H - ?b - ?t) \<and> D p ?t r1"
  proof (cases "tfrac = 0")
    case False
    have "\<exists>rdr'. emit_part G 1 tfrac rdr = Some rdr' \<and> D p (0 + 1) (advance_rows s x_from 1 rdr')"
      by (rule emit [OF geo D]) (use False H in \<open>auto simp: row_frac_def split: if_splits\<close>)
    then show ?thesis using False by auto
  qed (use D in simp)
  then obtain r1 where r1: "(if tfrac \<noteq> 0 then do { rdr \<leftarrow> emit_part G 1 tfrac rdr;
        Some (advance_rows s x_from 1 rdr, H - ?b - 1) } else Some (rdr, H - ?b)) = Some (r1, H - ?b - ?t)" "D p ?t r1"
    by blast
  have "\<exists>r2. fill_full_rows G s x_from (H - ?b - ?t) r1 = Some r2 \<and> D p (?t + (H - ?b - ?t)) r2"
    by (rule full_rows [OF geo r1(2)]) (use H in auto)
  then obtain r2 where r2: "fill_full_rows G s x_from (H - ?b - ?t) r1 = Some r2" "D p (H - ?b) r2" by auto
  have bot: "\<exists>r3. emit_part G 1 bfrac r2 = Some r3 \<and> D p (H - 1 + 1) (advance_rows s x_from 1 r3)" if "bfrac \<noteq> 0"
    by (rule emit [OF geo]) (use that r2(2) H in \<open>auto simp: row_frac_def split: if_splits\<close>)
  have "fill_band G s x_from H tfrac bfrac rdr = (if bfrac \<noteq> 0 then emit_part G 1 bfrac r2 else Some r2)"
    unfolding fill_band_def Let_def r1(1) by (simp add: r2(1))
  then show ?thesis using bot r2(2) by (cases "bfrac = 0") auto
qed

end

section \<open>Flat colours, SrcOver\<close>

text \<open>
  A prepared renderer \<open>R\<close> stands at the first of \<open>H\<close> rows of a rectangle that lies in the pixels \<open>xs\<close>.
\<close>

definition fill_frame :: "surface \<Rightarrow> 'f renderer \<Rightarrow> jint \<Rightarrow> jint list \<Rightarrow> bool" where
  "fill_frame s R H xs \<longleftrightarrow>
     r_imagePixelStride R = 1 \<and> r_imageScanlineStride R = s_width s \<and> 0 < s_width s \<and>
     0 \<le> r_minTouched R \<and> 0 \<le> r_alphaWidth R \<and> r_minTouched R + r_alphaWidth R \<le> s_width s \<and> r_currX R = r_minTouched R \<and>
     0 \<le> r_currY R \<and> 0 \<le> H \<and> (r_currY R + H) * s_width s \<le> int (length xs) \<and> int (length xs) < 2147483648"

definition at_row :: "surface \<Rightarrow> 'f renderer \<Rightarrow> int \<Rightarrow> jint list \<Rightarrow> 'f renderer" where
  "at_row s R j d = R\<lparr>r_data := Some d, r_currY := r_currY R + j,
     r_currImageOffset := (r_currY R + j) * s_width s, r_rowNum := j\<rparr>"

definition first_px :: "surface \<Rightarrow> 'f renderer \<Rightarrow> int" where
  "first_px s R = r_currY R * s_width s + r_minTouched R"

lemma frame_row:
  assumes "fill_frame s R H xs" "0 \<le> j" "j \<le> H"
  shows "0 \<le> (r_currY R + j) * s_width s" "(r_currY R + j) * s_width s \<le> int (length xs)"
    "r_currY R + j < 2147483648" "j < 2147483648" "jint_range ((r_currY R + j) * s_width s)"
proof -
  have f: "0 < s_width s" "0 \<le> r_currY R" "(r_currY R + H) * s_width s \<le> int (length xs)" "int (length xs) < 2147483648"
    using assms(1) by (auto simp: fill_frame_def)
  have m: "(r_currY R + j) * s_width s \<le> (r_currY R + H) * s_width s" using assms f by (intro mult_right_mono) auto
  have "(r_currY R + j) * 1 \<le> (r_currY R + j) * s_width s" using assms f by (intro mult_left_mono) auto
  then have "r_currY R + j \<le> (r_currY R + j) * s_width s" by simp
  then show "r_currY R + j < 2147483648" "j < 2147483648" using m f by linarith+
  show z: "0 \<le> (r_currY R + j) * s_width s" using assms f by simp
  show l: "(r_currY R + j) * s_width s \<le> int (length xs)" using m f by linarith
  show "jint_range ((r_currY R + j) * s_width s)" using z l f by (simp add: jint_range_def)
qed

lemma at_row_sel [simp]:
  "el_coverage (at_row s R j d) = el_coverage R" "flat_colour (at_row s R j d) = flat_colour R"
  "el_fracs (at_row s R j d) = el_fracs R" "r_alphaWidth (at_row s R j d) = r_alphaWidth R"
  "r_cred (at_row s R j d) = r_cred R" "r_cgreen (at_row s R j d) = r_cgreen R" "r_cblue (at_row s R j d) = r_cblue R"
  by (simp_all add: fun_eq_iff at_row_def el_coverage_def el_alpha_def flat_colour_def el_fracs_def Let_def)

lemma advance_at_row:
  assumes "fill_frame s R H xs" "0 \<le> j" "0 \<le> n" "j + n \<le> H"
  shows "advance_rows s (r_minTouched R) n ((at_row s R j d)\<lparr>r_data := Some e\<rparr>) = at_row s R (j + n) e"
proof -
  have e: "r_currY R + j + n = r_currY R + (j + n)" by simp
  note f = frame_row [OF assms(1), of "j + n"]
  have "0 \<le> r_currY R" using assms(1) by (simp add: fill_frame_def)
  then have k: "i32 (r_currY R + (j + n)) = r_currY R + (j + n)" "i32 (j + n) = j + n" using f assms by (auto intro!: i32_id)
  have k2: "i32 ((r_currY R + (j + n)) * s_width s) = (r_currY R + (j + n)) * s_width s"
    using f(5) assms by (intro i32_id) (auto simp: jint_range_def)
  show ?thesis using assms(1) by (simp add: advance_rows_def at_row_def e k k2 fill_frame_def)
qed

lemma at_row_fits:
  assumes "fill_frame s R H xs" "0 \<le> j" "1 \<le> n" "j + n \<le> H" "length d = length xs"
  shows "rect_fits (at_row s R j d) (r_alphaWidth R) n d"
proof -
  have f: "0 < s_width s" "r_minTouched R + r_alphaWidth R \<le> s_width s" "0 \<le> r_minTouched R" "0 \<le> r_alphaWidth R"
    "int (length xs) < 2147483648" "0 \<le> H" "0 \<le> r_currY R"
    using assms(1) by (auto simp: fill_frame_def)
  have r: "(r_currY R + (j + n)) * s_width s \<le> int (length xs)" using frame_row(2) [OF assms(1), of "j + n"] assms by auto
  have "(r_currY R + j) * s_width s + (n - 1) * s_width s + s_width s = (r_currY R + (j + n)) * s_width s"
    by (simp add: algebra_simps)
  moreover have "1 * s_width s \<le> (r_currY R + (j + n)) * s_width s" using f assms by (intro mult_right_mono) auto
  moreover from this have "r_alphaWidth R < 2147483648" using f r by linarith
  ultimately show ?thesis
    using assms f r frame_row [OF assms(1), of j] by (simp add: rect_fits_def at_row_def fill_frame_def)
qed

lemma painted_at_row:
  assumes "fill_frame s R H xs" "0 \<le> j" "1 \<le> n" "j + n \<le> H"
    and "d = upd_rect (first_px s R) (s_width s) (r_alphaWidth R) j g xs"
  shows "painted (at_row s R j d) (r_alphaWidth R) n (\<lambda>i. g (j + i)) d
    = (at_row s R j d)\<lparr>r_data := Some (upd_rect (first_px s R) (s_width s) (r_alphaWidth R) (j + n) g xs)\<rparr>"
proof -
  have e: "(r_currY R + j) * s_width s + r_minTouched R = first_px s R + j * s_width s"
    by (simp add: first_px_def algebra_simps)
  show ?thesis
    using upd_rect_append [of j "r_alphaWidth R" "s_width s" "first_px s R" "nat n" g xs] assms
    by (simp add: painted_def at_row_def e fill_frame_def)
qed

text \<open>The pixel a flat fill leaves in row \<open>j\<close> and column \<open>c\<close> of the rectangle.\<close>

definition flat_pixel :: "'f renderer \<Rightarrow> jint \<Rightarrow> jint \<Rightarrow> jint \<Rightarrow> int \<Rightarrow> int \<Rightarrow> jint \<Rightarrow> jint" where
  "flat_pixel R H tfrac bfrac j c p =
    blendSrcOver8888_pre p (el_coverage R (row_frac H tfrac bfrac j) c) (r_cred R) (r_cgreen R) (r_cblue R)"

definition flat_D ::
  "surface \<Rightarrow> 'f renderer \<times> jint \<times> jint \<times> jint \<times> jint list \<Rightarrow> int \<Rightarrow> 'f renderer \<Rightarrow> bool" where
  "flat_D s p j rdr \<longleftrightarrow>
    (case p of (R, H, tfrac, bfrac, xs) \<Rightarrow>
       fill_frame s R H xs \<and> genPaint (r_fns R) = GenNULL \<and> emitLine (r_fns R) = EmitLineSourceOver8888_pre \<and>
       flat_colour R \<and> el_fracs R 0 \<and> 0 \<le> tfrac \<and> tfrac < 0x10000 \<and> 0 \<le> bfrac \<and> bfrac < 0x10000 \<and>
       rdr = at_row s R j
         (upd_rect (first_px s R) (s_width s) (r_alphaWidth R) j (flat_pixel R H tfrac bfrac) xs))"

lemma flat_emit:
  assumes D: "flat_D s (R, H, tfrac, bfrac, xs) j rdr" and j: "0 \<le> j" "1 \<le> n" "j + n \<le> H"
    and fr: "\<And>i. j \<le> i \<Longrightarrow> i < j + n \<Longrightarrow> row_frac H tfrac bfrac i = frac"
  shows "\<exists>rdr'. emit_part G n frac rdr = Some rdr' \<and>
    flat_D s (R, H, tfrac, bfrac, xs) (j + n) (advance_rows s (r_minTouched R) n rdr')"
proof -
  define d where "d = upd_rect (first_px s R) (s_width s) (r_alphaWidth R) j (flat_pixel R H tfrac bfrac) xs"
  define e where "e = upd_rect (first_px s R) (s_width s) (r_alphaWidth R) (j + n) (flat_pixel R H tfrac bfrac) xs"
  have rdr: "rdr = at_row s R j d" and F: "fill_frame s R H xs" "flat_colour R" "el_fracs R 0"
    "genPaint (r_fns R) = GenNULL" "emitLine (r_fns R) = EmitLineSourceOver8888_pre"
    "0 \<le> tfrac" "tfrac < 0x10000" "0 \<le> bfrac" "bfrac < 0x10000"
    using D by (auto simp: flat_D_def d_def)
  note fit = at_row_fits [OF F(1) j, of d, unfolded d_def length_upd_rect, folded d_def, OF refl]
  have "frac = row_frac H tfrac bfrac j" using fr [of j] j by simp
  then have fb: "0 \<le> frac" "frac \<le> 0x10000" using F by (auto simp: row_frac_def)
  have "emitLineSourceOver8888_pre rdr n frac = Some (painted rdr (r_alphaWidth R) n
      (\<lambda>_ c p. blendSrcOver8888_pre p (el_coverage R frac c) (r_cred R) (r_cgreen R) (r_cblue R)) d)"
    using emitLineSourceOver_exact [of rdr n d frac] fit F fb unfolding rdr
    by (simp add: el_fracs_def)
  also have "painted rdr (r_alphaWidth R) n
      (\<lambda>_ c p. blendSrcOver8888_pre p (el_coverage R frac c) (r_cred R) (r_cgreen R) (r_cblue R)) d
    = painted rdr (r_alphaWidth R) n (\<lambda>i. flat_pixel R H tfrac bfrac (j + i)) d"
    unfolding rdr using fr by (intro painted_cong [OF fit]) (simp add: flat_pixel_def)
  also have "\<dots> = rdr\<lparr>r_data := Some e\<rparr>"
    unfolding rdr e_def by (rule painted_at_row [OF F(1) j d_def])
  finally have "emit_part G n frac rdr = Some (rdr\<lparr>r_data := Some e\<rparr>)"
    unfolding rdr by (simp add: emit_part_def call_emitLine_def at_row_def F)
  moreover have "advance_rows s (r_minTouched R) n (rdr\<lparr>r_data := Some e\<rparr>) = at_row s R (j + n) e"
    unfolding rdr using advance_at_row [OF F(1)] j by simp
  ultimately show ?thesis using F by (simp add: flat_D_def e_def)
qed

interpretation flat_band: band_fill G s "\<lambda>(R, H, tfrac, bfrac, xs). (r_minTouched R, H, tfrac, bfrac)" "flat_D s"
proof
  fix p x_from H tfrac bfrac j n frac and rdr :: "'a renderer"
  assume "(\<lambda>(R, H, tfrac, bfrac, xs). (r_minTouched R, H, tfrac, bfrac)) p = (x_from, H, tfrac, bfrac)"
    "flat_D s p j rdr" "0 \<le> j" "1 \<le> n" "j + n \<le> H"
    "\<And>i. j \<le> i \<Longrightarrow> i < j + n \<Longrightarrow> row_frac H tfrac bfrac i = frac"
  then show "\<exists>rdr'. emit_part G n frac rdr = Some rdr' \<and> flat_D s p (j + n) (advance_rows s x_from n rdr')"
    using flat_emit [of s _ H tfrac bfrac _ j rdr n frac G] by (cases p) auto
qed

lemma flat_band_exact:
  assumes "fill_frame s R H xs" "r_data R = Some xs" "r_currImageOffset R = r_currY R * s_width s" "r_rowNum R = 0"
    and "genPaint (r_fns R) = GenNULL" "emitLine (r_fns R) = EmitLineSourceOver8888_pre"
    and "flat_colour R" "el_fracs R 0" "0 \<le> tfrac" "tfrac < 0x10000" "0 \<le> bfrac" "bfrac < 0x10000" "band_ok H tfrac bfrac"
  shows "\<exists>rdr'. fill_band G s (r_minTouched R) H tfrac bfrac R = Some rdr' \<and>
    r_data rdr' = Some (upd_rect (first_px s R) (s_width s) (r_alphaWidth R) H (flat_pixel R H tfrac bfrac) xs)"
proof -
  have z: "at_row s R 0 xs = R" using assms(2-4) by (simp add: at_row_def)
  have "flat_D s (R, H, tfrac, bfrac, xs) 0 R"
    using assms by (simp add: flat_D_def z fill_frame_def)
  from flat_band.band [where x_from = "r_minTouched R", OF _ this assms(13)]
  obtain rdr' where r: "fill_band G s (r_minTouched R) H tfrac bfrac R = Some rdr'"
    "flat_D s (R, H, tfrac, bfrac, xs) H rdr' \<or>
     flat_D s (R, H, tfrac, bfrac, xs) H (advance_rows s (r_minTouched R) 1 rdr')" by auto
  have "r_data (advance_rows s (r_minTouched R) 1 rdr') = r_data rdr'" by (simp add: advance_rows_def)
  with r show ?thesis by (auto simp: flat_D_def at_row_def)
qed

section \<open>The geometry of an axis\<close>

text \<open>The length of the part of \<open>[a, b)\<close> that lies in pixel \<open>i\<close>, in 16.16 fixed point.\<close>

definition overlap :: "int \<Rightarrow> int \<Rightarrow> int \<Rightarrow> int" where
  "overlap a b i = max 0 (min b ((i + 1) * 65536) - max a (i * 65536))"

lemma fill_axis_fracs:
  assumes "clip_axis mn mx (fill_axis x w l r) = (x_from, x_to, lf, rf)"
  shows "0 \<le> lf" "lf < 0x10000" "0 \<le> rf" "rf < 0x10000" "mn \<le> x_from" "x_to \<le> mx"
  using assms by (auto simp: clip_axis_def fill_axis_def Let_def and_ffff split: prod.splits if_splits)

lemma single_axis_ok:
  assumes "single_axis (x_from, x_to, lf, rf) = (l, r)" "x_from \<le> x_to"
    "0 \<le> lf" "lf < 0x10000" "0 \<le> rf" "rf < 0x10000"
  shows "band_ok (x_to - x_from + 1) l r" "0 \<le> l" "l < 0x10000" "0 \<le> r" "r < 0x10000"
  using assms by (auto simp: single_axis_def band_ok_def and_ffff split: if_splits)

lemma overlap_pixel:
  assumes "0 \<le> m" "m < 65536" "0 \<le> m2" "m2 < 65536" "q * 65536 + m < q2 * 65536 + m2"
    and t: "t = (if m2 \<noteq> 0 then q2 else q2 - 1)" and X: "q \<le> X" "X \<le> t"
  shows "overlap (q * 65536 + m) (q2 * 65536 + m2) X
    = (if X = t \<and> m2 \<noteq> 0 then m2 else 65536) - (if X = q then m else 0)"
proof -
  have hi: "min (q2 * 65536 + m2) ((X + 1) * 65536) = X * 65536 + (if X = t \<and> m2 \<noteq> 0 then m2 else 65536)"
    using X t assms(1-5) by (cases "X = t") (auto simp: min_def split: if_splits)
  have lo: "max (q * 65536 + m) (X * 65536) = X * 65536 + (if X = q then m else 0)"
    using X assms(1-5) by (cases "X = q") (auto simp: max_def)
  have "m < m2" if "q = t" "m2 \<noteq> 0" using that assms(5) t by simp
  then show ?thesis
    unfolding overlap_def hi lo using X assms(1-4) by (auto simp: max_def split: if_splits)
qed

lemma axis_coverage:
  assumes x: "jint_range x" "0 < w" "x + w < 2147483648"
    and e: "clip_axis mn mx (fill_axis x w IMAGE_FRAC_EDGE_KEEP IMAGE_FRAC_EDGE_KEEP) = (x_from, x_to, lf, rf)"
    and s: "single_axis (x_from, x_to, lf, rf) = (l, r)" and c: "x_from \<le> x_to" "0 \<le> c" "c \<le> x_to - x_from"
  shows "row_frac (x_to - x_from + 1) l r c = overlap x (x + w) (x_from + c)"
proof -
  have xw: "i32 (x + w) = x + w" using x by (intro i32_id) (auto simp: jint_range_def)
  define q m q2 m2 where "q = x div 65536" "m = x mod 65536" "q2 = (x + w) div 65536" "m2 = (x + w) mod 65536"
  have d: "x = q * 65536 + m" "x + w = q2 * 65536 + m2" "0 \<le> m" "m < 65536" "0 \<le> m2" "m2 < 65536"
    by (simp_all add: q_m_q2_m2_def)
  have lf: "- m mod 65536 = (if m = 0 then 0 else 65536 - m)" using d zmod_zminus1_eq_if [of m 65536] by auto
  have f: "fill_axis x w IMAGE_FRAC_EDGE_KEEP IMAGE_FRAC_EDGE_KEEP =
      (q, if m2 \<noteq> 0 then q2 else q2 - 1, if m = 0 then 0 else 65536 - m, m2)"
    by (simp add: fill_axis_def Let_def pisces_consts and_ffff xw sar_def q_m_q2_m2_def [symmetric] lf)
  have le: "q * 65536 + m < q2 * 65536 + m2" using x(2) d by linarith
  define t where "t = (if m2 \<noteq> 0 then q2 else q2 - 1)"
  have t: "t * 65536 < q2 * 65536 + m2" "q2 * 65536 + m2 \<le> (t + 1) * 65536" "m2 \<noteq> 0 \<longrightarrow> q2 = t" "m2 = 0 \<longrightarrow> q2 = t + 1"
    "q \<le> t"
    using d le unfolding t_def by auto
  have ax: "x_from = max mn q" "x_to = min mx t" "lf = (if q < mn \<or> m = 0 then 0 else 65536 - m)"
    "rf = (if t > mx then 0 else m2)"
    using e unfolding f clip_axis_def t_def [symmetric] by (auto simp: Let_def max_def split: if_splits)
  have "(l, r) = (if x_from = x_to \<and> (lf \<noteq> 0 \<or> rf \<noteq> 0)
      then (if lf \<noteq> 0 \<and> rf \<noteq> 0 then lf + rf - 65536 else lf + rf, 0) else (lf, rf))"
  proof -
    have "lf + rf \<ge> 65536" if "x_from = x_to" "lf \<noteq> 0" "rf \<noteq> 0"
    proof -
      have "q = t" "lf = 65536 - m" "rf = m2" "q2 = t" using that ax t by (auto split: if_splits)
      then show ?thesis using le by simp
    qed
    then have "(rf - 65536 + lf) mod 65536 = (if lf \<noteq> 0 \<and> rf \<noteq> 0 then lf + rf - 65536 else lf + rf)"
      if "x_from = x_to" "lf \<noteq> 0 \<or> rf \<noteq> 0"
      using that fill_axis_fracs [OF e] mod_add_self2 [of "rf - 65536 + lf" 65536]
      by (auto simp: mod_pos_pos_trivial add.commute)
    then show ?thesis using s unfolding single_axis_def by (auto simp: and_ffff split: if_splits)
  qed
  then have lr: "l = (if x_from = x_to \<and> (lf \<noteq> 0 \<or> rf \<noteq> 0) then (if lf \<noteq> 0 \<and> rf \<noteq> 0 then lf + rf - 65536 else lf + rf) else lf)"
    "r = (if x_from = x_to \<and> (lf \<noteq> 0 \<or> rf \<noteq> 0) then 0 else rf)" by (auto split: if_splits)
  define X where "X = x_from + c"
  have X: "q \<le> X" "X \<le> t" "x_from \<le> X" "X \<le> x_to" "c = 0 \<longleftrightarrow> X = x_from" "c = x_to - x_from + 1 - 1 \<longleftrightarrow> X = x_to"
    using c ax by (auto simp: X_def)
  have mm: "m < m2" if "q = t" "m2 \<noteq> 0" using that le t(3) by simp
  have ov: "overlap x (x + w) X = (if X = t \<and> m2 \<noteq> 0 then m2 else 65536) - (if X = q then m else 0)"
    unfolding d(2) unfolding d(1) using overlap_pixel d(3-6) le t_def X(1,2) by simp
  show ?thesis
    unfolding X_def [symmetric] ov row_frac_def X(5,6) lr
    using X(1-4) ax t d(3-6) mm by (auto simp: max_def min_def split: if_splits)
qed

text \<open>The columns of the clipped rectangle are the clipped pixels it overlaps.\<close>

lemma overlap_pos:
  assumes "0 < w"
  shows "0 < overlap x (x + w) X \<longleftrightarrow> x div 65536 \<le> X \<and> X \<le> (x + w - 1) div 65536"
proof -
  have "0 < overlap x (x + w) X \<longleftrightarrow> x < (X + 1) * 65536 \<and> X * 65536 < x + w"
    using assms by (auto simp: overlap_def max_def min_def)
  also have "\<dots> \<longleftrightarrow> x div 65536 \<le> X \<and> X \<le> (x + w - 1) div 65536" by auto
  finally show ?thesis .
qed

lemma axis_range:
  assumes x: "jint_range x" "0 < w" "x + w < 2147483648"
    and e: "clip_axis mn mx (fill_axis x w IMAGE_FRAC_EDGE_KEEP IMAGE_FRAC_EDGE_KEEP) = (x_from, x_to, lf, rf)"
  shows "x_from \<le> X \<and> X \<le> x_to \<longleftrightarrow> mn \<le> X \<and> X \<le> mx \<and> 0 < overlap x (x + w) X"
proof -
  have xw: "i32 (x + w) = x + w" using x by (intro i32_id) (auto simp: jint_range_def)
  have t: "(if (x + w) mod 65536 \<noteq> 0 then (x + w) div 65536 else (x + w) div 65536 - 1) = (x + w - 1) div 65536"
  proof -
    have "x + w - 1 = ((x + w) mod 65536 - 1) + (x + w) div 65536 * 65536" by simp
    then have "(x + w - 1) div 65536 = (x + w) div 65536 + ((x + w) mod 65536 - 1) div 65536"
      by (metis div_mult_self1 zero_neq_numeral)
    then show ?thesis
      using pos_mod_bound [of 65536 "x + w"] pos_mod_sign [of 65536 "x + w"] by (simp add: div_pos_pos_trivial)
  qed
  have "x_from = max mn (x div 65536)" "x_to = min mx ((x + w - 1) div 65536)"
    using e t unfolding fill_axis_def clip_axis_def Let_def
    by (auto simp: pisces_consts and_ffff xw sar_def max_def split: if_splits)
  then show ?thesis unfolding overlap_pos [OF x(2)] by auto
qed

section \<open>Coverage\<close>

text \<open>
  The coverage, out of 255, that the flat emitter gives to a pixel whose horizontal coverage is \<open>h\<close> and
  whose vertical coverage is \<open>v\<close>, both out of 65536, for a colour with alpha \<open>a\<close>.
\<close>

definition rect_coverage :: "jint \<Rightarrow> jint \<Rightarrow> jint \<Rightarrow> jint" where
  "rect_coverage a h v =
    (let alpha = a * v div 65536
     in if h = 65536 then alpha else if alpha = 255 then h div 256 else h * alpha div 65536)"

lemma el_coverage_rect:
  assumes "el_fracs R frac"
  shows "el_coverage R frac c
    = rect_coverage (r_calpha R) (row_frac (r_alphaWidth R) (r_el_lfrac R) (r_el_rfrac R) c) frac"
  using assms by (auto simp: el_coverage_def rect_coverage_def row_frac_def el_alpha_def Let_def el_fracs_def)

text \<open>It is the exact area times alpha, up to less than two units.\<close>

lemma rect_coverage_bounds:
  assumes a: "byte a" and h: "0 \<le> h" "h \<le> 65536" and v: "0 \<le> v" "v \<le> 65536"
  shows "a * h * v < (rect_coverage a h v + 2) * 4294967296" "rect_coverage a h v * 4294967296 < a * h * v + 4294967296"
    "byte (rect_coverage a h v)"
proof -
  define al where "al = a * v div 65536"
  have al: "al * 65536 \<le> a * v" "a * v < (al + 1) * 65536" unfolding al_def by auto
  have alb: "0 \<le> al" "al \<le> 255" using frac_scale(2) [OF a v] by (auto simp: al_def byte_def)
  have m: "h * (al * 65536) \<le> h * (a * v)" "h * (a * v) \<le> h * ((al + 1) * 65536)"
    using al h by (auto intro!: mult_left_mono)
  have c: "rect_coverage a h v = (if h = 65536 then al else if al = 255 then h div 256 else h * al div 65536)"
    by (simp add: rect_coverage_def al_def)
  have e: "a * h * v = h * (a * v)" by simp
  consider "h = 65536" | "h < 65536" "al = 255" | "h < 65536" "al \<noteq> 255" using h by linarith
  then have "a * h * v < (rect_coverage a h v + 2) * 4294967296 \<and> rect_coverage a h v * 4294967296 < a * h * v + 4294967296
    \<and> byte (rect_coverage a h v)"
  proof cases
    case 1
    then show ?thesis using al alb unfolding e c by (simp add: byte_def)
  next
    case 2
    have q: "h div 256 * 256 \<le> h" "h < (h div 256 + 1) * 256" by auto
    have "h div 256 \<le> 255" "0 \<le> h div 256" using 2 h by auto
    then show ?thesis using 2 q m unfolding e c by (simp add: byte_def)
  next
    case 3
    have q: "h * al div 65536 * 65536 \<le> h * al" "h * al < (h * al div 65536 + 1) * 65536" by auto
    have "h * al \<le> 65536 * al" using 3 alb by (intro mult_right_mono) auto
    then have "h * al div 65536 \<le> al" "0 \<le> h * al div 65536" using alb h by (auto simp: pos_imp_zdiv_nonneg_iff)
    then show ?thesis using 3 q m alb h unfolding e c by (simp add: byte_def algebra_simps)
  qed
  then show "a * h * v < (rect_coverage a h v + 2) * 4294967296" "rect_coverage a h v * 4294967296 < a * h * v + 4294967296"
    "byte (rect_coverage a h v)" by blast+
qed

section \<open>Drawing on a surface\<close>

text \<open>A clip rectangle that lies in the surface.\<close>

definition clip_ok :: "'f world \<Rightarrow> bool" where
  "clip_ok w \<longleftrightarrow>
     0 \<le> r_clip_bbMinX (w_rdr w) \<and> r_clip_bbMaxX (w_rdr w) < s_width (w_surface w) \<and>
     0 \<le> r_clip_bbMinY (w_rdr w) \<and> r_clip_bbMaxY (w_rdr w) < s_height (w_surface w)"

lemma with_surface_ok:
  assumes "surface_ok v w"
    and "body ((w_surface w)\<lparr>s_data := Some (w_array w)\<rparr>) (w\<lparr>w_surface := (w_surface w)\<lparr>s_data := Some (w_array w)\<rparr>\<rparr>)
      = Some (w\<lparr>w_surface := (w_surface w)\<lparr>s_data := Some (w_array w)\<rparr>, w_rdr := rdr\<rparr>)"
    and "r_data rdr = Some ys"
  shows "with_surface v body w
    = Some (w\<lparr>w_surface := (w_surface w)\<lparr>s_data := Some (w_array w)\<rparr>, w_rdr := rdr, w_array := ys\<rparr>)"
proof -
  have "\<not> w_memerr w" using assms(1) by (simp add: surface_ok_def Let_def)
  then show ?thesis
    using assms by (simp add: with_surface_def acquire_ok readMemErrorFlag_def surface_release_def report_none)
qed

text \<open>The pixel \<open>p\<close> of column \<open>X\<close> and row \<open>Y\<close> after the rectangle \<open>x, y, wd, h\<close> was filled.\<close>

definition fill_px :: "'f renderer \<Rightarrow> jint \<Rightarrow> jint \<Rightarrow> jint \<Rightarrow> jint \<Rightarrow> int \<Rightarrow> int \<Rightarrow> jint \<Rightarrow> jint" where
  "fill_px rdr x y wd h X Y p =
    (if r_clip_bbMinX rdr \<le> X \<and> X \<le> r_clip_bbMaxX rdr \<and> r_clip_bbMinY rdr \<le> Y \<and> Y \<le> r_clip_bbMaxY rdr \<and>
        0 < overlap x (x + wd) X \<and> 0 < overlap y (y + h) Y
     then blendSrcOver8888_pre p (rect_coverage (r_ualpha rdr) (overlap x (x + wd) X) (overlap y (y + h) Y))
            (r_ured rdr) (r_ugreen rdr) (r_ublue rdr)
     else p)"

definition fill_spec :: "'f renderer \<Rightarrow> int \<Rightarrow> jint \<Rightarrow> jint \<Rightarrow> jint \<Rightarrow> jint \<Rightarrow> jint list \<Rightarrow> jint list" where
  "fill_spec rdr W x y wd h xs =
    map (\<lambda>i. fill_px rdr x y wd h (int i mod W) (int i div W) (xs ! i)) [0..<length xs]"

lemma in_rect_surface:
  assumes "0 < W" "0 \<le> xf" "0 < aw" "xf + aw \<le> W" "0 \<le> yf" "0 \<le> i"
  shows "in_rect (yf * W + xf) W aw H i \<longleftrightarrow> xf \<le> i mod W \<and> i mod W < xf + aw \<and> yf \<le> i div W \<and> i div W < yf + H"
    and "in_rect (yf * W + xf) W aw H i \<Longrightarrow> (i - (yf * W + xf)) div W = i div W - yf \<and> (i - (yf * W + xf)) mod W = i mod W - xf"
proof -
  define q m where "q = i div W" "m = i mod W"
  have i: "i = q * W + m" "0 \<le> m" "m < W" using assms by (simp_all add: q_m_def)
  have e: "i - (yf * W + xf) = (m - xf) + (q - yf) * W" by (simp add: i(1) algebra_simps)
  have d: "(i - (yf * W + xf)) div W = (q - yf) + (m - xf) div W" "(i - (yf * W + xf)) mod W = (m - xf) mod W"
    unfolding e using assms(1) by simp_all
  have r: "(m - xf) div W = (if xf \<le> m then 0 else - 1)" "(m - xf) mod W = (if xf \<le> m then m - xf else m - xf + W)"
    using i assms int_div_pos_eq [of "m - xf" W 0 "m - xf"] int_mod_pos_eq [of "m - xf" W 0 "m - xf"]
      int_div_pos_eq [of "m - xf" W "- 1" "m - xf + W"] int_mod_pos_eq [of "m - xf" W "- 1" "m - xf + W"]
    by auto
  have "yf * W + xf \<le> i \<longleftrightarrow> 0 \<le> (i - (yf * W + xf)) div W" using assms(1) by (simp add: pos_imp_zdiv_nonneg_iff)
  then show *: "in_rect (yf * W + xf) W aw H i \<longleftrightarrow> xf \<le> i mod W \<and> i mod W < xf + aw \<and> yf \<le> i div W \<and> i div W < yf + H"
    unfolding in_rect_def d r q_m_def [symmetric] using i assms by auto
  show "in_rect (yf * W + xf) W aw H i \<Longrightarrow> (i - (yf * W + xf)) div W = i div W - yf \<and> (i - (yf * W + xf)) mod W = i mod W - xf"
    unfolding * d r q_m_def [symmetric] by auto
qed

text \<open>A flat colour that is to be blended over the surface.\<close>

definition flat_over :: "'f renderer \<Rightarrow> bool" where
  "flat_over rdr \<longleftrightarrow> rinv rdr \<and> r_compositeRule rdr = COMPOSITE_SRC_OVER \<and> r_paintMode rdr = PAINT_FLAT_COLOR \<and>
     byte (r_ualpha rdr) \<and> byte (r_ured rdr) \<and> byte (r_ugreen rdr) \<and> byte (r_ublue rdr)"

definition axis_in :: "jint \<Rightarrow> jint \<times> jint \<times> jint \<times> jint \<Rightarrow> bool" where
  "axis_in n e \<longleftrightarrow> (case e of (from, to, lf, rf) \<Rightarrow>
     0 \<le> from \<and> from \<le> to \<and> to < n \<and> 0 \<le> lf \<and> lf < 0x10000 \<and> 0 \<le> rf \<and> rf < 0x10000)"

lemma fill_rows_flat:
  assumes rdr: "flat_over rdr" and s: "s_imageType s = TYPE_INT_ARGB_PRE" "s_data s = Some xs" "0 < s_width s"
      "s_width s * s_height s \<le> int (length xs)" "int (length xs) < 2147483648"
    and ex: "axis_in (s_width s) (xf, xt, lf, rf)" "single_axis (xf, xt, lf, rf) = (l, r)"
    and ey: "axis_in (s_height s) (yf, yt, tf, bf)" "single_axis (yf, yt, tf, bf) = (t, b)"
  shows "\<exists>rdr'. fill_rows G s (xf, xt, lf, rf) (yf, yt, tf, bf) rdr = Some rdr' \<and> r_data rdr' = Some
    (upd_rect (yf * s_width s + xf) (s_width s) (xt - xf + 1) (yt - yf + 1)
      (\<lambda>j c p. blendSrcOver8888_pre p
         (rect_coverage (r_ualpha rdr) (row_frac (xt - xf + 1) l r c) (row_frac (yt - yf + 1) t b j))
         (r_ured rdr) (r_ugreen rdr) (r_ublue rdr)) xs)"
proof -
  let ?W = "s_width s" and ?R = "fill_prepare s xf xt yf l r rdr" and ?H = "yt - yf + 1" and ?A = "xt - xf + 1"
  define v where "v = VALIDATE_BLITTING s (invalidate INVALID_RENDERER_SURFACE rdr)"
  have f: "rinv rdr" "r_compositeRule rdr = COMPOSITE_SRC_OVER" "r_paintMode rdr = PAINT_FLAT_COLOR"
    "byte (r_ualpha rdr)" "byte (r_ured rdr)" "byte (r_ugreen rdr)" "byte (r_ublue rdr)"
    using rdr by (auto simp: flat_over_def)
  have a: "0 \<le> xf" "xf \<le> xt" "xt < ?W" "0 \<le> yf" "yf \<le> yt" "yt < s_height s"
    using ex(1) ey(1) by (auto simp: axis_in_def)
  note sx = single_axis_ok [OF ex(2) a(2)] and sy = single_axis_ok [OF ey(2) a(5)]
  have sx: "band_ok ?A l r" "0 \<le> l" "l < 0x10000" "0 \<le> r" "r < 0x10000"
    and sy: "band_ok ?H t b" "0 \<le> t" "t < 0x10000" "0 \<le> b" "b < 0x10000"
    using sx sy ex(1) ey(1) by (auto simp: axis_in_def)
  have m: "(yf + ?H) * ?W \<le> int (length xs)" "0 \<le> yf * ?W"
    using mult_left_mono [of "yt + 1" "s_height s" ?W] a s by (auto simp: algebra_simps)
  have m2: "yf * ?W \<le> (yf + ?H) * ?W" "1 * ?W \<le> (yf + ?H) * ?W" using a s by (auto intro!: mult_right_mono)
  have "(yt + 1) * 1 \<le> (yt + 1) * ?W" using a s by (intro mult_left_mono) auto
  then have hh: "yt + 1 < 2147483648" "?W < 2147483648" "yf * ?W < 2147483648" using m m2 s(5) by simp_all
  have i3: "i32 (yf * ?W) = yf * ?W" using m(2) hh(3) by (intro i32_id) linarith+
  have i: "i32 ?H = ?H" "i32 ?A = ?A" using a hh by (simp_all add: i32_id)
  have vs: "r_data v = Some xs" "same_settings rdr v"
    using validated_surface(1,7) [where rdr = rdr and s = s] s by (simp_all add: v_def)
  have vr: "emitLine (r_fns v) = EmitLineSourceOver8888_pre" "genPaint (r_fns v) = GenNULL" "colour_ok v"
    using validated_routines_surface(2,3,5) [OF f(1) s(1)] f by (simp_all add: v_def line_for_def gen_for_def pisces_consts)
  have col: "r_calpha v = r_ualpha rdr" "r_cred v = r_ured rdr" "r_cgreen v = r_ugreen rdr" "r_cblue v = r_ublue rdr"
    using vr(3) vs(2) f(2) by (auto simp: colour_ok_def same_settings_def pisces_consts)
  have R: "fill_frame s ?R ?H xs" "r_data ?R = Some xs" "r_currImageOffset ?R = r_currY ?R * ?W" "r_rowNum ?R = 0"
    "genPaint (r_fns ?R) = GenNULL" "emitLine (r_fns ?R) = EmitLineSourceOver8888_pre" "flat_colour ?R" "el_fracs ?R 0"
    using a s m vs vr col f sx i i3
    by (simp_all add: fill_prepare_def v_def [symmetric] fill_frame_def flat_colour_def el_fracs_def band_ok_def)
  have fr: "el_fracs ?R (row_frac ?H t b j)" for j
    using R(8) sy by (auto simp: el_fracs_def row_frac_def)
  have "\<exists>rdr'. fill_band G s (r_minTouched ?R) ?H t b ?R = Some rdr' \<and>
    r_data rdr' = Some (upd_rect (first_px s ?R) ?W (r_alphaWidth ?R) ?H (flat_pixel ?R ?H t b) xs)"
    by (rule flat_band_exact) (use R sy in auto)
  moreover have "flat_pixel ?R ?H t b = (\<lambda>j c p. blendSrcOver8888_pre p
         (rect_coverage (r_ualpha rdr) (row_frac ?A l r c) (row_frac ?H t b j))
         (r_ured rdr) (r_ugreen rdr) (r_ublue rdr))"
    using el_coverage_rect [OF fr] col by (intro ext) (simp add: flat_pixel_def fill_prepare_def v_def [symmetric] i)
  moreover have "first_px s ?R = yf * ?W + xf" "r_alphaWidth ?R = ?A" "r_minTouched ?R = xf"
    by (simp_all add: first_px_def fill_prepare_def i)
  ultimately show ?thesis by (simp add: fill_rows_def ex(2) ey(2) i)
qed


lemma fill_spec_rect:
  assumes x: "jint_range x" "0 < wd" "x + wd < 2147483648" and y: "jint_range y" "0 < h" "y + h < 2147483648"
    and ex: "clip_axis (r_clip_bbMinX rdr) (r_clip_bbMaxX rdr) (fill_axis x wd IMAGE_FRAC_EDGE_KEEP IMAGE_FRAC_EDGE_KEEP)
      = (xf, xt, lf, rf)" "single_axis (xf, xt, lf, rf) = (l, r)" "axis_in W (xf, xt, lf, rf)"
    and ey: "clip_axis (r_clip_bbMinY rdr) (r_clip_bbMaxY rdr) (fill_axis y h IMAGE_FRAC_EDGE_KEEP IMAGE_FRAC_EDGE_KEEP)
      = (yf, yt, tf, bf)" "single_axis (yf, yt, tf, bf) = (t, b)" "axis_in Hs (yf, yt, tf, bf)"
  shows "upd_rect (yf * W + xf) W (xt - xf + 1) (yt - yf + 1) (\<lambda>j c p. blendSrcOver8888_pre p
      (rect_coverage (r_ualpha rdr) (row_frac (xt - xf + 1) l r c) (row_frac (yt - yf + 1) t b j))
      (r_ured rdr) (r_ugreen rdr) (r_ublue rdr)) xs = fill_spec rdr W x y wd h xs" (is "?u = _")
proof (rule nth_equalityI)
  fix i assume "i < length ?u"
  then have i: "i < length xs" by simp
  let ?X = "int i mod W" and ?Y = "int i div W"
  have a: "0 < W" "0 \<le> xf" "xf \<le> xt" "xt < W" "0 \<le> yf" "yf \<le> yt"
    using ex(3) ey(3) by (auto simp: axis_in_def)
  note rect = in_rect_surface [of W xf "xt - xf + 1" yf "int i" "yt - yf + 1"]
  have inr: "in_rect (yf * W + xf) W (xt - xf + 1) (yt - yf + 1) (int i)
      \<longleftrightarrow> (xf \<le> ?X \<and> ?X \<le> xt) \<and> (yf \<le> ?Y \<and> ?Y \<le> yt)" using rect(1) a by auto
  show "?u ! i = fill_spec rdr W x y wd h xs ! i"
  proof (cases "(xf \<le> ?X \<and> ?X \<le> xt) \<and> (yf \<le> ?Y \<and> ?Y \<le> yt)")
    case True
    then have idx: "(int i - (yf * W + xf)) div W = ?Y - yf" "(int i - (yf * W + xf)) mod W = ?X - xf"
      using rect(2) a inr by auto
    have cov: "row_frac (xt - xf + 1) l r (?X - xf) = overlap x (x + wd) ?X"
      "row_frac (yt - yf + 1) t b (?Y - yf) = overlap y (y + h) ?Y"
      using axis_coverage [OF x ex(1,2) a(3), of "?X - xf"] axis_coverage [OF y ey(1,2) a(6), of "?Y - yf"] True by auto
    then show ?thesis using True axis_range [OF x ex(1), of ?X] axis_range [OF y ey(1), of ?Y] i
      by (simp add: inr idx fill_spec_def fill_px_def)
  next
    case False
    then have "\<not> in_rect (yf * W + xf) W (xt - xf + 1) (yt - yf + 1) (int i)" by (simp only: inr not_False_eq_True)
    then show ?thesis using False axis_range [OF x ex(1), of ?X] axis_range [OF y ey(1), of ?Y] i
      by (auto simp: fill_spec_def fill_px_def)
  qed
qed (simp add: fill_spec_def)

lemma fill_spec_empty:
  assumes x: "jint_range x" "0 < wd" "x + wd < 2147483648" and y: "jint_range y" "0 < h" "y + h < 2147483648"
    and ex: "clip_axis (r_clip_bbMinX rdr) (r_clip_bbMaxX rdr) (fill_axis x wd IMAGE_FRAC_EDGE_KEEP IMAGE_FRAC_EDGE_KEEP)
      = (xf, xt, lf, rf)"
    and ey: "clip_axis (r_clip_bbMinY rdr) (r_clip_bbMaxY rdr) (fill_axis y h IMAGE_FRAC_EDGE_KEEP IMAGE_FRAC_EDGE_KEEP)
      = (yf, yt, tf, bf)" and "\<not> (xf \<le> xt \<and> yf \<le> yt)"
  shows "fill_spec rdr W x y wd h xs = xs"
proof (rule nth_equalityI)
  fix i assume "i < length (fill_spec rdr W x y wd h xs)"
  then have i: "i < length xs" by (simp add: fill_spec_def)
  have "\<not> (xf \<le> int i mod W \<and> int i mod W \<le> xt) \<or> \<not> (yf \<le> int i div W \<and> int i div W \<le> yt)" using assms(9) by linarith
  then show "fill_spec rdr W x y wd h xs ! i = xs ! i"
    using axis_range [OF x ex, of "int i mod W"] axis_range [OF y ey, of "int i div W"] i
    by (auto simp: fill_spec_def fill_px_def)
qed (simp add: fill_spec_def)

text \<open>The main property of a flat fill: every pixel is what the specification of the rectangle says.\<close>

lemma fillRectImpl_flat:
  assumes v: "surface_ok v w" and clip: "clip_ok w" and rdr: "flat_over (w_rdr w)"
    and x: "jint_range x" "0 < wd" "x + wd < 2147483648" and y: "jint_range y" "0 < h" "y + h < 2147483648"
  shows "\<exists>w'. fillRectImpl v w x y wd h = Some w' \<and> w_exc w' = None \<and> \<not> w_memerr w' \<and>
    w_array w' = fill_spec (w_rdr w) (s_width (w_surface w)) x y wd h (w_array w)"
proof -
  let ?r = "w_rdr w" and ?W = "s_width (w_surface w)" and ?K = IMAGE_FRAC_EDGE_KEEP
  define s where "s = (w_surface w)\<lparr>s_data := Some (w_array w)\<rparr>"
  define rdr0 where "rdr0 = ?r\<lparr>r_rectX := sar x 16, r_rectY := sar y 16\<rparr>"
  obtain xf xt lf rf where ex: "clip_axis (r_clip_bbMinX ?r) (r_clip_bbMaxX ?r) (fill_axis x wd ?K ?K) = (xf, xt, lf, rf)"
    by (metis prod_cases4)
  obtain yf yt tf bf where ey: "clip_axis (r_clip_bbMinY ?r) (r_clip_bbMaxY ?r) (fill_axis y h ?K ?K) = (yf, yt, tf, bf)"
    by (metis prod_cases4)
  obtain l r where l: "single_axis (xf, xt, lf, rf) = (l, r)" by force
  obtain t b where t: "single_axis (yf, yt, tf, bf) = (t, b)" by force
  note ax = fill_axis_fracs [OF ex] and ay = fill_axis_fracs [OF ey]
  have sok: "s_imageType s = TYPE_INT_ARGB_PRE" "s_data s = Some (w_array w)" "0 < ?W" "s_width s = ?W"
    "?W * s_height s \<le> int (length (w_array w))" "int (length (w_array w)) < 2147483648" "\<not> w_memerr w" "w_exc w = None"
    using v by (auto simp: surface_ok_def Let_def s_def)
  have f0: "flat_over rdr0" using rdr by (auto simp: rdr0_def flat_over_def colour_ok_def intro: rinv_same)
  have c0: "clip_axis (r_clip_bbMinX rdr0) (r_clip_bbMaxX rdr0) (fill_axis x wd ?K ?K) = (xf, xt, lf, rf)"
    "clip_axis (r_clip_bbMinY rdr0) (r_clip_bbMaxY rdr0) (fill_axis y h ?K ?K) = (yf, yt, tf, bf)"
    using ex ey by (simp_all add: rdr0_def)
  show ?thesis
  proof (cases "xf \<le> xt \<and> yf \<le> yt")
    case True
    have inx: "axis_in (s_width s) (xf, xt, lf, rf)" "axis_in (s_height s) (yf, yt, tf, bf)"
      using True ax ay clip by (auto simp: axis_in_def clip_ok_def s_def)
    obtain rdr' where r': "fill_rows (v_genv v) s (xf, xt, lf, rf) (yf, yt, tf, bf) rdr0 = Some rdr'" "r_data rdr' = Some
      (upd_rect (yf * ?W + xf) ?W (xt - xf + 1) (yt - yf + 1)
        (\<lambda>j c p. blendSrcOver8888_pre p
           (rect_coverage (r_ualpha rdr0) (row_frac (xt - xf + 1) l r c) (row_frac (yt - yf + 1) t b j))
           (r_ured rdr0) (r_ugreen rdr0) (r_ublue rdr0)) (w_array w))"
      using fill_rows_flat [OF f0 sok(1,2) _ _ sok(6) inx(1) l inx(2) t] sok by auto
    have sp: "r_data rdr' = Some (fill_spec rdr0 ?W x y wd h (w_array w))"
      unfolding r'(2) using fill_spec_rect [OF x y _ l _ _ t inx(2), of rdr0 ?W "w_array w"] inx(1) ex ey sok(4)
      by (simp add: rdr0_def)
    have e: "fill_spec rdr0 = fill_spec ?r" by (intro ext) (simp add: rdr0_def fill_spec_def fill_px_def)
    have "with_surface v (\<lambda>s w. do { rdr \<leftarrow> fill_rows (v_genv v) s (xf, xt, lf, rf) (yf, yt, tf, bf) (w_rdr w);
        Some (w\<lparr>w_rdr := rdr\<rparr>) }) (w\<lparr>w_rdr := rdr0\<rparr>)
      = Some ((w\<lparr>w_rdr := rdr0\<rparr>)\<lparr>w_surface := s, w_rdr := rdr', w_array := fill_spec rdr0 ?W x y wd h (w_array w)\<rparr>)"
      using with_surface_ok [of v "w\<lparr>w_rdr := rdr0\<rparr>", OF _ _ sp] v r'(1)
      by (simp add: surface_ok_def s_def Let_def)
    then show ?thesis
      unfolding fillRectImpl_def fillRect_def Let_def
      using True c0 sok e by (simp add: rdr0_def [symmetric])
  next
    case False
    then show ?thesis
      unfolding fillRectImpl_def fillRect_def Let_def
      using fill_spec_empty [OF x y ex ey False, of ?W "w_array w"] ex ey sok by auto
  qed
qed

text \<open>The pixel of column \<open>X\<close> and row \<open>Y\<close> after \<open>clearRect\<close>: the current colour, in the clip and the surface.\<close>

definition clear_px :: "'f world \<Rightarrow> jint \<Rightarrow> jint \<Rightarrow> jint \<Rightarrow> jint \<Rightarrow> int \<Rightarrow> int \<Rightarrow> jint \<Rightarrow> jint" where
  "clear_px w x y wd h X Y p =
    (let rdr = w_rdr w
     in if x \<le> X \<and> X < x + wd \<and> y \<le> Y \<and> Y < y + h \<and> r_clip_bbMinX rdr \<le> X \<and> X \<le> r_clip_bbMaxX rdr \<and>
           r_clip_bbMinY rdr \<le> Y \<and> Y \<le> r_clip_bbMaxY rdr \<and> Y < s_height (w_surface w)
        then (if r_compositeRule rdr = COMPOSITE_CLEAR then 0
              else argb (r_ualpha rdr) (r_ured rdr) (r_ugreen rdr) (r_ublue rdr))
        else p)"

definition clear_spec :: "'f world \<Rightarrow> jint \<Rightarrow> jint \<Rightarrow> jint \<Rightarrow> jint \<Rightarrow> jint list \<Rightarrow> jint list" where
  "clear_spec w x y wd h xs =
    map (\<lambda>i. clear_px w x y wd h (int i mod s_width (w_surface w)) (int i div s_width (w_surface w)) (xs ! i)) [0..<length xs]"

lemma clear_spec_rect:
  fixes w :: "'f world"
  defines "rdr \<equiv> w_rdr w" and "W \<equiv> s_width (w_surface w)"
  assumes "0 < W"
    and x': "x' = max (max x 0) (r_clip_bbMinX rdr)" "X = min (min (x + wd - 1) (W - 1)) (r_clip_bbMaxX rdr)"
    and y': "y' = max (max y 0) (r_clip_bbMinY rdr)" "Y = min (min (y + h - 1) (s_height (w_surface w) - 1)) (r_clip_bbMaxY rdr)"
    and c: "colour = (if r_compositeRule rdr = COMPOSITE_CLEAR then 0
              else argb (r_ualpha rdr) (r_ured rdr) (r_ugreen rdr) (r_ublue rdr))"
  shows "x' \<le> X \<Longrightarrow> upd_rect (y' * W + x') W (X - x' + 1) (Y - y' + 1) (\<lambda>_ _ _. colour) xs = clear_spec w x y wd h xs"
    and "\<not> (x' \<le> X \<and> y' \<le> Y) \<Longrightarrow> clear_spec w x y wd h xs = xs"
proof -
  have m: "0 \<le> int i mod W" "int i mod W < W" "0 \<le> int i div W" for i
    using \<open>0 < W\<close> by (simp_all add: pos_imp_zdiv_nonneg_iff)
  have px: "clear_px w x y wd h (int i mod W) (int i div W) p
      = (if x' \<le> int i mod W \<and> int i mod W \<le> X \<and> y' \<le> int i div W \<and> int i div W \<le> Y then colour else p)" for i p
    using m [of i] unfolding clear_px_def x' y' c Let_def rdr_def by auto
  show "\<not> (x' \<le> X \<and> y' \<le> Y) \<Longrightarrow> clear_spec w x y wd h xs = xs"
    unfolding clear_spec_def W_def [symmetric] px by (rule nth_equalityI) auto
  assume "x' \<le> X"
  moreover have "0 \<le> x'" "0 \<le> y'" "X < W" by (auto simp: x' y' max_def min_def)
  ultimately have "in_rect (y' * W + x') W (X - x' + 1) (Y - y' + 1) (int i)
      \<longleftrightarrow> x' \<le> int i mod W \<and> int i mod W \<le> X \<and> y' \<le> int i div W \<and> int i div W \<le> Y" for i
    using in_rect_surface(1) [of W x' "X - x' + 1" y' "int i" "Y - y' + 1"] \<open>0 < W\<close> by auto
  then show "upd_rect (y' * W + x') W (X - x' + 1) (Y - y' + 1) (\<lambda>_ _ _. colour) xs = clear_spec w x y wd h xs"
    unfolding clear_spec_def W_def [symmetric] px upd_rect_def by simp
qed

lemma argb_zero: "argb 0 0 0 0 = 0"
  by (simp add: argb_def shl_def i32_id)

lemma clearRectImpl_exact:
  assumes v: "surface_ok v w" and rdr: "rinv (w_rdr w)"
    and d: "jint_range (x + wd - 1)" "jint_range (y + h - 1)"
  shows "\<exists>w'. clearRectImpl v w x y wd h = Some w' \<and> w_exc w' = None \<and> \<not> w_memerr w' \<and>
    w_array w' = clear_spec w x y wd h (w_array w)"
proof -
  let ?r = "w_rdr w" and ?W = "s_width (w_surface w)"
  define s where "s = (w_surface w)\<lparr>s_data := Some (w_array w)\<rparr>"
  have sok: "s_imageType s = TYPE_INT_ARGB_PRE" "s_data s = Some (w_array w)" "0 < ?W" "s_width s = ?W"
    "?W * s_height s \<le> int (length (w_array w))" "int (length (w_array w)) < 2147483648" "\<not> w_memerr w" "w_exc w = None"
    "s_offset s = 0" "s_scanlineStride s = ?W" "s_pixelStride s = 1" "s_height s = s_height (w_surface w)" "0 \<le> s_height s"
    "?W < 2147483648" "s_height s < 2147483648"
    using v by (auto simp: surface_ok_def Let_def s_def jint_range_def)
  define r0 where "r0 = ?r\<lparr>r_imagePixelStride := 1, r_imageScanlineStride := s_width s\<rparr>"
  define V where "V = VALIDATE_BLITTING s (invalidate INVALID_RENDERER_SURFACE r0)"
  have r0: "rinv r0" by (rule rinv_same [OF rdr]) (simp_all add: r0_def colour_ok_def)
  have com: "(invalidate INVALID_RENDERER_SURFACE ?r)\<lparr>r_imagePixelStride := 1, r_imageScanlineStride := s_width s\<rparr>
      = invalidate INVALID_RENDERER_SURFACE r0" by (simp add: invalidate_def r0_def)
  note vs = validated_surface [where rdr = r0 and s = s, folded V_def]
  have vr: "clearRect_fn (r_fns V) = ClearRect8888_any" "colour_ok V"
    using validated_routines_surface(4,5) [OF r0 sok(1)] by (simp_all add: V_def)
  have st: "same_settings ?r V" using vs(7) by (simp add: same_settings_def r0_def)
  have col: "argb (r_calpha V) (r_cred V) (r_cgreen V) (r_cblue V) = (if r_compositeRule ?r = COMPOSITE_CLEAR then 0
      else argb (r_ualpha ?r) (r_ured ?r) (r_ugreen ?r) (r_ublue ?r))"
    using vr(2) st argb_zero by (auto simp: colour_ok_def same_settings_def split: if_splits)
  define x' X y' Y where "x' = max (max x 0) (r_clip_bbMinX ?r)" "X = min (min (x + wd - 1) (?W - 1)) (r_clip_bbMaxX ?r)"
    "y' = max (max y 0) (r_clip_bbMinY ?r)" "Y = min (min (y + h - 1) (s_height s - 1)) (r_clip_bbMaxY ?r)"
  note rc = clear_spec_rect [of w, OF sok(3) x'_X_y'_Y_def(1,2,3) x'_X_y'_Y_def(4) [unfolded sok(12)] refl]
  have b: "0 \<le> x'" "X < ?W" "0 \<le> y'" "Y < s_height s" by (auto simp: x'_X_y'_Y_def max_def min_def)
  have i: "i32 (x + wd - 1) = x + wd - 1" "i32 (y + h - 1) = y + h - 1"
    using d by (simp_all add: i32_id jint_range_def)
  have i2: "i32 (?W - 1) = ?W - 1" "i32 (s_height s - 1) = s_height s - 1" using sok by (simp_all add: i32_id)
  have rc2: "renderer_clearRect s (invalidate INVALID_RENDERER_SURFACE r0) x y wd h
      = (if x' \<le> X \<and> y' \<le> Y then clearRect8888_any V x' y' (i32 (X - x' + 1)) (i32 (Y - y' + 1)) else Some V)"
    unfolding renderer_clearRect_def Let_def V_def [symmetric]
    using vs st vr(1) sok i i2 by (simp add: same_settings_def x'_X_y'_Y_def call_clearRect_def)
  have "\<exists>rdr'. renderer_clearRect s (invalidate INVALID_RENDERER_SURFACE r0) x y wd h = Some rdr' \<and>
      r_data rdr' = Some (clear_spec w x y wd h (w_array w))"
  proof (cases "x' \<le> X \<and> y' \<le> Y")
    case True
    have k: "i32 (X - x' + 1) = X - x' + 1" "i32 (Y - y' + 1) = Y - y' + 1" using True b sok by (simp_all add: i32_id)
    have "(Y + 1) * ?W \<le> s_height s * ?W" using b sok by (intro mult_right_mono) auto
    then have "(Y + 1) * ?W \<le> int (length (w_array w))" using sok(5) by (simp add: mult.commute)
    then have "clear_ok V x' y' (X - x' + 1) (Y - y' + 1) (w_array w)"
      using True b sok vs by (simp add: clear_ok_def)
    from clearRect8888_any_exact [OF this] True rc(1) show ?thesis
      by (simp add: rc2 k vs sok col)
  next
    case False
    then show ?thesis using rc(2) vs(1) sok(2) by (auto simp: rc2)
  qed
  then obtain rdr' where r': "renderer_clearRect s (invalidate INVALID_RENDERER_SURFACE r0) x y wd h = Some rdr'"
    "r_data rdr' = Some (clear_spec w x y wd h (w_array w))" by blast
  have "clearRectImpl v w x y wd h
      = Some (w\<lparr>w_surface := s, w_rdr := rdr', w_array := clear_spec w x y wd h (w_array w)\<rparr>)"
    unfolding clearRectImpl_def s_def
    by (rule with_surface_ok [OF v _ r'(2)]) (use r'(1) com in \<open>simp add: s_def\<close>)
  then show ?thesis using sok by simp
qed

lemma jint_range_fill_px: "jint_range p \<Longrightarrow> jint_range (fill_px rdr x y wd h X Y p)"
  by (simp add: fill_px_def blendSrcOver8888_pre_def Let_def jint_range_argb)

lemma premul_fill_px:
  assumes "flat_over rdr" "premul p"
  shows "premul (fill_px rdr x y wd h X Y p)"
proof -
  have "0 \<le> overlap a b i" "overlap a b i \<le> 65536" for a b i by (auto simp: overlap_def)
  then have "byte (rect_coverage (r_ualpha rdr) (overlap x (x + wd) X) (overlap y (y + h) Y))"
    using assms(1) by (intro rect_coverage_bounds(3)) (auto simp: flat_over_def)
  then show ?thesis using assms by (simp add: fill_px_def flat_over_def premul_blendSrcOver8888_pre)
qed

end
