(* ===== verification/JFX_Demo.thy ===== *)
theory JFX_Demo
  imports Pisces_Draw
begin

text \<open>
  Small concrete objects on which the hypotheses of the properties are shown to hold: a renderer with
  a half transparent red on a surface of two by two pixels. The float operations of the instance are
  those of integers; no property depends on them.
\<close>

definition demo_fo :: "int float_ops" where
  "demo_fo = \<lparr>f_of_int = (\<lambda>i. i), f_add = (+), f_sub = (-), f_mul = (*), f_div = (\<lambda>a b. if b = 0 then 0 else cdiv a b),
     f_neg = uminus, f_less = (<), f_to_jint = i32, f_add_sqrt = (\<lambda>a b. i32 (a + b)), f_sqrt = (\<lambda>a. a)\<rparr>"

definition demo_surface :: surface where
  "demo_surface = surface_init TYPE_INT_ARGB_PRE 2 2"

definition demo_rdr :: "int renderer" where
  "demo_rdr = renderer_setColor (the (createCommon demo_fo True demo_surface)) 255 0 0 128"

definition demo_gamma :: "int gamma_tables" where
  "demo_gamma = \<lparr>currentGamma = 1, gammaArray = map int [0..<256], invGammaArray = map int [0..<256]\<rparr>"

definition demo_jvm :: "int jvm" where
  "demo_jvm = \<lparr>v_genv = \<lparr>g_float = demo_fo, g_gamma = demo_gamma, g_mem = (\<lambda>_. True)\<rparr>, v_critical = (\<lambda>_. True)\<rparr>"

definition demo_world :: "int world" where
  "demo_world = \<lparr>w_rdr = demo_rdr, w_surface = demo_surface, w_array = [0, 0, 0, 0], w_memerr = False, w_exc = None\<rparr>"

text \<open>The concrete row: both pixels of the first line of the two by two surface.\<close>

definition demo_draw :: "int renderer" where
  "demo_draw = demo_rdr\<lparr>r_data := Some [0, 0, 0, 0], r_imagePixelStride := 1, r_imageScanlineStride := 2,
     r_currImageOffset := 0, r_minTouched := 0, r_maxTouched := 1, r_alphaWidth := 2, r_currX := 0, r_currY := 0,
     r_calpha := 128, r_cred := 255, r_cgreen := 0, r_cblue := 0, r_el_lfrac := 32768, r_el_rfrac := 0,
     r_rowAAInt := Some [3, 1], r_alphaMap := Some [0, 64, 128, 192, 255], r_mask_byteData := Some [255, 7],
     r_maskOffset := 0, r_paint := Some [-2147450880, 0]\<rparr>"

text \<open>Two by two texels of an opaque texture, and a gradient ramp of one colour.\<close>

definition demo_texture :: texture where
  "demo_texture = null_texture\<lparr>tx_intData := Some [-1, -1, -1, -1], tx_imageWidth := 2, tx_imageHeight := 2, tx_stride := 2,
     txMax := 1, tyMax := 1, tx_interpolate := True, tx_hasAlpha := True, tx_transformType := TEXTURE_TRANSFORM_SCALE_TRANSLATE,
     tx_m00 := 32768, tx_m11 := 32768\<rparr>"

definition demo_textured :: "int renderer" where
  "demo_textured = demo_draw\<lparr>r_texture := demo_texture, r_prevPaintMode := PAINT_LINEAR_GRADIENT\<rparr>"

lemma demo_reachable: "reachable demo_fo demo_rdr"
  unfolding demo_rdr_def
  by (rule reach_step [OF reach_create step_color]) (simp add: createCommon_def)

lemma demo_rdr_modes:
  "r_compositeRule demo_rdr = COMPOSITE_SRC_OVER" "r_paintMode demo_rdr = PAINT_FLAT_COLOR" "r_maskType demo_rdr = NO_MASK"
  "r_ured demo_rdr = 255" "r_ugreen demo_rdr = 0" "r_ublue demo_rdr = 0" "r_ualpha demo_rdr = 128"
  "r_clip_bbMinX demo_rdr = 0" "r_clip_bbMinY demo_rdr = 0" "r_clip_bbMaxX demo_rdr = 1" "r_clip_bbMaxY demo_rdr = 1"
  by (simp_all add: demo_rdr_def createCommon_def renderer_setColor_def setPaintMode_def Let_def invalidate_def
      demo_surface_def surface_init_def i32_id pisces_consts)

lemma demo_flat_over: "flat_over demo_rdr"
  using reachable_rinv [OF demo_reachable] by (simp add: flat_over_def demo_rdr_modes byte_def)

lemma demo_surface_ok: "surface_ok demo_jvm demo_world"
  by (simp add: surface_ok_def demo_jvm_def demo_world_def demo_surface_def surface_init_def jint_range_def)

lemma demo_clip_ok: "clip_ok demo_world"
  by (simp add: clip_ok_def demo_world_def demo_surface_def surface_init_def demo_rdr_modes)

lemma demo_rect_fits: "rect_fits demo_draw 2 1 [0, 0, 0, 0]"
  by (simp add: rect_fits_def demo_draw_def jint_range_def)

lemma demo_width: "touched_width demo_draw = 2" "r_alphaWidth demo_draw = 2"
  by (simp_all add: touched_width_def demo_draw_def i32_id)

lemma demo_colour: "flat_colour demo_draw" "el_fracs demo_draw 0x10000"
  by (simp_all add: flat_colour_def demo_draw_def byte_def el_fracs_def)

lemma c2: "c < 2 \<Longrightarrow> 0 \<le> c \<Longrightarrow> c = 0 \<or> c = (1 :: int)" by linarith

lemma demo_aa: "aa_ok demo_draw 2 [3, 1]" "aa_map_ok demo_draw 2 [3, 1] [0, 64, 128, 192, 255]"
  by (auto simp: aa_ok_def aa_map_ok_def demo_draw_def aa_rel_def jint_range_def dest!: c2)

lemma demo_premul: "premul (- 2147450880)" "premul 0"
  by code_simp+

lemma demo_paint: "paint_ok demo_draw 1 [-2147450880, 0]"
  by (simp add: paint_ok_def demo_draw_def demo_premul jint_range_def)

lemma demo_space: "paint_space demo_draw 1 [-2147450880, 0]" "paint_space demo_textured 1 [-2147450880, 0]"
  by (simp_all add: paint_space_def demo_textured_def demo_draw_def jint_range_def)

lemma demo_gradient: "gradient_ok (r_gradient demo_draw)" "r_paint demo_draw = Some [-2147450880, 0]"
  by (simp_all add: gradient_ok_def cycle_ok_def demo_draw_def demo_rdr_def createCommon_def renderer_setColor_def setPaintMode_def Let_def
      invalidate_def null_gradient_def pisces_consts)

lemma demo_tex_ok: "tex_ok (r_texture demo_textured) [-1, -1, -1, -1]" "premul (- 1)"
  by (simp_all add: tex_ok_def demo_textured_def demo_texture_def null_texture_def) code_simp

lemma demo_multiply_ok: "multiply_ok demo_textured"
  using demo_gradient by (simp add: multiply_ok_def demo_textured_def demo_draw_def i32_id)

end
