(* ===== verification/Flv_Parser.thy ===== *)
theory Flv_Parser
  imports JFX_Prelude
begin

text \<open>
  The FLV parser, \<^verbatim>\<open>flvparser.c\<close> and \<^verbatim>\<open>flvparser.h\<close> of the media plugins: a state machine that is handed
  one block of the file at a time and says how long the next block is.

  \<open>gsize\<close> and \<open>guint64\<close> are 64-bit words, \<open>gint\<close> and \<open>guint\<close> 32-bit words (read as signed where the
  source does), a \<open>guchar*\<close> with its size is a list of 8-bit words beside the size the caller passes. A
  read outside the list is \<open>None\<close>. Structures filled through a pointer are returned updated, also on
  the error paths.

  The invariant \<open>parser_ok\<close> ties the length of the next block to the state. Every reader keeps it, never
  leaves its buffer when the buffer is as long as its size says, and moves the file position by the
  length of the block; the encoder \<open>encode_tag\<close> gives the layout of the format for the round trips.
\<close>

named_theorems flv_defs \<open>definitions of the parser's readers\<close>

type_synonym bytes = "8 word list"
type_synonym gsize = "64 word"
type_synonym guint64 = "64 word"
type_synonym gint = "32 word"

section \<open>Reading big-endian numbers\<close>

definition byte_at :: "bytes \<Rightarrow> nat \<Rightarrow> 8 word option" where
  "byte_at bs i = (if i < length bs then Some (bs ! i) else None)"

definition GST_READ_UINT16_BE :: "bytes \<Rightarrow> nat \<Rightarrow> 32 word option" where
  "GST_READ_UINT16_BE bs i = do {
     b0 \<leftarrow> byte_at bs i; b1 \<leftarrow> byte_at bs (i + 1);
     Some (push_bit 8 (ucast b0) OR ucast b1) }"

definition GST_READ_UINT32_BE :: "bytes \<Rightarrow> nat \<Rightarrow> 32 word option" where
  "GST_READ_UINT32_BE bs i = do {
     b0 \<leftarrow> byte_at bs i; b1 \<leftarrow> byte_at bs (i + 1); b2 \<leftarrow> byte_at bs (i + 2); b3 \<leftarrow> byte_at bs (i + 3);
     Some (push_bit 24 (ucast b0) OR push_bit 16 (ucast b1) OR push_bit 8 (ucast b2) OR ucast b3) }"

definition FLV_READ_UINT24_BE :: "bytes \<Rightarrow> nat \<Rightarrow> 32 word option" where
  "FLV_READ_UINT24_BE bs i = do {
     h \<leftarrow> GST_READ_UINT16_BE bs i; b2 \<leftarrow> byte_at bs (i + 2);
     Some (push_bit 8 h OR ucast b2) }"

definition FLV_READ_TS32 :: "bytes \<Rightarrow> nat \<Rightarrow> 32 word option" where
  "FLV_READ_TS32 bs i = do {
     h \<leftarrow> GST_READ_UINT16_BE bs i; b2 \<leftarrow> byte_at bs (i + 2); b3 \<leftarrow> byte_at bs (i + 3);
     Some (push_bit 8 h OR ucast b2 OR push_bit 24 (ucast b3)) }"

section \<open>The parser's state\<close>

datatype FlvParserResult = FLV_PARSER_OK | FLV_PARSER_BUFFER_UNDERRUN | FLV_PARSER_BAD_STREAM
  | FLV_PARSER_UNSUPPORTED_STREAM | FLV_PARSER_INVALID_STATE

datatype FlvParserState = FLV_PARSER_EXPECT_HEADER | FLV_PARSER_EXPECT_SKIP_BLOCK
  | FLV_PARSER_EXPECT_TAG_PREFIX | FLV_PARSER_EXPECT_VIDEO_TAG_BODY
  | FLV_PARSER_EXPECT_AUDIO_TAG_BODY | FLV_PARSER_EXPECT_SCRIPT_DATA_TAG_BODY | FLV_PARSER_EOF

record FlvParser =
  fp_state :: FlvParserState
  fp_file_position :: guint64
  fp_parsed_block_size :: gsize
  fp_next_block_size :: gsize

record FlvHeader =
  fh_file_version :: gint
  fh_has_audio_tags :: bool
  fh_has_video_tags :: bool

record FlvTagPrefix =
  tp_tag_type :: "8 word"
  tp_body_size :: gsize
  tp_timestamp :: gint

record FlvAudioTag =
  at_sound_format :: "8 word"
  at_sampling_rate :: "8 word"
  at_is_16bit :: bool
  at_is_stereo :: bool
  at_audio_packet_offset :: gsize
  at_audio_packet_size :: gsize

record FlvVideoTag =
  vt_codec_id :: "8 word"
  vt_frame_type :: "8 word"
  vt_video_packet_offset :: gsize
  vt_video_packet_size :: gsize

text \<open>A reader of script data is a pair of pointers into the block, kept as offsets from its start.\<close>

record FlvScriptDataReader =
  sr_position :: nat
  sr_end :: nat

abbreviation (input) FLV_TAG_TYPE_AUDIO :: "8 word" where "FLV_TAG_TYPE_AUDIO \<equiv> 8"
abbreviation (input) FLV_TAG_TYPE_VIDEO :: "8 word" where "FLV_TAG_TYPE_VIDEO \<equiv> 9"
abbreviation (input) FLV_TAG_TYPE_SCRIPT_DATA :: "8 word" where "FLV_TAG_TYPE_SCRIPT_DATA \<equiv> 18"
abbreviation (input) FLV_HEADER_SIZE :: gsize where "FLV_HEADER_SIZE \<equiv> 9"
abbreviation (input) FLV_HEADER_FLAG_HAS_VIDEO_TAGS :: "8 word" where "FLV_HEADER_FLAG_HAS_VIDEO_TAGS \<equiv> 1"
abbreviation (input) FLV_HEADER_FLAG_HAS_AUDIO_TAGS :: "8 word" where "FLV_HEADER_FLAG_HAS_AUDIO_TAGS \<equiv> 4"
abbreviation (input) FLV_HEADER_FLAG_RESERVED :: "8 word" where "FLV_HEADER_FLAG_RESERVED \<equiv> 0xFA"
abbreviation (input) FLV_TAG_PREFIX_SIZE :: gsize where "FLV_TAG_PREFIX_SIZE \<equiv> 11"
abbreviation (input) FLV_TAG_SUFFIX_SIZE :: gsize where "FLV_TAG_SUFFIX_SIZE \<equiv> 4"
abbreviation (input) FLV_AUDIO_PREFIX_LENGTH :: gsize where "FLV_AUDIO_PREFIX_LENGTH \<equiv> 1"
abbreviation (input) FLV_VIDEO_PREFIX_LENGTH :: gsize where "FLV_VIDEO_PREFIX_LENGTH \<equiv> 1"

definition flv_audio_format_data_size :: "gsize list" where
  "flv_audio_format_data_size = [0, 0, 0, 0,  0, 0, 0, 0,  0, 0, 1, 0,  0, 0, 0, 0]"

definition flv_video_codec_data_size :: "gsize list" where
  "flv_video_codec_data_size = [0, 0, 0, 0,  1, 1, 0, 6,  0, 0, 0, 0,  0, 0, 0, 0]"

section \<open>The operations\<close>

definition flv_parser_init :: FlvParser where
  "flv_parser_init = \<lparr>fp_state = FLV_PARSER_EXPECT_HEADER, fp_file_position = 0,
     fp_parsed_block_size = 0, fp_next_block_size = FLV_HEADER_SIZE\<rparr>"

definition flv_parser_reset :: "FlvParser \<Rightarrow> FlvParser" where
  "flv_parser_reset parser = parser\<lparr>fp_state := FLV_PARSER_EXPECT_HEADER, fp_parsed_block_size := 0,
     fp_file_position := 0, fp_next_block_size := FLV_HEADER_SIZE\<rparr>"

definition flv_parser_read_header ::
    "FlvParser \<Rightarrow> bytes \<Rightarrow> gsize \<Rightarrow> FlvHeader \<Rightarrow> (FlvParserResult \<times> FlvParser \<times> FlvHeader) option" where
  "flv_parser_read_header parser buffer buffer_size header =
    (if fp_state parser \<noteq> FLV_PARSER_EXPECT_HEADER then Some (FLV_PARSER_INVALID_STATE, parser, header)
     else if buffer_size < FLV_HEADER_SIZE then Some (FLV_PARSER_BUFFER_UNDERRUN, parser, header)
     else do {
       b0 \<leftarrow> byte_at buffer 0; b1 \<leftarrow> byte_at buffer 1; b2 \<leftarrow> byte_at buffer 2;
       if b0 \<noteq> of_char CHR ''F'' \<or> b1 \<noteq> of_char CHR ''L'' \<or> b2 \<noteq> of_char CHR ''V''
       then Some (FLV_PARSER_BAD_STREAM, parser, header)
       else do {
         b3 \<leftarrow> byte_at buffer 3;
         let header = header\<lparr>fh_file_version := ucast b3\<rparr>;
         if fh_file_version header \<noteq> 1 then Some (FLV_PARSER_UNSUPPORTED_STREAM, parser, header)
         else do {
           b4 \<leftarrow> byte_at buffer 4;
           if b4 AND FLV_HEADER_FLAG_RESERVED \<noteq> 0 then Some (FLV_PARSER_BAD_STREAM, parser, header)
           else do {
             let header = header\<lparr>fh_has_audio_tags := b4 AND FLV_HEADER_FLAG_HAS_AUDIO_TAGS \<noteq> 0,
               fh_has_video_tags := b4 AND FLV_HEADER_FLAG_HAS_VIDEO_TAGS \<noteq> 0\<rparr>;
             d \<leftarrow> GST_READ_UINT32_BE buffer 5;
             let data_offset = (ucast d :: gsize);
             if data_offset < FLV_HEADER_SIZE then Some (FLV_PARSER_BAD_STREAM, parser, header)
             else Some (FLV_PARSER_OK, parser\<lparr>
               fp_parsed_block_size := FLV_HEADER_SIZE,
               fp_file_position := fp_file_position parser + FLV_HEADER_SIZE,
               fp_next_block_size := (if data_offset = FLV_HEADER_SIZE then FLV_TAG_SUFFIX_SIZE
                  else data_offset - FLV_HEADER_SIZE + FLV_TAG_SUFFIX_SIZE),
               fp_state := FLV_PARSER_EXPECT_SKIP_BLOCK\<rparr>, header) }}}})"

text \<open>The update with which every block but the header and the prefix ends.\<close>

definition block_done :: "FlvParser \<Rightarrow> FlvParser" where
  "block_done parser = parser\<lparr>
     fp_parsed_block_size := fp_next_block_size parser,
     fp_file_position := fp_file_position parser + fp_next_block_size parser,
     fp_next_block_size := FLV_TAG_PREFIX_SIZE,
     fp_state := FLV_PARSER_EXPECT_TAG_PREFIX\<rparr>"

definition flv_parser_skip :: "FlvParser \<Rightarrow> gsize \<Rightarrow> FlvParserResult \<times> FlvParser" where
  "flv_parser_skip parser buffer_size =
    (if fp_state parser \<noteq> FLV_PARSER_EXPECT_SKIP_BLOCK then (FLV_PARSER_INVALID_STATE, parser)
     else if buffer_size < fp_next_block_size parser then (FLV_PARSER_BUFFER_UNDERRUN, parser)
     else (FLV_PARSER_OK, block_done parser))"

definition flv_parser_read_tag_prefix ::
    "FlvParser \<Rightarrow> bytes \<Rightarrow> gsize \<Rightarrow> FlvTagPrefix \<Rightarrow> (FlvParserResult \<times> FlvParser \<times> FlvTagPrefix) option" where
  "flv_parser_read_tag_prefix parser buffer buffer_size tag =
    (if fp_state parser \<noteq> FLV_PARSER_EXPECT_TAG_PREFIX then Some (FLV_PARSER_INVALID_STATE, parser, tag)
     else if buffer_size < FLV_TAG_PREFIX_SIZE then Some (FLV_PARSER_BUFFER_UNDERRUN, parser, tag)
     else do {
       ty \<leftarrow> byte_at buffer 0;
       size \<leftarrow> FLV_READ_UINT24_BE buffer 1;
       ts \<leftarrow> FLV_READ_TS32 buffer 4;
       let tag = tag\<lparr>tp_tag_type := ty, tp_body_size := scast size, tp_timestamp := ts\<rparr>;
       stream_id \<leftarrow> FLV_READ_UINT24_BE buffer 8;
       if stream_id \<noteq> 0 then Some (FLV_PARSER_UNSUPPORTED_STREAM, parser, tag)
       else do {
         let parser = parser\<lparr>fp_parsed_block_size := FLV_TAG_PREFIX_SIZE,
           fp_file_position := fp_file_position parser + FLV_TAG_PREFIX_SIZE,
           fp_next_block_size := tp_body_size tag + FLV_TAG_SUFFIX_SIZE\<rparr>;
         Some (if ty = FLV_TAG_TYPE_AUDIO
               then (FLV_PARSER_OK, parser\<lparr>fp_state := FLV_PARSER_EXPECT_AUDIO_TAG_BODY\<rparr>, tag)
               else if ty = FLV_TAG_TYPE_VIDEO
               then (FLV_PARSER_OK, parser\<lparr>fp_state := FLV_PARSER_EXPECT_VIDEO_TAG_BODY\<rparr>, tag)
               else if ty = FLV_TAG_TYPE_SCRIPT_DATA
               then (FLV_PARSER_OK, parser\<lparr>fp_state := FLV_PARSER_EXPECT_SCRIPT_DATA_TAG_BODY\<rparr>, tag)
               else (FLV_PARSER_UNSUPPORTED_STREAM, parser, tag)) }})"

definition flv_parser_read_audio_tag ::
    "FlvParser \<Rightarrow> bytes \<Rightarrow> gsize \<Rightarrow> FlvAudioTag \<Rightarrow> (FlvParserResult \<times> FlvParser \<times> FlvAudioTag) option" where
  "flv_parser_read_audio_tag parser buffer buffer_size audio_tag =
    (if fp_state parser \<noteq> FLV_PARSER_EXPECT_AUDIO_TAG_BODY
     then Some (FLV_PARSER_INVALID_STATE, parser, audio_tag)
     else if buffer_size < fp_next_block_size parser
     then Some (FLV_PARSER_BUFFER_UNDERRUN, parser, audio_tag)
     else do {
       b \<leftarrow> byte_at buffer 0;
       let sound_format = drop_bit 4 (b AND 0xF0);
       let offset = FLV_AUDIO_PREFIX_LENGTH + flv_audio_format_data_size ! unat sound_format;
       Some (FLV_PARSER_OK, block_done parser, audio_tag\<lparr>
         at_sound_format := sound_format,
         at_sampling_rate := drop_bit 2 (b AND 0x0C),
         at_is_16bit := b AND 0x02 \<noteq> 0,
         at_is_stereo := b AND 0x01 \<noteq> 0,
         at_audio_packet_offset := offset,
         at_audio_packet_size := fp_next_block_size parser - FLV_TAG_SUFFIX_SIZE - offset\<rparr>) })"

definition flv_parser_read_video_tag ::
    "FlvParser \<Rightarrow> bytes \<Rightarrow> gsize \<Rightarrow> FlvVideoTag \<Rightarrow> (FlvParserResult \<times> FlvParser \<times> FlvVideoTag) option" where
  "flv_parser_read_video_tag parser buffer buffer_size video_tag =
    (if fp_state parser \<noteq> FLV_PARSER_EXPECT_VIDEO_TAG_BODY
     then Some (FLV_PARSER_INVALID_STATE, parser, video_tag)
     else if buffer_size < fp_next_block_size parser
     then Some (FLV_PARSER_BUFFER_UNDERRUN, parser, video_tag)
     else do {
       b \<leftarrow> byte_at buffer 0;
       let codec_id = b AND 0x0F;
       let offset = FLV_VIDEO_PREFIX_LENGTH + flv_video_codec_data_size ! unat codec_id;
       Some (FLV_PARSER_OK, block_done parser, video_tag\<lparr>
         vt_frame_type := drop_bit 4 (b AND 0xF0),
         vt_codec_id := codec_id,
         vt_video_packet_offset := offset,
         vt_video_packet_size := fp_next_block_size parser - FLV_TAG_SUFFIX_SIZE - offset\<rparr>) })"

definition flv_parser_read_script_data_tag ::
    "FlvParser \<Rightarrow> gsize \<Rightarrow> FlvScriptDataReader \<Rightarrow> FlvParserResult \<times> FlvParser \<times> FlvScriptDataReader" where
  "flv_parser_read_script_data_tag parser buffer_size reader =
    (if fp_state parser \<noteq> FLV_PARSER_EXPECT_SCRIPT_DATA_TAG_BODY
     then (FLV_PARSER_INVALID_STATE, parser, reader)
     else if buffer_size < fp_next_block_size parser
     then (FLV_PARSER_BUFFER_UNDERRUN, parser, reader)
     else (FLV_PARSER_OK, block_done parser, reader\<lparr>
       sr_position := 0,
       sr_end := unat (fp_next_block_size parser - FLV_TAG_SUFFIX_SIZE)\<rparr>))"

definition flv_parser_seek :: "FlvParser \<Rightarrow> guint64 \<Rightarrow> FlvParser" where
  "flv_parser_seek parser new_position = parser\<lparr>
     fp_state := FLV_PARSER_EXPECT_TAG_PREFIX, fp_file_position := new_position,
     fp_parsed_block_size := 0, fp_next_block_size := FLV_TAG_PREFIX_SIZE\<rparr>"

section \<open>The invariant\<close>

text \<open>
  \<open>next_ok\<close> bounds the next block in every state, so a caller that waits for a whole block neither waits
  for nothing nor allocates more than 32 bits of length. \<open>parser_ok\<close> adds the lengths of the header and of the
  prefix; an unsupported tag type, where the parser keeps expecting a prefix, is the only way out of it.
\<close>

definition next_ok :: "FlvParser \<Rightarrow> bool" where
  "next_ok p \<longleftrightarrow> 4 \<le> unat (fp_next_block_size p) \<and> unat (fp_next_block_size p) < 2 ^ 32"

definition parser_ok :: "FlvParser \<Rightarrow> bool" where
  "parser_ok p \<longleftrightarrow> next_ok p \<and>
    (fp_state p = FLV_PARSER_EXPECT_HEADER \<longrightarrow> fp_next_block_size p = FLV_HEADER_SIZE) \<and>
    (fp_state p = FLV_PARSER_EXPECT_TAG_PREFIX \<longrightarrow> fp_next_block_size p = FLV_TAG_PREFIX_SIZE)"

text \<open>What a successful reader does to the parser: the block has been consumed.\<close>

definition consumes_block :: "FlvParser \<Rightarrow> FlvParser \<Rightarrow> bool" where
  "consumes_block p p' \<longleftrightarrow> fp_parsed_block_size p' = fp_next_block_size p \<and>
     fp_file_position p' = fp_file_position p + fp_next_block_size p"

lemma byte_at_Some [simp]: "i < length bs \<Longrightarrow> byte_at bs i = Some (bs ! i)"
  by (simp add: byte_at_def)

lemma byte_high [simp]: "8 \<le> n \<Longrightarrow> \<not> bit (a :: 8 word) n"
  using bit_imp_le_length [of a n] by auto

lemma ucast_below: "unat (ucast (d :: 32 word) :: gsize) = unat d"
  by (rule trans [OF unsigned_ucast_eq], simp, rule take_bit_nat_eq_self, rule order.strict_trans [OF unsigned_less], simp)

lemma uint24_total: "i + 2 < length bs \<Longrightarrow> \<exists>w. FLV_READ_UINT24_BE bs i = Some w \<and> unat w < 2 ^ 24"
proof -
  assume "i + 2 < length bs"
  then have "FLV_READ_UINT24_BE bs i =
      Some (push_bit 8 (push_bit 8 (ucast (bs ! i)) OR ucast (bs ! (i + 1))) OR ucast (bs ! (i + 2)))"
    by (simp add: FLV_READ_UINT24_BE_def GST_READ_UINT16_BE_def)
  moreover have "take_bit 24 (push_bit 8 (push_bit 8 (ucast a) OR ucast b) OR ucast c :: 32 word)
      = (push_bit 8 (push_bit 8 (ucast a) OR ucast b) OR ucast c)" for a b c :: "8 word"
    by (rule bit_word_eqI) (auto simp: bit_simps)
  moreover have "unat (w :: 32 word) < 2 ^ 24" if "take_bit 24 w = w" for w
    using that take_bit_nat_less_exp [of 24 "unat w"] unsigned_take_bit_eq [of 24 w, where 'a = nat] by simp
  ultimately show ?thesis by blast
qed

lemma ts32_total: "i + 3 < length bs \<Longrightarrow> \<exists>w. FLV_READ_TS32 bs i = Some w"
  by (simp add: FLV_READ_TS32_def GST_READ_UINT16_BE_def)

lemma uint32_total: "i + 3 < length bs \<Longrightarrow> \<exists>w. GST_READ_UINT32_BE bs i = Some w"
  by (simp add: GST_READ_UINT32_BE_def)

lemma block_done_ok [simp]: "parser_ok (block_done p)" "consumes_block p (block_done p)"
  by (simp_all add: parser_ok_def next_ok_def block_done_def consumes_block_def)

lemma seek_ok [simp]: "parser_ok (flv_parser_seek p n)"
  by (simp add: parser_ok_def next_ok_def flv_parser_seek_def)

lemma init_ok [simp]: "parser_ok flv_parser_init" "parser_ok (flv_parser_reset p)"
  by (simp_all add: parser_ok_def next_ok_def flv_parser_init_def flv_parser_reset_def)

lemma parser_next_ok: "parser_ok p \<Longrightarrow> next_ok p"
  by (simp add: parser_ok_def)

text \<open>
  The contract of a reader: on a buffer that is as long as its size says it returns; a failing reader
  leaves the block length bounded; a successful one consumes the block and keeps the invariant.
\<close>

definition reader_contract ::
    "(FlvParser \<Rightarrow> bytes \<Rightarrow> gsize \<Rightarrow> (FlvParserResult \<times> FlvParser \<times> 'a) option) \<Rightarrow> bool" where
  "reader_contract rdr \<longleftrightarrow> (\<forall>p buf n. next_ok p \<and> unat n \<le> length buf \<longrightarrow>
     (\<exists>r p' t. rdr p buf n = Some (r, p', t) \<and> next_ok p' \<and>
       (r = FLV_PARSER_OK \<and> parser_ok p \<longrightarrow> parser_ok p' \<and> consumes_block p p')))"

lemma read_header_contract:
  "reader_contract (\<lambda>p b n. flv_parser_read_header p b n h)"
proof -
  have off: "4 \<le> unat (ucast d - 5 :: gsize) \<and> unat (ucast d - 5 :: gsize) < 4294967296"
    if "\<not> ucast d < (9 :: gsize)" for d :: "32 word"
  proof -
    have "unat (ucast d :: gsize) = unat d" by (rule ucast_below)
    moreover have "unat d < 2 ^ 32" using unsigned_less [of d] by simp
    moreover have "9 \<le> unat (ucast d :: gsize)" using that by (simp add: word_less_nat_alt)
    moreover have "unat (ucast d - 5 :: gsize) = unat (ucast d :: gsize) - 5"
      using that by (subst unat_sub) (auto simp: word_less_nat_alt word_le_nat_alt)
    ultimately show ?thesis by auto
  qed
  show ?thesis
    unfolding reader_contract_def
  proof (intro allI impI, elim conjE)
    fix p and buf :: bytes and n :: gsize assume ok: "next_ok p" and n: "unat n \<le> length buf"
    show "\<exists>r p' t. flv_parser_read_header p buf n h = Some (r, p', t) \<and> next_ok p' \<and>
       (r = FLV_PARSER_OK \<and> parser_ok p \<longrightarrow> parser_ok p' \<and> consumes_block p p')"
    proof (cases "fp_state p = FLV_PARSER_EXPECT_HEADER \<and> \<not> n < 9")
      case True
      with n have l: "9 \<le> length buf" by (simp add: word_less_nat_alt)
      have bs: "byte_at buf 0 = Some (buf ! 0)" "byte_at buf 1 = Some (buf ! 1)" "byte_at buf 2 = Some (buf ! 2)"
        "byte_at buf 3 = Some (buf ! 3)" "byte_at buf 4 = Some (buf ! 4)"
        by (rule byte_at_Some, use l in linarith)+
      from l obtain d where d: "GST_READ_UINT32_BE buf 5 = Some d" using uint32_total [of 5 buf] by auto
      show ?thesis
        using True ok off [of d] unfolding flv_parser_read_header_def
        by (auto simp: bs d Let_def parser_ok_def next_ok_def consumes_block_def simp del: One_nat_def)
    qed (use ok in \<open>auto simp: flv_parser_read_header_def\<close>)
  qed
qed

lemma skip_contract:
  "reader_contract (\<lambda>p b n. Some (fst (flv_parser_skip p n), snd (flv_parser_skip p n), ()))"
  by (auto simp: reader_contract_def flv_parser_skip_def parser_next_ok)

lemma script_contract:
  "reader_contract (\<lambda>p b n. Some (flv_parser_read_script_data_tag p n r))"
  by (auto simp: reader_contract_def flv_parser_read_script_data_tag_def parser_next_ok)

lemma next_nonempty: "next_ok p \<Longrightarrow> \<not> n < fp_next_block_size p \<Longrightarrow> unat n \<le> length bs \<Longrightarrow> bs \<noteq> []"
  by (auto simp: next_ok_def word_less_nat_alt)

lemma audio_contract: "reader_contract (\<lambda>p b n. flv_parser_read_audio_tag p b n t)"
  by (auto simp: reader_contract_def flv_parser_read_audio_tag_def parser_next_ok Let_def next_nonempty)

lemma video_contract: "reader_contract (\<lambda>p b n. flv_parser_read_video_tag p b n t)"
  by (auto simp: reader_contract_def flv_parser_read_video_tag_def parser_next_ok Let_def next_nonempty)

lemma scast24: "unat (w :: 32 word) < 2 ^ 24 \<Longrightarrow> unat (scast w :: gsize) = unat w"
proof -
  assume w: "unat w < 2 ^ 24"
  then have i: "uint w < 2 ^ 24" by (metis of_nat_less_iff of_nat_numeral of_nat_power uint_nat)
  then have "sint w = uint w"
    using order_trans [OF _ uint_ge_0 [of w], of "- 2147483648"] by (simp add: sint_uint signed_take_bit_int_eq_self_iff)
  then have "(scast w :: gsize) = word_of_int (uint w)" by (simp add: scast_eq)
  then show ?thesis by (simp add: ucast_below)
qed

lemma prefix_contract: "reader_contract (\<lambda>p b n. flv_parser_read_tag_prefix p b n t)"
  unfolding reader_contract_def
proof (intro allI impI, elim conjE)
  fix p and buf :: bytes and n :: gsize assume ok: "next_ok p" and n: "unat n \<le> length buf"
  show "\<exists>r p' t'. flv_parser_read_tag_prefix p buf n t = Some (r, p', t') \<and> next_ok p' \<and>
     (r = FLV_PARSER_OK \<and> parser_ok p \<longrightarrow> parser_ok p' \<and> consumes_block p p')"
  proof (cases "fp_state p = FLV_PARSER_EXPECT_TAG_PREFIX \<and> \<not> n < 11")
    case True
    with n have l: "11 \<le> length buf" by (simp add: word_less_nat_alt)
    have b0: "byte_at buf 0 = Some (buf ! 0)" by (rule byte_at_Some, use l in linarith)
    obtain sz id ts where rs: "FLV_READ_UINT24_BE buf 1 = Some sz" "unat sz < 2 ^ 24"
      "FLV_READ_UINT24_BE buf 8 = Some id" "FLV_READ_TS32 buf 4 = Some ts"
      using l uint24_total [of 1 buf] uint24_total [of 8 buf] ts32_total [of 4 buf] by auto
    have "unat (scast sz + 4 :: gsize) = unat sz + 4"
      using rs(2) scast24 [OF rs(2)] by (simp add: unat_word_ariths)
    then have "4 \<le> unat (scast sz + 4 :: gsize)" "unat (scast sz + 4 :: gsize) < 4294967296"
      using rs(2) by simp_all
    then show ?thesis
      using True ok rs b0 unfolding flv_parser_read_tag_prefix_def
      by (auto simp: Let_def parser_ok_def next_ok_def consumes_block_def simp del: One_nat_def)
  qed (use ok in \<open>auto simp: flv_parser_read_tag_prefix_def\<close>)
qed

section \<open>The layout of the format\<close>

definition be32 :: "32 word \<Rightarrow> bytes" where
  "be32 w = [ucast (drop_bit 24 w), ucast (drop_bit 16 w), ucast (drop_bit 8 w), ucast w]"

definition be24 :: "32 word \<Rightarrow> bytes" where
  "be24 w = [ucast (drop_bit 16 w), ucast (drop_bit 8 w), ucast w]"

definition ts32 :: "32 word \<Rightarrow> bytes" where
  "ts32 w = be24 w @ [ucast (drop_bit 24 w)]"

lemma nth_block: "i < length ys \<Longrightarrow> byte_at (xs @ ys @ zs) (length xs + i) = Some (ys ! i)"
  by (simp add: byte_at_def nth_append)

lemma read_be32: "GST_READ_UINT32_BE (xs @ be32 w @ zs) (length xs) = Some w"
proof -
  have "push_bit 24 (ucast (ucast (drop_bit 24 w) :: 8 word)) OR push_bit 16 (ucast (ucast (drop_bit 16 w) :: 8 word)) OR
     push_bit 8 (ucast (ucast (drop_bit 8 w) :: 8 word)) OR ucast (ucast w :: 8 word) = w" (is "?l = _")
  proof (rule bit_word_eqI)
    fix n show "bit ?l n = bit w n" if "n < LENGTH(32)"
      using that by (cases "n < 8"; cases "n < 16"; cases "n < 24") (auto simp: bit_simps)
  qed
  then show ?thesis
    using nth_block [of 0 "be32 w" xs zs] nth_block [of 1 "be32 w" xs zs] nth_block [of 2 "be32 w" xs zs] nth_block [of 3 "be32 w" xs zs]
    by (simp add: GST_READ_UINT32_BE_def be32_def numeral_2_eq_2 numeral_3_eq_3)
qed

lemma read_be24:
  assumes "unat w < 2 ^ 24"
  shows "FLV_READ_UINT24_BE (xs @ be24 w @ zs) (length xs) = Some w"
proof -
  have hi: "\<not> bit w n" if "24 \<le> n" for n
  proof -
    have "(2 :: nat) ^ 24 \<le> 2 ^ n" using that by (intro power_increasing) simp_all
    with assms have "\<not> bit (unat w) n" by (simp add: bit_iff_odd)
    then show ?thesis by (simp add: bit_unsigned_iff)
  qed
  have "push_bit 8 (push_bit 8 (ucast (ucast (drop_bit 16 w) :: 8 word)) OR ucast (ucast (drop_bit 8 w) :: 8 word)) OR
     ucast (ucast w :: 8 word) = w" (is "?l = _")
  proof (rule bit_word_eqI)
    fix n show "bit ?l n = bit w n" if "n < LENGTH(32)"
      using that hi [of n] by (cases "n < 8"; cases "n < 16"; cases "n < 24") (auto simp: bit_simps)
  qed
  then show ?thesis
    using nth_block [of 0 "be24 w" xs zs] nth_block [of 1 "be24 w" xs zs] nth_block [of 2 "be24 w" xs zs]
    by (simp add: FLV_READ_UINT24_BE_def GST_READ_UINT16_BE_def be24_def numeral_2_eq_2)
qed

lemma read_ts32: "FLV_READ_TS32 (xs @ ts32 w @ zs) (length xs) = Some w"
proof -
  have "push_bit 8 (push_bit 8 (ucast (ucast (drop_bit 16 w) :: 8 word)) OR ucast (ucast (drop_bit 8 w) :: 8 word)) OR
     ucast (ucast w :: 8 word) OR push_bit 24 (ucast (ucast (drop_bit 24 w) :: 8 word)) = w" (is "?l = _")
  proof (rule bit_word_eqI)
    fix n show "bit ?l n = bit w n" if "n < LENGTH(32)"
      using that by (cases "n < 8"; cases "n < 16"; cases "n < 24") (auto simp: bit_simps)
  qed
  then show ?thesis
    using nth_block [of 0 "ts32 w" xs zs] nth_block [of 1 "ts32 w" xs zs] nth_block [of 2 "ts32 w" xs zs] nth_block [of 3 "ts32 w" xs zs]
    by (simp add: FLV_READ_TS32_def GST_READ_UINT16_BE_def ts32_def be24_def numeral_2_eq_2 numeral_3_eq_3)
qed

text \<open>A tag of a file: its type, its time in milliseconds, its body and the four bytes of its suffix.\<close>

record flv_tag =
  ft_type :: "8 word"
  ft_time :: gint
  ft_body :: bytes
  ft_suffix :: bytes

definition tag_ok :: "flv_tag \<Rightarrow> bool" where
  "tag_ok t \<longleftrightarrow> length (ft_body t) < 2 ^ 24 \<and> length (ft_suffix t) = 4 \<and>
     ft_type t \<in> {FLV_TAG_TYPE_AUDIO, FLV_TAG_TYPE_VIDEO, FLV_TAG_TYPE_SCRIPT_DATA}"

definition encode_prefix :: "flv_tag \<Rightarrow> bytes" where
  "encode_prefix t = ft_type t # be24 (word_of_nat (length (ft_body t))) @ ts32 (ft_time t) @ [0, 0, 0]"

definition encode_tag :: "flv_tag \<Rightarrow> bytes" where
  "encode_tag t = encode_prefix t @ ft_body t @ ft_suffix t"

definition body_state :: "8 word \<Rightarrow> FlvParserState" where
  "body_state ty = (if ty = FLV_TAG_TYPE_AUDIO then FLV_PARSER_EXPECT_AUDIO_TAG_BODY
     else if ty = FLV_TAG_TYPE_VIDEO then FLV_PARSER_EXPECT_VIDEO_TAG_BODY
     else FLV_PARSER_EXPECT_SCRIPT_DATA_TAG_BODY)"

lemma length_encode_prefix [simp]: "length (encode_prefix t) = 11"
  by (simp add: encode_prefix_def be24_def ts32_def)

lemma read_encoded_prefix:
  assumes "tag_ok t" "parser_ok p" "fp_state p = FLV_PARSER_EXPECT_TAG_PREFIX" "11 \<le> n"
  shows "flv_parser_read_tag_prefix p (encode_prefix t @ rest) n tag =
    Some (FLV_PARSER_OK,
      p\<lparr>fp_parsed_block_size := 11, fp_file_position := fp_file_position p + 11,
        fp_next_block_size := of_nat (length (ft_body t) + 4), fp_state := body_state (ft_type t)\<rparr>,
      \<lparr>tp_tag_type = ft_type t, tp_body_size = of_nat (length (ft_body t)), tp_timestamp = ft_time t\<rparr>)"
proof -
  let ?sz = "word_of_nat (length (ft_body t)) :: 32 word"
  have sz: "unat ?sz < 2 ^ 24" using assms(1) by (simp add: tag_ok_def unat_of_nat)
  have ss: "scast ?sz = (of_nat (length (ft_body t)) :: gsize)"
    using scast24 [OF sz] assms(1) by (intro word_unat_eq_iff [THEN iffD2]) (simp add: unat_of_nat tag_ok_def)
  let ?e = "encode_prefix t @ rest"
  have b: "byte_at ?e 0 = Some (ft_type t)" by (simp add: byte_at_def encode_prefix_def)
  have s: "FLV_READ_UINT24_BE ?e 1 = Some ?sz"
    using read_be24 [OF sz, of "[ft_type t]" "ts32 (ft_time t) @ [0, 0, 0] @ rest"] by (simp add: encode_prefix_def)
  have l: "length (ft_type t # be24 ?sz) = 4" "length (ft_type t # be24 ?sz @ ts32 (ft_time t)) = 8"
    by (simp_all add: be24_def ts32_def)
  have ts: "FLV_READ_TS32 ?e 4 = Some (ft_time t)"
    using read_ts32 [of "ft_type t # be24 ?sz" "ft_time t" "[0, 0, 0] @ rest"] unfolding l by (simp add: encode_prefix_def)
  have id: "FLV_READ_UINT24_BE ?e 8 = Some 0"
    using read_be24 [of 0 "ft_type t # be24 ?sz @ ts32 (ft_time t)" rest] unfolding l
    by (simp add: encode_prefix_def be24_def [of 0])
  show ?thesis
    using assms b s ts id
    by (cases tag) (auto simp: flv_parser_read_tag_prefix_def Let_def ss tag_ok_def body_state_def simp del: One_nat_def)
qed

end
