(* ===== verification/Flv_Metadata.thy ===== *)
theory Flv_Metadata
  imports Flv_Parser
begin

text \<open>
  The reader of script data, \<^verbatim>\<open>flvmetadata.c\<close>: AMF values nested in objects and arrays, from which the
  \<open>onMetaData\<close> properties and the table of keyframes are kept.

  \<open>FLV_READ_DOUBLE_BE\<close> assembles the bits as on a little-endian machine.

  A reader walks the block \<open>buf\<close> with two offsets. Every access to the block goes through \<open>byte_at\<close>, so a
  result \<open>None\<close> is an access outside it (or the fuel of a loop running out); a result \<open>Some\<close> carries
  what the C function returns and stores. Offsets are unbounded, which is C's pointer arithmetic
  as long as addresses do not wrap. The conversions of a \<open>double\<close> are a parameter \<open>F\<close>: a double is its
  64 bits, and the conversions to integer types are functions of them. The tag list of GStreamer is
  the sequence of the \<open>gst_tag_list_add\<close> calls made on it.

  Objects and arrays nest, so the handler that skips values calls itself through the loops. Each of
  them takes a fuel that bounds the bytes still to be read; \<open>skip_total\<close> shows that the number of bytes
  left is enough, hence that skipping always ends and never leaves the block.
\<close>

section \<open>Data\<close>

record flt =
  f_clock :: "64 word \<Rightarrow> 64 word"   \<comment> \<open>\<open>(GstClockTime)(d * GST_SECOND)\<close>\<close>
  f_int :: "64 word \<Rightarrow> gint"        \<comment> \<open>\<open>(gint)d\<close>\<close>
  f_uint64 :: "64 word \<Rightarrow> guint64"  \<comment> \<open>\<open>(guint64)d\<close>\<close>

record FlvKeyframe =
  kf_time :: "64 word"
  kf_fileposition :: guint64

datatype tag_value = TagTime "64 word" | TagString bytes

type_synonym tag_list = "(bytes \<times> tag_value) list"

record FlvMetadata =
  md_duration :: "64 word"
  md_file_size :: gint
  md_can_seek_to_end :: gint
  md_video_codec_id :: gint
  md_video_data_rate :: "64 word"
  md_width :: gint
  md_height :: gint
  md_par_x :: gint
  md_par_y :: gint
  md_framerate :: "64 word"
  md_audio_codec_id :: gint
  md_audio_data_rate :: gint
  md_audio_sample_size :: gint
  md_is_stereo :: gint
  md_tag_list :: "tag_list option"
  md_keyframes :: "FlvKeyframe list option"

abbreviation (input) GST_CLOCK_TIME_NONE :: "64 word" where "GST_CLOCK_TIME_NONE \<equiv> - 1"

definition flv_metadata_new :: FlvMetadata where
  "flv_metadata_new = \<lparr>md_duration = GST_CLOCK_TIME_NONE, md_file_size = 0, md_can_seek_to_end = 0,
     md_video_codec_id = 0, md_video_data_rate = 0, md_width = 0, md_height = 0, md_par_x = 0, md_par_y = 0,
     md_framerate = 0, md_audio_codec_id = 0, md_audio_data_rate = 0, md_audio_sample_size = 0,
     md_is_stereo = 0, md_tag_list = None, md_keyframes = None\<rparr>"

text \<open>\<open>strcmp (s, lit) == 0\<close>, for a string whose bytes may contain a zero.\<close>

definition streq :: "bytes \<Rightarrow> string \<Rightarrow> bool" where
  "streq s lit \<longleftrightarrow> takeWhile (\<lambda>b. b \<noteq> 0) s = map of_char lit"

section \<open>Reading one value\<close>

text \<open>
  The result of a read is \<open>(reader, dest)\<close>; \<open>dest\<close> is \<open>None\<close> when the C function returns \<open>FALSE\<close>.
\<close>

abbreviation advance :: "nat \<Rightarrow> FlvScriptDataReader \<Rightarrow> FlvScriptDataReader" where
  "advance n r \<equiv> r\<lparr>sr_position := sr_position r + n\<rparr>"

definition FLV_READ_DOUBLE_BE :: "bytes \<Rightarrow> nat \<Rightarrow> 64 word option" where
  "FLV_READ_DOUBLE_BE buf i = do {
     h \<leftarrow> GST_READ_UINT32_BE buf i; l \<leftarrow> GST_READ_UINT32_BE buf (i + 4);
     Some (push_bit 32 (ucast h) OR ucast l) }"

definition flv_script_data_read_ui8 ::
    "bytes \<Rightarrow> FlvScriptDataReader \<Rightarrow> (FlvScriptDataReader \<times> 8 word option) option" where
  "flv_script_data_read_ui8 buf r =
    (if sr_position r + 1 > sr_end r then Some (r, None)
     else do { b \<leftarrow> byte_at buf (sr_position r); Some (advance 1 r, Some b) })"

definition flv_script_data_read_ui32 ::
    "bytes \<Rightarrow> FlvScriptDataReader \<Rightarrow> (FlvScriptDataReader \<times> 32 word option) option" where
  "flv_script_data_read_ui32 buf r =
    (if sr_position r + 4 > sr_end r then Some (r, None)
     else do { w \<leftarrow> GST_READ_UINT32_BE buf (sr_position r); Some (advance 4 r, Some w) })"

definition flv_script_data_read_double ::
    "bytes \<Rightarrow> FlvScriptDataReader \<Rightarrow> (FlvScriptDataReader \<times> 64 word option) option" where
  "flv_script_data_read_double buf r =
    (if sr_position r + 8 > sr_end r then Some (r, None)
     else do { d \<leftarrow> FLV_READ_DOUBLE_BE buf (sr_position r); Some (advance 8 r, Some d) })"

abbreviation (input) G_MAXSIZE :: gsize where "G_MAXSIZE \<equiv> - 1"

text \<open>\<open>memcpy\<close> of \<open>n\<close> bytes from the block.\<close>

definition copy_bytes :: "bytes \<Rightarrow> nat \<Rightarrow> nat \<Rightarrow> bytes option" where
  "copy_bytes buf i n = (if i + n \<le> length buf then Some (take n (drop i buf)) else None)"

definition flv_script_data_read_string ::
    "bytes \<Rightarrow> FlvScriptDataReader \<Rightarrow> bool \<Rightarrow> (FlvScriptDataReader \<times> bytes option) option" where
  "flv_script_data_read_string buf r longString =
    (if sr_position r + (if longString then 4 else 2) > sr_end r then Some (r, None)
     else do {
       w \<leftarrow> (if longString then GST_READ_UINT32_BE buf (sr_position r) else GST_READ_UINT16_BE buf (sr_position r));
       let length = (ucast w :: gsize);
       let r = advance (if longString then 4 else 2) r;
       if sr_position r + unat length > sr_end r then Some (r, None)
       else if length \<ge> G_MAXSIZE - 1 then Some (r, None)
       else do {
         s \<leftarrow> copy_bytes buf (sr_position r) (unat length);
         Some (advance (unat length) r, Some s) } })"

section \<open>Objects and arrays\<close>

text \<open>
  The loops call a handler for each value. A handler gets the name (\<open>None\<close> is the null pointer), the
  type and its parameter, and returns its \<open>gboolean\<close>, the reader and the parameter.
\<close>

type_synonym 'p handler = "FlvScriptDataReader \<Rightarrow> bytes option \<Rightarrow> 8 word \<Rightarrow> 'p \<Rightarrow> (bool \<times> FlvScriptDataReader \<times> 'p) option"

abbreviation (input) FLV_SCRIPT_DATA_TYPE_DOUBLE :: "8 word" where "FLV_SCRIPT_DATA_TYPE_DOUBLE \<equiv> 0"
abbreviation (input) FLV_SCRIPT_DATA_TYPE_BOOL :: "8 word" where "FLV_SCRIPT_DATA_TYPE_BOOL \<equiv> 1"
abbreviation (input) FLV_SCRIPT_DATA_TYPE_STRING :: "8 word" where "FLV_SCRIPT_DATA_TYPE_STRING \<equiv> 2"
abbreviation (input) FLV_SCRIPT_DATA_TYPE_OBJECT :: "8 word" where "FLV_SCRIPT_DATA_TYPE_OBJECT \<equiv> 3"
abbreviation (input) FLV_SCRIPT_DATA_TYPE_MOVIE_CLIP :: "8 word" where "FLV_SCRIPT_DATA_TYPE_MOVIE_CLIP \<equiv> 4"
abbreviation (input) FLV_SCRIPT_DATA_TYPE_NULL :: "8 word" where "FLV_SCRIPT_DATA_TYPE_NULL \<equiv> 5"
abbreviation (input) FLV_SCRIPT_DATA_TYPE_UNDEFINED :: "8 word" where "FLV_SCRIPT_DATA_TYPE_UNDEFINED \<equiv> 6"
abbreviation (input) FLV_SCRIPT_DATA_TYPE_REFERENCE :: "8 word" where "FLV_SCRIPT_DATA_TYPE_REFERENCE \<equiv> 7"
abbreviation (input) FLV_SCRIPT_DATA_TYPE_ECMA :: "8 word" where "FLV_SCRIPT_DATA_TYPE_ECMA \<equiv> 8"
abbreviation (input) FLV_SCRIPT_DATA_TYPE_TERMINATOR :: "8 word" where "FLV_SCRIPT_DATA_TYPE_TERMINATOR \<equiv> 9"
abbreviation (input) FLV_SCRIPT_DATA_TYPE_STRICT :: "8 word" where "FLV_SCRIPT_DATA_TYPE_STRICT \<equiv> 10"
abbreviation (input) FLV_SCRIPT_DATA_TYPE_DATE :: "8 word" where "FLV_SCRIPT_DATA_TYPE_DATE \<equiv> 11"
abbreviation (input) FLV_SCRIPT_DATA_TYPE_LONG_STRING :: "8 word" where "FLV_SCRIPT_DATA_TYPE_LONG_STRING \<equiv> 12"

text \<open>The name and the type of the next property, or the terminator; \<open>None\<close> inside is \<open>return FALSE\<close>.\<close>

definition read_property ::
    "bytes \<Rightarrow> FlvScriptDataReader \<Rightarrow> (FlvScriptDataReader \<times> (bytes option \<times> 8 word) option) option" where
  "read_property buf r = do {
     b0 \<leftarrow> byte_at buf (sr_position r);
     b1 \<leftarrow> byte_at buf (sr_position r + 1);
     b2 \<leftarrow> byte_at buf (sr_position r + 2);
     if b0 = 0 \<and> b1 = 0 \<and> b2 = 9
     then Some (advance 3 r, Some (None, FLV_SCRIPT_DATA_TYPE_TERMINATOR))
     else do {
       (r, name) \<leftarrow> flv_script_data_read_string buf r False;
       case name of None \<Rightarrow> Some (r, None)
       | Some var_name \<Rightarrow> do {
           (r, ty) \<leftarrow> flv_script_data_read_ui8 buf r;
           Some (r, case ty of None \<Rightarrow> None | Some t \<Rightarrow> Some (Some var_name, t)) } } }"

fun flv_script_data_read_object ::
    "nat \<Rightarrow> bytes \<Rightarrow> FlvScriptDataReader \<Rightarrow> 'p handler \<Rightarrow> 'p \<Rightarrow> (bool \<times> FlvScriptDataReader \<times> 'p) option" where
  "flv_script_data_read_object 0 buf r callback p = None"
| "flv_script_data_read_object (Suc n) buf r callback p =
    (if sr_position r < sr_end r then
       if sr_position r + 3 > sr_end r then Some (False, r, p)
       else do {
         (r, prop) \<leftarrow> read_property buf r;
         case prop of None \<Rightarrow> Some (False, r, p)
         | Some (var_name, value_type) \<Rightarrow> do {
             (result, r, p) \<leftarrow> callback r var_name value_type p;
             if value_type = FLV_SCRIPT_DATA_TYPE_TERMINATOR then Some (True, r, p)
             else if \<not> result then Some (False, r, p)
             else flv_script_data_read_object n buf r callback p } }
     else Some (True, r, p))"

definition flv_script_data_read_ecma ::
    "nat \<Rightarrow> bytes \<Rightarrow> FlvScriptDataReader \<Rightarrow> 'p handler \<Rightarrow> 'p \<Rightarrow> (bool \<times> FlvScriptDataReader \<times> 'p) option" where
  "flv_script_data_read_ecma n buf r callback p = do {
     (r, sz) \<leftarrow> flv_script_data_read_ui32 buf r;
     case sz of None \<Rightarrow> Some (False, r, p)
     | Some array_size \<Rightarrow> flv_script_data_read_object n buf r callback p }"

text \<open>The loop of a strict array, \<open>k\<close> values to go.\<close>

fun strict_loop ::
    "nat \<Rightarrow> bytes \<Rightarrow> FlvScriptDataReader \<Rightarrow> 'p handler \<Rightarrow> 'p \<Rightarrow> (bool \<times> FlvScriptDataReader \<times> 'p) option" where
  "strict_loop 0 buf r callback p = Some (True, r, p)"
| "strict_loop (Suc k) buf r callback p = do {
     (r, ty) \<leftarrow> flv_script_data_read_ui8 buf r;
     case ty of None \<Rightarrow> Some (False, r, p)
     | Some value_type \<Rightarrow> do {
         (result, r, p) \<leftarrow> callback r None value_type p;
         if \<not> result then Some (False, r, p) else strict_loop k buf r callback p } }"

definition flv_script_data_read_strict_array ::
    "bytes \<Rightarrow> FlvScriptDataReader \<Rightarrow> 'p handler \<Rightarrow> 'p \<Rightarrow> (bool \<times> FlvScriptDataReader \<times> 'p) option" where
  "flv_script_data_read_strict_array buf r callback p = do {
     (r, sz) \<leftarrow> flv_script_data_read_ui32 buf r;
     case sz of None \<Rightarrow> Some (False, r, p)
     | Some array_size \<Rightarrow> strict_loop (unat array_size) buf r callback p }"

section \<open>Handlers\<close>

text \<open>Values that are skipped: read and forgotten.\<close>

fun flv_metadata_skip_handler :: "nat \<Rightarrow> bytes \<Rightarrow> 'p handler" where
  "flv_metadata_skip_handler 0 buf r value_name value_type p = None"
| "flv_metadata_skip_handler (Suc n) buf r value_name value_type p =
    (if value_type = FLV_SCRIPT_DATA_TYPE_DOUBLE then do {
       (r, d) \<leftarrow> flv_script_data_read_double buf r; Some (d \<noteq> None, r, p) }
     else if value_type = FLV_SCRIPT_DATA_TYPE_BOOL then do {
       (r, b) \<leftarrow> flv_script_data_read_ui8 buf r; Some (b \<noteq> None, r, p) }
     else if value_type = FLV_SCRIPT_DATA_TYPE_STRING then do {
       (r, s) \<leftarrow> flv_script_data_read_string buf r False; Some (s \<noteq> None, r, p) }
     else if value_type = FLV_SCRIPT_DATA_TYPE_OBJECT then
       flv_script_data_read_object (Suc n) buf r (flv_metadata_skip_handler n buf) p
     else if value_type = FLV_SCRIPT_DATA_TYPE_ECMA then
       flv_script_data_read_ecma (Suc n) buf r (flv_metadata_skip_handler n buf) p
     else if value_type = FLV_SCRIPT_DATA_TYPE_TERMINATOR then Some (True, r, p)
     else if value_type = FLV_SCRIPT_DATA_TYPE_STRICT then
       flv_script_data_read_strict_array buf r (flv_metadata_skip_handler n buf) p
     else Some (False, r, p))"

text \<open>
  A table of keyframes is read column by column. \<open>g_array_set_size\<close> cuts the array or extends it with zeros;
  a store outside its elements is \<open>None\<close>. The counter \<open>readSize\<close> is a \<open>guint32\<close> and wraps.
\<close>

definition g_array_set_size :: "FlvKeyframe list \<Rightarrow> nat \<Rightarrow> FlvKeyframe list" where
  "g_array_set_size ks n = take n ks @ replicate (n - length ks) \<lparr>kf_time = 0, kf_fileposition = 0\<rparr>"

definition set_keyframe :: "nat \<Rightarrow> flt \<Rightarrow> 64 word \<Rightarrow> FlvKeyframe \<Rightarrow> FlvKeyframe" where
  "set_keyframe whichField F d k =
    (if whichField = 1 then k\<lparr>kf_time := f_clock F d\<rparr>
     else if whichField = 2 then k\<lparr>kf_fileposition := f_uint64 F d\<rparr> else k)"

fun keyframe_loop ::
    "nat \<Rightarrow> nat \<Rightarrow> 32 word \<Rightarrow> nat \<Rightarrow> flt \<Rightarrow> bytes \<Rightarrow> FlvScriptDataReader \<Rightarrow> FlvKeyframe list
      \<Rightarrow> (bool \<times> FlvScriptDataReader \<times> FlvKeyframe list) option" where
  "keyframe_loop 0 i readSize whichField F buf r ks = Some (True, r, ks)"
| "keyframe_loop (Suc k) i readSize whichField F buf r ks = do {
     (r, ty) \<leftarrow> flv_script_data_read_ui8 buf r;
     case ty of None \<Rightarrow> Some (False, r, ks)
     | Some value_type \<Rightarrow>
       if value_type \<noteq> FLV_SCRIPT_DATA_TYPE_DOUBLE then Some (False, r, ks)
       else do {
         (r, d) \<leftarrow> flv_script_data_read_double buf r;
         case d of None \<Rightarrow> Some (False, r, ks)
         | Some double_value \<Rightarrow> do {
             ks \<leftarrow> (if readSize > 0 \<and> whichField > 0
                   then if i < length ks then Some (ks[i := set_keyframe whichField F double_value (ks ! i)]) else None
                   else Some ks);
             keyframe_loop k (i + 1) (readSize - 1) whichField F buf r ks } } }"

definition keyframe_prepare :: "FlvKeyframe list \<Rightarrow> 32 word \<Rightarrow> FlvKeyframe list \<times> 32 word" where
  "keyframe_prepare ks array_size =
    (let (ks, readSize) =
       (if length ks > 0 then
          if length ks > unat array_size then (g_array_set_size ks (unat array_size), array_size)
          else if length ks < unat array_size then (ks, word_of_nat (length ks))
          else (ks, array_size)
        else (ks, array_size))
     in (if length ks \<noteq> unat readSize then g_array_set_size ks (unat readSize) else ks, readSize))"

definition flv_script_read_keyframe_array ::
    "flt \<Rightarrow> bytes \<Rightarrow> FlvScriptDataReader \<Rightarrow> bytes option \<Rightarrow> FlvKeyframe list
      \<Rightarrow> (bool \<times> FlvScriptDataReader \<times> FlvKeyframe list) option" where
  "flv_script_read_keyframe_array F buf r value_name keyframes = do {
     (r, sz) \<leftarrow> flv_script_data_read_ui32 buf r;
     case sz of None \<Rightarrow> Some (False, r, keyframes)
     | Some array_size \<Rightarrow> do {
         name \<leftarrow> value_name;
         let whichField = (if streq name ''times'' then 1 else if streq name ''filepositions'' then 2 else 0 :: nat);
         let (keyframes, readSize) = keyframe_prepare keyframes array_size;
         keyframe_loop (unat array_size) 0 readSize whichField F buf r keyframes } }"

definition flv_metadata_keyframe_handler :: "flt \<Rightarrow> bytes \<Rightarrow> FlvMetadata handler" where
  "flv_metadata_keyframe_handler F buf r value_name value_type metadata =
    (if value_type = FLV_SCRIPT_DATA_TYPE_TERMINATOR then Some (True, r, metadata)
     else if value_type = FLV_SCRIPT_DATA_TYPE_STRICT then do {
       let ks = (case md_keyframes metadata of None \<Rightarrow> [] | Some ks \<Rightarrow> ks);
       (result, r, ks) \<leftarrow> flv_script_read_keyframe_array F buf r value_name ks;
       Some (result, r, metadata\<lparr>md_keyframes := Some ks\<rparr>) }
     else Some (False, r, metadata))"

text \<open>The properties of \<open>onMetaData\<close> that are kept.\<close>

definition tag_add :: "bytes \<Rightarrow> tag_value \<Rightarrow> FlvMetadata \<Rightarrow> FlvMetadata" where
  "tag_add name v m = m\<lparr>md_tag_list := map_option (\<lambda>l. l @ [(name, v)]) (md_tag_list m)\<rparr>"

abbreviation (input) GST_TAG_DURATION :: bytes where "GST_TAG_DURATION \<equiv> map of_char ''duration''"

definition set_double :: "flt \<Rightarrow> bytes \<Rightarrow> 64 word \<Rightarrow> FlvMetadata \<Rightarrow> FlvMetadata" where
  "set_double F name d m =
    (if streq name ''duration'' then tag_add GST_TAG_DURATION (TagTime (f_clock F d)) (m\<lparr>md_duration := f_clock F d\<rparr>)
     else if streq name ''filesize'' then m\<lparr>md_file_size := f_int F d\<rparr>
     else if streq name ''videocodecid'' then m\<lparr>md_video_codec_id := f_int F d\<rparr>
     else if streq name ''videodatarate'' then m\<lparr>md_video_data_rate := d\<rparr>
     else if streq name ''width'' then m\<lparr>md_width := f_int F d\<rparr>
     else if streq name ''height'' then m\<lparr>md_height := f_int F d\<rparr>
     else if streq name ''AspectRatioX'' then m\<lparr>md_par_x := f_int F d\<rparr>
     else if streq name ''AspectRatioY'' then m\<lparr>md_par_y := f_int F d\<rparr>
     else if streq name ''framerate'' then m\<lparr>md_framerate := d\<rparr>
     else if streq name ''audiocodecid'' then m\<lparr>md_audio_codec_id := f_int F d\<rparr>
     else if streq name ''audiosamplesize'' then m\<lparr>md_audio_sample_size := f_int F d\<rparr>
     else m)"

definition set_boolean :: "bytes \<Rightarrow> 8 word \<Rightarrow> FlvMetadata \<Rightarrow> FlvMetadata" where
  "set_boolean name b m =
    (if streq name ''canSeekToEnd'' then m\<lparr>md_can_seek_to_end := ucast b\<rparr>
     else if streq name ''stereo'' then m\<lparr>md_is_stereo := ucast b\<rparr> else m)"

definition flv_metadata_value_handler :: "nat \<Rightarrow> flt \<Rightarrow> bytes \<Rightarrow> FlvMetadata handler" where
  "flv_metadata_value_handler n F buf r value_name value_type metadata =
    (if value_type = FLV_SCRIPT_DATA_TYPE_DOUBLE then do {
       (r, d) \<leftarrow> flv_script_data_read_double buf r;
       case d of None \<Rightarrow> Some (False, r, metadata)
       | Some double_value \<Rightarrow> do { name \<leftarrow> value_name; Some (True, r, set_double F name double_value metadata) } }
     else if value_type = FLV_SCRIPT_DATA_TYPE_BOOL then do {
       (r, b) \<leftarrow> flv_script_data_read_ui8 buf r;
       case b of None \<Rightarrow> Some (False, r, metadata)
       | Some boolean_value \<Rightarrow> do { name \<leftarrow> value_name; Some (True, r, set_boolean name boolean_value metadata) } }
     else if value_type = FLV_SCRIPT_DATA_TYPE_STRING \<or> value_type = FLV_SCRIPT_DATA_TYPE_LONG_STRING then do {
       (r, s) \<leftarrow> flv_script_data_read_string buf r (value_type = FLV_SCRIPT_DATA_TYPE_LONG_STRING);
       case s of None \<Rightarrow> Some (False, r, metadata)
       | Some string_value \<Rightarrow> do { name \<leftarrow> value_name;
           Some (True, r, tag_add (takeWhile (\<lambda>b. b \<noteq> 0) name) (TagString (takeWhile (\<lambda>b. b \<noteq> 0) string_value)) metadata) } }
     else if value_type = FLV_SCRIPT_DATA_TYPE_OBJECT then do {
       name \<leftarrow> value_name;
       if streq name ''keyframes'' \<and> md_keyframes metadata = None
       then flv_script_data_read_object n buf r (flv_metadata_keyframe_handler F buf) metadata
       else flv_script_data_read_object n buf r (flv_metadata_skip_handler n buf) metadata }
     else if value_type = FLV_SCRIPT_DATA_TYPE_MOVIE_CLIP then Some (False, r, metadata)
     else if value_type = FLV_SCRIPT_DATA_TYPE_NULL \<or> value_type = FLV_SCRIPT_DATA_TYPE_UNDEFINED
     then Some (True, r, metadata)
     else if value_type = FLV_SCRIPT_DATA_TYPE_REFERENCE then Some (True, advance 2 r, metadata)
     else if value_type = FLV_SCRIPT_DATA_TYPE_ECMA
     then flv_script_data_read_ecma n buf r (flv_metadata_skip_handler n buf) metadata
     else if value_type = FLV_SCRIPT_DATA_TYPE_TERMINATOR then Some (True, r, metadata)
     else if value_type = FLV_SCRIPT_DATA_TYPE_STRICT
     then flv_script_data_read_strict_array buf r (flv_metadata_skip_handler n buf) metadata
     else if value_type = FLV_SCRIPT_DATA_TYPE_DATE then Some (True, advance 10 r, metadata)
     else Some (False, r, metadata))"

definition flv_script_data_read ::
    "nat \<Rightarrow> flt \<Rightarrow> bytes \<Rightarrow> FlvScriptDataReader \<Rightarrow> FlvMetadata \<Rightarrow> (bool \<times> FlvScriptDataReader \<times> FlvMetadata) option" where
  "flv_script_data_read n F buf r metadata = do {
     (r, ty) \<leftarrow> flv_script_data_read_ui8 buf r;
     if ty \<noteq> Some FLV_SCRIPT_DATA_TYPE_STRING then Some (True, r, metadata)
     else do {
       (r, s) \<leftarrow> flv_script_data_read_string buf r False;
       case s of None \<Rightarrow> Some (False, r, metadata)
       | Some str \<Rightarrow>
         if \<not> streq str ''onMetaData'' then Some (True, r, metadata)
         else do {
           (r, ty) \<leftarrow> flv_script_data_read_ui8 buf r;
           if ty \<noteq> Some FLV_SCRIPT_DATA_TYPE_ECMA then Some (False, r, metadata)
           else do {
             let metadata = (if md_tag_list metadata = None then metadata\<lparr>md_tag_list := Some []\<rparr> else metadata);
             (result, r, metadata) \<leftarrow> flv_script_data_read_ecma n buf r (flv_metadata_value_handler n F buf) metadata;
             Some (result, r, if result then metadata else metadata\<lparr>md_tag_list := None\<rparr>) } } } }"

section \<open>Reads stay inside the block\<close>

definition moved :: "FlvScriptDataReader \<Rightarrow> FlvScriptDataReader \<Rightarrow> bool" where
  "moved r r' \<longleftrightarrow> sr_end r' = sr_end r \<and> sr_position r \<le> sr_position r'"

abbreviation remaining :: "FlvScriptDataReader \<Rightarrow> nat" where
  "remaining r \<equiv> sr_end r - sr_position r"

lemma moved_refl [simp]: "moved r r" by (simp add: moved_def)

lemma moved_upd [simp]: "moved r (r\<lparr>sr_position := k\<rparr>) \<longleftrightarrow> sr_position r \<le> k" by (simp add: moved_def)

lemma moved_trans [trans]: "moved r s \<Longrightarrow> moved s t \<Longrightarrow> moved r t"
  by (simp add: moved_def)

lemma moved_end: "moved r s \<Longrightarrow> sr_end s = sr_end r" by (simp add: moved_def)

lemma moved_remaining: "moved r s \<Longrightarrow> remaining s \<le> remaining r"
  by (simp add: moved_def diff_le_mono2)

text \<open>The three readers of a fixed size \<open>k\<close> differ only in the number they read.\<close>

definition reads :: "nat \<Rightarrow> FlvScriptDataReader \<Rightarrow> (FlvScriptDataReader \<times> 'a option) option \<Rightarrow> bool" where
  "reads k r res \<longleftrightarrow> (\<exists>r' d. res = Some (r', d) \<and> moved r r' \<and>
     (d \<noteq> None \<longrightarrow> sr_position r' = sr_position r + k \<and> sr_position r' \<le> sr_end r))"

lemma reads_fixed:
  assumes "sr_end r \<le> length buf" "\<And>i. i + k \<le> length buf \<Longrightarrow> \<exists>d. f i = Some d"
  shows "reads k r (if sr_position r + k > sr_end r then Some (r, None)
     else do { d \<leftarrow> f (sr_position r); Some (advance k r, Some d) })"
proof (cases "sr_position r + k > sr_end r")
  case False
  with assms obtain d where "f (sr_position r) = Some d" by fastforce
  with False show ?thesis by (simp add: reads_def)
qed (simp add: reads_def)

lemma read_ui8_total: "sr_end r \<le> length buf \<Longrightarrow> reads 1 r (flv_script_data_read_ui8 buf r)"
  unfolding flv_script_data_read_ui8_def by (erule reads_fixed) auto

lemma read_ui32_total: "sr_end r \<le> length buf \<Longrightarrow> reads 4 r (flv_script_data_read_ui32 buf r)"
  unfolding flv_script_data_read_ui32_def by (erule reads_fixed) (auto intro: uint32_total)

lemma read_double_total: "sr_end r \<le> length buf \<Longrightarrow> reads 8 r (flv_script_data_read_double buf r)"
  unfolding flv_script_data_read_double_def
proof (erule reads_fixed)
  fix i assume "i + 8 \<le> length buf"
  then obtain h l where "GST_READ_UINT32_BE buf i = Some h" "GST_READ_UINT32_BE buf (i + 4) = Some l"
    using uint32_total [of i buf] uint32_total [of "i + 4" buf] by auto
  then show "\<exists>d. FLV_READ_DOUBLE_BE buf i = Some d" by (simp add: FLV_READ_DOUBLE_BE_def)
qed

lemma readsE:
  assumes "reads k r res"
  obtains r' where "res = Some (r', None)" "moved r r'"
  | r' d where "res = Some (r', Some d)" "moved r r'" "sr_position r' = sr_position r + k" "sr_position r' \<le> sr_end r"
  using assms unfolding reads_def by (metis option.exhaust option.distinct(1))

lemma read_string_total:
  assumes "sr_end r \<le> length buf"
  obtains r' d where "flv_script_data_read_string buf r l = Some (r', d)" "moved r r'"
proof (cases "sr_position r + (if l then 4 else 2) > sr_end r")
  case True
  then show ?thesis by (intro that [of r None]) (simp_all add: flv_script_data_read_string_def)
next
  case False
  with assms obtain w where w: "(if l then GST_READ_UINT32_BE buf (sr_position r) else GST_READ_UINT16_BE buf (sr_position r)) = Some w"
    using uint32_total [of "sr_position r" buf] by (cases l) (auto simp: GST_READ_UINT16_BE_def)
  let ?r = "advance (if l then 4 else 2) r" and ?n = "unat (ucast w :: gsize)"
  have rs: "flv_script_data_read_string buf r l =
    (if sr_position ?r + ?n > sr_end ?r then Some (?r, None)
     else if (ucast w :: gsize) \<ge> G_MAXSIZE - 1 then Some (?r, None)
     else do { s \<leftarrow> copy_bytes buf (sr_position ?r) ?n; Some (advance ?n ?r, Some s) })"
    using False w by (simp only: flv_script_data_read_string_def Let_def if_False bind.bind_lunit)
  show ?thesis
  proof (cases "sr_position ?r + ?n > sr_end ?r \<or> (ucast w :: gsize) \<ge> G_MAXSIZE - 1")
    case True
    then show ?thesis by (intro that [of ?r None]) (auto simp: rs)
  next
    case False
    then have "sr_position ?r + ?n \<le> length buf" using assms by simp
    then show ?thesis using False
      by (intro that [of "advance ?n ?r"]) (auto simp: rs copy_bytes_def moved_def)
  qed
qed

lemma read_property_total:
  assumes "sr_end r \<le> length buf" "sr_position r + 3 \<le> sr_end r"
  obtains r' d where "read_property buf r = Some (r', d)" "moved r r'"
    "d \<noteq> None \<Longrightarrow> sr_position r < sr_position r'"
proof (cases "buf ! sr_position r = 0 \<and> buf ! (sr_position r + 1) = 0 \<and> buf ! (sr_position r + 2) = 9")
  case True
  with assms show ?thesis by (intro that [of "advance 3 r"]) (auto simp: read_property_def)
next
  case False
  obtain r1 name where s: "flv_script_data_read_string buf r False = Some (r1, name)" "moved r r1"
    using read_string_total [OF assms(1)] by blast
  have rp: "read_property buf r = do {
       (r, name) \<leftarrow> flv_script_data_read_string buf r False;
       case name of None \<Rightarrow> Some (r, None)
       | Some var_name \<Rightarrow> do {
           (r, ty) \<leftarrow> flv_script_data_read_ui8 buf r;
           Some (r, case ty of None \<Rightarrow> None | Some t \<Rightarrow> Some (Some var_name, t)) } }"
    using assms False by (auto simp: read_property_def)
  have "sr_end r1 \<le> length buf" using assms(1) moved_end [OF s(2)] by simp
  from read_ui8_total [OF this] show ?thesis
  proof (cases rule: readsE)
    case (1 r')
    then show ?thesis using s moved_trans [OF s(2) 1(2)]
      by (cases name) (auto simp: rp intro: that [of r1 None] that [of r' None])
  next
    case (2 r' ty)
    have m: "moved r r'" "sr_position r < sr_position r'"
      using moved_trans [OF s(2) 2(2)] s(2) 2(3) by (simp_all add: moved_def)
    show ?thesis
    proof (cases name)
      case None
      then show ?thesis using s by (intro that [of r1 None]) (simp_all add: rp)
    next
      case (Some nm)
      then show ?thesis using s 2(1) m by (intro that [of r' "Some (Some nm, ty)"]) (simp_all add: rp)
    qed
  qed
qed

section \<open>Skipping is total\<close>

text \<open>
  What the loops need of a handler: below a number of remaining bytes it returns, and it does not move
  the reader backwards. With such a handler and fuel above the remaining bytes the loops return.
\<close>

locale value_handler =
  fixes buf :: bytes and n :: nat and h :: "'p handler" and ok :: "'p \<Rightarrow> bool"
  assumes handler_total: "sr_end r \<le> length buf \<Longrightarrow> remaining r < n \<Longrightarrow> ok p \<Longrightarrow>
    name \<noteq> None \<or> ty = FLV_SCRIPT_DATA_TYPE_TERMINATOR \<Longrightarrow>
    \<exists>res r' p'. h r name ty p = Some (res, r', p') \<and> moved r r' \<and> ok p'"
begin

lemma object_total:
  "sr_end r \<le> length buf \<Longrightarrow> remaining r \<le> n \<Longrightarrow> remaining r < k \<Longrightarrow> ok p \<Longrightarrow>
    \<exists>res r' p'. flv_script_data_read_object k buf r h p = Some (res, r', p') \<and> moved r r' \<and> ok p'"
proof (induction k arbitrary: r p)
  case (Suc k)
  show ?case
  proof (cases "sr_position r < sr_end r \<and> sr_position r + 3 \<le> sr_end r")
    case True
    obtain r1 pr where p: "read_property buf r = Some (r1, pr)" "moved r r1"
        "pr \<noteq> None \<Longrightarrow> sr_position r < sr_position r1"
      using read_property_total [of r buf] Suc.prems(1) True by blast
    show ?thesis
    proof (cases pr)
      case None
      then show ?thesis using True p Suc.prems(4) by auto
    next
      case (Some nt)
      obtain name ty where nt: "nt = (name, ty)" by (cases nt)
      have r1: "sr_end r1 \<le> length buf" "remaining r1 < remaining r"
        using p(2,3) Some Suc.prems(1) True by (auto simp: moved_def)
      have named: "name \<noteq> None \<or> ty = FLV_SCRIPT_DATA_TYPE_TERMINATOR"
        using p(1) Some nt by (auto simp: read_property_def split: bind_splits if_splits option.splits)
      obtain res r2 p2 where c: "h r1 name ty p = Some (res, r2, p2)" "moved r1 r2" "ok p2"
        using handler_total [OF r1(1) _ Suc.prems(4) named] r1(2) Suc.prems(2) by auto
      have m: "moved r r2" "sr_end r2 \<le> length buf" "remaining r2 < k" "remaining r2 \<le> n"
        using moved_trans [OF p(2) c(2)] moved_remaining [OF c(2)] moved_end [OF c(2)] r1 Suc.prems(2,3) by auto
      show ?thesis
        using True p(1) Some nt c m Suc.IH [OF m(2,4,3) c(3)] moved_trans [OF m(1)] by auto
    qed
  qed (use Suc.prems in auto)
qed simp

end

context value_handler begin

lemma ecma_total:
  assumes "sr_end r \<le> length buf" "remaining r \<le> n" "remaining r < k" "ok p"
  shows "\<exists>res r' p'. flv_script_data_read_ecma k buf r h p = Some (res, r', p') \<and> moved r r' \<and> ok p'"
  using read_ui32_total [OF assms(1)]
proof (cases rule: readsE)
  case (2 r1 sz)
  have "sr_end r1 \<le> length buf" "remaining r1 \<le> n" "remaining r1 < k"
    using assms moved_end [OF 2(2)] moved_remaining [OF 2(2)] by auto
  from object_total [OF this assms(4)] show ?thesis
    using 2(1) moved_trans [OF 2(2)] by (auto simp: flv_script_data_read_ecma_def)
qed (use assms in \<open>auto simp: flv_script_data_read_ecma_def\<close>)

end

text \<open>The values of a strict array have no name.\<close>

locale anon_handler = value_handler +
  assumes anon_total: "sr_end r \<le> length buf \<Longrightarrow> remaining r < n \<Longrightarrow> ok p \<Longrightarrow>
    \<exists>res r' p'. h r None ty p = Some (res, r', p') \<and> moved r r' \<and> ok p'"
begin

lemma strict_loop_total:
  "sr_end r \<le> length buf \<Longrightarrow> remaining r < n \<Longrightarrow> ok p \<Longrightarrow>
    \<exists>res r' p'. strict_loop k buf r h p = Some (res, r', p') \<and> moved r r' \<and> ok p'"
proof (induction k arbitrary: r p)
  case (Suc k)
  from read_ui8_total [OF Suc.prems(1)] show ?case
  proof (cases rule: readsE)
    case (2 r1 ty)
    have r1: "sr_end r1 \<le> length buf" "remaining r1 < n"
      using Suc.prems moved_end [OF 2(2)] moved_remaining [OF 2(2)] by auto
    obtain res r2 p2 where c: "h r1 None ty p = Some (res, r2, p2)" "moved r1 r2" "ok p2"
      using anon_total [OF r1 Suc.prems(3)] by blast
    have m: "sr_end r2 \<le> length buf" "remaining r2 < n" "moved r r2"
      using r1 moved_end [OF c(2)] moved_remaining [OF c(2)] moved_trans [OF 2(2) c(2)] by auto
    show ?thesis
      using 2(1) c m Suc.IH [OF m(1,2) c(3)] moved_trans [OF m(3)] by auto
  qed (use Suc.prems in auto)
qed auto

lemma strict_array_total:
  assumes "sr_end r \<le> length buf" "remaining r \<le> n" "ok p"
  shows "\<exists>res r' p'. flv_script_data_read_strict_array buf r h p = Some (res, r', p') \<and> moved r r' \<and> ok p'"
  using read_ui32_total [OF assms(1)]
proof (cases rule: readsE)
  case (2 r1 sz)
  have "sr_end r1 \<le> length buf" "remaining r1 < n"
    using assms moved_end [OF 2(2)] 2(3,4) by auto
  from strict_loop_total [OF this assms(3), of "unat sz"] show ?thesis
    using 2(1) moved_trans [OF 2(2)] by (auto simp: flv_script_data_read_strict_array_def)
qed (use assms in \<open>auto simp: flv_script_data_read_strict_array_def\<close>)

end

lemma skip_total:
  "sr_end r \<le> length buf \<Longrightarrow> remaining r < n \<Longrightarrow> ok p \<Longrightarrow>
    \<exists>res r' p'. flv_metadata_skip_handler n buf r name ty p = Some (res, r', p') \<and> moved r r' \<and> ok p'"
proof (induction n arbitrary: r name ty p)
  case (Suc n)
  have h: "anon_handler buf n (flv_metadata_skip_handler n buf) ok"
    by unfold_locales (use Suc.IH in blast)+
  note vh = anon_handler.axioms(1) [OF h]
  have rn: "remaining r \<le> n" using Suc.prems(2) by simp
  obtain r1 s where str: "flv_script_data_read_string buf r False = Some (r1, s)" "moved r r1"
    using read_string_total [OF Suc.prems(1)] by blast
  note facts = value_handler.object_total [OF vh Suc.prems(1) rn Suc.prems(2,3)]
    value_handler.ecma_total [OF vh Suc.prems(1) rn Suc.prems(2,3)]
    anon_handler.strict_array_total [OF h Suc.prems(1) rn Suc.prems(3)]
  have d: "\<exists>res r'. (do { (r, d) \<leftarrow> flv_script_data_read_double buf r; Some (d \<noteq> None, r, p) }) = Some (res, r', p) \<and> moved r r'"
    and b: "\<exists>res r'. (do { (r, d) \<leftarrow> flv_script_data_read_ui8 buf r; Some (d \<noteq> None, r, p) }) = Some (res, r', p) \<and> moved r r'"
    using read_double_total [OF Suc.prems(1)] read_ui8_total [OF Suc.prems(1)] by (auto simp: reads_def)
  show ?case
    using facts d b str Suc.prems(3) by auto
qed simp

interpretation skip: anon_handler buf n "flv_metadata_skip_handler n buf" ok for buf n ok
  by unfold_locales (rule skip_total; assumption)+

section \<open>Keyframe tables\<close>

lemma keyframe_prepare_sizes:
  assumes "keyframe_prepare ks sz = (ks', rs)" "length ks < 2 ^ 32"
  shows "length ks' = unat rs \<and> unat rs = (if ks = [] then unat sz else min (length ks) (unat sz))"
proof -
  have L: "unat (word_of_nat (length ks) :: 32 word) = length ks"
    using assms(2) by (simp add: unat_of_nat take_bit_nat_eq_self)
  consider "ks = []" | "ks \<noteq> []" "unat sz < length ks" | "ks \<noteq> []" "length ks < unat sz" | "ks \<noteq> []" "length ks = unat sz"
    by linarith
  then show ?thesis
    using assms(1) L by cases (auto simp: keyframe_prepare_def g_array_set_size_def Let_def split: if_splits)
qed

lemma keyframe_loop_total:
  "sr_end r \<le> length buf \<Longrightarrow> i + unat rs = length ks \<Longrightarrow> k \<le> unat rs + 1 \<Longrightarrow>
    \<exists>res r' ks'. keyframe_loop k i rs w F buf r ks = Some (res, r', ks') \<and> moved r r' \<and> length ks' = length ks"
proof (induction k arbitrary: i rs r ks)
  case (Suc k)
  from read_ui8_total [OF Suc.prems(1)] show ?case
  proof (cases rule: readsE)
    case (2 r1 ty)
    then have r1: "sr_end r1 \<le> length buf" using Suc.prems(1) moved_end by metis
    from read_double_total [OF r1] show ?thesis
    proof (cases rule: readsE)
      case (1 r2)
      then show ?thesis using 2 moved_trans [OF 2(2) 1(2)] by auto
    next
      case d: (2 r2 d)
      have r2: "sr_end r2 \<le> length buf" using d(2) r1 moved_end by metis
      have m: "moved r r2" by (rule moved_trans [OF 2(2) d(2)])
      let ?ks = "ks[i := set_keyframe w F d (ks ! i)]"
      show ?thesis
      proof (cases "rs = 0")
        case True
        with Suc.prems(3) have "k = 0" by simp
        then show ?thesis using 2 d m True by auto
      next
        case False
        then have u: "unat (rs - 1) = unat rs - 1" "unat rs \<noteq> 0" by (simp_all add: unat_minus_one unat_eq_0)
        then have "i + 1 + unat (rs - 1) = length ks" "k \<le> unat (rs - 1) + 1"
          using Suc.prems(2,3) by auto
        then have
          "\<exists>res r' ks'. keyframe_loop k (i + 1) (rs - 1) w F buf r2 ?ks = Some (res, r', ks') \<and> moved r2 r' \<and> length ks' = length ks"
          "\<exists>res r' ks'. keyframe_loop k (i + 1) (rs - 1) w F buf r2 ks = Some (res, r', ks') \<and> moved r2 r' \<and> length ks' = length ks"
          using Suc.IH [OF r2, of "i + 1" "rs - 1" ?ks] Suc.IH [OF r2, of "i + 1" "rs - 1" ks] by simp_all
        moreover have "i < length ks" using u Suc.prems(2) by simp
        ultimately show ?thesis
          using 2 d m moved_trans [OF m] by (auto simp: word_gt_0)
      qed
    qed
  qed (use Suc.prems in auto)
qed auto

lemma keyframe_array_total:
  assumes "sr_end r \<le> length buf" "length ks < 2 ^ 32"
    and fits: "\<And>sz. flv_script_data_read_ui32 buf r = Some (advance 4 r, Some sz) \<Longrightarrow> ks = [] \<or> unat sz \<le> length ks + 1"
  shows "\<exists>res r' ks'. flv_script_read_keyframe_array F buf r (Some name) ks = Some (res, r', ks') \<and> moved r r'"
  using read_ui32_total [OF assms(1)]
proof (cases rule: readsE)
  case (2 r1 sz)
  have r1: "r1 = advance 4 r"
    using 2(1) by (auto simp: flv_script_data_read_ui32_def split: if_splits bind_splits)
  obtain ks' rs where p: "keyframe_prepare ks sz = (ks', rs)" by (cases "keyframe_prepare ks sz")
  have "0 + unat rs = length ks'" "unat sz \<le> unat rs + 1"
    using keyframe_prepare_sizes [OF p assms(2)] fits [OF 2(1) [unfolded r1]] by (auto simp: min_def)
  from keyframe_loop_total [OF _ this, of r1 buf] show ?thesis
    using 2 p assms(1) moved_end [OF 2(2)] moved_trans [OF 2(2)]
    by (fastforce simp: flv_script_read_keyframe_array_def Let_def)
qed (auto simp: flv_script_read_keyframe_array_def)

text \<open>
  The counter that should stop the stores passes zero and wraps: a second column that is longer than
  the first by two or more is stored outside the table.
\<close>

definition doubles_at :: "bytes \<Rightarrow> FlvScriptDataReader \<Rightarrow> nat \<Rightarrow> bool" where
  "doubles_at buf r k \<longleftrightarrow> sr_end r \<le> length buf \<and> sr_position r + 9 * k \<le> sr_end r \<and>
     (\<forall>j<k. buf ! (sr_position r + 9 * j) = FLV_SCRIPT_DATA_TYPE_DOUBLE)"

lemma doubles_at_Suc:
  assumes "doubles_at buf r (Suc k)"
  obtains d where "flv_script_data_read_ui8 buf r = Some (advance 1 r, Some 0)"
    "flv_script_data_read_double buf (advance 1 r) = Some (advance 9 r, Some d)" "doubles_at buf (advance 9 r) k"
proof -
  have e: "sr_end r \<le> length buf" "sr_position r + 9 * Suc k \<le> sr_end r" "buf ! sr_position r = 0"
    using assms by (auto simp: doubles_at_def dest!: spec [of _ 0])
  have u: "flv_script_data_read_ui8 buf r = Some (advance 1 r, Some 0)"
    using e by (simp add: flv_script_data_read_ui8_def)
  have "doubles_at buf (advance 9 r) k"
    unfolding doubles_at_def using assms by (auto simp: doubles_at_def add.assoc dest!: spec [of _ "Suc _"])
  moreover obtain d where "flv_script_data_read_double buf (advance 1 r) = Some (advance 9 r, Some d)"
    using e uint32_total [of "sr_position r + 1" buf] uint32_total [of "sr_position r + 5" buf]
    by (auto simp: flv_script_data_read_double_def FLV_READ_DOUBLE_BE_def add.commute [of _ 5] add.commute [of _ 9])
  ultimately show ?thesis using u that by blast
qed

lemma keyframe_loop_overrun:
  "doubles_at buf r k \<Longrightarrow> 0 < w \<Longrightarrow> i + unat rs = length ks \<Longrightarrow> unat rs + 2 \<le> k \<Longrightarrow>
    keyframe_loop k i rs w F buf r ks = None"
proof (induction k arbitrary: i rs r ks)
  case (Suc k)
  obtain d where d: "flv_script_data_read_ui8 buf r = Some (advance 1 r, Some 0)"
      "flv_script_data_read_double buf (advance 1 r) = Some (advance 9 r, Some d)" "doubles_at buf (advance 9 r) k"
    using doubles_at_Suc [OF Suc.prems(1)] .
  show ?case
  proof (cases "rs = 0")
    case True
    with Suc.prems(4) obtain k' where k: "k = Suc k'" by (cases k) auto
    obtain d' where "flv_script_data_read_ui8 buf (advance 9 r) = Some (advance 1 (advance 9 r), Some 0)"
      "flv_script_data_read_double buf (advance 1 (advance 9 r)) = Some (advance 9 (advance 9 r), Some d')"
      using doubles_at_Suc [OF d(3) [unfolded k]] by metis
    then show ?thesis using True d k Suc.prems(2,3) by (simp add: word_gt_0)
  next
    case False
    then have "unat (rs - 1) = unat rs - 1" "unat rs \<noteq> 0" by (simp_all add: unat_minus_one unat_eq_0)
    then have "i + 1 + unat (rs - 1) = length (ks[i := x])" "unat (rs - 1) + 2 \<le> k" for x
      using Suc.prems(3,4) by auto
    from Suc.IH [OF d(3) Suc.prems(2) this] show ?thesis
      using d False Suc.prems(2) by (simp add: word_gt_0)
  qed
qed simp

section \<open>The properties of onMetaData\<close>

lemma set_double_keyframes [simp]: "md_keyframes (set_double F name d m) = md_keyframes m"
  by (simp add: set_double_def tag_add_def)

lemma set_boolean_keyframes [simp]: "md_keyframes (set_boolean name b m) = md_keyframes m"
  by (simp add: set_boolean_def)

lemma tag_add_keyframes [simp]: "md_keyframes (tag_add name v m) = md_keyframes m"
  by (simp add: tag_add_def)

definition returns :: "FlvScriptDataReader \<Rightarrow> ('p \<Rightarrow> bool) \<Rightarrow> (bool \<times> FlvScriptDataReader \<times> 'p) option \<Rightarrow> bool" where
  "returns r ok x \<longleftrightarrow> (\<exists>res r' p'. x = Some (res, r', p') \<and> moved r r' \<and> ok p')"

lemma returns_Some [simp]: "returns r ok (Some (res, r', p)) \<longleftrightarrow> moved r r' \<and> ok p"
  by (simp add: returns_def)

lemma returns_if: "(c \<Longrightarrow> returns r ok x) \<Longrightarrow> (\<not> c \<Longrightarrow> returns r ok y) \<Longrightarrow> returns r ok (if c then x else y)"
  by simp

lemma value_total:
  assumes "sr_end r \<le> length buf" "remaining r < n" "md_keyframes m \<noteq> None"
    and named: "name \<noteq> None \<or> ty = FLV_SCRIPT_DATA_TYPE_TERMINATOR"
  shows "\<exists>res r' m'. flv_metadata_value_handler n F buf r name ty m = Some (res, r', m') \<and> moved r r' \<and> md_keyframes m' \<noteq> None"
proof (cases "ty = FLV_SCRIPT_DATA_TYPE_TERMINATOR")
  case True
  then show ?thesis using assms(3) by (auto simp: flv_metadata_value_handler_def)
next
  case False
  with named obtain nm where nm: "name = Some nm" by blast
  have rn: "remaining r \<le> n" using assms(2) by simp
  note facts [folded returns_def, simp] = skip.object_total [of r buf n n "\<lambda>m. md_keyframes m \<noteq> None", OF assms(1) rn assms(2,3)]
    skip.ecma_total [of r buf n n "\<lambda>m. md_keyframes m \<noteq> None", OF assms(1) rn assms(2,3)]
    skip.strict_array_total [of r buf n "\<lambda>m. md_keyframes m \<noteq> None", OF assms(1) rn assms(3)]
  obtain r2 s where s: "flv_script_data_read_string buf r (ty = FLV_SCRIPT_DATA_TYPE_LONG_STRING) = Some (r2, s)" "moved r r2"
    using read_string_total [OF assms(1)] by blast
  obtain r3 d where d: "flv_script_data_read_double buf r = Some (r3, d)" "moved r r3"
    using read_double_total [OF assms(1)] by (auto simp: reads_def)
  obtain r4 b where b: "flv_script_data_read_ui8 buf r = Some (r4, b)" "moved r r4"
    using read_ui8_total [OF assms(1)] by (auto simp: reads_def)
  have "returns r (\<lambda>m. md_keyframes m \<noteq> None) (flv_metadata_value_handler n F buf r (Some nm) ty m)"
    unfolding flv_metadata_value_handler_def
    by (intro returns_if) (use s d b assms(3) in \<open>simp_all split: option.split del: not_None_eq\<close>)
  then show ?thesis by (simp add: nm returns_def)
qed

interpretation val: value_handler buf n "flv_metadata_value_handler n F buf" "\<lambda>m. md_keyframes m \<noteq> None" for buf n F
  by unfold_locales (rule value_total)

lemma script_data_read_total:
  assumes "sr_end r \<le> length buf" "remaining r < n" "md_keyframes m \<noteq> None"
  shows "\<exists>res r' m'. flv_script_data_read n F buf r m = Some (res, r', m') \<and> moved r r' \<and> md_keyframes m' \<noteq> None"
  using read_ui8_total [OF assms(1)]
proof (cases rule: readsE)
  case (2 r1 ty)
  have r1: "sr_end r1 \<le> length buf" "remaining r1 < n"
    using assms moved_end [OF 2(2)] moved_remaining [OF 2(2)] by auto
  obtain r2 s where s: "flv_script_data_read_string buf r1 False = Some (r2, s)" "moved r1 r2"
    using read_string_total [OF r1(1)] by blast
  have r2: "sr_end r2 \<le> length buf" "remaining r2 < n" "moved r r2"
    using r1 moved_end [OF s(2)] moved_remaining [OF s(2)] moved_trans [OF 2(2) s(2)] by auto
  obtain r3 t where t: "flv_script_data_read_ui8 buf r2 = Some (r3, t)" "moved r2 r3"
    using read_ui8_total [OF r2(1)] by (auto simp: reads_def)
  have r3: "sr_end r3 \<le> length buf" "remaining r3 \<le> n" "remaining r3 < n" "moved r r3"
    using r2 moved_end [OF t(2)] moved_remaining [OF t(2)] moved_trans [OF r2(3) t(2)] by auto
  let ?m = "if md_tag_list m = None then m\<lparr>md_tag_list := Some []\<rparr> else m"
  have "md_keyframes ?m \<noteq> None" using assms(3) by simp
  then obtain res r4 m' where e: "flv_script_data_read_ecma n buf r3 (flv_metadata_value_handler n F buf) ?m = Some (res, r4, m')" "moved r3 r4" "md_keyframes m' \<noteq> None"
    using val.ecma_total [OF r3(1,2,3)] by blast
  have r4: "moved r r4" by (rule moved_trans [OF r3(4) e(2)])
  show ?thesis
    unfolding flv_script_data_read_def
    using 2 s t e(1,3) r2(3) r3(4) r4 assms(3) by (cases s) (auto simp: Let_def)
qed (use assms(3) in \<open>auto simp: flv_script_data_read_def\<close>)

section \<open>Encoded properties are read back\<close>

datatype amf = AmfNumber "64 word" | AmfBoolean "8 word" | AmfString bytes

fun amf_type :: "amf \<Rightarrow> 8 word" where
  "amf_type (AmfNumber d) = FLV_SCRIPT_DATA_TYPE_DOUBLE"
| "amf_type (AmfBoolean b) = FLV_SCRIPT_DATA_TYPE_BOOL"
| "amf_type (AmfString s) = FLV_SCRIPT_DATA_TYPE_STRING"

definition be16 :: "nat \<Rightarrow> bytes" where
  "be16 n = [word_of_nat (n div 256), word_of_nat n]"

definition encode_string :: "bytes \<Rightarrow> bytes" where
  "encode_string s = be16 (length s) @ s"

fun amf_bytes :: "amf \<Rightarrow> bytes" where
  "amf_bytes (AmfNumber d) = be32 (ucast (drop_bit 32 d)) @ be32 (ucast d)"
| "amf_bytes (AmfBoolean b) = [b]"
| "amf_bytes (AmfString s) = encode_string s"

definition encode_prop :: "bytes \<times> amf \<Rightarrow> bytes" where
  "encode_prop p = encode_string (fst p) @ amf_type (snd p) # amf_bytes (snd p)"

definition encode_props :: "(bytes \<times> amf) list \<Rightarrow> bytes" where
  "encode_props ps = concat (map encode_prop ps) @ [0, 0, 9]"

definition encode_metadata :: "32 word \<Rightarrow> (bytes \<times> amf) list \<Rightarrow> bytes" where
  "encode_metadata count ps =
     2 # encode_string (map of_char ''onMetaData'') @ [FLV_SCRIPT_DATA_TYPE_ECMA] @ be32 count @ encode_props ps"

text \<open>What one property does to the metadata.\<close>

fun set_prop :: "flt \<Rightarrow> bytes \<times> amf \<Rightarrow> FlvMetadata \<Rightarrow> FlvMetadata" where
  "set_prop F (name, AmfNumber d) m = set_double F name d m"
| "set_prop F (name, AmfBoolean b) m = set_boolean name b m"
| "set_prop F (name, AmfString s) m =
     tag_add (takeWhile (\<lambda>b. b \<noteq> 0) name) (TagString (takeWhile (\<lambda>b. b \<noteq> 0) s)) m"

fun prop_ok :: "bytes \<times> amf \<Rightarrow> bool" where
  "prop_ok (name, v) \<longleftrightarrow> length name < 65536 \<and> (case v of AmfString s \<Rightarrow> length s < 65536 | _ \<Rightarrow> True)"

text \<open>The reader stands at an encoded item inside the block.\<close>

definition at_item :: "bytes \<Rightarrow> FlvScriptDataReader \<Rightarrow> bytes \<Rightarrow> bool" where
  "at_item buf r e \<longleftrightarrow> sr_end r \<le> length buf \<and> sr_position r + length e \<le> sr_end r \<and>
     take (length e) (drop (sr_position r) buf) = e"

lemma at_itemE:
  assumes "at_item buf r e"
  obtains xs zs where "buf = xs @ e @ zs" "sr_position r = length xs" "length xs + length e \<le> sr_end r"
proof -
  let ?xs = "take (sr_position r) buf" and ?zs = "drop (sr_position r + length e) buf"
  have "buf = ?xs @ take (length e) (drop (sr_position r) buf) @ ?zs"
    by (metis append_take_drop_id drop_drop add.commute)
  then have "buf = ?xs @ e @ ?zs" using assms by (simp add: at_item_def)
  moreover have "length ?xs = sr_position r" using assms by (simp add: at_item_def)
  ultimately show ?thesis using that [of ?xs ?zs] assms by (simp add: at_item_def)
qed

lemma at_item_append:
  "at_item buf r (e @ f) \<longleftrightarrow> at_item buf r e \<and> at_item buf (advance (length e) r) f"
  (is "?l \<longleftrightarrow> ?r")
proof (cases "sr_position r + length e + length f \<le> sr_end r \<and> sr_end r \<le> length buf")
  case True
  let ?t = "drop (sr_position r) buf"
  have "take (length e + length f) ?t = e @ f \<longleftrightarrow> take (length e) ?t = e \<and> take (length f) (drop (length e) ?t) = f"
  proof -
    have "length (take (length e) ?t) = length e" using True by auto
    then show ?thesis unfolding take_add by (subst append_eq_append_conv) auto
  qed
  then show ?thesis using True by (auto simp: at_item_def add.commute)
qed (auto simp: at_item_def)

lemma at_item_Cons: "at_item buf r (b # f) \<longleftrightarrow> at_item buf r [b] \<and> at_item buf (advance 1 r) f"
  using at_item_append [of buf r "[b]" f] by simp

lemma at_read_ui8: "at_item buf r [b] \<Longrightarrow> flv_script_data_read_ui8 buf r = Some (advance 1 r, Some b)"
  by (erule at_itemE) (simp add: flv_script_data_read_ui8_def)

lemma at_read_ui32: "at_item buf r (be32 w) \<Longrightarrow> flv_script_data_read_ui32 buf r = Some (advance 4 r, Some w)"
  by (erule at_itemE) (simp add: flv_script_data_read_ui32_def read_be32, simp add: be32_def)

lemma ucast_halves: "push_bit 32 (ucast (ucast (drop_bit 32 d) :: 32 word)) OR ucast (ucast d :: 32 word) = (d :: 64 word)"
  (is "?l = _")
proof (rule bit_word_eqI)
  fix n show "bit ?l n = bit d n" if "n < LENGTH(64)"
    using that by (cases "n < 32") (auto simp: bit_simps)
qed

lemma at_read_double:
  assumes "at_item buf r (be32 (ucast (drop_bit 32 d)) @ be32 (ucast d))"
  shows "flv_script_data_read_double buf r = Some (advance 8 r, Some d)"
  using assms
proof (rule at_itemE)
  fix xs zs
  let ?h = "ucast (drop_bit 32 d) :: 32 word" and ?l = "ucast d :: 32 word"
  assume buf: "buf = xs @ (be32 ?h @ be32 ?l) @ zs" and p: "sr_position r = length xs"
    and e: "length xs + length (be32 ?h @ be32 ?l) \<le> sr_end r"
  have len: "length (be32 w) = 4" for w by (simp add: be32_def)
  have "GST_READ_UINT32_BE buf (length xs) = Some ?h" "GST_READ_UINT32_BE buf (length xs + 4) = Some ?l"
    using read_be32 [of xs ?h "be32 ?l @ zs"] read_be32 [of "xs @ be32 ?h" ?l zs] by (simp_all add: buf len)
  then show ?thesis using p e by (simp add: flv_script_data_read_double_def FLV_READ_DOUBLE_BE_def ucast_halves len)
qed

lemma read_be16:
  assumes "n < 65536"
  shows "GST_READ_UINT16_BE (xs @ be16 n @ zs) (length xs) = Some (word_of_nat n)"
proof -
  have "push_bit 8 (ucast (word_of_nat (n div 256) :: 8 word)) OR ucast (word_of_nat n :: 8 word) = (word_of_nat n :: 32 word)"
    (is "?l = _")
  proof (rule bit_word_eqI)
    fix k show "bit ?l k = bit (word_of_nat n :: 32 word) k" if "k < LENGTH(32)"
    proof -
      have hi: "\<not> bit n k" if "16 \<le> k" for k
      proof -
        have "(2 :: nat) ^ 16 \<le> 2 ^ k" using that by (intro power_increasing) simp_all
        with assms show ?thesis by (simp add: bit_iff_odd)
      qed
      have "bit (n div 256) j = bit n (8 + j)" for j
        by (simp add: bit_iff_odd div_mult2_eq power_add)
      then show ?thesis
        using that hi [of k] by (cases "k < 8"; cases "k < 16") (auto simp: bit_simps)
    qed
  qed
  then show ?thesis
    using nth_block [of 0 "be16 n" xs zs] nth_block [of 1 "be16 n" xs zs]
    by (simp add: GST_READ_UINT16_BE_def be16_def)
qed

lemma at_read_string:
  assumes "at_item buf r (encode_string s)" "length s < 65536"
  shows "flv_script_data_read_string buf r False = Some (advance (2 + length s) r, Some s)"
  using assms(1)
proof (rule at_itemE)
  fix xs zs
  assume buf: "buf = xs @ encode_string s @ zs" and p: "sr_position r = length xs"
    and e: "length xs + length (encode_string s) \<le> sr_end r"
  have len: "length (be16 k) = 2" for k by (simp add: be16_def)
  have w: "GST_READ_UINT16_BE buf (length xs) = Some (word_of_nat (length s))"
    using read_be16 [OF assms(2), of xs "s @ zs"] by (simp add: buf encode_string_def)
  have u: "unat (ucast (word_of_nat (length s) :: 32 word) :: gsize) = length s"
    using assms(2) by (simp add: ucast_below unat_of_nat take_bit_nat_eq_self)
  have "\<not> (ucast (word_of_nat (length s) :: 32 word) :: gsize) \<ge> G_MAXSIZE - 1"
    using assms(2) by (simp add: word_le_nat_alt u)
  moreover have "copy_bytes buf (length xs + 2) (length s) = Some s"
    by (simp add: copy_bytes_def buf encode_string_def len)
  ultimately show ?thesis
    using p e w by (simp add: flv_script_data_read_string_def Let_def u encode_string_def len add.assoc)
qed

lemma at_item_nth:
  assumes "at_item buf r e" "i < length e"
  shows "byte_at buf (sr_position r + i) = Some (e ! i)"
  using assms(1) by (rule at_itemE) (use assms(2) nth_block in simp)

lemma be16_zero:
  assumes "be16 n = [0, 0]" "n < 65536"
  shows "n = 0"
proof -
  have "be16 n = be16 0" using assms(1) by (simp add: be16_def)
  then have "(word_of_nat n :: 32 word) = 0"
    using read_be16 [OF assms(2), of "[]" "[]"] read_be16 [of 0 "[]" "[]"] by simp
  then have "unat (word_of_nat n :: 32 word) = 0" by simp
  then show ?thesis using assms(2) by (simp add: unat_of_nat take_bit_nat_eq_self)
qed

lemma at_read_property:
  assumes "at_item buf r (encode_string s @ [ty])" "length s < 65536" "ty \<noteq> FLV_SCRIPT_DATA_TYPE_TERMINATOR"
  shows "read_property buf r = Some (advance (3 + length s) r, Some (Some s, ty))"
proof -
  let ?e = "encode_string s @ [ty]"
  have "0 < length ?e" "1 < length ?e" "2 < length ?e" by (simp_all add: encode_string_def be16_def)
  note b = this [THEN at_item_nth [OF assms(1)]]
  have "\<not> (?e ! 0 = 0 \<and> ?e ! 1 = 0 \<and> ?e ! 2 = 9)"
  proof (cases s)
    case Nil
    then show ?thesis using assms(3) by (simp add: encode_string_def be16_def)
  next
    case (Cons a t)
    with be16_zero [of "length s"] assms(2) have "be16 (length s) \<noteq> [0, 0]" by auto
    then show ?thesis by (auto simp: encode_string_def be16_def)
  qed
  moreover have "flv_script_data_read_string buf r False = Some (advance (2 + length s) r, Some s)"
    "flv_script_data_read_ui8 buf (advance (2 + length s) r) = Some (advance 1 (advance (2 + length s) r), Some ty)"
    using assms(1,2) at_read_string at_read_ui8 unfolding at_item_append
    by (auto simp: encode_string_def be16_def)
  ultimately show ?thesis
    using b by (simp add: read_property_def)
qed

lemma at_value_handler:
  assumes "at_item buf r (amf_bytes v)" "prop_ok (name, v)"
  shows "flv_metadata_value_handler n F buf r (Some name) (amf_type v) m =
    Some (True, advance (length (amf_bytes v)) r, set_prop F (name, v) m)"
  using assms
  by (cases v) (simp_all add: flv_metadata_value_handler_def at_read_double at_read_ui8 at_read_string,
    simp_all add: be32_def encode_string_def be16_def)

lemma at_read_props:
  "at_item buf r (encode_props ps) \<Longrightarrow> \<forall>p\<in>set ps. prop_ok p \<Longrightarrow> length ps < k \<Longrightarrow>
    flv_script_data_read_object k buf r (flv_metadata_value_handler n F buf) m =
      Some (True, advance (length (encode_props ps)) r, fold (set_prop F) ps m)"
proof (induction ps arbitrary: k r m)
  case Nil
  then obtain k' where k: "k = Suc k'" by (cases k) auto
  have b: "byte_at buf (sr_position r) = Some 0" "byte_at buf (sr_position r + 1) = Some 0"
    "byte_at buf (sr_position r + 2) = Some 9"
    using Nil at_item_nth [of buf r "[0, 0, 9]" 0] at_item_nth [of buf r "[0, 0, 9]" 1] at_item_nth [of buf r "[0, 0, 9]" 2]
    by (simp_all add: encode_props_def)
  then have "read_property buf r = Some (advance 3 r, Some (None, 9))" by (simp add: read_property_def)
  moreover have "sr_position r + 3 \<le> sr_end r" using Nil by (simp add: at_item_def encode_props_def)
  ultimately show ?case by (simp add: k flv_metadata_value_handler_def encode_props_def)
next
  case (Cons p ps)
  obtain name v where p: "p = (name, v)" by (cases p)
  from Cons.prems(3) obtain k' where k: "k = Suc k'" "length ps < k'" by (cases k) auto
  have ok: "prop_ok (name, v)" "length name < 65536" using Cons.prems(2) p by auto
  let ?r1 = "advance (3 + length name) r" and ?r2 = "advance (length (amf_bytes v)) (advance (3 + length name) r)"
  have e: "encode_props (p # ps) = (encode_string name @ [amf_type v]) @ amf_bytes v @ encode_props ps"
    by (simp add: encode_props_def encode_prop_def p)
  have l: "length (encode_string name @ [amf_type v]) = 3 + length name" "length (encode_string name) = 2 + length name"
    by (simp_all add: encode_string_def be16_def)
  have at: "at_item buf r (encode_string name @ [amf_type v])" "at_item buf ?r1 (amf_bytes v)" "at_item buf ?r2 (encode_props ps)"
    using Cons.prems(1) unfolding e at_item_append [of _ _ "encode_string name @ [amf_type v]"] l(1) at_item_append [of _ _ "amf_bytes v"]
    by simp_all
  have ty: "amf_type v \<noteq> FLV_SCRIPT_DATA_TYPE_TERMINATOR" by (cases v) simp_all
  have pos: "sr_position r + 3 \<le> sr_end r" using at(1) l by (simp add: at_item_def)
  show ?case
    using at_read_property [OF at(1) ok(2) ty] at_value_handler [OF at(2) ok(1), of n F m]
      Cons.IH [OF at(3) _ k(2), of "set_prop F (name, v) m"] Cons.prems(2) pos ty
    by (simp add: k(1) p e [unfolded p] l add.assoc)
qed

lemma script_data_roundtrip:
  assumes "at_item buf r (encode_metadata count ps)" "\<forall>p\<in>set ps. prop_ok p" "length ps < n"
  shows "flv_script_data_read n F buf r m = Some (True, advance (length (encode_metadata count ps)) r,
    fold (set_prop F) ps (if md_tag_list m = None then m\<lparr>md_tag_list := Some []\<rparr> else m))"
proof -
  define s :: bytes where "s = map of_char ''onMetaData''"
  have l: "length s = 10" "length (encode_string s) = 12" "length (be32 count) = 4"
    by (simp_all add: s_def encode_string_def be16_def be32_def)
  have e: "encode_metadata count ps = [2] @ encode_string s @ [8] @ be32 count @ encode_props ps"
    by (simp add: encode_metadata_def s_def)
  have at: "at_item buf r [2]" "at_item buf (advance 1 r) (encode_string s)" "at_item buf (advance 13 r) [8]"
    "at_item buf (advance 14 r) (be32 count)" "at_item buf (advance 18 r) (encode_props ps)"
    using assms(1) unfolding e at_item_append by (simp_all add: l add.commute)
  have sq: "streq s ''onMetaData''" by (simp add: streq_def s_def)
  show ?thesis
    using at_read_ui8 [OF at(1)] at_read_string [OF at(2)] at_read_ui8 [OF at(3)] at_read_ui32 [OF at(4)]
      at_read_props [OF at(5) assms(2,3)] sq
    by (simp add: flv_script_data_read_def flv_script_data_read_ecma_def e l Let_def add.commute)
qed

end
