(* ===== verification/Gst_Core.thy ===== *)
theory Gst_Core
  imports JFX_Prelude
begin

text \<open>
  The GStreamer types that the media elements share: flow returns, formats and pad modes, with the
  constructors GStreamer's headers give them. Values the elements only pass on have a constructor
  with a number.
\<close>

datatype GstFlowReturn = GST_FLOW_OK | GST_FLOW_NOT_LINKED | GST_FLOW_FLUSHING | GST_FLOW_EOS | GST_FLOW_ERROR
  | GST_FLOW_CUSTOM nat

datatype GstFormat = GST_FORMAT_TIME | GST_FORMAT_BYTES | GST_FORMAT_OTHER nat

datatype GstPadMode = GST_PAD_MODE_NONE | GST_PAD_MODE_PUSH | GST_PAD_MODE_PULL

end
