(* ===== verification/Flv_Demux.thy ===== *)
theory Flv_Demux
  imports Flv_Metadata Gst_Core
begin

text \<open>
  The demuxer element, \<^verbatim>\<open>flvdemux.c\<close>: it takes the bytes of an FLV file, in push mode through
  \<open>flv_demux_chain\<close> and in pull mode through \<open>flv_demux_loop\<close>, and pushes the packets of the audio and the
  video tags downstream with their times. An index of keyframes, filled while it goes, serves
  the seeks.

  The record \<open>FlvDemux\<close> has the fields of the C structure; a source pad is a flag (null or created), the
  adapter is the list of the bytes it holds, and \<open>fd_log\<close> is added: the calls made to GStreamer, in order.
  GStreamer itself is the parameter \<open>G\<close>: what a push, an allocation or a pull answers may depend on the
  calls made before. As in the parser, \<open>None\<close> is an access outside a block; for the loop of \<open>flv_demux_chain\<close>
  and of the indexing, which are partial functions, it is also a loop that does not end.
\<close>

section \<open>GStreamer\<close>

datatype gst_pad = SinkPad | AudioPad | VideoPad

datatype caps_field = CapInt string gint | CapBool string bool | CapFraction string gint gint

type_synonym caps = "string \<times> caps_field list"

record GstSegment =
  sg_flags :: "32 word"
  sg_rate :: "64 word"
  sg_format :: GstFormat
  sg_start :: "64 word"
  sg_stop :: "64 word"
  sg_position :: "64 word"

record GstBuffer =
  gb_data :: bytes
  gb_timestamp :: "64 word"
  gb_duration :: "64 word"
  gb_offset :: "64 word"
  gb_offset_end :: "64 word"
  gb_discont :: bool
  gb_delta_unit :: bool

record seek_event =
  se_rate :: "64 word"
  se_format :: GstFormat
  se_flags :: "32 word"
  se_start_type :: nat
  se_start :: "64 word"
  se_stop_type :: nat
  se_stop :: "64 word"

datatype gst_event = EvFlushStart | EvFlushStop | EvEos | EvRangeReady | EvSegment GstSegment
  | EvCaps caps | EvTags tag_list | EvSeek seek_event | EvSeekBytes "64 word" guint64 | EvOther nat

datatype gst_call = PushEvent gst_pad gst_event | PushBuffer gst_pad GstBuffer | SendEvent gst_event
  | EventDefault gst_event | NoMorePads | AddPad gst_pad | StartTask | PauseTask | StopTask
  | MsgWarning | MsgError | MsgSegmentStart GstFormat "64 word"

record gst =
  g_push_event :: "gst_call list \<Rightarrow> gst_pad \<Rightarrow> gst_event \<Rightarrow> bool"
  g_push :: "gst_call list \<Rightarrow> gst_pad \<Rightarrow> GstBuffer \<Rightarrow> GstFlowReturn"
  g_set_active :: "gst_call list \<Rightarrow> gst_pad \<Rightarrow> bool"
  g_add_pad :: "gst_call list \<Rightarrow> gst_pad \<Rightarrow> bool"
  g_alloc :: "gst_call list \<Rightarrow> gsize \<Rightarrow> bool"
  g_map :: "gst_call list \<Rightarrow> bool"
  g_task :: "gst_call list \<Rightarrow> bool"
  g_pull_range :: "gst_call list \<Rightarrow> guint64 \<Rightarrow> 32 word \<Rightarrow> GstFlowReturn \<times> bytes"
  g_do_seek :: "GstSegment \<Rightarrow> seek_event \<Rightarrow> GstSegment"
  g_positive :: "64 word \<Rightarrow> bool"   \<comment> \<open>\<open>!(rate <= 0)\<close>\<close>
  g_nonzero :: "64 word \<Rightarrow> bool"    \<comment> \<open>\<open>framerate != 0\<close>\<close>
  g_percent :: "64 word \<Rightarrow> gint"    \<comment> \<open>\<open>(gint)(framerate*100)\<close>\<close>
  g_flt :: flt

abbreviation (input) GST_MSECOND :: "64 word" where "GST_MSECOND \<equiv> 1000000"
abbreviation (input) GST_SECOND :: "64 word" where "GST_SECOND \<equiv> 1000000000"
abbreviation (input) GST_SEEK_FLAG_FLUSH :: "32 word" where "GST_SEEK_FLAG_FLUSH \<equiv> 1"
abbreviation (input) GST_SEEK_FLAG_KEY_UNIT :: "32 word" where "GST_SEEK_FLAG_KEY_UNIT \<equiv> 4"
abbreviation (input) GST_SEEK_FLAG_SEGMENT :: "32 word" where "GST_SEEK_FLAG_SEGMENT \<equiv> 8"
abbreviation (input) GST_TAG_AUDIO_CODEC :: bytes where "GST_TAG_AUDIO_CODEC \<equiv> map of_char ''audio-codec''"
abbreviation (input) GST_TAG_VIDEO_CODEC :: bytes where "GST_TAG_VIDEO_CODEC \<equiv> map of_char ''video-codec''"

section \<open>The element\<close>

record FlvDemux =
  fd_adapter :: bytes
  fd_parser :: FlvParser
  fd_is_pulling :: bool
  fd_need_parser_flush :: bool
  fd_has_video :: bool
  fd_has_audio :: bool
  fd_metadata :: "FlvMetadata option"
  fd_queued_tags :: "tag_list option"
  fd_last_file_position :: guint64
  fd_current_timestamp :: "64 word"
  fd_keyframes :: "FlvKeyframe list"
  fd_copied_metadata_keyframes :: bool
  fd_segment :: GstSegment
  fd_is_flushing :: bool
  fd_is_eos_received :: bool
  fd_audio_src_pad :: bool
  fd_video_src_pad :: bool
  fd_sound_format :: "32 word"
  fd_audio_linked :: bool
  fd_audio_offset :: "32 word"
  fd_audio_discont :: bool
  fd_audio_prev_timestamp :: "64 word"
  fd_audio_frame_duration :: "64 word"
  fd_video_codec_id :: "32 word"
  fd_video_linked :: bool
  fd_video_offset :: "32 word"
  fd_video_discont :: bool
  fd_video_prev_timestamp :: "64 word"
  fd_video_frame_duration :: "64 word"
  fd_log :: "gst_call list"

abbreviation log_call :: "gst_call \<Rightarrow> FlvDemux \<Rightarrow> FlvDemux" where
  "log_call c f \<equiv> f\<lparr>fd_log := fd_log f @ [c]\<rparr>"

definition flv_demux_init :: "GstSegment \<Rightarrow> FlvDemux" where
  "flv_demux_init time_segment = \<lparr>fd_adapter = [], fd_parser = flv_parser_init, fd_is_pulling = False,
     fd_need_parser_flush = False, fd_has_video = False, fd_has_audio = False, fd_metadata = Some flv_metadata_new,
     fd_queued_tags = None, fd_last_file_position = 0, fd_current_timestamp = GST_CLOCK_TIME_NONE,
     fd_keyframes = [], fd_copied_metadata_keyframes = False, fd_segment = time_segment,
     fd_is_flushing = False, fd_is_eos_received = False, fd_audio_src_pad = False, fd_video_src_pad = False,
     fd_sound_format = 0, fd_audio_linked = False, fd_audio_offset = 0, fd_audio_discont = True,
     fd_audio_prev_timestamp = GST_CLOCK_TIME_NONE, fd_audio_frame_duration = GST_CLOCK_TIME_NONE,
     fd_video_codec_id = 0, fd_video_linked = False, fd_video_offset = 0, fd_video_discont = True,
     fd_video_prev_timestamp = GST_CLOCK_TIME_NONE, fd_video_frame_duration = GST_CLOCK_TIME_NONE, fd_log = []\<rparr>"

text \<open>\<open>flv_demux_change_state\<close>, up to the call of the parent class.\<close>

definition flv_demux_change_state :: "bool \<Rightarrow> FlvDemux \<Rightarrow> FlvDemux" where
  "flv_demux_change_state ready_to_paused f =
    (if ready_to_paused then f\<lparr>fd_last_file_position := 0, fd_current_timestamp := 0, fd_need_parser_flush := True\<rparr> else f)"

section \<open>The index of keyframes\<close>

definition compare_keyframes :: "FlvKeyframe \<Rightarrow> FlvKeyframe \<Rightarrow> int" where
  "compare_keyframes first second =
    (if kf_time first < kf_time second then -1 else if kf_time first = kf_time second then 0 else 1)"

fun g_list_find_custom :: "FlvKeyframe list \<Rightarrow> FlvKeyframe \<Rightarrow> FlvKeyframe option" where
  "g_list_find_custom [] k = None"
| "g_list_find_custom (e # es) k = (if compare_keyframes e k = 0 then Some e else g_list_find_custom es k)"

fun g_list_insert_sorted :: "FlvKeyframe list \<Rightarrow> FlvKeyframe \<Rightarrow> FlvKeyframe list" where
  "g_list_insert_sorted [] k = [k]"
| "g_list_insert_sorted (e # es) k =
    (if compare_keyframes k e > 0 then e # g_list_insert_sorted es k else k # e # es)"

definition flv_demux_index_add_entry :: "FlvDemux \<Rightarrow> 64 word \<Rightarrow> guint64 \<Rightarrow> FlvDemux" where
  "flv_demux_index_add_entry f index_time index_pos =
    (let frame = \<lparr>kf_time = index_time, kf_fileposition = index_pos\<rparr> in
     if g_list_find_custom (fd_keyframes f) frame = None
     then f\<lparr>fd_keyframes := g_list_insert_sorted (fd_keyframes f) frame\<rparr> else f)"

text \<open>The walk of the lookup; \<open>prev\<close> is the entry before, whose null pointer must not be followed.\<close>

fun lookup_walk :: "FlvKeyframe option \<Rightarrow> FlvKeyframe list \<Rightarrow> 64 word \<Rightarrow> FlvKeyframe option option" where
  "lookup_walk prev [] t = Some None"
| "lookup_walk prev (e # es) t =
    (if kf_time e = t then Some (Some e)
     else if kf_time e > t then (case prev of None \<Rightarrow> None | Some p \<Rightarrow> Some (Some p))
     else lookup_walk (Some e) es t)"

definition flv_demux_index_lookup :: "FlvDemux \<Rightarrow> 64 word \<Rightarrow> FlvKeyframe option option" where
  "flv_demux_index_lookup f t =
    (let ks = fd_keyframes f in
     if ks = [] then Some None
     else if kf_time (hd ks) > t then Some None
     else if kf_time (last ks) < t then Some None
     else lookup_walk None ks t)"

section \<open>Events towards the source pads\<close>

definition push_event :: "gst \<Rightarrow> gst_pad \<Rightarrow> gst_event \<Rightarrow> FlvDemux \<Rightarrow> bool \<times> FlvDemux" where
  "push_event G pad ev f = (g_push_event G (fd_log f) pad ev, log_call (PushEvent pad ev) f)"

definition flv_demux_push_src_event :: "gst \<Rightarrow> FlvDemux \<Rightarrow> gst_event \<Rightarrow> bool \<times> FlvDemux" where
  "flv_demux_push_src_event G f event =
    (let (ret, f) = (if fd_audio_src_pad f
                     then (let (r, f) = push_event G AudioPad event f in (True \<or> r, f)) else (True, f));
         (ret, f) = (if fd_video_src_pad f
                     then (let (r, f) = push_event G VideoPad event f in (ret \<or> r, f)) else (ret, f))
     in (ret, f))"

definition push_tags :: "FlvDemux \<Rightarrow> FlvDemux" where
  "push_tags f = (log_call (SendEvent (EvTags (case fd_queued_tags f of None \<Rightarrow> [] | Some t \<Rightarrow> t))) f)\<lparr>fd_queued_tags := None\<rparr>"

definition queue_tag :: "bytes \<Rightarrow> string \<Rightarrow> FlvDemux \<Rightarrow> FlvDemux" where
  "queue_tag name codec_name f = f\<lparr>fd_queued_tags :=
     Some ((case fd_queued_tags f of None \<Rightarrow> [] | Some t \<Rightarrow> t) @ [(name, TagString (map of_char codec_name))])\<rparr>"

section \<open>Audio tags\<close>

definition audio_caps :: "8 word \<Rightarrow> 8 word \<Rightarrow> bool \<Rightarrow> caps \<times> string" where
  "audio_caps sound_format sampling_rate is_stereo =
    (if sound_format \<noteq> 2 then ((''audio/unsupported'', []), ''Unsupported'')
     else let rate = (if sampling_rate = 0 then 5500 else if sampling_rate = 1 then 11025
                      else if sampling_rate = 2 then 22050 else if sampling_rate = 3 then 44100 else 0);
              channels = (if is_stereo then 2 else 1)
          in ((''audio/mpeg'', [CapInt ''mpegversion'' 1, CapInt ''layer'' 3, CapBool ''framed'' False,
               CapInt ''rate'' rate, CapInt ''channels'' channels]), ''MPEG 1 Audio''))"

definition flv_demux_negotiate_audio_caps :: "gst \<Rightarrow> FlvDemux \<Rightarrow> FlvAudioTag \<Rightarrow> bool \<times> FlvDemux" where
  "flv_demux_negotiate_audio_caps G f tag =
    (let (caps, codec_name) = audio_caps (at_sound_format tag) (at_sampling_rate tag) (at_is_stereo tag);
         (result, f) = push_event G AudioPad (EvCaps caps) f
     in if result then
          let f = queue_tag GST_TAG_AUDIO_CODEC codec_name (f\<lparr>fd_sound_format := ucast (at_sound_format tag)\<rparr>)
          in (True, if \<not> fd_has_video f \<or> fd_video_linked f then push_tags f else f)
        else (False, f))"

text \<open>
  Creating the pad, with the early returns: \<open>Inl\<close> is a flow value to return, \<open>Inr\<close> goes on.
\<close>

definition create_audio_pad :: "gst \<Rightarrow> FlvAudioTag \<Rightarrow> FlvDemux \<Rightarrow> (GstFlowReturn \<times> FlvDemux) + FlvDemux" where
  "create_audio_pad G tag f =
    (if fd_audio_src_pad f then Inr f
     else let f = f\<lparr>fd_audio_src_pad := True\<rparr> in
       if \<not> g_set_active G (fd_log f) AudioPad then Inl (GST_FLOW_ERROR, f)
       else let (ok, f) = flv_demux_negotiate_audio_caps G f tag in
         if \<not> ok then Inl (GST_FLOW_ERROR, f\<lparr>fd_audio_src_pad := False\<rparr>)
         else let ok = g_add_pad G (fd_log f) AudioPad; f = log_call (AddPad AudioPad) f in
           if \<not> ok then Inl (GST_FLOW_ERROR, f)
           else Inr (if fd_video_src_pad f \<or> \<not> fd_has_video f then log_call NoMorePads f else f))"

definition audio_duration :: "FlvDemux \<Rightarrow> FlvDemux" where
  "audio_duration f =
    (let f = (if fd_audio_prev_timestamp f \<noteq> GST_CLOCK_TIME_NONE \<and> \<not> fd_audio_discont f
       then let prev_frame_duration = fd_current_timestamp f - fd_audio_prev_timestamp f in
         if fd_audio_frame_duration f = GST_CLOCK_TIME_NONE \<or> fd_audio_frame_duration f < prev_frame_duration
         then f\<lparr>fd_audio_frame_duration := prev_frame_duration\<rparr> else f
       else f)
     in f\<lparr>fd_audio_prev_timestamp := fd_current_timestamp f\<rparr>)"

definition blank_audio_tag :: FlvAudioTag where
  "blank_audio_tag = \<lparr>at_sound_format = 0, at_sampling_rate = 0, at_is_16bit = False, at_is_stereo = False,
     at_audio_packet_offset = 0, at_audio_packet_size = 0\<rparr>"

definition audio_buffer :: "bytes \<Rightarrow> FlvDemux \<Rightarrow> GstBuffer" where
  "audio_buffer data f = \<lparr>gb_data = data, gb_timestamp = fd_current_timestamp f,
     gb_duration = fd_audio_frame_duration f, gb_offset = ucast (fd_audio_offset f),
     gb_offset_end = ucast (fd_audio_offset f + 1), gb_discont = fd_audio_discont f, gb_delta_unit = False\<rparr>"

definition audio_position :: "FlvDemux \<Rightarrow> FlvDemux" where
  "audio_position f = f\<lparr>fd_audio_offset := fd_audio_offset f + 1,
     fd_segment := (fd_segment f)\<lparr>sg_position := fd_current_timestamp f\<rparr>\<rparr>"

definition audio_discontinuity :: "gst \<Rightarrow> FlvDemux \<Rightarrow> FlvDemux" where
  "audio_discontinuity G f =
    (if fd_audio_discont f
     then (snd (push_event G AudioPad (EvSegment (fd_segment f)) f))\<lparr>fd_audio_discont := False\<rparr> else f)"

definition audio_index :: "FlvDemux \<Rightarrow> FlvDemux" where
  "audio_index f =
    (if \<not> fd_has_video f then flv_demux_index_add_entry f (fd_current_timestamp f) (fd_last_file_position f) else f)"

definition audio_link :: "GstFlowReturn \<Rightarrow> FlvDemux \<Rightarrow> FlvDemux" where
  "audio_link result f = (if result = GST_FLOW_OK then f\<lparr>fd_audio_linked := True\<rparr>
     else if result = GST_FLOW_NOT_LINKED then f\<lparr>fd_audio_linked := False\<rparr> else f)"

text \<open>The end of \<open>flv_demux_parse_audio_tag\<close>: the buffer is filled in and pushed.\<close>

definition push_audio :: "gst \<Rightarrow> bytes \<Rightarrow> FlvDemux \<Rightarrow> GstFlowReturn \<times> FlvDemux" where
  "push_audio G data f =
    (let out = audio_buffer data f;
         f = audio_index (audio_discontinuity G (audio_position f));
         result = g_push G (fd_log f) AudioPad out
     in (result, audio_link result (log_call (PushBuffer AudioPad out) f)))"

text \<open>An encoding that cannot be played is reported once and its packets are dropped.\<close>

definition drop_audio :: "FlvDemux \<Rightarrow> FlvDemux" where
  "drop_audio f =
    (if fd_audio_prev_timestamp f = GST_CLOCK_TIME_NONE then log_call MsgWarning f else f)
      \<lparr>fd_audio_prev_timestamp := fd_current_timestamp f\<rparr>"

definition renegotiate_audio :: "gst \<Rightarrow> FlvAudioTag \<Rightarrow> FlvDemux \<Rightarrow> FlvDemux" where
  "renegotiate_audio G tag f =
    (if fd_sound_format f \<noteq> ucast (at_sound_format tag) then snd (flv_demux_negotiate_audio_caps G f tag) else f)"

definition emit_audio :: "gst \<Rightarrow> bytes \<Rightarrow> FlvAudioTag \<Rightarrow> FlvDemux \<Rightarrow> (GstFlowReturn \<times> FlvDemux) option" where
  "emit_audio G data tag f =
    (if \<not> g_alloc G (fd_log f) (at_audio_packet_size tag) then Some (GST_FLOW_ERROR, f)
     else if \<not> g_map G (fd_log f) then Some (GST_FLOW_ERROR, audio_duration f)
     else do {
       packet \<leftarrow> copy_bytes data (unat (at_audio_packet_offset tag)) (unat (at_audio_packet_size tag));
       Some (push_audio G packet (audio_duration f)) })"

definition flv_demux_parse_audio_tag :: "gst \<Rightarrow> FlvDemux \<Rightarrow> bytes \<Rightarrow> gsize \<Rightarrow> (GstFlowReturn \<times> FlvDemux) option" where
  "flv_demux_parse_audio_tag G f data data_size = do {
     (parse_result, parser, tag) \<leftarrow> flv_parser_read_audio_tag (fd_parser f) data data_size blank_audio_tag;
     if parse_result \<noteq> FLV_PARSER_OK then Some (GST_FLOW_ERROR, f\<lparr>fd_parser := parser\<rparr>)
     else case create_audio_pad G tag (f\<lparr>fd_parser := parser, fd_has_audio := True\<rparr>) of
       Inl early \<Rightarrow> Some early
     | Inr f \<Rightarrow>
         if at_sound_format tag \<noteq> 2 then Some (GST_FLOW_OK, drop_audio f)
         else emit_audio G data tag (renegotiate_audio G tag f) }"

section \<open>Video tags\<close>

definition flv_video_mime_type :: "string list" where
  "flv_video_mime_type = [
    ''video/unsupported'', ''video/unsupported'', ''video/unsupported'', ''video/unsupported'',
    ''video/x-vp6-flash'', ''video/x-vp6-alpha'', ''video/unsupported'', ''video/unsupported'',
    ''video/unsupported'', ''video/unsupported'', ''video/unsupported'', ''video/unsupported'',
    ''video/unsupported'', ''video/unsupported'', ''video/unsupported'', ''video/unsupported'']"

definition flv_video_codec_name :: "string list" where
  "flv_video_codec_name = [
    ''Unsupported'', ''Unsupported'', ''Unsupported'', ''Unsupported'',
    ''On2 VP6 Video'', ''On2 VP6-Alpha Video'', ''Unsupported'', ''Unsupported'',
    ''Unsupported'', ''Unsupported'', ''Unsupported'', ''Unsupported'',
    ''Unsupported'', ''Unsupported'', ''Unsupported'', ''Unsupported'']"

definition video_caps :: "gst \<Rightarrow> FlvMetadata \<Rightarrow> 8 word \<Rightarrow> caps" where
  "video_caps G m codec_id = (flv_video_mime_type ! unat codec_id,
     (if md_width m \<noteq> 0 then [CapInt ''width'' (md_width m)] else []) @
     (if md_height m \<noteq> 0 then [CapInt ''height'' (md_height m)] else []) @
     (if g_nonzero G (md_framerate m) then [CapFraction ''framerate'' (g_percent G (md_framerate m)) 100] else []) @
     (if md_par_x m \<noteq> 0 \<and> md_par_y m \<noteq> 0
      then [CapFraction ''pixel-aspect-ratio'' (md_par_x m) (md_par_y m)] else []))"

definition flv_demux_negotiate_video_caps :: "gst \<Rightarrow> FlvDemux \<Rightarrow> 8 word \<Rightarrow> bool \<times> FlvDemux" where
  "flv_demux_negotiate_video_caps G f codec_id =
    (case fd_metadata f of None \<Rightarrow> (False, f)
     | Some m \<Rightarrow>
       let (result, f) = push_event G VideoPad (EvCaps (video_caps G m codec_id)) f
       in if result then
            let f = queue_tag GST_TAG_VIDEO_CODEC (flv_video_codec_name ! unat codec_id) (f\<lparr>fd_video_codec_id := ucast codec_id\<rparr>)
            in (True, if \<not> fd_has_audio f \<or> fd_audio_linked f then push_tags f else f)
          else (False, f))"

definition create_video_pad :: "gst \<Rightarrow> FlvVideoTag \<Rightarrow> FlvDemux \<Rightarrow> (GstFlowReturn \<times> FlvDemux) + (bool \<times> FlvDemux)" where
  "create_video_pad G tag f =
    (if fd_video_src_pad f then Inr (False, f)
     else let f = f\<lparr>fd_video_src_pad := True\<rparr> in
       if \<not> g_set_active G (fd_log f) VideoPad then Inl (GST_FLOW_ERROR, f)
       else let (ok, f) = flv_demux_negotiate_video_caps G f (vt_codec_id tag) in
         if \<not> ok then Inl (GST_FLOW_ERROR, f\<lparr>fd_video_src_pad := False\<rparr>)
         else let ok = g_add_pad G (fd_log f) VideoPad; f = log_call (AddPad VideoPad) f in
           if \<not> ok then Inl (GST_FLOW_ERROR, f)
           else Inr (True, if fd_audio_src_pad f \<or> \<not> fd_has_audio f then log_call NoMorePads f else f))"

definition video_duration :: "FlvDemux \<Rightarrow> FlvDemux" where
  "video_duration f =
    (let f = (if fd_video_prev_timestamp f \<noteq> GST_CLOCK_TIME_NONE \<and> \<not> fd_video_discont f
       then let prev_frame_duration = fd_current_timestamp f - fd_video_prev_timestamp f in
         if fd_video_frame_duration f = GST_CLOCK_TIME_NONE \<or> fd_video_frame_duration f < prev_frame_duration
         then f\<lparr>fd_video_frame_duration := prev_frame_duration\<rparr> else f
       else f)
     in f\<lparr>fd_video_prev_timestamp := fd_current_timestamp f\<rparr>)"

definition blank_video_tag :: FlvVideoTag where
  "blank_video_tag = \<lparr>vt_codec_id = 0, vt_frame_type = 0, vt_video_packet_offset = 0, vt_video_packet_size = 0\<rparr>"

definition video_buffer :: "bool \<Rightarrow> bytes \<Rightarrow> FlvDemux \<Rightarrow> GstBuffer" where
  "video_buffer is_keyframe data f = \<lparr>gb_data = data, gb_timestamp = fd_current_timestamp f,
     gb_duration = fd_video_frame_duration f, gb_offset = ucast (fd_video_offset f),
     gb_offset_end = ucast (fd_video_offset f + 1), gb_discont = fd_video_discont f, gb_delta_unit = \<not> is_keyframe\<rparr>"

definition video_position :: "FlvDemux \<Rightarrow> FlvDemux" where
  "video_position f = f\<lparr>fd_video_offset := fd_video_offset f + 1,
     fd_segment := (fd_segment f)\<lparr>sg_position := fd_current_timestamp f\<rparr>\<rparr>"

definition video_discontinuity :: "gst \<Rightarrow> FlvDemux \<Rightarrow> FlvDemux" where
  "video_discontinuity G f =
    (if fd_video_discont f
     then (snd (push_event G VideoPad (EvSegment (fd_segment f)) f))\<lparr>fd_video_discont := False\<rparr> else f)"

definition video_index :: "bool \<Rightarrow> FlvDemux \<Rightarrow> FlvDemux" where
  "video_index is_keyframe f =
    (if is_keyframe then flv_demux_index_add_entry f (fd_current_timestamp f) (fd_last_file_position f) else f)"

definition video_link :: "GstFlowReturn \<Rightarrow> FlvDemux \<Rightarrow> FlvDemux" where
  "video_link result f = (if result = GST_FLOW_OK then f\<lparr>fd_video_linked := True\<rparr>
     else if result = GST_FLOW_NOT_LINKED then f\<lparr>fd_video_linked := False\<rparr> else f)"

text \<open>The end of \<open>flv_demux_parse_video_tag\<close>: the buffer is filled in and pushed.\<close>

definition push_video :: "gst \<Rightarrow> bool \<Rightarrow> bytes \<Rightarrow> FlvDemux \<Rightarrow> GstFlowReturn \<times> FlvDemux" where
  "push_video G is_keyframe data f =
    (let out = video_buffer is_keyframe data f;
         f = video_index is_keyframe (video_discontinuity G (video_position f));
         result = g_push G (fd_log f) VideoPad out
     in (result, video_link result (log_call (PushBuffer VideoPad out) f)))"

definition drop_video :: "FlvDemux \<Rightarrow> FlvDemux" where
  "drop_video f =
    (if fd_video_prev_timestamp f = GST_CLOCK_TIME_NONE then log_call MsgWarning f else f)
      \<lparr>fd_video_prev_timestamp := fd_current_timestamp f\<rparr>"

definition renegotiate_video :: "gst \<Rightarrow> FlvVideoTag \<Rightarrow> FlvDemux \<Rightarrow> FlvDemux" where
  "renegotiate_video G tag f =
    (if fd_video_codec_id f \<noteq> ucast (vt_codec_id tag)
     then snd (flv_demux_negotiate_video_caps G f (vt_codec_id tag)) else f)"

definition push_queued_tags :: "bool \<Rightarrow> FlvDemux \<Rightarrow> FlvDemux" where
  "push_queued_tags need_push_tags f = (if fd_queued_tags f \<noteq> None \<and> need_push_tags then push_tags f else f)"

definition emit_video :: "gst \<Rightarrow> bytes \<Rightarrow> FlvVideoTag \<Rightarrow> FlvDemux \<Rightarrow> (GstFlowReturn \<times> FlvDemux) option" where
  "emit_video G data tag f =
    (if \<not> g_alloc G (fd_log f) (vt_video_packet_size tag) then Some (GST_FLOW_ERROR, f)
     else if \<not> g_map G (fd_log f) then Some (GST_FLOW_ERROR, video_duration f)
     else do {
       packet \<leftarrow> copy_bytes data (unat (vt_video_packet_offset tag)) (unat (vt_video_packet_size tag));
       Some (push_video G (vt_frame_type tag = 1) packet (video_duration f)) })"

definition flv_demux_parse_video_tag :: "gst \<Rightarrow> FlvDemux \<Rightarrow> bytes \<Rightarrow> gsize \<Rightarrow> (GstFlowReturn \<times> FlvDemux) option" where
  "flv_demux_parse_video_tag G f data data_size = do {
     (parse_result, parser, tag) \<leftarrow> flv_parser_read_video_tag (fd_parser f) data data_size blank_video_tag;
     if parse_result \<noteq> FLV_PARSER_OK then Some (GST_FLOW_ERROR, f\<lparr>fd_parser := parser\<rparr>)
     else case create_video_pad G tag (f\<lparr>fd_parser := parser, fd_has_video := True\<rparr>) of
       Inl early \<Rightarrow> Some early
     | Inr (need_push_tags, f) \<Rightarrow>
         if vt_codec_id tag \<noteq> 4 \<and> vt_codec_id tag \<noteq> 5 then Some (GST_FLOW_OK, drop_video f)
         else emit_video G data tag (push_queued_tags need_push_tags (renegotiate_video G tag f)) }"

section \<open>Blocks\<close>

definition blank_header :: FlvHeader where
  "blank_header = \<lparr>fh_file_version = 0, fh_has_audio_tags = False, fh_has_video_tags = False\<rparr>"

definition blank_prefix :: FlvTagPrefix where
  "blank_prefix = \<lparr>tp_tag_type = 0, tp_body_size = 0, tp_timestamp = 0\<rparr>"

text \<open>The tags found in script data join the queue, a table of keyframes goes to the index once.\<close>

definition queue_metadata_tags :: "FlvMetadata \<Rightarrow> FlvDemux \<Rightarrow> FlvDemux" where
  "queue_metadata_tags m f = (case md_tag_list m of None \<Rightarrow> f
     | Some t \<Rightarrow> f\<lparr>fd_queued_tags := Some ((case fd_queued_tags f of None \<Rightarrow> [] | Some q \<Rightarrow> q) @ t)\<rparr>)"

definition copy_metadata_keyframes :: "FlvMetadata \<Rightarrow> FlvDemux \<Rightarrow> FlvDemux" where
  "copy_metadata_keyframes m f = (case md_keyframes m of None \<Rightarrow> f
     | Some ks \<Rightarrow> if fd_copied_metadata_keyframes f then f
         else (fold (\<lambda>k f. flv_demux_index_add_entry f (kf_time k) (kf_fileposition k)) ks f)
                \<lparr>fd_copied_metadata_keyframes := True\<rparr>)"

definition parse_script_block :: "gst \<Rightarrow> FlvDemux \<Rightarrow> bytes \<Rightarrow> gsize \<Rightarrow> (GstFlowReturn \<times> FlvDemux) option" where
  "parse_script_block G f data data_size =
    (let (parse_result, parser, reader) =
           flv_parser_read_script_data_tag (fd_parser f) data_size \<lparr>sr_position = 0, sr_end = 0\<rparr>;
         f = f\<lparr>fd_parser := parser\<rparr>
     in case fd_metadata f of None \<Rightarrow> Some (GST_FLOW_ERROR, f)
        | Some metadata \<Rightarrow>
          if parse_result \<noteq> FLV_PARSER_OK then Some (GST_FLOW_ERROR, f)
          else do {
            (ok, reader, m) \<leftarrow> flv_script_data_read (length data + 1) (g_flt G) data reader metadata;
            let f = f\<lparr>fd_metadata := Some m\<rparr>;
            let f = (if ok then queue_metadata_tags m f else f);
            Some (GST_FLOW_OK, copy_metadata_keyframes m f) })"

definition parse_header_block :: "FlvDemux \<Rightarrow> bytes \<Rightarrow> gsize \<Rightarrow> (GstFlowReturn \<times> FlvDemux) option" where
  "parse_header_block f data data_size = do {
     (parse_result, parser, header) \<leftarrow> flv_parser_read_header (fd_parser f) data data_size blank_header;
     Some (if parse_result = FLV_PARSER_OK
           then (GST_FLOW_OK, f\<lparr>fd_parser := parser, fd_has_audio := fh_has_audio_tags header,
                  fd_has_video := fh_has_video_tags header\<rparr>)
           else (GST_FLOW_ERROR, f\<lparr>fd_parser := parser\<rparr>)) }"

definition parse_skip_block :: "FlvDemux \<Rightarrow> gsize \<Rightarrow> GstFlowReturn \<times> FlvDemux" where
  "parse_skip_block f data_size =
    (let (parse_result, parser) = flv_parser_skip (fd_parser f) data_size
     in (if parse_result = FLV_PARSER_OK then GST_FLOW_OK else GST_FLOW_ERROR, f\<lparr>fd_parser := parser\<rparr>))"

definition parse_prefix_block :: "FlvDemux \<Rightarrow> bytes \<Rightarrow> gsize \<Rightarrow> (GstFlowReturn \<times> FlvDemux) option" where
  "parse_prefix_block f data data_size = do {
     (parse_result, parser, tag) \<leftarrow> flv_parser_read_tag_prefix (fd_parser f) data data_size blank_prefix;
     Some (if parse_result = FLV_PARSER_OK
           then (GST_FLOW_OK, f\<lparr>fd_parser := parser, fd_current_timestamp := scast (tp_timestamp tag) * GST_MSECOND,
                  fd_last_file_position := fp_file_position (fd_parser f)\<rparr>)
           else (GST_FLOW_ERROR, f\<lparr>fd_parser := parser\<rparr>)) }"

text \<open>The \<open>switch\<close> of \<open>flv_demux_parse_next_block\<close>.\<close>

definition parse_by_state :: "gst \<Rightarrow> FlvDemux \<Rightarrow> bytes \<Rightarrow> gsize \<Rightarrow> (GstFlowReturn \<times> FlvDemux) option" where
  "parse_by_state G f data data_size = (case fp_state (fd_parser f) of
       FLV_PARSER_EXPECT_HEADER \<Rightarrow> parse_header_block f data data_size
     | FLV_PARSER_EXPECT_SKIP_BLOCK \<Rightarrow> Some (parse_skip_block f data_size)
     | FLV_PARSER_EXPECT_TAG_PREFIX \<Rightarrow> parse_prefix_block f data data_size
     | FLV_PARSER_EXPECT_VIDEO_TAG_BODY \<Rightarrow> flv_demux_parse_video_tag G f data data_size
     | FLV_PARSER_EXPECT_AUDIO_TAG_BODY \<Rightarrow> flv_demux_parse_audio_tag G f data data_size
     | FLV_PARSER_EXPECT_SCRIPT_DATA_TAG_BODY \<Rightarrow> parse_script_block G f data data_size
     | FLV_PARSER_EOF \<Rightarrow> Some (GST_FLOW_ERROR, f))"

definition flv_demux_parse_next_block :: "gst \<Rightarrow> FlvDemux \<Rightarrow> bytes \<Rightarrow> gsize \<Rightarrow> (GstFlowReturn \<times> FlvDemux) option" where
  "flv_demux_parse_next_block G f data data_size = do {
     (result, f) \<leftarrow> parse_by_state G f data data_size;
     Some (result, if result = GST_FLOW_ERROR then log_call MsgError f else f) }"

section \<open>Push mode\<close>

definition gst_adapter_map :: "bytes \<Rightarrow> nat \<Rightarrow> bytes option" where
  "gst_adapter_map a n = (if 0 < n \<and> n \<le> length a then Some (take n a) else None)"

partial_function (option) chain_loop :: "gst \<Rightarrow> FlvDemux \<Rightarrow> GstFlowReturn \<Rightarrow> (GstFlowReturn \<times> FlvDemux) option" where
  "chain_loop G f result =
    (if length (fd_adapter f) < unat (fp_next_block_size (fd_parser f)) then Some (result, f)
     else let block_size = fp_next_block_size (fd_parser f);
              n = unat (ucast block_size :: 32 word)
          in case gst_adapter_map (fd_adapter f) n of
               None \<Rightarrow> chain_loop G f result
             | Some data \<Rightarrow> Option.bind (flv_demux_parse_next_block G f data block_size)
                 (\<lambda>res. if fst res \<noteq> GST_FLOW_OK
                    then Some (fst res, (snd res)\<lparr>fd_adapter := drop n (fd_adapter (snd res))\<rparr>)
                    else chain_loop G ((snd res)\<lparr>fd_adapter := drop n (fd_adapter (snd res))\<rparr>) (fst res)))"

definition flv_demux_chain :: "gst \<Rightarrow> FlvDemux \<Rightarrow> bytes \<Rightarrow> guint64 \<Rightarrow> (GstFlowReturn \<times> FlvDemux) option" where
  "flv_demux_chain G f buf offset =
    (if fd_is_flushing f \<or> fd_is_eos_received f then Some (GST_FLOW_FLUSHING, f)
     else let f = (if fd_need_parser_flush f
            then f\<lparr>fd_need_parser_flush := False, fd_adapter := [],
                   fd_parser := (if offset \<noteq> 0 then flv_parser_seek (fd_parser f) offset else flv_parser_reset (fd_parser f))\<rparr>
            else f)
          in chain_loop G (f\<lparr>fd_adapter := fd_adapter f @ buf\<rparr>) GST_FLOW_OK)"

definition flv_demux_sink_event :: "gst \<Rightarrow> FlvDemux \<Rightarrow> gst_event \<Rightarrow> bool \<times> FlvDemux" where
  "flv_demux_sink_event G f event = (case event of
      EvFlushStart \<Rightarrow> (True, log_call (EventDefault event) (f\<lparr>fd_is_flushing := True\<rparr>))
    | EvFlushStop \<Rightarrow> (True, log_call (EventDefault event) (f\<lparr>fd_is_flushing := False, fd_need_parser_flush := True\<rparr>))
    | EvEos \<Rightarrow> (True, snd (flv_demux_push_src_event G (log_call NoMorePads (f\<lparr>fd_is_eos_received := True\<rparr>)) event))
    | EvRangeReady \<Rightarrow> (g_task G (fd_log f), log_call StartTask f)
    | EvSegment segment \<Rightarrow>
        (True, (if sg_format segment = GST_FORMAT_TIME then f\<lparr>fd_segment := segment\<rparr> else f)
          \<lparr>fd_audio_discont := True, fd_video_discont := True, fd_is_eos_received := False\<rparr>)
    | _ \<Rightarrow> flv_demux_push_src_event G f event)"

section \<open>Pull mode\<close>

definition flv_demux_loop :: "gst \<Rightarrow> FlvDemux \<Rightarrow> FlvDemux option" where
  "flv_demux_loop G f = do {
     let (result, data) = g_pull_range G (fd_log f) (fp_file_position (fd_parser f)) (ucast (fp_next_block_size (fd_parser f)));
     (result, f) \<leftarrow> (if result = GST_FLOW_OK
       then if \<not> g_map G (fd_log f) then Some (GST_FLOW_EOS, f)
            else flv_demux_parse_next_block G f data (word_of_nat (length data))
       else Some (result, f));
     if result = GST_FLOW_OK then Some f
     else let f = log_call PauseTask f in
       Some (if result = GST_FLOW_EOS then snd (flv_demux_push_src_event G f EvEos)
             else if result = GST_FLOW_ERROR then log_call MsgError f else f) }"

partial_function (option) indexing_loop :: "gst \<Rightarrow> 64 word \<Rightarrow> FlvParser \<Rightarrow> 64 word \<Rightarrow> FlvDemux \<Rightarrow> (bool \<times> FlvDemux) option" where
  "indexing_loop G indexTo parser t f =
    (if \<not> t < indexTo then Some (True, f)
     else let pos = fp_file_position parser;
              pulled = g_pull_range G (fd_log f) pos (ucast (fp_next_block_size parser + 1));
              data = snd pulled
          in if fst pulled \<noteq> GST_FLOW_OK then Some (False, f)
             else if \<not> g_map G (fd_log f) then Some (False, f)
             else Option.bind (flv_parser_read_tag_prefix parser data (word_of_nat (length data)) blank_prefix)
               (\<lambda>res. let parser = fst (snd res); tag = snd (snd res) in
                  if fst res \<noteq> FLV_PARSER_OK then Some (False, f)
                  else let t = scast (tp_timestamp tag) * GST_MSECOND in
                    Option.bind
                      (if tp_tag_type tag = FLV_TAG_TYPE_VIDEO
                       then Option.bind (byte_at data (unat (fp_parsed_block_size parser)))
                              (\<lambda>frame_info. Some (if drop_bit 4 (frame_info AND 0xF0) = 1
                                               then flv_demux_index_add_entry f t pos else f))
                       else Some (if tp_tag_type tag = FLV_TAG_TYPE_AUDIO \<and> \<not> fd_has_video f
                                  then flv_demux_index_add_entry f t pos else f))
                      (\<lambda>f. indexing_loop G indexTo
                         (flv_parser_seek parser (fp_file_position parser + fp_next_block_size parser)) t f)))"

text \<open>\<open>indeterminate\<close> is the value of the local variable \<open>time\<close>, which is not set when the lookup fails.\<close>

definition flv_demux_do_indexing_pull :: "gst \<Rightarrow> 64 word \<Rightarrow> FlvDemux \<Rightarrow> 64 word \<Rightarrow> 64 word \<Rightarrow> (bool \<times> FlvDemux) option" where
  "flv_demux_do_indexing_pull G indeterminate f indexFrom indexTo = do {
     found \<leftarrow> flv_demux_index_lookup f indexFrom;
     case found of
       None \<Rightarrow> indexing_loop G indexTo flv_parser_init indeterminate f
     | Some k \<Rightarrow> indexing_loop G indexTo (flv_parser_seek flv_parser_init (kf_fileposition k)) (kf_time k) f }"

definition flv_demux_activatemode :: "gst \<Rightarrow> FlvDemux \<Rightarrow> GstPadMode \<Rightarrow> bool \<Rightarrow> bool \<times> FlvDemux" where
  "flv_demux_activatemode G f mode active = (case mode of
      GST_PAD_MODE_PUSH \<Rightarrow> (True, f\<lparr>fd_is_pulling := False\<rparr>)
    | GST_PAD_MODE_PULL \<Rightarrow> (g_task G (fd_log f), log_call (if active then StartTask else StopTask) (f\<lparr>fd_is_pulling := True\<rparr>))
    | GST_PAD_MODE_NONE \<Rightarrow> (False, f))"

text \<open>\<open>peer\<close> is the answer of the upstream scheduling query: \<open>None\<close> when it fails.\<close>

definition flv_demux_sink_activate :: "gst \<Rightarrow> bool option \<Rightarrow> FlvDemux \<Rightarrow> bool \<times> FlvDemux" where
  "flv_demux_sink_activate G peer f =
    (let pull_mode = (case peer of None \<Rightarrow> False | Some pull \<Rightarrow> pull)
     in flv_demux_activatemode G f (if pull_mode then GST_PAD_MODE_PULL else GST_PAD_MODE_PUSH) True)"

section \<open>Queries and seeks\<close>

text \<open>The duration query: \<open>None\<close> stands for the default handler.\<close>

definition flv_demux_src_query_duration :: "FlvDemux \<Rightarrow> GstFormat \<Rightarrow> 64 word option" where
  "flv_demux_src_query_duration f format =
    (if format \<noteq> GST_FORMAT_TIME then None else map_option md_duration (fd_metadata f))"

text \<open>The position a keyframe seek moves the segment to.\<close>

definition adjust_segment :: "bool \<Rightarrow> 64 word \<Rightarrow> GstSegment \<Rightarrow> GstSegment" where
  "adjust_segment keyframe t sg =
    (if keyframe then (if t < sg_start sg then sg\<lparr>sg_start := t\<rparr> else sg)\<lparr>sg_position := t\<rparr> else sg)"

definition take_segment :: "GstSegment \<Rightarrow> FlvDemux \<Rightarrow> FlvDemux" where
  "take_segment sg f =
    (let f = f\<lparr>fd_segment := sg\<rparr>;
         f = (if sg_flags sg AND GST_SEEK_FLAG_SEGMENT \<noteq> 0
              then log_call (MsgSegmentStart (sg_format sg) (sg_position sg)) f else f)
     in f\<lparr>fd_audio_discont := True, fd_video_discont := True\<rparr>)"

definition seek_position :: "FlvKeyframe option \<Rightarrow> 64 word \<times> guint64 \<Rightarrow> 64 word \<times> guint64" where
  "seek_position found old = (case found of None \<Rightarrow> old | Some k \<Rightarrow> (kf_time k, kf_fileposition k))"

definition flv_demux_seek_pull :: "gst \<Rightarrow> 64 word \<Rightarrow> FlvDemux \<Rightarrow> seek_event \<Rightarrow> (bool \<times> FlvDemux) option" where
  "flv_demux_seek_pull G indeterminate f ev =
    (if se_format ev \<noteq> GST_FORMAT_TIME \<or> \<not> g_positive G (se_rate ev) then Some (False, f)
     else do {
       let flush = (se_flags ev AND GST_SEEK_FLAG_FLUSH \<noteq> 0);
       let keyframe = (se_flags ev AND GST_SEEK_FLAG_KEY_UNIT \<noteq> 0);
       let f = (if flush then snd (flv_demux_push_src_event G (snd (push_event G SinkPad EvFlushStart f)) EvFlushStart) else f);
       let f = (if flush then snd (push_event G SinkPad EvFlushStop f) else f);
       let seeksegment = g_do_seek G (fd_segment f) ev;
       (seeksegment, f) \<leftarrow>
         (if flush \<or> sg_position seeksegment \<noteq> sg_position (fd_segment f) then do {
            found \<leftarrow> flv_demux_index_lookup f (sg_start seeksegment);
            let (t, pos) = seek_position found (0, 0);
            ((t, pos), f) \<leftarrow>
              (if sg_start seeksegment - t > 5 * GST_SECOND then do {
                 (_, f) \<leftarrow> flv_demux_do_indexing_pull G indeterminate f t (sg_start seeksegment);
                 found \<leftarrow> flv_demux_index_lookup f (sg_start seeksegment);
                 Some (seek_position found (t, pos), f) }
               else Some ((t, pos), f));
            let f = f\<lparr>fd_parser := (if pos \<noteq> 0 then flv_parser_seek (fd_parser f) pos else flv_parser_reset (fd_parser f))\<rparr>;
            Some (adjust_segment keyframe t seeksegment, f) }
          else Some (seeksegment, f));
       let f = (if flush then snd (flv_demux_push_src_event G f EvFlushStop) else f);
       Some (True, log_call StartTask (take_segment seeksegment f)) })"

definition flv_demux_seek_push :: "gst \<Rightarrow> FlvDemux \<Rightarrow> seek_event \<Rightarrow> (bool \<times> FlvDemux) option" where
  "flv_demux_seek_push G f ev =
    (if se_format ev \<noteq> GST_FORMAT_TIME \<or> \<not> g_positive G (se_rate ev) then Some (False, f)
     else do {
       let flush = (se_flags ev AND GST_SEEK_FLAG_FLUSH \<noteq> 0);
       let keyframe = (se_flags ev AND GST_SEEK_FLAG_KEY_UNIT \<noteq> 0);
       let seeksegment = g_do_seek G (fd_segment f) ev;
       (res, seeksegment, f) \<leftarrow>
         (if flush \<or> sg_position seeksegment \<noteq> sg_position (fd_segment f) then do {
            found \<leftarrow> flv_demux_index_lookup f (sg_start seeksegment);
            let (t, pos) = seek_position found (0, 0);
            let seeksegment = adjust_segment keyframe t seeksegment;
            let (res, f) = push_event G SinkPad (EvSeekBytes (sg_rate seeksegment) pos) f;
            Some (res, seeksegment, f) }
          else Some (True, seeksegment, f));
       Some (res, if res then take_segment seeksegment f else f) })"

definition flv_demux_src_event :: "gst \<Rightarrow> 64 word \<Rightarrow> FlvDemux \<Rightarrow> gst_event \<Rightarrow> (bool \<times> FlvDemux) option" where
  "flv_demux_src_event G indeterminate f event = (case event of
      EvSeek ev \<Rightarrow> if fd_is_pulling f then flv_demux_seek_pull G indeterminate f ev else flv_demux_seek_push G f ev
    | _ \<Rightarrow> Some (push_event G SinkPad event f))"

section \<open>The index is a sorted table\<close>

text \<open>The invariant: the times are strictly increasing.\<close>

definition index_ok :: "FlvKeyframe list \<Rightarrow> bool" where
  "index_ok ks \<longleftrightarrow> sorted_wrt (\<lambda>a b. kf_time a < kf_time b) ks"

lemma compare_keyframes_eq: "compare_keyframes a b = 0 \<longleftrightarrow> kf_time a = kf_time b" "compare_keyframes a b > 0 \<longleftrightarrow> kf_time b < kf_time a"
  by (auto simp: compare_keyframes_def)

lemma find_custom_None: "g_list_find_custom ks k = None \<longleftrightarrow> kf_time k \<notin> kf_time ` set ks"
  by (induction ks) (auto simp: compare_keyframes_eq)

lemma set_insert_sorted [simp]: "set (g_list_insert_sorted ks k) = insert k (set ks)"
  by (induction ks) auto

lemma index_ok_insert:
  "index_ok ks \<Longrightarrow> kf_time k \<notin> kf_time ` set ks \<Longrightarrow> index_ok (g_list_insert_sorted ks k)"
proof (induction ks)
  case (Cons e es)
  then show ?case by (auto simp: index_ok_def compare_keyframes_eq not_less intro: order.strict_trans dest: le_neq_trans)
qed (simp add: index_ok_def)

lemma index_ok_add_entry: "index_ok (fd_keyframes f) \<Longrightarrow> index_ok (fd_keyframes (flv_demux_index_add_entry f t p))"
  by (simp add: flv_demux_index_add_entry_def Let_def find_custom_None index_ok_insert)

text \<open>As a map from times to positions, adding an entry adds it unless the time is known.\<close>

definition index_map :: "FlvKeyframe list \<Rightarrow> 64 word \<Rightarrow> guint64 option" where
  "index_map ks = map_of (map (\<lambda>k. (kf_time k, kf_fileposition k)) ks)"

lemma index_map_Nil [simp]: "index_map [] = Map.empty" and index_map_Cons [simp]:
  "index_map (e # es) = (index_map es)(kf_time e \<mapsto> kf_fileposition e)"
  by (simp_all add: index_map_def)

text \<open>The lookup finds the last entry that is not after the time, and never follows a null pointer.\<close>

definition latest :: "FlvKeyframe list \<Rightarrow> 64 word \<Rightarrow> FlvKeyframe \<Rightarrow> bool" where
  "latest ks t k \<longleftrightarrow> k \<in> set ks \<and> kf_time k \<le> t \<and> (\<forall>e\<in>set ks. kf_time e \<le> t \<longrightarrow> kf_time e \<le> kf_time k)"

lemma lookup_walk_spec:
  assumes "index_ok (ps @ ks)" "ks \<noteq> []" "t \<le> kf_time (last ks)" "ps = [] \<Longrightarrow> kf_time (hd ks) \<le> t"
    and "\<And>p. p \<in> set ps \<Longrightarrow> kf_time p < t" "prev = (if ps = [] then None else Some (last ps))"
  shows "\<exists>k. lookup_walk prev ks t = Some (Some k) \<and> latest (ps @ ks) t k"
  using assms
proof (induction ks arbitrary: ps prev)
  case (Cons e es)
  have later: "kf_time e < kf_time x" if "x \<in> set es" for x
    using Cons.prems(1) that by (auto simp: index_ok_def sorted_wrt_append)
  have before: "kf_time x \<le> kf_time (last ps)" if "x \<in> set ps" for x
  proof (cases ps rule: rev_cases)
    case (snoc qs q)
    then show ?thesis using that Cons.prems(1) by (auto simp: index_ok_def sorted_wrt_append intro: less_imp_le)
  qed (use that in simp)
  consider "kf_time e = t" | "t < kf_time e" | "kf_time e < t" by fastforce
  then show ?case
  proof cases
    case 1
    then have "latest (ps @ e # es) t e"
      using Cons.prems(5) later by (fastforce simp: latest_def)
    then show ?thesis using 1 by simp
  next
    case 2
    then have "ps \<noteq> []" using Cons.prems(4) by auto
    then have "latest (ps @ e # es) t (last ps)"
      using 2 Cons.prems(5) [of "last ps"] before later by (fastforce simp: latest_def)
    then show ?thesis using 2 Cons.prems(6) \<open>ps \<noteq> []\<close> by auto
  next
    case 3
    then have "es \<noteq> []" using Cons.prems(3) by auto
    then show ?thesis
      using 3 Cons.IH [of "ps @ [e]" "Some e"] Cons.prems by auto
  qed
qed simp

lemma index_bounds:
  assumes "index_ok ks" "e \<in> set ks"
  shows "kf_time (hd ks) \<le> kf_time e \<and> kf_time e \<le> kf_time (last ks)"
proof -
  have "\<exists>i<length ks. ks ! i = e" using assms(2) by (simp add: in_set_conv_nth)
  then obtain i where i: "i < length ks" "ks ! i = e" by blast
  have le: "kf_time (ks ! a) \<le> kf_time (ks ! b)" if "a \<le> b" "b < length ks" for a b
    using assms(1) that sorted_wrt_nth_less [of "\<lambda>a b. kf_time a < kf_time b" ks a b]
    by (cases "a = b") (auto simp: index_ok_def intro: less_imp_le)
  have ne: "ks \<noteq> []" using i by auto
  show ?thesis using le [of 0 i] le [of i "length ks - 1"] i ne by (auto simp: hd_conv_nth last_conv_nth)
qed

lemma index_lookup_spec:
  assumes "index_ok (fd_keyframes f)"
  shows "flv_demux_index_lookup f t = Some None \<and>
      ((\<forall>e\<in>set (fd_keyframes f). t < kf_time e) \<or> (\<forall>e\<in>set (fd_keyframes f). kf_time e < t)) \<or>
    (\<exists>k. flv_demux_index_lookup f t = Some (Some k) \<and> latest (fd_keyframes f) t k)"
proof -
  let ?ks = "fd_keyframes f"
  note b = index_bounds [OF assms]
  consider "?ks = []" | "?ks \<noteq> []" "t < kf_time (hd ?ks)" | "?ks \<noteq> []" "\<not> t < kf_time (hd ?ks)" "kf_time (last ?ks) < t"
    | "?ks \<noteq> []" "\<not> t < kf_time (hd ?ks)" "\<not> kf_time (last ?ks) < t" by blast
  then show ?thesis
  proof cases
    case 2
    then show ?thesis using b by (auto simp: flv_demux_index_lookup_def Let_def intro: order.strict_trans2)
  next
    case 3
    then show ?thesis using b by (auto simp: flv_demux_index_lookup_def Let_def intro: order.strict_trans1)
  next
    case 4
    then show ?thesis
      using lookup_walk_spec [of "[]" ?ks t None] assms by (auto simp: flv_demux_index_lookup_def Let_def not_less)
  qed (simp add: flv_demux_index_lookup_def)
qed

section \<open>What an index promises\<close>

text \<open>
  The seeks and the copying of a table of keyframes rely on an index only through its map from times to
  positions: an entry is added unless its time is known, and a lookup inside the known times finds
  the latest entry that is not after the time asked for.
\<close>

locale time_index =
  fixes inv :: "'i \<Rightarrow> bool" and entries :: "'i \<Rightarrow> 'time :: linorder \<Rightarrow> 'pos option"
    and add :: "'i \<Rightarrow> 'time \<Rightarrow> 'pos \<Rightarrow> 'i" and look :: "'i \<Rightarrow> 'time \<Rightarrow> ('time \<times> 'pos) option option"
  assumes inv_add: "inv i \<Longrightarrow> inv (add i t p)"
    and entries_add: "inv i \<Longrightarrow> entries (add i t p) = (entries i)(t := (case entries i t of None \<Rightarrow> Some p | Some q \<Rightarrow> Some q))"
    and look_total: "inv i \<Longrightarrow> \<exists>r. look i t = Some r"
    and look_sound: "inv i \<Longrightarrow> look i t = Some (Some (u, p)) \<Longrightarrow> entries i u = Some p \<and> u \<le> t"
    and look_latest: "inv i \<Longrightarrow> look i t = Some (Some (u, p)) \<Longrightarrow> v \<in> dom (entries i) \<Longrightarrow> v \<le> t \<Longrightarrow> v \<le> u"
    and look_none: "inv i \<Longrightarrow> look i t = Some None \<Longrightarrow>
      (\<forall>v\<in>dom (entries i). t < v) \<or> (\<forall>v\<in>dom (entries i). v < t)"
begin

definition add_all :: "('time \<times> 'pos) list \<Rightarrow> 'i \<Rightarrow> 'i" where
  "add_all es i = fold (\<lambda>(t, p) i. add i t p) es i"

lemma add_all_spec:
  "inv i \<Longrightarrow> inv (add_all es i) \<and> entries (add_all es i) = map_of es ++ entries i"
proof (induction es arbitrary: i)
  case (Cons e es)
  obtain t p where e: "e = (t, p)" by (cases e)
  show ?case
    using Cons.IH [OF inv_add [OF Cons.prems]] Cons.prems
    by (auto simp: add_all_def e entries_add map_add_def fun_eq_iff split: option.splits)
qed (simp add: add_all_def)

text \<open>A seek to the time of an entry, once entered, always finds exactly that entry.\<close>

lemma look_entry:
  assumes "inv i" "entries i t = Some p"
  shows "look i t = Some (Some (t, p))"
proof -
  obtain r where r: "look i t = Some r" using look_total [OF assms(1)] by blast
  have t: "t \<in> dom (entries i)" using assms(2) by blast
  have "r \<noteq> None" using look_none [OF assms(1), of t] r t by (metis order.irrefl)
  then obtain u q where u: "r = Some (u, q)" by auto
  have "t \<le> u" using look_latest [OF assms(1) _ t] r u by simp
  then show ?thesis using look_sound [OF assms(1)] r u assms(2) by fastforce
qed

end

lemma index_map_dom: "dom (index_map ks) = kf_time ` set ks"
  by (simp add: index_map_def dom_map_of_conv_image_fst image_image)

lemma index_map_insert: "kf_time k \<notin> kf_time ` set ks \<Longrightarrow>
    index_map (g_list_insert_sorted ks k) = (index_map ks)(kf_time k \<mapsto> kf_fileposition k)"
  by (induction ks) (auto simp: fun_upd_twist)

lemma index_map_mem: "index_ok ks \<Longrightarrow> k \<in> set ks \<Longrightarrow> index_map ks (kf_time k) = Some (kf_fileposition k)"
  by (induction ks) (auto simp: index_ok_def)

definition look_pair :: "FlvDemux \<Rightarrow> 64 word \<Rightarrow> (64 word \<times> guint64) option option" where
  "look_pair f t = map_option (map_option (\<lambda>k. (kf_time k, kf_fileposition k))) (flv_demux_index_lookup f t)"

interpretation idx: time_index "\<lambda>f. index_ok (fd_keyframes f)" "\<lambda>f. index_map (fd_keyframes f)" flv_demux_index_add_entry look_pair
proof unfold_locales
  fix f :: FlvDemux and t p
  assume ok: "index_ok (fd_keyframes f)"
  show "index_ok (fd_keyframes (flv_demux_index_add_entry f t p))" by (rule index_ok_add_entry [OF ok])
  have "index_map (fd_keyframes f) t = None \<longleftrightarrow> t \<notin> kf_time ` set (fd_keyframes f)"
    using index_map_dom [of "fd_keyframes f"] by blast
  then show "index_map (fd_keyframes (flv_demux_index_add_entry f t p)) =
      (index_map (fd_keyframes f))(t := case index_map (fd_keyframes f) t of None \<Rightarrow> Some p | Some q \<Rightarrow> Some q)"
    by (auto simp: flv_demux_index_add_entry_def Let_def find_custom_None index_map_insert split: option.splits)
  show "\<exists>r. look_pair f t = Some r"
    using index_lookup_spec [OF ok, of t] by (auto simp: look_pair_def)
  show "(\<forall>v\<in>dom (index_map (fd_keyframes f)). t < v) \<or> (\<forall>v\<in>dom (index_map (fd_keyframes f)). v < t)"
    if "look_pair f t = Some None"
    using index_lookup_spec [OF ok, of t] that by (auto simp: look_pair_def index_map_dom)
next
  fix f :: FlvDemux and t u p v
  assume ok: "index_ok (fd_keyframes f)" and l: "look_pair f t = Some (Some (u, p))"
  then obtain k where k: "latest (fd_keyframes f) t k" "u = kf_time k" "p = kf_fileposition k"
    using index_lookup_spec [OF ok, of t] by (auto simp: look_pair_def)
  then show "index_map (fd_keyframes f) u = Some p \<and> u \<le> t"
    using index_map_mem [OF ok] by (simp add: latest_def)
  show "v \<le> u" if "v \<in> dom (index_map (fd_keyframes f))" "v \<le> t"
    using that k by (auto simp: index_map_dom latest_def)
qed

end
