(* ===== verification/Flv_Stream.thy ===== *)
theory Flv_Stream
  imports Flv_Demux
begin

text \<open>
  The demuxer over a stream of bytes: that buffers may be cut anywhere (\<open>chain_chunks\<close>), what a block
  changes and what it leaves alone (\<open>keeps\<close>), and that parsing any bytes ends without leaving
  a block (\<open>chain_loop_total\<close>) once the table of keyframes has been read.
\<close>

section \<open>Blocks do not depend on the adapter\<close>

text \<open>
  \<open>outer x fl\<close> replaces the bytes the adapter holds and the flags of the event handlers. Every step of the
  parsing commutes with it: it neither looks at them nor changes them.
\<close>

definition outer :: "bytes \<Rightarrow> bool \<times> bool \<times> bool \<Rightarrow> FlvDemux \<Rightarrow> FlvDemux" where
  "outer x fl f = f\<lparr>fd_adapter := x, fd_is_flushing := fst fl, fd_is_eos_received := fst (snd fl),
     fd_need_parser_flush := snd (snd fl)\<rparr>"

named_theorems outer_simps \<open>operations commute with replacing the bytes of the adapter and the flags\<close>

lemma outer_sel [outer_simps]:
  "fd_adapter (outer x fl f) = x" "fd_parser (outer x fl f) = fd_parser f" "fd_has_video (outer x fl f) = fd_has_video f"
  "fd_has_audio (outer x fl f) = fd_has_audio f" "fd_metadata (outer x fl f) = fd_metadata f"
  "fd_queued_tags (outer x fl f) = fd_queued_tags f" "fd_last_file_position (outer x fl f) = fd_last_file_position f"
  "fd_current_timestamp (outer x fl f) = fd_current_timestamp f" "fd_keyframes (outer x fl f) = fd_keyframes f"
  "fd_copied_metadata_keyframes (outer x fl f) = fd_copied_metadata_keyframes f" "fd_segment (outer x fl f) = fd_segment f"
  "fd_audio_src_pad (outer x fl f) = fd_audio_src_pad f" "fd_video_src_pad (outer x fl f) = fd_video_src_pad f"
  "fd_sound_format (outer x fl f) = fd_sound_format f" "fd_audio_linked (outer x fl f) = fd_audio_linked f"
  "fd_audio_offset (outer x fl f) = fd_audio_offset f" "fd_audio_discont (outer x fl f) = fd_audio_discont f"
  "fd_audio_prev_timestamp (outer x fl f) = fd_audio_prev_timestamp f"
  "fd_audio_frame_duration (outer x fl f) = fd_audio_frame_duration f"
  "fd_video_codec_id (outer x fl f) = fd_video_codec_id f" "fd_video_linked (outer x fl f) = fd_video_linked f"
  "fd_video_offset (outer x fl f) = fd_video_offset f" "fd_video_discont (outer x fl f) = fd_video_discont f"
  "fd_video_prev_timestamp (outer x fl f) = fd_video_prev_timestamp f"
  "fd_video_frame_duration (outer x fl f) = fd_video_frame_duration f" "fd_log (outer x fl f) = fd_log f"
  by (simp_all add: outer_def)

lemma outer_upd [outer_simps]:
  "fd_parser_update g (outer x fl f) = outer x fl (fd_parser_update g f)"
  "fd_has_video_update h (outer x fl f) = outer x fl (fd_has_video_update h f)"
  "fd_has_audio_update h (outer x fl f) = outer x fl (fd_has_audio_update h f)"
  "fd_metadata_update m (outer x fl f) = outer x fl (fd_metadata_update m f)"
  "fd_queued_tags_update q (outer x fl f) = outer x fl (fd_queued_tags_update q f)"
  "fd_last_file_position_update p (outer x fl f) = outer x fl (fd_last_file_position_update p f)"
  "fd_current_timestamp_update p (outer x fl f) = outer x fl (fd_current_timestamp_update p f)"
  "fd_keyframes_update k (outer x fl f) = outer x fl (fd_keyframes_update k f)"
  "fd_copied_metadata_keyframes_update h (outer x fl f) = outer x fl (fd_copied_metadata_keyframes_update h f)"
  "fd_segment_update s (outer x fl f) = outer x fl (fd_segment_update s f)"
  "fd_audio_src_pad_update h (outer x fl f) = outer x fl (fd_audio_src_pad_update h f)"
  "fd_video_src_pad_update h (outer x fl f) = outer x fl (fd_video_src_pad_update h f)"
  "fd_sound_format_update w (outer x fl f) = outer x fl (fd_sound_format_update w f)"
  "fd_audio_linked_update h (outer x fl f) = outer x fl (fd_audio_linked_update h f)"
  "fd_audio_offset_update w (outer x fl f) = outer x fl (fd_audio_offset_update w f)"
  "fd_audio_discont_update h (outer x fl f) = outer x fl (fd_audio_discont_update h f)"
  "fd_audio_prev_timestamp_update p (outer x fl f) = outer x fl (fd_audio_prev_timestamp_update p f)"
  "fd_audio_frame_duration_update p (outer x fl f) = outer x fl (fd_audio_frame_duration_update p f)"
  "fd_video_codec_id_update w (outer x fl f) = outer x fl (fd_video_codec_id_update w f)"
  "fd_video_linked_update h (outer x fl f) = outer x fl (fd_video_linked_update h f)"
  "fd_video_offset_update w (outer x fl f) = outer x fl (fd_video_offset_update w f)"
  "fd_video_discont_update h (outer x fl f) = outer x fl (fd_video_discont_update h f)"
  "fd_video_prev_timestamp_update p (outer x fl f) = outer x fl (fd_video_prev_timestamp_update p f)"
  "fd_video_frame_duration_update p (outer x fl f) = outer x fl (fd_video_frame_duration_update p f)"
  "fd_log_update l (outer x fl f) = outer x fl (fd_log_update l f)"
  by (simp_all add: outer_def)

lemma add_entry_outer [outer_simps]: "flv_demux_index_add_entry (outer x fl f) t p = outer x fl (flv_demux_index_add_entry f t p)"
  by (simp add: flv_demux_index_add_entry_def Let_def outer_simps)

lemma push_event_outer [outer_simps]: "push_event G pad e (outer x fl f) = map_prod id (outer x fl) (push_event G pad e f)"
  by (simp add: push_event_def outer_simps)

lemma push_tags_outer [outer_simps]: "push_tags (outer x fl f) = outer x fl (push_tags f)"
  by (simp add: push_tags_def outer_simps)

lemma queue_tag_outer [outer_simps]: "queue_tag n c (outer x fl f) = outer x fl (queue_tag n c f)"
  by (simp add: queue_tag_def outer_simps)

lemma audio_caps_outer [outer_simps]:
  "flv_demux_negotiate_audio_caps G (outer x fl f) tag = map_prod id (outer x fl) (flv_demux_negotiate_audio_caps G f tag)"
  by (simp add: flv_demux_negotiate_audio_caps_def push_event_def outer_simps Let_def split: prod.split)

lemma video_caps_outer [outer_simps]:
  "flv_demux_negotiate_video_caps G (outer x fl f) c = map_prod id (outer x fl) (flv_demux_negotiate_video_caps G f c)"
  by (simp add: flv_demux_negotiate_video_caps_def push_event_def outer_simps Let_def split: prod.split option.split)

lemma create_audio_outer [outer_simps]:
  "create_audio_pad G tag (outer x fl f) = map_sum (map_prod id (outer x fl)) (outer x fl) (create_audio_pad G tag f)"
  by (simp add: create_audio_pad_def outer_simps Let_def case_prod_beta)

lemma create_video_outer [outer_simps]:
  "create_video_pad G tag (outer x fl f) = map_sum (map_prod id (outer x fl)) (map_prod id (outer x fl)) (create_video_pad G tag f)"
  by (simp add: create_video_pad_def outer_simps Let_def case_prod_beta)

lemma duration_outer [outer_simps]:
  "audio_duration (outer x fl f) = outer x fl (audio_duration f)" "video_duration (outer x fl f) = outer x fl (video_duration f)"
  by (simp_all add: audio_duration_def video_duration_def outer_simps Let_def)

lemma emit_steps_outer [outer_simps]:
  "audio_buffer d (outer x fl f) = audio_buffer d f" "video_buffer k d (outer x fl f) = video_buffer k d f"
  "audio_position (outer x fl f) = outer x fl (audio_position f)" "video_position (outer x fl f) = outer x fl (video_position f)"
  "audio_discontinuity G (outer x fl f) = outer x fl (audio_discontinuity G f)"
  "video_discontinuity G (outer x fl f) = outer x fl (video_discontinuity G f)"
  "audio_index (outer x fl f) = outer x fl (audio_index f)" "video_index k (outer x fl f) = outer x fl (video_index k f)"
  "audio_link r (outer x fl f) = outer x fl (audio_link r f)" "video_link r (outer x fl f) = outer x fl (video_link r f)"
  "drop_audio (outer x fl f) = outer x fl (drop_audio f)" "drop_video (outer x fl f) = outer x fl (drop_video f)"
  "renegotiate_audio G at (outer x fl f) = outer x fl (renegotiate_audio G at f)"
  "renegotiate_video G vt (outer x fl f) = outer x fl (renegotiate_video G vt f)"
  "push_queued_tags b (outer x fl f) = outer x fl (push_queued_tags b f)"
  by (simp_all add: audio_buffer_def video_buffer_def audio_position_def video_position_def audio_discontinuity_def
      video_discontinuity_def audio_index_def video_index_def audio_link_def video_link_def drop_audio_def drop_video_def
      renegotiate_audio_def renegotiate_video_def push_queued_tags_def outer_simps)

lemma push_outer [outer_simps]:
  "push_audio G d (outer x fl f) = map_prod id (outer x fl) (push_audio G d f)"
  "push_video G k d (outer x fl f) = map_prod id (outer x fl) (push_video G k d f)"
  by (simp_all add: push_audio_def push_video_def outer_simps Let_def)

lemma emit_outer [outer_simps]:
  "emit_audio G d at (outer x fl f) = map_option (map_prod id (outer x fl)) (emit_audio G d at f)"
  "emit_video G d vt (outer x fl f) = map_option (map_prod id (outer x fl)) (emit_video G d vt f)"
  by (simp_all add: emit_audio_def emit_video_def outer_simps split: bind_split)

lemma parse_tag_outer [outer_simps]:
  "flv_demux_parse_audio_tag G (outer x fl f) d n = map_option (map_prod id (outer x fl)) (flv_demux_parse_audio_tag G f d n)"
  "flv_demux_parse_video_tag G (outer x fl f) d n = map_option (map_prod id (outer x fl)) (flv_demux_parse_video_tag G f d n)"
  by (auto simp: flv_demux_parse_audio_tag_def flv_demux_parse_video_tag_def outer_simps split: bind_split sum.split)

lemma fold_add_outer: "fold (\<lambda>k f. flv_demux_index_add_entry f (kf_time k) (kf_fileposition k)) ks (outer x fl f) =
    outer x fl (fold (\<lambda>k f. flv_demux_index_add_entry f (kf_time k) (kf_fileposition k)) ks f)"
  by (induction ks arbitrary: f) (simp_all add: outer_simps)

lemma parse_script_outer [outer_simps]:
  "parse_script_block G (outer x fl f) d n = map_option (map_prod id (outer x fl)) (parse_script_block G f d n)"
  by (auto simp: parse_script_block_def queue_metadata_tags_def copy_metadata_keyframes_def fold_add_outer outer_simps
      Let_def split: bind_split option.split prod.split)

lemma parse_small_outer [outer_simps]:
  "parse_header_block (outer x fl f) d n = map_option (map_prod id (outer x fl)) (parse_header_block f d n)"
  "parse_skip_block (outer x fl f) n = map_prod id (outer x fl) (parse_skip_block f n)"
  "parse_prefix_block (outer x fl f) d n = map_option (map_prod id (outer x fl)) (parse_prefix_block f d n)"
  by (auto simp: parse_header_block_def parse_skip_block_def parse_prefix_block_def outer_simps split: bind_split prod.split)

lemma next_block_outer [outer_simps]:
  "flv_demux_parse_next_block G (outer x fl f) d n = map_option (map_prod id (outer x fl)) (flv_demux_parse_next_block G f d n)"
proof -
  have "parse_by_state G (outer x fl f) d n = map_option (map_prod id (outer x fl)) (parse_by_state G f d n)"
    by (cases "fp_state (fd_parser f)") (simp_all add: parse_by_state_def outer_simps)
  then show ?thesis by (auto simp: flv_demux_parse_next_block_def outer_simps split: bind_split)
qed

text \<open>In particular the flags stay, and \<open>hold x\<close>, which replaces only the bytes, commutes with parsing a block.\<close>

definition ev_flags :: "FlvDemux \<Rightarrow> bool \<times> bool \<times> bool" where
  "ev_flags f = (fd_is_flushing f, fd_is_eos_received f, fd_need_parser_flush f)"

definition hold :: "bytes \<Rightarrow> FlvDemux \<Rightarrow> FlvDemux" where
  "hold x f = f\<lparr>fd_adapter := x\<rparr>"

named_theorems hold_simps \<open>fields after replacing the bytes of the adapter\<close>

lemma hold_sel [hold_simps]:
  "fd_adapter (hold x f) = x" "fd_parser (hold x f) = fd_parser f" "fd_has_video (hold x f) = fd_has_video f"
  "fd_has_audio (hold x f) = fd_has_audio f" "fd_metadata (hold x f) = fd_metadata f"
  "fd_queued_tags (hold x f) = fd_queued_tags f" "fd_last_file_position (hold x f) = fd_last_file_position f"
  "fd_current_timestamp (hold x f) = fd_current_timestamp f" "fd_keyframes (hold x f) = fd_keyframes f"
  "fd_copied_metadata_keyframes (hold x f) = fd_copied_metadata_keyframes f" "fd_segment (hold x f) = fd_segment f"
  "fd_audio_src_pad (hold x f) = fd_audio_src_pad f" "fd_video_src_pad (hold x f) = fd_video_src_pad f"
  "fd_sound_format (hold x f) = fd_sound_format f" "fd_audio_linked (hold x f) = fd_audio_linked f"
  "fd_audio_offset (hold x f) = fd_audio_offset f" "fd_audio_discont (hold x f) = fd_audio_discont f"
  "fd_audio_prev_timestamp (hold x f) = fd_audio_prev_timestamp f"
  "fd_audio_frame_duration (hold x f) = fd_audio_frame_duration f"
  "fd_video_codec_id (hold x f) = fd_video_codec_id f" "fd_video_linked (hold x f) = fd_video_linked f"
  "fd_video_offset (hold x f) = fd_video_offset f" "fd_video_discont (hold x f) = fd_video_discont f"
  "fd_video_prev_timestamp (hold x f) = fd_video_prev_timestamp f"
  "fd_video_frame_duration (hold x f) = fd_video_frame_duration f" "fd_log (hold x f) = fd_log f"
  by (simp_all add: hold_def)

lemma hold_flags [hold_simps]: "ev_flags (hold x f) = ev_flags f" "hold x (hold y f) = hold x f"
  by (simp_all add: ev_flags_def hold_def)

lemma next_block_frame:
  assumes "flv_demux_parse_next_block G f d n = Some (r, f')"
  shows "fd_adapter f' = fd_adapter f" "ev_flags f' = ev_flags f"
proof -
  have "outer (fd_adapter f) (ev_flags f) f = f" by (simp add: outer_def ev_flags_def)
  then have "Some (r, f') = map_option (map_prod id (outer (fd_adapter f) (ev_flags f))) (Some (r, f'))"
    using next_block_outer [of G "fd_adapter f" "ev_flags f" f d n] assms by simp
  then have "f' = outer (fd_adapter f) (ev_flags f) f'" by simp
  moreover have "fd_adapter (outer x fl g) = x" "ev_flags (outer x fl g) = fl" for x fl g
    by (simp_all add: outer_def ev_flags_def)
  ultimately show "fd_adapter f' = fd_adapter f" "ev_flags f' = ev_flags f" by metis+
qed

lemma next_block_hold [hold_simps]:
  "flv_demux_parse_next_block G (hold x f) d n = map_option (map_prod id (hold x)) (flv_demux_parse_next_block G f d n)"
proof -
  have "hold x f = outer x (ev_flags f) f" by (simp add: hold_def outer_def ev_flags_def)
  moreover have "outer x (ev_flags f) f' = hold x f'" if "flv_demux_parse_next_block G f d n = Some (r, f')" for r f'
    using next_block_frame(2) [OF that] by (simp add: hold_def outer_def ev_flags_def)
  ultimately show ?thesis
    by (cases "flv_demux_parse_next_block G f d n") (auto simp: next_block_outer)
qed

lemmas next_block_adapter = next_block_frame(1)

text \<open>One round of the loop, when a whole block is there.\<close>

definition block_length :: "FlvDemux \<Rightarrow> nat" where
  "block_length f = unat (ucast (fp_next_block_size (fd_parser f)) :: 32 word)"

lemma block_length_hold [hold_simps]: "block_length (hold x f) = block_length f"
  by (simp add: block_length_def hold_def)

lemma block_length_le: "block_length f \<le> unat (fp_next_block_size (fd_parser f))"
  by (simp add: block_length_def unsigned_ucast_eq take_bit_nat_less_eq_self)

lemma chain_loop_wait: "length (fd_adapter f) < unat (fp_next_block_size (fd_parser f)) \<Longrightarrow> chain_loop G f r = Some (r, f)"
  by (simp add: chain_loop.simps)

lemma chain_loop_block:
  assumes "unat (fp_next_block_size (fd_parser f)) \<le> length (fd_adapter f)" "0 < block_length f"
  shows "chain_loop G f r =
    Option.bind (flv_demux_parse_next_block G f (take (block_length f) (fd_adapter f)) (fp_next_block_size (fd_parser f)))
      (\<lambda>(res, f'). let f' = hold (drop (block_length f) (fd_adapter f)) f'
         in if res \<noteq> GST_FLOW_OK then Some (res, f') else chain_loop G f' res)"
proof -
  have "gst_adapter_map (fd_adapter f) (block_length f) = Some (take (block_length f) (fd_adapter f))"
    using assms block_length_le [of f] by (simp add: gst_adapter_map_def)
  then show ?thesis
    using assms(1)
    by (subst chain_loop.simps)
      (auto simp: Let_def block_length_def [symmetric] hold_def next_block_adapter intro!: Option.bind_cong)
qed

text \<open>
  A stream may be cut into buffers anywhere: what the loop does with the bytes \<open>a @ b\<close> is what it does with
  \<open>a\<close>, and then, when more bytes come, with what is left and \<open>b\<close>.
\<close>

lemma chain_loop_split:
  assumes "chain_loop G f r = Some y" "fst y = GST_FLOW_OK"
  shows "chain_loop G (hold (fd_adapter f @ b) f) r = chain_loop G (hold (fd_adapter (snd y) @ b) (snd y)) GST_FLOW_OK"
proof -
  have "fst y = GST_FLOW_OK \<longrightarrow>
    chain_loop G (hold (fd_adapter f @ b) f) r = chain_loop G (hold (fd_adapter (snd y) @ b) (snd y)) GST_FLOW_OK"
  proof (rule chain_loop.raw_induct [OF _ assms(1)], intro impI, goal_cases)
  case (1 loop G f r y)
  show ?case
  proof (cases "length (fd_adapter f) < unat (fp_next_block_size (fd_parser f))")
    case True
    then show ?thesis using 1(2,3) by auto
  next
    case False
    show ?thesis
    proof (cases "0 < block_length f")
      case True
      let ?n = "block_length f" and ?a = "fd_adapter f"
      have n: "?n \<le> length ?a" using False block_length_le [of f] by simp
      have m: "gst_adapter_map ?a ?n = Some (take ?n ?a)" using True n by (simp add: gst_adapter_map_def)
      obtain res f1 where p: "flv_demux_parse_next_block G f (take ?n ?a) (fp_next_block_size (fd_parser f)) = Some (res, f1)"
        and "(if res \<noteq> GST_FLOW_OK then Some (res, f1\<lparr>fd_adapter := drop ?n (fd_adapter f1)\<rparr>)
              else loop G (f1\<lparr>fd_adapter := drop ?n (fd_adapter f1)\<rparr>) res) = Some y"
        using 1(2) False m unfolding block_length_def by (auto simp: Let_def split: bind_splits if_splits)
      then have l: "(if res \<noteq> GST_FLOW_OK then Some (res, hold (drop ?n ?a) f1) else loop G (hold (drop ?n ?a) f1) res) = Some y"
        unfolding hold_def next_block_adapter [OF p] by simp
      have res: "res = GST_FLOW_OK" using l 1(3) by (auto split: if_splits)
      have "chain_loop G (hold (?a @ b) f) r = chain_loop G (hold (drop ?n ?a @ b) f1) GST_FLOW_OK"
        using False True n p res
        by (subst chain_loop_block) (simp_all add: hold_simps Let_def)
      also have "\<dots> = chain_loop G (hold (fd_adapter (snd y) @ b) (snd y)) GST_FLOW_OK"
        using 1(1) [of G "hold (drop ?n ?a) f1" res y] l res 1(3) by (simp add: hold_simps)
      finally show ?thesis .
    next
      case Z: False
      then show ?thesis
        using 1(1) [of G f r y] 1(2,3) False by (simp add: Let_def block_length_def gst_adapter_map_def)
    qed
  qed
  qed
  with assms(2) show ?thesis by simp
qed

lemma chain_loop_flags:
  assumes "chain_loop G f r = Some y"
  shows "ev_flags (snd y) = ev_flags f"
proof (rule chain_loop.raw_induct [OF _ assms], goal_cases)
  case (1 loop G f r y)
  have step: "ev_flags (x\<lparr>fd_adapter := b\<rparr>) = ev_flags x" for x b by (simp add: ev_flags_def)
  show ?case
    using 1(2) 1(1) [of G f r y] 1(1) [of G _ GST_FLOW_OK y]
    by (auto simp: Let_def step dest!: next_block_frame(2) split: if_splits option.splits bind_splits)
qed

text \<open>The same for \<open>flv_demux_chain\<close>, called twice or once.\<close>

lemma chain_chunks:
  assumes "flv_demux_chain G f a off = Some (GST_FLOW_OK, f')"
  shows "flv_demux_chain G f (a @ b) off = flv_demux_chain G f' b off'"
proof -
  have fl: "\<not> fd_is_flushing f" "\<not> fd_is_eos_received f" using assms by (auto simp: flv_demux_chain_def split: if_splits)
  define f0 where "f0 = (if fd_need_parser_flush f
      then f\<lparr>fd_need_parser_flush := False, fd_adapter := [],
             fd_parser := (if off \<noteq> 0 then flv_parser_seek (fd_parser f) off else flv_parser_reset (fd_parser f))\<rparr> else f)"
  have c: "flv_demux_chain G f x off = chain_loop G (hold (fd_adapter f0 @ x) f0) GST_FLOW_OK" for x
    using fl by (simp add: flv_demux_chain_def f0_def hold_def)
  have "ev_flags f' = ev_flags f0"
    using chain_loop_flags [OF assms [unfolded c]] by (simp add: hold_simps)
  then have "\<not> fd_is_flushing f'" "\<not> fd_is_eos_received f'" "\<not> fd_need_parser_flush f'"
    using fl by (auto simp: ev_flags_def f0_def split: if_splits)
  then have "flv_demux_chain G f' b off' = chain_loop G (hold (fd_adapter f' @ b) f') GST_FLOW_OK"
    by (simp add: flv_demux_chain_def hold_def)
  moreover have "chain_loop G (hold (fd_adapter f0 @ a @ b) f0) GST_FLOW_OK = chain_loop G (hold (fd_adapter f' @ b) f') GST_FLOW_OK"
    using chain_loop_split [OF assms [unfolded c], of b] by (simp add: hold_simps)
  ultimately show ?thesis by (simp add: c)
qed

section \<open>What a block leaves alone\<close>

text \<open>
  \<open>core\<close> is the part of the element that pads, buffers and tags do not touch. The index changes only by
  added entries, so its order is kept everywhere.
\<close>

definition core :: "FlvDemux \<Rightarrow> FlvParser \<times> FlvMetadata option \<times> 64 word \<times> guint64 \<times> bool \<times> bool \<times> bool" where
  "core f = (fd_parser f, fd_metadata f, fd_current_timestamp f, fd_last_file_position f,
     fd_is_flushing f, fd_is_eos_received f, fd_need_parser_flush f)"

definition keeps :: "FlvDemux \<Rightarrow> FlvDemux \<Rightarrow> bool" where
  "keeps f f' \<longleftrightarrow> core f' = core f \<and> (index_ok (fd_keyframes f) \<longrightarrow> index_ok (fd_keyframes f'))"

named_theorems keeps_intros \<open>operations that keep the core\<close>

lemma keeps_refl [simp]: "keeps f f" by (simp add: keeps_def)

lemma keeps_trans [trans]: "keeps f g \<Longrightarrow> keeps g h \<Longrightarrow> keeps f h"
  by (simp add: keeps_def)

lemma keeps_push_event [keeps_intros]: "keeps f (snd (push_event G pad e f))"
  by (simp add: push_event_def keeps_def core_def)

lemma keeps_log [keeps_intros]: "keeps f (log_call c f)"
  by (simp add: keeps_def core_def)

lemma keeps_add_entry [keeps_intros]: "keeps f (flv_demux_index_add_entry f t p)"
  using index_ok_add_entry [of f t p]
  by (auto simp: keeps_def core_def flv_demux_index_add_entry_def Let_def)

lemma keeps_tags [keeps_intros]: "keeps f (push_tags f)" "keeps f (queue_tag n c f)" "keeps f (push_queued_tags b f)"
  by (simp_all add: push_tags_def queue_tag_def push_queued_tags_def keeps_def core_def)

lemma keeps_negotiate_audio [keeps_intros]: "keeps f (snd (flv_demux_negotiate_audio_caps G f tag))"
  by (simp add: flv_demux_negotiate_audio_caps_def push_event_def queue_tag_def push_tags_def Let_def case_prod_beta keeps_def core_def)

lemma keeps_negotiate_video [keeps_intros]: "keeps f (snd (flv_demux_negotiate_video_caps G f c))"
  by (simp add: flv_demux_negotiate_video_caps_def push_event_def queue_tag_def push_tags_def Let_def keeps_def core_def split: option.split)

lemma keeps_fields [keeps_intros]:
  "keeps f (drop_audio f)" "keeps f (drop_video f)" "keeps f (audio_duration f)" "keeps f (video_duration f)"
  "keeps f (audio_position f)" "keeps f (video_position f)" "keeps f (audio_link r f)" "keeps f (video_link r f)"
  by (simp_all add: keeps_def core_def drop_audio_def drop_video_def audio_duration_def video_duration_def Let_def
      audio_position_def video_position_def audio_link_def video_link_def)

lemma keeps_steps [keeps_intros]:
  "keeps f (audio_discontinuity G f)" "keeps f (video_discontinuity G f)" "keeps f (audio_index f)" "keeps f (video_index k f)"
  "keeps f (renegotiate_audio G at f)" "keeps f (renegotiate_video G vt f)"
  using keeps_negotiate_audio keeps_negotiate_video keeps_add_entry
  by (simp_all add: audio_discontinuity_def video_discontinuity_def push_event_def audio_index_def video_index_def
      renegotiate_audio_def renegotiate_video_def) (simp_all add: keeps_def core_def)

lemma keeps_push_audio [keeps_intros]: "keeps f (snd (push_audio G d f))"
  unfolding push_audio_def Let_def snd_conv
  by (rule keeps_trans [OF keeps_trans [OF keeps_trans [OF keeps_fields(5) keeps_steps(1)] keeps_steps(3)]
        keeps_trans [OF keeps_log keeps_fields(7)]])

lemma keeps_push_video [keeps_intros]: "keeps f (snd (push_video G k d f))"
  unfolding push_video_def Let_def snd_conv
  by (rule keeps_trans [OF keeps_trans [OF keeps_trans [OF keeps_fields(6) keeps_steps(2)] keeps_steps(4)]
        keeps_trans [OF keeps_log keeps_fields(8)]])

lemma keeps_create_audio:
  "case create_audio_pad G tag f of Inl e \<Rightarrow> keeps f (snd e) | Inr f' \<Rightarrow> keeps f f'"
  using keeps_negotiate_audio [of "f\<lparr>fd_audio_src_pad := True\<rparr>" G tag]
  by (simp add: create_audio_pad_def Let_def case_prod_beta) (simp add: keeps_def core_def)

lemma keeps_create_video:
  "case create_video_pad G tag f of Inl e \<Rightarrow> keeps f (snd e) | Inr e \<Rightarrow> keeps f (snd e)"
  using keeps_negotiate_video [of "f\<lparr>fd_video_src_pad := True\<rparr>" G "vt_codec_id tag"]
  by (simp add: create_video_pad_def Let_def case_prod_beta) (simp add: keeps_def core_def)

lemma keeps_emit:
  "emit_audio G d at f = Some (r, f') \<Longrightarrow> keeps f f'"
  "emit_video G d vt f = Some (r, f') \<Longrightarrow> keeps f f'"
  using keeps_trans [OF keeps_fields(3) keeps_push_audio] keeps_trans [OF keeps_fields(4) keeps_push_video] keeps_fields(3,4)
  by (auto simp: emit_audio_def emit_video_def split: if_splits bind_splits) (metis snd_conv)+

section \<open>A block is parsed without leaving it\<close>

text \<open>
  No allocation of half the address space succeeds. Without this the copy of a packet could leave
  its block: the size of the packet of an empty tag wraps below zero.
\<close>

definition alloc_sane :: "gst \<Rightarrow> bool" where
  "alloc_sane G \<longleftrightarrow> (\<forall>l n. g_alloc G l n \<longrightarrow> unat n < 2 ^ 63)"

definition table_read :: "FlvDemux \<Rightarrow> bool" where
  "table_read f \<longleftrightarrow> (\<exists>m. fd_metadata f = Some m \<and> md_keyframes m \<noteq> None)"

definition block_post :: "FlvDemux \<Rightarrow> GstFlowReturn \<Rightarrow> FlvDemux \<Rightarrow> bool" where
  "block_post f r f' \<longleftrightarrow> next_ok (fd_parser f') \<and>
     (fd_is_flushing f', fd_is_eos_received f', fd_need_parser_flush f') = (fd_is_flushing f, fd_is_eos_received f, fd_need_parser_flush f) \<and>
     (index_ok (fd_keyframes f) \<longrightarrow> index_ok (fd_keyframes f')) \<and> (table_read f \<longrightarrow> table_read f') \<and>
     (r = GST_FLOW_OK \<and> parser_ok (fd_parser f) \<longrightarrow> parser_ok (fd_parser f') \<and> consumes_block (fd_parser f) (fd_parser f'))"

lemma sizes_small:
  "unat (1 + flv_audio_format_data_size ! unat (drop_bit 4 (b AND 0xF0) :: 8 word) :: gsize) \<le> 7"
  "unat (1 + flv_video_codec_data_size ! unat (b AND 0x0F :: 8 word) :: gsize) \<le> 7"
proof -
  have a: "unat (drop_bit 4 (b AND 0xF0) :: 8 word) < 16" and v: "unat (b AND 0x0F :: 8 word) < 16"
  proof -
    have "drop_bit 4 (b AND 0xF0) \<le> 15" "b AND 0x0F \<le> (15 :: 8 word)"
      by (simp_all add: word_and_le1)
    then show "unat (drop_bit 4 (b AND 0xF0) :: 8 word) < 16" "unat (b AND 0x0F :: 8 word) < 16"
      by (simp_all add: word_le_nat_alt)
  qed
  have "flv_audio_format_data_size ! unat (drop_bit 4 (b AND 0xF0) :: 8 word) \<in> set flv_audio_format_data_size"
    by (rule nth_mem) (use a in \<open>simp add: flv_audio_format_data_size_def\<close>)
  then show "unat (1 + flv_audio_format_data_size ! unat (drop_bit 4 (b AND 0xF0) :: 8 word) :: gsize) \<le> 7"
    by (auto simp: flv_audio_format_data_size_def)
  have "flv_video_codec_data_size ! unat (b AND 0x0F :: 8 word) \<in> set flv_video_codec_data_size"
    by (rule nth_mem) (use v in \<open>simp add: flv_video_codec_data_size_def\<close>)
  then show "unat (1 + flv_video_codec_data_size ! unat (b AND 0x0F :: 8 word) :: gsize) \<le> 7"
    by (auto simp: flv_video_codec_data_size_def)
qed

lemma packet_fits:
  assumes "next_ok p" "unat off \<le> 7" "unat (fp_next_block_size p - 4 - off) < 2 ^ 63" "unat (fp_next_block_size p) \<le> length d"
  shows "unat off + unat (fp_next_block_size p - 4 - off) + 4 \<le> length d"
proof -
  let ?n = "fp_next_block_size p"
  have "4 \<le> unat ?n" "unat ?n < 2 ^ 32" using assms(1) by (auto simp: next_ok_def)
  then have n4: "unat (?n - 4) = unat ?n - 4" by (subst unat_sub) (simp_all add: word_le_nat_alt)
  show ?thesis
  proof (cases "off \<le> ?n - 4")
    case True
    then have "unat (?n - 4 - off) = unat ?n - 4 - unat off" by (simp add: unat_sub n4)
    then show ?thesis using True n4 assms(4) \<open>4 \<le> unat ?n\<close> by (simp add: word_le_nat_alt)
  next
    case False
    then have lt: "unat (?n - 4) < unat off" by (simp add: word_le_nat_alt)
    have "unat (?n - 4 - off) = 2 ^ 64 + unat (?n - 4) - unat off"
      using lt assms(2) by (simp add: unat_sub_if_size word_size)
    then show ?thesis using assms(2,3) by simp
  qed
qed

text \<open>What remains after the parser has read the tag only moves the core along.\<close>

lemma emit_audio_total:
  assumes "alloc_sane G" "next_ok p" "unat (fp_next_block_size p) \<le> length d"
    and "flv_parser_read_audio_tag p d n t0 = Some (FLV_PARSER_OK, p', t)"
  shows "\<exists>r f'. emit_audio G d t f = Some (r, f') \<and> keeps f f'"
proof (cases "g_alloc G (fd_log f) (at_audio_packet_size t) \<and> g_map G (fd_log f)")
  case True
  obtain b where t: "at_audio_packet_offset t = 1 + flv_audio_format_data_size ! unat (drop_bit 4 (b AND 0xF0) :: 8 word)"
    "at_audio_packet_size t = fp_next_block_size p - 4 - at_audio_packet_offset t"
    using assms(4) by (auto simp: flv_parser_read_audio_tag_def Let_def split: if_splits bind_splits)
  have "unat (at_audio_packet_offset t) + unat (at_audio_packet_size t) \<le> length d"
    using packet_fits [OF assms(2) _ _ assms(3), of "at_audio_packet_offset t"] sizes_small(1) [of b] True assms(1) t
    by (auto simp: alloc_sane_def)
  then have "\<exists>r f'. emit_audio G d t f = Some (r, f')"
    using True by (cases "push_audio G (take (unat (at_audio_packet_size t)) (drop (unat (at_audio_packet_offset t)) d)) (audio_duration f)")
      (simp add: emit_audio_def copy_bytes_def)
  then show ?thesis using keeps_emit(1) by blast
qed (use keeps_fields(3) in \<open>auto simp: emit_audio_def\<close>)

lemma emit_video_total:
  assumes "alloc_sane G" "next_ok p" "unat (fp_next_block_size p) \<le> length d"
    and "flv_parser_read_video_tag p d n t0 = Some (FLV_PARSER_OK, p', t)"
  shows "\<exists>r f'. emit_video G d t f = Some (r, f') \<and> keeps f f'"
proof (cases "g_alloc G (fd_log f) (vt_video_packet_size t) \<and> g_map G (fd_log f)")
  case True
  obtain b where t: "vt_video_packet_offset t = 1 + flv_video_codec_data_size ! unat (b AND 0x0F :: 8 word)"
    "vt_video_packet_size t = fp_next_block_size p - 4 - vt_video_packet_offset t"
    using assms(4) by (auto simp: flv_parser_read_video_tag_def Let_def split: if_splits bind_splits)
  have "unat (vt_video_packet_offset t) + unat (vt_video_packet_size t) \<le> length d"
    using packet_fits [OF assms(2) _ _ assms(3), of "vt_video_packet_offset t"] sizes_small(2) [of b] True assms(1) t
    by (auto simp: alloc_sane_def)
  then have "\<exists>r f'. emit_video G d t f = Some (r, f')"
    using True by (cases "push_video G (vt_frame_type t = 1) (take (unat (vt_video_packet_size t)) (drop (unat (vt_video_packet_offset t)) d)) (video_duration f)")
      (simp add: emit_video_def copy_bytes_def)
  then show ?thesis using keeps_emit(2) by blast
qed (use keeps_fields(4) in \<open>auto simp: emit_video_def\<close>)

lemma keeps_post:
  assumes "keeps (f\<lparr>fd_parser := p\<rparr>) f'" "next_ok p"
    and "r = GST_FLOW_OK \<Longrightarrow> parser_ok (fd_parser f) \<Longrightarrow> parser_ok p \<and> consumes_block (fd_parser f) p"
  shows "block_post f r f'"
  using assms by (auto simp: block_post_def keeps_def core_def table_read_def)

lemma parse_audio_total:
  assumes "alloc_sane G" "next_ok (fd_parser f)" "unat (fp_next_block_size (fd_parser f)) \<le> length d" "unat n = length d"
  shows "\<exists>r f'. flv_demux_parse_audio_tag G f d n = Some (r, f') \<and> block_post f r f'"
proof -
  obtain pr p t where p: "flv_parser_read_audio_tag (fd_parser f) d n blank_audio_tag = Some (pr, p, t)" "next_ok p"
    "pr = FLV_PARSER_OK \<and> parser_ok (fd_parser f) \<Longrightarrow> parser_ok p \<and> consumes_block (fd_parser f) p"
    using audio_contract [unfolded reader_contract_def] assms(2,4) by (metis order_refl)
  show ?thesis
  proof (cases "pr = FLV_PARSER_OK")
    case False
    then show ?thesis using p by (auto simp: flv_demux_parse_audio_tag_def intro!: keeps_post [where p = p])
  next
    case True
    let ?f = "f\<lparr>fd_parser := p, fd_has_audio := True\<rparr>"
    have k: "keeps (f\<lparr>fd_parser := p\<rparr>) ?f" by (simp add: keeps_def core_def)
    note post = keeps_post [OF _ p(2) p(3) [OF conjI [OF True]]]
    show ?thesis
    proof (cases "create_audio_pad G t ?f")
      case (Inl e)
      then have "keeps ?f (snd e)" using keeps_create_audio [where f = ?f and G = G and tag = t] by simp
      from post [OF keeps_trans [OF k this]] show ?thesis
        using True p(1) Inl by (cases e) (simp add: flv_demux_parse_audio_tag_def)
    next
      case (Inr f1)
      then have k1: "keeps (f\<lparr>fd_parser := p\<rparr>) f1" using keeps_trans [OF k] keeps_create_audio [where f = ?f and G = G and tag = t] by simp
      obtain r f' where e: "emit_audio G d t (renegotiate_audio G t f1) = Some (r, f')" "keeps (renegotiate_audio G t f1) f'"
        using emit_audio_total [OF assms(1-3) p(1) [unfolded True]] by blast
      have "block_post f r f'" "block_post f GST_FLOW_OK (drop_audio f1)"
        by (rule post, rule keeps_trans [OF keeps_trans [OF k1 keeps_steps(5)] e(2)], assumption)
          (rule post, rule keeps_trans [OF k1 keeps_fields(1)], assumption)
      then show ?thesis using True p(1) Inr e(1) by (auto simp: flv_demux_parse_audio_tag_def)
    qed
  qed
qed

lemma parse_video_total:
  assumes "alloc_sane G" "next_ok (fd_parser f)" "unat (fp_next_block_size (fd_parser f)) \<le> length d" "unat n = length d"
  shows "\<exists>r f'. flv_demux_parse_video_tag G f d n = Some (r, f') \<and> block_post f r f'"
proof -
  obtain pr p t where p: "flv_parser_read_video_tag (fd_parser f) d n blank_video_tag = Some (pr, p, t)" "next_ok p"
    "pr = FLV_PARSER_OK \<and> parser_ok (fd_parser f) \<Longrightarrow> parser_ok p \<and> consumes_block (fd_parser f) p"
    using video_contract [unfolded reader_contract_def] assms(2,4) by (metis order_refl)
  show ?thesis
  proof (cases "pr = FLV_PARSER_OK")
    case False
    then show ?thesis using p by (auto simp: flv_demux_parse_video_tag_def intro!: keeps_post [where p = p])
  next
    case True
    let ?f = "f\<lparr>fd_parser := p, fd_has_video := True\<rparr>"
    have k: "keeps (f\<lparr>fd_parser := p\<rparr>) ?f" by (simp add: keeps_def core_def)
    note post = keeps_post [OF _ p(2) p(3) [OF conjI [OF True]]]
    show ?thesis
    proof (cases "create_video_pad G t ?f")
      case (Inl e)
      then have "keeps ?f (snd e)" using keeps_create_video [where f = ?f and G = G and tag = t] by simp
      from post [OF keeps_trans [OF k this]] show ?thesis
        using True p(1) Inl by (cases e) (simp add: flv_demux_parse_video_tag_def)
    next
      case (Inr e1)
      obtain nt f1 where e1: "e1 = (nt, f1)" by (cases e1)
      from Inr e1 have k1: "keeps (f\<lparr>fd_parser := p\<rparr>) f1" using keeps_trans [OF k] keeps_create_video [where f = ?f and G = G and tag = t] by simp
      obtain r f' where e: "emit_video G d t (push_queued_tags nt (renegotiate_video G t f1)) = Some (r, f')" "keeps (push_queued_tags nt (renegotiate_video G t f1)) f'"
        using emit_video_total [OF assms(1-3) p(1) [unfolded True]] by blast
      have "block_post f r f'" "block_post f GST_FLOW_OK (drop_video f1)"
        by (rule post, rule keeps_trans [OF keeps_trans [OF keeps_trans [OF k1 keeps_steps(6)] keeps_tags(3)] e(2)], assumption)
          (rule post, rule keeps_trans [OF k1 keeps_fields(2)], assumption)
      then show ?thesis using True p(1) Inr e1 e(1) by (auto simp: flv_demux_parse_video_tag_def)
    qed
  qed
qed

lemma keeps_fold: "keeps f (fold (\<lambda>k f. flv_demux_index_add_entry f (kf_time k) (kf_fileposition k)) ks f)"
  by (induction ks arbitrary: f) (auto intro: keeps_trans keeps_add_entry)

lemma keeps_queue [keeps_intros]: "keeps f (queue_metadata_tags m f)"
  by (simp add: queue_metadata_tags_def keeps_def core_def split: option.split)

lemma keeps_copy [keeps_intros]: "keeps f (copy_metadata_keyframes m f)"
proof -
  have "keeps g (g\<lparr>fd_copied_metadata_keyframes := True\<rparr>)" for g by (simp add: keeps_def core_def)
  note c = keeps_trans [OF keeps_fold this]
  show ?thesis
  proof (cases "md_keyframes m")
    case (Some ks)
    from c [of f ks] show ?thesis
      unfolding copy_metadata_keyframes_def Some by (cases "fd_copied_metadata_keyframes f") simp_all
  qed (simp add: copy_metadata_keyframes_def)
qed

lemma parse_script_total:
  assumes "next_ok (fd_parser f)" "unat (fp_next_block_size (fd_parser f)) \<le> length d" "unat n = length d" "table_read f"
  shows "\<exists>r f'. parse_script_block G f d n = Some (r, f') \<and> block_post f r f'"
proof -
  let ?r0 = "\<lparr>sr_position = 0, sr_end = 0\<rparr>"
  obtain pr p rd where p: "flv_parser_read_script_data_tag (fd_parser f) n ?r0 = (pr, p, rd)" "next_ok p"
    "pr = FLV_PARSER_OK \<and> parser_ok (fd_parser f) \<Longrightarrow> parser_ok p \<and> consumes_block (fd_parser f) p"
    using script_contract [unfolded reader_contract_def, of ?r0] assms(1,3) by (metis option.inject order_refl)
  obtain m where m: "fd_metadata f = Some m" "md_keyframes m \<noteq> None" using assms(4) by (auto simp: table_read_def)
  show ?thesis
  proof (cases "pr = FLV_PARSER_OK")
    case False
    then show ?thesis using p m by (auto simp: parse_script_block_def intro!: keeps_post [where p = p])
  next
    case True
    then have rd: "sr_end rd \<le> length d" "remaining rd < length d + 1"
      using p(1) assms(1,2) by (auto simp: flv_parser_read_script_data_tag_def next_ok_def unat_sub word_le_nat_alt split: if_splits)
    obtain ok rd' m' where e: "flv_script_data_read (length d + 1) (g_flt G) d rd m = Some (ok, rd', m')" "md_keyframes m' \<noteq> None"
      using script_data_read_total [OF rd m(2)] by blast
    let ?f = "f\<lparr>fd_parser := p, fd_metadata := Some m'\<rparr>" 
    let ?f' = "copy_metadata_keyframes m' (if ok then queue_metadata_tags m' ?f else ?f)"
    have "keeps ?f ?f'" using keeps_trans [OF keeps_queue keeps_copy] keeps_copy by simp
    then have "block_post f GST_FLOW_OK ?f'"
      using p(2,3) True e(2) by (auto simp: block_post_def keeps_def core_def table_read_def)
    then show ?thesis using True p(1) m(1) e(1) by (simp add: parse_script_block_def Let_def)
  qed
qed

lemma parse_header_total:
  assumes "next_ok (fd_parser f)" "unat n = length d"
  shows "\<exists>r f'. parse_header_block f d n = Some (r, f') \<and> block_post f r f'"
proof -
  obtain pr p t where p: "flv_parser_read_header (fd_parser f) d n blank_header = Some (pr, p, t)" "next_ok p"
    "pr = FLV_PARSER_OK \<and> parser_ok (fd_parser f) \<Longrightarrow> parser_ok p \<and> consumes_block (fd_parser f) p"
    using read_header_contract [unfolded reader_contract_def] assms by (metis order_refl)
  then show ?thesis by (auto simp: parse_header_block_def block_post_def table_read_def)
qed

lemma parse_skip_post:
  assumes "next_ok (fd_parser f)"
  shows "block_post f (fst (parse_skip_block f n)) (snd (parse_skip_block f n))"
  using assms by (auto simp: parse_skip_block_def flv_parser_skip_def block_post_def table_read_def parser_next_ok)

lemma parse_prefix_total:
  assumes "next_ok (fd_parser f)" "unat n = length d"
  shows "\<exists>r f'. parse_prefix_block f d n = Some (r, f') \<and> block_post f r f'"
proof -
  obtain pr p t where p: "flv_parser_read_tag_prefix (fd_parser f) d n blank_prefix = Some (pr, p, t)" "next_ok p"
    "pr = FLV_PARSER_OK \<and> parser_ok (fd_parser f) \<Longrightarrow> parser_ok p \<and> consumes_block (fd_parser f) p"
    using prefix_contract [unfolded reader_contract_def] assms by (metis order_refl)
  then show ?thesis by (auto simp: parse_prefix_block_def block_post_def table_read_def)
qed

lemma next_block_total:
  assumes "alloc_sane G" "next_ok (fd_parser f)" "unat (fp_next_block_size (fd_parser f)) \<le> length d" "unat n = length d" "table_read f"
  shows "\<exists>r f'. flv_demux_parse_next_block G f d n = Some (r, f') \<and> block_post f r f'"
proof -
  have "block_post f GST_FLOW_ERROR f" using assms(2) by (simp add: block_post_def)
  then have "\<exists>r f'. parse_by_state G f d n = Some (r, f') \<and> block_post f r f'"
    using parse_header_total [OF assms(2,4)] parse_skip_post [OF assms(2), of n] parse_prefix_total [OF assms(2,4)]
      parse_audio_total [OF assms(1-4)] parse_video_total [OF assms(1-4)] parse_script_total [OF assms(2-5), of G]
    by (cases "fp_state (fd_parser f)"; cases "parse_skip_block f n") (simp_all add: parse_by_state_def)
  moreover have "block_post f r (log_call MsgError f')" if "block_post f r f'" for r f'
    using that by (simp add: block_post_def table_read_def)
  ultimately show ?thesis by (fastforce simp: flv_demux_parse_next_block_def)
qed

text \<open>
  The loop of \<open>flv_demux_chain\<close> ends: every round takes at least four bytes from the adapter. It keeps the
  invariants, and no access leaves a block.
\<close>

lemma chain_loop_total:
  assumes "alloc_sane G" "next_ok (fd_parser f)" "table_read f"
  shows "\<exists>res f'. chain_loop G f r = Some (res, f') \<and> next_ok (fd_parser f') \<and> table_read f' \<and>
    (index_ok (fd_keyframes f) \<longrightarrow> index_ok (fd_keyframes f')) \<and>
    (res = GST_FLOW_OK \<longrightarrow> length (fd_adapter f') < unat (fp_next_block_size (fd_parser f')) \<or> r \<noteq> GST_FLOW_OK)"
  using assms(2,3)
proof (induction "length (fd_adapter f)" arbitrary: f r rule: less_induct)
  case less
  let ?b = "fp_next_block_size (fd_parser f)" and ?n = "block_length f" and ?a = "fd_adapter f"
  have n: "?n = unat ?b" "0 < ?n"
    using less.prems(1) by (auto simp: block_length_def next_ok_def unsigned_ucast_eq take_bit_nat_eq_self)
  show ?case
  proof (cases "length ?a < unat ?b")
    case False
    then have l: "length (take ?n ?a) = unat ?b" by (simp add: n)
    obtain res f1 where p: "flv_demux_parse_next_block G f (take ?n ?a) ?b = Some (res, f1)" "block_post f res f1"
      using next_block_total [OF assms(1) less.prems(1) _ _ less.prems(2), of "take ?n ?a" ?b] l by auto
    let ?f1 = "hold (drop ?n ?a) f1"
    have f1: "next_ok (fd_parser ?f1)" "table_read ?f1" "index_ok (fd_keyframes f) \<longrightarrow> index_ok (fd_keyframes ?f1)"
      "length (fd_adapter ?f1) < length ?a"
      using p(2) less.prems(2) n False by (auto simp: block_post_def table_read_def hold_simps)
    have "chain_loop G f r = (if res \<noteq> GST_FLOW_OK then Some (res, ?f1) else chain_loop G ?f1 res)"
      using chain_loop_block [of f G r] False n(2) p(1) by (simp add: Let_def)
    then show ?thesis
      using less.hyps [OF f1(4) f1(1,2), of res] f1 by (cases "res = GST_FLOW_OK") auto
  qed (use less.prems in \<open>auto simp: chain_loop_wait\<close>)
qed

end
