(* ===== verification/Flv_File.thy ===== *)
theory Flv_File
  imports Flv_Stream
begin

text \<open>
  The demuxer over well-formed files: every audio and video packet is pushed, in order and with its time,
  and the index maps the time of each keyframe to the position of its tag in the file
  (\<open>demux_file\<close>). The last section shows two inputs the code does not handle.
\<close>

section \<open>Well-formed tags are demuxed\<close>

text \<open>The buffers pushed downstream: pad, packet and time.\<close>

definition pushed :: "FlvDemux \<Rightarrow> (gst_pad \<times> bytes \<times> 64 word) list" where
  "pushed f = List.map_filter (\<lambda>c. case c of PushBuffer pad b \<Rightarrow> Some (pad, gb_data b, gb_timestamp b) | _ \<Rightarrow> None) (fd_log f)"

text \<open>\<open>quiet\<close> steps push no buffer and leave the index, the core and the kind of stream alone.\<close>

definition quiet :: "FlvDemux \<Rightarrow> FlvDemux \<Rightarrow> bool" where
  "quiet f f' \<longleftrightarrow> core f' = core f \<and> fd_keyframes f' = fd_keyframes f \<and> pushed f' = pushed f \<and>
     fd_has_video f' = fd_has_video f"

named_theorems quiet_intros \<open>operations that push no buffer\<close>

lemma map_filter_append: "List.map_filter g (xs @ ys) = List.map_filter g xs @ List.map_filter g ys"
  by (induction xs) (auto simp: List.map_filter_def)

lemma quiet_refl [simp]: "quiet f f" by (simp add: quiet_def)

lemma quiet_trans [trans]: "quiet f g \<Longrightarrow> quiet g h \<Longrightarrow> quiet f h" by (simp add: quiet_def)

lemmas quiet_unfold = quiet_def core_def pushed_def map_filter_append List.map_filter_def

lemma quiet_push_event [quiet_intros]: "quiet f (snd (push_event G pad e f))"
  by (simp add: push_event_def quiet_unfold)

lemma quiet_tags [quiet_intros]: "quiet f (push_tags f)" "quiet f (queue_tag n c f)" "quiet f (push_queued_tags b f)"
  by (simp_all add: push_tags_def queue_tag_def push_queued_tags_def quiet_unfold)

lemma quiet_negotiate_audio [quiet_intros]: "quiet f (snd (flv_demux_negotiate_audio_caps G f tag))"
  by (simp add: flv_demux_negotiate_audio_caps_def push_event_def queue_tag_def push_tags_def Let_def case_prod_beta quiet_unfold)

lemma quiet_negotiate_video [quiet_intros]: "quiet f (snd (flv_demux_negotiate_video_caps G f c))"
  by (simp add: flv_demux_negotiate_video_caps_def push_event_def queue_tag_def push_tags_def Let_def quiet_unfold split: option.split)

lemma quiet_fields [quiet_intros]:
  "quiet f (drop_audio f)" "quiet f (drop_video f)" "quiet f (audio_duration f)" "quiet f (video_duration f)"
  "quiet f (audio_position f)" "quiet f (video_position f)" "quiet f (audio_link r f)" "quiet f (video_link r f)"
  "quiet f (audio_discontinuity G f)" "quiet f (video_discontinuity G f)"
  by (simp_all add: quiet_unfold drop_audio_def drop_video_def audio_duration_def video_duration_def Let_def
      audio_position_def video_position_def audio_link_def video_link_def audio_discontinuity_def video_discontinuity_def push_event_def)

lemma quiet_renegotiate [quiet_intros]: "quiet f (renegotiate_audio G at f)" "quiet f (renegotiate_video G vt f)"
  using quiet_negotiate_audio quiet_negotiate_video by (simp_all add: renegotiate_audio_def renegotiate_video_def)

text \<open>A downstream that takes everything.\<close>

definition accepting :: "gst \<Rightarrow> bool" where
  "accepting G \<longleftrightarrow> (\<forall>l p e b n. g_push_event G l p e \<and> g_push G l p b = GST_FLOW_OK \<and> g_set_active G l p \<and> g_add_pad G l p \<and>
     (unat n < 2 ^ 24 \<longrightarrow> g_alloc G l n) \<and> g_map G l)"

lemma create_audio_accepting:
  assumes "accepting G"
  shows "\<exists>f'. create_audio_pad G tag f = Inr f' \<and> quiet f f'"
proof (cases "fd_audio_src_pad f")
  case False
  let ?f = "f\<lparr>fd_audio_src_pad := True\<rparr>" and ?f1 = "snd (flv_demux_negotiate_audio_caps G (f\<lparr>fd_audio_src_pad := True\<rparr>) tag)"
  have "fst (flv_demux_negotiate_audio_caps G ?f tag)"
    using assms by (simp add: flv_demux_negotiate_audio_caps_def push_event_def Let_def case_prod_beta accepting_def)
  moreover have "quiet f ?f1" using quiet_negotiate_audio [of ?f G tag] by (simp add: quiet_unfold)
  ultimately show ?thesis
    using False assms by (auto simp: create_audio_pad_def Let_def case_prod_beta accepting_def) (auto simp: quiet_unfold)
qed (simp add: create_audio_pad_def)

lemma create_video_accepting:
  assumes "accepting G" "fd_metadata f \<noteq> None"
  shows "\<exists>b f'. create_video_pad G tag f = Inr (b, f') \<and> quiet f f'"
proof (cases "fd_video_src_pad f")
  case False
  let ?f = "f\<lparr>fd_video_src_pad := True\<rparr>" and ?f1 = "snd (flv_demux_negotiate_video_caps G (f\<lparr>fd_video_src_pad := True\<rparr>) (vt_codec_id tag))"
  have "fst (flv_demux_negotiate_video_caps G ?f (vt_codec_id tag))"
    using assms by (auto simp: flv_demux_negotiate_video_caps_def push_event_def Let_def case_prod_beta accepting_def)
  moreover have "quiet f ?f1" using quiet_negotiate_video [of ?f G "vt_codec_id tag"] by (simp add: quiet_unfold)
  ultimately show ?thesis
    using False assms by (auto simp: create_video_pad_def Let_def case_prod_beta accepting_def) (auto simp: quiet_unfold)
qed (auto simp: create_video_pad_def)

text \<open>A buffer that is pushed appears at the end, with the time of the element.\<close>

lemma push_audio_effect:
  assumes "accepting G" "quiet g f"
  obtains f' where "push_audio G d f = (GST_FLOW_OK, f')" "core f' = core g" "fd_has_video f' = fd_has_video g"
    "pushed f' = pushed g @ [(AudioPad, d, fd_current_timestamp g)]"
    "fd_keyframes f' = fd_keyframes (audio_index g)"
proof -
  let ?f1 = "audio_discontinuity G (audio_position f)"
  have q: "quiet g ?f1" by (rule quiet_trans [OF assms(2) quiet_trans [OF quiet_fields(5) quiet_fields(9)]])
  have "push_audio G d f = (GST_FLOW_OK, audio_link GST_FLOW_OK (log_call (PushBuffer AudioPad (audio_buffer d f)) (audio_index ?f1)))"
    using assms(1) by (simp add: push_audio_def Let_def accepting_def)
  then show ?thesis
    by (rule that) (use q assms(2) in \<open>simp_all add: audio_link_def audio_index_def flv_demux_index_add_entry_def Let_def
        audio_buffer_def quiet_unfold\<close>)
qed

lemma push_video_effect:
  assumes "accepting G" "quiet g f"
  obtains f' where "push_video G k d f = (GST_FLOW_OK, f')" "core f' = core g" "fd_has_video f' = fd_has_video g"
    "pushed f' = pushed g @ [(VideoPad, d, fd_current_timestamp g)]"
    "fd_keyframes f' = fd_keyframes (video_index k g)"
proof -
  let ?f1 = "video_discontinuity G (video_position f)"
  have q: "quiet g ?f1" by (rule quiet_trans [OF assms(2) quiet_trans [OF quiet_fields(6) quiet_fields(10)]])
  have "push_video G k d f = (GST_FLOW_OK, video_link GST_FLOW_OK (log_call (PushBuffer VideoPad (video_buffer k d f)) (video_index k ?f1)))"
    using assms(1) by (simp add: push_video_def Let_def accepting_def)
  then show ?thesis
    by (rule that) (use q assms(2) in \<open>simp_all add: video_link_def video_index_def flv_demux_index_add_entry_def Let_def
        video_buffer_def quiet_unfold\<close>)
qed

text \<open>The encoding of the packet is in its first byte.\<close>

definition is_mp3 :: "bytes \<Rightarrow> bool" where
  "is_mp3 body \<longleftrightarrow> drop_bit 4 (hd body AND 0xF0) = 2"

definition is_vp6 :: "bytes \<Rightarrow> bool" where
  "is_vp6 body \<longleftrightarrow> hd body AND 0x0F = 4 \<or> hd body AND 0x0F = 5"

definition is_key :: "bytes \<Rightarrow> bool" where
  "is_key body \<longleftrightarrow> drop_bit 4 (hd body AND 0xF0) = 1"

definition tag_block :: "FlvParser \<Rightarrow> bytes \<Rightarrow> bytes \<Rightarrow> bool" where
  "tag_block p body d \<longleftrightarrow> 2 \<le> length body \<and> length body < 2 ^ 24 \<and> take (length body) d = body \<and> length d = length body + 4 \<and>
     fp_next_block_size p = of_nat (length body + 4)"

lemma tag_block_facts:
  assumes "tag_block p body d"
  shows "byte_at d 0 = Some (hd body)" "unat (fp_next_block_size p) = length d" "k \<le> 2 \<Longrightarrow> unat (fp_next_block_size p - 4 - of_nat k) = length body - k"
    "k \<le> length body \<Longrightarrow> copy_bytes d k (length body - k) = Some (drop k body)"
proof -
  have l: "2 \<le> length body" "length body < 2 ^ 24" "take (length body) d = body" "length d = length body + 4"
    and n: "fp_next_block_size p = of_nat (length body + 4)"
    using assms by (simp_all add: tag_block_def)
  show "byte_at d 0 = Some (hd body)"
    using l by (cases d; cases body) auto
  show "unat (fp_next_block_size p) = length d"
    unfolding n l(4) using l(2) by (simp add: unat_of_nat take_bit_nat_eq_self del: of_nat_add)
  show "unat (fp_next_block_size p - 4 - of_nat k) = length body - k" if "k \<le> 2"
  proof -
    have "fp_next_block_size p - 4 - of_nat k = of_nat (length body - k)"
      using that l(1) by (simp add: n)
    then show ?thesis using l(2) by (simp add: unat_of_nat take_bit_nat_eq_self)
  qed
  show "copy_bytes d k (length body - k) = Some (drop k body)" if "k \<le> length body"
  proof -
    have "take (length body - k) (drop k d) = drop k (take (length body) d)" by (simp add: drop_take)
    then show ?thesis using that l by (simp add: copy_bytes_def)
  qed
qed

lemma parse_audio_block:
  assumes "accepting G" "fp_state (fd_parser f) = FLV_PARSER_EXPECT_AUDIO_TAG_BODY" "tag_block (fd_parser f) body d"
  obtains f' where "flv_demux_parse_audio_tag G f d (fp_next_block_size (fd_parser f)) = Some (GST_FLOW_OK, f')"
    "core f' = core (f\<lparr>fd_parser := block_done (fd_parser f)\<rparr>)" "fd_has_video f' = fd_has_video f"
    "pushed f' = pushed f @ (if is_mp3 body then [(AudioPad, drop 1 body, fd_current_timestamp f)] else [])"
    "fd_keyframes f' = fd_keyframes (if is_mp3 body then audio_index f else f)"
proof -
  note tb = tag_block_facts [OF assms(3)]
  let ?p = "block_done (fd_parser f)" and ?f = "f\<lparr>fd_parser := block_done (fd_parser f), fd_has_audio := True\<rparr>"
  obtain t where t: "flv_parser_read_audio_tag (fd_parser f) d (fp_next_block_size (fd_parser f)) blank_audio_tag = Some (FLV_PARSER_OK, ?p, t)"
    "at_sound_format t = drop_bit 4 (hd body AND 0xF0)"
    "at_audio_packet_offset t = 1 + flv_audio_format_data_size ! unat (at_sound_format t)"
    "at_audio_packet_size t = fp_next_block_size (fd_parser f) - 4 - at_audio_packet_offset t"
    using assms(2) tb(1) by (simp add: flv_parser_read_audio_tag_def Let_def)
  obtain f1 where f1: "create_audio_pad G t ?f = Inr f1" "quiet ?f f1" using create_audio_accepting [OF assms(1)] by blast
  show ?thesis
  proof (cases "is_mp3 body")
    case False
    have "quiet ?f (drop_audio f1)" by (rule quiet_trans [OF f1(2) quiet_fields(1)])
    with False t f1(1) show ?thesis
      by (intro that [of "drop_audio f1"]) (simp_all add: flv_demux_parse_audio_tag_def is_mp3_def quiet_unfold)
  next
    case True
    then have sf: "at_sound_format t = 2" "at_audio_packet_offset t = of_nat 1"
      using t(2,3) by (simp_all add: is_mp3_def flv_audio_format_data_size_def)
    have sz: "unat (at_audio_packet_size t) = length body - 1" "unat (at_audio_packet_offset t) = 1"
      using tb(3) [of 1] t(4) sf(2) by simp_all
    let ?g = "audio_duration (renegotiate_audio G t f1)"
    have q: "quiet ?f ?g" by (rule quiet_trans [OF quiet_trans [OF f1(2) quiet_renegotiate(1)] quiet_fields(3)])
    obtain f' where f': "push_audio G (drop 1 body) ?g = (GST_FLOW_OK, f')" "core f' = core ?f" "fd_has_video f' = fd_has_video ?f"
      "pushed f' = pushed ?f @ [(AudioPad, drop 1 body, fd_current_timestamp ?f)]" "fd_keyframes f' = fd_keyframes (audio_index ?f)"
      using push_audio_effect [OF assms(1) q] by blast
    have lb: "length body - 1 < 2 ^ 24" "1 \<le> length body" using assms(3) by (auto simp: tag_block_def)
    have "emit_audio G d t (renegotiate_audio G t f1) = Some (GST_FLOW_OK, f')"
      using assms(1) tb(4) [OF lb(2)] lb(1) f'(1) by (simp add: emit_audio_def accepting_def sz)
    then show ?thesis
      using True t(1) sf(1) f1(1) f'
      by (intro that [of f']) (simp_all add: flv_demux_parse_audio_tag_def quiet_unfold audio_index_def flv_demux_index_add_entry_def Let_def)
  qed
qed

lemma parse_video_block:
  assumes "accepting G" "fp_state (fd_parser f) = FLV_PARSER_EXPECT_VIDEO_TAG_BODY" "tag_block (fd_parser f) body d" "fd_metadata f \<noteq> None"
  obtains f' where "flv_demux_parse_video_tag G f d (fp_next_block_size (fd_parser f)) = Some (GST_FLOW_OK, f')"
    "core f' = core (f\<lparr>fd_parser := block_done (fd_parser f)\<rparr>)" "fd_has_video f'"
    "pushed f' = pushed f @ (if is_vp6 body then [(VideoPad, drop 2 body, fd_current_timestamp f)] else [])"
    "fd_keyframes f' = fd_keyframes (if is_vp6 body then video_index (is_key body) f else f)"
proof -
  note tb = tag_block_facts [OF assms(3)]
  let ?p = "block_done (fd_parser f)" and ?f = "f\<lparr>fd_parser := block_done (fd_parser f), fd_has_video := True\<rparr>"
  obtain t where t: "flv_parser_read_video_tag (fd_parser f) d (fp_next_block_size (fd_parser f)) blank_video_tag = Some (FLV_PARSER_OK, ?p, t)"
    "vt_codec_id t = hd body AND 0x0F" "(vt_frame_type t = 1) = is_key body"
    "vt_video_packet_offset t = 1 + flv_video_codec_data_size ! unat (vt_codec_id t)"
    "vt_video_packet_size t = fp_next_block_size (fd_parser f) - 4 - vt_video_packet_offset t"
    using assms(2) tb(1) by (simp add: flv_parser_read_video_tag_def Let_def is_key_def)
  obtain b f1 where f1: "create_video_pad G t ?f = Inr (b, f1)" "quiet ?f f1"
    using create_video_accepting [OF assms(1), of ?f t] assms(4) by auto
  show ?thesis
  proof (cases "is_vp6 body")
    case False
    have "quiet ?f (drop_video f1)" by (rule quiet_trans [OF f1(2) quiet_fields(2)])
    with False t f1(1) show ?thesis
      by (intro that [of "drop_video f1"]) (simp_all add: flv_demux_parse_video_tag_def is_vp6_def quiet_unfold)
  next
    case True
    then have cd: "vt_codec_id t = 4 \<or> vt_codec_id t = 5" "vt_video_packet_offset t = of_nat 2"
      using t(2,4) by (auto simp: is_vp6_def flv_video_codec_data_size_def)
    have sz: "unat (vt_video_packet_size t) = length body - 2" "unat (vt_video_packet_offset t) = 2"
      using tb(3) [of 2] t(5) cd(2) by simp_all
    let ?h = "push_queued_tags b (renegotiate_video G t f1)" let ?g = "video_duration ?h"
    have q: "quiet ?f ?g"
      by (rule quiet_trans [OF quiet_trans [OF quiet_trans [OF f1(2) quiet_renegotiate(2)] quiet_tags(3)] quiet_fields(4)])
    obtain f' where f': "push_video G (is_key body) (drop 2 body) ?g = (GST_FLOW_OK, f')" "core f' = core ?f" "fd_has_video f' = fd_has_video ?f"
      "pushed f' = pushed ?f @ [(VideoPad, drop 2 body, fd_current_timestamp ?f)]" "fd_keyframes f' = fd_keyframes (video_index (is_key body) ?f)"
      using push_video_effect [OF assms(1) q] by blast
    have lb: "length body - 2 < 2 ^ 24" "2 \<le> length body" using assms(3) by (auto simp: tag_block_def)
    have "emit_video G d t ?h = Some (GST_FLOW_OK, f')"
      using assms(1) tb(4) [OF lb(2)] lb(1) f'(1) by (simp add: emit_video_def accepting_def sz t(3))
    then show ?thesis
      using True t(1) cd(1) f1(1) f'
      by (intro that [of f']) (auto simp: flv_demux_parse_video_tag_def quiet_unfold video_index_def flv_demux_index_add_entry_def Let_def)
  qed
qed

text \<open>The packets of a tag, and whether it is entered in the index.\<close>

definition tag_clock :: "flv_tag \<Rightarrow> 64 word" where
  "tag_clock t = scast (ft_time t) * 1000000"

definition tag_packets :: "flv_tag \<Rightarrow> (gst_pad \<times> bytes \<times> 64 word) list" where
  "tag_packets t =
    (if ft_type t = FLV_TAG_TYPE_AUDIO \<and> is_mp3 (ft_body t) then [(AudioPad, drop 1 (ft_body t), tag_clock t)]
     else if ft_type t = FLV_TAG_TYPE_VIDEO \<and> is_vp6 (ft_body t) then [(VideoPad, drop 2 (ft_body t), tag_clock t)] else [])"

definition key_tag :: "flv_tag \<Rightarrow> bool" where
  "key_tag t \<longleftrightarrow> ft_type t = FLV_TAG_TYPE_VIDEO \<and> is_vp6 (ft_body t) \<and> is_key (ft_body t)"

definition av_tag :: "flv_tag \<Rightarrow> bool" where
  "av_tag t \<longleftrightarrow> tag_ok t \<and> ft_type t \<noteq> FLV_TAG_TYPE_SCRIPT_DATA \<and> 2 \<le> length (ft_body t)"

definition indexed :: "bool \<Rightarrow> flv_tag \<Rightarrow> bool" where
  "indexed has_video t \<longleftrightarrow> key_tag t \<or> (ft_type t = FLV_TAG_TYPE_AUDIO \<and> is_mp3 (ft_body t) \<and> \<not> has_video)"

text \<open>The element stands at the start of a tag.\<close>

definition at_tag :: "FlvDemux \<Rightarrow> bool" where
  "at_tag f \<longleftrightarrow> parser_ok (fd_parser f) \<and> fp_state (fd_parser f) = FLV_PARSER_EXPECT_TAG_PREFIX \<and> fd_metadata f \<noteq> None"

lemma chain_loop_ok_step:
  assumes "next_ok (fd_parser f)" "fd_adapter f = d @ rest" "unat (fp_next_block_size (fd_parser f)) = length d"
    and "flv_demux_parse_next_block G f d (fp_next_block_size (fd_parser f)) = Some (GST_FLOW_OK, f')"
  shows "chain_loop G f r = chain_loop G (hold rest f') GST_FLOW_OK"
proof -
  have "block_length f = length d" "0 < length d"
    using assms(1,3) by (auto simp: block_length_def next_ok_def unsigned_ucast_eq take_bit_nat_eq_self)
  then show ?thesis using chain_loop_block [of f G r] assms(2-4) by (simp add: Let_def)
qed

lemma demux_tag:
  assumes "accepting G" "av_tag t" "at_tag f" "fd_adapter f = encode_tag t @ rest"
  obtains f' where "chain_loop G f r = chain_loop G f' GST_FLOW_OK" "at_tag f'" "fd_adapter f' = rest"
    "fp_file_position (fd_parser f') = fp_file_position (fd_parser f) + of_nat (length (encode_tag t))"
    "pushed f' = pushed f @ tag_packets t" "fd_has_video f' \<longleftrightarrow> fd_has_video f \<or> ft_type t = FLV_TAG_TYPE_VIDEO"
    "fd_keyframes f' = fd_keyframes (if indexed (fd_has_video f) t
       then flv_demux_index_add_entry f (tag_clock t) (fp_file_position (fd_parser f)) else f)"
proof -
  let ?p = "fd_parser f" and ?body = "ft_body t" and ?d = "ft_body t @ ft_suffix t"
  have t: "tag_ok t" "ft_type t = 8 \<or> ft_type t = 9" "2 \<le> length ?body" "length ?body < 2 ^ 24" "length (ft_suffix t) = 4"
    using assms(2) by (auto simp: av_tag_def tag_ok_def)
  have p: "parser_ok ?p" "fp_state ?p = FLV_PARSER_EXPECT_TAG_PREFIX" "fp_next_block_size ?p = 11" "next_ok ?p" "fd_metadata f \<noteq> None"
    using assms(3) by (auto simp: at_tag_def parser_ok_def)
  let ?p1 = "?p\<lparr>fp_parsed_block_size := 11, fp_file_position := fp_file_position ?p + 11,
        fp_next_block_size := of_nat (length ?body + 4), fp_state := body_state (ft_type t)\<rparr>"
  let ?f1 = "f\<lparr>fd_parser := ?p1, fd_current_timestamp := tag_clock t, fd_last_file_position := fp_file_position ?p\<rparr>"
  have "parse_prefix_block f (encode_prefix t) 11 = Some (GST_FLOW_OK, ?f1)"
    using read_encoded_prefix [OF t(1) p(1,2), of 11 "[]" blank_prefix] by (simp add: parse_prefix_block_def tag_clock_def)
  then have b1: "flv_demux_parse_next_block G f (encode_prefix t) (fp_next_block_size ?p) = Some (GST_FLOW_OK, ?f1)"
    using p(2,3) by (simp add: flv_demux_parse_next_block_def parse_by_state_def)
  let ?f2 = "hold (?d @ rest) ?f1"
  have s1: "chain_loop G f r = chain_loop G ?f2 GST_FLOW_OK"
    by (rule chain_loop_ok_step [OF p(4) _ _ b1]) (use assms(4) p(3) in \<open>simp_all add: encode_tag_def\<close>)
  have tb: "tag_block (fd_parser ?f2) ?body ?d" using t by (simp add: tag_block_def hold_simps)
  have n2: "next_ok (fd_parser ?f2)" "unat (fp_next_block_size (fd_parser ?f2)) = length ?d"
    using tag_block_facts(2) [OF tb] t(4,5) by (simp_all add: next_ok_def)
  have q0: "pushed ?f2 = pushed f" by (simp add: pushed_def hold_simps)
  have "\<exists>f3. parse_by_state G ?f2 ?d (fp_next_block_size (fd_parser ?f2)) = Some (GST_FLOW_OK, f3) \<and>
      core f3 = core (?f2\<lparr>fd_parser := block_done (fd_parser ?f2)\<rparr>) \<and> pushed f3 = pushed f @ tag_packets t \<and>
      (fd_has_video f3 \<longleftrightarrow> fd_has_video f \<or> ft_type t = 9) \<and>
      fd_keyframes f3 = fd_keyframes (if indexed (fd_has_video f) t
        then flv_demux_index_add_entry f (tag_clock t) (fp_file_position ?p) else f)"
  proof (cases "ft_type t = 8")
    case True
    then have st: "fp_state (fd_parser ?f2) = FLV_PARSER_EXPECT_AUDIO_TAG_BODY" by (simp add: hold_simps body_state_def)
    obtain f3 where "flv_demux_parse_audio_tag G ?f2 ?d (fp_next_block_size (fd_parser ?f2)) = Some (GST_FLOW_OK, f3)"
      "core f3 = core (?f2\<lparr>fd_parser := block_done (fd_parser ?f2)\<rparr>)" "fd_has_video f3 = fd_has_video ?f2"
      "pushed f3 = pushed ?f2 @ (if is_mp3 ?body then [(AudioPad, drop 1 ?body, fd_current_timestamp ?f2)] else [])"
      "fd_keyframes f3 = fd_keyframes (if is_mp3 ?body then audio_index ?f2 else ?f2)"
      using parse_audio_block [OF assms(1) st tb] by blast
    then show ?thesis
      using True st q0 by (intro exI [of _ f3]) (auto simp: parse_by_state_def tag_packets_def indexed_def key_tag_def
        audio_index_def flv_demux_index_add_entry_def Let_def hold_simps)
  next
    case False
    with t(2) have ty: "ft_type t = 9" by simp
    then have st: "fp_state (fd_parser ?f2) = FLV_PARSER_EXPECT_VIDEO_TAG_BODY" by (simp add: hold_simps body_state_def)
    obtain f3 where "flv_demux_parse_video_tag G ?f2 ?d (fp_next_block_size (fd_parser ?f2)) = Some (GST_FLOW_OK, f3)"
      "core f3 = core (?f2\<lparr>fd_parser := block_done (fd_parser ?f2)\<rparr>)" "fd_has_video f3"
      "pushed f3 = pushed ?f2 @ (if is_vp6 ?body then [(VideoPad, drop 2 ?body, fd_current_timestamp ?f2)] else [])"
      "fd_keyframes f3 = fd_keyframes (if is_vp6 ?body then video_index (is_key ?body) ?f2 else ?f2)"
      using parse_video_block [OF assms(1) st tb] p(5) by (auto simp: hold_simps)
    then show ?thesis
      using ty st q0 by (intro exI [of _ f3]) (auto simp: parse_by_state_def tag_packets_def indexed_def key_tag_def
        video_index_def flv_demux_index_add_entry_def Let_def hold_simps)
  qed
  then obtain f3 where p3: "parse_by_state G ?f2 ?d (fp_next_block_size (fd_parser ?f2)) = Some (GST_FLOW_OK, f3)"
    and f3: "core f3 = core (?f2\<lparr>fd_parser := block_done (fd_parser ?f2)\<rparr>)" "pushed f3 = pushed f @ tag_packets t"
      "fd_has_video f3 \<longleftrightarrow> fd_has_video f \<or> ft_type t = 9"
      "fd_keyframes f3 = fd_keyframes (if indexed (fd_has_video f) t
        then flv_demux_index_add_entry f (tag_clock t) (fp_file_position ?p) else f)"
    by blast
  have b2: "flv_demux_parse_next_block G ?f2 ?d (fp_next_block_size (fd_parser ?f2)) = Some (GST_FLOW_OK, f3)"
    using p3 by (simp add: flv_demux_parse_next_block_def)
  have s2: "chain_loop G ?f2 GST_FLOW_OK = chain_loop G (hold rest f3) GST_FLOW_OK"
    by (rule chain_loop_ok_step [OF n2(1) _ n2(2) b2]) (simp add: hold_simps)
  have pf: "fd_parser f3 = block_done ?p1" "fd_metadata f3 = fd_metadata f" using f3(1) by (simp_all add: core_def hold_simps)
  show ?thesis
  proof (rule that [of "hold rest f3"])
    show "chain_loop G f r = chain_loop G (hold rest f3) GST_FLOW_OK" using s1 s2 by simp
    show "at_tag (hold rest f3)" using p(5) by (simp add: at_tag_def hold_simps pf) (simp add: block_done_def)
    show "fp_file_position (fd_parser (hold rest f3)) = fp_file_position ?p + of_nat (length (encode_tag t))"
      by (simp add: hold_simps pf block_done_def encode_tag_def t(5))
    show "pushed (hold rest f3) = pushed f @ tag_packets t" using f3(2) by (simp add: pushed_def hold_simps)
  qed (use f3 in \<open>simp_all add: hold_simps\<close>)
qed

section \<open>A whole file\<close>

definition encode_tags :: "flv_tag list \<Rightarrow> bytes" where
  "encode_tags ts = concat (map encode_tag ts)"

text \<open>The positions of the tags, the first at \<open>p\<close>.\<close>

fun positions :: "nat \<Rightarrow> flv_tag list \<Rightarrow> (nat \<times> flv_tag) list" where
  "positions p [] = []"
| "positions p (t # ts) = (p, t) # positions (p + length (encode_tag t)) ts"

lemma positions_bytes:
  "(q, t) \<in> set (positions p ts) \<Longrightarrow> p \<le> q \<and> q + length (encode_tag t) \<le> p + length (encode_tags ts) \<and>
    take (length (encode_tag t)) (drop (q - p) (encode_tags ts)) = encode_tag t"
proof (induction ts arbitrary: p)
  case (Cons u ts)
  show ?case
  proof (cases "(q, t) = (p, u)")
    case False
    with Cons.prems have m: "(q, t) \<in> set (positions (p + length (encode_tag u)) ts)" by auto
    note Cons.IH [OF m]
    moreover have "drop (q - p) (encode_tags (u # ts)) = drop (q - (p + length (encode_tag u))) (encode_tags ts)"
      if "p + length (encode_tag u) \<le> q" using that by (simp add: encode_tags_def)
    ultimately show ?thesis by (simp add: encode_tags_def)
  qed (simp add: encode_tags_def)
qed simp

text \<open>The entries a stream with video makes: its keyframes, in the order of the file.\<close>

definition key_entries :: "nat \<Rightarrow> flv_tag list \<Rightarrow> (64 word \<times> guint64) list" where
  "key_entries p ts = map (\<lambda>(q, t). (tag_clock t, of_nat q)) (filter (\<lambda>(q, t). key_tag t) (positions p ts))"

lemma key_entries_Cons: "key_entries p (t # ts) =
    (if key_tag t then [(tag_clock t, of_nat p)] else []) @ key_entries (p + length (encode_tag t)) ts"
  by (simp add: key_entries_def)

lemma keyframes_add_all: "fd_keyframes f = fd_keyframes g \<Longrightarrow> fd_keyframes (idx.add_all es f) = fd_keyframes (idx.add_all es g)"
proof (induction es arbitrary: f g)
  case (Cons e es)
  obtain t p where e: "e = (t, p)" by (cases e)
  have "fd_keyframes (flv_demux_index_add_entry f t p) = fd_keyframes (flv_demux_index_add_entry g t p)"
    using Cons.prems by (simp add: flv_demux_index_add_entry_def Let_def)
  from Cons.IH [OF this] show ?case by (simp add: idx.add_all_def e)
qed (simp add: idx.add_all_def)

lemma demux_tags:
  assumes "accepting G"
  shows "\<forall>t\<in>set ts. av_tag t \<Longrightarrow> at_tag f \<Longrightarrow> fd_adapter f = encode_tags ts @ rest \<Longrightarrow> fd_has_video f \<Longrightarrow>
    fp_file_position (fd_parser f) = of_nat p \<Longrightarrow>
    \<exists>f'. chain_loop G f GST_FLOW_OK = chain_loop G f' GST_FLOW_OK \<and> at_tag f' \<and> fd_adapter f' = rest \<and>
      fp_file_position (fd_parser f') = of_nat (p + length (encode_tags ts)) \<and>
      pushed f' = pushed f @ concat (map tag_packets ts) \<and>
      fd_keyframes f' = fd_keyframes (idx.add_all (key_entries p ts) f)"
proof (induction ts arbitrary: f p)
  case Nil
  then show ?case by (intro exI [of _ f]) (simp add: encode_tags_def key_entries_def idx.add_all_def)
next
  case (Cons t ts)
  have a: "fd_adapter f = encode_tag t @ encode_tags ts @ rest" using Cons.prems(3) by (simp add: encode_tags_def)
  have t: "av_tag t" using Cons.prems(1) by simp
  obtain f1 where f1: "chain_loop G f GST_FLOW_OK = chain_loop G f1 GST_FLOW_OK" "at_tag f1" "fd_adapter f1 = encode_tags ts @ rest"
    "fp_file_position (fd_parser f1) = fp_file_position (fd_parser f) + of_nat (length (encode_tag t))"
    "pushed f1 = pushed f @ tag_packets t" "fd_has_video f1 \<longleftrightarrow> fd_has_video f \<or> ft_type t = FLV_TAG_TYPE_VIDEO"
    "fd_keyframes f1 = fd_keyframes (if indexed (fd_has_video f) t
       then flv_demux_index_add_entry f (tag_clock t) (fp_file_position (fd_parser f)) else f)"
    using demux_tag [OF assms t Cons.prems(2) a, of GST_FLOW_OK] by blast
  have "fp_file_position (fd_parser f1) = of_nat (p + length (encode_tag t))" using f1(4) Cons.prems(5) by simp
  then obtain f2 where f2: "chain_loop G f1 GST_FLOW_OK = chain_loop G f2 GST_FLOW_OK" "at_tag f2" "fd_adapter f2 = rest"
    "fp_file_position (fd_parser f2) = of_nat (p + length (encode_tag t) + length (encode_tags ts))"
    "pushed f2 = pushed f1 @ concat (map tag_packets ts)"
    "fd_keyframes f2 = fd_keyframes (idx.add_all (key_entries (p + length (encode_tag t)) ts) f1)"
    using Cons.IH [OF _ f1(2,3), of "p + length (encode_tag t)"] f1(6) Cons.prems(1,4) by auto
  have "fd_keyframes f1 = fd_keyframes (idx.add_all (if key_tag t then [(tag_clock t, of_nat p)] else []) f)"
    using f1(7) Cons.prems(4,5) by (simp add: indexed_def idx.add_all_def)
  from keyframes_add_all [OF this] f2(6)
  have k: "fd_keyframes f2 = fd_keyframes (idx.add_all (key_entries p (t # ts)) f)"
    by (simp add: key_entries_Cons idx.add_all_def)
  show ?case
    using f1(1,5) f2 k by (intro exI [of _ f2]) (simp add: encode_tags_def add.assoc)
qed

definition encode_file :: "8 word \<Rightarrow> bytes \<Rightarrow> flv_tag list \<Rightarrow> bytes" where
  "encode_file flags size0 ts = [of_char CHR ''F'', of_char CHR ''L'', of_char CHR ''V'', 1, flags] @ be32 9 @ size0 @ encode_tags ts"

text \<open>The first two blocks of a file: the header and the size of no tag.\<close>

lemma demux_header:
  assumes "flags AND 0xFA = 0" "length size0 = 4"
  shows "\<exists>f. chain_loop G (hold (encode_file flags size0 ts) (flv_demux_init sg)) GST_FLOW_OK = chain_loop G f GST_FLOW_OK \<and>
    at_tag f \<and> fd_adapter f = encode_tags ts \<and> fp_file_position (fd_parser f) = of_nat 13 \<and> pushed f = [] \<and> fd_keyframes f = [] \<and>
    (fd_has_video f \<longleftrightarrow> flags AND 1 \<noteq> 0)"
proof -
  let ?h = "[of_char CHR ''F'', of_char CHR ''L'', of_char CHR ''V'', 1, flags] @ be32 9 :: bytes"
  let ?f0 = "flv_demux_init sg" and ?f = "hold (?h @ size0 @ encode_tags ts) (flv_demux_init sg)"
  have len: "length ?h = 9" by (simp add: be32_def)
  have off: "GST_READ_UINT32_BE ?h 5 = Some 9"
    using read_be32 [of "[of_char CHR ''F'', of_char CHR ''L'', of_char CHR ''V'', 1, flags]" 9 "[]"] by (simp add: eval_nat_numeral)
  let ?p1 = "flv_parser_init\<lparr>fp_parsed_block_size := 9, fp_file_position := 9, fp_next_block_size := 4,
      fp_state := FLV_PARSER_EXPECT_SKIP_BLOCK\<rparr>"
  have "flv_parser_read_header flv_parser_init ?h 9 blank_header =
      Some (FLV_PARSER_OK, ?p1, blank_header\<lparr>fh_file_version := 1, fh_has_audio_tags := flags AND 4 \<noteq> 0, fh_has_video_tags := flags AND 1 \<noteq> 0\<rparr>)"
    using assms(1) off by (simp add: flv_parser_read_header_def flv_parser_init_def byte_at_def be32_def Let_def)
  then obtain f1 where b1: "flv_demux_parse_next_block G ?f ?h 9 = Some (GST_FLOW_OK, f1)"
    and f1: "f1 = ?f\<lparr>fd_parser := ?p1, fd_has_audio := flags AND 4 \<noteq> 0, fd_has_video := flags AND 1 \<noteq> 0\<rparr>"
    by (simp add: flv_demux_parse_next_block_def parse_by_state_def parse_header_block_def hold_simps flv_demux_init_def flv_parser_init_def)
  have s1: "chain_loop G ?f GST_FLOW_OK = chain_loop G (hold (size0 @ encode_tags ts) f1) GST_FLOW_OK"
    by (rule chain_loop_ok_step [where d = ?h])
      (use b1 len in \<open>simp_all add: hold_simps flv_demux_init_def flv_parser_init_def next_ok_def\<close>)
  let ?f1 = "hold (size0 @ encode_tags ts) f1"
  have b2: "flv_demux_parse_next_block G ?f1 size0 4 = Some (GST_FLOW_OK, ?f1\<lparr>fd_parser := block_done ?p1\<rparr>)"
    by (simp add: flv_demux_parse_next_block_def parse_by_state_def parse_skip_block_def flv_parser_skip_def f1 hold_simps)
  have s2: "chain_loop G ?f1 GST_FLOW_OK = chain_loop G (hold (encode_tags ts) (?f1\<lparr>fd_parser := block_done ?p1\<rparr>)) GST_FLOW_OK"
    by (rule chain_loop_ok_step [where d = size0]) (use b2 assms(2) in \<open>simp_all add: f1 hold_simps next_ok_def\<close>)
  show ?thesis
    using s1 s2
    by (intro exI [of _ "hold (encode_tags ts) (?f1\<lparr>fd_parser := block_done ?p1\<rparr>)"])
      (simp add: encode_file_def at_tag_def f1 hold_simps flv_demux_init_def pushed_def List.map_filter_def,
       simp add: block_done_def flv_parser_init_def)
qed

lemma demux_file:
  assumes "accepting G" "flags AND 0xFA = 0" "flags AND 1 \<noteq> 0" "length size0 = 4" "\<forall>t\<in>set ts. av_tag t"
  shows "\<exists>f'. flv_demux_chain G (flv_demux_init sg) (encode_file flags size0 ts) 0 = Some (GST_FLOW_OK, f') \<and>
    pushed f' = concat (map tag_packets ts) \<and> index_ok (fd_keyframes f') \<and>
    index_map (fd_keyframes f') = map_of (key_entries 13 ts)"
proof -
  obtain f where f: "chain_loop G (hold (encode_file flags size0 ts) (flv_demux_init sg)) GST_FLOW_OK = chain_loop G f GST_FLOW_OK"
    "at_tag f" "fd_adapter f = encode_tags ts @ []" "fp_file_position (fd_parser f) = of_nat 13" "pushed f = []" "fd_keyframes f = []" "fd_has_video f"
    using demux_header [OF assms(2,4), of G ts sg] assms(3) by auto
  obtain f' where f': "chain_loop G f GST_FLOW_OK = chain_loop G f' GST_FLOW_OK" "at_tag f'" "fd_adapter f' = []"
    "pushed f' = pushed f @ concat (map tag_packets ts)" "fd_keyframes f' = fd_keyframes (idx.add_all (key_entries 13 ts) f)"
    using demux_tags [OF assms(1,5) f(2,3,7,4)] by blast
  have "chain_loop G f' GST_FLOW_OK = Some (GST_FLOW_OK, f')"
    by (rule chain_loop_wait) (use f'(2,3) in \<open>auto simp: at_tag_def parser_ok_def next_ok_def\<close>)
  moreover have "flv_demux_chain G (flv_demux_init sg) (encode_file flags size0 ts) 0 =
      chain_loop G (hold (encode_file flags size0 ts) (flv_demux_init sg)) GST_FLOW_OK"
    by (simp add: flv_demux_chain_def hold_def) (simp add: flv_demux_init_def)
  moreover have "index_ok (fd_keyframes f)" by (simp add: f(6) index_ok_def)
  note idx.add_all_spec [OF this, of "key_entries 13 ts"]
  ultimately show ?thesis using f f' by (auto simp: f(6))
qed

lemma snd_positions: "map snd (positions p ts) = ts"
  by (induction ts arbitrary: p) auto

lemma key_entries_dom: "dom (map_of (key_entries p ts)) = tag_clock ` {t \<in> set ts. key_tag t}"
proof -
  have "fst ` set (key_entries p ts) = tag_clock ` {t \<in> set (map snd (positions p ts)). key_tag t}"
    by (force simp: key_entries_def image_iff)
  then show ?thesis by (simp add: dom_map_of_conv_image_fst snd_positions)
qed

text \<open>An entry of the index made from a file is the position of its tag.\<close>

lemma index_points:
  assumes "map_of (key_entries (9 + length size0) ts) c = Some p" "length (encode_file flags size0 ts) < 2 ^ 64"
  shows "\<exists>t\<in>set ts. key_tag t \<and> tag_clock t = c \<and>
    take (length (encode_tag t)) (drop (unat p) (encode_file flags size0 ts)) = encode_tag t"
proof -
  from map_of_SomeD [OF assms(1)] obtain q t where q: "(q, t) \<in> set (positions (9 + length size0) ts)" "key_tag t" "c = tag_clock t" "p = of_nat q"
    by (auto simp: key_entries_def)
  note b = positions_bytes [OF q(1)]
  have l: "length (encode_file flags size0 ts) = 9 + length size0 + length (encode_tags ts)"
    by (simp add: encode_file_def be32_def)
  have u: "unat p = q" using b assms(2) l by (simp add: q(4) unat_of_nat take_bit_nat_eq_self)
  define h where "h = [of_char CHR ''F'', of_char CHR ''L'', of_char CHR ''V'', 1, flags] @ be32 9 @ size0"
  have "encode_file flags size0 ts = h @ encode_tags ts" "length h = 9 + length size0"
    by (simp_all add: encode_file_def h_def be32_def)
  then have d: "drop q (encode_file flags size0 ts) = drop (q - (9 + length size0)) (encode_tags ts)"
    using b by simp
  have "t \<in> set ts" using q(1) snd_positions by (metis in_set_zipE zip_map_fst_snd)
  then show ?thesis using q b u d by auto
qed

section \<open>Where the code goes wrong\<close>

text \<open>
  A tag with an empty body: the size of its packet wraps to the largest 64-bit number. If the allocation is
  granted, the copy reads far beyond the block.
\<close>

lemma empty_audio_tag_overrun:
  assumes "fp_state (fd_parser f) = FLV_PARSER_EXPECT_AUDIO_TAG_BODY" "fp_next_block_size (fd_parser f) = 4"
    and "length d = 4" "is_mp3 d" "fd_audio_src_pad f" "fd_sound_format f = 2" "g_alloc G (fd_log f) (- 1)" "g_map G (fd_log f)"
  shows "flv_demux_parse_audio_tag G f d 4 = None"
proof -
  have b: "byte_at d 0 = Some (hd d)" using assms(3) by (cases d) auto
  have u: "unat (- 1 :: gsize) = 18446744073709551615" by (simp add: unsigned_minus_1_eq_mask mask_eq_exp_minus_1)
  show ?thesis
    using assms b u
    by (simp add: flv_demux_parse_audio_tag_def flv_parser_read_audio_tag_def Let_def create_audio_pad_def renegotiate_audio_def
        emit_audio_def is_mp3_def flv_audio_format_data_size_def copy_bytes_def)
qed

text \<open>Indexing ahead of a time the index does not cover does nothing: the parser it starts expects the file header.\<close>

lemma indexing_without_entry:
  assumes "flv_demux_index_lookup f indexFrom = Some None"
  shows "\<exists>b. flv_demux_do_indexing_pull G indeterminate f indexFrom indexTo = Some (b, f)"
proof -
  have "\<exists>b. indexing_loop G indexTo flv_parser_init indeterminate f = Some (b, f)"
    by (subst indexing_loop.simps)
      (auto simp: Let_def flv_parser_read_tag_prefix_def flv_parser_init_def)
  then show ?thesis using assms by (simp add: flv_demux_do_indexing_pull_def)
qed

end
