(* ===== verification/Flv_Demo.thy ===== *)
theory Flv_Demo
  imports Flv_File
begin

text \<open>A downstream that accepts every buffer of a reasonable size, and a small file, for the witnesses.\<close>

definition demo_flt :: flt where
  "demo_flt = \<lparr>f_clock = (\<lambda>d. d), f_int = (\<lambda>d. ucast d), f_uint64 = (\<lambda>d. d)\<rparr>"

definition demo_gst :: gst where
  "demo_gst = \<lparr>g_push_event = (\<lambda>_ _ _. True), g_push = (\<lambda>_ _ _. GST_FLOW_OK), g_set_active = (\<lambda>_ _. True),
     g_add_pad = (\<lambda>_ _. True), g_alloc = (\<lambda>_ n. unat n < 2 ^ 24), g_map = (\<lambda>_. True), g_task = (\<lambda>_. True),
     g_pull_range = (\<lambda>_ _ _. (GST_FLOW_EOS, [])), g_do_seek = (\<lambda>s _. s), g_positive = (\<lambda>_. True),
     g_nonzero = (\<lambda>d. d \<noteq> 0), g_percent = (\<lambda>d. ucast d), g_flt = demo_flt\<rparr>"

definition greedy_gst :: gst where
  "greedy_gst = demo_gst\<lparr>g_alloc := (\<lambda>_ _. True)\<rparr>"

definition demo_segment :: GstSegment where
  "demo_segment = \<lparr>sg_flags = 0, sg_rate = 0, sg_format = GST_FORMAT_TIME, sg_start = 0, sg_stop = 0, sg_position = 0\<rparr>"

definition demo_video_tag :: flv_tag where
  "demo_video_tag = \<lparr>ft_type = 9, ft_time = 40, ft_body = [0x14, 0, 0xAA, 0xBB], ft_suffix = [0, 0, 0, 15]\<rparr>"

definition demo_audio_tag :: flv_tag where
  "demo_audio_tag = \<lparr>ft_type = 8, ft_time = 50, ft_body = [0x2F, 1, 2], ft_suffix = [0, 0, 0, 14]\<rparr>"

lemma demo_accepting: "accepting demo_gst"
  by (simp add: accepting_def demo_gst_def)

lemma demo_alloc: "alloc_sane demo_gst"
  by (auto simp: alloc_sane_def demo_gst_def)

lemma demo_av: "\<forall>t\<in>set [demo_video_tag, demo_audio_tag]. av_tag t"
  by (simp add: demo_video_tag_def demo_audio_tag_def av_tag_def tag_ok_def)

text \<open>An element that has read a table of keyframes.\<close>

definition demo_demux :: FlvDemux where
  "demo_demux = (flv_demux_init demo_segment)
     \<lparr>fd_metadata := Some (flv_metadata_new\<lparr>md_keyframes := Some []\<rparr>),
      fd_keyframes := [\<lparr>kf_time = 0, kf_fileposition = 13\<rparr>, \<lparr>kf_time = 5, kf_fileposition = 80\<rparr>]\<rparr>"

lemma demo_demux_ok: "table_read demo_demux" "next_ok (fd_parser demo_demux)" "index_ok (fd_keyframes demo_demux)"
  by (simp_all add: demo_demux_def table_read_def flv_demux_init_def index_ok_def parser_next_ok)

definition demo_props :: "(bytes \<times> amf) list" where
  "demo_props = [(map of_char ''width'', AmfNumber 320), (map of_char ''stereo'', AmfBoolean 1), (map of_char ''title'', AmfString [104, 105])]"

lemma demo_props_ok: "\<forall>p\<in>set demo_props. prop_ok p"
  by (simp add: demo_props_def)

text \<open>A column of three keyframes.\<close>

definition demo_column :: bytes where
  "demo_column = be32 3 @ concat (replicate 3 [0, 0, 0, 0, 0, 0, 0, 0, 0])"

lemma demo_column_at: "at_item demo_column \<lparr>sr_position = 0, sr_end = 31\<rparr> (be32 3)"
  by (simp add: at_item_def demo_column_def be32_def length_concat sum_list_replicate)

lemma demo_column_doubles: "doubles_at demo_column \<lparr>sr_position = 4, sr_end = 31\<rparr> 3"
proof -
  have "demo_column ! (4 + 9 * j) = 0" if "j < 3" for j
  proof -
    from that consider "j = 0" | "j = 1" | "j = 2" by linarith
    then show ?thesis by cases (simp_all add: demo_column_def be32_def eval_nat_numeral)
  qed
  then show ?thesis by (simp add: doubles_at_def) (simp add: demo_column_def be32_def eval_nat_numeral)
qed

text \<open>An element that expects the body of an empty audio tag.\<close>

definition demo_empty_tag :: FlvDemux where
  "demo_empty_tag = demo_demux\<lparr>fd_parser := flv_parser_init\<lparr>fp_state := FLV_PARSER_EXPECT_AUDIO_TAG_BODY, fp_next_block_size := 4\<rparr>,
     fd_audio_src_pad := True, fd_sound_format := 2\<rparr>"

end
