(* ===== verification/Color_Convert.thy ===== *)
theory Color_Convert
  imports JFX_Prelude
begin

text \<open>
  The portable C part of \<open>javafx.media/src/main/native/jfxmedia/Utils/ColorConverter.c\<close>: the
  saturation and coefficient tables, the clamp macros \<open>TCLAMP_U8\<close> (by table) and \<open>SCLAMP_U8\<close> (by
  shifts and masks), and the conversions of YCbCr 4:2:0 planes and packed 4:2:2 rows to BGRA
  pixels. A plane is a block of bytes, a pointer into a plane is an offset that the loops
  advance as the code does; the destination is a block of its own. The result of a conversion
  is its return value with the destination.

  The lemmas show that the two clamps agree, that every table access of the loops is in bounds,
  and that a conversion writes exactly the pixels of the frame, with the values of the
  conversion formula.
\<close>

section \<open>Tables\<close>

definition color_tClip :: "int list" where
  "color_tClip = [
    0, 0, 0, 0, 0, 0, 0, 0, 0, 0, 0, 0, 0, 0, 0, 0, 0, 0, 0, 0, 0, 0, 0, 0, 0, 0, 0, 0, 0, 0, 0,
    0, 0, 0, 0, 0, 0, 0, 0, 0, 0, 0, 0, 0, 0, 0, 0, 0, 0, 0, 0, 0, 0, 0, 0, 0, 0, 0, 0, 0, 0, 0,
    0, 0, 0, 0, 0, 0, 0, 0, 0, 0, 0, 0, 0, 0, 0, 0, 0, 0, 0, 0, 0, 0, 0, 0, 0, 0, 0, 0, 0, 0, 0,
    0, 0, 0, 0, 0, 0, 0, 0, 0, 0, 0, 0, 0, 0, 0, 0, 0, 0, 0, 0, 0, 0, 0, 0, 0, 0, 0, 0, 0, 0, 0,
    0, 0, 0, 0, 0, 0, 0, 0, 0, 0, 0, 0, 0, 0, 0, 0, 0, 0, 0, 0, 0, 0, 0, 0, 0, 0, 0, 0, 0, 0, 0,
    0, 0, 0, 0, 0, 0, 0, 0, 0, 0, 0, 0, 0, 0, 0, 0, 0, 0, 0, 0, 0, 0, 0, 0, 0, 0, 0, 0, 0, 0, 0,
    0, 0, 0, 0, 0, 0, 0, 0, 0, 0, 0, 0, 0, 0, 0, 0, 0, 0, 0, 0, 0, 0, 0, 0, 0, 0, 0, 0, 0, 0, 0,
    0, 0, 0, 0, 0, 0, 0, 0, 0, 0, 0, 0, 0, 0, 0, 0, 0, 0, 0, 0, 0, 0, 0, 0, 0, 0, 0, 0, 0, 0, 0,
    0, 0, 0, 0, 0, 0, 0, 0, 0, 0, 0, 0, 0, 0, 0, 0, 0, 0, 0, 0, 0, 0, 0, 0, 0, 0, 0, 0, 0, 0, 0,
    0, 0, 0, 0, 0, 0, 0, 0, 0, 0, 0, 0, 0, 0, 0, 0, 0, 0, 0, 0, 0, 0, 0, 0, 0, 0, 0, 0, 0, 0, 0,
    0, 0, 0, 0, 0, 0, 0, 0, 0, 0, 0, 0, 0, 0, 0, 0, 0, 0, 0, 0, 0, 0, 0, 0, 0, 0, 0, 0, 0, 0, 0,
    0, 0, 0, 0, 0, 0, 0, 0, 0, 0, 0, 0, 0, 0, 0, 0, 0, 0, 0, 0, 0, 0, 0, 0, 0, 0, 0, 0, 0, 0, 0,
    0, 0, 0, 0, 0, 0, 0, 0, 0, 0, 0, 0, 0, 0, 0, 0, 0, 0, 0, 0, 0, 0, 0, 0, 0, 0, 0, 0, 0, 0, 0,
    0, 0, 0, 0, 0, 0, 0, 0, 0, 0, 0, 0, 0, 0, 0, 0, 0, 0, 0, 0, 0, 0, 0, 0, 0, 0, 0, 0, 0, 0, 0,
    0, 0, 0, 0, 0, 0, 0, 0, 0, 0, 0, 0, 0, 0, 0, 0, 0, 0, 0, 0, 0, 0, 0, 0, 0, 0, 0, 0, 0, 0, 0,
    0, 0, 0, 0, 0, 0, 0, 0, 0, 0, 0, 0, 0, 0, 0, 0, 0, 0, 0, 0, 0, 0, 0, 0, 0, 0, 0, 0, 0, 0, 0,
    0, 0, 0, 0, 0, 0, 0, 0, 0, 0, 0, 0, 0, 0, 0, 0, 0, 0, 0, 0, 0, 0, 0, 0, 0, 0, 0, 0, 0, 0, 0,
    0, 0, 0, 0, 0, 0, 0, 0, 0, 0, 0, 0, 0, 0, 0, 0, 0, 0, 0, 0, 0, 0, 0, 0, 0, 0, 0, 0, 0, 0, 0,
    0, 0, 0, 0, 0, 0, 0, 0, 0, 0, 0, 0, 0, 0, 0, 0, 0, 0, 0, 0, 1, 1, 2, 2, 3, 3, 4, 4, 5, 5, 6,
    6, 7, 7, 8, 8, 9, 9, 10, 10, 11, 11, 12, 12, 13, 13, 14, 14, 15, 15, 16, 16, 17, 17, 18, 18,
    19, 19, 20, 20, 21, 21, 22, 22, 23, 23, 24, 24, 25, 25, 26, 26, 27, 27, 28, 28, 29, 29, 30,
    30, 31, 31, 32, 32, 33, 33, 34, 34, 35, 35, 36, 36, 37, 37, 38, 38, 39, 39, 40, 40, 41, 41,
    42, 42, 43, 43, 44, 44, 45, 45, 46, 46, 47, 47, 48, 48, 49, 49, 50, 50, 51, 51, 52, 52, 53,
    53, 54, 54, 55, 55, 56, 56, 57, 57, 58, 58, 59, 59, 60, 60, 61, 61, 62, 62, 63, 63, 64, 64,
    65, 65, 66, 66, 67, 67, 68, 68, 69, 69, 70, 70, 71, 71, 72, 72, 73, 73, 74, 74, 75, 75, 76,
    76, 77, 77, 78, 78, 79, 79, 80, 80, 81, 81, 82, 82, 83, 83, 84, 84, 85, 85, 86, 86, 87, 87,
    88, 88, 89, 89, 90, 90, 91, 91, 92, 92, 93, 93, 94, 94, 95, 95, 96, 96, 97, 97, 98, 98, 99,
    99, 100, 100, 101, 101, 102, 102, 103, 103, 104, 104, 105, 105, 106, 106, 107, 107, 108,
    108, 109, 109, 110, 110, 111, 111, 112, 112, 113, 113, 114, 114, 115, 115, 116, 116, 117,
    117, 118, 118, 119, 119, 120, 120, 121, 121, 122, 122, 123, 123, 124, 124, 125, 125, 126,
    126, 127, 127, 128, 128, 129, 129, 130, 130, 131, 131, 132, 132, 133, 133, 134, 134, 135,
    135, 136, 136, 137, 137, 138, 138, 139, 139, 140, 140, 141, 141, 142, 142, 143, 143, 144,
    144, 145, 145, 146, 146, 147, 147, 148, 148, 149, 149, 150, 150, 151, 151, 152, 152, 153,
    153, 154, 154, 155, 155, 156, 156, 157, 157, 158, 158, 159, 159, 160, 160, 161, 161, 162,
    162, 163, 163, 164, 164, 165, 165, 166, 166, 167, 167, 168, 168, 169, 169, 170, 170, 171,
    171, 172, 172, 173, 173, 174, 174, 175, 175, 176, 176, 177, 177, 178, 178, 179, 179, 180,
    180, 181, 181, 182, 182, 183, 183, 184, 184, 185, 185, 186, 186, 187, 187, 188, 188, 189,
    189, 190, 190, 191, 191, 192, 192, 193, 193, 194, 194, 195, 195, 196, 196, 197, 197, 198,
    198, 199, 199, 200, 200, 201, 201, 202, 202, 203, 203, 204, 204, 205, 205, 206, 206, 207,
    207, 208, 208, 209, 209, 210, 210, 211, 211, 212, 212, 213, 213, 214, 214, 215, 215, 216,
    216, 217, 217, 218, 218, 219, 219, 220, 220, 221, 221, 222, 222, 223, 223, 224, 224, 225,
    225, 226, 226, 227, 227, 228, 228, 229, 229, 230, 230, 231, 231, 232, 232, 233, 233, 234,
    234, 235, 235, 236, 236, 237, 237, 238, 238, 239, 239, 240, 240, 241, 241, 242, 242, 243,
    243, 244, 244, 245, 245, 246, 246, 247, 247, 248, 248, 249, 249, 250, 250, 251, 251, 252,
    252, 253, 253, 254, 254, 255, 255, 255, 255, 255, 255, 255, 255, 255, 255, 255, 255, 255,
    255, 255, 255, 255, 255, 255, 255, 255, 255, 255, 255, 255, 255, 255, 255, 255, 255, 255,
    255, 255, 255, 255, 255, 255, 255, 255, 255, 255, 255, 255, 255, 255, 255, 255, 255, 255,
    255, 255, 255, 255, 255, 255, 255, 255, 255, 255, 255, 255, 255, 255, 255, 255, 255, 255,
    255, 255, 255, 255, 255, 255, 255, 255, 255, 255, 255, 255, 255, 255, 255, 255, 255, 255,
    255, 255, 255, 255, 255, 255, 255, 255, 255, 255, 255, 255, 255, 255, 255, 255, 255, 255,
    255, 255, 255, 255, 255, 255, 255, 255, 255, 255, 255, 255, 255, 255, 255, 255, 255, 255,
    255, 255, 255, 255, 255, 255, 255, 255, 255, 255, 255, 255, 255, 255, 255, 255, 255, 255,
    255, 255, 255, 255, 255, 255, 255, 255, 255, 255, 255, 255, 255, 255, 255, 255, 255, 255,
    255, 255, 255, 255, 255, 255, 255, 255, 255, 255, 255, 255, 255, 255, 255, 255, 255, 255,
    255, 255, 255, 255, 255, 255, 255, 255, 255, 255, 255, 255, 255, 255, 255, 255, 255, 255,
    255, 255, 255, 255, 255, 255, 255, 255, 255, 255, 255, 255, 255, 255, 255, 255, 255, 255,
    255, 255, 255, 255, 255, 255, 255, 255, 255, 255, 255, 255, 255, 255, 255, 255, 255, 255,
    255, 255, 255, 255, 255, 255, 255, 255, 255, 255, 255, 255, 255, 255, 255, 255, 255, 255,
    255, 255, 255, 255, 255, 255, 255, 255, 255, 255, 255, 255, 255, 255, 255, 255, 255, 255,
    255, 255, 255, 255, 255, 255, 255, 255, 255, 255, 255, 255, 255, 255, 255, 255, 255, 255,
    255, 255, 255, 255, 255, 255, 255, 255, 255, 255, 255, 255, 255, 255, 255, 255, 255, 255,
    255, 255, 255, 255, 255, 255, 255, 255, 255, 255, 255, 255, 255, 255, 255, 255, 255, 255,
    255, 255, 255, 255, 255, 255, 255, 255, 255, 255, 255, 255, 255, 255, 255, 255, 255, 255,
    255, 255, 255, 255, 255, 255, 255, 255, 255, 255, 255, 255, 255, 255, 255, 255, 255, 255,
    255, 255, 255, 255, 255, 255, 255, 255, 255, 255, 255, 255, 255, 255, 255, 255, 255, 255,
    255, 255, 255, 255, 255, 255, 255, 255, 255, 255, 255, 255, 255, 255, 255, 255, 255, 255,
    255, 255, 255, 255, 255, 255, 255, 255, 255, 255, 255, 255, 255, 255, 255, 255, 255, 255,
    255, 255, 255, 255, 255, 255, 255, 255, 255, 255, 255, 255, 255, 255, 255, 255, 255, 255,
    255, 255, 255, 255, 255, 255, 255, 255, 255, 255, 255, 255, 255, 255, 255, 255, 255, 255,
    255, 255, 255, 255, 255, 255, 255, 255, 255, 255, 255, 255, 255, 255, 255, 255, 255, 255,
    255, 255, 255, 255, 255, 255, 255, 255, 255, 255, 255, 255, 255, 255, 255, 255, 255, 255,
    255, 255, 255, 255, 255, 255, 255, 255, 255, 255, 255, 255, 255, 255, 255, 255, 255, 255,
    255, 255, 255, 255, 255, 255, 255, 255, 255, 255, 255, 255, 255, 255, 255, 255, 255, 255,
    255, 255, 255, 255, 255, 255, 255, 255, 255, 255, 255, 255, 255, 255, 255, 255, 255, 255,
    255, 255, 255, 255, 255, 255, 255, 255, 255, 255, 255, 255, 255, 255, 255, 255, 255, 255,
    255, 255, 255, 255, 255, 255, 255, 255, 255, 255, 255, 255, 255, 255, 255, 255, 255, 255,
    255, 255, 255, 255, 255, 255, 255]"

definition color_tYY :: "int list" where
  "color_tYY = [
    0, 2, 5, 7, 9, 12, 14, 16, 19, 21, 23, 26, 28, 30, 33, 35, 37, 40, 42, 44, 47, 49, 51, 54,
    56, 58, 61, 63, 65, 68, 70, 72, 75, 77, 79, 82, 84, 86, 88, 91, 93, 95, 98, 100, 102, 105,
    107, 109, 112, 114, 116, 119, 121, 123, 126, 128, 130, 133, 135, 137, 140, 142, 144, 147,
    149, 151, 154, 156, 158, 161, 163, 165, 168, 170, 172, 175, 177, 179, 182, 184, 186, 189,
    191, 193, 196, 198, 200, 203, 205, 207, 210, 212, 214, 217, 219, 221, 224, 226, 228, 231,
    233, 235, 238, 240, 242, 245, 247, 249, 252, 254, 256, 258, 261, 263, 265, 268, 270, 272,
    275, 277, 279, 282, 284, 286, 289, 291, 293, 296, 298, 300, 303, 305, 307, 310, 312, 314,
    317, 319, 321, 324, 326, 328, 331, 333, 335, 338, 340, 342, 345, 347, 349, 352, 354, 356,
    359, 361, 363, 366, 368, 370, 373, 375, 377, 380, 382, 384, 387, 389, 391, 394, 396, 398,
    401, 403, 405, 408, 410, 412, 415, 417, 419, 422, 424, 426, 428, 431, 433, 435, 438, 440,
    442, 445, 447, 449, 452, 454, 456, 459, 461, 463, 466, 468, 470, 473, 475, 477, 480, 482,
    484, 487, 489, 491, 494, 496, 498, 501, 503, 505, 508, 510, 512, 515, 517, 519, 522, 524,
    526, 529, 531, 533, 536, 538, 540, 543, 545, 547, 550, 552, 554, 557, 559, 561, 564, 566,
    568, 571, 573, 575, 578, 580, 582, 585, 587, 589, 592, 594]"

definition color_tRV :: "int list" where
  "color_tRV = [
    0, 3, 6, 10, 13, 16, 19, 22, 26, 29, 32, 35, 38, 42, 45, 48, 51, 54, 57, 61, 64, 67, 70, 73,
    77, 80, 83, 86, 89, 93, 96, 99, 102, 105, 109, 112, 115, 118, 121, 125, 128, 131, 134, 137,
    141, 144, 147, 150, 153, 156, 160, 163, 166, 169, 172, 176, 179, 182, 185, 188, 192, 195,
    198, 201, 204, 208, 211, 214, 217, 220, 224, 227, 230, 233, 236, 239, 243, 246, 249, 252,
    255, 259, 262, 265, 268, 271, 275, 278, 281, 284, 287, 291, 294, 297, 300, 303, 307, 310,
    313, 316, 319, 323, 326, 329, 332, 335, 338, 342, 345, 348, 351, 354, 358, 361, 364, 367,
    370, 374, 377, 380, 383, 386, 390, 393, 396, 399, 402, 406, 409, 412, 415, 418, 422, 425,
    428, 431, 434, 437, 441, 444, 447, 450, 453, 457, 460, 463, 466, 469, 473, 476, 479, 482,
    485, 489, 492, 495, 498, 501, 505, 508, 511, 514, 517, 520, 524, 527, 530, 533, 536, 540,
    543, 546, 549, 552, 556, 559, 562, 565, 568, 572, 575, 578, 581, 584, 588, 591, 594, 597,
    600, 604, 607, 610, 613, 616, 619, 623, 626, 629, 632, 635, 639, 642, 645, 648, 651, 655,
    658, 661, 664, 667, 671, 674, 677, 680, 683, 687, 690, 693, 696, 699, 703, 706, 709, 712,
    715, 718, 722, 725, 728, 731, 734, 738, 741, 744, 747, 750, 754, 757, 760, 763, 766, 770,
    773, 776, 779, 782, 786, 789, 792, 795, 798, 801, 805, 808, 811, 814]"

definition color_tGU :: "int list" where
  "color_tGU = [
    271, 270, 270, 269, 268, 267, 267, 266, 265, 264, 263, 263, 262, 261, 260, 260, 259, 258,
    257, 256, 256, 255, 254, 253, 252, 252, 251, 250, 249, 249, 248, 247, 246, 245, 245, 244,
    243, 242, 241, 241, 240, 239, 238, 238, 237, 236, 235, 234, 234, 233, 232, 231, 231, 230,
    229, 228, 227, 227, 226, 225, 224, 223, 223, 222, 221, 220, 220, 219, 218, 217, 216, 216,
    215, 214, 213, 212, 212, 211, 210, 209, 209, 208, 207, 206, 205, 205, 204, 203, 202, 201,
    201, 200, 199, 198, 198, 197, 196, 195, 194, 194, 193, 192, 191, 191, 190, 189, 188, 187,
    187, 186, 185, 184, 183, 183, 182, 181, 180, 180, 179, 178, 177, 176, 176, 175, 174, 173,
    172, 172, 171, 170, 169, 169, 168, 167, 166, 165, 165, 164, 163, 162, 162, 161, 160, 159,
    158, 158, 157, 156, 155, 154, 154, 153, 152, 151, 151, 150, 149, 148, 147, 147, 146, 145,
    144, 143, 143, 142, 141, 140, 140, 139, 138, 137, 136, 136, 135, 134, 133, 133, 132, 131,
    130, 129, 129, 128, 127, 126, 125, 125, 124, 123, 122, 122, 121, 120, 119, 118, 118, 117,
    116, 115, 114, 114, 113, 112, 111, 111, 110, 109, 108, 107, 107, 106, 105, 104, 103, 103,
    102, 101, 100, 100, 99, 98, 97, 96, 96, 95, 94, 93, 93, 92, 91, 90, 89, 89, 88, 87, 86, 85,
    85, 84, 83, 82, 82, 81, 80, 79, 78, 78, 77, 76, 75, 74, 74, 73, 72, 71]"

definition color_tGV :: "int list" where
  "color_tGV = [
    0, 2, 3, 5, 7, 8, 10, 11, 13, 15, 16, 18, 20, 21, 23, 24, 26, 28, 29, 31, 33, 34, 36, 37,
    39, 41, 42, 44, 46, 47, 49, 50, 52, 54, 55, 57, 59, 60, 62, 63, 65, 67, 68, 70, 72, 73, 75,
    76, 78, 80, 81, 83, 85, 86, 88, 89, 91, 93, 94, 96, 98, 99, 101, 102, 104, 106, 107, 109,
    111, 112, 114, 115, 117, 119, 120, 122, 124, 125, 127, 128, 130, 132, 133, 135, 137, 138,
    140, 141, 143, 145, 146, 148, 150, 151, 153, 155, 156, 158, 159, 161, 163, 164, 166, 168,
    169, 171, 172, 174, 176, 177, 179, 181, 182, 184, 185, 187, 189, 190, 192, 194, 195, 197,
    198, 200, 202, 203, 205, 207, 208, 210, 211, 213, 215, 216, 218, 220, 221, 223, 224, 226,
    228, 229, 231, 233, 234, 236, 237, 239, 241, 242, 244, 246, 247, 249, 250, 252, 254, 255,
    257, 259, 260, 262, 263, 265, 267, 268, 270, 272, 273, 275, 276, 278, 280, 281, 283, 285,
    286, 288, 289, 291, 293, 294, 296, 298, 299, 301, 303, 304, 306, 307, 309, 311, 312, 314,
    316, 317, 319, 320, 322, 324, 325, 327, 329, 330, 332, 333, 335, 337, 338, 340, 342, 343,
    345, 346, 348, 350, 351, 353, 355, 356, 358, 359, 361, 363, 364, 366, 368, 369, 371, 372,
    374, 376, 377, 379, 381, 382, 384, 385, 387, 389, 390, 392, 394, 395, 397, 398, 400, 402,
    403, 405, 407, 408, 410, 411, 413, 415]"

definition color_tBU :: "int list" where
  "color_tBU = [
    0, 4, 8, 12, 16, 20, 24, 28, 32, 36, 40, 44, 48, 52, 57, 61, 65, 69, 73, 77, 81, 85, 89, 93,
    97, 101, 105, 109, 113, 117, 121, 125, 129, 133, 137, 141, 145, 149, 153, 157, 161, 166,
    170, 174, 178, 182, 186, 190, 194, 198, 202, 206, 210, 214, 218, 222, 226, 230, 234, 238,
    242, 246, 250, 254, 258, 262, 266, 270, 275, 279, 283, 287, 291, 295, 299, 303, 307, 311,
    315, 319, 323, 327, 331, 335, 339, 343, 347, 351, 355, 359, 363, 367, 371, 375, 379, 383,
    388, 392, 396, 400, 404, 408, 412, 416, 420, 424, 428, 432, 436, 440, 444, 448, 452, 456,
    460, 464, 468, 472, 476, 480, 484, 488, 492, 497, 501, 505, 509, 513, 517, 521, 525, 529,
    533, 537, 541, 545, 549, 553, 557, 561, 565, 569, 573, 577, 581, 585, 589, 593, 597, 601,
    606, 610, 614, 618, 622, 626, 630, 634, 638, 642, 646, 650, 654, 658, 662, 666, 670, 674,
    678, 682, 686, 690, 694, 698, 702, 706, 710, 715, 719, 723, 727, 731, 735, 739, 743, 747,
    751, 755, 759, 763, 767, 771, 775, 779, 783, 787, 791, 795, 799, 803, 807, 811, 815, 819,
    824, 828, 832, 836, 840, 844, 848, 852, 856, 860, 864, 868, 872, 876, 880, 884, 888, 892,
    896, 900, 904, 908, 912, 916, 920, 924, 928, 933, 937, 941, 945, 949, 953, 957, 961, 965,
    969, 973, 977, 981, 985, 989, 993, 997, 1001, 1005, 1009, 1013, 1017, 1021, 1025, 1029]"

section \<open>Clamps\<close>

definition TCLAMP_U8 :: "int \<Rightarrow> int buf \<Rightarrow> int \<Rightarrow> int buf option" where
  "TCLAMP_U8 val d i = do { x \<leftarrow> rd (Some color_tClip) (288 * 2 + val); wr d i x }"

definition sclamp :: "int \<Rightarrow> int" where
  "sclamp s =
     (let v = i32 s; m = sar (i32 (v - 0x1fe)) 31
      in ((v mod 4294967296 div 2 OR NOT m) AND NOT (sar v 31)) mod 256)"

definition SCLAMP_U8 :: "int \<Rightarrow> int buf \<Rightarrow> int \<Rightarrow> int buf option" where
  "SCLAMP_U8 s d i = wr d i (sclamp s)"

section \<open>4:2:0 frames\<close>

text \<open>The pointers of the loops: into the two luma rows, the chroma planes, the two destination
  rows and the two alpha rows.\<close>

record cursor =
  say1 :: int
  say2 :: int
  sau :: int
  sav :: int
  da1 :: int
  da2 :: int
  a_col1 :: int
  a_col2 :: int

text \<open>The colours of two by two pixels; both conversions have this code.\<close>

definition quad_colors :: "int buf \<Rightarrow> int buf \<Rightarrow> int buf \<Rightarrow> cursor \<Rightarrow> int buf \<Rightarrow> int buf option" where
  "quad_colors y v u p d = do {
     sf1 \<leftarrow> rd u (sau p);
     sf2 \<leftarrow> rd v (sav p);
     sf01 \<leftarrow> rd y (say1 p);
     sf03 \<leftarrow> rd y (say1 p + 1);
     sf02 \<leftarrow> rd y (say2 p);
     sf04 \<leftarrow> rd y (say2 p + 1);
     rv \<leftarrow> rd (Some color_tRV) sf2;
     gu \<leftarrow> rd (Some color_tGU) sf1;
     gv \<leftarrow> rd (Some color_tGV) sf2;
     bu \<leftarrow> rd (Some color_tBU) sf1;
     let sfr = rv - 446;
     let sfg = gu - gv;
     let sfb = bu - 554;
     sf01 \<leftarrow> rd (Some color_tYY) sf01;
     sf03 \<leftarrow> rd (Some color_tYY) sf03;
     sf02 \<leftarrow> rd (Some color_tYY) sf02;
     sf04 \<leftarrow> rd (Some color_tYY) sf04;
     d \<leftarrow> TCLAMP_U8 (sf01 + sfr) d (da1 p + 2);
     d \<leftarrow> TCLAMP_U8 (sf01 + sfg) d (da1 p + 1);
     d \<leftarrow> SCLAMP_U8 (sf01 + sfb) d (da1 p);
     d \<leftarrow> TCLAMP_U8 (sf03 + sfr) d (da1 p + 6);
     d \<leftarrow> TCLAMP_U8 (sf03 + sfg) d (da1 p + 5);
     d \<leftarrow> SCLAMP_U8 (sf03 + sfb) d (da1 p + 4);
     d \<leftarrow> TCLAMP_U8 (sf02 + sfr) d (da2 p + 2);
     d \<leftarrow> TCLAMP_U8 (sf02 + sfg) d (da2 p + 1);
     d \<leftarrow> SCLAMP_U8 (sf02 + sfb) d (da2 p);
     d \<leftarrow> TCLAMP_U8 (sf04 + sfr) d (da2 p + 6);
     d \<leftarrow> SCLAMP_U8 (sf04 + sfg) d (da2 p + 5);
     TCLAMP_U8 (sf04 + sfb) d (da2 p + 4) }"

definition quad_alpha :: "int buf \<Rightarrow> cursor \<Rightarrow> int buf \<Rightarrow> int buf option" where
  "quad_alpha a p d = do {
     x \<leftarrow> rd a (a_col1 p);
     d \<leftarrow> wr d (da1 p + 3) x;
     x \<leftarrow> rd a (a_col1 p + 1);
     d \<leftarrow> wr d (da1 p + 7) x;
     x \<leftarrow> rd a (a_col2 p);
     d \<leftarrow> wr d (da2 p + 3) x;
     x \<leftarrow> rd a (a_col2 p + 1);
     wr d (da2 p + 7) x }"

definition quad_opaque :: "cursor \<Rightarrow> int buf \<Rightarrow> int buf option" where
  "quad_opaque p d = do {
     d \<leftarrow> wr d (da2 p + 7) 0xff;
     d \<leftarrow> wr d (da2 p + 3) 0xff;
     d \<leftarrow> wr d (da1 p + 7) 0xff;
     wr d (da1 p + 3) 0xff }"

definition quad_advance :: "cursor \<Rightarrow> cursor" where
  "quad_advance p = p \<lparr> say1 := say1 p + 2, say2 := say2 p + 2, sau := sau p + 1, sav := sav p + 1,
     da1 := da1 p + 8, da2 := da2 p + 8, a_col1 := a_col1 p + 2, a_col2 := a_col2 p + 2 \<rparr>"

definition rows_advance :: "int \<Rightarrow> int \<Rightarrow> int \<Rightarrow> int \<Rightarrow> int \<Rightarrow> cursor \<Rightarrow> cursor" where
  "rows_advance bgra_stride y_stride v_stride u_stride a_stride p =
     p \<lparr> say1 := say1 p + i32 (2 * y_stride), say2 := say2 p + i32 (2 * y_stride),
         sau := sau p + u_stride, sav := sav p + v_stride,
         da1 := da1 p + i32 (2 * bgra_stride), da2 := da2 p + i32 (2 * bgra_stride),
         a_col1 := a_col1 p + i32 (shl a_stride 1), a_col2 := a_col2 p + i32 (shl a_stride 1) \<rparr>"

text \<open>The two nested loops, for a way \<open>alpha\<close> of setting the alpha bytes.\<close>

definition quad_rows ::
  "(cursor \<Rightarrow> int buf \<Rightarrow> int buf option) \<Rightarrow> int \<Rightarrow> int \<Rightarrow> int buf \<Rightarrow> int buf \<Rightarrow> int buf
   \<Rightarrow> (cursor \<Rightarrow> cursor) \<Rightarrow> cursor \<Rightarrow> int buf \<Rightarrow> int buf option" where
  "quad_rows alpha width height y v u next p d = map_option fst
     (loopM (\<lambda>_ (d, p). do {
          (d, _) \<leftarrow> loopM (\<lambda>_ (d, p). do {
                      d \<leftarrow> quad_colors y v u p d;
                      d \<leftarrow> alpha p d;
                      Some (d, quad_advance p) }) 0 (nat (sar width 1)) (d, p);
          Some (d, next p) })
        0 (nat (sar height 1)) (d, p))"

definition frame_start :: "int \<Rightarrow> int \<Rightarrow> int \<Rightarrow> cursor" where
  "frame_start bgra_stride y_stride a_stride =
     \<lparr> say1 = 0, say2 = y_stride, sau = 0, sav = 0, da1 = 0, da2 = bgra_stride,
       a_col1 = 0, a_col2 = a_stride \<rparr>"

definition ColorConvert_YCbCr420p_to_BGRA32 ::
  "int buf \<Rightarrow> jint \<Rightarrow> jint \<Rightarrow> jint \<Rightarrow> int buf \<Rightarrow> int buf \<Rightarrow> int buf \<Rightarrow> int buf
   \<Rightarrow> jint \<Rightarrow> jint \<Rightarrow> jint \<Rightarrow> jint \<Rightarrow> (jint \<times> int buf) option" where
  "ColorConvert_YCbCr420p_to_BGRA32 bgra bgra_stride width height y v u a y_stride v_stride u_stride a_stride =
     (if bgra = None \<or> y = None \<or> u = None \<or> v = None then Some (1, bgra)
      else if width \<le> 0 \<or> height \<le> 0 then Some (1, bgra)
      else if (width OR height) AND 1 \<noteq> 0 then Some (1, bgra)
      else do {
        d \<leftarrow> quad_rows (quad_alpha a) width height y v u
               (rows_advance bgra_stride y_stride v_stride u_stride a_stride)
               (frame_start bgra_stride y_stride a_stride) bgra;
        Some (0, d) })"

definition ColorConvert_YCbCr420p_to_BGRA32_no_alpha ::
  "int buf \<Rightarrow> jint \<Rightarrow> jint \<Rightarrow> jint \<Rightarrow> int buf \<Rightarrow> int buf \<Rightarrow> int buf
   \<Rightarrow> jint \<Rightarrow> jint \<Rightarrow> jint \<Rightarrow> (jint \<times> int buf) option" where
  "ColorConvert_YCbCr420p_to_BGRA32_no_alpha bgra bgra_stride width height y v u y_stride v_stride u_stride =
     (if bgra = None \<or> y = None \<or> u = None \<or> v = None then Some (1, bgra)
      else if width \<le> 0 \<or> height \<le> 0 then Some (1, bgra)
      else if (width OR height) AND 1 \<noteq> 0 then Some (1, bgra)
      else do {
        d \<leftarrow> quad_rows quad_opaque width height y v u
               (rows_advance bgra_stride y_stride v_stride u_stride 0)
               (frame_start bgra_stride y_stride 0) bgra;
        Some (0, d) })"

definition ColorConvert_YCbCr420p_to_ARGB32 ::
  "int buf \<Rightarrow> jint \<Rightarrow> jint \<Rightarrow> jint \<Rightarrow> int buf \<Rightarrow> int buf \<Rightarrow> int buf \<Rightarrow> int buf
   \<Rightarrow> jint \<Rightarrow> jint \<Rightarrow> jint \<Rightarrow> jint \<Rightarrow> (jint \<times> int buf) option" where
  "ColorConvert_YCbCr420p_to_ARGB32 argb argb_stride width height y v u a y_stride v_stride u_stride a_stride =
     Some (1, argb)"

definition ColorConvert_YCbCr420p_to_ARGB32_no_alpha ::
  "int buf \<Rightarrow> jint \<Rightarrow> jint \<Rightarrow> jint \<Rightarrow> int buf \<Rightarrow> int buf \<Rightarrow> int buf
   \<Rightarrow> jint \<Rightarrow> jint \<Rightarrow> jint \<Rightarrow> (jint \<times> int buf) option" where
  "ColorConvert_YCbCr420p_to_ARGB32_no_alpha argb argb_stride width height y v u y_stride v_stride u_stride =
     Some (1, argb)"

section \<open>4:2:2 rows\<close>

text \<open>The luma and chroma bytes of a packed row are two and four bytes apart.\<close>

definition pair_colors :: "int buf \<Rightarrow> int buf \<Rightarrow> int buf \<Rightarrow> cursor \<Rightarrow> int buf \<Rightarrow> int buf option" where
  "pair_colors y v u p d = do {
     sf1 \<leftarrow> rd u (sau p);
     sf2 \<leftarrow> rd v (sav p);
     sf01 \<leftarrow> rd y (say1 p);
     sf03 \<leftarrow> rd y (say1 p + 2);
     rv \<leftarrow> rd (Some color_tRV) sf2;
     gu \<leftarrow> rd (Some color_tGU) sf1;
     gv \<leftarrow> rd (Some color_tGV) sf2;
     bu \<leftarrow> rd (Some color_tBU) sf1;
     let sfr = rv - 446;
     let sfg = gu - gv;
     let sfb = bu - 554;
     sf01 \<leftarrow> rd (Some color_tYY) sf01;
     sf03 \<leftarrow> rd (Some color_tYY) sf03;
     d \<leftarrow> TCLAMP_U8 (sf01 + sfr) d (da1 p + 2);
     d \<leftarrow> TCLAMP_U8 (sf01 + sfg) d (da1 p + 1);
     d \<leftarrow> SCLAMP_U8 (sf01 + sfb) d (da1 p);
     d \<leftarrow> TCLAMP_U8 (sf03 + sfr) d (da1 p + 6);
     d \<leftarrow> TCLAMP_U8 (sf03 + sfg) d (da1 p + 5);
     d \<leftarrow> SCLAMP_U8 (sf03 + sfb) d (da1 p + 4);
     d \<leftarrow> wr d (da1 p + 7) 0xff;
     wr d (da1 p + 3) 0xff }"

definition pair_advance :: "cursor \<Rightarrow> cursor" where
  "pair_advance p = p \<lparr> say1 := say1 p + 4, sau := sau p + 4, sav := sav p + 4, da1 := da1 p + 8 \<rparr>"

definition row_advance :: "int \<Rightarrow> int \<Rightarrow> int \<Rightarrow> cursor \<Rightarrow> cursor" where
  "row_advance bgra_stride y_stride uv_stride p =
     p \<lparr> say1 := say1 p + y_stride, sau := sau p + uv_stride, sav := sav p + uv_stride,
         da1 := da1 p + bgra_stride \<rparr>"

definition ColorConvert_YCbCr422p_to_BGRA32_no_alpha ::
  "int buf \<Rightarrow> jint \<Rightarrow> jint \<Rightarrow> jint \<Rightarrow> int buf \<Rightarrow> int buf \<Rightarrow> int buf
   \<Rightarrow> jint \<Rightarrow> jint \<Rightarrow> (jint \<times> int buf) option" where
  "ColorConvert_YCbCr422p_to_BGRA32_no_alpha bgra bgra_stride width height y v u y_stride uv_stride =
     (if bgra = None \<or> y = None \<or> u = None \<or> v = None then Some (1, bgra)
      else if width \<le> 0 \<or> height \<le> 0 then Some (1, bgra)
      else if width AND 1 \<noteq> 0 then Some (1, bgra)
      else do {
        (d, _) \<leftarrow> loopM (\<lambda>_ (d, p). do {
            (d, _) \<leftarrow> loopM (\<lambda>_ (d, p). do {
                        d \<leftarrow> pair_colors y v u p d;
                        Some (d, pair_advance p) }) 0 (nat (sar width 1)) (d, p);
            Some (d, row_advance bgra_stride y_stride uv_stride p) })
          0 (nat height) (bgra, frame_start 0 0 0);
        Some (0, d) })"

definition ColorConvert_YCbCr422p_to_ARGB32_no_alpha ::
  "int buf \<Rightarrow> jint \<Rightarrow> jint \<Rightarrow> jint \<Rightarrow> int buf \<Rightarrow> int buf \<Rightarrow> int buf
   \<Rightarrow> jint \<Rightarrow> jint \<Rightarrow> (jint \<times> int buf) option" where
  "ColorConvert_YCbCr422p_to_ARGB32_no_alpha argb argb_stride width height y v u y_stride uv_stride =
     Some (1, argb)"

section \<open>The conversion formula\<close>

definition sat8 :: "int \<Rightarrow> int" where
  "sat8 x = max 0 (min 255 x)"

text \<open>The tables hold twice the coefficient of a component, rounded; their sum is halved at the end.\<close>

definition twice :: "int \<Rightarrow> int \<Rightarrow> int" where
  "twice k x = (2 * k * x + 5000) div 10000"

definition green_u :: "int \<Rightarrow> int" where
  "green_u x = (2 * 1356352 - 2 * 3920 * x + 5000) div 10000"

definition bgra_byte :: "int \<Rightarrow> int \<Rightarrow> int \<Rightarrow> int \<Rightarrow> int \<Rightarrow> int" where
  "bgra_byte k y v u a =
     (if k = 0 then sat8 ((twice 11644 y + twice 20184 u - 554) div 2)
      else if k = 1 then sat8 ((twice 11644 y + green_u u - twice 8132 v) div 2)
      else if k = 2 then sat8 ((twice 11644 y + twice 15966 v - 446) div 2)
      else a)"

definition u8 :: "int \<Rightarrow> bool" where
  "u8 x \<longleftrightarrow> 0 \<le> x \<and> x < 256"

section \<open>Tables and clamps\<close>

fun tabulates :: "(int \<Rightarrow> int) \<Rightarrow> int \<Rightarrow> int list \<Rightarrow> bool" where
  "tabulates f a [] = True"
| "tabulates f a (x # xs) = (x = f a \<and> tabulates f (a + 1) xs)"

lemma color_tables:
  "tabulates (\<lambda>i. sat8 (i div 2)) (- 576) color_tClip \<and> length color_tClip = 1664"
  "tabulates (twice 11644) 0 color_tYY \<and> length color_tYY = 256"
  "tabulates (twice 15966) 0 color_tRV \<and> length color_tRV = 256"
  "tabulates green_u 0 color_tGU \<and> length color_tGU = 256"
  "tabulates (twice 8132) 0 color_tGV \<and> length color_tGV = 256"
  "tabulates (twice 20184) 0 color_tBU \<and> length color_tBU = 256"
  by (simp_all add: color_tClip_def color_tYY_def color_tRV_def color_tGU_def color_tGV_def color_tBU_def
      sat8_def twice_def green_u_def)

lemma rd_tabulates:
  assumes "tabulates f a xs \<and> length xs = n" "0 \<le> i" "i < int n"
  shows "rd (Some xs) i = Some (f (a + i))"
proof -
  have "xs ! k = f (a + int k)" if "tabulates f a xs" "k < length xs" for k
    using that by (induction xs arbitrary: a k) (auto simp: nth_Cons algebra_simps split: nat.splits)
  then show ?thesis using assms by simp
qed

lemma rd_tables:
  assumes "u8 x"
  shows "rd (Some color_tYY) x = Some (twice 11644 x)"
    "rd (Some color_tRV) x = Some (twice 15966 x)"
    "rd (Some color_tGU) x = Some (green_u x)"
    "rd (Some color_tGV) x = Some (twice 8132 x)"
    "rd (Some color_tBU) x = Some (twice 20184 x)"
  using color_tables(2-) [THEN rd_tabulates, of x] assms by (simp_all add: u8_def)

lemma TCLAMP_U8_eq:
  "- 576 \<le> x \<Longrightarrow> x \<le> 1087 \<Longrightarrow> TCLAMP_U8 x d i = wr d i (sat8 (x div 2))"
  using rd_tabulates [OF color_tables(1), of "576 + x"] by (simp add: TCLAMP_U8_def)

lemma sclamp_eq:
  assumes "- 1000000 \<le> x" "x \<le> 1000000"
  shows "sclamp x = sat8 (x div 2)"
proof -
  have x: "i32 x = x" "i32 (x - 510) = x - 510" using assms by (simp_all add: i32_id)
  consider "x < 0" | "0 \<le> x" "x < 510" | "510 \<le> x" by linarith
  then show ?thesis
  proof cases
    case 1
    then have "sar x 31 = - 1" using assms by (simp add: sar_def div_eq_minus1)
    then show ?thesis using 1 by (simp add: sclamp_def x sat8_def)
  next
    case 2
    then have "sar (x - 510) 31 = - 1" "sar x 31 = 0" using assms by (simp_all add: sar_def div_eq_minus1)
    then show ?thesis using 2 by (simp add: sclamp_def x sat8_def)
  next
    case 3
    then have "sar (x - 510) 31 = 0" "sar x 31 = 0" using assms by (simp_all add: sar_def)
    then show ?thesis using 3 by (simp add: sclamp_def x sat8_def)
  qed
qed

lemma twice_range: "u8 x \<Longrightarrow> 0 \<le> k \<Longrightarrow> 0 \<le> twice k x \<and> twice k x \<le> (510 * k + 5000) div 10000"
  unfolding twice_def u8_def
  by (auto intro!: zdiv_mono1 pos_imp_zdiv_nonneg_iff [THEN iffD2] simp: mult.commute [of k] mult_right_mono
      mult.assoc [symmetric])

lemma gu_range: "u8 x \<Longrightarrow> 71 \<le> green_u x \<and> green_u x \<le> 271"
  using zdiv_mono1 [of "718504" "2712704 - 7840 * x + 5000" 10000] zdiv_mono1 [of "2712704 - 7840 * x + 5000" "2717704" 10000]
  by (auto simp: u8_def green_u_def)

text \<open>The sums the loops clamp stay within the saturation table.\<close>

lemma channel_range:
  assumes "u8 y" "u8 v" "u8 u"
  shows "- 576 \<le> twice 11644 y + (twice 15966 v - 446)" "twice 11644 y + (twice 15966 v - 446) \<le> 1087"
    "- 576 \<le> twice 11644 y + (green_u u - twice 8132 v)"
    "twice 11644 y + (green_u u - twice 8132 v) \<le> 1087"
    "- 576 \<le> twice 11644 y + (twice 20184 u - 554)" "twice 11644 y + (twice 20184 u - 554) \<le> 1087"
  using twice_range [OF assms(1), of 11644] twice_range [OF assms(2), of 15966]
    twice_range [OF assms(2), of 8132] twice_range [OF assms(3), of 20184] twice_range [OF assms(3), of 3920]
    gu_range [OF assms(3)]
  by simp_all

lemma channel_clamps:
  assumes "u8 y" "u8 v" "u8 u"
  shows "TCLAMP_U8 (twice 11644 y + (twice 15966 v - 446)) d i = wr d i (bgra_byte 2 y v u a)"
    "TCLAMP_U8 (twice 11644 y + (green_u u - twice 8132 v)) d i
       = wr d i (bgra_byte 1 y v u a)"
    "SCLAMP_U8 (twice 11644 y + (green_u u - twice 8132 v)) d i
       = wr d i (bgra_byte 1 y v u a)"
    "TCLAMP_U8 (twice 11644 y + (twice 20184 u - 554)) d i = wr d i (bgra_byte 0 y v u a)"
    "SCLAMP_U8 (twice 11644 y + (twice 20184 u - 554)) d i = wr d i (bgra_byte 0 y v u a)"
  using channel_range [OF assms]
  by (simp_all add: TCLAMP_U8_eq SCLAMP_U8_def sclamp_eq bgra_byte_def algebra_simps)

section \<open>Painting a set of cells\<close>

text \<open>\<open>ys\<close> is \<open>xs\<close> with the cells at the addresses in \<open>D\<close> replaced by their values under \<open>g\<close>.\<close>

definition inked :: "int set \<Rightarrow> (int \<Rightarrow> 'a) \<Rightarrow> 'a list \<Rightarrow> 'a list \<Rightarrow> bool" where
  "inked D g xs ys \<longleftrightarrow>
     length ys = length xs \<and> (\<forall>i<length xs. ys ! i = (if int i \<in> D then g (int i) else xs ! i))"

lemma inked_empty: "inked {} g xs xs"
  by (simp add: inked_def)

lemma inked_cong: "inked D g xs ys \<Longrightarrow> D = E \<Longrightarrow> inked E g xs ys"
  by simp

lemma inked_wr:
  assumes "inked D g xs ys" "0 \<le> a" "a < int (length xs)"
  shows "wr (Some ys) a (g a) = Some (Some (ys[nat a := g a]))"
    "inked (insert a D) g xs (ys[nat a := g a])"
  using assms by (auto simp: inked_def nth_list_update)

text \<open>One write at a time, through a sequence of writes.\<close>

definition inks :: "int set \<Rightarrow> (int \<Rightarrow> 'a) \<Rightarrow> 'a list \<Rightarrow> 'a buf option \<Rightarrow> bool" where
  "inks D g xs r \<longleftrightarrow> (\<exists>zs. r = Some (Some zs) \<and> inked D g xs zs)"

lemma inks_bind:
  "inks D g xs r \<Longrightarrow> (\<And>zs. inked D g xs zs \<Longrightarrow> inks E g xs (k (Some zs))) \<Longrightarrow>
     inks E g xs (Option.bind r k)"
  by (auto simp: inks_def)

lemma inks_wr_bind:
  "inked D g xs ys \<Longrightarrow> 0 \<le> a \<and> a < int (length xs) \<Longrightarrow> v = g a \<Longrightarrow>
     (\<And>zs. inked (insert a D) g xs zs \<Longrightarrow> inks E g xs (k (Some zs))) \<Longrightarrow>
     inks E g xs (Option.bind (wr (Some ys) a v) k)"
  using inked_wr [of D g xs ys a] by (auto simp: inks_def)

lemma inks_wr:
  "inked D g xs ys \<Longrightarrow> 0 \<le> a \<and> a < int (length xs) \<Longrightarrow> v = g a \<Longrightarrow>
     inks (insert a D) g xs (wr (Some ys) a v)"
  using inked_wr [of D g xs ys a] by (auto simp: inks_def)

lemma inks_rect:
  assumes "inks {a. in_rect 0 stride w h a} (\<lambda>a. g (a div stride) (a mod stride)) xs r"
  shows "r = Some (Some (upd_rect 0 stride w h (\<lambda>j c _. g j c) xs))"
proof -
  obtain zs where zs: "r = Some (Some zs)"
    "inked {a. in_rect 0 stride w h a} (\<lambda>a. g (a div stride) (a mod stride)) xs zs"
    using assms unfolding inks_def by blast
  have "zs = upd_rect 0 stride w h (\<lambda>j c _. g j c) xs"
    by (rule nth_equalityI) (use zs(2) in \<open>auto simp: inked_def\<close>)
  then show ?thesis using zs(1) by simp
qed

lemma in_rect_row:
  assumes "0 \<le> h" "w \<le> stride" "0 < stride"
  shows "in_rect 0 stride w (h + 1) a \<longleftrightarrow>
     in_rect 0 stride w h a \<or> (h * stride \<le> a \<and> a < h * stride + w)"
proof -
  have "(\<exists>j c. 0 \<le> j \<and> j < h + 1 \<and> 0 \<le> c \<and> c < w \<and> a = 0 + j * stride + c) \<longleftrightarrow>
      (\<exists>j c. 0 \<le> j \<and> j < h \<and> 0 \<le> c \<and> c < w \<and> a = 0 + j * stride + c) \<or>
      (\<exists>c. 0 \<le> c \<and> c < w \<and> a = 0 + h * stride + c)"
    using assms(1) zless_add1_eq by blast
  moreover have "(\<exists>c. 0 \<le> c \<and> c < w \<and> a = 0 + h * stride + c) \<longleftrightarrow> h * stride \<le> a \<and> a < h * stride + w"
    by (auto intro: exI [of _ "a - h * stride"])
  ultimately show ?thesis using in_rect_iff [OF assms(2,3)] by blast
qed

lemma rect_rows:
  assumes "0 \<le> h" "w \<le> stride" "0 < stride"
  shows "{a. in_rect 0 stride w (h + 1) a} = {a. in_rect 0 stride w h a} \<union> {h * stride ..< h * stride + w}"
  by (rule set_eqI) (use in_rect_row [OF assms] in simp)

text \<open>The bytes of two pixels, in the order of a destination row.\<close>

definition pair_at :: "int \<Rightarrow> int set" where
  "pair_at a = {a, a + 1, a + 2, a + 3, a + 4, a + 5, a + 6, a + 7}"

lemma interval_pair: "0 \<le> i \<Longrightarrow> {a..<a + 8 * i} \<union> pair_at (a + 8 * i) = {a..<a + 8 * (i + 1)}"
  unfolding pair_at_def by auto

section \<open>Planes\<close>

definition plane_fits :: "int list \<Rightarrow> int \<Rightarrow> int \<Rightarrow> int \<Rightarrow> bool" where
  "plane_fits xs stride w h \<longleftrightarrow> w \<le> stride \<and> stride < 1073741824 \<and> (h - 1) * stride + w \<le> int (length xs)"

lemma plane_fits_in:
  assumes "plane_fits xs stride w h" "0 \<le> r" "r < h" "0 \<le> c" "c < w"
  shows "0 \<le> r * stride + c" "r * stride + c < int (length xs)"
proof -
  have "0 < stride" using assms by (simp add: plane_fits_def)
  then have "0 \<le> r * stride" "r * stride \<le> (h - 1) * stride" using assms by (simp_all add: mult_right_mono)
  then show "0 \<le> r * stride + c" "r * stride + c < int (length xs)" using assms unfolding plane_fits_def by linarith+
qed

lemma rd_plane:
  assumes "plane_fits xs stride w h" "0 \<le> r" "r < h" "0 \<le> c" "c < w"
  shows "rd (Some xs) (r * stride + c) = Some (xs ! nat (r * stride + c))"
  using plane_fits_in [OF assms] by simp

lemma u8_plane:
  assumes "plane_fits xs stride w h" "\<forall>b\<in>set xs. u8 b" "0 \<le> r" "r < h" "0 \<le> c" "c < w"
  shows "u8 (xs ! nat (r * stride + c))"
  using plane_fits_in [OF assms(1,3-)] assms(2) by (simp add: nth_mem)

text \<open>The colours of four pixels that share their chroma.\<close>

lemma quad_colors_inks:
  assumes P: "inked D g xs ds"
    and R: "rd u (sau p) = Some U" "rd v (sav p) = Some V"
      "rd y (say1 p) = Some Y1" "rd y (say1 p + 1) = Some Y3" "rd y (say2 p) = Some Y2" "rd y (say2 p + 1) = Some Y4"
    and B: "u8 U" "u8 V" "u8 Y1" "u8 Y2" "u8 Y3" "u8 Y4"
    and A: "0 \<le> da1 p" "da1 p + 7 < int (length xs)" "0 \<le> da2 p" "da2 p + 7 < int (length xs)"
    and G: "\<And>k. 0 \<le> k \<Longrightarrow> k < 3 \<Longrightarrow> g (da1 p + k) = bgra_byte k Y1 V U 0"
      "\<And>k. 0 \<le> k \<Longrightarrow> k < 3 \<Longrightarrow> g (da1 p + (4 + k)) = bgra_byte k Y3 V U 0"
      "\<And>k. 0 \<le> k \<Longrightarrow> k < 3 \<Longrightarrow> g (da2 p + k) = bgra_byte k Y2 V U 0"
      "\<And>k. 0 \<le> k \<Longrightarrow> k < 3 \<Longrightarrow> g (da2 p + (4 + k)) = bgra_byte k Y4 V U 0"
  shows "inks (D \<union> (pair_at (da1 p) - {da1 p + 3, da1 p + 7}) \<union> (pair_at (da2 p) - {da2 p + 3, da2 p + 7}))
    g xs (quad_colors y v u p (Some ds))"
proof -
  note cl = channel_clamps [OF _ B(2,1), where a = 0]
  have g: "g (da1 p) = bgra_byte 0 Y1 V U 0" "g (da2 p) = bgra_byte 0 Y2 V U 0"
    using G(1,3) [of 0] by simp_all
  note gs = g G(1,3) [of 1] G(1,3) [of 2] G(2,4) [of 0] G(2,4) [of 1] G(2,4) [of 2]
  have set: "insert (da2 p + 4) (insert (da2 p + 5) (insert (da2 p + 6) (insert (da2 p) (insert (da2 p + 1)
      (insert (da2 p + 2) (insert (da1 p + 4) (insert (da1 p + 5) (insert (da1 p + 6) (insert (da1 p)
      (insert (da1 p + 1) (insert (da1 p + 2) D)))))))))))
    = D \<union> (pair_at (da1 p) - {da1 p + 3, da1 p + 7}) \<union> (pair_at (da2 p) - {da2 p + 3, da2 p + 7})"
    unfolding pair_at_def by auto
  show ?thesis
    unfolding quad_colors_def set [symmetric] using P
    by (simp add: R rd_tables B cl Let_def del: rd.simps wr.simps)
      ((erule inks_wr_bind, use A in simp, use gs in simp)+, erule inks_wr, use A in simp, use gs in simp)
qed

section \<open>Exactness of the 4:2:0 conversions\<close>

text \<open>The frame as a function of the destination address.\<close>

definition frame420 ::
  "(int \<Rightarrow> int) \<Rightarrow> int list \<Rightarrow> int list \<Rightarrow> int list \<Rightarrow> int \<Rightarrow> int \<Rightarrow> int \<Rightarrow> int \<Rightarrow> int \<Rightarrow> int \<Rightarrow> int" where
  "frame420 aval ys vs us y_stride v_stride u_stride a_stride r c =
     bgra_byte (c mod 4) (ys ! nat (r * y_stride + c div 4))
       (vs ! nat (r div 2 * v_stride + c div 8)) (us ! nat (r div 2 * u_stride + c div 8))
       (aval (r * a_stride + c div 4))"

text \<open>
  What the loops need of the code that sets the alpha bytes: where the alpha plane is available,
  it writes the plane's values into the four alpha bytes of a quad and nothing else.
\<close>

locale alpha_setter =
  fixes alpha :: "cursor \<Rightarrow> int buf \<Rightarrow> int buf option"
    and avail :: "int \<Rightarrow> bool"
    and aval :: "int \<Rightarrow> int"
  assumes alpha_inks:
    "inked D g xs ds \<Longrightarrow> 0 \<le> da1 p \<Longrightarrow> da1 p + 7 < int (length xs) \<Longrightarrow>
     0 \<le> da2 p \<Longrightarrow> da2 p + 7 < int (length xs) \<Longrightarrow>
     avail (a_col1 p) \<and> avail (a_col1 p + 1) \<and> avail (a_col2 p) \<and> avail (a_col2 p + 1) \<Longrightarrow>
     g (da1 p + 3) = aval (a_col1 p) \<and> g (da1 p + 7) = aval (a_col1 p + 1) \<Longrightarrow>
     g (da2 p + 3) = aval (a_col2 p) \<and> g (da2 p + 7) = aval (a_col2 p + 1) \<Longrightarrow>
     inks (D \<union> {da1 p + 3, da1 p + 7, da2 p + 3, da2 p + 7}) g xs (alpha p (Some ds))"
begin

lemma quad_inks:
  assumes P: "inked D g xs ds"
    and R: "rd u (sau p) = Some U" "rd v (sav p) = Some V"
      "rd y (say1 p) = Some Y1" "rd y (say1 p + 1) = Some Y3" "rd y (say2 p) = Some Y2" "rd y (say2 p + 1) = Some Y4"
    and B: "u8 U" "u8 V" "u8 Y1" "u8 Y2" "u8 Y3" "u8 Y4"
    and A: "0 \<le> da1 p" "da1 p + 7 < int (length xs)" "0 \<le> da2 p" "da2 p + 7 < int (length xs)"
    and av: "avail (a_col1 p)" "avail (a_col1 p + 1)" "avail (a_col2 p)" "avail (a_col2 p + 1)"
    and G1: "\<And>k. 0 \<le> k \<Longrightarrow> k < 4 \<Longrightarrow> g (da1 p + k) = bgra_byte k Y1 V U (aval (a_col1 p))"
    and G3: "\<And>k. 0 \<le> k \<Longrightarrow> k < 4 \<Longrightarrow> g (da1 p + (4 + k)) = bgra_byte k Y3 V U (aval (a_col1 p + 1))"
    and G2: "\<And>k. 0 \<le> k \<Longrightarrow> k < 4 \<Longrightarrow> g (da2 p + k) = bgra_byte k Y2 V U (aval (a_col2 p))"
    and G4: "\<And>k. 0 \<le> k \<Longrightarrow> k < 4 \<Longrightarrow> g (da2 p + (4 + k)) = bgra_byte k Y4 V U (aval (a_col2 p + 1))"
  shows "inks (D \<union> pair_at (da1 p) \<union> pair_at (da2 p)) g xs
    (do { d \<leftarrow> quad_colors y v u p (Some ds); alpha p d })"
proof -
  have drop: "bgra_byte k Y V U (aval i) = bgra_byte k Y V U 0" if "0 \<le> k" "k < 3" for k Y i
    using that by (auto simp: bgra_byte_def)
  let ?E = "D \<union> (pair_at (da1 p) - {da1 p + 3, da1 p + 7}) \<union> (pair_at (da2 p) - {da2 p + 3, da2 p + 7})"
  have "inks ?E g xs (quad_colors y v u p (Some ds))"
    by (rule quad_colors_inks [OF P R B A]) (use G1 G2 G3 G4 drop in simp_all)
  moreover have "inks (D \<union> pair_at (da1 p) \<union> pair_at (da2 p)) g xs (alpha p (Some zs))"
    if "inked ?E g xs zs" for zs
  proof -
    have "a + 3 \<in> pair_at a" "a + 7 \<in> pair_at a" for a by (simp_all add: pair_at_def)
    then have "D \<union> pair_at (da1 p) \<union> pair_at (da2 p) = ?E \<union> {da1 p + 3, da1 p + 7, da2 p + 3, da2 p + 7}"
      by blast
    moreover have "g (da1 p + 3) = aval (a_col1 p)" "g (da1 p + 7) = aval (a_col1 p + 1)"
      "g (da2 p + 3) = aval (a_col2 p)" "g (da2 p + 7) = aval (a_col2 p + 1)"
      using G1 [of 3] G3 [of 3] G2 [of 3] G4 [of 3] by (simp_all add: bgra_byte_def)
    ultimately show ?thesis using alpha_inks [OF that A] av by simp
  qed
  ultimately show ?thesis by (rule inks_bind)
qed

end

interpretation opaque: alpha_setter quad_opaque "\<lambda>_. True" "\<lambda>_. 255"
proof (unfold_locales, goal_cases)
  case (1 D g xs ds p)
  have "D \<union> {da1 p + 3, da1 p + 7, da2 p + 3, da2 p + 7}
      = insert (da1 p + 3) (insert (da1 p + 7) (insert (da2 p + 3) (insert (da2 p + 7) D)))" by auto
  with 1 show ?case
    unfolding quad_opaque_def
    by (simp del: wr.simps) ((erule inks_wr_bind, simp, simp)+, erule inks_wr, simp, simp)
qed

interpretation plane: alpha_setter "quad_alpha (Some as)" "\<lambda>i. 0 \<le> i \<and> i < int (length as)" "\<lambda>i. as ! nat i"
  for as
proof (unfold_locales, goal_cases)
  case (1 D g xs ds p)
  have "D \<union> {da1 p + 3, da1 p + 7, da2 p + 3, da2 p + 7}
      = insert (da2 p + 7) (insert (da2 p + 3) (insert (da1 p + 7) (insert (da1 p + 3) D)))" by auto
  with 1 show ?case
    unfolding quad_alpha_def
    by (simp del: wr.simps) ((erule inks_wr_bind, simp, simp)+, erule inks_wr, simp, simp)
qed

text \<open>The pointers at quad \<open>i\<close> of row pair \<open>j\<close>.\<close>

definition quad_at :: "int \<Rightarrow> int \<Rightarrow> int \<Rightarrow> int \<Rightarrow> int \<Rightarrow> int \<Rightarrow> int \<Rightarrow> cursor" where
  "quad_at bs yst vst ust ast j i =
     \<lparr> say1 = 2 * j * yst + 2 * i, say2 = (2 * j + 1) * yst + 2 * i, sau = j * ust + i, sav = j * vst + i,
       da1 = 2 * j * bs + 8 * i, da2 = (2 * j + 1) * bs + 8 * i,
       a_col1 = 2 * j * ast + 2 * i, a_col2 = (2 * j + 1) * ast + 2 * i \<rparr>"

definition short_stride :: "int \<Rightarrow> bool" where
  "short_stride s \<longleftrightarrow> - 1073741824 \<le> s \<and> s < 1073741824"

lemma quad_at_steps:
  "quad_advance (quad_at bs yst vst ust ast j i) = quad_at bs yst vst ust ast j (i + 1)"
  "short_stride bs \<Longrightarrow> short_stride yst \<Longrightarrow> short_stride ast \<Longrightarrow>
     rows_advance bs yst vst ust ast (quad_at bs yst vst ust ast j 0) = quad_at bs yst vst ust ast (j + 1) 0"
  "frame_start bs yst ast = quad_at bs yst vst ust ast 0 0"
  by (simp_all add: quad_advance_def rows_advance_def frame_start_def quad_at_def short_stride_def shl_def
      i32_id algebra_simps)

lemma pair_index:
  fixes i k :: int
  assumes "0 \<le> k" "k < 8"
  shows "(8 * i + k) mod 4 = k mod 4" "(8 * i + k) div 4 = 2 * i + k div 4" "(8 * i + k) div 8 = i"
  using mod_mult_self1 [of k "2 * i" 4] div_mult_self1 [of 4 k "2 * i"] div_mult_self1 [of 8 k i] assms
  by (simp_all add: add.commute)

lemma frame420_at:
  assumes "0 \<le> i" "0 \<le> k" "k < 8" "8 * i + k < bs"
  shows "frame420 aval ys vs us yst vst ust ast ((r * bs + (8 * i + k)) div bs) ((r * bs + (8 * i + k)) mod bs)
    = bgra_byte (k mod 4) (ys ! nat (r * yst + (2 * i + k div 4))) (vs ! nat (r div 2 * vst + i))
        (us ! nat (r div 2 * ust + i)) (aval (r * ast + (2 * i + k div 4)))"
proof -
  have "(r * bs + (8 * i + k)) div bs = r" "(r * bs + (8 * i + k)) mod bs = 8 * i + k"
    using rect_index [of "8 * i + k" "8 * i + k + 1" bs 0 r] assms by simp_all
  then show ?thesis by (simp add: frame420_def pair_index [OF assms(2,3)])
qed

lemma frame420_pixel:
  assumes "0 \<le> i" "0 \<le> k" "k < 4" "8 * i + 8 \<le> bs"
    and g: "g = (\<lambda>a. frame420 aval ys vs us yst vst ust ast (a div bs) (a mod bs))"
  shows "g (r * bs + 8 * i + k) = bgra_byte k (ys ! nat (r * yst + 2 * i)) (vs ! nat (r div 2 * vst + i))
        (us ! nat (r div 2 * ust + i)) (aval (r * ast + 2 * i))"
    "g (r * bs + 8 * i + (4 + k)) = bgra_byte k (ys ! nat (r * yst + 2 * i + 1)) (vs ! nat (r div 2 * vst + i))
        (us ! nat (r div 2 * ust + i)) (aval (r * ast + 2 * i + 1))"
proof -
  have k: "(4 + k) div 4 = 1" "(4 + k) mod 4 = k" "k div 4 = 0" "k mod 4 = k" using assms by simp_all
  show "g (r * bs + 8 * i + k) = bgra_byte k (ys ! nat (r * yst + 2 * i)) (vs ! nat (r div 2 * vst + i))
        (us ! nat (r div 2 * ust + i)) (aval (r * ast + 2 * i))"
    "g (r * bs + 8 * i + (4 + k)) = bgra_byte k (ys ! nat (r * yst + 2 * i + 1)) (vs ! nat (r div 2 * vst + i))
        (us ! nat (r div 2 * ust + i)) (aval (r * ast + 2 * i + 1))"
    using frame420_at [of i k bs aval ys vs us yst vst ust ast r]
      frame420_at [of i "4 + k" bs aval ys vs us yst vst ust ast r] assms(1-4)
    unfolding g add.assoc k by simp_all
qed

context alpha_setter
begin

lemma quad_round:
  assumes fit: "plane_fits xs bs (8 * w) (2 * h)" "plane_fits ys yst (2 * w) (2 * h)"
      "plane_fits vs vst w h" "plane_fits us ust w h"
    and bytes: "\<forall>b\<in>set ys. u8 b" "\<forall>b\<in>set vs. u8 b" "\<forall>b\<in>set us. u8 b"
    and av: "\<And>r c. 0 \<le> r \<Longrightarrow> r < 2 * h \<Longrightarrow> 0 \<le> c \<Longrightarrow> c < 2 * w \<Longrightarrow> avail (r * ast + c)"
    and ji: "0 \<le> j" "j < h" "0 \<le> i" "i < w"
    and P: "inked D (\<lambda>a. frame420 aval ys vs us yst vst ust ast (a div bs) (a mod bs)) xs ds"
  shows "inks (D \<union> pair_at (2 * j * bs + 8 * i) \<union> pair_at ((2 * j + 1) * bs + 8 * i))
    (\<lambda>a. frame420 aval ys vs us yst vst ust ast (a div bs) (a mod bs)) xs
    (do { d \<leftarrow> quad_colors (Some ys) (Some vs) (Some us) (quad_at bs yst vst ust ast j i) (Some ds);
          alpha (quad_at bs yst vst ust ast j i) d })"
proof -
  let ?p = "quad_at bs yst vst ust ast j i"
  have sel: "sau ?p = j * ust + i" "sav ?p = j * vst + i" "say1 ?p = 2 * j * yst + 2 * i"
    "say2 ?p = (2 * j + 1) * yst + 2 * i" "da1 ?p = 2 * j * bs + 8 * i" "da2 ?p = (2 * j + 1) * bs + 8 * i"
    "a_col1 ?p = 2 * j * ast + 2 * i" "a_col2 ?p = (2 * j + 1) * ast + 2 * i"
    by (simp_all add: quad_at_def)
  have half: "2 * j div 2 = j" "(2 * j + 1) div 2 = j" by simp_all
  have bs: "8 * i + 8 \<le> bs" using fit(1) ji by (simp add: plane_fits_def)
  have y: "rd (Some ys) (r * yst + 2 * i) = Some (ys ! nat (r * yst + 2 * i))"
    "rd (Some ys) (r * yst + 2 * i + 1) = Some (ys ! nat (r * yst + 2 * i + 1))"
    "u8 (ys ! nat (r * yst + 2 * i))" "u8 (ys ! nat (r * yst + 2 * i + 1))" if "0 \<le> r" "r < 2 * h" for r
    using rd_plane [OF fit(2) that, of "2 * i"] rd_plane [OF fit(2) that, of "2 * i + 1"]
      u8_plane [OF fit(2) bytes(1) that, of "2 * i"] u8_plane [OF fit(2) bytes(1) that, of "2 * i + 1"] ji
    by (simp_all add: add.assoc del: rd.simps)
  have d: "0 \<le> r * bs + 8 * i" "r * bs + 8 * i + 7 < int (length xs)" if "0 \<le> r" "r < 2 * h" for r
    using plane_fits_in [OF fit(1) that, of "8 * i"] plane_fits_in [OF fit(1) that, of "8 * i + 7"] ji
    by (simp_all add: add.assoc)
  have a: "avail (r * ast + 2 * i)" "avail (r * ast + 2 * i + 1)" if "0 \<le> r" "r < 2 * h" for r
    using av [OF that, of "2 * i"] av [OF that, of "2 * i + 1"] ji by (simp_all add: add.assoc)
  note px = frame420_pixel [OF ji(3) _ _ bs refl, of _ aval ys vs us yst vst ust ast]
  have r: "0 \<le> 2 * j" "2 * j < 2 * h" "0 \<le> 2 * j + 1" "2 * j + 1 < 2 * h" using ji by simp_all
  show ?thesis
    using quad_inks [OF P, where p = ?p, unfolded sel,
      OF rd_plane [OF fit(4) ji] rd_plane [OF fit(3) ji] y(1,2) [OF r(1,2)] y(1,2) [OF r(3,4)]
        u8_plane [OF fit(4) bytes(3) ji] u8_plane [OF fit(3) bytes(2) ji]
        y(3) [OF r(1,2)] y(3) [OF r(3,4)] y(4) [OF r(1,2)] y(4) [OF r(3,4)]
        d [OF r(1,2)] d [OF r(3,4)] a [OF r(1,2)] a [OF r(3,4)]]
      px(1) [of _ "2 * j", unfolded half] px(2) [of _ "2 * j", unfolded half]
      px(1) [of _ "2 * j + 1", unfolded half] px(2) [of _ "2 * j + 1", unfolded half]
    by blast
qed

lemma quad_row:
  assumes fit: "plane_fits xs bs (8 * w) (2 * h)" "plane_fits ys yst (2 * w) (2 * h)"
      "plane_fits vs vst w h" "plane_fits us ust w h"
    and bytes: "\<forall>b\<in>set ys. u8 b" "\<forall>b\<in>set vs. u8 b" "\<forall>b\<in>set us. u8 b"
    and av: "\<And>r c. 0 \<le> r \<Longrightarrow> r < 2 * h \<Longrightarrow> 0 \<le> c \<Longrightarrow> c < 2 * w \<Longrightarrow> avail (r * ast + c)"
    and j: "0 \<le> j" "j < h" "0 < w"
    and P: "inked {a. in_rect 0 bs (8 * w) (2 * j) a}
      (\<lambda>a. frame420 aval ys vs us yst vst ust ast (a div bs) (a mod bs)) xs ds"
  shows "\<exists>zs q. loopM (\<lambda>_ (d, p). do {
        d \<leftarrow> quad_colors (Some ys) (Some vs) (Some us) p d;
        d \<leftarrow> alpha p d;
        Some (d, quad_advance p) }) 0 (nat w) (Some ds, quad_at bs yst vst ust ast j 0) = Some (Some zs, q) \<and>
      inked {a. in_rect 0 bs (8 * w) (2 * (j + 1)) a}
        (\<lambda>a. frame420 aval ys vs us yst vst ust ast (a div bs) (a mod bs)) xs zs"
proof -
  let ?g = "\<lambda>a. frame420 aval ys vs us yst vst ust ast (a div bs) (a mod bs)"
  let ?D = "\<lambda>i. {a. in_rect 0 bs (8 * w) (2 * j) a} \<union> {2 * j * bs ..< 2 * j * bs + 8 * i} \<union>
    {(2 * j + 1) * bs ..< (2 * j + 1) * bs + 8 * i}"
  let ?I = "\<lambda>i s. 0 \<le> i \<and> (\<exists>zs. s = (Some zs, quad_at bs yst vst ust ast j i) \<and> inked (?D i) ?g xs zs)"
  have D: "?D i \<union> pair_at (2 * j * bs + 8 * i) \<union> pair_at ((2 * j + 1) * bs + 8 * i) = ?D (i + 1)" if "0 \<le> i" for i
    using interval_pair [OF that, of "2 * j * bs"] interval_pair [OF that, of "(2 * j + 1) * bs"] by blast
  have "\<exists>s'. loopM (\<lambda>_ (d, p). do {
        d \<leftarrow> quad_colors (Some ys) (Some vs) (Some us) p d;
        d \<leftarrow> alpha p d;
        Some (d, quad_advance p) }) 0 (nat w) (Some ds, quad_at bs yst vst ust ast j 0) = Some s' \<and> ?I (0 + int (nat w)) s'"
  proof (rule loopM_inv [where I = ?I])
    fix i s assume i: "0 \<le> i" "i < 0 + int (nat w)" and "?I i s"
    then obtain zs where s: "s = (Some zs, quad_at bs yst vst ust ast j i)" "inked (?D i) ?g xs zs" by blast
    have iw: "i < w" using i j by simp
    obtain us' where "do { d \<leftarrow> quad_colors (Some ys) (Some vs) (Some us) (quad_at bs yst vst ust ast j i) (Some zs);
          alpha (quad_at bs yst vst ust ast j i) d } = Some (Some us')" "inked (?D (i + 1)) ?g xs us'"
      using quad_round [OF fit bytes av j(1,2) i(1) iw s(2)] unfolding D [OF i(1)] inks_def by blast
    then show "\<exists>s'. (case s of (d, p) \<Rightarrow> do {
        d \<leftarrow> quad_colors (Some ys) (Some vs) (Some us) p d;
        d \<leftarrow> alpha p d;
        Some (d, quad_advance p) }) = Some s' \<and> ?I (i + 1) s'"
      using i by (auto simp: s(1) quad_at_steps(1) split: bind_splits)
  qed (use P in simp)
  moreover have "?D w = {a. in_rect 0 bs (8 * w) (2 * (j + 1)) a}"
  proof -
    have bs: "8 * w \<le> bs" "0 < bs" using fit(1) j by (simp_all add: plane_fits_def)
    have two: "2 * (j + 1) = 2 * j + 1 + 1" by simp
    have "0 \<le> 2 * j" "0 \<le> 2 * j + 1" using j(1) by simp_all
    then show ?thesis unfolding two by (simp only: rect_rows [OF _ bs])
  qed
  ultimately show ?thesis using j by auto
qed

lemma quad_rows_exact:
  assumes fit: "plane_fits xs bs (8 * w) (2 * h)" "plane_fits ys yst (2 * w) (2 * h)"
      "plane_fits vs vst w h" "plane_fits us ust w h"
    and bytes: "\<forall>b\<in>set ys. u8 b" "\<forall>b\<in>set vs. u8 b" "\<forall>b\<in>set us. u8 b"
    and av: "\<And>r c. 0 \<le> r \<Longrightarrow> r < 2 * h \<Longrightarrow> 0 \<le> c \<Longrightarrow> c < 2 * w \<Longrightarrow> avail (r * ast + c)"
    and wh: "0 < w" "0 < h" and ast: "short_stride ast"
  shows "quad_rows alpha (2 * w) (2 * h) (Some ys) (Some vs) (Some us) (rows_advance bs yst vst ust ast)
      (frame_start bs yst ast) (Some xs)
    = Some (Some (upd_rect 0 bs (8 * w) (2 * h) (\<lambda>r c _. frame420 aval ys vs us yst vst ust ast r c) xs))"
proof -
  let ?g = "\<lambda>a. frame420 aval ys vs us yst vst ust ast (a div bs) (a mod bs)"
  let ?I = "\<lambda>j s. 0 \<le> j \<and> (\<exists>zs. s = (Some zs, quad_at bs yst vst ust ast j 0) \<and>
    inked {a. in_rect 0 bs (8 * w) (2 * j) a} ?g xs zs)"
  let ?f = "\<lambda>_ (d, p). do {
          (d, _) \<leftarrow> loopM (\<lambda>_ (d, p). do {
                      d \<leftarrow> quad_colors (Some ys) (Some vs) (Some us) p d;
                      d \<leftarrow> alpha p d;
                      Some (d, quad_advance p) }) 0 (nat w) (d, p);
          Some (d, rows_advance bs yst vst ust ast p) }"
  have short: "short_stride bs" "short_stride yst" using fit wh by (auto simp: plane_fits_def short_stride_def)
  have "\<exists>s'. loopM ?f 0 (nat h) (Some xs, frame_start bs yst ast) = Some s' \<and> ?I (0 + int (nat h)) s'"
  proof (rule loopM_inv [where I = ?I])
    fix j s assume j: "0 \<le> j" "j < 0 + int (nat h)" and "?I j s"
    then obtain zs where s: "s = (Some zs, quad_at bs yst vst ust ast j 0)"
      "inked {a. in_rect 0 bs (8 * w) (2 * j) a} ?g xs zs" by blast
    have "j < h" using j wh by simp
    from quad_row [OF fit bytes av j(1) this wh(1) s(2)]
    show "\<exists>s'. ?f j s = Some s' \<and> ?I (j + 1) s'"
      using j by (auto simp: s(1) quad_at_steps(2) short ast)
  next
    have "0 < bs" using fit(1) wh by (simp add: plane_fits_def)
    then show "?I 0 (Some xs, frame_start bs yst ast)"
      by (simp add: quad_at_steps(3) [where vst = vst and ust = ust] in_rect_0 inked_empty)
  qed
  then have "inks {a. in_rect 0 bs (8 * w) (2 * h) a} ?g xs
    (quad_rows alpha (2 * w) (2 * h) (Some ys) (Some vs) (Some us) (rows_advance bs yst vst ust ast)
      (frame_start bs yst ast) (Some xs))"
    using wh by (auto simp: quad_rows_def inks_def sar_def)
  then show ?thesis by (rule inks_rect)
qed

end

text \<open>The two functions, with an alpha plane and without.\<close>

lemma even_or: "(x OR y) AND 1 = (0 :: int) \<longleftrightarrow> even x \<and> even y"
  by (simp add: and_one_eq mod_2_eq_odd even_or_iff)

lemma convert420_rejects:
  assumes "\<not> (bgra \<noteq> None \<and> y \<noteq> None \<and> v \<noteq> None \<and> u \<noteq> None \<and> 0 < width \<and> 0 < height \<and> even width \<and> even height)"
  shows "ColorConvert_YCbCr420p_to_BGRA32 bgra bs width height y v u a yst vst ust ast = Some (1, bgra)"
    "ColorConvert_YCbCr420p_to_BGRA32_no_alpha bgra bs width height y v u yst vst ust = Some (1, bgra)"
  using assms unfolding ColorConvert_YCbCr420p_to_BGRA32_def ColorConvert_YCbCr420p_to_BGRA32_no_alpha_def even_or
  by auto

lemma convert420_exact:
  assumes fit: "plane_fits xs bs (4 * width) height" "plane_fits ys yst width height"
      "plane_fits vs vst (width div 2) (height div 2)" "plane_fits us ust (width div 2) (height div 2)"
    and bytes: "\<forall>b\<in>set ys. u8 b" "\<forall>b\<in>set vs. u8 b" "\<forall>b\<in>set us. u8 b"
    and wh: "0 < width" "0 < height" "even width" "even height"
  shows "plane_fits as ast width height \<Longrightarrow>
      ColorConvert_YCbCr420p_to_BGRA32 (Some xs) bs width height (Some ys) (Some vs) (Some us) (Some as) yst vst ust ast
      = Some (0, Some (upd_rect 0 bs (4 * width) height
          (\<lambda>r c _. frame420 (\<lambda>i. as ! nat i) ys vs us yst vst ust ast r c) xs))"
    "ColorConvert_YCbCr420p_to_BGRA32_no_alpha (Some xs) bs width height (Some ys) (Some vs) (Some us) yst vst ust
      = Some (0, Some (upd_rect 0 bs (4 * width) height (\<lambda>r c _. frame420 (\<lambda>_. 255) ys vs us yst vst ust 0 r c) xs))"
proof -
  define w where "w = width div 2"
  define h where "h = height div 2"
  have w: "width = 2 * w" "0 < w" and h: "height = 2 * h" "0 < h" using wh by (auto simp: w_def h_def)
  have fit': "plane_fits xs bs (8 * w) (2 * h)" "plane_fits ys yst (2 * w) (2 * h)" "plane_fits vs vst w h"
    "plane_fits us ust w h"
    using fit w h by simp_all
  have run: "\<not> (width \<le> 0 \<or> height \<le> 0)" "(width OR height) AND 1 = 0" using wh by (auto simp: even_or)
  show "ColorConvert_YCbCr420p_to_BGRA32_no_alpha (Some xs) bs width height (Some ys) (Some vs) (Some us) yst vst ust
      = Some (0, Some (upd_rect 0 bs (4 * width) height (\<lambda>r c _. frame420 (\<lambda>_. 255) ys vs us yst vst ust 0 r c) xs))"
    using opaque.quad_rows_exact [OF fit' bytes _ w(2) h(2), of 0] run w h
    by (simp add: ColorConvert_YCbCr420p_to_BGRA32_no_alpha_def short_stride_def)
  assume a: "plane_fits as ast width height"
  then have "short_stride ast" using wh by (simp add: plane_fits_def short_stride_def)
  moreover have "0 \<le> r * ast + c \<and> r * ast + c < int (length as)"
    if "0 \<le> r" "r < 2 * h" "0 \<le> c" "c < 2 * w" for r c
    using plane_fits_in [OF a, of r c] that w h by simp
  ultimately show "ColorConvert_YCbCr420p_to_BGRA32 (Some xs) bs width height (Some ys) (Some vs) (Some us) (Some as) yst vst ust ast
      = Some (0, Some (upd_rect 0 bs (4 * width) height
          (\<lambda>r c _. frame420 (\<lambda>i. as ! nat i) ys vs us yst vst ust ast r c) xs))"
    using plane.quad_rows_exact [OF fit' bytes _ w(2) h(2), of ast as] run w h
    by (simp add: ColorConvert_YCbCr420p_to_BGRA32_def)
qed

section \<open>Exactness of the 4:2:2 conversion\<close>

definition frame422 :: "int list \<Rightarrow> int list \<Rightarrow> int list \<Rightarrow> int \<Rightarrow> int \<Rightarrow> int \<Rightarrow> int \<Rightarrow> int" where
  "frame422 ys vs us y_stride uv_stride r c =
     bgra_byte (c mod 4) (ys ! nat (r * y_stride + 2 * (c div 4)))
       (vs ! nat (r * uv_stride + 4 * (c div 8))) (us ! nat (r * uv_stride + 4 * (c div 8))) 255"

lemma frame422_pixel:
  assumes "0 \<le> i" "0 \<le> k" "k < 4" "8 * i + 8 \<le> bs"
    and g: "g = (\<lambda>a. frame422 ys vs us yst uvst (a div bs) (a mod bs))"
  shows "g (r * bs + 8 * i + k) = bgra_byte k (ys ! nat (r * yst + 4 * i)) (vs ! nat (r * uvst + 4 * i))
        (us ! nat (r * uvst + 4 * i)) 255"
    "g (r * bs + 8 * i + (4 + k)) = bgra_byte k (ys ! nat (r * yst + 4 * i + 2)) (vs ! nat (r * uvst + 4 * i))
        (us ! nat (r * uvst + 4 * i)) 255"
proof -
  have q: "(r * bs + (8 * i + k)) div bs = r" "(r * bs + (8 * i + k)) mod bs = 8 * i + k"
    "(r * bs + (8 * i + (4 + k))) div bs = r" "(r * bs + (8 * i + (4 + k))) mod bs = 8 * i + (4 + k)"
    using rect_index [of "8 * i + k" "8 * i + k + 1" bs 0 r]
      rect_index [of "8 * i + (4 + k)" "8 * i + (4 + k) + 1" bs 0 r] assms by simp_all
  have m: "(8 * i + k) mod 4 = k" "(8 * i + k) div 4 = 2 * i" "(8 * i + k) div 8 = i"
    "(8 * i + (4 + k)) mod 4 = k" "(8 * i + (4 + k)) div 4 = 2 * i + 1" "(8 * i + (4 + k)) div 8 = i"
    using pair_index [of k i] pair_index [of "4 + k" i] assms(2,3) by simp_all
  show "g (r * bs + 8 * i + k) = bgra_byte k (ys ! nat (r * yst + 4 * i)) (vs ! nat (r * uvst + 4 * i))
        (us ! nat (r * uvst + 4 * i)) 255"
    "g (r * bs + 8 * i + (4 + k)) = bgra_byte k (ys ! nat (r * yst + 4 * i + 2)) (vs ! nat (r * uvst + 4 * i))
        (us ! nat (r * uvst + 4 * i)) 255"
    unfolding g frame422_def add.assoc q m by simp_all
qed

lemma pair_colors_inks:
  assumes P: "inked D g xs ds"
    and R: "rd u (sau p) = Some U" "rd v (sav p) = Some V" "rd y (say1 p) = Some Y1" "rd y (say1 p + 2) = Some Y3"
    and B: "u8 U" "u8 V" "u8 Y1" "u8 Y3"
    and A: "0 \<le> da1 p" "da1 p + 7 < int (length xs)"
    and G: "\<And>k. 0 \<le> k \<Longrightarrow> k < 4 \<Longrightarrow> g (da1 p + k) = bgra_byte k Y1 V U 255"
      "\<And>k. 0 \<le> k \<Longrightarrow> k < 4 \<Longrightarrow> g (da1 p + (4 + k)) = bgra_byte k Y3 V U 255"
  shows "inks (D \<union> pair_at (da1 p)) g xs (pair_colors y v u p (Some ds))"
proof -
  note cl = channel_clamps [OF _ B(2,1), where a = 255]
  have g: "g (da1 p) = bgra_byte 0 Y1 V U 255" "g (da1 p + 3) = 255" "g (da1 p + 7) = 255"
    using G(1) [of 0] G(1) [of 3] G(2) [of 3] by (simp_all add: bgra_byte_def)
  note gs = g G(1) [of 1] G(1) [of 2] G(2) [of 0] G(2) [of 1] G(2) [of 2]
  have set: "insert (da1 p + 3) (insert (da1 p + 7) (insert (da1 p + 4) (insert (da1 p + 5) (insert (da1 p + 6)
      (insert (da1 p) (insert (da1 p + 1) (insert (da1 p + 2) D))))))) = D \<union> pair_at (da1 p)"
    unfolding pair_at_def by auto
  show ?thesis
    unfolding pair_colors_def set [symmetric] using P
    by (simp add: R rd_tables B cl Let_def del: rd.simps wr.simps)
      ((erule inks_wr_bind, use A in simp, use gs in simp)+, erule inks_wr, use A in simp, use gs in simp)
qed

definition pair_cur :: "int \<Rightarrow> int \<Rightarrow> int \<Rightarrow> int \<Rightarrow> int \<Rightarrow> cursor" where
  "pair_cur bs yst uvst j i =
     \<lparr> say1 = j * yst + 4 * i, say2 = 0, sau = j * uvst + 4 * i, sav = j * uvst + 4 * i,
       da1 = j * bs + 8 * i, da2 = 0, a_col1 = 0, a_col2 = 0 \<rparr>"

lemma pair_cur_steps:
  "pair_advance (pair_cur bs yst uvst j i) = pair_cur bs yst uvst j (i + 1)"
  "row_advance bs yst uvst (pair_cur bs yst uvst j 0) = pair_cur bs yst uvst (j + 1) 0"
  "frame_start 0 0 0 = pair_cur bs yst uvst 0 0"
  by (simp_all add: pair_advance_def row_advance_def frame_start_def pair_cur_def algebra_simps)

lemma pair_round:
  assumes fit: "plane_fits xs bs (8 * w) h" "plane_fits ys yst (4 * w - 1) h"
      "plane_fits vs uvst (4 * w - 3) h" "plane_fits us uvst (4 * w - 3) h"
    and bytes: "\<forall>b\<in>set ys. u8 b" "\<forall>b\<in>set vs. u8 b" "\<forall>b\<in>set us. u8 b"
    and ji: "0 \<le> j" "j < h" "0 \<le> i" "i < w"
    and P: "inked D (\<lambda>a. frame422 ys vs us yst uvst (a div bs) (a mod bs)) xs ds"
  shows "inks (D \<union> pair_at (j * bs + 8 * i)) (\<lambda>a. frame422 ys vs us yst uvst (a div bs) (a mod bs)) xs
    (pair_colors (Some ys) (Some vs) (Some us) (pair_cur bs yst uvst j i) (Some ds))"
proof -
  let ?p = "pair_cur bs yst uvst j i"
  have sel: "sau ?p = j * uvst + 4 * i" "sav ?p = j * uvst + 4 * i" "say1 ?p = j * yst + 4 * i" "da1 ?p = j * bs + 8 * i"
    by (simp_all add: pair_cur_def)
  have c: "0 \<le> 4 * i" "4 * i < 4 * w - 3" "4 * i < 4 * w - 1" "0 \<le> 4 * i + 2" "4 * i + 2 < 4 * w - 1"
    "0 \<le> 8 * i" "8 * i < 8 * w" "0 \<le> 8 * i + 7" "8 * i + 7 < 8 * w" using ji by simp_all
  have bs: "8 * i + 8 \<le> bs" using fit(1) ji by (simp add: plane_fits_def)
  note r = rd_plane [OF fit(4) ji(1,2) c(1,2)] rd_plane [OF fit(3) ji(1,2) c(1,2)] rd_plane [OF fit(2) ji(1,2) c(1,3)]
    rd_plane [OF fit(2) ji(1,2) c(4,5), unfolded add.assoc [symmetric]]
  note b = u8_plane [OF fit(4) bytes(3) ji(1,2) c(1,2)] u8_plane [OF fit(3) bytes(2) ji(1,2) c(1,2)]
    u8_plane [OF fit(2) bytes(1) ji(1,2) c(1,3)] u8_plane [OF fit(2) bytes(1) ji(1,2) c(4,5), unfolded add.assoc [symmetric]]
  note d = plane_fits_in(1) [OF fit(1) ji(1,2) c(6,7)] plane_fits_in(2) [OF fit(1) ji(1,2) c(8,9), unfolded add.assoc [symmetric]]
  note px = frame422_pixel [OF ji(3) _ _ bs refl, of _ ys vs us yst uvst j]
  show ?thesis
    using pair_colors_inks [OF P, where p = ?p, unfolded sel, OF r b d] px by blast
qed

lemma pair_row:
  assumes fit: "plane_fits xs bs (8 * w) h" "plane_fits ys yst (4 * w - 1) h"
      "plane_fits vs uvst (4 * w - 3) h" "plane_fits us uvst (4 * w - 3) h"
    and bytes: "\<forall>b\<in>set ys. u8 b" "\<forall>b\<in>set vs. u8 b" "\<forall>b\<in>set us. u8 b"
    and j: "0 \<le> j" "j < h" "0 < w"
    and P: "inked {a. in_rect 0 bs (8 * w) j a} (\<lambda>a. frame422 ys vs us yst uvst (a div bs) (a mod bs)) xs ds"
  shows "\<exists>zs q. loopM (\<lambda>_ (d, p). do {
        d \<leftarrow> pair_colors (Some ys) (Some vs) (Some us) p d;
        Some (d, pair_advance p) }) 0 (nat w) (Some ds, pair_cur bs yst uvst j 0) = Some (Some zs, q) \<and>
      inked {a. in_rect 0 bs (8 * w) (j + 1) a} (\<lambda>a. frame422 ys vs us yst uvst (a div bs) (a mod bs)) xs zs"
proof -
  let ?g = "\<lambda>a. frame422 ys vs us yst uvst (a div bs) (a mod bs)"
  let ?D = "\<lambda>i. {a. in_rect 0 bs (8 * w) j a} \<union> {j * bs ..< j * bs + 8 * i}"
  let ?I = "\<lambda>i s. 0 \<le> i \<and> (\<exists>zs. s = (Some zs, pair_cur bs yst uvst j i) \<and> inked (?D i) ?g xs zs)"
  let ?f = "\<lambda>_ (d, p). do { d \<leftarrow> pair_colors (Some ys) (Some vs) (Some us) p d; Some (d, pair_advance p) }"
  have "\<exists>s'. loopM ?f 0 (nat w) (Some ds, pair_cur bs yst uvst j 0) = Some s' \<and> ?I (0 + int (nat w)) s'"
  proof (rule loopM_inv [where I = ?I])
    fix i s assume i: "0 \<le> i" "i < 0 + int (nat w)" and "?I i s"
    then obtain zs where s: "s = (Some zs, pair_cur bs yst uvst j i)" "inked (?D i) ?g xs zs" by blast
    have iw: "i < w" using i j by simp
    have "?D i \<union> pair_at (j * bs + 8 * i) = ?D (i + 1)" using interval_pair [OF i(1), of "j * bs"] by blast
    then show "\<exists>s'. ?f i s = Some s' \<and> ?I (i + 1) s'"
      using pair_round [OF fit bytes j(1,2) i(1) iw s(2)] i by (auto simp: s(1) pair_cur_steps(1) inks_def)
  qed (use P in simp)
  moreover have "?D w = {a. in_rect 0 bs (8 * w) (j + 1) a}"
    using rect_rows [of j "8 * w" bs] fit(1) j by (simp add: plane_fits_def)
  ultimately show ?thesis using j by auto
qed

lemma convert422_rejects:
  assumes "\<not> (bgra \<noteq> None \<and> y \<noteq> None \<and> v \<noteq> None \<and> u \<noteq> None \<and> 0 < width \<and> 0 < height \<and> even width)"
  shows "ColorConvert_YCbCr422p_to_BGRA32_no_alpha bgra bs width height y v u yst uvst = Some (1, bgra)"
  using assms by (auto simp: ColorConvert_YCbCr422p_to_BGRA32_no_alpha_def and_one_eq mod_2_eq_odd)

lemma convert422_exact:
  assumes fit: "plane_fits xs bs (4 * width) height" "plane_fits ys yst (2 * width - 1) height"
      "plane_fits vs uvst (2 * width - 3) height" "plane_fits us uvst (2 * width - 3) height"
    and bytes: "\<forall>b\<in>set ys. u8 b" "\<forall>b\<in>set vs. u8 b" "\<forall>b\<in>set us. u8 b"
    and wh: "0 < width" "0 < height" "even width"
  shows "ColorConvert_YCbCr422p_to_BGRA32_no_alpha (Some xs) bs width height (Some ys) (Some vs) (Some us) yst uvst
    = Some (0, Some (upd_rect 0 bs (4 * width) height (\<lambda>r c _. frame422 ys vs us yst uvst r c) xs))"
proof -
  define w where "w = width div 2"
  have w: "width = 2 * w" "0 < w" using wh by (auto simp: w_def)
  have fit': "plane_fits xs bs (8 * w) height" "plane_fits ys yst (4 * w - 1) height"
    "plane_fits vs uvst (4 * w - 3) height" "plane_fits us uvst (4 * w - 3) height"
    using fit w by simp_all
  let ?g = "\<lambda>a. frame422 ys vs us yst uvst (a div bs) (a mod bs)"
  let ?I = "\<lambda>j s. 0 \<le> j \<and> (\<exists>zs. s = (Some zs, pair_cur bs yst uvst j 0) \<and>
    inked {a. in_rect 0 bs (8 * w) j a} ?g xs zs)"
  let ?f = "\<lambda>_ (d, p). do {
          (d, _) \<leftarrow> loopM (\<lambda>_ (d, p). do { d \<leftarrow> pair_colors (Some ys) (Some vs) (Some us) p d;
                      Some (d, pair_advance p) }) 0 (nat w) (d, p);
          Some (d, row_advance bs yst uvst p) }"
  have "\<exists>s'. loopM ?f 0 (nat height) (Some xs, frame_start 0 0 0) = Some s' \<and> ?I (0 + int (nat height)) s'"
  proof (rule loopM_inv [where I = ?I])
    fix j s assume j: "0 \<le> j" "j < 0 + int (nat height)" and "?I j s"
    then obtain zs where s: "s = (Some zs, pair_cur bs yst uvst j 0)"
      "inked {a. in_rect 0 bs (8 * w) j a} ?g xs zs" by blast
    have "j < height" using j wh by simp
    from pair_row [OF fit' bytes j(1) this w(2) s(2)]
    show "\<exists>s'. ?f j s = Some s' \<and> ?I (j + 1) s'" using j by (auto simp: s(1) pair_cur_steps(2))
  next
    have "0 < bs" using fit'(1) w by (simp add: plane_fits_def)
    then show "?I 0 (Some xs, frame_start 0 0 0)"
      by (simp add: pair_cur_steps(3) [where bs = bs and yst = yst and uvst = uvst] in_rect_0 inked_empty)
  qed
  then obtain zs q where zs: "loopM ?f 0 (nat height) (Some xs, frame_start 0 0 0) = Some (Some zs, q)"
    "inked {a. in_rect 0 bs (8 * w) height a} ?g xs zs"
    using wh by auto
  have "Some (Some zs) = Some (Some (upd_rect 0 bs (8 * w) height (\<lambda>r c _. frame422 ys vs us yst uvst r c) xs))"
    by (rule inks_rect) (use zs(2) in \<open>simp add: inks_def\<close>)
  then show ?thesis
    using zs(1) wh w
    by (simp add: ColorConvert_YCbCr422p_to_BGRA32_no_alpha_def and_one_eq mod_2_eq_odd sar_def)
qed

end
