(* ===== verification/File_Cache.thy ===== *)
theory File_Cache
  imports Gst_Core
begin

text \<open>
  The backing store of the progress buffers, \<open>progressbuffer/posix/filecache.c\<close>: a temporary file with
  one handle to append and one to read. The record \<open>Cache\<close> has the two positions the code keeps and, for the
  operating system's side, the contents of the file and the offsets of the handles. The record \<open>cache_io\<close> is what
  the calls into the system answer during one operation: whether an allocation, an opening, a
  mapping or a seek succeeds, how many bytes a write takes and how many of the available bytes a read returns.

  The lemmas show that, while the calls succeed, the cache is a queue of bytes: a write
  appends at the end, a read takes from the front, whatever the sizes of the pieces; and that a seek of the
  read handle selects the byte at that position.
\<close>

section \<open>The cache\<close>

type_synonym data = "8 word list"

record Cache =
  c_file :: data
  c_readHandle :: nat
  c_writeHandle :: nat
  c_read_position :: int
  c_write_position :: int

record cache_io =
  io_alloc :: bool
  io_filename :: bool
  io_open :: bool
  io_unlink :: bool
  io_map :: bool
  io_write :: "nat \<Rightarrow> int"
  io_read :: "nat \<Rightarrow> int"
  io_lseek :: bool
  io_wrap :: bool

record CacheBuffer =
  cb_offset :: int
  cb_data :: data

definition DEFAULT_BUFFER_SIZE :: nat where
  "DEFAULT_BUFFER_SIZE = 4096"

definition create_cache :: "cache_io \<Rightarrow> Cache option" where
  "create_cache io =
     (if io_alloc io \<and> io_filename io \<and> io_open io \<and> io_unlink io
      then Some \<lparr> c_file = [], c_readHandle = 0, c_writeHandle = 0, c_read_position = 0, c_write_position = 0 \<rparr>
      else None)"

text \<open>\<open>write\<close> of the system: the bytes go to the offset of the handle, a gap before them reads as zeros.\<close>

definition write_at :: "nat \<Rightarrow> data \<Rightarrow> data \<Rightarrow> data" where
  "write_at p d f = take p (f @ replicate (p - length f) 0) @ d @ drop (p + length d) f"

definition sys_write :: "cache_io \<Rightarrow> data \<Rightarrow> Cache \<Rightarrow> int \<times> Cache" where
  "sys_write io d c =
     (let n = io_write io (length d)
      in (n, if 0 < n then c \<lparr> c_file := write_at (c_writeHandle c) (take (nat n) d) (c_file c),
                               c_writeHandle := c_writeHandle c + nat n \<rparr> else c))"

definition sys_read :: "cache_io \<Rightarrow> nat \<Rightarrow> Cache \<Rightarrow> int \<times> data \<times> Cache" where
  "sys_read io sz c =
     (let n = io_read io (min sz (length (c_file c) - c_readHandle c))
      in (n, take (nat n) (drop (c_readHandle c) (c_file c)), c \<lparr> c_readHandle := c_readHandle c + nat n \<rparr>))"

definition cache_write_buffer :: "cache_io \<Rightarrow> Cache \<Rightarrow> data \<Rightarrow> Cache" where
  "cache_write_buffer io c d =
     (if io_map io then
        let (written, c) = sys_write io d c
        in if 0 < written then c \<lparr> c_write_position := c_write_position c + written \<rparr> else c
      else c)"

definition cache_read_buffer :: "cache_io \<Rightarrow> Cache \<Rightarrow> int \<times> CacheBuffer option \<times> Cache" where
  "cache_read_buffer io c =
     (if \<not> io_alloc io then (0, None, c)
      else
        let left = c_write_position c - c_read_position c;
            sz = (if 0 < left \<and> left < int DEFAULT_BUFFER_SIZE then nat left else DEFAULT_BUFFER_SIZE);
            (read_bytes, bs, c) = sys_read io sz c
        in if 0 < read_bytes
           then let buffer = (if io_wrap io then Some \<lparr> cb_offset = c_read_position c, cb_data = bs \<rparr> else None);
                    c = c \<lparr> c_read_position := c_read_position c + read_bytes \<rparr>
                in (c_read_position c, buffer, c)
           else (0, None, c))"

definition cache_set_handler_position :: "cache_io \<Rightarrow> int \<Rightarrow> bool" where
  "cache_set_handler_position io position \<longleftrightarrow> io_lseek io \<and> 0 \<le> position"

definition cache_set_write_position :: "cache_io \<Rightarrow> Cache \<Rightarrow> int \<Rightarrow> bool \<times> Cache" where
  "cache_set_write_position io c position =
     (if position = c_write_position c then (True, c)
      else if cache_set_handler_position io position
      then (True, c \<lparr> c_writeHandle := nat position, c_write_position := position \<rparr>)
      else (False, c))"

definition cache_set_read_position :: "cache_io \<Rightarrow> Cache \<Rightarrow> int \<Rightarrow> bool \<times> Cache" where
  "cache_set_read_position io c position =
     (if position = c_read_position c then (True, c)
      else if cache_set_handler_position io position
      then (True, c \<lparr> c_readHandle := nat position, c_read_position := position \<rparr>)
      else (False, c))"

definition cache_read_buffer_from_position ::
  "cache_io \<Rightarrow> Cache \<Rightarrow> int \<Rightarrow> nat \<Rightarrow> GstFlowReturn \<times> CacheBuffer option \<times> Cache" where
  "cache_read_buffer_from_position io c start_position sz =
     (let (ok, c) = cache_set_read_position io c start_position
      in if ok \<and> io_alloc io then
           let (read_bytes, bs, c) = sys_read io sz c;
               buffer = (if read_bytes = int sz \<and> io_wrap io
                         then Some \<lparr> cb_offset = c_read_position c, cb_data = bs \<rparr> else None)
           in (if buffer = None then GST_FLOW_ERROR else GST_FLOW_OK, buffer,
               c \<lparr> c_read_position := c_read_position c + read_bytes \<rparr>)
         else (GST_FLOW_ERROR, None, c))"

definition cache_has_enough_data :: "Cache \<Rightarrow> bool" where
  "cache_has_enough_data c \<longleftrightarrow> c_read_position c < c_write_position c"

section \<open>A queue of bytes\<close>

fun all_put :: "('e \<times> 'b list option) list \<Rightarrow> 'b list" where
  "all_put [] = []"
| "all_put ((e, Some d) # ops) = d @ all_put ops"
| "all_put ((e, None) # ops) = all_put ops"

text \<open>
  What a client of the cache relies on while the system's calls succeed (\<open>good\<close>): \<open>content\<close> is what has been
  put and not yet got.
\<close>

locale byte_queue =
  fixes good :: "'e \<Rightarrow> bool"
    and inv :: "'s \<Rightarrow> bool"
    and content :: "'s \<Rightarrow> 'b list"
    and put :: "'e \<Rightarrow> 's \<Rightarrow> 'b list \<Rightarrow> 's"
    and get :: "'e \<Rightarrow> 's \<Rightarrow> 'b list \<times> 's"
  assumes put_law: "good e \<Longrightarrow> inv s \<Longrightarrow> inv (put e s d) \<and> content (put e s d) = content s @ d"
    and get_law: "good e \<Longrightarrow> inv s \<Longrightarrow> content s \<noteq> [] \<Longrightarrow> get e s = (d, s') \<Longrightarrow>
      inv s' \<and> d \<noteq> [] \<and> content s = d @ content s'"
begin

text \<open>A run takes a list of operations, \<open>Some d\<close> to put and \<open>None\<close> to get if there is something.\<close>

fun run :: "('e \<times> 'b list option) list \<Rightarrow> 's \<Rightarrow> 'b list \<times> 's" where
  "run [] s = ([], s)"
| "run ((e, Some d) # ops) s = run ops (put e s d)"
| "run ((e, None) # ops) s =
     (if content s = [] then run ops s
      else let (d, s') = get e s; (ds, s'') = run ops s' in (d @ ds, s''))"

lemma run_fifo:
  assumes "\<forall>op\<in>set ops. good (fst op)" "inv s" "run ops s = (ds, s')"
  shows "inv s' \<and> ds @ content s' = content s @ all_put ops"
  using assms
proof (induction ops s arbitrary: ds s' rule: run.induct)
  case (1 s)
  then show ?case by simp
next
  case (2 e d ops s)
  have "inv (put e s d)" "content (put e s d) = content s @ d" using put_law [of e s d] 2(2,3) by simp_all
  then show ?case using 2(1) [of ds s'] 2(2,4) by simp
next
  case (3 e ops s)
  show ?case
  proof (cases "content s = []")
    case True
    then show ?thesis using 3(1) [of ds s'] 3(3-5) by simp
  next
    case False
    obtain d t where g: "get e s = (d, t)" by fastforce
    obtain es u where r: "run ops t = (es, u)" by fastforce
    have t: "inv t" "content s = d @ content t" using get_law [OF _ _ False g] 3(3,4) by simp_all
    have "inv u \<and> es @ content u = content t @ all_put ops"
      using 3(2) [OF False g [symmetric] refl _ _ r] 3(3) t(1) by simp
    moreover have "ds = d @ es" "s' = u" using 3(5) False g r by simp_all
    ultimately show ?thesis using t(2) by simp
  qed
qed

end

section \<open>The file cache is a queue\<close>

definition io_good :: "cache_io \<Rightarrow> bool" where
  "io_good io \<longleftrightarrow> io_alloc io \<and> io_map io \<and> io_wrap io \<and> io_lseek io \<and>
     (\<forall>n. io_write io n = int n) \<and> (\<forall>n. io_read io n \<le> int n \<and> (0 < n \<longrightarrow> 0 < io_read io n))"

definition cache_inv :: "Cache \<Rightarrow> bool" where
  "cache_inv c \<longleftrightarrow> c_read_position c = int (c_readHandle c) \<and> c_write_position c = int (c_writeHandle c) \<and>
     c_readHandle c \<le> c_writeHandle c \<and> c_writeHandle c \<le> length (c_file c)"

definition written :: "Cache \<Rightarrow> data" where
  "written c = take (c_writeHandle c) (c_file c)"

definition unread :: "Cache \<Rightarrow> data" where
  "unread c = drop (c_readHandle c) (written c)"

lemma write_at_inside:
  "p \<le> length f \<Longrightarrow> take (p + length d) (write_at p d f) = take p f @ d \<and> p + length d \<le> length (write_at p d f)"
  by (simp add: write_at_def)

lemma cache_write_queue:
  assumes "io_good io" "cache_inv c"
  shows "cache_inv (cache_write_buffer io c d)" "written (cache_write_buffer io c d) = written c @ d"
    "unread (cache_write_buffer io c d) = unread c @ d"
    "c_readHandle (cache_write_buffer io c d) = c_readHandle c"
proof -
  have w: "cache_write_buffer io c d = (if d = [] then c
      else c \<lparr> c_file := write_at (c_writeHandle c) d (c_file c), c_writeHandle := c_writeHandle c + length d,
               c_write_position := c_write_position c + int (length d) \<rparr>)"
    using assms(1) by (simp add: cache_write_buffer_def sys_write_def io_good_def)
  note at = write_at_inside [of "c_writeHandle c" "c_file c" d]
  show "cache_inv (cache_write_buffer io c d)" "written (cache_write_buffer io c d) = written c @ d"
    "unread (cache_write_buffer io c d) = unread c @ d"
    "c_readHandle (cache_write_buffer io c d) = c_readHandle c"
    using at assms(2) by (auto simp: w cache_inv_def written_def unread_def)
qed

definition get_bytes :: "cache_io \<Rightarrow> Cache \<Rightarrow> data \<times> Cache" where
  "get_bytes io c = (case cache_read_buffer io c of (_, b, c') \<Rightarrow> (case b of None \<Rightarrow> [] | Some x \<Rightarrow> cb_data x, c'))"

lemma cache_read_queue:
  assumes "io_good io" "cache_inv c" "unread c \<noteq> []"
  obtains d c' where
    "cache_read_buffer io c
       = (int (c_readHandle c'), Some \<lparr> cb_offset = int (c_readHandle c), cb_data = d \<rparr>, c')"
    "cache_inv c'" "d \<noteq> []" "unread c = d @ unread c'" "written c' = written c"
    "c_readHandle c' = c_readHandle c + length d"
proof -
  let ?left = "c_writeHandle c - c_readHandle c"
  let ?sz = "if ?left < DEFAULT_BUFFER_SIZE then ?left else DEFAULT_BUFFER_SIZE"
  have left: "0 < ?left" using assms(2,3) by (simp add: unread_def written_def)
  have inv: "c_read_position c = int (c_readHandle c)" "c_write_position c = int (c_writeHandle c)"
    "c_readHandle c \<le> c_writeHandle c" "c_writeHandle c \<le> length (c_file c)"
    using assms(2) by (simp_all add: cache_inv_def)
  have szl: "?sz \<le> ?left" "0 < ?sz" using left by (simp_all add: DEFAULT_BUFFER_SIZE_def)
  have avail: "min ?sz (length (c_file c) - c_readHandle c) = ?sz" using szl(1) inv(4) by simp
  define n where "n = nat (io_read io ?sz)"
  have n: "io_read io ?sz = int n" "0 < n" "n \<le> ?sz"
  proof -
    have "io_read io ?sz \<le> int ?sz" "0 < io_read io ?sz" using assms(1) szl(2) unfolding io_good_def by blast+
    then show "io_read io ?sz = int n" "0 < n" "n \<le> ?sz" unfolding n_def by linarith+
  qed
  let ?d = "take n (drop (c_readHandle c) (c_file c))"
  let ?c = "c \<lparr> c_readHandle := c_readHandle c + n, c_read_position := c_read_position c + int n \<rparr>"
  have good: "io_alloc io" "io_wrap io" using assms(1) by (simp_all add: io_good_def)
  have "cache_read_buffer io c
      = (c_read_position c + int n, Some \<lparr> cb_offset = c_read_position c, cb_data = ?d \<rparr>, ?c)"
  proof -
    have "(if 0 < c_write_position c - c_read_position c \<and> c_write_position c - c_read_position c < int DEFAULT_BUFFER_SIZE
        then nat (c_write_position c - c_read_position c) else DEFAULT_BUFFER_SIZE) = ?sz"
      using left inv by (auto simp: nat_diff_distrib)
    then show ?thesis
      using good n(2) by (simp add: cache_read_buffer_def sys_read_def avail n(1) Let_def)
  qed
  moreover have "length ?d = n" using n(3) szl(1) inv(4) by simp
  moreover have "unread c = ?d @ unread ?c"
  proof -
    have "n \<le> c_writeHandle c - c_readHandle c" using n(3) szl(1) by simp
    then have "take n (drop (c_readHandle c) (c_file c)) = take n (unread c)" "unread ?c = drop n (unread c)"
      using inv(3) by (simp_all add: unread_def written_def take_drop min_def add.commute)
    then show ?thesis by simp
  qed
  moreover have "cache_inv ?c" using n(3) szl(1) inv by (simp add: cache_inv_def)
  ultimately show thesis using that [of ?c ?d] n(2) inv(1) by (simp add: written_def)
qed

interpretation cache: byte_queue io_good cache_inv unread cache_write_buffer get_bytes
proof (unfold_locales, goal_cases)
  case (1 io c d)
  then show ?case by (simp add: cache_write_queue)
next
  case (2 io c d c')
  from 2(1-3) obtain x c1 where "cache_read_buffer io c
       = (int (c_readHandle c1), Some \<lparr> cb_offset = int (c_readHandle c), cb_data = x \<rparr>, c1)"
    "cache_inv c1" "x \<noteq> []" "unread c = x @ unread c1"
    by (rule cache_read_queue)
  then show ?case using 2(4) by (simp add: get_bytes_def)
qed

text \<open>A sequence of operations on the cache: \<open>Some d\<close> writes a buffer, \<open>None\<close> reads one if there is enough data.\<close>

fun cache_run :: "(cache_io \<times> data option) list \<Rightarrow> Cache \<Rightarrow> data \<times> Cache" where
  "cache_run [] c = ([], c)"
| "cache_run ((io, Some d) # ops) c = cache_run ops (cache_write_buffer io c d)"
| "cache_run ((io, None) # ops) c =
     (if cache_has_enough_data c
      then let (d, c') = get_bytes io c; (ds, c'') = cache_run ops c' in (d @ ds, c'')
      else cache_run ops c)"

lemma enough_data_unread: "cache_inv c \<Longrightarrow> cache_has_enough_data c \<longleftrightarrow> unread c \<noteq> []"
  by (auto simp: cache_has_enough_data_def cache_inv_def unread_def written_def)

lemma cache_run_queue:
  assumes "\<forall>op\<in>set ops. io_good (fst op)" "cache_inv c"
  shows "cache_run ops c = cache.run ops c"
  using assms
proof (induction ops c rule: cache_run.induct)
  case (2 io d ops c)
  then show ?case using cache.put_law [of io c d] by simp
next
  case (3 io ops c)
  show ?case
  proof (cases "unread c = []")
    case True
    then show ?thesis using 3(2,3,4) enough_data_unread by simp
  next
    case False
    obtain d t where g: "get_bytes io c = (d, t)" by fastforce
    have "cache_inv t" using cache.get_law [OF _ _ False g] 3(3,4) by simp
    then show ?thesis using 3(1) [OF _ g [symmetric] refl] 3(3,4) False g enough_data_unread [OF 3(4)] by simp
  qed
qed simp

lemma cache_fifo:
  assumes "\<forall>op\<in>set ops. io_good (fst op)" "create_cache io = Some c"
  shows "fst (cache_run ops c) @ unread (snd (cache_run ops c)) = all_put ops"
proof -
  have c: "cache_inv c" "unread c = []"
    using assms(2) by (auto simp: create_cache_def cache_inv_def unread_def written_def split: if_splits)
  obtain ds c' where r: "cache.run ops c = (ds, c')" by fastforce
  then show ?thesis using cache.run_fifo [OF assms(1) c(1) r] cache_run_queue [OF assms(1) c(1)] c(2) by simp
qed

lemma cache_read_at:
  assumes "io_good io" "cache_inv c" "0 \<le> start" "start + int n \<le> int (length (written c))" "0 < n"
    and full: "io_read io n = int n"
  shows "\<exists>c'. cache_read_buffer_from_position io c start n
      = (GST_FLOW_OK, Some \<lparr> cb_offset = start, cb_data = take n (drop (nat start) (written c)) \<rparr>, c') \<and>
    cache_inv c' \<and> written c' = written c \<and> int (c_readHandle c') = start + int n"
proof -
  let ?c = "c \<lparr> c_readHandle := nat start, c_read_position := start \<rparr>"
  have inv: "c_read_position c = int (c_readHandle c)" "c_write_position c = int (c_writeHandle c)"
    "c_readHandle c \<le> c_writeHandle c" "c_writeHandle c \<le> length (c_file c)"
    using assms(2) by (simp_all add: cache_inv_def)
  have len: "nat start + n \<le> c_writeHandle c" using assms(3,4) inv(4) by (simp add: written_def)
  have set: "cache_set_read_position io c start = (True, ?c)"
    using assms(1,3) inv(1) by (auto simp: cache_set_read_position_def cache_set_handler_position_def io_good_def)
  have "min n (length (c_file c) - nat start) = n" using len inv(4) by simp
  then have rd: "sys_read io n ?c = (int n, take n (drop (nat start) (c_file c)), ?c \<lparr> c_readHandle := nat start + n \<rparr>)"
    by (simp add: sys_read_def full)
  have "take n (drop (nat start) (c_file c)) = take n (drop (nat start) (written c))"
    using len by (simp add: written_def take_drop min_def add.commute)
  moreover have "io_alloc io" "io_wrap io" using assms(1) by (simp_all add: io_good_def)
  ultimately show ?thesis
    using set rd len inv assms(3)
    by (intro exI [of _ "?c \<lparr> c_readHandle := nat start + n, c_read_position := start + int n \<rparr>"])
      (simp add: cache_read_buffer_from_position_def cache_inv_def written_def)
qed

end
