(* ===== verification/Hls_Buffer.thy ===== *)
theory Hls_Buffer
  imports File_Cache
begin

text \<open>
  The progress buffer of HTTP live streaming, \<open>progressbuffer/hlsprogressbuffer.c\<close>: the source announces each
  media segment with an event and sends its bytes; the element stores a segment in one of three caches, which
  it uses in turn, and a task reads the caches in the same order and pushes the bytes downstream.

  The record \<open>HLSProgressBuffer\<close> has the fields of the C structure and a log of the calls made to
  GStreamer; \<open>h_ret\<close> is the variable \<open>ret\<close> of the event handler, which is what the handler has returned when it is done, and the two
  wake flags are set by \<open>g_cond_signal\<close> of \<open>add_cond\<close> and \<open>del_cond\<close>. The arrays of three elements are lists; an
  access outside of them, like one through a null pointer, is \<open>None\<close>. The source's thread can wait
  inside the handler of a segment event for a cache to become free, so that handler is a step function with places, as the task is.
\<close>

section \<open>The element\<close>

record HlsSegment =
  hs_start :: int
  hs_stop :: int
  hs_position :: int
  hs_rate :: "64 word"
  hs_flags :: "32 word"

datatype hls_event = HlsSegmentEvent HlsSegment | HlsFlushStart | HlsFlushStop | HlsEos | HlsOther nat

datatype hls_call = HlsOutEvent hls_event | HlsOutBuffer data | HlsTimeSegment HlsSegment | HlsMsgResume | HlsMsgEos
  | HlsMsgFull | HlsMsgNotFull | HlsMsgError | HlsStartTask | HlsStopTask | HlsPauseTask

record hls_env =
  he_io :: cache_io
  he_push :: GstFlowReturn
  he_push_event :: bool
  he_linked :: bool
  he_task :: bool

record HLSProgressBuffer =
  h_cache :: "Cache option list"
  h_cache_size :: "int list"
  h_cache_write_ready :: "bool list"
  h_cache_write_index :: int
  h_cache_read_index :: int
  h_send_new_segment :: bool
  h_set_src_caps :: bool
  h_is_flushing :: bool
  h_is_eos :: bool
  h_srcresult :: GstFlowReturn
  h_ret :: bool
  h_add_wake :: bool
  h_del_wake :: bool
  h_log :: "hls_call list"

definition NUM_OF_CACHED_SEGMENTS :: nat where
  "NUM_OF_CACHED_SEGMENTS = 3"

definition log_hls :: "hls_call \<Rightarrow> HLSProgressBuffer \<Rightarrow> HLSProgressBuffer" where
  "log_hls c h = h \<lparr> h_log := h_log h @ [c] \<rparr>"

definition signal_add :: "HLSProgressBuffer \<Rightarrow> HLSProgressBuffer" where
  "signal_add h = h \<lparr> h_add_wake := True \<rparr>"

definition signal_del :: "HLSProgressBuffer \<Rightarrow> HLSProgressBuffer" where
  "signal_del h = h \<lparr> h_del_wake := True \<rparr>"

text \<open>The cache with a given index, as a pointer that is followed.\<close>

definition cache_of :: "HLSProgressBuffer \<Rightarrow> int \<Rightarrow> Cache option" where
  "cache_of h i = do { c \<leftarrow> rd (Some (h_cache h)) i; c }"

definition set_cache :: "HLSProgressBuffer \<Rightarrow> int \<Rightarrow> Cache \<Rightarrow> HLSProgressBuffer" where
  "set_cache h i c = h \<lparr> h_cache := (h_cache h)[nat i := Some c] \<rparr>"

definition hls_progress_buffer_init :: "cache_io list \<Rightarrow> HLSProgressBuffer" where
  "hls_progress_buffer_init ios =
     \<lparr> h_cache = map (\<lambda>i. create_cache (ios ! i)) [0..<NUM_OF_CACHED_SEGMENTS],
       h_cache_size = replicate NUM_OF_CACHED_SEGMENTS 0, h_cache_write_ready = replicate NUM_OF_CACHED_SEGMENTS True,
       h_cache_write_index = - 1, h_cache_read_index = 0, h_send_new_segment = True, h_set_src_caps = True,
       h_is_flushing = False, h_is_eos = False, h_srcresult = GST_FLOW_OK,
       h_ret = False, h_add_wake = False, h_del_wake = False, h_log = [] \<rparr>"

definition hls_progress_buffer_activatepush_src :: "hls_env \<Rightarrow> bool \<Rightarrow> HLSProgressBuffer \<Rightarrow> bool \<times> HLSProgressBuffer" where
  "hls_progress_buffer_activatepush_src env active h =
     (if active then
        let h = h \<lparr> h_srcresult := GST_FLOW_OK \<rparr>
        in if he_linked env then (he_task env, log_hls HlsStartTask h) else (True, h)
      else (he_task env, log_hls HlsStopTask (signal_del (signal_add (h \<lparr> h_srcresult := GST_FLOW_FLUSHING \<rparr>)))))"

definition hls_progress_buffer_activatemode ::
  "hls_env \<Rightarrow> GstPadMode \<Rightarrow> bool \<Rightarrow> HLSProgressBuffer \<Rightarrow> bool \<times> HLSProgressBuffer" where
  "hls_progress_buffer_activatemode env mode active h =
     (if mode = GST_PAD_MODE_PUSH then hls_progress_buffer_activatepush_src env active h else (False, h))"

definition reset_slot :: "cache_io \<Rightarrow> HLSProgressBuffer \<Rightarrow> nat \<Rightarrow> HLSProgressBuffer" where
  "reset_slot io h i =
     (case h_cache h ! i of None \<Rightarrow> h
      | Some c \<Rightarrow>
          let c = snd (cache_set_write_position io c 0); c = snd (cache_set_read_position io c 0)
          in h \<lparr> h_cache := (h_cache h)[i := Some c], h_cache_size := (h_cache_size h)[i := 0],
                 h_cache_write_ready := (h_cache_write_ready h)[i := True] \<rparr>)"

definition hls_progress_buffer_flush_data :: "cache_io \<Rightarrow> HLSProgressBuffer \<Rightarrow> HLSProgressBuffer" where
  "hls_progress_buffer_flush_data io h =
     (let h = signal_del (signal_add (h \<lparr> h_srcresult := GST_FLOW_FLUSHING \<rparr>));
          h = h \<lparr> h_cache_write_index := - 1, h_cache_read_index := 0 \<rparr>
      in foldl (reset_slot io) h [0..<NUM_OF_CACHED_SEGMENTS])"

section \<open>Receiving\<close>

definition hls_progress_buffer_chain ::
  "hls_env \<Rightarrow> HLSProgressBuffer \<Rightarrow> data \<Rightarrow> (GstFlowReturn \<times> HLSProgressBuffer) option" where
  "hls_progress_buffer_chain env h d =
     (if h_is_flushing h \<or> h_is_eos h then Some (GST_FLOW_FLUSHING, h)
      else if h_srcresult h \<noteq> GST_FLOW_FLUSHING
      then do {
        c \<leftarrow> cache_of h (h_cache_write_index h);
        Some (GST_FLOW_OK, signal_add (set_cache h (h_cache_write_index h) (cache_write_buffer (he_io env) c d))) }
      else Some (GST_FLOW_OK, h))"

text \<open>
  Where the source's thread is in the handler of a segment event (with the segment it has been given): outside of it, past the first test of the
  result, at the test for a free cache, without the lock to report that there is none, waiting for one, or woken. Each step goes to
  the next place where the lock is released. A signal that comes while the thread reports is not seen.
\<close>

datatype source_pc = SIdle | SBegin HlsSegment | SSlot HlsSegment | SFull HlsSegment | SWait HlsSegment | SWoken HlsSegment

definition send_time_segment :: "hls_env \<Rightarrow> HlsSegment \<Rightarrow> HLSProgressBuffer \<Rightarrow> HLSProgressBuffer" where
  "send_time_segment env sg h =
     (if h_send_new_segment h
      then log_hls (HlsTimeSegment sg) (h \<lparr> h_send_new_segment := False, h_ret := he_push_event env \<rparr>) else h)"

definition check_segment :: "HLSProgressBuffer \<Rightarrow> HlsSegment \<Rightarrow> HLSProgressBuffer \<times> source_pc" where
  "check_segment h sg = (h \<lparr> h_ret := True \<rparr>, if h_srcresult h \<noteq> GST_FLOW_OK then SIdle else SBegin sg)"

definition begin_segment :: "hls_env \<Rightarrow> HLSProgressBuffer \<Rightarrow> HlsSegment \<Rightarrow> HLSProgressBuffer \<times> source_pc" where
  "begin_segment env h sg =
     (let h = (if h_is_eos h
               then let h = h \<lparr> h_is_eos := False, h_srcresult := GST_FLOW_OK \<rparr>
                    in if he_linked env then log_hls HlsStartTask h else h
               else h)
      in if (hs_stop sg - hs_start sg) mod 18446744073709551616 \<le> 0 then (log_hls HlsMsgError h, SIdle)
         else let h = send_time_segment env sg h
              in (h \<lparr> h_cache_write_index := crem (h_cache_write_index h + 1) (int NUM_OF_CACHED_SEGMENTS) \<rparr>, SSlot sg))"

definition take_slot :: "hls_env \<Rightarrow> HLSProgressBuffer \<Rightarrow> HlsSegment \<Rightarrow> (HLSProgressBuffer \<times> source_pc) option" where
  "take_slot env h sg = do {
     ready \<leftarrow> rd (Some (h_cache_write_ready h)) (h_cache_write_index h);
     if h_srcresult h = GST_FLOW_OK \<and> \<not> ready then Some (log_hls HlsMsgFull h, SFull sg)
     else do {
       c \<leftarrow> cache_of h (h_cache_write_index h);
       let i = nat (h_cache_write_index h);
       let c = snd (cache_set_write_position (he_io env) c 0);
       let c = snd (cache_set_read_position (he_io env) c 0);
       let h = h \<lparr> h_cache_size := (h_cache_size h)[i := hs_stop sg mod 4294967296],
                   h_cache_write_ready := (h_cache_write_ready h)[i := False], h_cache := (h_cache h)[i := Some c] \<rparr>;
       Some (log_hls HlsMsgResume h, SIdle) } }"

text \<open>After a wait, the handler returns when the element no longer streams.\<close>

definition source_wakes :: "HLSProgressBuffer \<Rightarrow> HlsSegment \<Rightarrow> HLSProgressBuffer \<times> source_pc" where
  "source_wakes h sg = (if h_srcresult h \<noteq> GST_FLOW_OK then (h \<lparr> h_ret := True \<rparr>, SIdle) else (h, SSlot sg))"

definition segment_continues :: "hls_env \<Rightarrow> HLSProgressBuffer \<Rightarrow> source_pc \<Rightarrow> (HLSProgressBuffer \<times> source_pc) option" where
  "segment_continues env h pc =
     (case pc of SBegin sg \<Rightarrow> Some (begin_segment env h sg)
      | SSlot sg \<Rightarrow> take_slot env h sg
      | SFull sg \<Rightarrow> Some (h, SWait sg)
      | SWoken sg \<Rightarrow> Some (source_wakes h sg)
      | _ \<Rightarrow> Some (h, pc))"

definition hls_progress_buffer_sink_event ::
  "hls_env \<Rightarrow> HLSProgressBuffer \<Rightarrow> hls_event \<Rightarrow> HLSProgressBuffer \<times> source_pc" where
  "hls_progress_buffer_sink_event env h ev =
     (case ev of
        HlsSegmentEvent sg \<Rightarrow> check_segment h sg
      | HlsFlushStart \<Rightarrow>
          (let h = log_hls (HlsOutEvent ev) (h \<lparr> h_is_flushing := True, h_ret := he_push_event env \<rparr>);
               h = hls_progress_buffer_flush_data (he_io env) h
           in (if he_linked env then log_hls HlsPauseTask h else h, SIdle))
      | HlsFlushStop \<Rightarrow>
          (let h = (log_hls (HlsOutEvent ev) h) \<lparr> h_ret := he_push_event env, h_send_new_segment := True, h_is_flushing := False,
                 h_srcresult := GST_FLOW_OK \<rparr>
           in (if \<not> h_is_eos h \<and> he_linked env then log_hls HlsStartTask h else h, SIdle))
      | HlsEos \<Rightarrow> (signal_add ((log_hls HlsMsgEos h) \<lparr> h_is_eos := True, h_ret := True \<rparr>), SIdle)
      | HlsOther _ \<Rightarrow> (log_hls (HlsOutEvent ev) (h \<lparr> h_ret := he_push_event env \<rparr>), SIdle))"

section \<open>The task\<close>

datatype hls_pc = HTop | HWait | HPush data | HPaused

definition hls_read :: "hls_env \<Rightarrow> HLSProgressBuffer \<Rightarrow> (HLSProgressBuffer \<times> hls_pc) option" where
  "hls_read env h = do {
     let i = h_cache_read_index h;
     c \<leftarrow> cache_of h i;
     let (read_position, buffer, c) = cache_read_buffer (he_io env) c;
     b \<leftarrow> buffer;
     let h = set_cache h i c;
     sz \<leftarrow> rd (Some (h_cache_size h)) i;
     Some (if read_position = sz
           then let h = h \<lparr> h_cache_write_ready := (h_cache_write_ready h)[nat i := True],
                            h_cache_read_index := crem (i + 1) (int NUM_OF_CACHED_SEGMENTS) \<rparr>
                in signal_del (log_hls HlsMsgNotFull h)
           else h, HPush (cb_data b)) }"

definition hls_stop :: "HLSProgressBuffer \<Rightarrow> HLSProgressBuffer \<times> hls_pc" where
  "hls_stop h = (if h_is_flushing h then (h, HTop) else (log_hls HlsPauseTask h, HPaused))"

definition hls_top :: "hls_env \<Rightarrow> HLSProgressBuffer \<Rightarrow> (HLSProgressBuffer \<times> hls_pc) option" where
  "hls_top env h =
     (if h_srcresult h \<noteq> GST_FLOW_OK then Some (hls_stop h)
      else do {
        c \<leftarrow> cache_of h (h_cache_read_index h);
        if cache_has_enough_data c then hls_read env h
        else if h_is_eos h then Some (hls_stop ((log_hls (HlsOutEvent HlsEos) h) \<lparr> h_srcresult := GST_FLOW_FLUSHING \<rparr>))
        else Some (h, HWait) })"

definition hls_pushed :: "hls_env \<Rightarrow> HLSProgressBuffer \<Rightarrow> data \<Rightarrow> HLSProgressBuffer \<times> hls_pc" where
  "hls_pushed env h d =
     (let h = log_hls (HlsOutBuffer d) h;
          result = he_push env;
          (result, h) = (if h_srcresult h = GST_FLOW_OK \<or> result \<noteq> GST_FLOW_OK
                         then (result, h \<lparr> h_srcresult := result \<rparr>) else (h_srcresult h, h))
      in if result \<noteq> GST_FLOW_OK then hls_stop h else (h, HTop))"

definition hls_progress_buffer_loop :: "hls_env \<Rightarrow> HLSProgressBuffer \<Rightarrow> hls_pc \<Rightarrow> (HLSProgressBuffer \<times> hls_pc) option" where
  "hls_progress_buffer_loop env h pc =
     (case pc of HTop \<Rightarrow> hls_top env h | HPush d \<Rightarrow> Some (hls_pushed env h d) | _ \<Rightarrow> Some (h, pc))"

section \<open>State changes\<close>

definition hls_progress_buffer_change_state :: "cache_io \<Rightarrow> bool \<Rightarrow> HLSProgressBuffer \<Rightarrow> HLSProgressBuffer" where
  "hls_progress_buffer_change_state io paused_to_ready h =
     (if paused_to_ready then hls_progress_buffer_flush_data io h else h)"

end
