(* ===== verification/Hls_Ring.thy ===== *)
theory Hls_Ring
  imports Hls_Buffer
begin

text \<open>
  The three caches of the HLS progress buffer as a ring of segments. The ring is seen from the cache that is read next: position \<open>j\<close> of the view is the cache \<open>j\<close> steps after it, and the
  first \<open>k\<close> positions hold segments that are not yet read to their end. The lemmas say what a write, a
  read and the start of a segment do to the bytes in it.
\<close>

section \<open>Rings\<close>

record slot =
  sl_cache :: Cache
  sl_size :: int
  sl_ready :: bool

definition ring :: "(nat \<Rightarrow> slot) \<Rightarrow> nat \<Rightarrow> bool" where
  "ring F k \<longleftrightarrow> k \<le> 3 \<and>
     (\<forall>j<3. cache_inv (sl_cache (F j)) \<and> (sl_ready (F j) \<longleftrightarrow> k \<le> j) \<and> (k \<le> j \<longrightarrow> unread (sl_cache (F j)) = [])) \<and>
     (\<forall>j<k. int (length (written (sl_cache (F j)))) \<le> sl_size (F j) \<and>
        int (c_readHandle (sl_cache (F j))) < sl_size (F j) \<and>
        (Suc j < k \<longrightarrow> int (length (written (sl_cache (F j)))) = sl_size (F j)) \<and>
        (0 < j \<longrightarrow> c_readHandle (sl_cache (F j)) = 0))"

definition complete :: "slot \<Rightarrow> bool" where
  "complete sl \<longleftrightarrow> int (length (written (sl_cache sl))) = sl_size sl"

definition stored :: "(nat \<Rightarrow> slot) \<Rightarrow> nat \<Rightarrow> data" where
  "stored F k = concat (map (\<lambda>j. unread (sl_cache (F j))) [0..<k])"

lemma length_written: "cache_inv c \<Longrightarrow> length (written c) = c_readHandle c + length (unread c)"
  by (auto simp: cache_inv_def unread_def written_def)

lemma stored_Suc: "stored F (Suc k) = stored F k @ unread (sl_cache (F k))"
  by (simp add: stored_def)

lemma stored_upd: "stored (F(k := x)) (Suc k) = stored F k @ unread (sl_cache x)"
proof -
  have "stored (F(k := x)) k = stored F k"
    unfolding stored_def by (intro arg_cong [where f = concat] map_cong) auto
  then show ?thesis by (simp add: stored_Suc)
qed

lemma ring_put:
  assumes R: "ring F (Suc k)" and io: "io_good io"
    and room: "int (length (written (sl_cache (F k)))) + int (length d) \<le> sl_size (F k)"
  defines "G \<equiv> F(k := (F k) \<lparr> sl_cache := cache_write_buffer io (sl_cache (F k)) d \<rparr>)"
  shows "ring G (Suc k)" "stored G (Suc k) = stored F (Suc k) @ d"
proof -
  have k: "k < 3" and inv: "cache_inv (sl_cache (F k))" using R by (simp_all add: ring_def)
  note w = cache_write_queue [OF io inv, of d]
  show "stored G (Suc k) = stored F (Suc k) @ d" unfolding G_def stored_upd by (simp add: stored_Suc w(3))
  show "ring G (Suc k)" unfolding ring_def
  proof (intro conjI allI impI)
    show "Suc k \<le> 3" using k by simp
  qed (use R k room w in \<open>auto simp: ring_def G_def\<close>)
qed

lemma ring_get:
  assumes R: "ring F k" and io: "io_good io" and ne: "unread (sl_cache (F 0)) \<noteq> []"
  obtains d c' where "0 < k"
    "cache_read_buffer io (sl_cache (F 0))
       = (int (c_readHandle c'), Some \<lparr> cb_offset = int (c_readHandle (sl_cache (F 0))), cb_data = d \<rparr>, c')"
    "d \<noteq> []" "written c' = written (sl_cache (F 0))" "int (c_readHandle c') = sl_size (F 0) \<longrightarrow> complete ((F 0) \<lparr> sl_cache := c' \<rparr>)"
    "int (c_readHandle c') \<noteq> sl_size (F 0) \<longrightarrow> ring (F(0 := (F 0) \<lparr> sl_cache := c' \<rparr>)) k"
    "int (c_readHandle c') \<noteq> sl_size (F 0) \<longrightarrow> stored F k = d @ stored (F(0 := (F 0) \<lparr> sl_cache := c' \<rparr>)) k"
    "int (c_readHandle c') = sl_size (F 0) \<longrightarrow>
      ring (\<lambda>j. if j = 2 then (F 0) \<lparr> sl_cache := c', sl_ready := True \<rparr> else F (Suc j)) (k - 1)"
    "int (c_readHandle c') = sl_size (F 0) \<longrightarrow>
      stored F k = d @ stored (\<lambda>j. if j = 2 then (F 0) \<lparr> sl_cache := c', sl_ready := True \<rparr> else F (Suc j)) (k - 1)"
proof -
  have inv: "cache_inv (sl_cache (F 0))" using R by (simp add: ring_def)
  have k: "0 < k"
  proof (rule ccontr)
    assume "\<not> 0 < k"
    then have "k \<le> 0" by simp
    then show False using R ne unfolding ring_def by force
  qed
  obtain d c' where r: "cache_read_buffer io (sl_cache (F 0))
       = (int (c_readHandle c'), Some \<lparr> cb_offset = int (c_readHandle (sl_cache (F 0))), cb_data = d \<rparr>, c')"
    "cache_inv c'" "d \<noteq> []" "unread (sl_cache (F 0)) = d @ unread c'" "written c' = written (sl_cache (F 0))"
    "c_readHandle c' = c_readHandle (sl_cache (F 0)) + length d"
    using cache_read_queue [OF io inv ne] .
  have len: "int (length (written (sl_cache (F 0)))) \<le> sl_size (F 0)" using R k by (simp add: ring_def)
  have le: "int (c_readHandle c') + int (length (unread c')) \<le> sl_size (F 0)"
    using len length_written [OF r(2)] r(5) by simp
  obtain m where m: "k = Suc m" using k by (cases k) auto
  have split: "stored H (Suc m) = unread (sl_cache (H 0)) @ stored (\<lambda>j. H (Suc j)) m" for H
    by (simp add: stored_def upt_conv_Cons map_Suc_upt [symmetric] comp_def del: upt_Suc)
  let ?P = "F(0 := (F 0) \<lparr> sl_cache := c' \<rparr>)"
  let ?N = "\<lambda>j. if j = 2 then (F 0) \<lparr> sl_cache := c', sl_ready := True \<rparr> else F (Suc j)"
  have part: "ring ?P k" if "int (c_readHandle c') \<noteq> sl_size (F 0)"
    using R that le r(2,5) k by (auto simp: ring_def)
  have part_stored: "stored F k = d @ stored ?P k" by (simp add: m split r(4))
  have nxt: "ring ?N (k - 1)" if "int (c_readHandle c') = sl_size (F 0)"
  proof -
    have u: "unread c' = []" using le that by simp
    have m3: "m < 3" using R m by (simp add: ring_def)
    have F: "cache_inv (sl_cache (F j))" "sl_ready (F j) \<longleftrightarrow> Suc m \<le> j" "Suc m \<le> j \<longrightarrow> unread (sl_cache (F j)) = []"
      if "j < 3" for j using R that m by (simp_all add: ring_def)
    have "cache_inv (sl_cache (?N j)) \<and> (sl_ready (?N j) \<longleftrightarrow> m \<le> j) \<and> (m \<le> j \<longrightarrow> unread (sl_cache (?N j)) = [])"
      if "j < 3" for j
      using F [of "Suc j"] that r(2) u m3 by (cases "j = 2") auto
    moreover have "int (length (written (sl_cache (?N j)))) \<le> sl_size (?N j) \<and>
        int (c_readHandle (sl_cache (?N j))) < sl_size (?N j) \<and>
        (Suc j < m \<longrightarrow> int (length (written (sl_cache (?N j)))) = sl_size (?N j)) \<and>
        (0 < j \<longrightarrow> c_readHandle (sl_cache (?N j)) = 0)" if "j < m" for j
      using R that m m3 by (auto simp: ring_def)
    ultimately show ?thesis using m m3 by (simp add: ring_def)
  qed
  have nxt_stored: "stored F k = d @ stored ?N (k - 1)" if "int (c_readHandle c') = sl_size (F 0)"
  proof -
    have "unread c' = []" using le that by simp
    moreover have "m < 3" using R m by (simp add: ring_def)
    then have "stored ?N m = stored (\<lambda>j. F (Suc j)) m"
      unfolding stored_def by (intro arg_cong [where f = concat] map_cong) auto
    ultimately show ?thesis by (simp add: m split r(4))
  qed
  have "complete ((F 0) \<lparr> sl_cache := c' \<rparr>)" if "int (c_readHandle c') = sl_size (F 0)"
    using le that len length_written [OF r(2)] r(5) by (simp add: complete_def)
  then show thesis using that [OF k r(1,3,5)] part part_stored nxt nxt_stored by blast
qed

lemma ring_begin:
  assumes R: "ring F k" and k: "k < 3" and sz: "0 < sz"
    and full: "0 < k \<Longrightarrow> int (length (written (sl_cache (F (k - 1))))) = sl_size (F (k - 1))"
    and c: "cache_inv c" "c_readHandle c = 0" "written c = []"
  defines "G \<equiv> F(k := \<lparr> sl_cache = c, sl_size = sz, sl_ready = False \<rparr>)"
  shows "ring G (Suc k)" "stored G (Suc k) = stored F k"
proof -
  show "stored G (Suc k) = stored F k" unfolding G_def stored_upd using c(3) by (simp add: unread_def)
  have "int (length (written (sl_cache (F j)))) = sl_size (F j)" if "Suc j < Suc k" for j
  proof (cases "Suc j < k")
    case True
    then show ?thesis using R by (simp add: ring_def)
  next
    case False
    then have "j = k - 1" "0 < k" using that by simp_all
    then show ?thesis using full by simp
  qed
  then show "ring G (Suc k)" using R k sz c by (auto simp: ring_def G_def less_Suc_eq)
qed

section \<open>The caches as a ring\<close>

text \<open>Index of the cache \<open>j\<close> steps after the one that is read next.\<close>

definition at_slot :: "HLSProgressBuffer \<Rightarrow> nat \<Rightarrow> nat" where
  "at_slot h j = (nat (h_cache_read_index h) + j) mod 3"

definition view :: "HLSProgressBuffer \<Rightarrow> nat \<Rightarrow> slot" where
  "view h j = \<lparr> sl_cache = the (h_cache h ! at_slot h j), sl_size = h_cache_size h ! at_slot h j,
     sl_ready = h_cache_write_ready h ! at_slot h j \<rparr>"

definition caches_ok :: "HLSProgressBuffer \<Rightarrow> bool" where
  "caches_ok h \<longleftrightarrow> length (h_cache h) = 3 \<and> length (h_cache_size h) = 3 \<and> length (h_cache_write_ready h) = 3 \<and>
     (\<forall>i<3. h_cache h ! i \<noteq> None) \<and> 0 \<le> h_cache_read_index h \<and> h_cache_read_index h < 3"

lemma at_slot_less [simp]: "at_slot h j < 3"
  by (simp add: at_slot_def)

lemma at_slot_inj: "i < 3 \<Longrightarrow> j < 3 \<Longrightarrow> at_slot h i = at_slot h j \<longleftrightarrow> i = j"
proof -
  have "(r + i) mod 3 = (r + j) mod 3 \<longleftrightarrow> i = j" if "i < 3" "j < 3" for r i j :: nat using that by presburger
  then show "i < 3 \<Longrightarrow> j < 3 \<Longrightarrow> ?thesis" by (simp add: at_slot_def)
qed

lemma at_slot_0: "caches_ok h \<Longrightarrow> at_slot h 0 = nat (h_cache_read_index h)"
  by (auto simp: caches_ok_def at_slot_def intro!: mod_less)

lemma cache_of_slot:
  assumes "caches_ok h" "j < 3"
  shows "cache_of h (int (at_slot h j)) = Some (sl_cache (view h j))"
proof -
  have "h_cache h ! at_slot h j \<noteq> None" "at_slot h j < length (h_cache h)" using assms by (simp_all add: caches_ok_def)
  then show ?thesis by (auto simp: cache_of_def view_def)
qed

lemma rd_slot:
  assumes "caches_ok h" "j < 3"
  shows "rd (Some (h_cache_size h)) (int (at_slot h j)) = Some (sl_size (view h j))"
    "rd (Some (h_cache_write_ready h)) (int (at_slot h j)) = Some (sl_ready (view h j))"
  using assms at_slot_less [of h j] by (simp_all add: caches_ok_def view_def)

text \<open>Storing into the cache \<open>j\<close> steps after the one that is read next changes the view there and nowhere else.\<close>

lemma view_set:
  assumes ok: "caches_ok h" and j: "j < 3"
    and h': "h_cache h' = (h_cache h)[at_slot h j := Some (sl_cache x)]"
      "h_cache_size h' = (h_cache_size h)[at_slot h j := sl_size x]"
      "h_cache_write_ready h' = (h_cache_write_ready h)[at_slot h j := sl_ready x]"
      "h_cache_read_index h' = h_cache_read_index h"
  shows "caches_ok h'" "\<And>i. i < 3 \<Longrightarrow> view h' i = ((view h)(j := x)) i"
proof -
  have at: "at_slot h' i = at_slot h i" for i by (simp add: at_slot_def h'(4))
  show "caches_ok h'" using ok h' by (auto simp: caches_ok_def nth_list_update)
  show "view h' i = ((view h)(j := x)) i" if "i < 3" for i
    using ok that j at_slot_inj [OF that j, of h] at_slot_less [of h i]
    by (auto simp: view_def at h' caches_ok_def nth_list_update)
qed

lemma view_next:
  assumes ok: "caches_ok h" and h': "h_cache h' = h_cache h" "h_cache_size h' = h_cache_size h"
      "h_cache_write_ready h' = h_cache_write_ready h" "h_cache_read_index h' = crem (h_cache_read_index h + 1) 3"
  shows "caches_ok h'" "\<And>i. i < 3 \<Longrightarrow> view h' i = view h (if i = 2 then 0 else Suc i)"
proof -
  have r: "h_cache_read_index h' = (h_cache_read_index h + 1) mod 3" "0 \<le> h_cache_read_index h" "h_cache_read_index h < 3"
    using ok h'(4) by (simp_all add: caches_ok_def crem_def sgn_if)
  then have n: "nat (h_cache_read_index h') = (nat (h_cache_read_index h) + 1) mod 3"
    by (simp add: nat_mod_distrib nat_add_distrib)
  have "0 \<le> h_cache_read_index h'" "h_cache_read_index h' < 3" using r(1) by simp_all
  then show "caches_ok h'" using ok h'(1-3) by (simp add: caches_ok_def)
  show "view h' i = view h (if i = 2 then 0 else Suc i)" if "i < 3" for i
  proof -
    have "at_slot h' i = at_slot h (Suc i)" unfolding at_slot_def n by presburger
    moreover have "at_slot h 3 = at_slot h 0" by (simp add: at_slot_def)
    ultimately have "at_slot h' i = at_slot h (if i = 2 then 0 else Suc i)" by (auto simp: eval_nat_numeral)
    then show ?thesis by (simp add: view_def h')
  qed
qed

lemma ring_cong: "(\<And>j. j < 3 \<Longrightarrow> F j = G j) \<Longrightarrow> ring F k \<longleftrightarrow> ring G k"
proof -
  assume eq: "\<And>j. j < 3 \<Longrightarrow> F j = G j"
  then have "k \<le> 3 \<Longrightarrow> \<forall>j<k. F j = G j" by auto
  with eq show ?thesis unfolding ring_def by (auto 4 3)
qed

lemma stored_cong: "(\<And>j. j < 3 \<Longrightarrow> F j = G j) \<Longrightarrow> k \<le> 3 \<Longrightarrow> stored F k = stored G k"
  unfolding stored_def by (intro arg_cong [where f = concat] map_cong) auto

end
