(* ===== verification/Hls_Stream.thy ===== *)
theory Hls_Stream
  imports Hls_Ring
begin

text \<open>
  The HLS progress buffer as a system of two threads: the source, which sends events and data and may wait inside the handler of a
  segment event, and the task. Every step is one section under the lock, signals reach the threads that wait, and a wait may end without one. The
  invariant says where the caches stand between the two threads and where every byte received is.
\<close>

section \<open>The system\<close>

record hlssys =
  y_h :: HLSProgressBuffer
  y_source :: source_pc
  y_task :: hls_pc

datatype hls_act = HData hls_env data | HEvent hls_env hls_event | HSource hls_env | HLoop hls_env | HSpurious

definition wake_source :: "source_pc \<Rightarrow> source_pc" where
  "wake_source pc = (case pc of SWait sg \<Rightarrow> SWoken sg | _ \<Rightarrow> pc)"

definition wake_task :: "hls_pc \<Rightarrow> hls_pc" where
  "wake_task pc = (if pc = HWait then HTop else pc)"

text \<open>Signals reach the threads that wait when they are sent.\<close>

definition settled :: "HLSProgressBuffer \<Rightarrow> source_pc \<Rightarrow> hls_pc \<Rightarrow> hlssys" where
  "settled h spc pc = \<lparr> y_h = h \<lparr> h_add_wake := False, h_del_wake := False \<rparr>,
     y_source = (if h_del_wake h then wake_source spc else spc), y_task = (if h_add_wake h then wake_task pc else pc) \<rparr>"

definition hls_step :: "hls_act \<Rightarrow> hlssys \<Rightarrow> hlssys option" where
  "hls_step a s =
     (case a of
        HData env d \<Rightarrow> do { (_, h) \<leftarrow> hls_progress_buffer_chain env (y_h s) d; Some (settled h (y_source s) (y_task s)) }
      | HEvent env ev \<Rightarrow> 
          (let (h, spc) = hls_progress_buffer_sink_event env (y_h s) ev
           in Some (settled h (if ev = HlsFlushStart \<or> ev = HlsFlushStop then y_source s else spc) (y_task s)))
      | HSource env \<Rightarrow> do { (h, spc) \<leftarrow> segment_continues env (y_h s) (y_source s); Some (settled h spc (y_task s)) }
      | HLoop env \<Rightarrow> do { (h, pc) \<leftarrow> hls_progress_buffer_loop env (y_h s) (y_task s); Some (settled h (y_source s) pc) }
      | HSpurious \<Rightarrow> Some (s \<lparr> y_source := wake_source (y_source s), y_task := wake_task (y_task s) \<rparr>))"

fun hls_out :: "hls_call list \<Rightarrow> data" where
  "hls_out [] = []"
| "hls_out (HlsOutBuffer d # l) = d @ hls_out l"
| "hls_out (_ # l) = hls_out l"

definition hls_eos_sent :: "hls_call list \<Rightarrow> bool" where
  "hls_eos_sent l \<longleftrightarrow> HlsOutEvent HlsEos \<in> set l"

lemma hls_out_append [simp]: "hls_out (l @ m) = hls_out l @ hls_out m"
  by (induction l rule: hls_out.induct) auto

lemma hls_eos_append [simp]: "hls_eos_sent (l @ m) \<longleftrightarrow> hls_eos_sent l \<or> hls_eos_sent m"
  by (auto simp: hls_eos_sent_def)

definition in_push :: "hls_pc \<Rightarrow> data" where
  "in_push pc = (case pc of HPush d \<Rightarrow> d | _ \<Rightarrow> [])"

text \<open>
  The source announces a segment with its length when the one before is complete, and then sends no more bytes
  than that; it begins no segment after the end of the stream. A flush begins a new stream and is not part of one.
\<close>

definition hls_env_good :: "hls_env \<Rightarrow> bool" where
  "hls_env_good env \<longleftrightarrow> io_good (he_io env) \<and> he_push env = GST_FLOW_OK"

definition segment_valid :: "HlsSegment \<Rightarrow> bool" where
  "segment_valid sg \<longleftrightarrow> hs_start sg = 0 \<and> 0 < hs_stop sg \<and> hs_stop sg < 4294967296"

definition segment_done :: "HLSProgressBuffer \<Rightarrow> bool" where
  "segment_done h \<longleftrightarrow> h_cache_write_index h = - 1 \<or>
     (case cache_of h (h_cache_write_index h) of None \<Rightarrow> False
      | Some c \<Rightarrow> int (length (written c)) = h_cache_size h ! nat (h_cache_write_index h))"

definition segment_room :: "HLSProgressBuffer \<Rightarrow> data \<Rightarrow> bool" where
  "segment_room h d \<longleftrightarrow> 0 \<le> h_cache_write_index h \<and>
     (case cache_of h (h_cache_write_index h) of None \<Rightarrow> False
      | Some c \<Rightarrow> int (length (written c)) + int (length d) \<le> h_cache_size h ! nat (h_cache_write_index h))"

definition hls_in_turn :: "hlssys \<Rightarrow> hls_act \<Rightarrow> bool" where
  "hls_in_turn s a =
     (case a of
        HData env d \<Rightarrow> y_source s = SIdle \<and> (h_is_eos (y_h s) \<or> segment_room (y_h s) d)
      | HEvent env ev \<Rightarrow> y_source s = SIdle \<and>
          (case ev of HlsSegmentEvent sg \<Rightarrow> segment_valid sg \<and> segment_done (y_h s) \<and> \<not> h_is_eos (y_h s)
           | HlsFlushStart \<Rightarrow> False | HlsFlushStop \<Rightarrow> False | _ \<Rightarrow> True)
      | _ \<Rightarrow> True)"

definition hls_calls_good :: "hls_act \<Rightarrow> bool" where
  "hls_calls_good a = (case a of HData env _ \<Rightarrow> hls_env_good env | HEvent env _ \<Rightarrow> hls_env_good env
     | HSource env \<Rightarrow> hls_env_good env | HLoop env \<Rightarrow> hls_env_good env | HSpurious \<Rightarrow> True)"

definition hls_taken :: "hlssys \<Rightarrow> hls_act \<Rightarrow> data" where
  "hls_taken s a = (case a of HData env d \<Rightarrow> if h_is_eos (y_h s) then [] else d | _ \<Rightarrow> [])"

inductive hls_stream :: "hlssys \<Rightarrow> data \<Rightarrow> hlssys \<Rightarrow> bool" for s0 where
  start: "hls_stream s0 [] s0"
| step: "hls_stream s0 rs s \<Longrightarrow> hls_calls_good a \<Longrightarrow> hls_in_turn s a \<Longrightarrow> hls_step a s = Some s' \<Longrightarrow>
     hls_stream s0 (rs @ hls_taken s a) s'"

section \<open>The invariant\<close>

definition last_complete :: "HLSProgressBuffer \<Rightarrow> nat \<Rightarrow> bool" where
  "last_complete h k \<longleftrightarrow> (0 < k \<longrightarrow> complete (view h (k - 1)))"

definition waits_for :: "HLSProgressBuffer \<Rightarrow> HlsSegment \<Rightarrow> nat \<Rightarrow> bool" where
  "waits_for h sg k \<longleftrightarrow> h_cache_write_index h = int (at_slot h k) \<and> last_complete h k \<and> segment_valid sg \<and> \<not> h_is_eos h"

definition writes_last :: "HLSProgressBuffer \<Rightarrow> nat \<Rightarrow> bool" where
  "writes_last h k \<longleftrightarrow> h_cache_write_index h = - 1 \<and> k = 0 \<and> h_cache_read_index h = 0 \<or>
     h_cache_write_index h = int (at_slot h (Suc (Suc k))) \<and> (k = 0 \<longrightarrow> complete (view h 2))"

text \<open>The cache that is written is the last one of the ring, or the next one while the source waits for it.\<close>

definition write_at_end :: "HLSProgressBuffer \<Rightarrow> source_pc \<Rightarrow> nat \<Rightarrow> bool" where
  "write_at_end h spc k \<longleftrightarrow>
     (case spc of
        SIdle \<Rightarrow> writes_last h k
      | SBegin sg \<Rightarrow> writes_last h k \<and> last_complete h k \<and> segment_valid sg \<and> \<not> h_is_eos h
      | SSlot sg \<Rightarrow> waits_for h sg k | SFull sg \<Rightarrow> waits_for h sg k | SWait sg \<Rightarrow> waits_for h sg k | SWoken sg \<Rightarrow> waits_for h sg k)"

lemmas write_at_end_defs = write_at_end_def writes_last_def last_complete_def waits_for_def

definition placed :: "HLSProgressBuffer \<Rightarrow> source_pc \<Rightarrow> nat \<Rightarrow> bool" where
  "placed h spc k \<longleftrightarrow> caches_ok h \<and> ring (view h) k \<and> write_at_end h spc k"

definition hls_inv :: "data \<Rightarrow> HLSProgressBuffer \<Rightarrow> source_pc \<Rightarrow> hls_pc \<Rightarrow> nat \<Rightarrow> bool" where
  "hls_inv rs h spc pc k \<longleftrightarrow> placed h spc k \<and> \<not> h_is_flushing h \<and>
     hls_out (h_log h) @ in_push pc @ stored (view h) k = rs \<and>
     (hls_eos_sent (h_log h) \<longleftrightarrow> pc = HPaused) \<and>
     (if pc = HPaused then h_is_eos h \<and> h_srcresult h = GST_FLOW_FLUSHING \<and> stored (view h) k = []
      else h_srcresult h = GST_FLOW_OK)"

lemma hls_invD:
  assumes "hls_inv rs h spc pc k"
  shows "caches_ok h" "ring (view h) k" "write_at_end h spc k" "\<not> h_is_flushing h" "k \<le> 3"
    "pc \<noteq> HPaused \<Longrightarrow> h_srcresult h = GST_FLOW_OK" "\<not> h_is_eos h \<Longrightarrow> pc \<noteq> HPaused" "h_is_eos h \<Longrightarrow> spc = SIdle"
  using assms by (auto simp: hls_inv_def placed_def ring_def write_at_end_def waits_for_def split: if_splits source_pc.splits)

text \<open>Two states that agree on the caches.\<close>

definition like :: "HLSProgressBuffer \<Rightarrow> HLSProgressBuffer \<Rightarrow> bool" where
  "like h h' \<longleftrightarrow> h_cache h' = h_cache h \<and> h_cache_size h' = h_cache_size h \<and> h_cache_write_ready h' = h_cache_write_ready h \<and>
     h_cache_read_index h' = h_cache_read_index h"

lemma like_view:
  assumes "like h h'"
  shows "at_slot h' = at_slot h" "view h' = view h" "caches_ok h' = caches_ok h" "h_cache_read_index h' = h_cache_read_index h"
  using assms by (simp_all add: like_def at_slot_def view_def caches_ok_def fun_eq_iff)

lemma like_inv:
  assumes l: "like h h'" and w: "h_cache_write_index h' = h_cache_write_index h" and e: "h_is_eos h' = h_is_eos h \<or> spc = SIdle"
  shows "placed h' spc k = placed h spc k"
  using e unfolding placed_def write_at_end_defs like_view [OF l] w by (cases spc) auto

lemma hls_inv_log:
  assumes I: "hls_inv rs h spc pc k" and h': "like h h'" "h_cache_write_index h' = h_cache_write_index h" "h_is_eos h' = h_is_eos h"
      "h_is_flushing h' = h_is_flushing h" "h_srcresult h' = h_srcresult h"
    and log: "hls_out (h_log h') = hls_out (h_log h)" "hls_eos_sent (h_log h') = hls_eos_sent (h_log h)"
  shows "hls_inv rs h' spc pc k"
  using I like_inv [OF h'(1,2), of spc k] unfolding hls_inv_def like_view [OF h'(1)] h' log by simp

lemma wake_inv:
  "hls_inv rs h spc pc k \<Longrightarrow> hls_inv rs h (wake_source spc) pc k"
  "hls_inv rs h spc pc k \<Longrightarrow> hls_inv rs h spc (wake_task pc) k"
proof -
  show "hls_inv rs h spc pc k \<Longrightarrow> hls_inv rs h (wake_source spc) pc k"
    by (cases spc) (auto simp: hls_inv_def placed_def wake_source_def write_at_end_def)
  show "hls_inv rs h spc pc k \<Longrightarrow> hls_inv rs h spc (wake_task pc) k"
    by (cases pc) (auto simp: hls_inv_def wake_task_def in_push_def)
qed

lemma settled_inv:
  assumes "hls_inv rs h spc pc k"
  shows "hls_inv rs (y_h (settled h spc pc)) (y_source (settled h spc pc)) (y_task (settled h spc pc)) k"
proof -
  have "hls_inv rs (h \<lparr> h_add_wake := False, h_del_wake := False \<rparr>) spc pc k"
    by (rule hls_inv_log [OF assms]) (simp_all add: like_def)
  then show ?thesis by (simp add: settled_def wake_inv)
qed

lemma at_slot_back [simp]: "at_slot h (Suc (Suc (Suc m))) = at_slot h m"
proof -
  have "(r + Suc (Suc (Suc m))) mod 3 = (r + m) mod 3" for r :: nat by presburger
  then show ?thesis by (simp add: at_slot_def)
qed

section \<open>The source\<close>

text \<open>Data for the last segment of the ring.\<close>

lemma hls_data:
  assumes I: "hls_inv rs h SIdle pc k" and io: "io_good (he_io env)" and room: "h_is_eos h \<or> segment_room h d"
  shows "\<exists>r h'. hls_progress_buffer_chain env h d = Some (r, h') \<and> hls_inv (rs @ (if h_is_eos h then [] else d)) h' SIdle pc k"
proof (cases "h_is_eos h")
  case True
  then show ?thesis using I by (auto simp: hls_progress_buffer_chain_def)
next
  case False
  note ok = hls_invD [OF I]
  have wi: "h_cache_write_index h = int (at_slot h (Suc (Suc k)))" "k = 0 \<longrightarrow> complete (view h 2)"
    using ok(3) room False by (auto simp: write_at_end_defs segment_room_def)
  define j where "j = (if k = 0 then 2 else k - 1)"
  have j: "j < 3" "at_slot h (Suc (Suc k)) = at_slot h j"
  proof -
    show "j < 3" using ok(5) by (auto simp: j_def)
    show "at_slot h (Suc (Suc k)) = at_slot h j" by (cases k) (simp_all add: j_def numeral_2_eq_2)
  qed
  let ?c = "cache_write_buffer (he_io env) (sl_cache (view h j)) d"
  let ?h = "set_cache h (h_cache_write_index h) ?c"
  have c: "cache_of h (h_cache_write_index h) = Some (sl_cache (view h j))"
    using cache_of_slot [OF ok(1) j(1)] wi(1) j(2) by simp
  have fit: "int (length (written (sl_cache (view h j)))) + int (length d) \<le> sl_size (view h j)"
    using room False c wi(1) j(2) by (simp add: segment_room_def view_def)
  have run: "hls_progress_buffer_chain env h d = Some (GST_FLOW_OK, signal_add ?h)"
    using ok(4,6,7) False c by (simp add: hls_progress_buffer_chain_def)
  have v: "caches_ok ?h" "view ?h i = ((view h)(j := (view h j) \<lparr> sl_cache := ?c \<rparr>)) i" if "i < 3" for i
    using view_set [OF ok(1) j(1), of ?h "(view h j) \<lparr> sl_cache := ?c \<rparr>"] that wi(1) j(2)
    by (simp_all add: set_cache_def view_def)
  have R: "ring (view ?h) k \<and> stored (view ?h) k = stored (view h) k @ d \<and> (k = 0 \<longrightarrow> complete (view ?h 2))"
  proof (cases k)
    case 0
    then have "d = []" using fit wi(2) by (simp add: j_def complete_def)
    then have "?c = sl_cache (view h j)" using io by (simp add: cache_write_buffer_def sys_write_def io_good_def)
    then have "view ?h i = view h i" if "i < 3" for i using v(2) [OF that] by simp
    then show ?thesis using ok(2) wi(2) 0 \<open>d = []\<close> ring_cong [of "view ?h" "view h"] by (simp add: stored_def)
  next
    case (Suc m)
    then have jm: "j = m" by (simp add: j_def)
    note p = ring_put [OF ok(2) [unfolded Suc] io fit [unfolded jm]]
    show ?thesis
      using p v(2) ring_cong [of "view ?h" "(view h)(m := (view h m) \<lparr> sl_cache := ?c \<rparr>)"]
        stored_cong [of "view ?h" "(view h)(m := (view h m) \<lparr> sl_cache := ?c \<rparr>)" "Suc m"] ok(5) unfolding Suc jm by simp
  qed
  have at: "at_slot ?h = at_slot h" by (simp add: at_slot_def set_cache_def fun_eq_iff)
  have sel: "h_is_flushing ?h = h_is_flushing h" "h_log ?h = h_log h" "h_is_eos ?h = h_is_eos h" "h_srcresult ?h = h_srcresult h"
    "h_cache_write_index ?h = h_cache_write_index h"
    by (simp_all add: set_cache_def)
  have "hls_inv (rs @ d) ?h SIdle pc k"
    using I ok(7) [OF False] R v(1) [of 0] wi unfolding hls_inv_def placed_def write_at_end_defs source_pc.case at sel by auto
  then have "hls_inv (rs @ d) (signal_add ?h) SIdle pc k" by (rule hls_inv_log) (simp_all add: like_def signal_add_def)
  then show ?thesis using run False by auto
qed

text \<open>A segment begins: its cache is the next one, which is taken when it is free.\<close>

lemma next_slot: "crem (int (at_slot h (Suc (Suc k))) + 1) 3 = int (at_slot h k)"
proof -
  have "((r + Suc (Suc k)) mod 3 + 1) mod 3 = (r + k) mod 3" for r :: nat by presburger
  then have "int ((at_slot h (Suc (Suc k)) + 1) mod 3) = int (at_slot h k)" by (simp add: at_slot_def)
  then have "(int (at_slot h (Suc (Suc k))) + 1) mod 3 = int (at_slot h k)" by (simp only: zmod_int of_nat_add of_nat_1 of_nat_numeral)
  then show ?thesis by (simp add: crem_def sgn_if)
qed

lemma hls_check:
  assumes I: "hls_inv rs h SIdle pc k" and sg: "segment_valid sg" and fin: "segment_done h" and eos: "\<not> h_is_eos h"
  shows "hls_inv rs (fst (check_segment h sg)) (snd (check_segment h sg)) pc k"
proof -
  note ok = hls_invD [OF I]
  have "last_complete h k" unfolding last_complete_def
  proof
    assume k: "0 < k"
    then have wi: "h_cache_write_index h = int (at_slot h (Suc (Suc k)))" using ok(3) by (auto simp: write_at_end_defs)
    have "at_slot h (Suc (Suc k)) = at_slot h (k - 1)" using k by (cases k) simp_all
    then show "complete (view h (k - 1))"
      using fin cache_of_slot [OF ok(1), of "k - 1"] wi ok(5) k by (simp add: segment_done_def complete_def view_def)
  qed
  then have "hls_inv rs h (SBegin sg) pc k" using I sg eos by (auto simp: hls_inv_def placed_def write_at_end_def)
  then have "hls_inv rs (h \<lparr> h_ret := True \<rparr>) (SBegin sg) pc k" by (rule hls_inv_log) (simp_all add: like_def)
  then show ?thesis using ok(6,7) eos by (simp add: check_segment_def)
qed

lemma hls_begin:
  assumes I: "hls_inv rs h (SBegin sg) pc k"
  shows "hls_inv rs (fst (begin_segment env h sg)) (snd (begin_segment env h sg)) pc k"
proof -
  note ok = hls_invD [OF I]
  let ?t = "send_time_segment env sg h" and ?w = "int (at_slot h k)"
  have w: "writes_last h k" "last_complete h k" "segment_valid sg" "\<not> h_is_eos h" using ok(3) by (simp_all add: write_at_end_def)
  have u: "hs_stop sg mod 18446744073709551616 = hs_stop sg" using w(3) by (simp add: segment_valid_def)
  have wi: "crem (h_cache_write_index h + 1) 3 = ?w"
    using w(1) next_slot [of h k] by (auto simp: writes_last_def at_slot_def crem_def)
  have "h_cache_write_index ?t = h_cache_write_index h" by (simp add: send_time_segment_def log_hls_def)
  then have run: "begin_segment env h sg = (?t \<lparr> h_cache_write_index := ?w \<rparr>, SSlot sg)"
    using w(3,4) u wi by (simp add: begin_segment_def NUM_OF_CACHED_SEGMENTS_def segment_valid_def)
  have l: "like h (h \<lparr> h_cache_write_index := ?w \<rparr>)" by (simp add: like_def)
  have "hls_inv rs (h \<lparr> h_cache_write_index := ?w \<rparr>) (SSlot sg) pc k"
    using I w unfolding hls_inv_def placed_def write_at_end_defs source_pc.case like_view [OF l] by auto
  then have "hls_inv rs (?t \<lparr> h_cache_write_index := ?w \<rparr>) (SSlot sg) pc k"
    by (rule hls_inv_log) (simp_all add: like_def send_time_segment_def log_hls_def hls_eos_sent_def)
  then show ?thesis by (simp add: run)
qed

lemma rewind_cache:
  assumes "io_good io" "cache_inv c"
  defines "c' \<equiv> snd (cache_set_read_position io (snd (cache_set_write_position io c 0)) 0)"
  shows "cache_inv c'" "c_readHandle c' = 0" "written c' = []"
  using assms by (auto simp: cache_set_read_position_def cache_set_write_position_def cache_set_handler_position_def
      io_good_def cache_inv_def written_def)

lemma hls_take:
  assumes I: "hls_inv rs h (SSlot sg) pc k" and io: "io_good (he_io env)"
  shows "\<exists>h' spc k'. take_slot env h sg = Some (h', spc) \<and> hls_inv rs h' spc pc k'"
proof -
  note ok = hls_invD [OF I]
  have w: "h_cache_write_index h = int (at_slot h k)" "last_complete h k" "0 < hs_stop sg" "hs_stop sg < 4294967296" "\<not> h_is_eos h"
    using ok(3) by (simp_all add: write_at_end_def waits_for_def segment_valid_def)
  have r: "h_srcresult h = GST_FLOW_OK" using ok(6,7) w(5) by simp
  show ?thesis
  proof (cases "k = 3")
    case True
    have "at_slot h 3 = at_slot h 0" using at_slot_back [of h 0] by (simp add: numeral_3_eq_3)
    moreover have "\<not> sl_ready (view h 0)" using ok(2) True by (simp add: ring_def)
    ultimately have "take_slot env h sg = Some (log_hls HlsMsgFull h, SFull sg)"
      using r rd_slot(2) [OF ok(1), of 0] w(1) True by (simp add: take_slot_def)
    moreover have "hls_inv rs h (SFull sg) pc k" using I by (simp add: hls_inv_def placed_def write_at_end_def)
    then have "hls_inv rs (log_hls HlsMsgFull h) (SFull sg) pc k"
      by (rule hls_inv_log) (simp_all add: log_hls_def like_def hls_eos_sent_def)
    ultimately show ?thesis by blast
  next
    case False
    then have k: "k < 3" using ok(5) by simp
    let ?c = "snd (cache_set_read_position (he_io env) (snd (cache_set_write_position (he_io env) (sl_cache (view h k)) 0)) 0)"
    let ?x = "\<lparr> sl_cache = ?c, sl_size = hs_stop sg, sl_ready = False \<rparr>"
    let ?h = "h \<lparr> h_cache_size := (h_cache_size h)[at_slot h k := hs_stop sg],
      h_cache_write_ready := (h_cache_write_ready h)[at_slot h k := False], h_cache := (h_cache h)[at_slot h k := Some ?c] \<rparr>"
    have inv: "cache_inv (sl_cache (view h k))" "sl_ready (view h k)" using ok(2) k by (simp_all add: ring_def)
    have run: "take_slot env h sg = Some (log_hls HlsMsgResume ?h, SIdle)"
      using r inv(2) rd_slot(2) [OF ok(1) k] cache_of_slot [OF ok(1) k] w by (simp add: take_slot_def Let_def)
    have v: "caches_ok ?h" "view ?h i = ((view h)(k := ?x)) i" if "i < 3" for i
      using view_set [OF ok(1) k, of ?h ?x] that by simp_all
    have "0 < k \<Longrightarrow> int (length (written (sl_cache (view h (k - 1))))) = sl_size (view h (k - 1))"
      using w(2) by (simp add: complete_def last_complete_def)
    note b = ring_begin [OF ok(2) k w(3) this rewind_cache [OF io inv(1)]]
    have R: "ring (view ?h) (Suc k)" "stored (view ?h) (Suc k) = stored (view h) k"
      using b v(2) ring_cong [of "view ?h" "(view h)(k := ?x)"] stored_cong [of "view ?h" "(view h)(k := ?x)" "Suc k"] k by simp_all
    have at: "at_slot ?h = at_slot h" by (simp add: at_slot_def fun_eq_iff)
    have "placed ?h SIdle (Suc k)" using R(1) v(1) [of 0] w(1) unfolding placed_def write_at_end_defs at by simp
    then have "hls_inv rs ?h SIdle pc (Suc k)" using I R(2) ok(7) [OF w(5)] by (simp add: hls_inv_def)
    then have "hls_inv rs (log_hls HlsMsgResume ?h) SIdle pc (Suc k)"
      by (rule hls_inv_log) (simp_all add: log_hls_def like_def hls_eos_sent_def)
    then show ?thesis using run by blast
  qed
qed

lemma hls_source:
  assumes I: "hls_inv rs h spc pc k" and io: "io_good (he_io env)"
  shows "\<exists>h' spc' k'. segment_continues env h spc = Some (h', spc') \<and> hls_inv rs h' spc' pc k'"
proof (cases spc)
  case (SBegin sg)
  then show ?thesis using hls_begin [of rs h sg pc k env] I by (cases "begin_segment env h sg") (auto simp: segment_continues_def)
next
  case (SSlot sg)
  then show ?thesis using hls_take [of rs h sg pc k env] I io by (auto simp: segment_continues_def)
next
  case (SFull sg)
  moreover from this have "hls_inv rs h (SWait sg) pc k" using I by (simp add: hls_inv_def placed_def write_at_end_def)
  ultimately show ?thesis by (auto simp: segment_continues_def)
next
  case (SWoken sg)
  then have "hls_inv rs h (SSlot sg) pc k" "h_srcresult h = GST_FLOW_OK"
    using I by (auto simp: hls_inv_def placed_def write_at_end_def waits_for_def split: if_splits)
  then show ?thesis using SWoken by (auto simp: segment_continues_def source_wakes_def)
qed (use I in \<open>auto simp: segment_continues_def\<close>)

lemma hls_end:
  assumes "hls_inv rs h SIdle pc k"
  shows "hls_inv rs (signal_add ((log_hls HlsMsgEos h) \<lparr> h_is_eos := True, h_ret := True \<rparr>)) SIdle pc k"
proof -
  let ?h = "signal_add ((log_hls HlsMsgEos h) \<lparr> h_is_eos := True, h_ret := True \<rparr>)"
  have l: "like h ?h" "h_cache_write_index ?h = h_cache_write_index h" "h_is_flushing ?h = h_is_flushing h"
    "h_srcresult ?h = h_srcresult h" "h_is_eos ?h" "h_log ?h = h_log h @ [HlsMsgEos]"
    by (simp_all add: like_def signal_add_def log_hls_def)
  show ?thesis using assms like_inv [OF l(1,2), of SIdle k] unfolding hls_inv_def like_view [OF l(1)] l(3,4,6)
    by (auto simp: hls_eos_sent_def l(5))
qed

section \<open>The task\<close>

lemma at_slot_next: "h_cache_read_index h' = crem (h_cache_read_index h + 1) 3 \<Longrightarrow> 0 \<le> h_cache_read_index h \<Longrightarrow> at_slot h' j = at_slot h (Suc j)"
proof -
  assume r: "h_cache_read_index h' = crem (h_cache_read_index h + 1) 3" "0 \<le> h_cache_read_index h"
  then have "nat (h_cache_read_index h') = (nat (h_cache_read_index h) + 1) mod 3"
    by (simp add: crem_def sgn_if nat_mod_distrib nat_add_distrib)
  then show "at_slot h' j = at_slot h (Suc j)" unfolding at_slot_def by presburger
qed

text \<open>The positions of the threads after the task has taken bytes of the first segment, or all that it had left.\<close>

lemma placed_part:
  assumes P: "placed h spc k" and k: "0 < k" and h': "caches_ok h'" "ring (view h') k"
      "h_cache_read_index h' = h_cache_read_index h" "h_cache_write_index h' = h_cache_write_index h" "h_is_eos h' = h_is_eos h"
    and v: "\<And>i. i < 3 \<Longrightarrow> complete (view h' i) = complete (view h i)"
  shows "placed h' spc k"
proof -
  have at: "at_slot h' = at_slot h" by (simp add: at_slot_def h'(3) fun_eq_iff)
  have "k \<le> 3" using P by (simp add: placed_def ring_def)
  then have c: "complete (view h' (k - 1)) = complete (view h (k - 1))" "complete (view h' 2) = complete (view h 2)" using v k by simp_all
  show ?thesis using P h'(1,2) unfolding placed_def write_at_end_defs at h'(3-) c by (cases spc) simp_all
qed

lemma placed_next:
  assumes P: "placed h spc k" and k: "0 < k" and h': "caches_ok h'" "ring (view h') (k - 1)"
      "h_cache_read_index h' = crem (h_cache_read_index h + 1) 3" "h_cache_write_index h' = h_cache_write_index h" "h_is_eos h' = h_is_eos h"
    and v: "\<And>i. i < 2 \<Longrightarrow> view h' i = view h (Suc i)" "complete (view h' 2)"
  shows "placed h' spc (k - 1)"
proof -
  obtain m where m: "k = Suc m" using k by (cases k) auto
  have r: "0 \<le> h_cache_read_index h" "m < 3" using P m by (simp_all add: placed_def caches_ok_def ring_def)
  have at: "at_slot h' j = at_slot h (Suc j)" for j by (rule at_slot_next [OF h'(3) r(1)])
  have W: "writes_last h' m" if "writes_last h k" using that v(2) by (simp add: writes_last_def m at h'(4))
  have L: "last_complete h' m" if "last_complete h k"
    using that v(1) [of "m - 1"] r(2) by (cases m) (simp_all add: last_complete_def m)
  have "h_cache_write_index h' = int (at_slot h' m)" if "h_cache_write_index h = int (at_slot h k)" using that by (simp add: m at h'(4))
  then show ?thesis using P W L h'(1,2,5) unfolding placed_def write_at_end_def waits_for_def m by (cases spc) simp_all
qed

lemma hls_reads:
  assumes I: "hls_inv rs h spc HTop k" and io: "io_good (he_io env)" and ne: "unread (sl_cache (view h 0)) \<noteq> []"
  shows "\<exists>h' d k'. hls_read env h = Some (h', HPush d) \<and> hls_inv rs h' spc (HPush d) k' \<and>
    d \<noteq> [] \<and> hls_out (h_log h') = hls_out (h_log h) \<and> h_is_eos h' = h_is_eos h \<and> h_add_wake h' = h_add_wake h"
proof -
  note ok = hls_invD [OF I]
  have P: "placed h spc k" using I by (simp add: hls_inv_def)
  have i: "h_cache_read_index h = int (at_slot h 0)" "nat (h_cache_read_index h) = at_slot h 0"
    using at_slot_0 [OF ok(1)] ok(1) by (simp_all add: caches_ok_def)
  obtain d c' where g: "0 < k"
    "cache_read_buffer (he_io env) (sl_cache (view h 0))
       = (int (c_readHandle c'), Some \<lparr> cb_offset = int (c_readHandle (sl_cache (view h 0))), cb_data = d \<rparr>, c')"
    "d \<noteq> []" "written c' = written (sl_cache (view h 0))"
    "int (c_readHandle c') = sl_size (view h 0) \<longrightarrow> complete ((view h 0) \<lparr> sl_cache := c' \<rparr>)"
    "int (c_readHandle c') \<noteq> sl_size (view h 0) \<longrightarrow> ring ((view h)(0 := (view h 0) \<lparr> sl_cache := c' \<rparr>)) k"
    "int (c_readHandle c') \<noteq> sl_size (view h 0) \<longrightarrow> stored (view h) k = d @ stored ((view h)(0 := (view h 0) \<lparr> sl_cache := c' \<rparr>)) k"
    "int (c_readHandle c') = sl_size (view h 0) \<longrightarrow>
      ring (\<lambda>j. if j = 2 then (view h 0) \<lparr> sl_cache := c', sl_ready := True \<rparr> else view h (Suc j)) (k - 1)"
    "int (c_readHandle c') = sl_size (view h 0) \<longrightarrow>
      stored (view h) k = d @ stored (\<lambda>j. if j = 2 then (view h 0) \<lparr> sl_cache := c', sl_ready := True \<rparr> else view h (Suc j)) (k - 1)"
    using ring_get [OF ok(2) io ne] .
  let ?h = "set_cache h (h_cache_read_index h) c'"
  have rd: "cache_of h (h_cache_read_index h) = Some (sl_cache (view h 0))"
    "rd (Some (h_cache_size ?h)) (h_cache_read_index h) = Some (sl_size (view h 0))"
    using cache_of_slot [OF ok(1), of 0] rd_slot(1) [OF ok(1), of 0] i(1) by (simp_all add: set_cache_def)
  have out: "hls_out (h_log h) @ stored (view h) k = rs" "\<not> hls_eos_sent (h_log h)" using I by (simp_all add: hls_inv_def in_push_def)
  show ?thesis
  proof (cases "int (c_readHandle c') = sl_size (view h 0)")
    case False
    have run: "hls_read env h = Some (?h, HPush d)" using rd g(2) False by (simp add: hls_read_def)
    let ?x = "(view h 0) \<lparr> sl_cache := c' \<rparr>"
    have v: "caches_ok ?h" "\<And>i. i < 3 \<Longrightarrow> view ?h i = ((view h)(0 := ?x)) i"
      using view_set [OF ok(1), of 0 ?h ?x] i(2) by (simp_all add: set_cache_def view_def)
    have R: "ring (view ?h) k" "stored (view ?h) k = stored ((view h)(0 := ?x)) k"
      using g(6) [rule_format, OF False] ring_cong [of "view ?h" "(view h)(0 := ?x)"] stored_cong [of "view ?h" "(view h)(0 := ?x)"] v(2) ok(5) by simp_all
    have "placed ?h spc k"
      by (rule placed_part [OF P g(1) v(1) R(1)]) (use v(2) g(4) in \<open>simp_all add: set_cache_def complete_def\<close>)
    then have "hls_inv rs ?h spc (HPush d) k"
      using out R(2) g(7) [rule_format, OF False] ok(4,6) by (simp add: hls_inv_def set_cache_def in_push_def)
    moreover have "h_log ?h = h_log h" "h_is_eos ?h = h_is_eos h" "h_add_wake ?h = h_add_wake h" by (simp_all add: set_cache_def)
    ultimately show ?thesis using run g(3) by auto
  next
    case True
    let ?x = "(view h 0) \<lparr> sl_cache := c', sl_ready := True \<rparr>"
    let ?N = "\<lambda>j. if j = 2 then ?x else view h (Suc j)"
    let ?r = "?h \<lparr> h_cache_write_ready := (h_cache_write_ready h)[at_slot h 0 := True] \<rparr>"
    let ?n = "?r \<lparr> h_cache_read_index := crem (h_cache_read_index h + 1) 3 \<rparr>"
    have run: "hls_read env h = Some (signal_del (log_hls HlsMsgNotFull ?n), HPush d)"
      using rd g(2) True i(2) by (simp add: hls_read_def NUM_OF_CACHED_SEGMENTS_def Let_def) (simp add: set_cache_def)
    have v: "caches_ok ?r" "\<And>i. i < 3 \<Longrightarrow> view ?r i = ((view h)(0 := ?x)) i"
      using view_set [OF ok(1), of 0 ?r ?x] i(2) by (simp_all add: set_cache_def view_def)
    have n: "caches_ok ?n" "\<And>i. i < 3 \<Longrightarrow> view ?n i = ?N i"
      using view_next [OF v(1), of ?n] v(2) by (simp_all add: set_cache_def)
    have R: "ring (view ?n) (k - 1)" "stored (view ?n) (k - 1) = stored ?N (k - 1)"
      using g(8) [rule_format, OF True] ring_cong [of "view ?n" ?N] stored_cong [of "view ?n" ?N] n(2) ok(5) by simp_all
    have "placed ?n spc (k - 1)"
      by (rule placed_next [OF P g(1) n(1) R(1)]) (use n(2) g(5) [rule_format, OF True] in \<open>simp_all add: set_cache_def complete_def\<close>)
    then have "hls_inv rs ?n spc (HPush d) (k - 1)"
      using out R(2) g(9) [rule_format, OF True] ok(4,6) by (simp add: hls_inv_def set_cache_def in_push_def)
    then have "hls_inv rs (signal_del (log_hls HlsMsgNotFull ?n)) spc (HPush d) (k - 1)"
      by (rule hls_inv_log) (simp_all add: like_def log_hls_def signal_del_def hls_eos_sent_def)
    moreover have "hls_out (h_log (signal_del (log_hls HlsMsgNotFull ?n))) = hls_out (h_log h)"
      "h_is_eos (signal_del (log_hls HlsMsgNotFull ?n)) = h_is_eos h"
      "h_add_wake (signal_del (log_hls HlsMsgNotFull ?n)) = h_add_wake h" by (simp_all add: set_cache_def log_hls_def signal_del_def)
    ultimately show ?thesis using run g(3) by blast
  qed
qed

text \<open>When the cache to be read has no data, the others have none.\<close>

lemma ring_drained:
  assumes "ring F k" "unread (sl_cache (F 0)) = []"
  shows "stored F k = []"
proof (cases "k \<le> 1")
  case True
  then show ?thesis using assms(2) by (cases k) (simp_all add: stored_def)
next
  case False
  then have "cache_inv (sl_cache (F 0))" "int (length (written (sl_cache (F 0)))) = sl_size (F 0)" "int (c_readHandle (sl_cache (F 0))) < sl_size (F 0)"
    using assms(1) by (simp_all add: ring_def)
  then show ?thesis using length_written [of "sl_cache (F 0)"] assms(2) by simp
qed

text \<open>How many sections the task has left until it has taken all bytes and stops or waits.\<close>

definition sections_left :: "hls_pc \<Rightarrow> nat \<Rightarrow> nat" where
  "sections_left pc n = 2 * n + (case pc of HTop \<Rightarrow> 1 | HWait \<Rightarrow> 0 | HPush _ \<Rightarrow> 2 | HPaused \<Rightarrow> 0)"

lemma hls_loop:
  assumes I: "hls_inv rs h spc pc k" and env: "hls_env_good env"
  shows "\<exists>h' pc' k'. hls_progress_buffer_loop env h pc = Some (h', pc') \<and> hls_inv rs h' spc pc' k' \<and>
    h_is_eos h' = h_is_eos h \<and> h_add_wake h' = h_add_wake h \<and>
    (if pc = HWait \<or> pc = HPaused then h' = h \<and> pc' = pc \<and> k' = k
     else pc' \<noteq> (if h_is_eos h then HWait else HPaused) \<and> (pc' = HWait \<longrightarrow> stored (view h') k' = []) \<and>
       sections_left pc' (length (stored (view h') k')) < sections_left pc (length (stored (view h) k)))"
proof (cases pc)
  case HTop
  note J = I [unfolded HTop]
  note ok = hls_invD [OF J]
  have i: "h_cache_read_index h = int (at_slot h 0)" using at_slot_0 [OF ok(1)] ok(1) by (simp add: caches_ok_def)
  have c: "cache_of h (h_cache_read_index h) = Some (sl_cache (view h 0))" using cache_of_slot [OF ok(1), of 0] i by simp
  have d: "cache_has_enough_data (sl_cache (view h 0)) \<longleftrightarrow> unread (sl_cache (view h 0)) \<noteq> []"
    using enough_data_unread ok(2) by (simp add: ring_def)
  have top: "hls_progress_buffer_loop env h pc = (if unread (sl_cache (view h 0)) \<noteq> [] then hls_read env h
      else if h_is_eos h then Some (hls_stop ((log_hls (HlsOutEvent HlsEos) h) \<lparr> h_srcresult := GST_FLOW_FLUSHING \<rparr>)) else Some (h, HWait))"
    using ok(6) c d by (simp add: hls_progress_buffer_loop_def HTop hls_top_def)
  consider (data) "unread (sl_cache (view h 0)) \<noteq> []" | (eos) "unread (sl_cache (view h 0)) = []" "h_is_eos h"
    | (wait) "unread (sl_cache (view h 0)) = []" "\<not> h_is_eos h" by blast
  then show ?thesis
  proof cases
    case data
    then obtain h' d k' where r: "hls_read env h = Some (h', HPush d)" "hls_inv rs h' spc (HPush d) k'" "d \<noteq> []"
      "hls_out (h_log h') = hls_out (h_log h)" "h_is_eos h' = h_is_eos h" "h_add_wake h' = h_add_wake h"
      using hls_reads [OF J, of env] env by (auto simp: hls_env_good_def)
    have "stored (view h) k = d @ stored (view h') k'" using J r(2,4) by (auto simp: hls_inv_def in_push_def)
    then have "length (stored (view h') k') < length (stored (view h) k)" using r(3) by simp
    then show ?thesis using r top data HTop by (auto simp: sections_left_def)
  next
    case eos
    let ?h = "log_hls HlsPauseTask ((log_hls (HlsOutEvent HlsEos) h) \<lparr> h_srcresult := GST_FLOW_FLUSHING \<rparr>)"
    have l: "like h ?h" "h_cache_write_index ?h = h_cache_write_index h" "h_is_eos ?h = h_is_eos h" "h_add_wake ?h = h_add_wake h"
      by (simp_all add: like_def log_hls_def)
    have "hls_inv rs ?h spc HPaused k"
      using J eos ring_drained [OF ok(2)] like_inv [OF l(1,2), of spc k] l(3) like_view(2) [OF l(1)]
      by (simp add: hls_inv_def log_hls_def in_push_def hls_eos_sent_def)
    moreover have "hls_progress_buffer_loop env h pc = Some (?h, HPaused)" using top eos ok(4) by (simp add: hls_stop_def log_hls_def)
    ultimately show ?thesis using l(3,4) like_view(2) [OF l(1)] HTop eos(2) by (auto simp: sections_left_def)
  next
    case wait
    then have "hls_inv rs h spc HWait k" using J by (simp add: hls_inv_def in_push_def)
    then show ?thesis using top wait ring_drained [OF ok(2)] HTop by (auto simp: sections_left_def)
  qed
next
  case (HPush d)
  note J = I [unfolded HPush]
  let ?h = "(log_hls (HlsOutBuffer d) h) \<lparr> h_srcresult := GST_FLOW_OK \<rparr>"
  have l: "like h ?h" "h_cache_write_index ?h = h_cache_write_index h" "h_is_eos ?h = h_is_eos h" "h_add_wake ?h = h_add_wake h"
    by (simp_all add: like_def log_hls_def)
  have "hls_inv rs ?h spc HTop k"
    using J like_inv [OF l(1,2), of spc k] l(3) like_view(2) [OF l(1)]
    by (simp add: hls_inv_def log_hls_def in_push_def hls_eos_sent_def)
  moreover have "hls_progress_buffer_loop env h pc = Some (?h, HTop)"
    using env hls_invD(6) [OF J] by (simp add: HPush hls_progress_buffer_loop_def hls_pushed_def hls_env_good_def log_hls_def)
  ultimately show ?thesis using l(3,4) like_view(2) [OF l(1)] HPush by (auto simp: sections_left_def)
qed (use I in \<open>auto simp: hls_progress_buffer_loop_def\<close>)

section \<open>The stream\<close>

lemma hls_step_inv:
  assumes I: "hls_inv rs (y_h s) (y_source s) (y_task s) k" and a: "hls_calls_good a" "hls_in_turn s a"
  shows "\<exists>s' k'. hls_step a s = Some s' \<and> hls_inv (rs @ hls_taken s a) (y_h s') (y_source s') (y_task s') k'"
proof (cases a)
  case (HData env d)
  then have "y_source s = SIdle" "h_is_eos (y_h s) \<or> segment_room (y_h s) d" "io_good (he_io env)"
    using a by (simp_all add: hls_in_turn_def hls_calls_good_def hls_env_good_def)
  then show ?thesis using hls_data [of rs "y_h s" "y_task s" k env d] I settled_inv by (fastforce simp: HData hls_step_def hls_taken_def)
next
  case (HEvent env ev)
  then have src: "hls_inv rs (y_h s) SIdle (y_task s) k" using I a(2) by (simp add: hls_in_turn_def)
  have "hls_inv rs (fst (hls_progress_buffer_sink_event env (y_h s) ev)) (snd (hls_progress_buffer_sink_event env (y_h s) ev)) (y_task s) k"
  proof (cases ev)
    case (HlsSegmentEvent sg)
    then show ?thesis using hls_check [OF src, of sg] a(2) HEvent by (simp add: hls_in_turn_def hls_progress_buffer_sink_event_def)
  next
    case HlsEos
    then show ?thesis using hls_end [OF src] by (simp add: hls_progress_buffer_sink_event_def)
  next
    case (HlsOther n)
    then show ?thesis using hls_inv_log [OF src, of "log_hls (HlsOutEvent ev) (y_h s \<lparr> h_ret := he_push_event env \<rparr>)"]
      by (simp add: hls_progress_buffer_sink_event_def like_def log_hls_def hls_eos_sent_def)
  qed (use a(2) HEvent in \<open>simp_all add: hls_in_turn_def\<close>)
  moreover have "ev \<noteq> HlsFlushStart" "ev \<noteq> HlsFlushStop" using a(2) HEvent by (auto simp: hls_in_turn_def)
  ultimately show ?thesis using settled_inv
    by (fastforce simp: HEvent hls_step_def hls_taken_def split: prod.splits)
next
  case (HSource env)
  then show ?thesis using hls_source [OF I, of env] a(1) settled_inv
    by (fastforce simp: hls_step_def hls_taken_def hls_calls_good_def hls_env_good_def)
next
  case (HLoop env)
  then show ?thesis using hls_loop [OF I, of env] a(1) settled_inv by (fastforce simp: hls_step_def hls_taken_def hls_calls_good_def)
next
  case HSpurious
  then show ?thesis using wake_inv [OF wake_inv(1) [OF I]] wake_inv I by (fastforce simp: hls_step_def hls_taken_def)
qed

definition hls_start :: "cache_io list \<Rightarrow> hlssys" where
  "hls_start ios = \<lparr> y_h = hls_progress_buffer_init ios, y_source = SIdle, y_task = HTop \<rparr>"

definition caches_created :: "cache_io list \<Rightarrow> bool" where
  "caches_created ios \<longleftrightarrow> length ios = 3 \<and> list_all (\<lambda>io. create_cache io \<noteq> None) ios"

lemma created_cache: "create_cache io = Some c \<Longrightarrow> cache_inv c \<and> unread c = []"
  by (auto simp: create_cache_def cache_inv_def unread_def written_def split: if_splits)

lemma hls_start_inv:
  assumes "caches_created ios"
  shows "hls_inv [] (y_h (hls_start ios)) (y_source (hls_start ios)) (y_task (hls_start ios)) 0"
proof -
  let ?h = "hls_progress_buffer_init ios"
  have c: "h_cache ?h ! i = create_cache (ios ! i)" "create_cache (ios ! i) \<noteq> None" if "i < 3" for i
    using assms that by (simp_all add: hls_progress_buffer_init_def caches_created_def list_all_length NUM_OF_CACHED_SEGMENTS_def)
  have ok: "caches_ok ?h" using c by (simp add: caches_ok_def hls_progress_buffer_init_def NUM_OF_CACHED_SEGMENTS_def)
  have "cache_inv (sl_cache (view ?h j)) \<and> sl_ready (view ?h j) \<and> unread (sl_cache (view ?h j)) = []" for j
    using c [of "at_slot ?h j"] created_cache [of "ios ! at_slot ?h j"] at_slot_less [of ?h j]
    by (auto simp: view_def hls_progress_buffer_init_def NUM_OF_CACHED_SEGMENTS_def simp del: at_slot_less)
  then show ?thesis using ok
    by (simp add: hls_inv_def placed_def ring_def write_at_end_defs hls_start_def stored_def in_push_def hls_eos_sent_def)
      (simp add: hls_progress_buffer_init_def)
qed

lemma hls_stream_inv:
  assumes "hls_stream s0 rs s" "hls_inv [] (y_h s0) (y_source s0) (y_task s0) 0"
  shows "\<exists>k. hls_inv rs (y_h s) (y_source s) (y_task s) k"
  using assms
proof induction
  case (step rs s a s')
  then obtain k where "hls_inv rs (y_h s) (y_source s) (y_task s) k" by blast
  from hls_step_inv [OF this step.hyps(2,3)] show ?case using step.hyps(4) by auto
qed blast

lemma hls_delivers:
  assumes "hls_stream (hls_start ios) rs s" "caches_created ios"
  shows "\<exists>rest. rs = hls_out (h_log (y_h s)) @ rest"
    and "hls_eos_sent (h_log (y_h s)) \<Longrightarrow> hls_out (h_log (y_h s)) = rs \<and> h_is_eos (y_h s)"
    and "hls_calls_good a \<Longrightarrow> hls_in_turn s a \<Longrightarrow> \<exists>s'. hls_step a s = Some s'"
proof -
  obtain k where I: "hls_inv rs (y_h s) (y_source s) (y_task s) k"
    using hls_stream_inv [OF assms(1) hls_start_inv [OF assms(2)]] by blast
  then show "\<exists>rest. rs = hls_out (h_log (y_h s)) @ rest" by (auto simp: hls_inv_def)
  show "hls_eos_sent (h_log (y_h s)) \<Longrightarrow> hls_out (h_log (y_h s)) = rs \<and> h_is_eos (y_h s)"
    using I by (auto simp: hls_inv_def in_push_def)
  show "hls_calls_good a \<Longrightarrow> hls_in_turn s a \<Longrightarrow> \<exists>s'. hls_step a s = Some s'" using hls_step_inv [OF I] by blast
qed

fun hls_run :: "hls_act list \<Rightarrow> hlssys \<Rightarrow> hlssys option" where
  "hls_run [] s = Some s"
| "hls_run (a # as) s = do { s' \<leftarrow> hls_step a s; hls_run as s' }"

lemma settled_awake: "pc \<noteq> HWait \<Longrightarrow> y_task (settled h spc pc) = pc" "y_source (settled h SIdle pc) = SIdle"
  "view (y_h (settled h spc pc)) = view h" "h_is_eos (y_h (settled h spc pc)) = h_is_eos h"
proof -
  have "like h (y_h (settled h spc pc))" by (simp add: settled_def like_def)
  then show "view (y_h (settled h spc pc)) = view h" by (rule like_view)
qed (simp_all add: settled_def wake_task_def wake_source_def)

lemma hls_finishes:
  assumes "hls_inv rs (y_h s) SIdle (y_task s) k" "y_source s = SIdle" "h_is_eos (y_h s)" "y_task s \<noteq> HWait" "list_all hls_env_good envs"
    and "sections_left (y_task s) (length (stored (view (y_h s)) k)) \<le> length envs"
  shows "\<exists>s'. hls_run (map HLoop envs) s = Some s' \<and> y_task s' = HPaused \<and> hls_out (h_log (y_h s')) = rs \<and> hls_eos_sent (h_log (y_h s'))"
  using assms
proof (induction envs arbitrary: s k)
  case Nil
  then have "y_task s = HPaused" by (auto simp: sections_left_def split: hls_pc.splits)
  then show ?case using Nil.prems(1) by (auto simp: hls_inv_def in_push_def)
next
  case (Cons env envs)
  obtain h' pc' k' where l: "hls_progress_buffer_loop env (y_h s) (y_task s) = Some (h', pc')" "hls_inv rs h' SIdle pc' k'"
      "h_is_eos h'" "pc' \<noteq> HWait" "sections_left pc' (length (stored (view h') k')) \<le> length envs"
    using hls_loop [OF Cons.prems(1), of env] Cons.prems(3-) by (auto simp: sections_left_def hls_inv_def split: if_splits)
  let ?s = "settled h' SIdle pc'"
  have "hls_step (HLoop env) s = Some ?s" using l(1) Cons.prems(2) by (simp add: hls_step_def)
  moreover have "\<exists>s'. hls_run (map HLoop envs) ?s = Some s' \<and> y_task s' = HPaused \<and> hls_out (h_log (y_h s')) = rs \<and>
      hls_eos_sent (h_log (y_h s'))"
    using Cons.IH [of ?s k'] settled_inv [OF l(2)] l(3-5) Cons.prems(5) by (simp add: settled_awake)
  ultimately show ?case by simp
qed

lemma hls_eos_delivered:
  assumes "hls_stream (hls_start ios) rs s" "caches_created ios" "y_source s = SIdle" "list_all hls_env_good envs"
    and "2 * (length rs - length (hls_out (h_log (y_h s)))) + 2 \<le> length envs"
  shows "\<exists>s1 s2. hls_step (HEvent env HlsEos) s = Some s1 \<and> hls_run (map HLoop envs) s1 = Some s2 \<and>
    y_task s2 = HPaused \<and> hls_out (h_log (y_h s2)) = rs \<and> hls_eos_sent (h_log (y_h s2))"
proof -
  obtain k where I: "hls_inv rs (y_h s) SIdle (y_task s) k"
    using hls_stream_inv [OF assms(1) hls_start_inv [OF assms(2)]] assms(3) by auto
  let ?h = "signal_add ((log_hls HlsMsgEos (y_h s)) \<lparr> h_is_eos := True, h_ret := True \<rparr>)"
  let ?s = "settled ?h SIdle (y_task s)"
  have l: "like (y_h s) ?h" "h_is_eos ?h" "h_add_wake ?h" by (simp_all add: like_def signal_add_def log_hls_def)
  have step: "hls_step (HEvent env HlsEos) s = Some ?s" by (simp add: hls_step_def hls_progress_buffer_sink_event_def)
  have t: "y_task ?s = wake_task (y_task s)" using l(3) by (simp add: settled_def)
  have J: "hls_inv rs (y_h ?s) SIdle (y_task ?s) k" using settled_inv [OF hls_end [OF I]] by (simp add: settled_awake)
  have "rs = hls_out (h_log (y_h s)) @ in_push (y_task s) @ stored (view (y_h s)) k" using I by (simp add: hls_inv_def)
  then have "length (in_push (y_task s)) + length (stored (view (y_h s)) k) = length rs - length (hls_out (h_log (y_h s)))" by simp
  then have "sections_left (y_task ?s) (length (stored (view (y_h ?s)) k)) \<le> length envs"
    using assms(5) by (simp add: sections_left_def t wake_task_def settled_awake like_view(2) [OF l(1)] split: hls_pc.splits)
  moreover have "y_task ?s \<noteq> HWait" by (simp add: t wake_task_def)
  ultimately show ?thesis using hls_finishes [OF J] assms(4) l(2) step by (simp add: settled_awake)
qed

section \<open>A wait without end\<close>

text \<open>
  The source tests for a free cache, releases the lock to report that there is none, and waits without a second test. When the task
  empties the caches in between, its signals are lost.
\<close>

lemma hls_drains:
  assumes "hls_inv rs (y_h s) (SFull sg) (y_task s) k" "y_source s = SFull sg" "\<not> h_add_wake (y_h s) \<and> \<not> h_del_wake (y_h s)"
    and "y_task s = HWait \<longrightarrow> stored (view (y_h s)) k = []" "list_all hls_env_good envs"
    and "sections_left (y_task s) (length (stored (view (y_h s)) k)) \<le> length envs"
  shows "\<exists>s' k'. hls_run (map HLoop envs) s = Some s' \<and> y_task s' = HWait \<and> y_source s' = SFull sg \<and>
    \<not> h_add_wake (y_h s') \<and> \<not> h_del_wake (y_h s') \<and> hls_inv rs (y_h s') (SFull sg) HWait k' \<and> stored (view (y_h s')) k' = []"
  using assms
proof (induction envs arbitrary: s k)
  case Nil
  moreover have "y_task s \<noteq> HPaused" using hls_invD(7,8) [OF Nil.prems(1)] by auto
  ultimately have "y_task s = HWait" by (auto simp: sections_left_def split: hls_pc.splits)
  then show ?case using Nil.prems by auto
next
  case (Cons env envs)
  have eos: "\<not> h_is_eos (y_h s)" "y_task s \<noteq> HPaused" using hls_invD(7,8) [OF Cons.prems(1)] by auto
  have env: "hls_env_good env" "list_all hls_env_good envs" using Cons.prems(5) by simp_all
  obtain h' pc' k' where l: "hls_progress_buffer_loop env (y_h s) (y_task s) = Some (h', pc')" "hls_inv rs h' (SFull sg) pc' k'"
      "\<not> h_add_wake h'" "if y_task s = HWait then h' = y_h s \<and> pc' = HWait \<and> k' = k
       else (pc' = HWait \<longrightarrow> stored (view h') k' = []) \<and>
         sections_left pc' (length (stored (view h') k')) < sections_left (y_task s) (length (stored (view (y_h s)) k))"
    using hls_loop [OF Cons.prems(1) env(1)] Cons.prems(3) eos by (auto split: if_splits)
  have w: "pc' = HWait \<longrightarrow> stored (view h') k' = []" using l(4) Cons.prems(4) by (auto split: if_splits)
  have n: "sections_left pc' (length (stored (view h') k')) \<le> length envs"
  proof (cases "y_task s = HWait")
    case True
    then show ?thesis using l(4) Cons.prems(4) by (simp add: sections_left_def)
  next
    case False
    then show ?thesis using l(4) Cons.prems(6) by simp
  qed
  let ?s = "settled h' (SFull sg) pc'"
  have s: "y_task ?s = pc'" "y_source ?s = SFull sg" "\<not> h_add_wake (y_h ?s)" "\<not> h_del_wake (y_h ?s)"
    using l(3) by (simp_all add: settled_def wake_source_def)
  have "hls_step (HLoop env) s = Some ?s" using l(1) Cons.prems(2) by (simp add: hls_step_def)
  then show ?case using Cons.IH [of ?s k'] settled_inv [OF l(2)] w n env(2) by (simp add: s settled_awake)
qed

lemma hls_flags:
  "hls_stream s0 rs s \<Longrightarrow> \<not> h_add_wake (y_h s0) \<and> \<not> h_del_wake (y_h s0) \<Longrightarrow> \<not> h_add_wake (y_h s) \<and> \<not> h_del_wake (y_h s)"
proof (induction rule: hls_stream.induct)
  case (step rs s a s')
  then show ?case
    by (cases a) (auto simp: hls_step_def settled_def split: bind_splits prod.splits)
qed

definition of_thread :: "bool \<times> hls_env \<Rightarrow> hls_act" where
  "of_thread x = (if fst x then HSource (snd x) else HLoop (snd x))"

lemma hls_stuck:
  assumes "y_source s = SWait sg" "y_task s = HWait" "\<not> h_add_wake (y_h s)" "\<not> h_del_wake (y_h s)"
  shows "hls_run (map of_thread xs) s = Some s"
proof (induction xs)
  case (Cons x xs)
  have "settled (y_h s) (SWait sg) HWait = s" using assms by (simp add: settled_def)
  then have "hls_step (of_thread x) s = Some s"
    using assms by (simp add: of_thread_def hls_step_def segment_continues_def hls_progress_buffer_loop_def)
  then show ?case using Cons by simp
qed simp

lemma hls_run_append: "hls_run (as @ bs) s = Option.bind (hls_run as s) (hls_run bs)"
  by (induction as arbitrary: s) (auto split: bind_splits)

lemma all_free:
  assumes "hls_inv rs h (SFull sg) pc k" "stored (view h) k = []"
  shows "list_all (\<lambda>ready. ready) (h_cache_write_ready h)"
proof -
  note ok = hls_invD [OF assms(1)]
  have "k = 0"
  proof (rule ccontr)
    assume "k \<noteq> 0"
    then obtain m where m: "k = Suc m" by (cases k) auto
    have "complete (view h m)" using ok(3) m by (simp add: write_at_end_defs)
    moreover have "cache_inv (sl_cache (view h m))" "int (c_readHandle (sl_cache (view h m))) < sl_size (view h m)"
      using ok(2,5) m by (simp_all add: ring_def)
    ultimately have "unread (sl_cache (view h m)) \<noteq> []" using length_written by (fastforce simp: complete_def)
    then show False using assms(2) m by (simp add: stored_Suc)
  qed
  then have "h_cache_write_ready h ! at_slot h j" if "j < 3" for j using ok(2) that by (simp add: ring_def view_def)
  moreover have "\<exists>j<3. at_slot h j = i" if "i < 3" for i
  proof -
    have "\<exists>j<3. (r + j) mod 3 = i" for r using that by presburger
    then show ?thesis by (simp add: at_slot_def)
  qed
  ultimately show ?thesis using ok(1) by (fastforce simp: list_all_length caches_ok_def)
qed

lemma hls_stalls:
  assumes "hls_stream (hls_start ios) rs s" "caches_created ios" "y_source s = SFull sg" "y_task s \<noteq> HWait" "list_all hls_env_good envs"
    and "2 * (length rs - length (hls_out (h_log (y_h s)))) + 2 \<le> length envs"
  shows "\<exists>s'. hls_run (map HLoop envs @ [HSource env]) s = Some s' \<and> y_source s' = SWait sg \<and> y_task s' = HWait \<and>
    hls_out (h_log (y_h s')) = rs \<and> list_all (\<lambda>ready. ready) (h_cache_write_ready (y_h s')) \<and>
    (\<forall>xs. hls_run (map of_thread xs) s' = Some s')"
proof -
  obtain k where I: "hls_inv rs (y_h s) (SFull sg) (y_task s) k"
    using hls_stream_inv [OF assms(1) hls_start_inv [OF assms(2)]] assms(3) by auto
  have f: "\<not> h_add_wake (y_h s) \<and> \<not> h_del_wake (y_h s)"
    using hls_flags [OF assms(1)] by (simp add: hls_start_def hls_progress_buffer_init_def)
  have "rs = hls_out (h_log (y_h s)) @ in_push (y_task s) @ stored (view (y_h s)) k" using I by (simp add: hls_inv_def)
  then have "length (in_push (y_task s)) + length (stored (view (y_h s)) k) = length rs - length (hls_out (h_log (y_h s)))" by simp
  then have "sections_left (y_task s) (length (stored (view (y_h s)) k)) \<le> length envs"
    using assms(6) by (simp add: sections_left_def split: hls_pc.splits)
  then obtain t k' where t: "hls_run (map HLoop envs) s = Some t" "y_task t = HWait" "y_source t = SFull sg" "\<not> h_add_wake (y_h t)" "\<not> h_del_wake (y_h t)"
      "hls_inv rs (y_h t) (SFull sg) HWait k'" "stored (view (y_h t)) k' = []"
    using hls_drains [OF I assms(3) f _ assms(5)] assms(4) by blast
  let ?t = "settled (y_h t) (SWait sg) HWait"
  have s: "y_source ?t = SWait sg" "y_task ?t = HWait" "\<not> h_add_wake (y_h ?t)" "\<not> h_del_wake (y_h ?t)" "h_log (y_h ?t) = h_log (y_h t)"
      "h_cache_write_ready (y_h ?t) = h_cache_write_ready (y_h t)"
    using t(4,5) by (simp_all add: settled_def)
  have "hls_run (map HLoop envs @ [HSource env]) s = Some ?t"
    using t(1-3) by (simp add: hls_run_append hls_step_def segment_continues_def)
  moreover have "hls_out (h_log (y_h t)) = rs" using t(6,7) by (simp add: hls_inv_def in_push_def)
  ultimately show ?thesis using s hls_stuck [OF s(1-4)] all_free [OF t(6,7)] by (intro exI [of _ ?t]) simp
qed

end
