(* ===== verification/Progress_Buffer.thy ===== *)
theory Progress_Buffer
  imports File_Cache
begin

text \<open>
  The progress buffer element, \<open>progressbuffer/progressbuffer.c\<close>: the source pushes the bytes of a
  download into its sink pad, it appends them to the cache, and a task reads them back and
  pushes them downstream, or (in pull mode) a demuxer asks for ranges.

  The record \<open>ProgressBuffer\<close> has the fields of the C structure; a pad and the monitor thread are
  flags, an event that is pending is an option. Two fields are added: \<open>pb_log\<close>, the calls made to GStreamer in
  order, and \<open>pb_wake\<close>, set by \<open>g_cond_signal (&add_cond)\<close>. Unsigned 64-bit numbers are integers that are
  reduced by \<open>u64\<close> where the code computes with them. The code's \<open>gdouble\<close> values (progress
  percentages, bandwidth, tolerances) are of a type \<open>'d\<close>, and the parameter \<open>D\<close> is the arithmetic the code
  does on them. What the calls into GStreamer and the system answer during one handler is its argument
  \<open>env\<close>. A result \<open>None\<close> is an access through a null pointer.

  The code is built with pull mode and with source seeking, as the makefiles of the project
  define them.
\<close>

section \<open>Types\<close>

definition u64 :: "int \<Rightarrow> int" where
  "u64 x = x mod 18446744073709551616"

record PbSegment =
  ps_format :: GstFormat
  ps_update :: bool
  ps_rate :: "64 word"
  ps_start :: int
  ps_stop :: int
  ps_position :: int

datatype pb_event = PbEos | PbSegmentEvent PbSegment | PbFlushStart | PbFlushStop | PbRangeReady
  | PbOther nat bool

definition is_serialized :: "pb_event \<Rightarrow> bool" where
  "is_serialized ev = (case ev of PbFlushStart \<Rightarrow> False | PbOther _ s \<Rightarrow> s | _ \<Rightarrow> True)"

datatype pb_call = MsgBuffering int int int bool | MsgUnderrun | MsgErrorFormat | MsgErrorType | MsgErrorOpen
  | MsgWarnSeek | OutEvent pb_event | OutBuffer int data | UpSeek "64 word" int
  | PadAdded | NoMorePads | StartTask | StopTask | PauseTask

record 'd pb_dbl =
  d_zero :: 'd
  d_percent :: "int \<Rightarrow> int \<Rightarrow> 'd"
  d_exceeds :: "'d \<Rightarrow> 'd \<Rightarrow> 'd \<Rightarrow> bool"
  d_over_second :: "'d \<Rightarrow> bool"
  d_rate :: "int \<Rightarrow> 'd \<Rightarrow> 'd"
  d_within :: "int \<Rightarrow> 'd \<Rightarrow> 'd \<Rightarrow> bool"
  d_ahead :: "'d \<Rightarrow> 'd \<Rightarrow> int"
  d_positive :: "'d \<Rightarrow> bool"

record 'd pb_env =
  pe_io :: cache_io
  pe_elapsed :: 'd
  pe_push :: GstFlowReturn
  pe_push_event :: bool
  pe_linked :: bool
  pe_task :: bool
  pe_thread :: bool
  pe_mode :: GstPadMode

record 'd ProgressBuffer =
  pb_srcpad :: bool
  pb_cache :: "Cache option"
  pb_pending :: "pb_event option"
  pb_cache_read_offset :: int
  pb_sink_segment :: PbSegment
  pb_last_update :: 'd
  pb_threshold :: 'd
  pb_subtotal :: int
  pb_bandwidth :: 'd
  pb_prebuffer_time :: 'd
  pb_wait_tolerance :: 'd
  pb_unexpected :: bool
  pb_srcresult :: GstFlowReturn
  pb_eos :: bool
  pb_signal_limit :: int
  pb_instant_seek :: bool
  pb_is_source_seeking :: bool
  pb_range_start :: int
  pb_range_stop :: int
  pb_monitor_thread :: bool
  pb_wake :: bool
  pb_log :: "pb_call list"

definition NO_RANGE_REQUEST :: int where
  "NO_RANGE_REQUEST = - 1"

definition EOS_SIGNAL_LIMIT :: int where
  "EOS_SIGNAL_LIMIT = 1"

definition log_pb :: "pb_call \<Rightarrow> 'd ProgressBuffer \<Rightarrow> 'd ProgressBuffer" where
  "log_pb c el = el \<lparr> pb_log := pb_log el @ [c] \<rparr>"

definition cond_signal :: "'d ProgressBuffer \<Rightarrow> 'd ProgressBuffer" where
  "cond_signal el = el \<lparr> pb_wake := True \<rparr>"

section \<open>Initialisation and properties\<close>

definition segment_init :: "GstFormat \<Rightarrow> PbSegment" where
  "segment_init f = \<lparr> ps_format = f, ps_update = False, ps_rate = 1, ps_start = 0, ps_stop = u64 (- 1), ps_position = 0 \<rparr>"

definition progress_buffer_flush_data :: "'d pb_dbl \<Rightarrow> 'd ProgressBuffer \<Rightarrow> 'd ProgressBuffer" where
  "progress_buffer_flush_data D el = el \<lparr> pb_last_update := d_zero D, pb_bandwidth := d_zero D, pb_subtotal := 0,
     pb_pending := None, pb_sink_segment := segment_init GST_FORMAT_BYTES,
     pb_range_start := NO_RANGE_REQUEST, pb_range_stop := NO_RANGE_REQUEST \<rparr>"

text \<open>The structure is allocated with zeros; \<open>GST_FLOW_OK\<close> is zero.\<close>

definition progress_buffer_init :: "'d pb_dbl \<Rightarrow> 'd ProgressBuffer" where
  "progress_buffer_init D = progress_buffer_flush_data D
     \<lparr> pb_srcpad = False, pb_cache = None, pb_pending = None, pb_cache_read_offset = 0,
       pb_sink_segment = segment_init GST_FORMAT_BYTES, pb_last_update = d_zero D, pb_threshold = d_zero D,
       pb_subtotal = 0, pb_bandwidth = d_zero D, pb_prebuffer_time = d_zero D, pb_wait_tolerance = d_zero D,
       pb_unexpected = False, pb_srcresult = GST_FLOW_OK, pb_eos = False, pb_signal_limit = 0,
       pb_instant_seek = False, pb_is_source_seeking = False, pb_range_start = 0, pb_range_stop = 0,
       pb_monitor_thread = False, pb_wake = False, pb_log = [] \<rparr>"

datatype pb_property = PROP_THRESHOLD | PROP_BANDWIDTH | PROP_PREBUFFER_TIME | PROP_WAIT_TOLERANCE | PROP_OTHER nat

definition progress_buffer_set_property :: "pb_property \<Rightarrow> 'd \<Rightarrow> 'd ProgressBuffer \<Rightarrow> 'd ProgressBuffer" where
  "progress_buffer_set_property p v el =
     (case p of PROP_THRESHOLD \<Rightarrow> el \<lparr> pb_threshold := v \<rparr>
      | PROP_PREBUFFER_TIME \<Rightarrow> el \<lparr> pb_prebuffer_time := v \<rparr>
      | PROP_WAIT_TOLERANCE \<Rightarrow> el \<lparr> pb_wait_tolerance := v \<rparr>
      | _ \<Rightarrow> el)"

definition progress_buffer_get_property :: "pb_property \<Rightarrow> 'd ProgressBuffer \<Rightarrow> 'd option" where
  "progress_buffer_get_property p el =
     (case p of PROP_THRESHOLD \<Rightarrow> Some (pb_threshold el)
      | PROP_BANDWIDTH \<Rightarrow> Some (pb_bandwidth el)
      | PROP_PREBUFFER_TIME \<Rightarrow> Some (pb_prebuffer_time el)
      | PROP_WAIT_TOLERANCE \<Rightarrow> Some (pb_wait_tolerance el)
      | PROP_OTHER _ \<Rightarrow> None)"

definition progress_buffer_set_pending_event :: "'d ProgressBuffer \<Rightarrow> pb_event option \<Rightarrow> 'd ProgressBuffer" where
  "progress_buffer_set_pending_event el ev = el \<lparr> pb_pending := ev \<rparr>"

definition reset_eos :: "'d ProgressBuffer \<Rightarrow> bool \<Rightarrow> 'd ProgressBuffer" where
  "reset_eos el clear_pending_event =
     (let el = el \<lparr> pb_eos := False, pb_signal_limit := EOS_SIGNAL_LIMIT \<rparr>
      in if clear_pending_event then progress_buffer_set_pending_event el None else el)"

definition pending_eos :: "'d ProgressBuffer \<Rightarrow> bool \<times> 'd ProgressBuffer" where
  "pending_eos el =
     (if pb_eos el \<and> 0 < pb_signal_limit el then (True, el \<lparr> pb_signal_limit := pb_signal_limit el - 1 \<rparr>)
      else (False, el))"

section \<open>Activation\<close>

definition reset_source :: "'d ProgressBuffer \<Rightarrow> 'd ProgressBuffer" where
  "reset_source el = (reset_eos (el \<lparr> pb_srcresult := GST_FLOW_OK \<rparr>) False) \<lparr> pb_unexpected := False \<rparr>"

definition progress_buffer_activatepull_src :: "'d pb_env \<Rightarrow> bool \<Rightarrow> 'd ProgressBuffer \<Rightarrow> bool \<times> 'd ProgressBuffer" where
  "progress_buffer_activatepull_src env active el =
     (if active then
        let el = reset_source el;
            el = (if \<not> pb_monitor_thread el then el \<lparr> pb_monitor_thread := pe_thread env \<rparr> else el)
        in (pb_monitor_thread el, el)
      else if pb_monitor_thread el
      then (True, (cond_signal (el \<lparr> pb_srcresult := GST_FLOW_FLUSHING \<rparr>)) \<lparr> pb_monitor_thread := False \<rparr>)
      else (True, el))"

definition progress_buffer_activatepush_src :: "'d pb_env \<Rightarrow> bool \<Rightarrow> 'd ProgressBuffer \<Rightarrow> bool \<times> 'd ProgressBuffer" where
  "progress_buffer_activatepush_src env active el =
     (if active then
        let el = reset_source el
        in if pe_linked env then (pe_task env, log_pb StartTask el) else (True, el)
      else (pe_task env, log_pb StopTask (cond_signal (el \<lparr> pb_srcresult := GST_FLOW_FLUSHING \<rparr>))))"

definition progress_buffer_activatemode ::
  "'d pb_env \<Rightarrow> GstPadMode \<Rightarrow> bool \<Rightarrow> 'd ProgressBuffer \<Rightarrow> bool \<times> 'd ProgressBuffer" where
  "progress_buffer_activatemode env mode active el =
     (case mode of GST_PAD_MODE_PUSH \<Rightarrow> progress_buffer_activatepush_src env active el
      | GST_PAD_MODE_PULL \<Rightarrow> progress_buffer_activatepull_src env active el
      | _ \<Rightarrow> (False, el))"

text \<open>\<open>gst_pad_set_active\<close> activates the pad in the mode that suits its peer, \<open>pe_mode\<close>.\<close>

definition progress_buffer_create_sourcepad :: "'d pb_env \<Rightarrow> 'd ProgressBuffer \<Rightarrow> 'd ProgressBuffer" where
  "progress_buffer_create_sourcepad env el =
     (let el = log_pb PadAdded (el \<lparr> pb_srcpad := True \<rparr>);
          el = snd (progress_buffer_activatemode env (pe_mode env) True el)
      in log_pb NoMorePads el)"

section \<open>Receiving\<close>

definition send_position_message :: "'d pb_dbl \<Rightarrow> 'd ProgressBuffer \<Rightarrow> bool \<Rightarrow> bool \<times> 'd ProgressBuffer" where
  "send_position_message D el mandatory =
     (let sg = pb_sink_segment el;
          percent = d_percent D (ps_position sg) (ps_stop sg);
          mandatory = (mandatory \<or> d_exceeds D percent (pb_last_update el) (pb_threshold el))
      in if mandatory
         then (True, (log_pb (MsgBuffering (ps_start sg) (ps_position sg) (ps_stop sg) (pb_eos el)) el)
                       \<lparr> pb_last_update := percent \<rparr>)
         else (False, el))"

definition signal_if :: "bool \<times> 'd ProgressBuffer \<Rightarrow> 'd ProgressBuffer" where
  "signal_if r = (if fst r then cond_signal (snd r) else snd r)"

definition update_bandwidth :: "'d pb_dbl \<Rightarrow> 'd \<Rightarrow> nat \<Rightarrow> 'd ProgressBuffer \<Rightarrow> 'd ProgressBuffer" where
  "update_bandwidth D elapsed n el =
     (let el = el \<lparr> pb_subtotal := u64 (pb_subtotal el + int n) \<rparr>
      in if d_over_second D elapsed
         then el \<lparr> pb_bandwidth := d_rate D (pb_subtotal el) elapsed, pb_subtotal := 0 \<rparr> else el)"

definition enqueue_buffer ::
  "'d pb_dbl \<Rightarrow> 'd pb_env \<Rightarrow> 'd ProgressBuffer \<Rightarrow> int \<Rightarrow> data \<Rightarrow> (GstFlowReturn \<times> 'd ProgressBuffer) option" where
  "enqueue_buffer D env el offset d =
     (let el = el \<lparr> pb_sink_segment := (pb_sink_segment el) \<lparr> ps_position := u64 (offset + int (length d)) \<rparr> \<rparr>
      in if ps_stop (pb_sink_segment el) < ps_position (pb_sink_segment el) then Some (GST_FLOW_ERROR, el)
         else do {
           c \<leftarrow> pb_cache el;
           let el = el \<lparr> pb_cache := Some (cache_write_buffer (pe_io env) c d) \<rparr>;
           let el = update_bandwidth D (pe_elapsed env) (length d) el;
           Some (GST_FLOW_OK, signal_if (send_position_message D el False)) })"

definition enqueue_eos :: "'d pb_dbl \<Rightarrow> 'd ProgressBuffer \<Rightarrow> GstFlowReturn \<times> 'd ProgressBuffer" where
  "enqueue_eos D el =
     (let el = el \<lparr> pb_eos := True \<rparr>;
          sg = pb_sink_segment el;
          el = (if ps_position sg < ps_stop sg
                then el \<lparr> pb_sink_segment := sg \<lparr> ps_stop := ps_position sg \<rparr> \<rparr> else el);
          el = progress_buffer_set_pending_event el None
      in (GST_FLOW_OK, signal_if (send_position_message D el True)))"

definition enqueue_segment ::
  "'d pb_dbl \<Rightarrow> 'd pb_env \<Rightarrow> 'd ProgressBuffer \<Rightarrow> PbSegment \<Rightarrow> (GstFlowReturn \<times> 'd ProgressBuffer) option" where
  "enqueue_segment D env el segment =
     (let el = el \<lparr> pb_unexpected := False \<rparr>;
          install = (\<lambda>el. let el = el \<lparr> pb_sink_segment := segment \<rparr>;
                              el = progress_buffer_set_pending_event el (Some (PbSegmentEvent segment))
                          in (GST_FLOW_OK, signal_if (send_position_message D (el \<lparr> pb_instant_seek := True \<rparr>) True)))
      in if ps_format segment \<noteq> GST_FORMAT_BYTES then Some (GST_FLOW_ERROR, log_pb MsgErrorFormat el)
         else if u64 (ps_stop segment - ps_start segment) \<le> 0 then Some (GST_FLOW_ERROR, log_pb MsgErrorType el)
         else if ps_update segment
         then (let el = el \<lparr> pb_cache := create_cache (pe_io env) \<rparr>
               in if pb_cache el = None then Some (GST_FLOW_ERROR, log_pb MsgErrorOpen el) else Some (install el))
         else do {
           c \<leftarrow> pb_cache el;
           let c = snd (cache_set_write_position (pe_io env) c 0);
           let c = snd (cache_set_read_position (pe_io env) c 0);
           Some (install (el \<lparr> pb_cache := Some c, pb_cache_read_offset := ps_start segment \<rparr>)) })"

datatype pb_item = ItemBuffer int data | ItemEvent pb_event

definition progress_buffer_enqueue_item ::
  "'d pb_dbl \<Rightarrow> 'd pb_env \<Rightarrow> 'd ProgressBuffer \<Rightarrow> pb_item \<Rightarrow> (GstFlowReturn \<times> 'd ProgressBuffer) option" where
  "progress_buffer_enqueue_item D env el item =
     (case item of ItemBuffer offset d \<Rightarrow> enqueue_buffer D env el offset d
      | ItemEvent ev \<Rightarrow>
          (case ev of PbEos \<Rightarrow> Some (enqueue_eos D el)
           | PbSegmentEvent segment \<Rightarrow> enqueue_segment D env el segment
           | _ \<Rightarrow> Some (GST_FLOW_OK, el)))"

definition progress_buffer_chain ::
  "'d pb_dbl \<Rightarrow> 'd pb_env \<Rightarrow> 'd ProgressBuffer \<Rightarrow> int \<Rightarrow> data \<Rightarrow> (GstFlowReturn \<times> 'd ProgressBuffer) option" where
  "progress_buffer_chain D env el offset d = do {
     (result, el) \<leftarrow> (if pb_eos el \<or> pb_unexpected el then Some (GST_FLOW_EOS, el)
                      else progress_buffer_enqueue_item D env el (ItemBuffer offset d));
     Some (result, if result \<noteq> GST_FLOW_ERROR \<and> \<not> pb_srcpad el
                   then progress_buffer_create_sourcepad env el else el) }"

definition progress_buffer_sink_event ::
  "'d pb_dbl \<Rightarrow> 'd pb_env \<Rightarrow> 'd ProgressBuffer \<Rightarrow> pb_event \<Rightarrow> (bool \<times> 'd ProgressBuffer) option" where
  "progress_buffer_sink_event D env el ev =
     (if pb_is_source_seeking el \<and> (ev = PbFlushStart \<or> ev = PbFlushStop) then Some (True, el)
      else if is_serialized ev \<and> ev \<noteq> PbFlushStop
      then if pb_eos el then Some (False, el)
           else do { (_, el) \<leftarrow> progress_buffer_enqueue_item D env el (ItemEvent ev); Some (True, el) }
      else Some (pe_push_event env, log_pb (OutEvent ev) el))"

section \<open>The task\<close>

text \<open>
  Where the task is: at the label \<open>next_item\<close> with the lock free, waiting for \<open>add_cond\<close>, about to push an event or a
  buffer (without the lock), or paused. The flag is the local variable \<open>skip\<close>; the task starts its function
  over with \<open>skip\<close> clear.
\<close>

datatype loop_pc = LTop bool | LWait bool | LPushEvent pb_event GstFlowReturn | LPushBuffer int data | LPaused

definition send_underrun_message :: "'d ProgressBuffer \<Rightarrow> 'd ProgressBuffer" where
  "send_underrun_message el = log_pb MsgUnderrun el"

definition loop_event :: "'d ProgressBuffer \<Rightarrow> pb_event \<Rightarrow> bool \<Rightarrow> 'd ProgressBuffer \<times> loop_pc" where
  "loop_event el ev skip =
     (let el = progress_buffer_set_pending_event el None
      in case ev of
           PbEos \<Rightarrow> (el \<lparr> pb_srcresult := GST_FLOW_EOS \<rparr>, LPushEvent ev GST_FLOW_EOS)
         | PbSegmentEvent _ \<Rightarrow> (el \<lparr> pb_srcresult := GST_FLOW_OK \<rparr>, LPushEvent ev GST_FLOW_OK)
         | _ \<Rightarrow> if skip then (el, LTop skip)
               else (el \<lparr> pb_srcresult := GST_FLOW_OK \<rparr>, LPushEvent ev GST_FLOW_OK))"

definition loop_buffer :: "'d pb_env \<Rightarrow> 'd ProgressBuffer \<Rightarrow> bool \<Rightarrow> ('d ProgressBuffer \<times> loop_pc) option" where
  "loop_buffer env el skip = do {
     c \<leftarrow> pb_cache el;
     let (read_position, buffer, c) = cache_read_buffer (pe_io env) c;
     b \<leftarrow> buffer;
     let read_position = u64 (read_position + pb_cache_read_offset el);
     let offset = u64 (read_position - int (length (cb_data b)));
     let el = el \<lparr> pb_cache := Some c \<rparr>;
     let el = (if read_position = ps_stop (pb_sink_segment el)
               then progress_buffer_set_pending_event el (Some PbEos) else el);
     Some (el, if skip then LTop skip else LPushBuffer offset (cb_data b)) }"

definition must_wait :: "'d ProgressBuffer \<Rightarrow> bool option" where
  "must_wait el =
     (if pb_srcresult el = GST_FLOW_OK \<and> pb_pending el = None
      then do { c \<leftarrow> pb_cache el; Some (\<not> cache_has_enough_data c \<or> \<not> pb_instant_seek el) }
      else Some False)"

definition loop_next_item :: "'d pb_env \<Rightarrow> 'd ProgressBuffer \<Rightarrow> bool \<Rightarrow> ('d ProgressBuffer \<times> loop_pc) option" where
  "loop_next_item env el skip = do {
     wait \<leftarrow> must_wait el;
     if wait then Some (if pb_instant_seek el then send_underrun_message el else el, LWait skip)
     else if pb_srcresult el = GST_FLOW_OK
     then (case pb_pending el of Some ev \<Rightarrow> Some (loop_event el ev skip) | None \<Rightarrow> loop_buffer env el skip)
     else if skip then Some (el \<lparr> pb_unexpected := True \<rparr>, LTop False)
     else Some (log_pb PauseTask el, LPaused) }"

definition loop_pushed :: "'d pb_env \<Rightarrow> 'd ProgressBuffer \<Rightarrow> loop_pc \<Rightarrow> 'd ProgressBuffer \<times> loop_pc" where
  "loop_pushed env el pc =
     (case pc of
        LPushEvent ev result \<Rightarrow>
          (let el = log_pb (OutEvent ev) el
           in if result \<noteq> GST_FLOW_OK then (log_pb PauseTask el, LPaused) else (el, LTop False))
      | LPushBuffer offset d \<Rightarrow>
          (let el = log_pb (OutBuffer offset d) el; result = pe_push env
           in if result = GST_FLOW_EOS then (el, LTop True)
              else let el = el \<lparr> pb_srcresult := result \<rparr>
                   in if result \<noteq> GST_FLOW_OK then (log_pb PauseTask el, LPaused) else (el, LTop False))
      | _ \<Rightarrow> (el, pc))"

definition progress_buffer_loop :: "'d pb_env \<Rightarrow> 'd ProgressBuffer \<Rightarrow> loop_pc \<Rightarrow> ('d ProgressBuffer \<times> loop_pc) option" where
  "progress_buffer_loop env el pc =
     (case pc of LTop skip \<Rightarrow> loop_next_item env el skip
      | LWait skip \<Rightarrow> Some (el, pc)
      | LPaused \<Rightarrow> Some (el, pc)
      | _ \<Rightarrow> Some (loop_pushed env el pc))"

section \<open>Seeks\<close>

record pb_seek =
  sk_rate :: "64 word"
  sk_format :: GstFormat
  sk_flush :: bool
  sk_start_set :: bool
  sk_stop_none :: bool
  sk_position :: int

definition seek_segment :: "'d ProgressBuffer \<Rightarrow> pb_seek \<Rightarrow> PbSegment" where
  "seek_segment el sk = (segment_init GST_FORMAT_BYTES)
     \<lparr> ps_rate := sk_rate sk, ps_start := u64 (sk_position sk), ps_stop := ps_stop (pb_sink_segment el),
       ps_position := u64 (sk_position sk) \<rparr>"

definition seek_in_cache :: "'d pb_env \<Rightarrow> 'd ProgressBuffer \<Rightarrow> pb_seek \<Rightarrow> 'd ProgressBuffer option" where
  "seek_in_cache env el sk = do {
     c \<leftarrow> pb_cache el;
     let c = snd (cache_set_read_position (pe_io env) c (sk_position sk - pb_cache_read_offset el));
     Some (progress_buffer_set_pending_event (el \<lparr> pb_cache := Some c \<rparr>)
             (Some (PbSegmentEvent (seek_segment el sk)))) }"

text \<open>The part of a seek before the stream lock: the task is told to leave its function.\<close>

definition push_seek_stop :: "pb_seek \<Rightarrow> 'd ProgressBuffer \<Rightarrow> 'd ProgressBuffer" where
  "push_seek_stop sk el =
     (let el = (if sk_flush sk then log_pb (OutEvent PbFlushStart) el else el)
      in cond_signal (el \<lparr> pb_srcresult := GST_FLOW_FLUSHING \<rparr>))"

text \<open>
  The part of a seek under the stream lock, when the task is outside of its function: the position is
  in the cache or expected there soon, or else the source has to seek. While the source handles that event
  it calls the handlers of the sink pad.
\<close>

definition push_seek_prepare :: "'d pb_dbl \<Rightarrow> 'd pb_env \<Rightarrow> pb_seek \<Rightarrow> 'd ProgressBuffer \<Rightarrow> 'd ProgressBuffer option" where
  "push_seek_prepare D env sk el = do {
     let position = sk_position sk;
     let el = el \<lparr> pb_srcresult := GST_FLOW_OK \<rparr>;
     let el = el \<lparr> pb_instant_seek := (ps_start (pb_sink_segment el) \<le> u64 position \<and>
                 d_within D (position - i64 (ps_position (pb_sink_segment el))) (pb_bandwidth el) (pb_wait_tolerance el)) \<rparr>;
     el \<leftarrow> (if pb_instant_seek el then seek_in_cache env el sk else Some (reset_eos el True));
     Some (if pb_instant_seek el then el
           else log_pb (UpSeek (sk_rate sk) position) (el \<lparr> pb_is_source_seeking := True \<rparr>)) }"

definition push_seek_finish :: "'d pb_env \<Rightarrow> pb_seek \<Rightarrow> 'd ProgressBuffer \<Rightarrow> 'd ProgressBuffer option" where
  "push_seek_finish env sk el = do {
     el \<leftarrow> (if pb_is_source_seeking el
           then do {
             el \<leftarrow> (if pe_push_event env then Some el else seek_in_cache env (el \<lparr> pb_instant_seek := True \<rparr>) sk);
             Some (el \<lparr> pb_is_source_seeking := False \<rparr>) }
           else Some el);
     let el = (if sk_flush sk then log_pb (OutEvent PbFlushStop) el else el);
     Some (log_pb StartTask el) }"

definition progress_buffer_perform_push_seek ::
  "'d pb_dbl \<Rightarrow> 'd pb_env \<Rightarrow> 'd ProgressBuffer \<Rightarrow> pb_seek \<Rightarrow> (bool \<times> 'd ProgressBuffer) option" where
  "progress_buffer_perform_push_seek D env el sk =
     (if sk_format sk \<noteq> GST_FORMAT_BYTES \<or> \<not> sk_start_set sk then Some (False, el)
      else if \<not> sk_stop_none sk then Some (False, log_pb MsgWarnSeek el)
      else do {
        el \<leftarrow> push_seek_prepare D env sk (push_seek_stop sk el);
        el \<leftarrow> push_seek_finish env sk el;
        Some (True, el) })"

definition progress_buffer_src_event ::
  "'d pb_dbl \<Rightarrow> 'd pb_env \<Rightarrow> GstPadMode \<Rightarrow> 'd ProgressBuffer \<Rightarrow> pb_seek option \<Rightarrow> (bool \<times> 'd ProgressBuffer) option" where
  "progress_buffer_src_event D env mode el ev =
     (if mode = GST_PAD_MODE_PUSH \<and> ev \<noteq> None then progress_buffer_perform_push_seek D env el (the ev)
      else if mode = GST_PAD_MODE_PULL then Some (True, el)
      else Some (pe_push_event env, el))"

section \<open>Pull mode\<close>

definition VALID_RANGE :: "int \<Rightarrow> bool" where
  "VALID_RANGE v \<longleftrightarrow> v \<noteq> NO_RANGE_REQUEST"

definition pending_range_start :: "'d ProgressBuffer \<Rightarrow> bool" where
  "pending_range_start el \<longleftrightarrow> VALID_RANGE (pb_range_start el) \<and> u64 (pb_range_start el) < ps_start (pb_sink_segment el)"

definition pending_range_stop :: "'d ProgressBuffer \<Rightarrow> bool" where
  "pending_range_stop el \<longleftrightarrow> VALID_RANGE (pb_range_stop el) \<and> ps_position (pb_sink_segment el) < u64 (pb_range_stop el)"

text \<open>Where the monitor thread is: at the label \<open>check_loop\<close>, waiting, about to push the event, or at its end.\<close>

datatype monitor_pc = MCheck | MWait | MPush | MEnd

definition monitor_check :: "'d ProgressBuffer \<Rightarrow> 'd ProgressBuffer \<times> monitor_pc" where
  "monitor_check el =
     (if pb_srcresult el \<noteq> GST_FLOW_OK then (el, MEnd)
      else let (eos, el) = pending_eos el
           in if \<not> eos \<and> (pending_range_start el \<or> pending_range_stop el \<or>
                         \<not> VALID_RANGE (pb_range_start el) \<and> \<not> VALID_RANGE (pb_range_stop el))
              then (el, MWait)
              else if VALID_RANGE (pb_range_start el) \<or> VALID_RANGE (pb_range_stop el)
              then (el \<lparr> pb_range_stop := NO_RANGE_REQUEST, pb_range_start := NO_RANGE_REQUEST \<rparr>, MPush)
              else (el, MEnd))"

definition progress_buffer_range_monitor :: "'d ProgressBuffer \<Rightarrow> monitor_pc \<Rightarrow> 'd ProgressBuffer \<times> monitor_pc" where
  "progress_buffer_range_monitor el pc =
     (case pc of MCheck \<Rightarrow> monitor_check el
      | MPush \<Rightarrow> (log_pb (OutEvent PbRangeReady) el, MCheck)
      | _ \<Rightarrow> (el, pc))"

text \<open>A range that is not in the cache is noted for the monitor thread; the flag says that the source has to seek.\<close>

definition request_range :: "'d pb_dbl \<Rightarrow> 'd ProgressBuffer \<Rightarrow> int \<Rightarrow> int \<Rightarrow> bool \<times> 'd ProgressBuffer" where
  "request_range D el start_position end_position =
     (let needs_seeking = (start_position < ps_start (pb_sink_segment el));
          el = (if needs_seeking then reset_eos (el \<lparr> pb_range_start := start_position \<rparr>) True else el);
          position = ps_position (pb_sink_segment el);
          stop = ps_stop (pb_sink_segment el)
      in if position < end_position
         then let range_stop = end_position + d_ahead D (pb_bandwidth el) (pb_prebuffer_time el);
                  range_stop = (if stop < u64 range_stop then stop else range_stop)
              in (d_positive D (pb_bandwidth el) \<and>
                    \<not> d_within D (u64 (end_position - position)) (pb_bandwidth el) (pb_wait_tolerance el),
                  el \<lparr> pb_range_stop := range_stop \<rparr>)
         else (needs_seeking, el))"

definition progress_buffer_getrange ::
  "'d pb_dbl \<Rightarrow> 'd pb_env \<Rightarrow> 'd ProgressBuffer \<Rightarrow> int \<Rightarrow> nat
   \<Rightarrow> (GstFlowReturn \<times> CacheBuffer option \<times> 'd ProgressBuffer) option" where
  "progress_buffer_getrange D env el start_position n =
     (let end_position = u64 (start_position + int n); sg = pb_sink_segment el
      in if ps_stop sg < end_position then Some (GST_FLOW_EOS, None, el)
         else if ps_start sg \<le> start_position \<and> end_position \<le> ps_position sg
         then do {
           c \<leftarrow> pb_cache el;
           let (result, buffer, c) = cache_read_buffer_from_position (pe_io env) c start_position n;
           Some (result, buffer, el \<lparr> pb_cache := Some c \<rparr>) }
         else let (needs_seeking, el) = request_range D el start_position end_position;
                  el = send_underrun_message el
              in Some (GST_FLOW_FLUSHING, None,
                   if needs_seeking then log_pb (UpSeek (ps_rate (pb_sink_segment el)) start_position) el else el))"

section \<open>State changes\<close>

definition progress_buffer_change_state ::
  "'d pb_dbl \<Rightarrow> bool \<Rightarrow> bool \<Rightarrow> 'd ProgressBuffer \<Rightarrow> 'd ProgressBuffer" where
  "progress_buffer_change_state D parent_failed paused_to_ready el =
     (if parent_failed then el
      else if paused_to_ready
      then cond_signal (progress_buffer_flush_data D (el \<lparr> pb_srcresult := GST_FLOW_FLUSHING \<rparr>))
      else el)"

end
