(* ===== verification/Progress_Stream.thy ===== *)
theory Progress_Stream
  imports Progress_Buffer
begin

text \<open>
  The progress buffer as two threads: the source, which calls the handlers of the sink pad, and the task, which runs
  \<open>progress_buffer_loop\<close>. A state of the system is the element with the place of the task; an action is one
  handler, or one section of the task between two points where it holds no lock, and a signal moves a waiting task back to the
  label \<open>next_item\<close>. The relation \<open>stream\<close> holds of the states that such actions reach while the
  system's calls succeed and downstream takes what it is given; it also collects the bytes received.

  The lemmas show what is pushed downstream in every interleaving, that the end of the stream is
  pushed when its event arrives while bytes are unread, and that it is lost otherwise.
\<close>

section \<open>The system\<close>

record 'd pbsys =
  sy_el :: "'d ProgressBuffer"
  sy_pc :: loop_pc

datatype 'd pb_act = AData "'d pb_env" int data | AEvent "'d pb_env" pb_event | ALoop "'d pb_env" | AWake

definition wake_pc :: "loop_pc \<Rightarrow> loop_pc" where
  "wake_pc pc = (case pc of LWait skip \<Rightarrow> LTop skip | _ \<Rightarrow> pc)"

definition settle :: "'d ProgressBuffer \<Rightarrow> loop_pc \<Rightarrow> 'd pbsys" where
  "settle el pc = \<lparr> sy_el = el \<lparr> pb_wake := False \<rparr>, sy_pc = (if pb_wake el then wake_pc pc else pc) \<rparr>"

definition pb_step :: "'d pb_dbl \<Rightarrow> 'd pb_act \<Rightarrow> 'd pbsys \<Rightarrow> 'd pbsys option" where
  "pb_step D a s =
     (case a of
        AData env offset d \<Rightarrow> do { (_, el) \<leftarrow> progress_buffer_chain D env (sy_el s) offset d; Some (settle el (sy_pc s)) }
      | AEvent env ev \<Rightarrow> do { (_, el) \<leftarrow> progress_buffer_sink_event D env (sy_el s) ev; Some (settle el (sy_pc s)) }
      | ALoop env \<Rightarrow> do { (el, pc) \<leftarrow> progress_buffer_loop env (sy_el s) (sy_pc s); Some \<lparr> sy_el = el, sy_pc = pc \<rparr> }
      | AWake \<Rightarrow> Some (s \<lparr> sy_pc := wake_pc (sy_pc s) \<rparr>))"

fun pb_run :: "'d pb_dbl \<Rightarrow> 'd pb_act list \<Rightarrow> 'd pbsys \<Rightarrow> 'd pbsys option" where
  "pb_run D [] s = Some s"
| "pb_run D (a # as) s = do { s' \<leftarrow> pb_step D a s; pb_run D as s' }"

section \<open>What is pushed downstream\<close>

fun out_bytes :: "pb_call list \<Rightarrow> data" where
  "out_bytes [] = []"
| "out_bytes (OutBuffer off d # l) = d @ out_bytes l"
| "out_bytes (_ # l) = out_bytes l"

fun in_order :: "int \<Rightarrow> pb_call list \<Rightarrow> bool" where
  "in_order p [] = True"
| "in_order p (OutBuffer off d # l) \<longleftrightarrow> off = p \<and> in_order (p + int (length d)) l"
| "in_order p (_ # l) \<longleftrightarrow> in_order p l"

definition is_out :: "pb_call \<Rightarrow> bool" where
  "is_out c = (case c of OutBuffer _ _ \<Rightarrow> True | OutEvent PbEos \<Rightarrow> True | _ \<Rightarrow> False)"

definition eos_sent :: "pb_call list \<Rightarrow> bool" where
  "eos_sent l \<longleftrightarrow> OutEvent PbEos \<in> set l"

lemma out_bytes_append [simp]: "out_bytes (l @ m) = out_bytes l @ out_bytes m"
  by (induction l rule: out_bytes.induct) auto

lemma in_order_append [simp]: "in_order p (l @ m) \<longleftrightarrow> in_order p l \<and> in_order (p + int (length (out_bytes l))) m"
  by (induction p l rule: in_order.induct) (auto simp: algebra_simps)

lemma eos_sent_append [simp]: "eos_sent (l @ m) \<longleftrightarrow> eos_sent l \<or> eos_sent m"
  by (auto simp: eos_sent_def)

lemma hushed_call:
  assumes "\<not> is_out c"
  shows "out_bytes [c] = []" "in_order p [c]" "\<not> eos_sent [c]"
  using assms by (cases c; auto simp: is_out_def eos_sent_def split: pb_event.splits)+

definition flight :: "loop_pc \<Rightarrow> data" where
  "flight pc = (case pc of LPushBuffer _ d \<Rightarrow> d | _ \<Rightarrow> [])"

section \<open>Streaming\<close>

definition env_good :: "'d pb_env \<Rightarrow> bool" where
  "env_good env \<longleftrightarrow> io_good (pe_io env) \<and> pe_push env = GST_FLOW_OK"

text \<open>The source sends the bytes in order and no more than the segment has, and no second segment.\<close>

definition calls_good :: "'d pb_act \<Rightarrow> bool" where
  "calls_good a = (case a of AData env _ _ \<Rightarrow> env_good env | AEvent env _ \<Rightarrow> env_good env | ALoop env \<Rightarrow> env_good env | AWake \<Rightarrow> True)"

definition in_turn :: "'d pbsys \<Rightarrow> 'd pb_act \<Rightarrow> bool" where
  "in_turn s a =
     (case a of
        AData env offset d \<Rightarrow> pb_eos (sy_el s) \<or> offset = ps_position (pb_sink_segment (sy_el s)) \<and>
             offset + int (length d) \<le> ps_stop (pb_sink_segment (sy_el s))
      | AEvent env ev \<Rightarrow> (case ev of PbSegmentEvent sg \<Rightarrow> False | _ \<Rightarrow> True)
      | _ \<Rightarrow> True)"

definition admissible :: "'d pbsys \<Rightarrow> 'd pb_act \<Rightarrow> bool" where
  "admissible s a \<longleftrightarrow> calls_good a \<and> in_turn s a"

definition taken :: "'d pbsys \<Rightarrow> 'd pb_act \<Rightarrow> data" where
  "taken s a = (case a of AData env offset d \<Rightarrow> if pb_eos (sy_el s) then [] else d | _ \<Rightarrow> [])"

inductive stream :: "'d pb_dbl \<Rightarrow> 'd pbsys \<Rightarrow> data \<Rightarrow> 'd pbsys \<Rightarrow> bool" for D s0 where
  start: "stream D s0 [] s0"
| step: "stream D s0 rs s \<Longrightarrow> admissible s a \<Longrightarrow> pb_step D a s = Some s' \<Longrightarrow> stream D s0 (rs @ taken s a) s'"

text \<open>A list of actions taken one after the other.\<close>

fun turns :: "'d pb_dbl \<Rightarrow> 'd pb_act list \<Rightarrow> 'd pbsys \<Rightarrow> (data \<times> 'd pbsys) option" where
  "turns D [] s = Some ([], s)"
| "turns D (a # as) s =
     (if in_turn s a then do { s' \<leftarrow> pb_step D a s; (rs, t) \<leftarrow> turns D as s'; Some (taken s a @ rs, t) } else None)"

lemma turns_stream:
  assumes "stream D s0 rs s" "list_all calls_good as" "turns D as s = Some (rs', t)"
  shows "stream D s0 (rs @ rs') t"
  using assms
proof (induction as arbitrary: rs s rs')
  case Nil
  then show ?case by simp
next
  case (Cons a as)
  then obtain s1 r2 where s: "in_turn s a" "pb_step D a s = Some s1" "turns D as s1 = Some (r2, t)" "rs' = taken s a @ r2"
    by (auto split: if_splits bind_splits)
  have "stream D s0 (rs @ taken s a) s1"
    using stream.step [OF Cons.prems(1) _ s(2)] s(1) Cons.prems(2) by (simp add: admissible_def)
  from Cons.IH [OF this _ s(3)] show ?case using Cons.prems(2) s(4) by simp
qed

text \<open>The element when a segment has begun: its pad exists, nothing has been read from the cache.\<close>

definition begun :: "'d pbsys \<Rightarrow> bool" where
  "begun s \<longleftrightarrow>
     (let el = sy_el s; sg = pb_sink_segment el
      in pb_srcpad el \<and> pb_srcresult el = GST_FLOW_OK \<and> \<not> pb_eos el \<and> \<not> pb_unexpected el \<and> pb_instant_seek el \<and>
         \<not> pb_is_source_seeking el \<and> \<not> pb_wake el \<and> pb_pending el \<noteq> Some PbEos \<and>
         pb_cache_read_offset el = ps_start sg \<and> 0 \<le> ps_start sg \<and> ps_position sg \<le> ps_stop sg \<and> ps_stop sg < 18446744073709551616 \<and>
         list_all (\<lambda>c. \<not> is_out c) (pb_log el) \<and> sy_pc s \<in> {LTop False, LWait False} \<and>
         (case pb_cache el of None \<Rightarrow> False
          | Some c \<Rightarrow> cache_inv c \<and> c_readHandle c = 0 \<and> ps_position sg = ps_start sg + int (length (written c))))"

text \<open>The bytes the cache has already got when the segment has begun.\<close>

definition initial :: "'d pbsys \<Rightarrow> data" where
  "initial s = (case pb_cache (sy_el s) of None \<Rightarrow> [] | Some c \<Rightarrow> written c)"

text \<open>The invariant, for a segment from \<open>p\<close> to \<open>q\<close> of which the bytes \<open>rs\<close> have arrived.\<close>

definition flows :: "GstFlowReturn \<Rightarrow> loop_pc \<Rightarrow> bool" where
  "flows res pc \<longleftrightarrow>
     (case pc of LTop skip \<Rightarrow> \<not> skip \<and> res = GST_FLOW_OK
      | LWait skip \<Rightarrow> \<not> skip \<and> res = GST_FLOW_OK
      | LPushEvent ev r \<Rightarrow> r = res \<and> r = (if ev = PbEos then GST_FLOW_EOS else GST_FLOW_OK)
      | LPushBuffer _ _ \<Rightarrow> res = GST_FLOW_OK
      | LPaused \<Rightarrow> res = GST_FLOW_EOS)"

definition ending :: "pb_event option \<Rightarrow> loop_pc \<Rightarrow> bool" where
  "ending pending pc \<longleftrightarrow> pending = Some PbEos \<or> pc = LPaused \<or> (\<exists>r. pc = LPushEvent PbEos r)"

definition stream_inv :: "int \<Rightarrow> int \<Rightarrow> data \<Rightarrow> 'd ProgressBuffer \<Rightarrow> loop_pc \<Rightarrow> Cache \<Rightarrow> bool" where
  "stream_inv p q rs el pc c \<longleftrightarrow>
     pb_srcpad el \<and> pb_instant_seek el \<and> \<not> pb_is_source_seeking el \<and> \<not> pb_wake el \<and> \<not> pb_unexpected el \<and>
     pb_cache el = Some c \<and> cache_inv c \<and> written c = rs \<and> pb_cache_read_offset el = p \<and>
     ps_position (pb_sink_segment el) = p + int (length rs) \<and>
     ps_stop (pb_sink_segment el) = (if pb_eos el then p + int (length rs) else q) \<and>
     0 \<le> p \<and> p + int (length rs) \<le> q \<and> q < 18446744073709551616 \<and>
     out_bytes (pb_log el) @ flight pc @ unread c = rs \<and> in_order p (pb_log el) \<and>
     (\<forall>off d. pc = LPushBuffer off d \<longrightarrow> off = p + int (length (out_bytes (pb_log el)))) \<and>
     (ending (pb_pending el) pc \<longrightarrow> unread c = [] \<and> (pb_eos el \<or> q = p + int (length rs))) \<and>
     (eos_sent (pb_log el) \<longleftrightarrow> pc = LPaused) \<and> flows (pb_srcresult el) pc"

section \<open>The handlers of the sink pad\<close>

text \<open>Messages on the way do not concern the stream.\<close>

definition hushed :: "pb_call list \<Rightarrow> bool" where
  "hushed l \<longleftrightarrow> list_all (\<lambda>c. \<not> is_out c) l"

lemma hushed_out:
  assumes "hushed l"
  shows "out_bytes l = []" "in_order p l" "\<not> eos_sent l"
  using assms unfolding hushed_def
  by (induction l) (auto simp: eos_sent_def is_out_def split: pb_call.splits pb_event.splits)

definition stirred :: "'d ProgressBuffer \<Rightarrow> 'd ProgressBuffer \<Rightarrow> bool" where
  "stirred el el' \<longleftrightarrow>
     pb_srcpad el' = pb_srcpad el \<and> pb_instant_seek el' = pb_instant_seek el \<and>
     pb_is_source_seeking el' = pb_is_source_seeking el \<and> pb_unexpected el' = pb_unexpected el \<and>
     pb_cache el' = pb_cache el \<and> pb_cache_read_offset el' = pb_cache_read_offset el \<and>
     pb_sink_segment el' = pb_sink_segment el \<and> pb_eos el' = pb_eos el \<and> pb_pending el' = pb_pending el \<and>
     pb_srcresult el' = pb_srcresult el \<and> (\<exists>ms. hushed ms \<and> pb_log el' = pb_log el @ ms)"

lemma stirred_sel:
  assumes "stirred el el'"
  shows "pb_srcpad el' = pb_srcpad el" "pb_instant_seek el' = pb_instant_seek el"
    "pb_is_source_seeking el' = pb_is_source_seeking el" "pb_unexpected el' = pb_unexpected el"
    "pb_cache el' = pb_cache el" "pb_cache_read_offset el' = pb_cache_read_offset el"
    "pb_sink_segment el' = pb_sink_segment el" "pb_eos el' = pb_eos el" "pb_pending el' = pb_pending el"
    "pb_srcresult el' = pb_srcresult el" "out_bytes (pb_log el') = out_bytes (pb_log el)"
    "in_order p (pb_log el') = in_order p (pb_log el)" "eos_sent (pb_log el') = eos_sent (pb_log el)"
  using assms unfolding stirred_def by (auto simp: hushed_out)

lemma hushed_simps [simp]: "hushed []" "hushed (c # l) \<longleftrightarrow> \<not> is_out c \<and> hushed l" "hushed (l @ m) \<longleftrightarrow> hushed l \<and> hushed m"
  by (simp_all add: hushed_def)

lemma stirred_message: "stirred el (signal_if (send_position_message D el m))"
  by (simp add: stirred_def send_position_message_def signal_if_def cond_signal_def log_pb_def Let_def is_out_def)

lemma stirred_bandwidth: "stirred el (update_bandwidth D t n el)"
  by (simp add: stirred_def update_bandwidth_def Let_def)

lemma stirred_trans: "stirred el e1 \<Longrightarrow> stirred e1 e2 \<Longrightarrow> stirred el e2"
  unfolding stirred_def by (elim conjE exE) simp

lemma wakes_message: "pb_wake (signal_if (send_position_message D el True))"
  by (simp add: send_position_message_def signal_if_def cond_signal_def Let_def)

text \<open>Data that fits is written to the cache; after the end of the stream it is refused.\<close>

lemma u64_id: "0 \<le> x \<Longrightarrow> x < 18446744073709551616 \<Longrightarrow> u64 x = x"
  by (simp add: u64_def)

lemma enqueue_writes:
  assumes "pb_cache el = Some c" "0 \<le> off" "off + int (length d) \<le> ps_stop (pb_sink_segment el)"
    "ps_stop (pb_sink_segment el) < 18446744073709551616"
  shows "\<exists>el'. progress_buffer_enqueue_item D env el (ItemBuffer off d) = Some (GST_FLOW_OK, el') \<and>
    stirred (el \<lparr> pb_sink_segment := (pb_sink_segment el) \<lparr> ps_position := off + int (length d) \<rparr>,
                  pb_cache := Some (cache_write_buffer (pe_io env) c d) \<rparr>) el'"
proof -
  have "u64 (off + int (length d)) = off + int (length d)" using assms by (simp add: u64_id)
  then show ?thesis using assms stirred_trans [OF stirred_bandwidth stirred_message]
    by (simp add: progress_buffer_enqueue_item_def enqueue_buffer_def Let_def)
qed

lemma chain_writes:
  assumes "pb_cache el = Some c" "\<not> pb_eos el" "\<not> pb_unexpected el" "pb_srcpad el"
    and "0 \<le> off" "off + int (length d) \<le> ps_stop (pb_sink_segment el)" "ps_stop (pb_sink_segment el) < 18446744073709551616"
  shows "\<exists>el'. progress_buffer_chain D env el off d = Some (GST_FLOW_OK, el') \<and>
    stirred (el \<lparr> pb_sink_segment := (pb_sink_segment el) \<lparr> ps_position := off + int (length d) \<rparr>,
                  pb_cache := Some (cache_write_buffer (pe_io env) c d) \<rparr>) el'"
proof -
  obtain el' where e: "progress_buffer_enqueue_item D env el (ItemBuffer off d) = Some (GST_FLOW_OK, el')"
    "stirred (el \<lparr> pb_sink_segment := (pb_sink_segment el) \<lparr> ps_position := off + int (length d) \<rparr>,
                  pb_cache := Some (cache_write_buffer (pe_io env) c d) \<rparr>) el'"
    using enqueue_writes [OF assms(1,5-7)] by blast
  then show ?thesis using assms(2-4) stirred_sel(1) [OF e(2)] by (simp add: progress_buffer_chain_def)
qed

lemma chain_refuses:
  "pb_eos el \<Longrightarrow> pb_srcpad el \<Longrightarrow> progress_buffer_chain D env el off d = Some (GST_FLOW_EOS, el)"
  by (simp add: progress_buffer_chain_def)

lemma sink_event_refuses:
  assumes "pb_eos el" "\<not> pb_is_source_seeking el"
  shows "\<exists>r el'. progress_buffer_sink_event D env el ev = Some (r, el') \<and> stirred el el' \<and> pb_wake el' = pb_wake el"
proof (cases "is_serialized ev \<and> ev \<noteq> PbFlushStop")
  case True
  then show ?thesis using assms by (auto simp: progress_buffer_sink_event_def stirred_def)
next
  case False
  then have "\<not> is_out (OutEvent ev)" by (cases ev) (auto simp: is_out_def is_serialized_def)
  then show ?thesis using assms False
    by (auto simp: progress_buffer_sink_event_def stirred_def log_pb_def)
qed

section \<open>The invariant is kept\<close>

lemma wake_pc_simps [simp]:
  "flight (wake_pc pc) = flight pc" "ending ev (wake_pc pc) = ending ev pc" "flows r (wake_pc pc) = flows r pc"
  "wake_pc pc = LPaused \<longleftrightarrow> pc = LPaused" "wake_pc pc = LPushBuffer off d \<longleftrightarrow> pc = LPushBuffer off d"
  by (cases pc; simp add: wake_pc_def flight_def ending_def flows_def)+

lemma inv_wake: "stream_inv p q rs el (wake_pc pc) c \<longleftrightarrow> stream_inv p q rs el pc c"
  unfolding stream_inv_def by simp

text \<open>An element that differs in messages and in its wake flag only, seen through \<open>settle\<close>.\<close>

lemma inv_settle:
  assumes "stream_inv p q rs el pc c" "stirred el el'"
  shows "stream_inv p q rs (sy_el (settle el' pc)) (sy_pc (settle el' pc)) c"
proof -
  have "stream_inv p q rs (el' \<lparr> pb_wake := False \<rparr>) pc c"
    using assms(1) unfolding stream_inv_def by (simp add: stirred_sel [OF assms(2)])
  then show ?thesis by (simp add: settle_def inv_wake)
qed

lemma inv_data:
  assumes I: "stream_inv p q rs el pc c" and env: "io_good (pe_io env)"
    and adm: "pb_eos el \<or> off = ps_position (pb_sink_segment el) \<and> off + int (length d) \<le> ps_stop (pb_sink_segment el)"
  shows "\<exists>r el' c'. progress_buffer_chain D env el off d = Some (r, el') \<and>
    stream_inv p q (rs @ (if pb_eos el then [] else d)) (sy_el (settle el' pc)) (sy_pc (settle el' pc)) c'"
proof (cases "pb_eos el")
  case True
  have "pb_srcpad el" using I by (simp add: stream_inv_def)
  moreover have "stirred el el" by (simp add: stirred_def)
  ultimately show ?thesis using chain_refuses [OF True, of D env off d] inv_settle [OF I, of el] True by auto
next
  case False
  let ?c = "cache_write_buffer (pe_io env) c d"
  let ?e = "el \<lparr> pb_sink_segment := (pb_sink_segment el) \<lparr> ps_position := off + int (length d) \<rparr>, pb_cache := Some ?c \<rparr>"
  have c: "cache_inv c" "pb_cache el = Some c" using I by (simp_all add: stream_inv_def)
  note w = cache_write_queue [OF env c(1)]
  have off: "off = p + int (length rs)" "off + int (length d) \<le> q" "ps_stop (pb_sink_segment el) = q"
    using I adm False by (simp_all add: stream_inv_def)
  have e: "0 \<le> off" "off + int (length d) \<le> ps_stop (pb_sink_segment el)"
    "ps_stop (pb_sink_segment el) < 18446744073709551616" "\<not> pb_unexpected el" "pb_srcpad el"
    using I off by (simp_all add: stream_inv_def)
  obtain el' where el': "progress_buffer_chain D env el off d = Some (GST_FLOW_OK, el')" "stirred ?e el'"
    using chain_writes [OF c(2) False e(4,5,1-3)] by blast
  have ok: "unread ?c = [] \<and> q = p + int (length (rs @ d))" if "ending (pb_pending el) pc"
    using that I off w(3) by (auto simp: stream_inv_def)
  have "stream_inv p q (rs @ d) ?e pc ?c"
    using I False off w ok unfolding stream_inv_def by simp
  from inv_settle [OF this el'(2)] show ?thesis using el'(1) False by auto
qed

lemma inv_event:
  assumes I: "stream_inv p q rs el pc c" and seg: "\<And>sg. ev \<noteq> PbSegmentEvent sg"
  shows "\<exists>r el'. progress_buffer_sink_event D env el ev = Some (r, el') \<and>
    stream_inv p q rs (sy_el (settle el' pc)) (sy_pc (settle el' pc)) c"
proof (cases "pb_eos el \<or> ev \<noteq> PbEos")
  case True
  have ns: "\<not> pb_is_source_seeking el" using I by (simp add: stream_inv_def)
  have "\<exists>r el'. progress_buffer_sink_event D env el ev = Some (r, el') \<and> stirred el el'"
  proof (cases "pb_eos el")
    case True
    then show ?thesis using sink_event_refuses [OF True ns] by blast
  next
    case F: False
    then show ?thesis using True seg ns
      by (cases ev) (auto simp: progress_buffer_sink_event_def progress_buffer_enqueue_item_def is_serialized_def
          stirred_def log_pb_def is_out_def)
  qed
  then show ?thesis using inv_settle [OF I] by blast
next
  case False
  let ?sg = "pb_sink_segment el"
  let ?e = "el \<lparr> pb_eos := True, pb_sink_segment := (if ps_position ?sg < ps_stop ?sg then ?sg \<lparr> ps_stop := ps_position ?sg \<rparr> else ?sg),
    pb_pending := None \<rparr>"
  let ?r = "signal_if (send_position_message D ?e True)"
  have "enqueue_eos D el = (GST_FLOW_OK, ?r)"
    by (simp add: enqueue_eos_def progress_buffer_set_pending_event_def Let_def)
  then have "progress_buffer_sink_event D env el ev = Some (True, ?r)"
    using False I by (simp add: progress_buffer_sink_event_def progress_buffer_enqueue_item_def is_serialized_def stream_inv_def)
  moreover have "stream_inv p q rs ?e pc c"
    using I False unfolding stream_inv_def by (auto simp: ending_def)
  ultimately show ?thesis using inv_settle [OF _ stirred_message] by blast
qed

text \<open>A read takes a piece from the front of what is unread; the end of the segment makes the end of the stream pending.\<close>

lemma read_piece:
  assumes I: "stream_inv p q rs el (LTop False) c" and env: "io_good (pe_io env)"
    and "pb_pending el = None" "unread c \<noteq> []"
  obtains d c' where "loop_buffer env el False = Some (el \<lparr> pb_cache := Some c',
      pb_pending := (if unread c' = [] \<and> ps_stop (pb_sink_segment el) = p + int (length rs) then Some PbEos else None) \<rparr>,
      LPushBuffer (p + int (length (out_bytes (pb_log el)))) d)"
    "cache_inv c'" "d \<noteq> []" "unread c = d @ unread c'" "written c' = written c"
proof -
  have c: "cache_inv c" "pb_cache el = Some c" "written c = rs" "pb_cache_read_offset el = p" "0 \<le> p"
    "out_bytes (pb_log el) @ unread c = rs" "p + int (length rs) \<le> ps_stop (pb_sink_segment el)"
    "p + int (length rs) < 18446744073709551616"
    using I by (auto simp: stream_inv_def flight_def split: if_splits)
  obtain d c' where r: "cache_read_buffer (pe_io env) c
       = (int (c_readHandle c'), Some \<lparr> cb_offset = int (c_readHandle c), cb_data = d \<rparr>, c')"
    "cache_inv c'" "d \<noteq> []" "unread c = d @ unread c'" "written c' = written c"
    "c_readHandle c' = c_readHandle c + length d"
    using cache_read_queue [OF env c(1) assms(4)] .
  have h: "length (written c) = c_readHandle c + length (unread c)"
    using c(1) by (auto simp: cache_inv_def unread_def written_def)
  have out: "length (out_bytes (pb_log el)) = c_readHandle c"
    using h c(3) arg_cong [OF c(6), of length] by simp
  have len: "length rs = c_readHandle c' + length (unread c')"
    using h c(3) r(4,6) by simp
  have at: "u64 (int (c_readHandle c') + p) = p + int (c_readHandle c')"
    "u64 (p + int (c_readHandle c') - int (length d)) = p + int (c_readHandle c)"
    using c(5,8) len r(6) by (simp_all add: u64_id)
  have stop: "p + int (c_readHandle c') = ps_stop (pb_sink_segment el) \<longleftrightarrow>
      unread c' = [] \<and> ps_stop (pb_sink_segment el) = p + int (length rs)"
    using len c(7) by (cases "unread c'") auto
  show thesis
  proof (rule that [OF _ r(2-5)])
    show "loop_buffer env el False = Some (el \<lparr> pb_cache := Some c',
      pb_pending := (if unread c' = [] \<and> ps_stop (pb_sink_segment el) = p + int (length rs) then Some PbEos else None) \<rparr>,
      LPushBuffer (p + int (length (out_bytes (pb_log el)))) d)"
      using c(2,4) r(1) at stop out assms(3)
      by (simp add: loop_buffer_def progress_buffer_set_pending_event_def Let_def)
  qed
qed

lemma top_waits:
  assumes "stream_inv p q rs el (LTop False) c"
  shows "must_wait el = Some (pb_pending el = None \<and> unread c = [])"
  using assms enough_data_unread [of c] by (simp add: stream_inv_def must_wait_def flows_def)

lemma inv_loop_top:
  assumes I: "stream_inv p q rs el (LTop False) c" and env: "io_good (pe_io env)"
  shows "\<exists>el' pc' c'. loop_next_item env el False = Some (el', pc') \<and> stream_inv p q rs el' pc' c' \<and>
    (if pb_pending el = None then
       if unread c = [] then pc' = LWait False \<and> c' = c \<and> pb_pending el' = None \<and> pb_eos el' = pb_eos el
       else (\<exists>off d. pc' = LPushBuffer off d) \<and> length (unread c') < length (unread c) \<and> pb_eos el' = pb_eos el \<and>
         pb_pending el' \<in> {None, Some PbEos} \<and>
         (ps_stop (pb_sink_segment el) = p + int (length rs) \<and> unread c' = [] \<longrightarrow> pb_pending el' = Some PbEos)
     else pc' = LPushEvent (the (pb_pending el)) (pb_srcresult el') \<and> c' = c \<and> pb_pending el' = None \<and> pb_eos el' = pb_eos el)"
proof -
  have ok: "pb_srcresult el = GST_FLOW_OK" "pb_instant_seek el" using I by (simp_all add: stream_inv_def flows_def)
  consider (ev) ev where "pb_pending el = Some ev" | (wait) "pb_pending el = None" "unread c = []"
    | (read) "pb_pending el = None" "unread c \<noteq> []" by (cases "pb_pending el") auto
  then show ?thesis
  proof cases
    case ev
    obtain e pc' where e: "loop_event el ev False = (e, pc')" by fastforce
    have "pc' = LPushEvent ev (pb_srcresult e)" "pb_pending e = None" "pb_eos e = pb_eos el"
      using e by (cases ev; auto simp: loop_event_def progress_buffer_set_pending_event_def Let_def)+
    moreover have "stream_inv p q rs e pc' c"
      using I ev e unfolding stream_inv_def
      by (cases ev) (auto simp: loop_event_def progress_buffer_set_pending_event_def flight_def ending_def flows_def Let_def)
    moreover have "loop_next_item env el False = Some (e, pc')"
      using ok ev by (simp add: loop_next_item_def top_waits [OF I] e)
    ultimately show ?thesis using ev by auto
  next
    case wait
    have "stream_inv p q rs (send_underrun_message el) (LWait False) c"
      using I unfolding stream_inv_def
      by (auto simp: send_underrun_message_def log_pb_def hushed_call is_out_def flight_def ending_def flows_def)
    moreover have "loop_next_item env el False = Some (send_underrun_message el, LWait False)"
      using wait ok by (simp add: loop_next_item_def top_waits [OF I])
    ultimately show ?thesis using wait by (auto simp: send_underrun_message_def log_pb_def)
  next
    case read
    obtain d c' where r: "loop_buffer env el False = Some (el \<lparr> pb_cache := Some c',
      pb_pending := (if unread c' = [] \<and> ps_stop (pb_sink_segment el) = p + int (length rs) then Some PbEos else None) \<rparr>,
      LPushBuffer (p + int (length (out_bytes (pb_log el)))) d)"
      "cache_inv c'" "d \<noteq> []" "unread c = d @ unread c'" "written c' = written c"
      using read_piece [OF I env read] .
    moreover have "loop_next_item env el False = loop_buffer env el False"
      using read ok by (simp add: loop_next_item_def top_waits [OF I])
    moreover have "stream_inv p q rs (el \<lparr> pb_cache := Some c',
      pb_pending := (if unread c' = [] \<and> ps_stop (pb_sink_segment el) = p + int (length rs) then Some PbEos else None) \<rparr>)
      (LPushBuffer (p + int (length (out_bytes (pb_log el)))) d) c'"
      using I r(2-5) unfolding stream_inv_def by (auto simp: flight_def ending_def flows_def)
    ultimately show ?thesis using read by auto
  qed
qed

lemma pushed_event:
  assumes I: "stream_inv p q rs el (LPushEvent ev r) c"
  shows "\<exists>el'. loop_pushed env el (LPushEvent ev r) = (el', if ev = PbEos then LPaused else LTop False) \<and>
    stream_inv p q rs el' (if ev = PbEos then LPaused else LTop False) c \<and>
    pb_pending el' = pb_pending el \<and> pb_eos el' = pb_eos el \<and> pb_sink_segment el' = pb_sink_segment el"
proof (cases "ev = PbEos")
  case True
  let ?e = "el \<lparr> pb_log := (pb_log el @ [OutEvent PbEos]) @ [PauseTask] \<rparr>"
  have "loop_pushed env el (LPushEvent ev r) = (?e, LPaused)"
    using I True by (auto simp: stream_inv_def loop_pushed_def log_pb_def flows_def Let_def)
  moreover have "stream_inv p q rs ?e LPaused c"
    using I True by (auto simp: stream_inv_def flight_def ending_def flows_def eos_sent_def)
  ultimately show ?thesis using True by simp
next
  case False
  then have "\<not> is_out (OutEvent ev)" by (simp add: is_out_def split: pb_event.splits)
  let ?e = "el \<lparr> pb_log := pb_log el @ [OutEvent ev] \<rparr>"
  have "loop_pushed env el (LPushEvent ev r) = (?e, LTop False)"
    using I False by (auto simp: stream_inv_def loop_pushed_def log_pb_def flows_def Let_def)
  moreover have "stream_inv p q rs ?e (LTop False) c"
    using I False hushed_call [OF \<open>\<not> is_out (OutEvent ev)\<close>]
    by (auto simp: stream_inv_def flight_def ending_def flows_def)
  ultimately show ?thesis using False by simp
qed

lemma pushed_buffer:
  assumes I: "stream_inv p q rs el (LPushBuffer off d) c" and env: "pe_push env = GST_FLOW_OK"
  shows "\<exists>el'. loop_pushed env el (LPushBuffer off d) = (el', LTop False) \<and> stream_inv p q rs el' (LTop False) c \<and>
    pb_pending el' = pb_pending el \<and> pb_eos el' = pb_eos el \<and> pb_sink_segment el' = pb_sink_segment el"
proof -
  let ?e = "el \<lparr> pb_log := pb_log el @ [OutBuffer off d], pb_srcresult := GST_FLOW_OK \<rparr>"
  have "loop_pushed env el (LPushBuffer off d) = (?e, LTop False)"
    using env by (simp add: loop_pushed_def log_pb_def Let_def)
  moreover have "stream_inv p q rs ?e (LTop False) c"
    using I by (auto simp: stream_inv_def flight_def ending_def flows_def eos_sent_def)
  ultimately show ?thesis by simp
qed

lemma inv_loop:
  assumes I: "stream_inv p q rs el pc c" and env: "env_good env"
  shows "\<exists>el' pc' c'. progress_buffer_loop env el pc = Some (el', pc') \<and> stream_inv p q rs el' pc' c'"
proof (cases pc)
  case (LTop skip)
  then have "\<not> skip" using I by (simp add: stream_inv_def flows_def)
  then show ?thesis using inv_loop_top [of p q rs el c env] I env LTop
    by (auto simp: progress_buffer_loop_def env_good_def)
next
  case (LPushEvent ev r)
  then show ?thesis using pushed_event [of p q rs el ev r c env] I by (auto simp: progress_buffer_loop_def)
next
  case (LPushBuffer off d)
  then show ?thesis using pushed_buffer [of p q rs el off d c env] I env
    by (auto simp: progress_buffer_loop_def env_good_def)
qed (use I in \<open>auto simp: progress_buffer_loop_def\<close>)

text \<open>Every action of the system keeps the invariant and is defined.\<close>

lemma inv_step:
  assumes I: "stream_inv p q rs (sy_el s) (sy_pc s) c" and adm: "admissible s a"
  shows "\<exists>s' c'. pb_step D a s = Some s' \<and> stream_inv p q (rs @ taken s a) (sy_el s') (sy_pc s') c'"
proof (cases a)
  case (AData env off d)
  then show ?thesis using inv_data [OF I, of env off d D] adm
    by (auto simp: pb_step_def admissible_def calls_good_def in_turn_def taken_def env_good_def)
next
  case (AEvent env ev)
  then have "ev \<noteq> PbSegmentEvent sg" for sg using adm by (auto simp: admissible_def in_turn_def)
  then show ?thesis using inv_event [OF I, of ev D env] AEvent by (auto simp: pb_step_def taken_def)
next
  case (ALoop env)
  then show ?thesis using inv_loop [OF I, of env] adm
    by (auto simp: pb_step_def admissible_def calls_good_def taken_def)
next
  case AWake
  then show ?thesis using I by (auto simp: pb_step_def taken_def inv_wake)
qed

lemma begun_inv:
  assumes "begun s"
  shows "\<exists>c. stream_inv (ps_start (pb_sink_segment (sy_el s))) (ps_stop (pb_sink_segment (sy_el s))) (initial s)
    (sy_el s) (sy_pc s) c"
proof -
  obtain c where c: "pb_cache (sy_el s) = Some c"
    using assms by (auto simp: begun_def Let_def split: option.splits)
  have "hushed (pb_log (sy_el s))" using assms by (simp add: begun_def hushed_def Let_def)
  then show ?thesis using assms c
    by (auto simp: begun_def initial_def stream_inv_def hushed_out unread_def flight_def ending_def flows_def Let_def)
qed

lemma stream_keeps:
  assumes "stream D s0 rs s" "begun s0"
  shows "\<exists>c. stream_inv (ps_start (pb_sink_segment (sy_el s0))) (ps_stop (pb_sink_segment (sy_el s0)))
    (initial s0 @ rs) (sy_el s) (sy_pc s) c"
  using assms
proof (induction rule: stream.induct)
  case start
  then show ?case using begun_inv by simp
next
  case (step rs s a s')
  then obtain c where "stream_inv (ps_start (pb_sink_segment (sy_el s0))) (ps_stop (pb_sink_segment (sy_el s0)))
    (initial s0 @ rs) (sy_el s) (sy_pc s) c" by blast
  from inv_step [OF this step(2), of D] show ?case using step(3) by auto
qed

section \<open>Delivery\<close>

text \<open>What is pushed is a beginning of what arrived, in order; the end of the stream comes after all of it.\<close>

lemma stream_delivers:
  assumes "stream D s0 rs s" "begun s0"
  shows "\<exists>rest. initial s0 @ rs = out_bytes (pb_log (sy_el s)) @ rest"
    "in_order (ps_start (pb_sink_segment (sy_el s0))) (pb_log (sy_el s))"
    "eos_sent (pb_log (sy_el s)) \<Longrightarrow> out_bytes (pb_log (sy_el s)) = initial s0 @ rs \<and>
       (pb_eos (sy_el s) \<or>
        ps_start (pb_sink_segment (sy_el s0)) + int (length (initial s0 @ rs)) = ps_stop (pb_sink_segment (sy_el s0)))"
    "admissible s a \<Longrightarrow> \<exists>s'. pb_step D a s = Some s'"
proof -
  obtain c where I: "stream_inv (ps_start (pb_sink_segment (sy_el s0))) (ps_stop (pb_sink_segment (sy_el s0)))
    (initial s0 @ rs) (sy_el s) (sy_pc s) c" using stream_keeps [OF assms] by blast
  then show "\<exists>rest. initial s0 @ rs = out_bytes (pb_log (sy_el s)) @ rest" unfolding stream_inv_def by metis
  show "in_order (ps_start (pb_sink_segment (sy_el s0))) (pb_log (sy_el s))" using I by (simp add: stream_inv_def)
  show "\<exists>s'. pb_step D a s = Some s'" if "admissible s a" using inv_step [OF I that] by blast
  assume "eos_sent (pb_log (sy_el s))"
  then have "sy_pc s = LPaused" using I by (simp add: stream_inv_def)
  then show "out_bytes (pb_log (sy_el s)) = initial s0 @ rs \<and> (pb_eos (sy_el s) \<or>
        ps_start (pb_sink_segment (sy_el s0)) + int (length (initial s0 @ rs)) = ps_stop (pb_sink_segment (sy_el s0)))"
    using I by (auto simp: stream_inv_def ending_def flight_def)
qed

section \<open>The end of the stream arrives\<close>

text \<open>
  The task is on its way to push the end of the stream: everything has arrived, it is not waiting, and
  something is unread or the end is pending or pushed. Each of its sections brings it nearer.
\<close>

definition homeward :: "int \<Rightarrow> int \<Rightarrow> data \<Rightarrow> 'd ProgressBuffer \<Rightarrow> loop_pc \<Rightarrow> Cache \<Rightarrow> bool" where
  "homeward p q rs el pc c \<longleftrightarrow> stream_inv p q rs el pc c \<and> (pb_eos el \<or> q = p + int (length rs)) \<and>
     (\<forall>skip. pc \<noteq> LWait skip) \<and> (unread c \<noteq> [] \<or> ending (pb_pending el) pc)"

definition to_go :: "pb_event option \<Rightarrow> loop_pc \<Rightarrow> Cache \<Rightarrow> nat" where
  "to_go pending pc c =
     (let base = 2 * length (unread c) + (if pending = None \<or> pending = Some PbEos then 2 else 4)
      in case pc of LPaused \<Rightarrow> 0 | LPushEvent ev _ \<Rightarrow> if ev = PbEos then 1 else base + 1
         | LPushBuffer _ _ \<Rightarrow> base + 1 | _ \<Rightarrow> base)"

lemma homeward_step:
  assumes H: "homeward p q rs el pc c" and env: "env_good env" and pc: "pc \<noteq> LPaused"
  shows "\<exists>el' pc' c'. progress_buffer_loop env el pc = Some (el', pc') \<and> homeward p q rs el' pc' c' \<and>
    to_go (pb_pending el') pc' c' < to_go (pb_pending el) pc c"
proof (cases pc)
  case (LTop skip)
  have sk: "skip = False" using H LTop by (simp add: homeward_def stream_inv_def flows_def)
  then have I: "stream_inv p q rs el (LTop False) c" using H LTop by (simp add: homeward_def)
  have stop: "ps_stop (pb_sink_segment el) = p + int (length rs)"
    using H by (auto simp: homeward_def stream_inv_def)
  have io: "io_good (pe_io env)" using env by (simp add: env_good_def)
  obtain el' pc' c' where r: "loop_next_item env el False = Some (el', pc')" "stream_inv p q rs el' pc' c'"
    and k: "if pb_pending el = None then
       if unread c = [] then pc' = LWait False \<and> c' = c \<and> pb_pending el' = None \<and> pb_eos el' = pb_eos el
       else (\<exists>off d. pc' = LPushBuffer off d) \<and> length (unread c') < length (unread c) \<and> pb_eos el' = pb_eos el \<and>
         pb_pending el' \<in> {None, Some PbEos} \<and>
         (ps_stop (pb_sink_segment el) = p + int (length rs) \<and> unread c' = [] \<longrightarrow> pb_pending el' = Some PbEos)
     else pc' = LPushEvent (the (pb_pending el)) (pb_srcresult el') \<and> c' = c \<and> pb_pending el' = None \<and> pb_eos el' = pb_eos el"
    using inv_loop_top [OF I io] by blast
  have "homeward p q rs el' pc' c' \<and> to_go (pb_pending el') pc' c' < to_go (pb_pending el) pc c"
  proof (cases "pb_pending el")
    case None
    then have "unread c \<noteq> []" using H LTop by (auto simp: homeward_def ending_def)
    then show ?thesis using k None H r(2) stop LTop
      by (cases "pb_pending el'") (auto simp: homeward_def ending_def to_go_def)
  next
    case (Some ev)
    then show ?thesis using k H r(2) LTop by (auto simp: homeward_def ending_def to_go_def)
  qed
  then show ?thesis using r(1) LTop sk by (auto simp: progress_buffer_loop_def)
next
  case (LPushEvent ev r)
  have I: "stream_inv p q rs el (LPushEvent ev r) c" using H LPushEvent by (simp add: homeward_def)
  obtain el' where e: "loop_pushed env el (LPushEvent ev r) = (el', if ev = PbEos then LPaused else LTop False)"
    "stream_inv p q rs el' (if ev = PbEos then LPaused else LTop False) c"
    "pb_pending el' = pb_pending el" "pb_eos el' = pb_eos el"
    using pushed_event [OF I] by blast
  then have "homeward p q rs el' (if ev = PbEos then LPaused else LTop False) c"
    using H LPushEvent by (auto simp: homeward_def ending_def)
  moreover have "to_go (pb_pending el') (if ev = PbEos then LPaused else LTop False) c < to_go (pb_pending el) pc c"
    using e(3) LPushEvent by (simp add: to_go_def)
  ultimately show ?thesis using e(1) LPushEvent by (auto simp: progress_buffer_loop_def)
next
  case (LPushBuffer off d)
  have I: "stream_inv p q rs el (LPushBuffer off d) c" using H LPushBuffer by (simp add: homeward_def)
  obtain el' where e: "loop_pushed env el (LPushBuffer off d) = (el', LTop False)"
    "stream_inv p q rs el' (LTop False) c" "pb_pending el' = pb_pending el" "pb_eos el' = pb_eos el"
    using pushed_buffer [OF I, of env] env by (auto simp: env_good_def)
  then have "homeward p q rs el' (LTop False) c"
    using H LPushBuffer by (auto simp: homeward_def ending_def)
  moreover have "to_go (pb_pending el') (LTop False) c < to_go (pb_pending el) pc c"
    using e(3) LPushBuffer by (simp add: to_go_def)
  ultimately show ?thesis using e(1) LPushBuffer by (auto simp: progress_buffer_loop_def)
qed (use H pc in \<open>auto simp: homeward_def\<close>)

lemma homeward_run:
  assumes "homeward p q rs (sy_el s) (sy_pc s) c" "list_all env_good envs"
    and "to_go (pb_pending (sy_el s)) (sy_pc s) c \<le> length envs"
  shows "\<exists>s' c'. pb_run D (map ALoop envs) s = Some s' \<and> sy_pc s' = LPaused \<and>
    stream_inv p q rs (sy_el s') LPaused c'"
  using assms
proof (induction envs arbitrary: s c)
  case Nil
  then have "sy_pc s = LPaused" by (cases "sy_pc s") (auto simp: to_go_def Let_def split: if_splits)
  then show ?case using Nil by (auto simp: homeward_def)
next
  case (Cons env envs)
  show ?case
  proof (cases "sy_pc s = LPaused")
    case True
    then have "pb_step D (ALoop env) s = Some s" by (simp add: pb_step_def progress_buffer_loop_def)
    moreover have "to_go (pb_pending (sy_el s)) (sy_pc s) c \<le> length envs" using True by (simp add: to_go_def)
    ultimately show ?thesis using Cons.IH [OF Cons.prems(1)] Cons.prems(2) by simp
  next
    case False
    have env: "env_good env" "list_all env_good envs" using Cons.prems(2) by simp_all
    obtain el' pc' c' where st: "progress_buffer_loop env (sy_el s) (sy_pc s) = Some (el', pc')"
      "homeward p q rs el' pc' c'" "to_go (pb_pending el') pc' c' < to_go (pb_pending (sy_el s)) (sy_pc s) c"
      using homeward_step [OF Cons.prems(1) env(1) False] by blast
    have "pb_step D (ALoop env) s = Some \<lparr> sy_el = el', sy_pc = pc' \<rparr>" using st(1) by (simp add: pb_step_def)
    moreover have "homeward p q rs (sy_el \<lparr> sy_el = el', sy_pc = pc' \<rparr>) (sy_pc \<lparr> sy_el = el', sy_pc = pc' \<rparr>) c'"
      using st(2) by simp
    from Cons.IH [OF this env(2)] have "\<exists>s' c'. pb_run D (map ALoop envs) \<lparr> sy_el = el', sy_pc = pc' \<rparr> = Some s' \<and>
        sy_pc s' = LPaused \<and> stream_inv p q rs (sy_el s') LPaused c'"
      using st(3) Cons.prems(3) by simp
    ultimately show ?thesis by simp
  qed
qed

text \<open>The event that ends the stream, with bytes unread: the task is woken and pushes them all, then the end.\<close>

lemma eos_homeward:
  assumes I: "stream_inv p q rs el pc c" and "unread c \<noteq> []" "\<not> pb_eos el"
  shows "\<exists>el'. progress_buffer_sink_event D env el PbEos = Some (True, el') \<and>
    homeward p q rs (sy_el (settle el' pc)) (sy_pc (settle el' pc)) c \<and>
    pb_pending (sy_el (settle el' pc)) = None"
proof -
  let ?sg = "pb_sink_segment el"
  let ?e = "el \<lparr> pb_eos := True, pb_sink_segment := (if ps_position ?sg < ps_stop ?sg then ?sg \<lparr> ps_stop := ps_position ?sg \<rparr> else ?sg),
    pb_pending := None \<rparr>"
  let ?r = "signal_if (send_position_message D ?e True)"
  have "enqueue_eos D el = (GST_FLOW_OK, ?r)"
    by (simp add: enqueue_eos_def progress_buffer_set_pending_event_def Let_def)
  then have ev: "progress_buffer_sink_event D env el PbEos = Some (True, ?r)"
    using assms(3) I by (simp add: progress_buffer_sink_event_def progress_buffer_enqueue_item_def is_serialized_def stream_inv_def)
  have "stream_inv p q rs (sy_el (settle ?r pc)) (sy_pc (settle ?r pc)) c"
    using inv_event [OF I, of PbEos D env] ev by simp
  moreover have "sy_pc (settle ?r pc) = wake_pc pc" by (simp add: settle_def wakes_message)
  moreover have "wake_pc pc \<noteq> LWait skip" for skip by (cases pc) (simp_all add: wake_pc_def)
  moreover have "pb_eos ?r" "pb_pending ?r = None" using stirred_sel(8,9) [OF stirred_message [of ?e D True]] by simp_all
  ultimately have "homeward p q rs (sy_el (settle ?r pc)) (sy_pc (settle ?r pc)) c"
    "pb_pending (sy_el (settle ?r pc)) = None"
    using assms(2) by (simp_all add: homeward_def settle_def)
  then show ?thesis using ev by blast
qed

lemma eos_delivered:
  assumes "stream D s0 rs s" "begun s0" "\<not> pb_eos (sy_el s)" "pb_cache (sy_el s) = Some c" "unread c \<noteq> []"
    and "list_all env_good envs" "2 * length (unread c) + 3 \<le> length envs"
  shows "\<exists>s1 s2. pb_step D (AEvent env PbEos) s = Some s1 \<and> pb_run D (map ALoop envs) s1 = Some s2 \<and>
    sy_pc s2 = LPaused \<and> out_bytes (pb_log (sy_el s2)) = initial s0 @ rs \<and> eos_sent (pb_log (sy_el s2))"
proof -
  obtain c' where I: "stream_inv (ps_start (pb_sink_segment (sy_el s0))) (ps_stop (pb_sink_segment (sy_el s0)))
    (initial s0 @ rs) (sy_el s) (sy_pc s) c'" using stream_keeps [OF assms(1,2)] by blast
  then have c: "c' = c" using assms(4) by (simp add: stream_inv_def)
  obtain el' where e: "progress_buffer_sink_event D env (sy_el s) PbEos = Some (True, el')"
    "homeward (ps_start (pb_sink_segment (sy_el s0))) (ps_stop (pb_sink_segment (sy_el s0))) (initial s0 @ rs)
      (sy_el (settle el' (sy_pc s))) (sy_pc (settle el' (sy_pc s))) c"
    "pb_pending (sy_el (settle el' (sy_pc s))) = None"
    using eos_homeward [OF I [unfolded c] assms(5,3)] by blast
  have "to_go None (sy_pc (settle el' (sy_pc s))) c \<le> length envs"
    using assms(7) by (simp add: to_go_def split: loop_pc.splits)
  then obtain s2 c2 where "pb_run D (map ALoop envs) (settle el' (sy_pc s)) = Some s2" "sy_pc s2 = LPaused"
    "stream_inv (ps_start (pb_sink_segment (sy_el s0))) (ps_stop (pb_sink_segment (sy_el s0))) (initial s0 @ rs)
      (sy_el s2) LPaused c2"
    using homeward_run [OF e(2) assms(6), of D] e(3) by auto
  moreover from this(3) have "out_bytes (pb_log (sy_el s2)) = initial s0 @ rs" "eos_sent (pb_log (sy_el s2))"
    by (auto simp: stream_inv_def ending_def flight_def)
  ultimately show ?thesis using e(1) by (auto simp: pb_step_def)
qed

section \<open>The end of the stream is lost\<close>

text \<open>
  The event arrives when nothing is unread and before the task has taken the end of the stream as
  its next item: what was pending is dropped, and no action of the source or of the task makes it pending again.
\<close>

definition lost_pc :: "GstFlowReturn \<Rightarrow> loop_pc \<Rightarrow> bool" where
  "lost_pc res pc \<longleftrightarrow>
     (case pc of LPushEvent ev r \<Rightarrow> ev \<noteq> PbEos \<and> r = GST_FLOW_OK \<and> res = GST_FLOW_OK
      | LPaused \<Rightarrow> res \<noteq> GST_FLOW_OK
      | _ \<Rightarrow> res = GST_FLOW_OK)"

definition stranded :: "'d ProgressBuffer \<Rightarrow> loop_pc \<Rightarrow> bool" where
  "stranded el pc \<longleftrightarrow> pb_eos el \<and> pb_srcpad el \<and> \<not> pb_is_source_seeking el \<and> \<not> pb_wake el \<and> pb_pending el = None \<and>
     (\<exists>c. pb_cache el = Some c \<and> \<not> cache_has_enough_data c) \<and> \<not> eos_sent (pb_log el) \<and> lost_pc (pb_srcresult el) pc"

lemma stranded_stirred:
  assumes "stranded el pc" "stirred el el'" "pb_wake el' = pb_wake el"
  shows "stranded (sy_el (settle el' pc)) (sy_pc (settle el' pc))"
  using assms(1,3) by (simp add: stranded_def settle_def stirred_sel [OF assms(2)])

lemma stranded_wake: "stranded el pc \<Longrightarrow> stranded el (wake_pc pc)"
  by (cases pc) (simp_all add: stranded_def wake_pc_def lost_pc_def)

lemma stranded_loop:
  assumes S: "stranded el pc"
  shows "\<exists>el' pc'. progress_buffer_loop env el pc = Some (el', pc') \<and> stranded el' pc'"
proof (cases pc)
  case (LTop skip)
  then have "must_wait el = Some True" using S by (auto simp: stranded_def must_wait_def lost_pc_def)
  then show ?thesis using S LTop
    by (auto simp: progress_buffer_loop_def loop_next_item_def send_underrun_message_def log_pb_def stranded_def
        eos_sent_def lost_pc_def)
next
  case (LPushEvent ev r)
  then show ?thesis using S
    by (auto simp: progress_buffer_loop_def loop_pushed_def log_pb_def stranded_def eos_sent_def lost_pc_def Let_def)
next
  case (LPushBuffer off d)
  then show ?thesis using S
    by (auto simp: progress_buffer_loop_def loop_pushed_def log_pb_def stranded_def eos_sent_def lost_pc_def Let_def)
qed (use S in \<open>auto simp: progress_buffer_loop_def\<close>)

lemma stranded_step:
  assumes S: "stranded (sy_el s) (sy_pc s)"
  shows "\<exists>s'. pb_step D a s = Some s' \<and> stranded (sy_el s') (sy_pc s')"
proof (cases a)
  case (AData env off d)
  have "pb_eos (sy_el s)" "pb_srcpad (sy_el s)" using S by (simp_all add: stranded_def)
  then show ?thesis using AData stranded_stirred [OF S, of "sy_el s"]
    by (simp add: pb_step_def chain_refuses stirred_def)
next
  case (AEvent env ev)
  have "pb_eos (sy_el s)" "\<not> pb_is_source_seeking (sy_el s)" using S by (simp_all add: stranded_def)
  from sink_event_refuses [OF this, of D env ev] obtain r el' where
    "progress_buffer_sink_event D env (sy_el s) ev = Some (r, el')" "stirred (sy_el s) el'" "pb_wake el' = pb_wake (sy_el s)"
    by blast
  then show ?thesis using AEvent stranded_stirred [OF S] by (simp add: pb_step_def)
next
  case (ALoop env)
  then show ?thesis using stranded_loop [OF S, of env] by (auto simp: pb_step_def)
next
  case AWake
  then show ?thesis using stranded_wake [OF S] by (simp add: pb_step_def)
qed

lemma stranded_run:
  assumes "stranded (sy_el s) (sy_pc s)"
  shows "\<exists>s'. pb_run D acts s = Some s' \<and> stranded (sy_el s') (sy_pc s')"
  using assms
proof (induction acts arbitrary: s)
  case (Cons a acts)
  obtain s1 where s1: "pb_step D a s = Some s1" "stranded (sy_el s1) (sy_pc s1)"
    using stranded_step [OF Cons.prems, of D a] by blast
  then show ?case using Cons.IH [OF s1(2)] by simp
qed simp

lemma eos_strands:
  assumes I: "stream_inv p q rs el pc c" and "unread c = []" "\<not> pb_eos el"
    and pc: "pc \<noteq> LPaused" "\<And>r. pc \<noteq> LPushEvent PbEos r"
  shows "\<exists>el'. progress_buffer_sink_event D env el PbEos = Some (True, el') \<and>
    stranded (sy_el (settle el' pc)) (sy_pc (settle el' pc))"
proof -
  let ?sg = "pb_sink_segment el"
  let ?e = "el \<lparr> pb_eos := True, pb_sink_segment := (if ps_position ?sg < ps_stop ?sg then ?sg \<lparr> ps_stop := ps_position ?sg \<rparr> else ?sg),
    pb_pending := None \<rparr>"
  let ?r = "signal_if (send_position_message D ?e True)"
  have "enqueue_eos D el = (GST_FLOW_OK, ?r)"
    by (simp add: enqueue_eos_def progress_buffer_set_pending_event_def Let_def)
  then have ev: "progress_buffer_sink_event D env el PbEos = Some (True, ?r)"
    using assms(3) I by (simp add: progress_buffer_sink_event_def progress_buffer_enqueue_item_def is_serialized_def stream_inv_def)
  have "cache_inv c" using I by (simp add: stream_inv_def)
  then have no: "\<not> cache_has_enough_data c" using assms(2) enough_data_unread by blast
  have fl: "flows (pb_srcresult el) pc" using I by (simp add: stream_inv_def)
  have "lost_pc (pb_srcresult el) pc"
  proof (cases pc)
    case (LPushEvent ev r)
    then have "ev \<noteq> PbEos" using pc(2) [of r] by auto
    then show ?thesis using fl LPushEvent by (auto simp add: flows_def lost_pc_def)
  qed (use fl pc(1) in \<open>simp_all add: flows_def lost_pc_def\<close>)
  moreover have "lost_pc r (wake_pc pc) = lost_pc r pc" for r by (cases pc) (simp_all add: lost_pc_def wake_pc_def)
  ultimately have "stranded (sy_el (settle ?r pc)) (sy_pc (settle ?r pc))"
    using I no pc(1) by (simp add: stranded_def settle_def stirred_sel [OF stirred_message] stream_inv_def)
  then show ?thesis using ev by blast
qed

lemma eos_lost:
  assumes "stream D s0 rs s" "begun s0" "\<not> pb_eos (sy_el s)" "pb_cache (sy_el s) = Some c" "unread c = []"
    and "sy_pc s \<noteq> LPaused" "\<And>r. sy_pc s \<noteq> LPushEvent PbEos r"
  shows "\<exists>s'. pb_run D (AEvent env PbEos # acts) s = Some s' \<and> \<not> eos_sent (pb_log (sy_el s'))"
proof -
  obtain c' where I: "stream_inv (ps_start (pb_sink_segment (sy_el s0))) (ps_stop (pb_sink_segment (sy_el s0)))
    (initial s0 @ rs) (sy_el s) (sy_pc s) c'" using stream_keeps [OF assms(1,2)] by blast
  then have c: "c' = c" using assms(4) by (simp add: stream_inv_def)
  obtain el' where e: "progress_buffer_sink_event D env (sy_el s) PbEos = Some (True, el')"
    "stranded (sy_el (settle el' (sy_pc s))) (sy_pc (settle el' (sy_pc s)))"
    using eos_strands [OF I [unfolded c] assms(5,3,6,7)] by blast
  show ?thesis using stranded_run [OF e(2), of D acts] e(1) by (auto simp: pb_step_def stranded_def)
qed

end
