(* ===== verification/Progress_Pull.thy ===== *)
theory Progress_Pull
  imports Progress_Stream
begin

text \<open>
  Pull mode of the progress buffer: what \<open>progress_buffer_getrange\<close> answers for a range that lies beyond the
  content, in the cache, or ahead of what has arrived, and when the monitor thread announces a range it
  noted. The last section runs the element from its creation to the state in which the lemmas on streaming begin.
\<close>

section \<open>Ranges\<close>

lemma getrange_beyond:
  "ps_stop (pb_sink_segment el) < u64 (start + int n) \<Longrightarrow>
     progress_buffer_getrange D env el start n = Some (GST_FLOW_EOS, None, el)"
  by (simp add: progress_buffer_getrange_def Let_def)

lemma getrange_cached:
  assumes "pb_cache el = Some c" "cache_inv c" "io_good (pe_io env)" "io_read (pe_io env) n = int n" "0 < n"
    and "0 \<le> start" "start + int n \<le> int (length (written c))" "start + int n < 18446744073709551616"
    and "ps_start (pb_sink_segment el) \<le> start" "start + int n \<le> ps_position (pb_sink_segment el)"
      "ps_position (pb_sink_segment el) \<le> ps_stop (pb_sink_segment el)"
  shows "\<exists>el'. progress_buffer_getrange D env el start n
    = Some (GST_FLOW_OK, Some \<lparr> cb_offset = start, cb_data = take n (drop (nat start) (written c)) \<rparr>, el') \<and>
    pb_log el' = pb_log el \<and> (\<exists>c'. pb_cache el' = Some c' \<and> cache_inv c' \<and> written c' = written c)"
proof -
  obtain c' where "cache_read_buffer_from_position (pe_io env) c start n
      = (GST_FLOW_OK, Some \<lparr> cb_offset = start, cb_data = take n (drop (nat start) (written c)) \<rparr>, c')"
    "cache_inv c'" "written c' = written c"
    using cache_read_at [OF assms(3,2,6,7,5,4)] by blast
  moreover have "u64 (start + int n) = start + int n" using assms(6,8) by (simp add: u64_id)
  ultimately show ?thesis using assms(1,9-11) by (simp add: progress_buffer_getrange_def Let_def)
qed

text \<open>A range whose end has not arrived is noted up to where the monitor thread has to wait.\<close>

lemma getrange_ahead:
  assumes pos: "ps_start (pb_sink_segment el) \<le> start" "ps_position (pb_sink_segment el) < start + int n"
      "start + int n \<le> ps_stop (pb_sink_segment el)" "ps_stop (pb_sink_segment el) < 9223372036854775808" "0 \<le> start"
    and ahead: "0 \<le> d_ahead D (pb_bandwidth el) (pb_prebuffer_time el)"
      "d_ahead D (pb_bandwidth el) (pb_prebuffer_time el) < 9223372036854775808"
  shows "\<exists>el'. progress_buffer_getrange D env el start n = Some (GST_FLOW_FLUSHING, None, el') \<and>
    pb_range_start el' = pb_range_start el \<and> pb_cache el' = pb_cache el \<and> pb_sink_segment el' = pb_sink_segment el \<and>
    pb_srcresult el' = pb_srcresult el \<and> pb_eos el' = pb_eos el \<and>
    start + int n \<le> pb_range_stop el' \<and> pb_range_stop el' \<le> ps_stop (pb_sink_segment el)"
proof -
  let ?a = "d_ahead D (pb_bandwidth el) (pb_prebuffer_time el)"
  have e: "u64 (start + int n) = start + int n" "u64 (start + int n + ?a) = start + int n + ?a"
    using assms by (simp_all add: u64_id)
  show ?thesis using assms
    by (auto simp: progress_buffer_getrange_def request_range_def send_underrun_message_def log_pb_def e Let_def)
qed

lemma monitor_announces:
  assumes "pb_srcresult el = GST_FLOW_OK" "\<not> pb_eos el" "pb_range_start el = NO_RANGE_REQUEST"
    and "0 \<le> pb_range_stop el" "pb_range_stop el < 18446744073709551616"
  shows "snd (monitor_check el) = (if pb_range_stop el \<le> ps_position (pb_sink_segment el) then MPush else MWait)"
    "pb_range_stop el \<le> ps_position (pb_sink_segment el) \<Longrightarrow>
     pb_range_stop (fst (monitor_check el)) = NO_RANGE_REQUEST"
  using assms
  by (auto simp: monitor_check_def pending_eos_def pending_range_start_def pending_range_stop_def VALID_RANGE_def
      NO_RANGE_REQUEST_def u64_id)

text \<open>With no range noted, the end of the stream ends the monitor thread.\<close>

lemma monitor_ends:
  assumes "pb_srcresult el = GST_FLOW_OK" "pb_eos el" "0 < pb_signal_limit el"
    "pb_range_start el = NO_RANGE_REQUEST" "pb_range_stop el = NO_RANGE_REQUEST"
  shows "snd (monitor_check el) = MEnd"
  using assms by (simp add: monitor_check_def pending_eos_def VALID_RANGE_def)

text \<open>
  A range that begins before the segment and ends after what has arrived is noted, but the second test overwrites
  the flag of the first: the source is not asked to seek, and the monitor thread waits for a segment that does
  not come.
\<close>

lemma range_start_not_sought:
  assumes "0 \<le> start" "start < ps_start (pb_sink_segment el)" "ps_start (pb_sink_segment el) < 18446744073709551616"
    and "ps_position (pb_sink_segment el) < u64 (start + int n)" "u64 (start + int n) \<le> ps_stop (pb_sink_segment el)"
    and slow: "\<not> d_positive D (pb_bandwidth el)" and ok: "pb_srcresult el = GST_FLOW_OK"
  shows "\<exists>el'. progress_buffer_getrange D env el start n = Some (GST_FLOW_FLUSHING, None, el') \<and>
    pb_log el' = pb_log el @ [MsgUnderrun] \<and> snd (monitor_check el') = MWait"
  using assms
  by (auto simp: progress_buffer_getrange_def request_range_def send_underrun_message_def log_pb_def reset_eos_def
      progress_buffer_set_pending_event_def monitor_check_def pending_eos_def pending_range_start_def VALID_RANGE_def
      NO_RANGE_REQUEST_def u64_id Let_def)

section \<open>From creation to streaming\<close>

lemma first_segment:
  assumes io: "io_alloc (pe_io env)" "io_filename (pe_io env)" "io_open (pe_io env)" "io_unlink (pe_io env)"
    and sg: "ps_format sg = GST_FORMAT_BYTES" "ps_update sg" "ps_start sg = 0" "ps_position sg = 0" "0 < ps_stop sg"
      "ps_stop sg < 18446744073709551616"
    and data: "env_good env'" "int (length d) \<le> ps_stop sg" "pe_mode env' = GST_PAD_MODE_PUSH"
  shows "\<exists>el el'. progress_buffer_sink_event D env (progress_buffer_init D) (PbSegmentEvent sg) = Some (True, el) \<and>
    progress_buffer_chain D env' el 0 d = Some (GST_FLOW_OK, el') \<and>
    begun \<lparr> sy_el = el' \<lparr> pb_wake := False \<rparr>, sy_pc = LTop False \<rparr> \<and>
    initial \<lparr> sy_el = el' \<lparr> pb_wake := False \<rparr>, sy_pc = LTop False \<rparr> = d"
proof -
  define c0 where "c0 = \<lparr> c_file = [], c_readHandle = 0, c_writeHandle = 0, c_read_position = 0, c_write_position = 0 \<rparr>"
  let ?e = "(progress_buffer_init D) \<lparr> pb_unexpected := False, pb_cache := Some c0, pb_sink_segment := sg,
    pb_pending := Some (PbSegmentEvent sg), pb_instant_seek := True \<rparr>"
  let ?el = "signal_if (send_position_message D ?e True)"
  have cr: "create_cache (pe_io env) = Some c0" using io by (simp add: create_cache_def c0_def)
  have fl: "\<not> pb_is_source_seeking (progress_buffer_init D)" "\<not> pb_eos (progress_buffer_init D)"
    by (simp_all add: progress_buffer_init_def progress_buffer_flush_data_def)
  have "enqueue_segment D env (progress_buffer_init D) sg = Some (GST_FLOW_OK, ?el)"
    using sg cr by (simp add: enqueue_segment_def progress_buffer_set_pending_event_def u64_id Let_def)
  then have ev: "progress_buffer_sink_event D env (progress_buffer_init D) (PbSegmentEvent sg) = Some (True, ?el)"
    by (simp add: progress_buffer_sink_event_def progress_buffer_enqueue_item_def is_serialized_def fl)
  note st = stirred_sel [OF stirred_message [of ?e D True]]
  have el: "pb_cache ?el = Some c0" "pb_sink_segment ?el = sg" "\<not> pb_eos ?el" "\<not> pb_unexpected ?el" "\<not> pb_srcpad ?el"
    "pb_pending ?el = Some (PbSegmentEvent sg)" "pb_instant_seek ?el" "\<not> pb_is_source_seeking ?el"
    "pb_cache_read_offset ?el = 0"
    unfolding st using fl by (simp_all add: progress_buffer_init_def progress_buffer_flush_data_def)
  have log: "hushed (pb_log ?el)"
    using stirred_message [of ?e D True] by (auto simp: stirred_def progress_buffer_init_def progress_buffer_flush_data_def)
  obtain e1 where e1: "progress_buffer_enqueue_item D env' ?el (ItemBuffer 0 d) = Some (GST_FLOW_OK, e1)"
    "stirred (?el \<lparr> pb_sink_segment := (pb_sink_segment ?el) \<lparr> ps_position := 0 + int (length d) \<rparr>,
                    pb_cache := Some (cache_write_buffer (pe_io env') c0 d) \<rparr>) e1"
    using enqueue_writes [OF el(1), of 0 d D env'] data(2) sg(6) el(2) by auto
  note s1 = stirred_sel [OF e1(2)]
  have q1: "hushed (pb_log e1)" using e1(2) log by (auto simp: stirred_def)
  have ci: "cache_inv c0" "written c0 = []" "c_readHandle c0 = 0" by (simp_all add: cache_inv_def written_def c0_def)
  have "io_good (pe_io env')" using data(1) by (simp add: env_good_def)
  note w = cache_write_queue [OF this ci(1), of d]
  let ?e2 = "progress_buffer_create_sourcepad env' e1"
  have "progress_buffer_chain D env' ?el 0 d = Some (GST_FLOW_OK, ?e2)"
    using e1(1) el s1(1) by (simp add: progress_buffer_chain_def)
  moreover have "begun \<lparr> sy_el = ?e2 \<lparr> pb_wake := False \<rparr>, sy_pc = LTop False \<rparr>"
    "initial \<lparr> sy_el = ?e2 \<lparr> pb_wake := False \<rparr>, sy_pc = LTop False \<rparr> = d"
    using el s1 q1 w ci sg data(2,3) unfolding hushed_def
    by (simp_all add: begun_def initial_def progress_buffer_create_sourcepad_def progress_buffer_activatemode_def
        progress_buffer_activatepush_src_def reset_source_def reset_eos_def log_pb_def is_out_def Let_def)
  ultimately show ?thesis using ev by blast
qed

end
