(* ===== verification/Progress_Demo.thy ===== *)
theory Progress_Demo
  imports Progress_Pull
begin

text \<open>
  Concrete runs of the progress buffer: a system whose calls all succeed, a segment of six bytes,
  and a source that has sent three of them.
\<close>

definition demo_io :: cache_io where
  "demo_io = \<lparr> io_alloc = True, io_filename = True, io_open = True, io_unlink = True, io_map = True,
     io_write = int, io_read = int, io_lseek = True, io_wrap = True \<rparr>"

definition demo_env :: "int pb_env" where
  "demo_env = \<lparr> pe_io = demo_io, pe_elapsed = 0, pe_push = GST_FLOW_OK, pe_push_event = True, pe_linked = True,
     pe_task = True, pe_thread = True, pe_mode = GST_PAD_MODE_PUSH \<rparr>"

definition demo_dbl :: "int pb_dbl" where
  "demo_dbl = \<lparr> d_zero = 0, d_percent = (\<lambda>x y. x * 100 div y), d_exceeds = (\<lambda>x y z. z < x - y),
     d_over_second = (\<lambda>x. 1 < x), d_rate = (\<lambda>x y. x div y), d_within = (\<lambda>x y z. x \<le> y * z),
     d_ahead = (\<lambda>x y. x * y), d_positive = (\<lambda>x. 0 < x) \<rparr>"

definition demo_pb_segment :: PbSegment where
  "demo_pb_segment = \<lparr> ps_format = GST_FORMAT_BYTES, ps_update = True, ps_rate = 1, ps_start = 0, ps_stop = 6, ps_position = 0 \<rparr>"

definition demo_begun :: "int pbsys" where
  "demo_begun = \<lparr> sy_el = (snd (the (progress_buffer_chain demo_dbl demo_env
     (snd (the (progress_buffer_sink_event demo_dbl demo_env (progress_buffer_init demo_dbl) (PbSegmentEvent demo_pb_segment))))
     0 [1, 2, 3]))) \<lparr> pb_wake := False \<rparr>, sy_pc = LTop False \<rparr>"

lemma demo_io_good: "io_good demo_io"
  by (simp add: io_good_def demo_io_def)

lemma demo_env_good: "env_good demo_env"
  by (simp add: env_good_def demo_env_def demo_io_good)

lemma demo_begun: "begun demo_begun" "initial demo_begun = [1, 2, 3]"
  using first_segment [of demo_env demo_pb_segment demo_env "[1, 2, 3]" demo_dbl] demo_env_good
  unfolding demo_begun_def
  by (auto simp: demo_env_def demo_io_def demo_pb_segment_def)

text \<open>The source sends two more bytes while the task is at work.\<close>

definition demo_turns :: "int pb_act list" where
  "demo_turns = [ALoop demo_env, ALoop demo_env, AData demo_env 3 [4, 5]]"

text \<open>The source sends all the bytes and the task has read them.\<close>

definition demo_drained :: "int pb_act list" where
  "demo_drained = [ALoop demo_env, ALoop demo_env, AData demo_env 3 [4, 5, 6], ALoop demo_env]"

lemma demo_turns_run:
  "map_option (\<lambda>(rs, s). (rs, pb_eos (sy_el s), map_option unread (pb_cache (sy_el s)), sy_pc s))
     (turns demo_dbl demo_turns demo_begun)
   = Some ([4, 5], False, Some [1, 2, 3, 4, 5], LTop False)"
  by code_simp

lemma demo_turns_pull:
  "map_option (\<lambda>(rs, s). (ps_start (pb_sink_segment (sy_el s)), ps_position (pb_sink_segment (sy_el s)),
       ps_stop (pb_sink_segment (sy_el s)), pb_srcresult (sy_el s), pb_range_start (sy_el s), pb_bandwidth (sy_el s),
       map_option written (pb_cache (sy_el s))))
     (turns demo_dbl demo_turns demo_begun)
   = Some (0, 5, 6, GST_FLOW_OK, - 1, 0, Some [1, 2, 3, 4, 5])"
  by code_simp

lemma demo_drained_run:
  "map_option (\<lambda>(rs, s). (rs, pb_eos (sy_el s), map_option unread (pb_cache (sy_el s)), sy_pc s))
     (turns demo_dbl demo_drained demo_begun)
   = Some ([4, 5, 6], False, Some [], LPushBuffer 0 [1, 2, 3, 4, 5, 6])"
  by code_simp

lemma demo_stream:
  assumes "turns demo_dbl as demo_begun = Some (rs, s)" "list_all calls_good as"
  shows "stream demo_dbl demo_begun rs s"
  using turns_stream [OF stream.start assms(2,1)] by simp

lemma demo_calls: "list_all calls_good demo_turns" "list_all calls_good demo_drained"
  by (simp_all add: demo_turns_def demo_drained_def calls_good_def demo_env_good)

end
