(* ===== verification/Hls_Demo.thy ===== *)
theory Hls_Demo
  imports Hls_Stream Progress_Demo
begin

text \<open>
  Concrete runs of the HLS progress buffer with calls that all succeed: two segments of which the task has read a part, and three
  segments that fill the caches while a fourth is announced.
\<close>

fun hls_turns :: "hls_act list \<Rightarrow> hlssys \<Rightarrow> (data \<times> hlssys) option" where
  "hls_turns [] s = Some ([], s)"
| "hls_turns (a # as) s =
     (if hls_in_turn s a then do { s' \<leftarrow> hls_step a s; (rs, t) \<leftarrow> hls_turns as s'; Some (hls_taken s a @ rs, t) } else None)"

lemma hls_turns_stream:
  assumes "hls_stream s0 rs s" "list_all hls_calls_good as" "hls_turns as s = Some (rs', t)"
  shows "hls_stream s0 (rs @ rs') t"
  using assms
proof (induction as arbitrary: rs s rs')
  case (Cons a as)
  then obtain s1 r2 where s: "hls_in_turn s a" "hls_step a s = Some s1" "hls_turns as s1 = Some (r2, t)" "rs' = hls_taken s a @ r2"
    by (auto split: if_splits bind_splits)
  from Cons.IH [OF hls_stream.step [OF Cons.prems(1) _ s(1,2)] _ s(3)] show ?case using Cons.prems(2) s(4) by simp
qed simp

definition demo_hls_env :: hls_env where
  "demo_hls_env = \<lparr> he_io = demo_io, he_push = GST_FLOW_OK, he_push_event = True, he_linked = True, he_task = True \<rparr>"

definition demo_ios :: "cache_io list" where
  "demo_ios = [demo_io, demo_io, demo_io]"

definition demo_hls_segment :: "int \<Rightarrow> HlsSegment" where
  "demo_hls_segment n = \<lparr> hs_start = 0, hs_stop = n, hs_position = 0, hs_rate = 1, hs_flags = 0 \<rparr>"

text \<open>The source announces a segment, takes a cache and sends all its bytes.\<close>

definition demo_send :: "data \<Rightarrow> hls_act list" where
  "demo_send d = [HEvent demo_hls_env (HlsSegmentEvent (demo_hls_segment (int (length d)))), HSource demo_hls_env, HSource demo_hls_env,
     HData demo_hls_env d]"

definition demo_reading :: "hls_act list" where
  "demo_reading = demo_send [1, 2, 3] @ [HLoop demo_hls_env, HLoop demo_hls_env] @ demo_send [4, 5] @ [HLoop demo_hls_env]"

definition demo_filled :: "hls_act list" where
  "demo_filled = demo_send [1] @ demo_send [2] @ demo_send [3] @
     [HEvent demo_hls_env (HlsSegmentEvent (demo_hls_segment 1)), HSource demo_hls_env, HSource demo_hls_env]"

lemma demo_hls_env_good: "hls_env_good demo_hls_env"
  by (simp add: hls_env_good_def demo_hls_env_def demo_io_good)

lemma demo_hls_calls: "list_all hls_calls_good demo_reading" "list_all hls_calls_good demo_filled"
  by (simp_all add: demo_reading_def demo_filled_def demo_send_def hls_calls_good_def demo_hls_env_good)

lemma demo_created: "caches_created demo_ios"
  by (simp add: caches_created_def demo_ios_def create_cache_def demo_io_def)

lemma demo_reading_run:
  "map_option (\<lambda>(rs, s). (rs, hls_out (h_log (y_h s)), y_source s, y_task s)) (hls_turns demo_reading (hls_start demo_ios))
   = Some ([1, 2, 3, 4, 5], [1, 2, 3], SIdle, HPush [4, 5])"
  by code_simp

lemma demo_filled_run:
  "map_option (\<lambda>(rs, s). (rs, hls_out (h_log (y_h s)), y_source s, y_task s)) (hls_turns demo_filled (hls_start demo_ios))
   = Some ([1, 2, 3], [], SFull (demo_hls_segment 1), HTop)"
  by code_simp

lemma demo_hls_stream:
  assumes "hls_turns as (hls_start demo_ios) = Some (rs, s)" "list_all hls_calls_good as"
  shows "hls_stream (hls_start demo_ios) rs s"
  using hls_turns_stream [OF hls_stream.start assms(2,1)] by simp

end
