(* ===== verification/Prism_Edges.thy ===== *)
theory Prism_Edges
  imports JFX_Prelude
begin

text \<open>
  The edge list of the native rasterizer of Prism, \<^verbatim>\<open>native-prism/Renderer.c\<close> with the macros of
  \<^verbatim>\<open>Helpers.h\<close> and the setters of \<^verbatim>\<open>Curve.c\<close>: a path is flattened into lines, and each line that crosses a row
  of samples becomes an edge of five floats in one array. The edges that start on the same row are a linked list
  in that array, whose links are floats too; the buckets hold the heads of the lists and, in their second
  entries, twice the length of the list and a low bit that says whether an edge ends on the row.

  Floats are a parameter \<open>F\<close> of type \<open>prism_floats\<close>: the operations the code applies to them. The struct \<open>Renderer\<close> is the
  record \<open>PrismRenderer\<close>; its table of function pointers is always the one that \<open>Renderer_init\<close> sets, and its field
  \<open>iterator\<close> is not used by the code. Memory from \<open>calloc\<close> is zero. A negative length is converted to
  an unsigned one that no allocation can have, and gives the null pointer; running out of memory is not modelled, the code does
  not test for it.
\<close>

section \<open>Floats and arrays\<close>

record 'f prism_floats =
  fl_of :: "int \<Rightarrow> 'f"
  fl_to :: "'f \<Rightarrow> int"
  fl_ceil :: "'f \<Rightarrow> int"
  fl_less :: "'f \<Rightarrow> 'f \<Rightarrow> bool"
  fl_le :: "'f \<Rightarrow> 'f \<Rightarrow> bool"
  fl_add :: "'f \<Rightarrow> 'f \<Rightarrow> 'f"
  fl_sub :: "'f \<Rightarrow> 'f \<Rightarrow> 'f"
  fl_mul :: "'f \<Rightarrow> 'f \<Rightarrow> 'f"
  fl_div :: "'f \<Rightarrow> 'f \<Rightarrow> 'f"
  fl_neg :: "'f \<Rightarrow> 'f"
  fl_abs :: "'f \<Rightarrow> 'f"
  fl_half :: 'f
  fl_biggest :: 'f
  fl_inc_bnd :: 'f

definition new_float :: "'f prism_floats \<Rightarrow> int \<Rightarrow> 'f buf" where
  "new_float F s = (if s < 0 then None else Some (replicate (nat s) (fl_of F 0)))"

definition new_int :: "int \<Rightarrow> int buf" where
  "new_int s = (if s < 0 then None else Some (replicate (nat s) 0))"

definition System_arraycopy :: "'a buf \<Rightarrow> int \<Rightarrow> 'a buf \<Rightarrow> int \<Rightarrow> int \<Rightarrow> 'a buf option" where
  "System_arraycopy arr1 off1 arr2 off2 n =
     loopM (\<lambda>i arr2. do { v \<leftarrow> rd arr1 (off1 + i); wr arr2 (off2 + i) v }) 0 (nat n) arr2"

definition Arrays_fill :: "'a buf \<Rightarrow> int \<Rightarrow> int \<Rightarrow> 'a \<Rightarrow> 'a buf option" where
  "Arrays_fill arr from to val = loopM (\<lambda>i arr. wr arr i val) from (nat (to - from)) arr"

text \<open>The row or column of the first sample at or after a coordinate: \<open>(jint) ceil(v - 0.5f)\<close>.\<close>

definition sample_of :: "'f prism_floats \<Rightarrow> 'f \<Rightarrow> int" where
  "sample_of F v = fl_ceil F (fl_sub F v (fl_half F))"

section \<open>The state\<close>

record 'f Curve =
  cv_ax :: 'f
  cv_ay :: 'f
  cv_bx :: 'f
  cv_by :: 'f
  cv_cx :: 'f
  cv_cy :: 'f
  cv_dx :: 'f
  cv_dy :: 'f
  cv_dax :: 'f
  cv_day :: 'f
  cv_dbx :: 'f
  cv_dby :: 'f

record 'f PrismRenderer =
  pr_sampleRowMin :: int
  pr_sampleRowMax :: int
  pr_edgeMinX :: 'f
  pr_edgeMaxX :: 'f
  pr_edges :: "'f buf"
  pr_edgesSIZE :: int
  pr_edgeBuckets :: "int buf"
  pr_edgeBucketsSIZE :: int
  pr_numEdges :: int
  pr_boundsMinX :: int
  pr_boundsMinY :: int
  pr_boundsMaxX :: int
  pr_boundsMaxY :: int
  pr_windingRule :: int
  pr_x0 :: 'f
  pr_y0 :: 'f
  pr_pix_sx0 :: 'f
  pr_pix_sy0 :: 'f
  pr_c :: "'f Curve"

definition YMAX :: int where "YMAX = 0"
definition CURX :: int where "CURX = 1"
definition ORI :: int where "ORI = 2"
definition SLOPE :: int where "SLOPE = 3"
definition NEXT :: int where "NEXT = 4"
definition SIZEOF_EDGE :: int where "SIZEOF_EDGE = 5"
definition WIND_EVEN_ODD :: int where "WIND_EVEN_ODD = 0"
definition WIND_NON_ZERO :: int where "WIND_NON_ZERO = 1"

lemmas edge_fields = YMAX_def CURX_def ORI_def SLOPE_def NEXT_def SIZEOF_EDGE_def

text \<open>The static variables of \<^verbatim>\<open>Renderer.c\<close>.\<close>

record AlphaStatics =
  SUBPIXEL_LG_POSITIONS_X :: nat
  SUBPIXEL_LG_POSITIONS_Y :: nat
  SUBPIXEL_POSITIONS_X :: int
  SUBPIXEL_POSITIONS_Y :: int
  SUBPIXEL_MASK_X :: int
  SUBPIXEL_MASK_Y :: int
  alphaMap :: "int buf"
  alphaMax :: int
  altAlphaMap :: "int buf"
  altAlphaMax :: int

section \<open>Adding edges\<close>

definition addEdgeToBucket :: "'f prism_floats \<Rightarrow> 'f PrismRenderer \<Rightarrow> int \<Rightarrow> int \<Rightarrow> 'f PrismRenderer option" where
  "addEdgeToBucket F r eptr bucket = do {
     h \<leftarrow> rd (pr_edgeBuckets r) (bucket * 2);
     es \<leftarrow> wr (pr_edges r) (eptr + NEXT) (fl_of F h);
     bs \<leftarrow> wr (pr_edgeBuckets r) (bucket * 2) (i32 (eptr + 1));
     n \<leftarrow> rd bs (bucket * 2 + 1);
     bs \<leftarrow> wr bs (bucket * 2 + 1) (i32 (n + 2));
     Some (r \<lparr> pr_edges := es, pr_edgeBuckets := bs \<rparr>) }"

definition include_edge :: "'f prism_floats \<Rightarrow> 'f PrismRenderer \<Rightarrow> int \<Rightarrow> int \<Rightarrow> 'f \<Rightarrow> 'f \<Rightarrow> 'f \<Rightarrow> 'f PrismRenderer" where
  "include_edge F r firstCrossing lastCrossing slope x1 x2 =
     (let r = (if firstCrossing < pr_sampleRowMin r then r \<lparr> pr_sampleRowMin := firstCrossing \<rparr> else r);
          r = (if lastCrossing > pr_sampleRowMax r then r \<lparr> pr_sampleRowMax := lastCrossing \<rparr> else r)
      in if fl_less F (fl_of F 0) slope
         then let r = (if fl_less F x1 (pr_edgeMinX r) then r \<lparr> pr_edgeMinX := x1 \<rparr> else r)
              in if fl_less F (pr_edgeMaxX r) x2 then r \<lparr> pr_edgeMaxX := x2 \<rparr> else r
         else let r = (if fl_less F x2 (pr_edgeMinX r) then r \<lparr> pr_edgeMinX := x2 \<rparr> else r)
              in if fl_less F (pr_edgeMaxX r) x1 then r \<lparr> pr_edgeMaxX := x1 \<rparr> else r)"

definition grow_edges :: "'f prism_floats \<Rightarrow> 'f PrismRenderer \<Rightarrow> int \<Rightarrow> 'f PrismRenderer option" where
  "grow_edges F r ptr =
     (if pr_edgesSIZE r < ptr + SIZEOF_EDGE
      then do {
        let newSize = i32 ((ptr + SIZEOF_EDGE) * 2);
        newEdges \<leftarrow> System_arraycopy (pr_edges r) 0 (new_float F newSize) 0 ptr;
        Some (r \<lparr> pr_edges := newEdges, pr_edgesSIZE := newSize \<rparr>) }
      else Some r)"

definition store_edge ::
  "'f prism_floats \<Rightarrow> 'f PrismRenderer \<Rightarrow> int \<Rightarrow> 'f \<Rightarrow> 'f \<Rightarrow> 'f \<Rightarrow> int \<Rightarrow> int \<Rightarrow> 'f PrismRenderer option" where
  "store_edge F r ptr ori curx slope firstCrossing lastCrossing = do {
     let r = r \<lparr> pr_numEdges := i32 (pr_numEdges r + 1) \<rparr>;
     es \<leftarrow> wr (pr_edges r) (ptr + ORI) ori;
     es \<leftarrow> wr es (ptr + CURX) curx;
     es \<leftarrow> wr es (ptr + SLOPE) slope;
     es \<leftarrow> wr es (ptr + YMAX) (fl_of F lastCrossing);
     let r = r \<lparr> pr_edges := es \<rparr>;
     r \<leftarrow> addEdgeToBucket F r ptr (i32 (firstCrossing - pr_boundsMinY r));
     let i = i32 (lastCrossing - pr_boundsMinY r) * 2 + 1;
     n \<leftarrow> rd (pr_edgeBuckets r) i;
     bs \<leftarrow> wr (pr_edgeBuckets r) i (n OR 1);
     Some (r \<lparr> pr_edgeBuckets := bs \<rparr>) }"

definition add_rising ::
  "'f prism_floats \<Rightarrow> 'f PrismRenderer \<Rightarrow> 'f \<Rightarrow> 'f \<Rightarrow> 'f \<Rightarrow> 'f \<Rightarrow> 'f \<Rightarrow> 'f PrismRenderer option" where
  "add_rising F r ori x1 y1 x2 y2 =
     (let firstCrossing = max (sample_of F y1) (pr_boundsMinY r);
          lastCrossing = min (sample_of F y2) (pr_boundsMaxY r)
      in if firstCrossing \<ge> lastCrossing then Some r
         else do {
           let slope = fl_div F (fl_sub F x2 x1) (fl_sub F y2 y1);
           let r = include_edge F r firstCrossing lastCrossing slope x1 x2;
           let ptr = i32 (pr_numEdges r * SIZEOF_EDGE);
           r \<leftarrow> grow_edges F r ptr;
           let curx = fl_add F x1 (fl_mul F (fl_sub F (fl_add F (fl_of F firstCrossing) (fl_half F)) y1) slope);
           store_edge F r ptr ori curx slope firstCrossing lastCrossing })"

definition addLine :: "'f prism_floats \<Rightarrow> 'f PrismRenderer \<Rightarrow> 'f \<Rightarrow> 'f \<Rightarrow> 'f \<Rightarrow> 'f \<Rightarrow> 'f PrismRenderer option" where
  "addLine F r x1 y1 x2 y2 =
     (if fl_less F y2 y1 then add_rising F r (fl_of F 0) x2 y2 x1 y1
      else add_rising F r (fl_of F 1) x1 y1 x2 y2)"

section \<open>Flattening curves\<close>

text \<open>Doubling the number of lines until the second difference is small; the loop ends when the floats get there.\<close>

partial_function (option) quad_count :: "'f prism_floats \<Rightarrow> 'f \<Rightarrow> int \<Rightarrow> int option" where
  "quad_count F maxDD count =
     (if fl_less F (fl_of F 32) maxDD then quad_count F (fl_div F maxDD (fl_of F 4)) (i32 (shl count 1)) else Some count)"

definition fl_max :: "'f prism_floats \<Rightarrow> 'f \<Rightarrow> 'f \<Rightarrow> 'f" where
  "fl_max F a b = (if fl_less F b a then a else b)"

definition quad_line ::
  "'f prism_floats \<Rightarrow> 'f \<Rightarrow> 'f \<Rightarrow> 'f PrismRenderer \<times> 'f \<times> 'f \<times> 'f \<times> 'f \<Rightarrow> ('f PrismRenderer \<times> 'f \<times> 'f \<times> 'f \<times> 'f) option" where
  "quad_line F ddx ddy s =
     (let (r, x0, y0, dx, dy) = s; x1 = fl_add F x0 dx; y1 = fl_add F y0 dy
      in do { r \<leftarrow> addLine F r x0 y0 x1 y1; Some (r, x1, y1, fl_add F dx ddx, fl_add F dy ddy) })"

definition quadBreakIntoLinesAndAdd ::
  "'f prism_floats \<Rightarrow> 'f PrismRenderer \<Rightarrow> 'f \<Rightarrow> 'f \<Rightarrow> 'f Curve \<Rightarrow> 'f \<Rightarrow> 'f \<Rightarrow> 'f PrismRenderer option" where
  "quadBreakIntoLinesAndAdd F r x0 y0 c x2 y2 = do {
     let maxDD = fl_max F (fl_div F (cv_dbx c) (fl_of F 256)) (fl_div F (cv_dby c) (fl_of F 256));
     count \<leftarrow> quad_count F maxDD 16;
     let countsq = i32 (count * count);
     let ddx = fl_div F (cv_dbx c) (fl_of F countsq);
     let ddy = fl_div F (cv_dby c) (fl_of F countsq);
     let dx = fl_add F (fl_div F (cv_bx c) (fl_of F countsq)) (fl_div F (cv_cx c) (fl_of F count));
     let dy = fl_add F (fl_div F (cv_by c) (fl_of F countsq)) (fl_div F (cv_cy c) (fl_of F count));
     (r, x0, y0, _, _) \<leftarrow> loopM (\<lambda>_. quad_line F ddx ddy) 0 (nat (count - 1)) (r, x0, y0, dx, dy);
     addLine F r x0 y0 x2 y2 }"

record 'f differences =
  df_count :: int
  df_dx :: 'f
  df_dy :: 'f
  df_ddx :: 'f
  df_ddy :: 'f
  df_dddx :: 'f
  df_dddy :: 'f

definition refine_step :: "'f prism_floats \<Rightarrow> 'f differences \<Rightarrow> 'f differences" where
  "refine_step F s =
     (let dddx = fl_div F (df_dddx s) (fl_of F 8); dddy = fl_div F (df_dddy s) (fl_of F 8);
          ddx = fl_sub F (fl_div F (df_ddx s) (fl_of F 4)) dddx; ddy = fl_sub F (fl_div F (df_ddy s) (fl_of F 4)) dddy
      in \<lparr> df_count = i32 (shl (df_count s) 1),
           df_dx = fl_div F (fl_sub F (df_dx s) ddx) (fl_of F 2), df_dy = fl_div F (fl_sub F (df_dy s) ddy) (fl_of F 2),
           df_ddx = ddx, df_ddy = ddy, df_dddx = dddx, df_dddy = dddy \<rparr>)"

definition coarsen_step :: "'f prism_floats \<Rightarrow> 'f differences \<Rightarrow> 'f differences" where
  "coarsen_step F s =
     \<lparr> df_count = sar (df_count s) 1,
       df_dx = fl_add F (fl_mul F (fl_of F 2) (df_dx s)) (df_ddx s), df_dy = fl_add F (fl_mul F (fl_of F 2) (df_dy s)) (df_ddy s),
       df_ddx = fl_mul F (fl_of F 4) (fl_add F (df_ddx s) (df_dddx s)), df_ddy = fl_mul F (fl_of F 4) (fl_add F (df_ddy s) (df_dddy s)),
       df_dddx = fl_mul F (fl_of F 8) (df_dddx s), df_dddy = fl_mul F (fl_of F 8) (df_dddy s) \<rparr>"

partial_function (option) curve_refine :: "'f prism_floats \<Rightarrow> 'f differences \<Rightarrow> 'f differences option" where
  "curve_refine F s =
     (if fl_less F (fl_of F 1) (fl_abs F (df_ddx s)) \<or> fl_less F (fl_of F 1) (fl_abs F (df_ddy s))
      then curve_refine F (refine_step F s) else Some s)"

partial_function (option) curve_coarsen :: "'f prism_floats \<Rightarrow> 'f differences \<Rightarrow> 'f differences option" where
  "curve_coarsen F s =
     (if even (df_count s) \<and> fl_le F (fl_abs F (df_dx s)) (fl_inc_bnd F) \<and> fl_le F (fl_abs F (df_dy s)) (fl_inc_bnd F)
      then curve_coarsen F (coarsen_step F s) else Some s)"

definition advance_step :: "'f prism_floats \<Rightarrow> 'f differences \<Rightarrow> 'f differences" where
  "advance_step F s =
     s \<lparr> df_dx := fl_add F (df_dx s) (df_ddx s), df_ddx := fl_add F (df_ddx s) (df_dddx s),
         df_dy := fl_add F (df_dy s) (df_ddy s), df_ddy := fl_add F (df_ddy s) (df_dddy s) \<rparr>"

partial_function (option) curve_lines ::
  "'f prism_floats \<Rightarrow> 'f PrismRenderer \<Rightarrow> 'f differences \<Rightarrow> 'f \<Rightarrow> 'f \<Rightarrow> 'f \<Rightarrow> 'f \<Rightarrow> 'f \<Rightarrow> 'f \<Rightarrow> 'f PrismRenderer option" where
  "curve_lines F r s x0 y0 x1 y1 x3 y3 =
     (if 0 < df_count s
      then do {
        s \<leftarrow> curve_refine F s;
        s \<leftarrow> curve_coarsen F s;
        let s = s \<lparr> df_count := i32 (df_count s - 1) \<rparr>;
        let (x1, y1, s) = (if 0 < df_count s then (fl_add F x1 (df_dx s), fl_add F y1 (df_dy s), advance_step F s) else (x3, y3, s));
        r \<leftarrow> addLine F r x0 y0 x1 y1;
        curve_lines F r s x1 y1 x1 y1 x3 y3 }
      else Some r)"

definition first_differences :: "'f prism_floats \<Rightarrow> 'f Curve \<Rightarrow> 'f differences" where
  "first_differences F c =
     (let dddx = fl_div F (fl_mul F (fl_of F 2) (cv_dax c)) (fl_of F 512);
          dddy = fl_div F (fl_mul F (fl_of F 2) (cv_day c)) (fl_of F 512)
      in \<lparr> df_count = 8,
           df_dx = fl_add F (fl_add F (fl_div F (cv_ax c) (fl_of F 512)) (fl_div F (cv_bx c) (fl_of F 64))) (fl_div F (cv_cx c) (fl_of F 8)),
           df_dy = fl_add F (fl_add F (fl_div F (cv_ay c) (fl_of F 512)) (fl_div F (cv_by c) (fl_of F 64))) (fl_div F (cv_cy c) (fl_of F 8)),
           df_ddx = fl_add F dddx (fl_div F (cv_dbx c) (fl_of F 64)), df_ddy = fl_add F dddy (fl_div F (cv_dby c) (fl_of F 64)),
           df_dddx = dddx, df_dddy = dddy \<rparr>)"

definition curveBreakIntoLinesAndAdd ::
  "'f prism_floats \<Rightarrow> 'f PrismRenderer \<Rightarrow> 'f \<Rightarrow> 'f \<Rightarrow> 'f Curve \<Rightarrow> 'f \<Rightarrow> 'f \<Rightarrow> 'f PrismRenderer option" where
  "curveBreakIntoLinesAndAdd F r x0 y0 c x3 y3 = curve_lines F r (first_differences F c) x0 y0 x0 y0 x3 y3"

definition Curve_setcubic :: "'f prism_floats \<Rightarrow> 'f \<Rightarrow> 'f \<Rightarrow> 'f \<Rightarrow> 'f \<Rightarrow> 'f \<Rightarrow> 'f \<Rightarrow> 'f \<Rightarrow> 'f \<Rightarrow> 'f Curve" where
  "Curve_setcubic F x1 y1 x2 y2 x3 y3 x4 y4 =
     (let three = fl_mul F (fl_of F 3); two = fl_mul F (fl_of F 2);
          ax = fl_sub F (fl_add F (three (fl_sub F x2 x3)) x4) x1; ay = fl_sub F (fl_add F (three (fl_sub F y2 y3)) y4) y1;
          bx = three (fl_add F (fl_sub F x1 (two x2)) x3); by' = three (fl_add F (fl_sub F y1 (two y2)) y3)
      in \<lparr> cv_ax = ax, cv_ay = ay, cv_bx = bx, cv_by = by', cv_cx = three (fl_sub F x2 x1), cv_cy = three (fl_sub F y2 y1),
           cv_dx = x1, cv_dy = y1, cv_dax = three ax, cv_day = three ay, cv_dbx = two bx, cv_dby = two by' \<rparr>)"

definition Curve_setquad :: "'f prism_floats \<Rightarrow> 'f \<Rightarrow> 'f \<Rightarrow> 'f \<Rightarrow> 'f \<Rightarrow> 'f \<Rightarrow> 'f \<Rightarrow> 'f Curve" where
  "Curve_setquad F x1 y1 x2 y2 x3 y3 =
     (let two = fl_mul F (fl_of F 2);
          bx = fl_add F (fl_sub F x1 (two x2)) x3; by' = fl_add F (fl_sub F y1 (two y2)) y3
      in \<lparr> cv_ax = fl_of F 0, cv_ay = fl_of F 0, cv_bx = bx, cv_by = by', cv_cx = two (fl_sub F x2 x1), cv_cy = two (fl_sub F y2 y1),
           cv_dx = x1, cv_dy = y1, cv_dax = fl_of F 0, cv_day = fl_of F 0, cv_dbx = two bx, cv_dby = two by' \<rparr>)"

section \<open>The path consumer\<close>

definition Renderer_init :: "'f prism_floats \<Rightarrow> 'f PrismRenderer" where
  "Renderer_init F =
     (let z = fl_of F 0
      in \<lparr> pr_sampleRowMin = 0, pr_sampleRowMax = 0, pr_edgeMinX = z, pr_edgeMaxX = z, pr_edges = None, pr_edgesSIZE = 0,
           pr_edgeBuckets = None, pr_edgeBucketsSIZE = 0, pr_numEdges = 0, pr_boundsMinX = 0, pr_boundsMinY = 0, pr_boundsMaxX = 0,
           pr_boundsMaxY = 0, pr_windingRule = 0, pr_x0 = z, pr_y0 = z, pr_pix_sx0 = z, pr_pix_sy0 = z,
           pr_c = \<lparr> cv_ax = z, cv_ay = z, cv_bx = z, cv_by = z, cv_cx = z, cv_cy = z, cv_dx = z, cv_dy = z,
                    cv_dax = z, cv_day = z, cv_dbx = z, cv_dby = z \<rparr> \<rparr>)"

definition reset_buckets :: "'f PrismRenderer \<Rightarrow> int \<Rightarrow> 'f PrismRenderer option" where
  "reset_buckets r numBuckets =
     (if pr_edgeBuckets r = None \<or> pr_edgeBucketsSIZE r < numBuckets * 2 + 2
      then Some (r \<lparr> pr_edgeBuckets := new_int (numBuckets * 2 + 2), pr_edgeBucketsSIZE := numBuckets * 2 + 2 \<rparr>)
      else do { bs \<leftarrow> Arrays_fill (pr_edgeBuckets r) 0 (numBuckets * 2) 0; Some (r \<lparr> pr_edgeBuckets := bs \<rparr>) })"

definition Renderer_reset ::
  "'f prism_floats \<Rightarrow> AlphaStatics \<Rightarrow> 'f PrismRenderer \<Rightarrow> int \<Rightarrow> int \<Rightarrow> int \<Rightarrow> int \<Rightarrow> int \<Rightarrow> 'f PrismRenderer option" where
  "Renderer_reset F st r pix_boundsX pix_boundsY pix_boundsWidth pix_boundsHeight windingRule = do {
     let r = r \<lparr> pr_windingRule := windingRule,
                 pr_boundsMinX := i32 (pix_boundsX * SUBPIXEL_POSITIONS_X st),
                 pr_boundsMinY := i32 (pix_boundsY * SUBPIXEL_POSITIONS_Y st),
                 pr_boundsMaxX := i32 ((pix_boundsX + pix_boundsWidth) * SUBPIXEL_POSITIONS_X st),
                 pr_boundsMaxY := i32 ((pix_boundsY + pix_boundsHeight) * SUBPIXEL_POSITIONS_Y st) \<rparr>;
     let r = r \<lparr> pr_edgeMinX := fl_biggest F, pr_edgeMaxX := fl_neg F (fl_biggest F),
                 pr_sampleRowMax := pr_boundsMinY r, pr_sampleRowMin := pr_boundsMaxY r \<rparr>;
     r \<leftarrow> reset_buckets r (i32 (pr_boundsMaxY r - pr_boundsMinY r));
     let r = (if pr_edges r = None then r \<lparr> pr_edges := new_float F (SIZEOF_EDGE * 32), pr_edgesSIZE := SIZEOF_EDGE * 32 \<rparr> else r);
     let z = fl_of F 0;
     Some (r \<lparr> pr_numEdges := 0, pr_pix_sx0 := z, pr_pix_sy0 := z, pr_x0 := z, pr_y0 := z \<rparr>) }"

definition tosubpixx :: "'f prism_floats \<Rightarrow> AlphaStatics \<Rightarrow> 'f \<Rightarrow> 'f" where
  "tosubpixx F st x = fl_mul F x (fl_of F (SUBPIXEL_POSITIONS_X st))"

definition tosubpixy :: "'f prism_floats \<Rightarrow> AlphaStatics \<Rightarrow> 'f \<Rightarrow> 'f" where
  "tosubpixy F st y = fl_mul F y (fl_of F (SUBPIXEL_POSITIONS_Y st))"

definition Renderer_lineTo :: "'f prism_floats \<Rightarrow> AlphaStatics \<Rightarrow> 'f PrismRenderer \<Rightarrow> 'f \<Rightarrow> 'f \<Rightarrow> 'f PrismRenderer option" where
  "Renderer_lineTo F st r pix_x1 pix_y1 = do {
     let x1 = tosubpixx F st pix_x1;
     let y1 = tosubpixy F st pix_y1;
     r \<leftarrow> addLine F r (pr_x0 r) (pr_y0 r) x1 y1;
     Some (r \<lparr> pr_x0 := x1, pr_y0 := y1 \<rparr>) }"

definition Renderer_closePath :: "'f prism_floats \<Rightarrow> AlphaStatics \<Rightarrow> 'f PrismRenderer \<Rightarrow> 'f PrismRenderer option" where
  "Renderer_closePath F st r = Renderer_lineTo F st r (pr_pix_sx0 r) (pr_pix_sy0 r)"

definition Renderer_moveTo :: "'f prism_floats \<Rightarrow> AlphaStatics \<Rightarrow> 'f PrismRenderer \<Rightarrow> 'f \<Rightarrow> 'f \<Rightarrow> 'f PrismRenderer option" where
  "Renderer_moveTo F st r pix_x0 pix_y0 = do {
     r \<leftarrow> Renderer_closePath F st r;
     Some (r \<lparr> pr_pix_sx0 := pix_x0, pr_pix_sy0 := pix_y0, pr_y0 := tosubpixy F st pix_y0, pr_x0 := tosubpixx F st pix_x0 \<rparr>) }"

definition Renderer_curveTo ::
  "'f prism_floats \<Rightarrow> AlphaStatics \<Rightarrow> 'f PrismRenderer \<Rightarrow> 'f \<Rightarrow> 'f \<Rightarrow> 'f \<Rightarrow> 'f \<Rightarrow> 'f \<Rightarrow> 'f \<Rightarrow> 'f PrismRenderer option" where
  "Renderer_curveTo F st r x1 y1 x2 y2 x3 y3 = do {
     let xe = tosubpixx F st x3;
     let ye = tosubpixy F st y3;
     let r = r \<lparr> pr_c := Curve_setcubic F (pr_x0 r) (pr_y0 r) (tosubpixx F st x1) (tosubpixy F st y1)
                                (tosubpixx F st x2) (tosubpixy F st y2) xe ye \<rparr>;
     r \<leftarrow> curveBreakIntoLinesAndAdd F r (pr_x0 r) (pr_y0 r) (pr_c r) xe ye;
     Some (r \<lparr> pr_x0 := xe, pr_y0 := ye \<rparr>) }"

definition Renderer_quadTo ::
  "'f prism_floats \<Rightarrow> AlphaStatics \<Rightarrow> 'f PrismRenderer \<Rightarrow> 'f \<Rightarrow> 'f \<Rightarrow> 'f \<Rightarrow> 'f \<Rightarrow> 'f PrismRenderer option" where
  "Renderer_quadTo F st r x1 y1 x2 y2 = do {
     let xe = tosubpixx F st x2;
     let ye = tosubpixy F st y2;
     let r = r \<lparr> pr_c := Curve_setquad F (pr_x0 r) (pr_y0 r) (tosubpixx F st x1) (tosubpixy F st y1) xe ye \<rparr>;
     r \<leftarrow> quadBreakIntoLinesAndAdd F r (pr_x0 r) (pr_y0 r) (pr_c r) xe ye;
     Some (r \<lparr> pr_x0 := xe, pr_y0 := ye \<rparr>) }"

definition Renderer_pathDone :: "'f prism_floats \<Rightarrow> AlphaStatics \<Rightarrow> 'f PrismRenderer \<Rightarrow> 'f PrismRenderer option" where
  "Renderer_pathDone F st r = Renderer_closePath F st r"

section \<open>Bounds of the output\<close>

definition getSubpixMinX :: "'f prism_floats \<Rightarrow> 'f PrismRenderer \<Rightarrow> int" where
  "getSubpixMinX F r = (let m = sample_of F (pr_edgeMinX r) in if m < pr_boundsMinX r then pr_boundsMinX r else m)"

definition getSubpixMaxX :: "'f prism_floats \<Rightarrow> 'f PrismRenderer \<Rightarrow> int" where
  "getSubpixMaxX F r = (let m = sample_of F (pr_edgeMaxX r) in if m > pr_boundsMaxX r then pr_boundsMaxX r else m)"

definition Renderer_getOutputBounds :: "'f prism_floats \<Rightarrow> AlphaStatics \<Rightarrow> 'f PrismRenderer \<Rightarrow> int \<times> int \<times> int \<times> int" where
  "Renderer_getOutputBounds F st r =
     (sar (getSubpixMinX F r) (SUBPIXEL_LG_POSITIONS_X st),
      sar (pr_sampleRowMin r) (SUBPIXEL_LG_POSITIONS_Y st),
      sar (i32 (getSubpixMaxX F r + SUBPIXEL_MASK_X st)) (SUBPIXEL_LG_POSITIONS_X st),
      sar (i32 (pr_sampleRowMax r + SUBPIXEL_MASK_Y st)) (SUBPIXEL_LG_POSITIONS_Y st))"

end
