(* ===== verification/Prism_Scan.thy ===== *)
theory Prism_Scan
  imports Prism_Edges
begin

text \<open>
  The scanline iterator and the production of alphas of \<^verbatim>\<open>native-prism/Renderer.c\<close>. The iterator keeps the edges that cross the
  current row of samples, with their crossings in order; from the crossings of the rows of one
  pixel row the producer accumulates, as differences, how many samples of each pixel are inside the path, and maps the
  number to a byte. The stack array \<open>savedAlpha\<close> has unknown contents and is a parameter.
\<close>

section \<open>The scanline iterator\<close>

record ScanlineIterator =
  it_crossings :: "int buf"
  it_crossingsSIZE :: int
  it_edgePtrs :: "int buf"
  it_edgePtrsSIZE :: int
  it_edgeCount :: int
  it_nextY :: int

definition INIT_CROSSINGS_SIZE :: int where
  "INIT_CROSSINGS_SIZE = 10"

definition ScanlineIterator_reset :: "ScanlineIterator \<Rightarrow> 'f PrismRenderer \<Rightarrow> ScanlineIterator" where
  "ScanlineIterator_reset it r = it \<lparr> it_nextY := pr_sampleRowMin r, it_edgeCount := 0 \<rparr>"

definition ScanlineIterator_init :: "ScanlineIterator \<Rightarrow> 'f PrismRenderer \<Rightarrow> ScanlineIterator" where
  "ScanlineIterator_init it r =
     ScanlineIterator_reset (it \<lparr> it_crossings := new_int INIT_CROSSINGS_SIZE, it_crossingsSIZE := INIT_CROSSINGS_SIZE,
       it_edgePtrs := new_int INIT_CROSSINGS_SIZE, it_edgePtrsSIZE := INIT_CROSSINGS_SIZE \<rparr>) r"

text \<open>Dropping the edges that end on this row, when there is one.\<close>

definition keep_active :: "'f prism_floats \<Rightarrow> 'f buf \<Rightarrow> int \<Rightarrow> int \<Rightarrow> int buf \<Rightarrow> (int buf \<times> int) option" where
  "keep_active F edges cury num ptrs =
     loopM (\<lambda>i (ptrs, newCount). do {
       ecur \<leftarrow> rd ptrs i;
       ymax \<leftarrow> rd edges (ecur + YMAX);
       if fl_less F (fl_of F cury) ymax then do { ptrs \<leftarrow> wr ptrs newCount ecur; Some (ptrs, newCount + 1) } else Some (ptrs, newCount) })
       0 (nat num) (ptrs, 0)"

text \<open>The linked list of a bucket; the loop ends when the list does.\<close>

partial_function (option) bucket_walk ::
  "'f prism_floats \<Rightarrow> 'f buf \<Rightarrow> int \<Rightarrow> int buf \<Rightarrow> int \<Rightarrow> (int buf \<times> int) option" where
  "bucket_walk F edges ecur ptrs num =
     (if ecur \<noteq> 0
      then do {
        ptrs \<leftarrow> wr ptrs num (ecur - 1);
        nxt \<leftarrow> rd edges (ecur - 1 + NEXT);
        bucket_walk F edges (fl_to F nxt) ptrs (num + 1) }
      else Some (ptrs, num))"

text \<open>
  The inner loop of the insertion, from \<open>j\<close> down; the result has the place of the gap.
\<close>

fun shift_up :: "int buf \<Rightarrow> int buf \<Rightarrow> int \<Rightarrow> nat \<Rightarrow> (int buf \<times> int buf \<times> nat) option" where
  "shift_up xings ptrs cross 0 = Some (xings, ptrs, 0)"
| "shift_up xings ptrs cross (Suc j) = do {
     jcross \<leftarrow> rd xings (int j);
     if jcross \<le> cross then Some (xings, ptrs, Suc j)
     else do {
       xings \<leftarrow> wr xings (int j + 1) jcross;
       p \<leftarrow> rd ptrs (int j);
       ptrs \<leftarrow> wr ptrs (int j + 1) p;
       shift_up xings ptrs cross j } }"

definition insert_crossing :: "'f prism_floats \<Rightarrow> int \<Rightarrow> 'f buf \<times> int buf \<times> int buf \<Rightarrow> ('f buf \<times> int buf \<times> int buf) option" where
  "insert_crossing F i s = do {
     let (edges, xings, ptrs) = s;
     ecur \<leftarrow> rd ptrs i;
     curx \<leftarrow> rd edges (ecur + CURX);
     let cross = i32 (shl (sample_of F curx) 1);
     slope \<leftarrow> rd edges (ecur + SLOPE);
     edges \<leftarrow> wr edges (ecur + CURX) (fl_add F curx slope);
     ori \<leftarrow> rd edges (ecur + ORI);
     let cross = (if fl_less F (fl_of F 0) ori then cross OR 1 else cross);
     (xings, ptrs, k) \<leftarrow> shift_up xings ptrs cross (nat i);
     xings \<leftarrow> wr xings (int k) cross;
     ptrs \<leftarrow> wr ptrs (int k) ecur;
     Some (edges, xings, ptrs) }"

definition grow_ptrs :: "ScanlineIterator \<Rightarrow> int buf \<Rightarrow> int \<Rightarrow> int \<Rightarrow> (int buf \<times> int) option" where
  "grow_ptrs it ptrs num need =
     (if it_edgePtrsSIZE it < need
      then do { newPtrs \<leftarrow> System_arraycopy ptrs 0 (new_int (i32 (need * 2))) 0 num; Some (newPtrs, i32 (need * 2)) }
      else Some (ptrs, it_edgePtrsSIZE it))"

definition ScanlineIterator_next ::
  "'f prism_floats \<Rightarrow> ScanlineIterator \<Rightarrow> 'f PrismRenderer \<Rightarrow> (int \<times> ScanlineIterator \<times> 'f PrismRenderer) option" where
  "ScanlineIterator_next F it r = do {
     let cury = it_nextY it;
     let bucket = i32 (cury - pr_boundsMinY r);
     bucketcount \<leftarrow> rd (pr_edgeBuckets r) (bucket * 2 + 1);
     (ptrs, num) \<leftarrow> (if bucketcount AND 1 \<noteq> 0 then keep_active F (pr_edges r) cury (it_edgeCount it) (it_edgePtrs it)
                     else Some (it_edgePtrs it, it_edgeCount it));
     (ptrs, ptrsSIZE) \<leftarrow> grow_ptrs it ptrs num (num + sar bucketcount 1);
     h \<leftarrow> rd (pr_edgeBuckets r) (bucket * 2);
     (ptrs, num) \<leftarrow> bucket_walk F (pr_edges r) h ptrs num;
     let (xings, xingsSIZE) = (if it_crossingsSIZE it < num then (new_int ptrsSIZE, ptrsSIZE) else (it_crossings it, it_crossingsSIZE it));
     (edges, xings, ptrs) \<leftarrow> loopM (insert_crossing F) 0 (nat num) (pr_edges r, xings, ptrs);
     Some (num, \<lparr> it_crossings = xings, it_crossingsSIZE = xingsSIZE, it_edgePtrs = ptrs, it_edgePtrsSIZE = ptrsSIZE,
                  it_edgeCount = num, it_nextY = i32 (cury + 1) \<rparr>, r \<lparr> pr_edges := edges \<rparr>) }"

definition ScanlineIterator_hasNext :: "ScanlineIterator \<Rightarrow> 'f PrismRenderer \<Rightarrow> bool" where
  "ScanlineIterator_hasNext it r \<longleftrightarrow> it_nextY it < pr_sampleRowMax r"

definition ScanlineIterator_curY :: "ScanlineIterator \<Rightarrow> int" where
  "ScanlineIterator_curY it = i32 (it_nextY it - 1)"

section \<open>The table of alphas\<close>

definition jbyte :: "int \<Rightarrow> int" where
  "jbyte v = (v + 128) mod 256 - 128"

definition alpha_table :: "int \<Rightarrow> int list" where
  "alpha_table maxalpha = map (\<lambda>i. jbyte (cdiv (int i * 255 + cdiv maxalpha 2) maxalpha)) [0..<nat (maxalpha + 1)]"

definition setMaxAlpha :: "int \<Rightarrow> AlphaStatics \<Rightarrow> AlphaStatics" where
  "setMaxAlpha maxalpha st =
     (if alphaMap st \<noteq> None \<and> maxalpha = alphaMax st then st
      else if alphaMap st \<noteq> None \<and> altAlphaMap st \<noteq> None \<and> maxalpha = altAlphaMax st
      then st \<lparr> alphaMap := altAlphaMap st, alphaMax := altAlphaMax st, altAlphaMap := alphaMap st, altAlphaMax := alphaMax st \<rparr>
      else
        let st = (if alphaMap st \<noteq> None then st \<lparr> altAlphaMap := alphaMap st, altAlphaMax := alphaMax st \<rparr> else st)
        in st \<lparr> alphaMap := Some (alpha_table maxalpha), alphaMax := maxalpha \<rparr>)"

definition Renderer_setup :: "int \<Rightarrow> int \<Rightarrow> AlphaStatics \<Rightarrow> AlphaStatics" where
  "Renderer_setup lgx lgy st =
     (let st = st \<lparr> SUBPIXEL_LG_POSITIONS_X := nat lgx, SUBPIXEL_LG_POSITIONS_Y := nat lgy,
                    SUBPIXEL_POSITIONS_X := i32 (shl 1 (nat lgx)), SUBPIXEL_POSITIONS_Y := i32 (shl 1 (nat lgy)) \<rparr>;
          st = st \<lparr> SUBPIXEL_MASK_X := i32 (SUBPIXEL_POSITIONS_X st - 1), SUBPIXEL_MASK_Y := i32 (SUBPIXEL_POSITIONS_Y st - 1) \<rparr>
      in setMaxAlpha (i32 (SUBPIXEL_POSITIONS_X st * SUBPIXEL_POSITIONS_Y st)) st)"

section \<open>Producing alphas\<close>

record AlphaConsumer =
  ac_originX :: int
  ac_originY :: int
  ac_width :: int
  ac_height :: int
  ac_alphas :: "int buf"

definition add_at :: "int buf \<Rightarrow> int \<Rightarrow> int \<Rightarrow> int buf option" where
  "add_at b i d = do { v \<leftarrow> rd b i; wr b i (i32 (v + d)) }"

text \<open>The samples from \<open>x0\<close> up to \<open>x1\<close> of a row, entered as differences between neighbouring pixels.\<close>

definition add_span :: "AlphaStatics \<Rightarrow> int buf \<Rightarrow> int \<Rightarrow> int \<Rightarrow> int buf option" where
  "add_span st alpha x0 x1 =
     (let pix_x = sar x0 (SUBPIXEL_LG_POSITIONS_X st); pix_xmaxm1 = sar (x1 - 1) (SUBPIXEL_LG_POSITIONS_X st)
      in if pix_x = pix_xmaxm1
         then do { alpha \<leftarrow> add_at alpha pix_x (x1 - x0); add_at alpha (pix_x + 1) (- (x1 - x0)) }
         else do {
           let pix_xmax = sar x1 (SUBPIXEL_LG_POSITIONS_X st);
           alpha \<leftarrow> add_at alpha pix_x (SUBPIXEL_POSITIONS_X st - (x0 AND SUBPIXEL_MASK_X st));
           alpha \<leftarrow> add_at alpha (pix_x + 1) (x0 AND SUBPIXEL_MASK_X st);
           alpha \<leftarrow> add_at alpha pix_xmax (- (SUBPIXEL_POSITIONS_X st - (x1 AND SUBPIXEL_MASK_X st)));
           add_at alpha (pix_xmax + 1) (- (x1 AND SUBPIXEL_MASK_X st)) })"

definition crossing_step ::
  "AlphaStatics \<Rightarrow> int \<Rightarrow> int \<Rightarrow> int \<Rightarrow> int \<Rightarrow> int buf \<times> int \<times> int \<Rightarrow> (int buf \<times> int \<times> int) option" where
  "crossing_step st wmask bboxx0 bboxx1 curxo s = do {
     let (alpha, wsum, prev) = s;
     let curx = sar curxo 1;
     let crorientation = shl (curxo AND 1) 1 - 1;
     alpha \<leftarrow> (if wsum AND wmask \<noteq> 0
               then let x0 = max prev bboxx0; x1 = min curx bboxx1
                    in if x0 < x1 then add_span st alpha (x0 - bboxx0) (x1 - bboxx0) else Some alpha
               else Some alpha);
     Some (alpha, i32 (wsum + crorientation), curx) }"

definition add_crossings :: "AlphaStatics \<Rightarrow> int \<Rightarrow> int \<Rightarrow> int \<Rightarrow> int buf \<Rightarrow> int \<Rightarrow> int buf \<Rightarrow> int buf option" where
  "add_crossings st wmask bboxx0 bboxx1 crossings num alpha =
     map_option fst (loopM (\<lambda>i s. do { curxo \<leftarrow> rd crossings i; crossing_step st wmask bboxx0 bboxx1 curxo s })
       0 (nat num) (alpha, 0, bboxx0))"

definition pix_extent :: "AlphaStatics \<Rightarrow> int \<Rightarrow> int \<Rightarrow> int buf \<Rightarrow> int \<Rightarrow> int \<times> int \<Rightarrow> (int \<times> int) option" where
  "pix_extent st bboxx0 bboxx1 crossings num mm =
     (if num > 0
      then do {
        c0 \<leftarrow> rd crossings 0;
        cn \<leftarrow> rd crossings (num - 1);
        Some (min (fst mm) (sar (max (sar c0 1) bboxx0) (SUBPIXEL_LG_POSITIONS_X st)),
              max (snd mm) (sar (min (sar cn 1) bboxx1) (SUBPIXEL_LG_POSITIONS_X st))) }
      else Some mm)"

definition setAndClearRelativeAlphas ::
  "AlphaStatics \<Rightarrow> AlphaConsumer \<Rightarrow> int buf \<Rightarrow> int \<Rightarrow> int \<Rightarrow> int \<Rightarrow> (AlphaConsumer \<times> int buf) option" where
  "setAndClearRelativeAlphas st ac alphaRow pix_y pix_from pix_to = do {
     let off = i32 ((pix_y - ac_originY ac) * ac_width ac);
     (_, row, out) \<leftarrow> loopM (\<lambda>i (a, row, out). do {
         d \<leftarrow> rd row i;
         let a = i32 (a + d);
         row \<leftarrow> wr row i 0;
         v \<leftarrow> rd (alphaMap st) a;
         out \<leftarrow> wr out (off + i) v;
         Some (a, row, out) }) 0 (nat (ac_width ac)) (0, alphaRow, ac_alphas ac);
     Some (ac \<lparr> ac_alphas := out \<rparr>, row) }"

text \<open>The state of the loop over the rows of samples.\<close>

record 'f producer =
  pd_it :: ScanlineIterator
  pd_r :: "'f PrismRenderer"
  pd_ac :: AlphaConsumer
  pd_alpha :: "int buf"
  pd_minX :: int
  pd_maxX :: int
  pd_y :: int

definition produce_row :: "'f prism_floats \<Rightarrow> AlphaStatics \<Rightarrow> int \<Rightarrow> int \<Rightarrow> int \<Rightarrow> 'f producer \<Rightarrow> 'f producer option" where
  "produce_row F st wmask bboxx0 bboxx1 s = do {
     (num, it, r) \<leftarrow> ScanlineIterator_next F (pd_it s) (pd_r s);
     let y = ScanlineIterator_curY it;
     (minX, maxX) \<leftarrow> pix_extent st bboxx0 bboxx1 (it_crossings it) num (pd_minX s, pd_maxX s);
     alpha \<leftarrow> add_crossings st wmask bboxx0 bboxx1 (it_crossings it) num (pd_alpha s);
     if y AND SUBPIXEL_MASK_Y st = SUBPIXEL_MASK_Y st
     then do {
       (ac, alpha) \<leftarrow> setAndClearRelativeAlphas st (pd_ac s) alpha (sar y (SUBPIXEL_LG_POSITIONS_Y st)) minX maxX;
       Some \<lparr> pd_it = it, pd_r = r, pd_ac = ac, pd_alpha = alpha, pd_minX = sar bboxx0 (SUBPIXEL_LG_POSITIONS_Y st),
              pd_maxX = sar bboxx1 (SUBPIXEL_LG_POSITIONS_X st), pd_y = y \<rparr> }
     else Some \<lparr> pd_it = it, pd_r = r, pd_ac = pd_ac s, pd_alpha = alpha, pd_minX = minX, pd_maxX = maxX, pd_y = y \<rparr> }"

text \<open>Each round moves the iterator by one row, so the loop \<open>while (hasNext)\<close> runs once for each row that is left.\<close>

definition rows_left :: "'f producer \<Rightarrow> nat" where
  "rows_left s = nat (pr_sampleRowMax (pd_r s) - it_nextY (pd_it s))"

definition produce_rows :: "'f prism_floats \<Rightarrow> AlphaStatics \<Rightarrow> int \<Rightarrow> int \<Rightarrow> int \<Rightarrow> 'f producer \<Rightarrow> 'f producer option" where
  "produce_rows F st wmask bboxx0 bboxx1 s =
     loopM (\<lambda>_ s. if ScanlineIterator_hasNext (pd_it s) (pd_r s) then produce_row F st wmask bboxx0 bboxx1 s else Some s)
       0 (rows_left s) s"

definition winding_mask :: "'f PrismRenderer \<Rightarrow> int" where
  "winding_mask r = (if pr_windingRule r = WIND_EVEN_ODD then 1 else NOT 0)"

definition Renderer_produceAlphas ::
  "'f prism_floats \<Rightarrow> AlphaStatics \<Rightarrow> int list \<Rightarrow> ScanlineIterator \<Rightarrow> 'f PrismRenderer \<Rightarrow> AlphaConsumer \<Rightarrow> (AlphaConsumer \<times> 'f PrismRenderer) option" where
  "Renderer_produceAlphas F st savedAlpha it0 r ac = do {
     let width = ac_width ac;
     let alpha = (if 1024 < width + 2 then new_int (width + 2) else Some savedAlpha);
     alpha \<leftarrow> Arrays_fill alpha 0 (width + 2) 0;
     let bboxx0 = i32 (shl (ac_originX ac) (SUBPIXEL_LG_POSITIONS_X st));
     let bboxx1 = i32 (bboxx0 + shl width (SUBPIXEL_LG_POSITIONS_X st));
     s \<leftarrow> produce_rows F st (winding_mask r) bboxx0 bboxx1
           \<lparr> pd_it = ScanlineIterator_init it0 r, pd_r = r, pd_ac = ac, pd_alpha = alpha,
             pd_minX = sar bboxx0 (SUBPIXEL_LG_POSITIONS_Y st), pd_maxX = sar bboxx1 (SUBPIXEL_LG_POSITIONS_X st),
             pd_y = pr_boundsMinY r \<rparr>;
     if pd_y s AND SUBPIXEL_MASK_Y st < SUBPIXEL_MASK_Y st
     then do {
       (ac, _) \<leftarrow> setAndClearRelativeAlphas st (pd_ac s) (pd_alpha s) (sar (pd_y s) (SUBPIXEL_LG_POSITIONS_Y st)) (pd_minX s) (pd_maxX s);
       Some (ac, pd_r s) }
     else Some (pd_ac s, pd_r s) }"

end
