(* ===== verification/Prism_Active.thy ===== *)
theory Prism_Active
  imports Prism_Scan "HOL-Library.Multiset"
begin

text \<open>
  The edges that are active on a row of samples: what the loops of the iterator do to its arrays. Dropping the edges that end keeps the others in
  order, walking a linked list appends its edges, and the insertion moves every edge to its crossing with the next row and sorts the crossings.
\<close>

section \<open>Copying and filling\<close>

lemma arraycopy_spec:
  assumes "0 \<le> n" "n \<le> int (length xs)" "n \<le> int (length ys)"
  shows "System_arraycopy (Some xs) 0 (Some ys) 0 n = Some (Some (take (nat n) xs @ drop (nat n) ys))"
proof -
  have "loopM (\<lambda>i arr2. do { v \<leftarrow> rd (Some xs) i; wr arr2 i v }) 0 (nat n) (Some ys)
      = Some (Some (upd_range 0 (int (nat n)) (\<lambda>c _. xs ! nat c) ys))"
    by (rule loopM_upd_range) (use assms in auto)
  moreover have "upd_range 0 (int (nat n)) (\<lambda>c _. xs ! nat c) ys = take (nat n) xs @ drop (nat n) ys"
  proof (rule nth_equalityI)
    have len: "length (take (nat n) xs) = nat n" using assms by simp
    show "upd_range 0 (int (nat n)) (\<lambda>c _. xs ! nat c) ys ! i = (take (nat n) xs @ drop (nat n) ys) ! i"
      if "i < length (upd_range 0 (int (nat n)) (\<lambda>c _. xs ! nat c) ys)" for i
      using that assms unfolding nth_append len by auto
  qed (use assms in simp)
  ultimately show ?thesis by (simp add: System_arraycopy_def)
qed

lemma fill_spec_range:
  assumes "0 \<le> from" "to \<le> int (length xs)" "from \<le> to"
  shows "Arrays_fill (Some xs) from to v = Some (Some (upd_range from (to - from) (\<lambda>_ _. v) xs))"
  unfolding Arrays_fill_def using loopM_upd_range [of "from" "nat (to - from)" xs "\<lambda>i arr. wr arr i v" "\<lambda>_ _. v"] assms by simp

section \<open>Insertion of crossings\<close>

lemma shift_up_spec:
  assumes "j < length X" "j < length P"
  shows "\<exists>k X' P'. shift_up (Some X) (Some P) cross j = Some (Some X', Some P', k) \<and> k \<le> j \<and>
    length X' = length X \<and> length P' = length P \<and>
    (\<forall>v. X'[k := v] = take k X @ v # take (j - k) (drop k X) @ drop (Suc j) X) \<and>
    (\<forall>v. P'[k := v] = take k P @ v # take (j - k) (drop k P) @ drop (Suc j) P) \<and>
    (0 < k \<longrightarrow> X ! (k - 1) \<le> cross) \<and> (\<forall>m. k \<le> m \<and> m < j \<longrightarrow> cross < X ! m)"
  using assms
proof (induction j arbitrary: X P)
  case 0
  then show ?case by (auto simp: upd_conv_take_nth_drop)
next
  case (Suc j)
  show ?case
  proof (cases "X ! j \<le> cross")
    case True
    then show ?thesis using Suc.prems by (auto simp: upd_conv_take_nth_drop)
  next
    case False
    let ?X = "X[Suc j := X ! j]" and ?P = "P[Suc j := P ! j]"
    have run: "shift_up (Some X) (Some P) cross (Suc j) = shift_up (Some ?X) (Some ?P) cross j"
      using False Suc.prems by (simp add: nat_add_distrib)
    obtain k X' P' where IH: "shift_up (Some ?X) (Some ?P) cross j = Some (Some X', Some P', k)" "k \<le> j"
      "length X' = length X" "length P' = length P"
      "\<And>v. X'[k := v] = take k ?X @ v # take (j - k) (drop k ?X) @ drop (Suc j) ?X"
      "\<And>v. P'[k := v] = take k ?P @ v # take (j - k) (drop k ?P) @ drop (Suc j) ?P"
      "0 < k \<longrightarrow> ?X ! (k - 1) \<le> cross" "\<forall>m. k \<le> m \<and> m < j \<longrightarrow> cross < ?X ! m"
      using Suc.IH [of ?X ?P] Suc.prems by auto
    have gap: "take k (Y[Suc j := Y ! j]) = take k Y"
      "take (j - k) (drop k (Y[Suc j := Y ! j])) @ drop (Suc j) (Y[Suc j := Y ! j])
         = take (Suc j - k) (drop k Y) @ drop (Suc (Suc j)) Y" if "Suc j < length Y" for Y :: "int list"
    proof -
      show "take k (Y[Suc j := Y ! j]) = take k Y" using IH(2) by simp
      have d: "drop (Suc j) (Y[Suc j := Y ! j]) = Y ! j # drop (Suc (Suc j)) Y"
        using that by (simp add: Cons_nth_drop_Suc [symmetric, of "Suc j"])
      have "take (Suc j - k) (drop k Y) = take (j - k) (drop k Y) @ [Y ! j]"
        using IH(2) that by (simp add: Suc_diff_le take_Suc_conv_app_nth)
      moreover have "take (j - k) (drop k (Y[Suc j := Y ! j])) = take (j - k) (drop k Y)"
        using IH(2) by (simp add: drop_update_swap)
      ultimately show "take (j - k) (drop k (Y[Suc j := Y ! j])) @ drop (Suc j) (Y[Suc j := Y ! j])
         = take (Suc j - k) (drop k Y) @ drop (Suc (Suc j)) Y" using d by simp
    qed
    have "X'[k := v] = take k X @ v # take (Suc j - k) (drop k X) @ drop (Suc (Suc j)) X" for v
      using IH(5) [of v] gap [of X] Suc.prems by simp
    moreover have "P'[k := v] = take k P @ v # take (Suc j - k) (drop k P) @ drop (Suc (Suc j)) P" for v
      using IH(6) [of v] gap [of P] Suc.prems by simp
    moreover have "0 < k \<longrightarrow> X ! (k - 1) \<le> cross" using IH(2,7) by auto
    moreover have "cross < X ! m" if "k \<le> m" "m < Suc j" for m
      using IH(8) that False by (cases "m = j") auto
    ultimately show ?thesis using run IH(1-4) by (intro exI [of _ k] exI [of _ X'] exI [of _ P']) auto
  qed
qed

lemma take_gap:
  assumes "k \<le> i" "i < length X"
  shows "take (Suc i) (take k X @ v # take (i - k) (drop k X) @ drop (Suc i) X) = take k X @ v # take (i - k) (drop k X)"
    and "drop (Suc i) (take k X @ v # take (i - k) (drop k X) @ drop (Suc i) X) = drop (Suc i) X"
    and "mset (take k X @ v # take (i - k) (drop k X)) = add_mset v (mset (take i X))"
proof -
  let ?A = "take k X @ v # take (i - k) (drop k X)"
  have len: "length ?A = Suc i" using assms by simp
  have e: "take k X @ v # take (i - k) (drop k X) @ drop (Suc i) X = ?A @ drop (Suc i) X" by simp
  show "take (Suc i) (take k X @ v # take (i - k) (drop k X) @ drop (Suc i) X) = ?A"
    unfolding e using len by (metis append_eq_conv_conj)
  show "drop (Suc i) (take k X @ v # take (i - k) (drop k X) @ drop (Suc i) X) = drop (Suc i) X"
    unfolding e using len by (metis append_eq_conv_conj)
  have "take i X = take k X @ take (i - k) (drop k X)" using take_add [of k "i - k" X] assms by simp
  then show "mset (take k X @ v # take (i - k) (drop k X)) = add_mset v (mset (take i X))" by simp
qed

lemma sorted_gap:
  assumes "sorted (take i X)" "k \<le> i" "i < length X" "0 < k \<longrightarrow> X ! (k - 1) \<le> v" "\<forall>m. k \<le> m \<and> m < i \<longrightarrow> v < X ! m"
  shows "sorted (take k X @ v # take (i - k) (drop k X))"
proof -
  have t: "take i X = take k X @ take (i - k) (drop k X)" using take_add [of k "i - k" X] assms by simp
  then have s: "sorted (take k X)" "sorted (take (i - k) (drop k X))" using assms(1) by (simp_all add: sorted_append)
  have lo: "x \<le> v" if x: "x \<in> set (take k X)" for x
  proof -
    obtain m where "m < length (take k X)" "take k X ! m = x" using x by (meson in_set_conv_nth)
    then have m: "m < k" "x = X ! m" by auto
    have "take i X ! m \<le> take i X ! (k - 1)" using assms(1-3) m by (intro sorted_nth_mono) auto
    then show ?thesis using m assms(2,4) by simp
  qed
  moreover have hi: "v \<le> x" if x: "x \<in> set (take (i - k) (drop k X))" for x
  proof -
    obtain m where "m < length (take (i - k) (drop k X))" "take (i - k) (drop k X) ! m = x" using x by (meson in_set_conv_nth)
    then have m: "m < i - k" "x = X ! (k + m)" using assms(2,3) by auto
    then have "v < X ! (k + m)" using assms(5) by simp
    then show ?thesis using m by simp
  qed
  ultimately show ?thesis using s by (fastforce simp: sorted_append)
qed

text \<open>
  One round of the loop over the active edges: the crossing of an edge, the edge rows_moved to the next row, and the
  insertion.
\<close>

definition crossing_at :: "'f prism_floats \<Rightarrow> 'f list \<Rightarrow> int \<Rightarrow> int" where
  "crossing_at F es p = i32 (2 * sample_of F (es ! nat (p + 1))) + (if fl_less F (fl_of F 0) (es ! nat (p + 2)) then 1 else 0)"

definition advance_edges :: "'f prism_floats \<Rightarrow> int set \<Rightarrow> 'f list \<Rightarrow> 'f list" where
  "advance_edges F A es = map (\<lambda>m. if int m - 1 \<in> A then fl_add F (es ! m) (es ! (m + 2)) else es ! m) [0..<length es]"

definition is_ptr :: "'f list \<Rightarrow> int \<Rightarrow> bool" where
  "is_ptr es p \<longleftrightarrow> 0 \<le> p \<and> p mod 5 = 0 \<and> p + 4 < int (length es)"

lemma length_advance [simp]: "length (advance_edges F A es) = length es"
  by (simp add: advance_edges_def)

lemma nth_advance: "m < length es \<Longrightarrow> advance_edges F A es ! m = (if int m - 1 \<in> A then fl_add F (es ! m) (es ! (m + 2)) else es ! m)"
  by (simp add: advance_edges_def)

lemma advance_empty [simp]: "advance_edges F {} es = es"
  by (rule nth_equalityI) (simp_all add: nth_advance)

lemma advance_other: "0 \<le> m \<Longrightarrow> m < int (length es) \<Longrightarrow> m - 1 \<notin> A \<Longrightarrow> advance_edges F A es ! nat m = es ! nat m"
  by (simp add: nth_advance)

lemma advance_insert:
  assumes "is_ptr es p" "p \<notin> A" "\<forall>q\<in>A. q mod 5 = 0"
  shows "(advance_edges F A es)[nat (p + 1) := fl_add F (advance_edges F A es ! nat (p + 1)) (advance_edges F A es ! nat (p + 3))] = advance_edges F (insert p A) es"
proof -
  have p: "nat (p + 1) < length es" "nat (p + 3) < length es" "int (nat (p + 1)) = p + 1" "int (nat (p + 3)) = p + 3"
    using assms(1) by (auto simp: is_ptr_def)
  have "(p + 2) mod 5 \<noteq> 0" using assms(1) unfolding is_ptr_def by presburger
  then have "2 + p \<notin> A" using assms(3) by (metis add.commute)
  then have "advance_edges F A es ! nat (p + 3) = es ! nat (p + 3)" "advance_edges F A es ! nat (p + 1) = es ! nat (p + 1)"
    using p assms(2) by (simp_all add: nth_advance)
  moreover have "nat (p + 1) + 2 = nat (p + 3)" using p(3,4) by linarith
  moreover have "m = nat (p + 1) \<longleftrightarrow> int m - 1 = p" for m using assms(1) by (auto simp: is_ptr_def)
  ultimately show ?thesis
    by (intro nth_equalityI) (auto simp: nth_advance nth_list_update)
qed

lemma even_or_1: "(2 * a :: int) OR 1 = 2 * a + 1"
  using or_disjoint_add [of 1 1 a] by (simp add: mult.commute)

lemma i32_even: "\<exists>a. i32 (2 * x) = 2 * a"
proof -
  have "even (i32 (2 * x))" by (simp add: i32_def dvd_mod_iff)
  then show ?thesis by (auto elim: evenE)
qed

lemma insert_crossing_spec:
  assumes P: "i < length P" "i < length X" and es: "is_ptr es (P ! i)" and srt: "sorted (take i X)"
  shows "\<exists>X' P'. insert_crossing F (int i) (Some es, Some X, Some P)
      = Some (Some (es[nat (P ! i + 1) := fl_add F (es ! nat (P ! i + 1)) (es ! nat (P ! i + 3))]), Some X', Some P') \<and>
    length X' = length X \<and> length P' = length P \<and> sorted (take (Suc i) X') \<and>
    mset (take (Suc i) X') = add_mset (crossing_at F es (P ! i)) (mset (take i X)) \<and>
    mset (take (Suc i) P') = add_mset (P ! i) (mset (take i P)) \<and> drop (Suc i) P' = drop (Suc i) P"
proof -
  let ?p = "P ! i" and ?c = "crossing_at F es (P ! i)"
  let ?es = "es[nat (?p + 1) := fl_add F (es ! nat (?p + 1)) (es ! nat (?p + 3))]"
  obtain k X' P' where k: "shift_up (Some X) (Some P) ?c i = Some (Some X', Some P', k)" "k \<le> i"
    "length X' = length X" "length P' = length P"
    "\<And>v. X'[k := v] = take k X @ v # take (i - k) (drop k X) @ drop (Suc i) X"
    "\<And>v. P'[k := v] = take k P @ v # take (i - k) (drop k P) @ drop (Suc i) P"
    "0 < k \<longrightarrow> X ! (k - 1) \<le> ?c" "\<forall>m. k \<le> m \<and> m < i \<longrightarrow> ?c < X ! m"
    using shift_up_spec [OF P(2,1), of ?c] by blast
  obtain a where a: "i32 (2 * sample_of F (es ! nat (?p + 1))) = 2 * a" using i32_even by blast
  have p: "0 \<le> ?p" "?p + 4 < int (length es)" using es by (simp_all add: is_ptr_def)
  have ne: "nat (?p + 1) \<noteq> nat (?p + 2)" using p by auto
  have run: "insert_crossing F (int i) (Some es, Some X, Some P) = Some (Some ?es, Some (X'[k := ?c]), Some (P'[k := ?p]))"
    using P p k(1-4) ne a even_or_1 [of a]
    by (simp add: insert_crossing_def edge_fields shl_def mult.commute [of _ 2] crossing_at_def Let_def split: if_splits)
  have "sorted (take (Suc i) (X'[k := ?c]))" "mset (take (Suc i) (X'[k := ?c])) = add_mset ?c (mset (take i X))"
    using take_gap [OF k(2) P(2), of ?c] sorted_gap [OF srt k(2) P(2) k(7,8)] by (simp_all only: k(5))
  moreover have "mset (take (Suc i) (P'[k := ?p])) = add_mset ?p (mset (take i P))" "drop (Suc i) (P'[k := ?p]) = drop (Suc i) P"
    using take_gap [OF k(2) P(1), of ?p] by (simp_all only: k(6))
  ultimately show ?thesis using run k(3,4) by (metis length_list_update)
qed

lemma insert_crossings:
  assumes ptrs: "\<forall>p\<in>set (take n P). is_ptr es p" "distinct (take n P)" and n: "n \<le> length P" "n \<le> length X"
  shows "\<exists>X' P'. loopM (insert_crossing F) 0 n (Some es, Some X, Some P) = Some (Some (advance_edges F (set (take n P)) es), Some X', Some P') \<and>
    length X' = length X \<and> length P' = length P \<and> sorted (take n X') \<and>
    mset (take n X') = mset (map (crossing_at F es) (take n P)) \<and> mset (take n P') = mset (take n P)"
proof -
  let ?I = "\<lambda>k s. \<exists>i X' P'. k = int i \<and> i \<le> n \<and> s = (Some (advance_edges F (set (take i P)) es), Some X', Some P') \<and>
    length X' = length X \<and> length P' = length P \<and> sorted (take i X') \<and>
    mset (take i X') = mset (map (crossing_at F es) (take i P)) \<and> mset (take i P') = mset (take i P) \<and> drop i P' = drop i P"
  have "\<exists>s'. loopM (insert_crossing F) 0 n (Some es, Some X, Some P) = Some s' \<and> ?I (0 + int n) s'"
  proof (rule loopM_inv)
    show "?I 0 (Some es, Some X, Some P)" by (intro exI [of _ 0] exI [of _ X] exI [of _ P]) simp
  next
    fix k s assume k: "0 \<le> k" "k < 0 + int n" "?I k s"
    then obtain i X1 P1 where i: "k = int i" "s = (Some (advance_edges F (set (take i P)) es), Some X1, Some P1)" "length X1 = length X"
      "length P1 = length P" "sorted (take i X1)" "mset (take i X1) = mset (map (crossing_at F es) (take i P))"
      "mset (take i P1) = mset (take i P)" "drop i P1 = drop i P" by blast
    have iN: "i < n" using k i(1) by simp
    have Pi: "P1 ! i = P ! i" using i(8) iN n by (metis hd_drop_conv_nth i(4) order_less_le_trans)
    let ?A = "set (take i P)" and ?p = "P ! i"
    have t: "take (Suc i) P = take i P @ [?p]" using iN n by (simp add: take_Suc_conv_app_nth)
    have "?p \<in> set (take (Suc i) P)" unfolding t by simp
    then have pin: "?p \<in> set (take n P)" "?A \<subseteq> set (take n P)"
      using iN by (meson Suc_leI less_imp_le set_take_subset_set_take subsetD)+
    have "distinct (take (Suc i) P)" using ptrs(2) iN by (metis Suc_leI distinct_take min.absorb1 take_take)
    then have notin: "?p \<notin> ?A" unfolding t by simp
    have A: "\<forall>q\<in>?A. q mod 5 = 0" "is_ptr es ?p" using ptrs(1) pin by (auto simp: is_ptr_def)
    have adv: "is_ptr (advance_edges F ?A es) (P1 ! i)" using A(2) by (simp add: Pi is_ptr_def)
    have c: "crossing_at F (advance_edges F ?A es) ?p = crossing_at F es ?p"
    proof -
      have "(?p + 1) mod 5 \<noteq> 0" using A(2) unfolding is_ptr_def by presburger
      then have "1 + ?p \<notin> ?A" using A(1) by (metis add.commute)
      then show ?thesis using A(2) notin advance_other [of "?p + 1" es ?A F] advance_other [of "?p + 2" es ?A F]
        by (simp add: crossing_at_def is_ptr_def add.commute [of ?p 1])
    qed
    obtain X2 P2 where s2: "insert_crossing F (int i) (Some (advance_edges F ?A es), Some X1, Some P1)
        = Some (Some (advance_edges F (insert ?p ?A) es), Some X2, Some P2)" "length X2 = length X" "length P2 = length P"
      "sorted (take (Suc i) X2)" "mset (take (Suc i) X2) = add_mset (crossing_at F es ?p) (mset (take i X1))"
      "mset (take (Suc i) P2) = add_mset ?p (mset (take i P1))" "drop (Suc i) P2 = drop (Suc i) P1"
      using insert_crossing_spec [of i P1 X1 "advance_edges F ?A es" F] adv i(3-5) iN n advance_insert [OF A(2) notin A(1), of F]
      unfolding Pi c by auto
    have "drop (Suc i) P1 = drop (Suc i) P" using i(8) by (metis drop_Suc tl_drop)
    then have "?I (k + 1) (Some (advance_edges F (insert ?p ?A) es), Some X2, Some P2)"
      using s2 i(1,6,7) iN by (intro exI [of _ "Suc i"] exI [of _ X2] exI [of _ P2]) (simp add: t)
    then show "\<exists>s'. insert_crossing F k s = Some s' \<and> ?I (k + 1) s'" using s2(1) i(1,2) by blast
  qed
  then show ?thesis by auto
qed

section \<open>The active edges\<close>

lemma keep_active_spec:
  assumes ptrs: "\<forall>p\<in>set (take n P). is_ptr es p" and n: "n \<le> length P"
  shows "\<exists>P'. keep_active F (Some es) y (int n) (Some P)
      = Some (Some P', int (length (filter (\<lambda>p. fl_less F (fl_of F y) (es ! nat p)) (take n P)))) \<and> length P' = length P \<and>
    take (length (filter (\<lambda>p. fl_less F (fl_of F y) (es ! nat p)) (take n P))) P'
      = filter (\<lambda>p. fl_less F (fl_of F y) (es ! nat p)) (take n P)"
proof -
  let ?Q = "\<lambda>p. fl_less F (fl_of F y) (es ! nat p)"
  let ?f = "\<lambda>i (ptrs, newCount). do {
       ecur \<leftarrow> rd ptrs i;
       ymax \<leftarrow> rd (Some es) (ecur + YMAX);
       if fl_less F (fl_of F y) ymax then do { ptrs \<leftarrow> wr ptrs newCount ecur; Some (ptrs, newCount + 1) } else Some (ptrs, newCount) }"
  let ?I = "\<lambda>k s. \<exists>i P'. k = int i \<and> i \<le> n \<and> s = (Some P', int (length (filter ?Q (take i P)))) \<and> length P' = length P \<and>
    take (length (filter ?Q (take i P))) P' = filter ?Q (take i P) \<and> drop i P' = drop i P"
  have "\<exists>s'. loopM ?f 0 n (Some P, 0) = Some s' \<and> ?I (0 + int n) s'"
  proof (rule loopM_inv)
    show "?I 0 (Some P, 0)" by (intro exI [of _ 0] exI [of _ P]) simp
  next
    fix k s assume k: "0 \<le> k" "k < 0 + int n" "?I k s"
    then obtain i P1 where i: "k = int i" "s = (Some P1, int (length (filter ?Q (take i P))))" "length P1 = length P"
      "take (length (filter ?Q (take i P))) P1 = filter ?Q (take i P)" "drop i P1 = drop i P" by blast
    let ?m = "length (filter ?Q (take i P))" and ?p = "P ! i"
    have iN: "i < n" using k i(1) by simp
    have Pi: "P1 ! i = ?p" using i(5) iN n by (metis hd_drop_conv_nth i(3) order_less_le_trans)
    have t: "take (Suc i) P = take i P @ [?p]" using iN n by (simp add: take_Suc_conv_app_nth)
    have "?p \<in> set (take n P)" using iN n by (auto simp: in_set_conv_nth intro: exI [of _ i])
    then have ip: "0 \<le> ?p" "?p < int (length es)" using ptrs by (auto simp: is_ptr_def)
    have m: "?m \<le> i" using length_filter_le [of ?Q "take i P"] by simp
    have d: "drop (Suc i) P1 = drop (Suc i) P" using i(5) by (metis drop_Suc tl_drop)
    show "\<exists>s'. ?f k s = Some s' \<and> ?I (k + 1) s'"
    proof (cases "?Q ?p")
      case True
      have "take (Suc ?m) (P1[?m := ?p]) = take ?m P1 @ [?p]" using m iN n i(3) by (simp add: take_Suc_conv_app_nth)
      then have "?I (k + 1) (Some (P1[?m := ?p]), int ?m + 1)"
        using i(1,3,4) True iN d m by (intro exI [of _ "Suc i"] exI [of _ "P1[?m := ?p]"]) (simp add: t)
      moreover have "?f k s = Some (Some (P1[?m := ?p]), int ?m + 1)"
        using i(1-3) True iN n m ip by (simp add: Pi YMAX_def)
      ultimately show ?thesis by blast
    next
      case False
      then have "?I (k + 1) (Some P1, int ?m)" using i(1,3,4) iN d by (intro exI [of _ "Suc i"] exI [of _ P1]) (simp add: t)
      moreover have "?f k s = Some (Some P1, int ?m)" using i(1-3) False iN n ip by (simp add: Pi YMAX_def)
      ultimately show ?thesis by blast
    qed
  qed
  then show ?thesis by (auto simp: keep_active_def)
qed

fun chain :: "'f prism_floats \<Rightarrow> 'f list \<Rightarrow> int \<Rightarrow> int list \<Rightarrow> bool" where
  "chain F es h [] \<longleftrightarrow> h = 0"
| "chain F es h (p # ps) \<longleftrightarrow> h = p + 1 \<and> is_ptr es p \<and> chain F es (fl_to F (es ! nat (p + 4))) ps"

lemma bucket_walk_spec:
  assumes "chain F es h ps" "m + length ps \<le> length P"
  shows "\<exists>P'. bucket_walk F (Some es) h (Some P) (int m) = Some (Some P', int (m + length ps)) \<and> length P' = length P \<and>
    take (m + length ps) P' = take m P @ ps"
  using assms
proof (induction ps arbitrary: h m P)
  case Nil
  then show ?case by (simp add: bucket_walk.simps)
next
  case (Cons p ps)
  let ?P = "P[m := p]"
  have p: "h = p + 1" "is_ptr es p" "chain F es (fl_to F (es ! nat (p + 4))) ps" using Cons.prems(1) by simp_all
  have run: "bucket_walk F (Some es) h (Some P) (int m) = bucket_walk F (Some es) (fl_to F (es ! nat (p + 4))) (Some ?P) (int (Suc m))"
    using p Cons.prems(2) by (subst bucket_walk.simps) (simp add: is_ptr_def NEXT_def add.commute)
  obtain P' where "bucket_walk F (Some es) (fl_to F (es ! nat (p + 4))) (Some ?P) (int (Suc m)) = Some (Some P', int (Suc m + length ps))"
    "length P' = length P" "take (Suc m + length ps) P' = take (Suc m) ?P @ ps"
    using Cons.IH [OF p(3), of "Suc m" ?P] Cons.prems(2) by auto
  moreover have "take (Suc m) ?P = take m P @ [p]" using Cons.prems(2) by (simp add: take_Suc_conv_app_nth)
  ultimately show ?case using run by auto
qed

lemma chain_ptrs: "chain F es h ps \<Longrightarrow> p \<in> set ps \<Longrightarrow> is_ptr es p"
  by (induction ps arbitrary: h) auto

end
