(* ===== verification/Prism_Iterate.thy ===== *)
theory Prism_Iterate
  imports Prism_Active
begin

text \<open>
  What the iterator does on each row, over a description of the edges that does not mention the arrays: an edge is the rows it starts
  and ends on, its direction, its first crossing and its slope. The invariant \<open>edges_at\<close> says how the arrays of the renderer represent a list of
  edges of which those before row \<open>y\<close> have been visited, and \<open>iterator_at\<close> which edges the iterator keeps. On each row the iterator finds exactly the
  edges that cross it, in spite of the flags that let it skip the test for edges that end, with their crossings in order.
\<close>

section \<open>Edges and their representation\<close>

record 'f edge =
  ge_first :: int
  ge_last :: int
  ge_up :: bool
  ge_x :: 'f
  ge_slope :: 'f

definition edge_x :: "'f prism_floats \<Rightarrow> 'f edge \<Rightarrow> nat \<Rightarrow> 'f" where
  "edge_x F g n = ((\<lambda>x. fl_add F x (ge_slope g)) ^^ n) (ge_x g)"

definition crosses :: "int \<Rightarrow> 'f edge \<Rightarrow> bool" where
  "crosses y g \<longleftrightarrow> ge_first g \<le> y \<and> y < ge_last g"

text \<open>The crossing of an edge with row \<open>y\<close>, doubled, with the direction in the low bit.\<close>

definition edge_crossing :: "'f prism_floats \<Rightarrow> int \<Rightarrow> 'f edge \<Rightarrow> int" where
  "edge_crossing F y g = i32 (2 * sample_of F (edge_x F g (nat (y - ge_first g)))) + (if ge_up g then 1 else 0)"

definition row_crossings :: "'f prism_floats \<Rightarrow> 'f edge list \<Rightarrow> int \<Rightarrow> int list" where
  "row_crossings F gs y = map (edge_crossing F y) (filter (crosses y) gs)"

text \<open>Floats represent small integers exactly.\<close>

definition exact_ints :: "'f prism_floats \<Rightarrow> bool" where
  "exact_ints F \<longleftrightarrow> (\<forall>n. \<bar>n\<bar> \<le> 16777216 \<longrightarrow> fl_to F (fl_of F n) = n) \<and>
     (\<forall>m n. \<bar>m\<bar> \<le> 16777216 \<longrightarrow> \<bar>n\<bar> \<le> 16777216 \<longrightarrow> fl_less F (fl_of F m) (fl_of F n) = (m < n))"

definition ptr :: "nat \<Rightarrow> int" where
  "ptr k = 5 * int k"

definition rows_moved :: "'f edge \<Rightarrow> int \<Rightarrow> nat" where
  "rows_moved g y = nat (min y (ge_last g) - ge_first g)"

definition edge_stored :: "'f prism_floats \<Rightarrow> int \<Rightarrow> 'f list \<Rightarrow> nat \<Rightarrow> 'f edge \<Rightarrow> bool" where
  "edge_stored F y es k g \<longleftrightarrow> is_ptr es (ptr k) \<and> es ! nat (ptr k) = fl_of F (ge_last g) \<and>
     es ! nat (ptr k + 1) = edge_x F g (rows_moved g y) \<and> es ! nat (ptr k + 2) = fl_of F (if ge_up g then 1 else 0) \<and>
     es ! nat (ptr k + 3) = ge_slope g"

definition ptrs_where :: "('f edge \<Rightarrow> bool) \<Rightarrow> 'f edge list \<Rightarrow> int list" where
  "ptrs_where Q gs = map ptr (filter (\<lambda>k. Q (gs ! k)) [0..<length gs])"

definition starting :: "'f edge list \<Rightarrow> int \<Rightarrow> int list" where
  "starting gs y = rev (ptrs_where (\<lambda>g. ge_first g = y) gs)"

definition ends_on :: "'f edge list \<Rightarrow> int \<Rightarrow> bool" where
  "ends_on gs y \<longleftrightarrow> y \<in> ge_last ` set gs"

definition buckets_ok :: "'f prism_floats \<Rightarrow> 'f edge list \<Rightarrow> int \<Rightarrow> nat \<Rightarrow> 'f list \<Rightarrow> int list \<Rightarrow> bool" where
  "buckets_ok F gs y0 nb es bs \<longleftrightarrow> 2 * nb + 2 \<le> length bs \<and>
     (\<forall>b<nb. chain F es (bs ! (2 * b)) (starting gs (y0 + int b)) \<and>
        bs ! (2 * b + 1) = 2 * int (length (starting gs (y0 + int b))) + (if ends_on gs (y0 + int b) then 1 else 0))"

definition edge_in :: "'f PrismRenderer \<Rightarrow> 'f edge \<Rightarrow> bool" where
  "edge_in r g \<longleftrightarrow> pr_boundsMinY r \<le> ge_first g \<and> ge_first g < ge_last g \<and> ge_last g \<le> pr_boundsMaxY r \<and>
     pr_sampleRowMin r \<le> ge_first g \<and> ge_last g \<le> pr_sampleRowMax r"

definition rows_ok :: "'f PrismRenderer \<Rightarrow> bool" where
  "rows_ok r \<longleftrightarrow> - 16777216 \<le> pr_boundsMinY r \<and> pr_boundsMinY r \<le> pr_boundsMaxY r \<and> pr_boundsMaxY r \<le> 16777216 \<and>
     pr_boundsMinY r \<le> pr_sampleRowMin r \<and> pr_sampleRowMax r \<le> pr_boundsMaxY r"

definition edges_at :: "'f prism_floats \<Rightarrow> int \<Rightarrow> 'f edge list \<Rightarrow> 'f PrismRenderer \<Rightarrow> bool" where
  "edges_at F y gs r \<longleftrightarrow> rows_ok r \<and> 5 * length gs < 16777216 \<and> (\<forall>g\<in>set gs. edge_in r g) \<and> pr_numEdges r = int (length gs) \<and>
     (\<exists>es bs. pr_edges r = Some es \<and> pr_edgesSIZE r = int (length es) \<and> pr_edgeBuckets r = Some bs \<and>
        (\<forall>k<length gs. edge_stored F y es k (gs ! k)) \<and>
        buckets_ok F gs (pr_boundsMinY r) (nat (pr_boundsMaxY r - pr_boundsMinY r)) es bs)"

lemma ptrs_where_set: "p \<in> set (ptrs_where Q gs) \<longleftrightarrow> (\<exists>k<length gs. p = ptr k \<and> Q (gs ! k))"
  by (auto simp: ptrs_where_def)

lemma ptr_inj: "ptr k = ptr j \<longleftrightarrow> k = j"
  by (simp add: ptr_def)

lemma distinct_ptrs: "distinct (ptrs_where Q gs)"
  by (simp add: ptrs_where_def distinct_map inj_on_def ptr_inj)

lemma ptrs_where_disjoint:
  assumes "\<And>g. g \<in> set gs \<Longrightarrow> Q g \<longleftrightarrow> A g \<or> B g" "\<And>g. g \<in> set gs \<Longrightarrow> \<not> (A g \<and> B g)"
  shows "mset (ptrs_where Q gs) = mset (ptrs_where A gs) + mset (ptrs_where B gs)"
proof -
  have "mset (filter (\<lambda>k. Q (gs ! k)) ks) = mset (filter (\<lambda>k. A (gs ! k)) ks) + mset (filter (\<lambda>k. B (gs ! k)) ks)"
    if "set ks \<subseteq> {..<length gs}" for ks
    using that
  proof (induction ks)
    case (Cons k ks)
    then show ?case using assms [of "gs ! k"] by auto
  qed simp
  from this [of "[0..<length gs]"] show ?thesis by (simp add: ptrs_where_def mset_map subset_eq)
qed

lemma filter_ptrs_where:
  assumes "\<And>k. k < length gs \<Longrightarrow> Q (gs ! k) \<Longrightarrow> T (ptr k) \<longleftrightarrow> R (gs ! k)"
  shows "filter T (ptrs_where Q gs) = ptrs_where (\<lambda>g. Q g \<and> R g) gs"
proof -
  have "filter T (map ptr (filter (\<lambda>k. Q (gs ! k)) ks)) = map ptr (filter (\<lambda>k. Q (gs ! k) \<and> R (gs ! k)) ks)"
    if "set ks \<subseteq> {..<length gs}" for ks
    using that assms by (induction ks) auto
  from this [of "[0..<length gs]"] show ?thesis by (simp add: ptrs_where_def subset_eq)
qed

lemma map_ptrs_where:
  assumes "\<And>k. k < length gs \<Longrightarrow> Q (gs ! k) \<Longrightarrow> f (ptr k) = h (gs ! k)"
  shows "map f (ptrs_where Q gs) = map h (filter Q gs)"
proof -
  have "map f (map ptr (filter (\<lambda>k. Q (gs ! k)) ks)) = map h (filter Q (map (nth gs) ks))"
    if "set ks \<subseteq> {..<length gs}" for ks
    using that assms by (induction ks) auto
  from this [of "[0..<length gs]"] show ?thesis by (simp add: ptrs_where_def subset_eq map_nth)
qed

section \<open>The iterator\<close>

definition iterator_at :: "int \<Rightarrow> 'f edge list \<Rightarrow> ScanlineIterator \<Rightarrow> bool" where
  "iterator_at y gs it \<longleftrightarrow> it_nextY it = y \<and>
     (\<exists>X P n. it_crossings it = Some X \<and> it_crossingsSIZE it = int (length X) \<and> it_edgePtrs it = Some P \<and>
        it_edgePtrsSIZE it = int (length P) \<and> it_edgeCount it = int n \<and> n \<le> length P \<and>
        mset (take n P) = mset (ptrs_where (crosses (y - 1)) gs))"

lemma chain_advance:
  assumes "\<forall>q\<in>A. q mod 5 = 0"
  shows "chain F (advance_edges G A es) h ps \<longleftrightarrow> chain F es h ps"
proof (induction ps arbitrary: h)
  case (Cons p ps)
  have "advance_edges G A es ! nat (p + 4) = es ! nat (p + 4)" if "is_ptr es p"
  proof (rule advance_other)
    have "(p + 4 - 1) mod 5 \<noteq> 0" using that unfolding is_ptr_def by presburger
    then show "p + 4 - 1 \<notin> A" using assms by blast
  qed (use that in \<open>simp_all add: is_ptr_def\<close>)
  then show ?case using Cons by (auto simp: is_ptr_def)
qed simp

lemma edge_stored_advance:
  assumes st: "edge_stored F y es k g" and A: "\<forall>q\<in>A. q mod 5 = 0" "ptr k \<in> A \<longleftrightarrow> crosses y g" and g: "ge_first g < ge_last g"
  shows "edge_stored F (y + 1) (advance_edges F A es) k g"
proof -
  let ?p = "ptr k"
  have p: "is_ptr es ?p" using st by (simp add: edge_stored_def)
  have keep: "advance_edges F A es ! nat (?p + d) = es ! nat (?p + d)" if "d \<in> {0, 2, 3}" for d
  proof (rule advance_other)
    have "(?p + d - 1) mod 5 \<noteq> 0" using p that unfolding is_ptr_def by (auto; presburger)
    then show "?p + d - 1 \<notin> A" using A(1) by blast
  qed (use p that in \<open>auto simp: is_ptr_def\<close>)
  have x: "es ! nat (?p + 1) = edge_x F g (rows_moved g y)" "es ! nat (?p + 3) = ge_slope g" using st by (simp_all add: edge_stored_def)
  have len: "nat (?p + 1) < length es" "nat (?p + 1) + 2 = nat (?p + 3)" "int (nat (?p + 1)) - 1 = ?p"
    using p unfolding is_ptr_def by linarith+
  have "advance_edges F A es ! nat (?p + 1) = edge_x F g (rows_moved g (y + 1))"
  proof (cases "crosses y g")
    case True
    then have "rows_moved g (y + 1) = Suc (rows_moved g y)" by (simp add: rows_moved_def crosses_def min_def) linarith
    then show ?thesis using True A(2) len x by (simp add: nth_advance edge_x_def)
  next
    case False
    then have "rows_moved g (y + 1) = rows_moved g y" using g by (auto simp: rows_moved_def crosses_def min_def)
    then show ?thesis using False A(2) len x by (simp add: nth_advance)
  qed
  moreover have "advance_edges F A es ! nat ?p = es ! nat ?p" "advance_edges F A es ! nat (?p + 2) = es ! nat (?p + 2)"
    "advance_edges F A es ! nat (?p + 3) = es ! nat (?p + 3)" using keep [of 0] keep [of 2] keep [of 3] by simp_all
  ultimately show ?thesis using st by (simp add: edge_stored_def is_ptr_def)
qed

lemma crossing_at_stored:
  assumes "exact_ints F" "edge_stored F y es k g" "crosses y g"
  shows "crossing_at F es (ptr k) = edge_crossing F y g"
proof -
  have "rows_moved g y = nat (y - ge_first g)" using assms(3) by (simp add: rows_moved_def crosses_def)
  moreover have "fl_less F (fl_of F 0) (fl_of F (if ge_up g then 1 else 0)) = ge_up g" using assms(1) by (simp add: exact_ints_def)
  ultimately show ?thesis using assms(2) by (simp add: edge_stored_def crossing_at_def edge_crossing_def)
qed

text \<open>The part of \<open>next\<close> that finds the edges of the row.\<close>

lemma row_edges:
  assumes ex: "exact_ints F" and st: "\<forall>k<length gs. edge_stored F y es k (gs ! k)" and in_rows: "\<forall>g\<in>set gs. ge_first g < ge_last g"
    and small: "\<bar>y\<bar> \<le> 16777216" "\<forall>g\<in>set gs. \<bar>ge_last g\<bar> \<le> 16777216"
    and P: "mset (take n P) = mset (ptrs_where (crosses (y - 1)) gs)" "n \<le> length P"
    and ch: "chain F es h (starting gs y)" and it: "it_edgePtrsSIZE it = int (length P)"
    and c: "bc = 2 * int (length (starting gs y)) + (if ends_on gs y then 1 else 0)" and lim: "5 * length gs < 16777216"
  shows "\<exists>P1 P2 n1 P3. (if bc AND 1 \<noteq> 0 then keep_active F (Some es) y (int n) (Some P) else Some (Some P, int n)) = Some (Some P1, int n1) \<and>
    grow_ptrs it (Some P1) (int n1) (int n1 + sar bc 1) = Some (Some P2, int (length P2)) \<and>
    bucket_walk F (Some es) h (Some P2) (int n1) = Some (Some P3, int (length (ptrs_where (crosses y) gs))) \<and>
    length P3 = length P2 \<and> length (ptrs_where (crosses y) gs) \<le> length P2 \<and>
    mset (take (length (ptrs_where (crosses y) gs)) P3) = mset (ptrs_where (crosses y) gs)"
proof -
  let ?Q = "\<lambda>p. fl_less F (fl_of F y) (es ! nat p)"
  let ?old = "ptrs_where (\<lambda>g. crosses (y - 1) g \<and> y < ge_last g) gs"
  have Q: "?Q (ptr k) \<longleftrightarrow> y < ge_last (gs ! k)" if "k < length gs" for k
    using ex st small that by (simp add: exact_ints_def edge_stored_def)
  have ptrs: "\<forall>p\<in>set (take n P). is_ptr es p"
  proof
    fix p assume "p \<in> set (take n P)"
    then have "p \<in> set (ptrs_where (crosses (y - 1)) gs)" using P(1) by (metis set_mset_mset)
    then show "is_ptr es p" using st by (auto simp: ptrs_where_set edge_stored_def)
  qed
  have old: "filter ?Q (ptrs_where (crosses (y - 1)) gs) = ?old" by (rule filter_ptrs_where) (use Q in auto)
  have bit: "bc AND 1 = (if ends_on gs y then 1 else 0)" by (simp add: c and_one_eq)
  have half: "sar bc (Suc 0) = int (length (starting gs y))" by (simp add: c sar_def)
  obtain P1 n1 where P1: "(if bc AND 1 \<noteq> 0 then keep_active F (Some es) y (int n) (Some P) else Some (Some P, int n)) = Some (Some P1, int n1)"
    "length P1 = length P" "mset (take n1 P1) = mset ?old" "n1 \<le> length P1"
  proof (cases "ends_on gs y")
    case True
    let ?L = "filter ?Q (take n P)"
    obtain P' where k: "keep_active F (Some es) y (int n) (Some P) = Some (Some P', int (length ?L))" "length P' = length P"
      "take (length ?L) P' = ?L" using keep_active_spec [OF ptrs P(2)] by blast
    have "mset ?L = mset ?old" using P(1) old by (metis mset_filter)
    moreover have "length ?L \<le> length P'" using length_filter_le [of ?Q "take n P"] P(2) k(2) by simp
    ultimately show thesis using that [of P' "length ?L"] k True bit by simp
  next
    case False
    have "ptrs_where (crosses (y - 1)) gs = ?old"
      unfolding ptrs_where_def
    proof (intro arg_cong [where f = "map ptr"] filter_cong refl)
      fix k assume "k \<in> set [0..<length gs]"
      then have "gs ! k \<in> set gs" by simp
      then have "ge_last (gs ! k) \<noteq> y" using False by (auto simp: ends_on_def)
      then show "crosses (y - 1) (gs ! k) = (crosses (y - 1) (gs ! k) \<and> y < ge_last (gs ! k))" by (auto simp: crosses_def)
    qed
    then show thesis using that [of P n] P False bit by simp
  qed
  have all: "mset (ptrs_where (crosses y) gs) = mset ?old + mset (starting gs y)"
    unfolding starting_def mset_rev by (rule ptrs_where_disjoint) (use in_rows in \<open>auto simp: crosses_def\<close>)
  have len: "length (ptrs_where (crosses y) gs) = n1 + length (starting gs y)"
  proof -
    have "size (mset (take n1 P1)) = n1" using P1(4) by simp
    then show ?thesis using arg_cong [OF all, of size] P1(3) by simp
  qed
  have le: "length (ptrs_where (crosses y) gs) \<le> length gs"
    unfolding ptrs_where_def using length_filter_le [of "\<lambda>k. crosses y (gs ! k)" "[0..<length gs]"] by simp
  obtain P2 where P2: "grow_ptrs it (Some P1) (int n1) (int n1 + sar bc 1) = Some (Some P2, int (length P2))" "take n1 P2 = take n1 P1"
    "n1 + length (starting gs y) \<le> length P2"
  proof (cases "it_edgePtrsSIZE it < int n1 + sar bc 1")
    case True
    let ?need = "int n1 + sar bc 1"
    have i: "i32 (?need * 2) = ?need * 2" using le len lim by (intro i32_id) (simp_all add: half)
    have nz: "new_int (?need * 2) = Some (replicate (nat (?need * 2)) 0)" using half by (simp add: new_int_def)
    have cp: "System_arraycopy (Some P1) 0 (new_int (?need * 2)) 0 (int n1) = Some (Some (take n1 P1 @ drop n1 (replicate (nat (?need * 2)) 0)))"
      unfolding nz by (subst arraycopy_spec) (use P1(4) half in simp_all)
    show thesis
      by (rule that [of "take n1 P1 @ drop n1 (replicate (nat (?need * 2)) 0)"])
        (use True i cp P1(4) half in \<open>simp_all add: grow_ptrs_def\<close>)
  next
    case False
    then show thesis using that [of P1] it P1(2,4) half by (simp add: grow_ptrs_def)
  qed
  obtain P3 where P3: "bucket_walk F (Some es) h (Some P2) (int n1) = Some (Some P3, int (n1 + length (starting gs y)))" "length P3 = length P2"
    "take (n1 + length (starting gs y)) P3 = take n1 P2 @ starting gs y"
    using bucket_walk_spec [OF ch P2(3)] by blast
  have "mset (take (length (ptrs_where (crosses y) gs)) P3) = mset (ptrs_where (crosses y) gs)"
    using P3(3) P2(2) P1(3) all by (simp add: len)
  then show ?thesis using P1(1) P2(1,3) P3(1,2) len by (intro exI [of _ P1] exI [of _ P2] exI [of _ n1] exI [of _ P3]) simp
qed

lemma next_spec:
  assumes ex: "exact_ints F" and E: "edges_at F y gs r" and I: "iterator_at y gs it" and y: "pr_boundsMinY r \<le> y" "y < pr_boundsMaxY r"
  shows "\<exists>it' es' X. ScanlineIterator_next F it r = Some (int (length (row_crossings F gs y)), it', r \<lparr> pr_edges := Some es' \<rparr>) \<and>
    edges_at F (y + 1) gs (r \<lparr> pr_edges := Some es' \<rparr>) \<and> iterator_at (y + 1) gs it' \<and> it_crossings it' = Some X \<and>
    length (row_crossings F gs y) \<le> length X \<and> take (length (row_crossings F gs y)) X = sort (row_crossings F gs y)"
proof -
  obtain es bs where r: "rows_ok r" "5 * length gs < 16777216" "\<forall>g\<in>set gs. edge_in r g" "pr_edges r = Some es" "pr_edgesSIZE r = int (length es)"
    "pr_edgeBuckets r = Some bs" "\<forall>k<length gs. edge_stored F y es k (gs ! k)" "pr_numEdges r = int (length gs)"
    "buckets_ok F gs (pr_boundsMinY r) (nat (pr_boundsMaxY r - pr_boundsMinY r)) es bs"
    using E by (auto simp: edges_at_def)
  obtain X P n where it: "it_nextY it = y" "it_crossings it = Some X" "it_crossingsSIZE it = int (length X)" "it_edgePtrs it = Some P"
    "it_edgePtrsSIZE it = int (length P)" "it_edgeCount it = int n" "n \<le> length P" "mset (take n P) = mset (ptrs_where (crosses (y - 1)) gs)"
    using I by (auto simp: iterator_at_def)
  define b where "b = nat (y - pr_boundsMinY r)"
  have b: "b < nat (pr_boundsMaxY r - pr_boundsMinY r)" "pr_boundsMinY r + int b = y" "i32 (y - pr_boundsMinY r) = int b"
    using y r(1) by (auto simp: b_def rows_ok_def i32_id)
  have bk: "chain F es (bs ! (2 * b)) (starting gs y)" "2 * b + 1 < length bs"
    "bs ! (2 * b + 1) = 2 * int (length (starting gs y)) + (if ends_on gs y then 1 else 0)"
    using r(9) b(1,2) unfolding buckets_ok_def by (force, linarith, force)
  have rds: "rd (Some bs) (int b * 2 + 1) = Some (bs ! (2 * b + 1))" "rd (Some bs) (int b * 2) = Some (bs ! (2 * b))"
    using bk(2) by (auto simp: nat_add_distrib nat_mult_distrib mult.commute)
  have rng: "\<forall>g\<in>set gs. ge_first g < ge_last g" "\<forall>g\<in>set gs. \<bar>ge_last g\<bar> \<le> 16777216" "\<bar>y\<bar> \<le> 16777216"
    using r(1,3) y by (auto simp: edge_in_def rows_ok_def)
  let ?m = "length (ptrs_where (crosses y) gs)"
  obtain P1 P2 n1 P3 where p: "(if bs ! (2 * b + 1) AND 1 \<noteq> 0 then keep_active F (Some es) y (int n) (Some P) else Some (Some P, int n)) = Some (Some P1, int n1)"
    "grow_ptrs it (Some P1) (int n1) (int n1 + sar (bs ! (2 * b + 1)) 1) = Some (Some P2, int (length P2))"
    "bucket_walk F (Some es) (bs ! (2 * b)) (Some P2) (int n1) = Some (Some P3, int ?m)"
    "length P3 = length P2" "?m \<le> length P2" "mset (take ?m P3) = mset (ptrs_where (crosses y) gs)"
    using row_edges [OF ex r(7) rng(1,3,2) it(8,7) bk(1) it(5) bk(3) r(2)] by blast
  define X1 where "X1 = (if int (length X) < int ?m then replicate (length P2) 0 else X)"
  have X1: "?m \<le> length X1" "(if it_crossingsSIZE it < int ?m then (new_int (int (length P2)), int (length P2)) else (it_crossings it, it_crossingsSIZE it))
      = (Some X1, int (length X1))"
    using it(2,3) p(5) by (simp_all add: X1_def new_int_def)
  have sp: "set (take ?m P3) = set (ptrs_where (crosses y) gs)" using p(6) by (metis set_mset_mset)
  have ptrs: "\<forall>q\<in>set (take ?m P3). is_ptr es q" "distinct (take ?m P3)"
    using sp r(7) mset_eq_imp_distinct_iff [OF p(6)] distinct_ptrs by (auto simp: ptrs_where_set edge_stored_def)
  let ?A = "set (ptrs_where (crosses y) gs)" and ?es = "advance_edges F (set (ptrs_where (crosses y) gs)) es"
  obtain X2 P4 where q: "loopM (insert_crossing F) 0 ?m (Some es, Some X1, Some P3) = Some (Some ?es, Some X2, Some P4)"
    "length X2 = length X1" "length P4 = length P3" "sorted (take ?m X2)" "mset (take ?m X2) = mset (map (crossing_at F es) (take ?m P3))"
    "mset (take ?m P4) = mset (take ?m P3)"
    using insert_crossings [OF ptrs, of X1 F] p(4,5) X1(1) unfolding sp by auto
  have rc: "map (crossing_at F es) (ptrs_where (crosses y) gs) = row_crossings F gs y"
    unfolding row_crossings_def by (rule map_ptrs_where) (use crossing_at_stored [OF ex] r(7) in auto)
  have "mset (map (crossing_at F es) (take ?m P3)) = mset (row_crossings F gs y)" using p(6) by (metis rc mset_map)
  then have srt: "take ?m X2 = sort (row_crossings F gs y)" using q(4,5) by (metis properties_for_sort)
  have len: "?m = length (row_crossings F gs y)" by (metis rc length_map)
  let ?it = "\<lparr> it_crossings = Some X2, it_crossingsSIZE = int (length X2), it_edgePtrs = Some P4, it_edgePtrsSIZE = int (length P4),
                  it_edgeCount = int ?m, it_nextY = y + 1 \<rparr>" and ?r = "r \<lparr> pr_edges := Some ?es \<rparr>"
  have "i32 (y + 1) = y + 1" using rng(3) by (intro i32_id) auto
  then have run: "ScanlineIterator_next F it r = Some (int ?m, ?it, ?r)"
    by (simp only: ScanlineIterator_next_def Let_def it(1,4,6) b(3) r(4,6) rds Option.bind_lunit p(1-4) prod.case X1(2) q(1-3) nat_int)
  have m5: "\<forall>q\<in>?A. q mod 5 = 0" by (auto simp: ptrs_where_set ptr_def)
  have inA: "ptr k \<in> ?A \<longleftrightarrow> crosses y (gs ! k)" if "k < length gs" for k using that by (auto simp: ptrs_where_set ptr_inj)
  have "\<forall>k<length gs. edge_stored F (y + 1) ?es k (gs ! k)"
    using r(7) rng(1) inA edge_stored_advance [OF _ m5] by (meson nth_mem)
  moreover have "buckets_ok F gs (pr_boundsMinY r) (nat (pr_boundsMaxY r - pr_boundsMinY r)) ?es bs"
    using r(9) by (simp add: buckets_ok_def chain_advance [OF m5])
  ultimately have "edges_at F (y + 1) gs ?r" using r(1-3,5,6,8) by (simp add: edges_at_def rows_ok_def edge_in_def)
  moreover have "iterator_at (y + 1) gs ?it" using p(4-6) q(3,6) by (simp add: iterator_at_def)
  ultimately show ?thesis using run srt q(2) X1(1) by (intro exI [of _ ?it] exI [of _ ?es] exI [of _ X2]) (simp add: len)
qed

end
