(* ===== verification/Prism_Coverage.thy ===== *)
theory Prism_Coverage
  imports Prism_Iterate
begin

text \<open>
  How many samples of a pixel are inside a path. A sample is inside when the crossings to its left add up to a winding number
  that the rule accepts and there is a crossing to its right; the lemmas show that the differences accumulated from sorted crossings
  add up to exactly these numbers, and that the producer writes for every pixel the byte of its number.
\<close>

section \<open>Samples inside\<close>

definition crossing_x :: "int \<Rightarrow> int" where
  "crossing_x c = c div 2"

definition crossing_dir :: "int \<Rightarrow> int" where
  "crossing_dir c = 2 * (c mod 2) - 1"

definition winding :: "int list \<Rightarrow> int \<Rightarrow> int" where
  "winding cs x = sum_list (map crossing_dir (filter (\<lambda>c. crossing_x c \<le> x) cs))"

definition inside :: "int \<Rightarrow> int list \<Rightarrow> int \<Rightarrow> bool" where
  "inside m cs x \<longleftrightarrow> winding cs x AND m \<noteq> 0 \<and> (\<exists>c\<in>set cs. x < crossing_x c)"

definition samples :: "(int \<Rightarrow> bool) \<Rightarrow> int \<Rightarrow> int \<Rightarrow> int" where
  "samples Q lo n = (\<Sum>x\<in>{lo..<lo + n}. if Q x then 1 else 0)"

lemma winding_perm: "mset cs = mset ds \<Longrightarrow> winding cs x = winding ds x"
proof -
  assume "mset cs = mset ds"
  then have "mset (map crossing_dir (filter (\<lambda>c. crossing_x c \<le> x) cs)) = mset (map crossing_dir (filter (\<lambda>c. crossing_x c \<le> x) ds))"
    by (simp add: mset_map mset_filter)
  then show ?thesis unfolding winding_def by (metis sum_mset_sum_list)
qed

lemma inside_perm: "mset cs = mset ds \<Longrightarrow> inside m cs x = inside m ds x"
  using winding_perm [of cs ds x] mset_eq_setD [of cs ds] by (simp add: inside_def)

lemma samples_bounds: "0 \<le> n \<Longrightarrow> 0 \<le> samples Q lo n \<and> samples Q lo n \<le> n"
proof -
  assume n: "0 \<le> n"
  have "samples Q lo n \<le> (\<Sum>x\<in>{lo..<lo + n}. 1)" unfolding samples_def by (rule sum_mono) simp
  moreover have "0 \<le> samples Q lo n" unfolding samples_def by (rule sum_nonneg) simp
  ultimately show ?thesis using n by simp
qed

lemma samples_add:
  assumes "\<And>x. Q x \<longleftrightarrow> A x \<or> B x" "\<And>x. \<not> (A x \<and> B x)"
  shows "samples Q lo n = samples A lo n + samples B lo n"
  unfolding samples_def sum.distrib [symmetric] by (rule sum.cong) (use assms in auto)

lemma samples_interval: "0 \<le> n \<Longrightarrow> samples (\<lambda>x. a \<le> x \<and> x < b) lo n = max 0 (min b (lo + n) - max a lo)"
proof -
  assume "0 \<le> n"
  have "samples (\<lambda>x. a \<le> x \<and> x < b) lo n = (\<Sum>x\<in>{lo..<lo + n} \<inter> {a..<b}. 1)"
    unfolding samples_def by (subst sum.inter_restrict) (auto intro!: sum.cong)
  also have "{lo..<lo + n} \<inter> {a..<b} = {max a lo..<min b (lo + n)}" by auto
  finally show ?thesis by (auto simp: max_def min_def)
qed

lemma samples_cong: "(\<And>x. lo \<le> x \<Longrightarrow> x < lo + n \<Longrightarrow> P x = Q x) \<Longrightarrow> samples P lo n = samples Q lo n"
  unfolding samples_def by (rule sum.cong) auto

section \<open>Differences\<close>

definition prefix_sum :: "int list \<Rightarrow> nat \<Rightarrow> int" where
  "prefix_sum a c = sum_list (take (Suc c) a)"

lemma prefix_sum_update: "i < length a \<Longrightarrow> c < length a \<Longrightarrow> prefix_sum (a[i := a ! i + d]) c = prefix_sum a c + (if i \<le> c then d else 0)"
proof (induction a arbitrary: i c)
  case (Cons x a)
  show ?case
  proof (cases i)
    case 0
    then show ?thesis by (simp add: prefix_sum_def)
  next
    case (Suc i')
    then show ?thesis using Cons by (cases c) (auto simp: prefix_sum_def)
  qed
qed simp

text \<open>Additions wrap around, and so do the totals; the totals that are used are small.\<close>

lemma add_at_total:
  assumes "0 \<le> i" "i < int (length a)"
  shows "\<exists>a'. add_at (Some a) i d = Some (Some a') \<and> length a' = length a \<and>
    (\<forall>c<length a. i32 (prefix_sum a' c) = i32 (prefix_sum a c + (if i \<le> int c then d else 0)))"
proof -
  let ?v = "a ! nat i"
  have i: "nat i < length a" using assms by simp
  have "i32 (prefix_sum (a[nat i := i32 (?v + d)]) c) = i32 (prefix_sum a c + (if i \<le> int c then d else 0))" if c: "c < length a" for c
  proof -
    have t: "prefix_sum (a[nat i := i32 (?v + d)]) c = prefix_sum a c + (if nat i \<le> c then i32 (?v + d) - ?v else 0)"
      using prefix_sum_update [OF i c, of "i32 (?v + d) - ?v"] by simp
    have "i32 (prefix_sum a c - ?v + i32 (?v + d)) = i32 (prefix_sum a c + d)" unfolding i32_add_right by (simp add: algebra_simps)
    then have "i32 (prefix_sum a c + (i32 (?v + d) - ?v)) = i32 (prefix_sum a c + d)" by (simp add: algebra_simps)
    then show ?thesis unfolding t using assms(1) by (auto simp: nat_le_iff)
  qed
  then show ?thesis using i assms(1) by (auto simp: add_at_def)
qed

definition statics_ok :: "AlphaStatics \<Rightarrow> bool" where
  "statics_ok st \<longleftrightarrow> SUBPIXEL_POSITIONS_X st = 2 ^ SUBPIXEL_LG_POSITIONS_X st \<and> SUBPIXEL_MASK_X st = 2 ^ SUBPIXEL_LG_POSITIONS_X st - 1 \<and>
     SUBPIXEL_POSITIONS_Y st = 2 ^ SUBPIXEL_LG_POSITIONS_Y st \<and> SUBPIXEL_MASK_Y st = 2 ^ SUBPIXEL_LG_POSITIONS_Y st - 1 \<and>
     SUBPIXEL_POSITIONS_X st * SUBPIXEL_POSITIONS_Y st \<le> 4096 \<and>
     alphaMap st = Some (alpha_table (SUBPIXEL_POSITIONS_X st * SUBPIXEL_POSITIONS_Y st))"

lemma and_low_bits: "(x :: int) AND (2 ^ n - 1) = x mod 2 ^ n"
  by (metis mask_eq_exp_minus_1 take_bit_eq_mask take_bit_eq_mod)

lemma pixel_of:
  fixes S x :: int
  assumes "0 < S"
  shows "x div S * S \<le> x" "x < x div S * S + S" "x mod S = x - x div S * S"
proof -
  have "x = x div S * S + x mod S" "0 \<le> x mod S" "x mod S < S" using assms by simp_all
  then show "x div S * S \<le> x" "x < x div S * S + S" "x mod S = x - x div S * S" by linarith+
qed

lemma pixel_before: "c < p \<Longrightarrow> 0 < S \<Longrightarrow> c * S + S \<le> p * (S :: int)"
proof -
  assume "c < p" "0 < S"
  then have "(c + 1) * S \<le> p * S" by (intro mult_right_mono) auto
  then show ?thesis by (simp add: algebra_simps)
qed

lemma overlap_same:
  fixes S x0 x1 :: int
  assumes "0 < S" "x0 < x1" "x0 div S = (x1 - 1) div S"
  shows "max 0 (min x1 (c * S + S) - max x0 (c * S)) = (if x0 div S \<le> c then x1 - x0 else 0) + (if x0 div S + 1 \<le> c then - (x1 - x0) else 0)"
proof -
  let ?p = "x0 div S"
  have b: "?p * S \<le> x0" "x1 \<le> ?p * S + S" using pixel_of [OF assms(1), of x0] pixel_of [OF assms(1), of "x1 - 1"] assms(3) by simp_all
  consider "c < ?p" | "c = ?p" | "?p < c" by linarith
  then show ?thesis using pixel_before [of c ?p S] pixel_before [of ?p c S] b assms(1,2) by cases auto
qed

lemma overlap_two:
  fixes S x0 x1 :: int
  assumes S: "0 < S" and "x0 < x1" "x0 div S \<noteq> (x1 - 1) div S"
  shows "max 0 (min x1 (c * S + S) - max x0 (c * S)) =
    (if x0 div S \<le> c then S - x0 mod S else 0) + (if x0 div S + 1 \<le> c then x0 mod S else 0) +
    (if x1 div S \<le> c then - (S - x1 mod S) else 0) + (if x1 div S + 1 \<le> c then - (x1 mod S) else 0)"
proof -
  let ?p = "x0 div S" and ?q = "x1 div S"
  note b0 = pixel_of [OF S, of x0] and b1 = pixel_of [OF S, of x1]
  have "?p \<le> (x1 - 1) div S" using assms by (intro zdiv_mono1) auto
  then have "?p < (x1 - 1) div S" using assms(3) by simp
  then have "?p * S + S \<le> (x1 - 1) div S * S" by (rule pixel_before) (rule S)
  then have x1: "?p * S + S < x1" using pixel_of(1) [OF S, of "x1 - 1"] by linarith
  have pq: "?p < ?q"
  proof (rule ccontr)
    assume "\<not> ?p < ?q"
    then have "?q * S \<le> ?p * S" using S by (intro mult_right_mono) auto
    then show False using x1 b1(2) by linarith
  qed
  consider "c < ?p" | "c = ?p" | "?p < c" "c < ?q" | "c = ?q" | "?q < c" using pq by linarith
  then show ?thesis
  proof cases
    case 1
    then show ?thesis using pixel_before [of c ?p S] b0 pq S by auto
  next
    case 2
    then show ?thesis using b0 pq x1 by auto
  next
    case 3
    then show ?thesis using pixel_before [of ?p c S] pixel_before [of c ?q S] b0 b1 S by auto
  next
    case 4
    then show ?thesis using pixel_before [of ?p c S] b0 b1 pq S by auto
  next
    case 5
    then show ?thesis using pixel_before [of ?q c S] b0 b1 pq S by auto
  qed
qed

lemma add_span_spec:
  assumes st: "statics_ok st" and S: "S = 2 ^ SUBPIXEL_LG_POSITIONS_X st" and x: "0 \<le> x0" "x0 < x1" "x1 \<le> int w * S" and w: "w + 2 \<le> length a"
  shows "\<exists>a'. add_span st (Some a) x0 x1 = Some (Some a') \<and> length a' = length a \<and>
    (\<forall>c<w. i32 (prefix_sum a' c) = i32 (prefix_sum a c + samples (\<lambda>x. x0 \<le> x \<and> x < x1) (int c * S) S))"
proof -
  have S0: "0 < S" by (simp add: S)
  have m: "SUBPIXEL_MASK_X st = S - 1" "SUBPIXEL_POSITIONS_X st = S" using st by (simp_all add: statics_ok_def S)
  have sh: "sar v (SUBPIXEL_LG_POSITIONS_X st) = v div S" "v AND (S - 1) = v mod S" for v by (simp_all add: sar_def S and_low_bits)
  have p0: "0 \<le> x0 div S" using x(1) S0 by (simp add: pos_imp_zdiv_nonneg_iff)
  have p01: "x0 div S \<le> (x1 - 1) div S" "(x1 - 1) div S \<le> x1 div S" using x S0 by (auto intro: zdiv_mono1)
  have p1: "x1 div S \<le> int w" using x(3) S0 zdiv_mono1 [OF x(3) S0] by simp
  have pm: "(x1 - 1) div S < int w" using x(3) S0 by (simp add: zdiv_less_iff)
  have ov: "samples (\<lambda>x. x0 \<le> x \<and> x < x1) (int c * S) S = max 0 (min x1 (int c * S + S) - max x0 (int c * S))" for c
    using S0 by (simp add: samples_interval)
  show ?thesis
  proof (cases "x0 div S = (x1 - 1) div S")
    case True
    obtain a1 where a1: "add_at (Some a) (x0 div S) (x1 - x0) = Some (Some a1)" "length a1 = length a"
      "\<And>c. c < length a \<Longrightarrow> i32 (prefix_sum a1 c) = i32 (prefix_sum a c + (if x0 div S \<le> int c then x1 - x0 else 0))"
      using add_at_total [of "x0 div S" a "x1 - x0"] p0 pm True w by auto
    obtain a2 where a2: "add_at (Some a1) (x0 div S + 1) (- (x1 - x0)) = Some (Some a2)" "length a2 = length a"
      "\<And>c. c < length a \<Longrightarrow> i32 (prefix_sum a2 c) = i32 (prefix_sum a1 c + (if x0 div S + 1 \<le> int c then - (x1 - x0) else 0))"
      using add_at_total [of "x0 div S + 1" a1 "- (x1 - x0)"] p0 pm True w a1(2) by auto
    have "i32 (prefix_sum a2 c) = i32 (prefix_sum a c + samples (\<lambda>x. x0 \<le> x \<and> x < x1) (int c * S) S)" if "c < w" for c
    proof -
      have "i32 (prefix_sum a2 c) = i32 (i32 (prefix_sum a1 c) + (if x0 div S + 1 \<le> int c then - (x1 - x0) else 0))"
        using a2(3) that w by (simp add: i32_add_left)
      then show ?thesis using a1(3) [of c] that w by (simp add: i32_add_left ov overlap_same [OF S0 x(2) True] add.assoc)
    qed
    then show ?thesis using a1(1) a2(1,2) True by (simp add: add_span_def sh Let_def)
  next
    case False
    let ?d1 = "S - x0 mod S" and ?d2 = "x0 mod S" and ?d3 = "- (S - x1 mod S)" and ?d4 = "- (x1 mod S)"
    obtain a1 where a1: "add_at (Some a) (x0 div S) ?d1 = Some (Some a1)" "length a1 = length a"
      "\<And>c. c < length a \<Longrightarrow> i32 (prefix_sum a1 c) = i32 (prefix_sum a c + (if x0 div S \<le> int c then ?d1 else 0))"
      using add_at_total [of "x0 div S" a ?d1] p0 p01 p1 w by auto
    obtain a2 where a2: "add_at (Some a1) (x0 div S + 1) ?d2 = Some (Some a2)" "length a2 = length a"
      "\<And>c. c < length a \<Longrightarrow> i32 (prefix_sum a2 c) = i32 (prefix_sum a1 c + (if x0 div S + 1 \<le> int c then ?d2 else 0))"
      using add_at_total [of "x0 div S + 1" a1 ?d2] p0 p01 p1 w a1(2) by auto
    obtain a3 where a3: "add_at (Some a2) (x1 div S) ?d3 = Some (Some a3)" "length a3 = length a"
      "\<And>c. c < length a \<Longrightarrow> i32 (prefix_sum a3 c) = i32 (prefix_sum a2 c + (if x1 div S \<le> int c then ?d3 else 0))"
      using add_at_total [of "x1 div S" a2 ?d3] p0 p01 p1 w a2(2) by auto
    obtain a4 where a4: "add_at (Some a3) (x1 div S + 1) ?d4 = Some (Some a4)" "length a4 = length a"
      "\<And>c. c < length a \<Longrightarrow> i32 (prefix_sum a4 c) = i32 (prefix_sum a3 c + (if x1 div S + 1 \<le> int c then ?d4 else 0))"
      using add_at_total [of "x1 div S + 1" a3 ?d4] p0 p01 p1 w a3(2) by auto
    have "i32 (prefix_sum a4 c) = i32 (prefix_sum a c + samples (\<lambda>x. x0 \<le> x \<and> x < x1) (int c * S) S)" if "c < w" for c
    proof -
      have c: "c < length a" using that w by simp
      have "i32 (prefix_sum a4 c) = i32 (i32 (prefix_sum a3 c) + (if x1 div S + 1 \<le> int c then ?d4 else 0))" using a4(3) [OF c] by (simp only: i32_add_left)
      also have "\<dots> = i32 (i32 (prefix_sum a2 c) + ((if x1 div S \<le> int c then ?d3 else 0) + (if x1 div S + 1 \<le> int c then ?d4 else 0)))"
        unfolding a3(3) [OF c] i32_add_left by (simp only: add.assoc)
      also have "\<dots> = i32 (i32 (prefix_sum a1 c) + ((if x0 div S + 1 \<le> int c then ?d2 else 0) +
          ((if x1 div S \<le> int c then ?d3 else 0) + (if x1 div S + 1 \<le> int c then ?d4 else 0))))"
        unfolding a2(3) [OF c] i32_add_left by (simp only: add.assoc)
      also have "\<dots> = i32 (prefix_sum a c + samples (\<lambda>x. x0 \<le> x \<and> x < x1) (int c * S) S)"
        unfolding a1(3) [OF c] i32_add_left ov overlap_two [OF S0 x(2) False] by (simp only: add.assoc)
      finally show ?thesis .
    qed
    then show ?thesis using a1(1) a2(1) a3(1) a4(1,2) False by (simp add: add_span_def sh m Let_def)
  qed
qed

section \<open>The crossings of a row\<close>

fun foldM :: "('a \<Rightarrow> 's \<Rightarrow> 's option) \<Rightarrow> 'a list \<Rightarrow> 's \<Rightarrow> 's option" where
  "foldM f [] s = Some s"
| "foldM f (x # xs) s = do { s' \<leftarrow> f x s; foldM f xs s' }"

lemma loopM_foldM:
  "k + n \<le> length xs \<Longrightarrow> loopM (\<lambda>i s. do { v \<leftarrow> rd (Some xs) i; f v s }) (int k) n s = foldM f (take n (drop k xs)) s"
proof (induction n arbitrary: k s)
  case (Suc n)
  have t: "take (Suc n) (drop k xs) = xs ! k # take n (drop (Suc k) xs)" using Suc.prems by (simp add: Cons_nth_drop_Suc [symmetric])
  have "loopM (\<lambda>i s. do { v \<leftarrow> rd (Some xs) i; f v s }) (int k + 1) n s' = foldM f (take n (drop (Suc k) xs)) s'" for s'
    using Suc.IH [of "Suc k" s'] Suc.prems by (simp add: add.commute)
  then show ?case using Suc.prems unfolding t by (cases "f (xs ! k) s") auto
qed simp

lemma winding_Cons: "winding (c # cs) x = (if crossing_x c \<le> x then crossing_dir c else 0) + winding cs x"
  by (simp add: winding_def)

lemma winding_right: "\<forall>c\<in>set cs. x < crossing_x c \<Longrightarrow> winding cs x = 0"
  by (induction cs) (auto simp: winding_def)

lemma abs_crossing_dir: "\<bar>crossing_dir c\<bar> = 1"
proof -
  have "c mod 2 = 0 \<or> c mod 2 = 1" by presburger
  then show ?thesis by (auto simp: crossing_dir_def)
qed

lemma crossing_step_spec:
  assumes st: "statics_ok st" and S: "S = 2 ^ SUBPIXEL_LG_POSITIONS_X st" and w: "w + 2 \<le> length a" and n: "\<bar>ws\<bar> < 2147483647"
  shows "\<exists>a'. crossing_step st m b0 (b0 + int w * S) c (Some a, ws, prev) = Some (Some a', ws + crossing_dir c, crossing_x c) \<and> length a' = length a \<and>
    (\<forall>i<w. i32 (prefix_sum a' i) = i32 (prefix_sum a i + samples (\<lambda>x. ws AND m \<noteq> 0 \<and> prev \<le> x + b0 \<and> x + b0 < crossing_x c) (int i * S) S))"
proof -
  have S0: "0 < S" by (simp add: S)
  have x: "sar c 1 = crossing_x c" "shl (c AND 1) 1 - 1 = crossing_dir c"
    by (simp_all add: sar_def shl_def crossing_x_def crossing_dir_def and_one_eq)
  have ws: "i32 (ws + crossing_dir c) = ws + crossing_dir c" using n abs_crossing_dir [of c] by (intro i32_id) linarith+
  have run: "crossing_step st m b0 (b0 + int w * S) c (Some a, ws, prev) =
    do { alpha \<leftarrow> (if ws AND m \<noteq> 0
               then let x0 = max prev b0; x1 = min (crossing_x c) (b0 + int w * S)
                    in if x0 < x1 then add_span st (Some a) (x0 - b0) (x1 - b0) else Some (Some a)
               else Some (Some a)); Some (alpha, ws + crossing_dir c, crossing_x c) }"
    by (simp only: crossing_step_def Let_def prod.case x ws)
  have inw: "0 \<le> x" "x < int w * S" if "i < w" "int i * S \<le> x" "x < int i * S + S" for i x
  proof -
    show "0 \<le> x" using that(2) S0 by (meson mult_nonneg_nonneg of_nat_0_le_iff order_trans less_imp_le)
    show "x < int w * S" using pixel_before [of "int i" "int w" S] that S0 by simp
  qed
  show ?thesis
  proof (cases "ws AND m \<noteq> 0 \<and> max prev b0 < min (crossing_x c) (b0 + int w * S)")
    case True
    let ?x0 = "max prev b0 - b0" and ?x1 = "min (crossing_x c) (b0 + int w * S) - b0"
    have "0 \<le> ?x0" "?x0 < ?x1" "?x1 \<le> int w * S" using True by simp_all
    then obtain a' where a': "add_span st (Some a) ?x0 ?x1 = Some (Some a')" "length a' = length a"
      "\<And>i. i < w \<Longrightarrow> i32 (prefix_sum a' i) = i32 (prefix_sum a i + samples (\<lambda>x. ?x0 \<le> x \<and> x < ?x1) (int i * S) S)"
      using add_span_spec [OF st S _ _ _ w] by blast
    have "samples (\<lambda>x. ?x0 \<le> x \<and> x < ?x1) (int i * S) S
        = samples (\<lambda>x. ws AND m \<noteq> 0 \<and> prev \<le> x + b0 \<and> x + b0 < crossing_x c) (int i * S) S" if "i < w" for i
    proof (rule samples_cong)
      fix x assume x: "int i * S \<le> x" "x < int i * S + S"
      show "(?x0 \<le> x \<and> x < ?x1) = (ws AND m \<noteq> 0 \<and> prev \<le> x + b0 \<and> x + b0 < crossing_x c)"
        using True inw [OF that x] by linarith
    qed
    then show ?thesis using run a' True by simp
  next
    case False
    have z: "samples (\<lambda>x. ws AND m \<noteq> 0 \<and> prev \<le> x + b0 \<and> x + b0 < crossing_x c) (int i * S) S = 0" if "i < w" for i
    proof -
      have "samples (\<lambda>x. ws AND m \<noteq> 0 \<and> prev \<le> x + b0 \<and> x + b0 < crossing_x c) (int i * S) S = samples (\<lambda>_. False) (int i * S) S"
        by (rule samples_cong) (use False inw [OF that] in force)
      then show ?thesis by (simp add: samples_def)
    qed
    have "(if ws AND m \<noteq> 0
               then let x0 = max prev b0; x1 = min (crossing_x c) (b0 + int w * S)
                    in if x0 < x1 then add_span st (Some a) (x0 - b0) (x1 - b0) else Some (Some a)
               else Some (Some a)) = Some (Some a)" unfolding Let_def using False by presburger
    then show ?thesis using run z by simp
  qed
qed

lemma crossings_total:
  assumes st: "statics_ok st" and S: "S = 2 ^ SUBPIXEL_LG_POSITIONS_X st"
  shows "w + 2 \<le> length a \<Longrightarrow> sorted (map crossing_x cs) \<Longrightarrow> \<forall>c\<in>set cs. prev \<le> crossing_x c \<Longrightarrow> \<bar>ws\<bar> + int (length cs) < 2147483647 \<Longrightarrow>
    \<exists>a' ws' p. foldM (crossing_step st m b0 (b0 + int w * S)) cs (Some a, ws, prev) = Some (Some a', ws', p) \<and> length a' = length a \<and>
      (\<forall>i<w. i32 (prefix_sum a' i) = i32 (prefix_sum a i + samples (\<lambda>x. prev \<le> x + b0 \<and> (ws + winding cs (x + b0)) AND m \<noteq> 0 \<and>
         (\<exists>c\<in>set cs. x + b0 < crossing_x c)) (int i * S) S))"
proof (induction cs arbitrary: a ws prev)
  case Nil
  then show ?case by (simp add: samples_def)
next
  case (Cons c cs)
  let ?A = "\<lambda>x. ws AND m \<noteq> 0 \<and> prev \<le> x + b0 \<and> x + b0 < crossing_x c"
  let ?B = "\<lambda>x. crossing_x c \<le> x + b0 \<and> (ws + crossing_dir c + winding cs (x + b0)) AND m \<noteq> 0 \<and> (\<exists>c\<in>set cs. x + b0 < crossing_x c)"
  let ?Q = "\<lambda>x. prev \<le> x + b0 \<and> (ws + winding (c # cs) (x + b0)) AND m \<noteq> 0 \<and> (\<exists>d\<in>set (c # cs). x + b0 < crossing_x d)"
  obtain a1 where a1: "crossing_step st m b0 (b0 + int w * S) c (Some a, ws, prev) = Some (Some a1, ws + crossing_dir c, crossing_x c)" "length a1 = length a"
    "\<And>i. i < w \<Longrightarrow> i32 (prefix_sum a1 i) = i32 (prefix_sum a i + samples ?A (int i * S) S)"
    using crossing_step_spec [OF st S Cons.prems(1), of ws m b0 c prev] Cons.prems(4) by auto
  obtain a2 ws' p where a2: "foldM (crossing_step st m b0 (b0 + int w * S)) cs (Some a1, ws + crossing_dir c, crossing_x c) = Some (Some a2, ws', p)"
    "length a2 = length a" "\<And>i. i < w \<Longrightarrow> i32 (prefix_sum a2 i) = i32 (prefix_sum a1 i + samples ?B (int i * S) S)"
  proof -
    have "\<bar>ws + crossing_dir c\<bar> + int (length cs) < 2147483647" using Cons.prems(4) abs_crossing_dir [of c] by simp
    then show thesis using that Cons.IH [of a1 "crossing_x c" "ws + crossing_dir c"] Cons.prems(1,2) a1(2) by auto
  qed
  have q: "samples ?Q lo n = samples ?A lo n + samples ?B lo n" for lo n
  proof (rule samples_add)
    fix x
    have le: "\<forall>d\<in>set cs. crossing_x c \<le> crossing_x d" using Cons.prems(2) by simp
    show "?Q x \<longleftrightarrow> ?A x \<or> ?B x"
    proof (cases "crossing_x c \<le> x + b0")
      case True
      then show ?thesis using Cons.prems(3) by (auto simp: winding_Cons add.assoc)
    next
      case False
      then have "winding (c # cs) (x + b0) = 0" using le by (intro winding_right) auto
      then show ?thesis using False by auto
    qed
  qed auto
  have "i32 (prefix_sum a2 i) = i32 (prefix_sum a i + samples ?Q (int i * S) S)" if "i < w" for i
  proof -
    have "i32 (prefix_sum a2 i) = i32 (i32 (prefix_sum a1 i) + samples ?B (int i * S) S)" using a2(3) [OF that] by (simp only: i32_add_left)
    then show ?thesis unfolding a1(3) [OF that] i32_add_left q by (simp only: add.assoc)
  qed
  then show ?case using a1(1) a2(1,2) by simp
qed

lemma samples_shift: "samples (\<lambda>x. Q (x + b)) lo n = samples Q (lo + b) n"
proof -
  have "(\<Sum>x\<in>{lo..<lo + n}. if Q (x + b) then 1 else 0) = (\<Sum>x\<in>(\<lambda>x. x + b) ` {lo..<lo + n}. if Q x then 1 else (0 :: int))"
    by (subst sum.reindex) (auto simp: inj_on_def)
  moreover have "(\<lambda>x. x + b) ` {lo..<lo + n} = {lo + b..<lo + b + n}"
  proof
    show "{lo + b..<lo + b + n} \<subseteq> (\<lambda>x. x + b) ` {lo..<lo + n}"
    proof
      fix x assume "x \<in> {lo + b..<lo + b + n}"
      then show "x \<in> (\<lambda>x. x + b) ` {lo..<lo + n}" by (intro image_eqI [of _ _ "x - b"]) auto
    qed
  qed auto
  ultimately show ?thesis by (simp add: samples_def)
qed

lemma add_crossings_spec:
  assumes st: "statics_ok st" and S: "S = 2 ^ SUBPIXEL_LG_POSITIONS_X st" and w: "w + 2 \<le> length a"
    and cs: "length cs \<le> length X" "take (length cs) X = sort cs" "length cs < 16777216"
  shows "\<exists>a'. add_crossings st m b0 (b0 + int w * S) (Some X) (int (length cs)) (Some a) = Some (Some a') \<and> length a' = length a \<and>
    (\<forall>i<w. i32 (prefix_sum a' i) = i32 (prefix_sum a i + samples (inside m cs) (b0 + int i * S) S))"
proof -
  let ?f = "crossing_step st m b0 (b0 + int w * S)"
  have run: "add_crossings st m b0 (b0 + int w * S) (Some X) (int (length cs)) (Some a) = map_option fst (foldM ?f (sort cs) (Some a, 0, b0))"
    using loopM_foldM [of 0 "length cs" X ?f] cs(1,2) by (simp add: add_crossings_def)
  have srt: "sorted (map crossing_x (sort cs))"
    unfolding crossing_x_def by (rule sorted_map_mono) (auto intro: mono_onI zdiv_mono1)
  have sh: "samples (\<lambda>x. inside m (sort cs) (x + b0)) (int i * S) S = samples (inside m cs) (b0 + int i * S) S" for i
    unfolding samples_shift [of "inside m (sort cs)"] by (rule samples_cong [THEN trans]) (simp_all add: inside_perm [of "sort cs" cs] add.commute)
  show ?thesis
  proof (cases "sort cs")
    case Nil
    then show ?thesis using run sh by (simp add: inside_def samples_def)
  next
    case (Cons c ds)
    obtain a1 where a1: "?f c (Some a, 0, b0) = Some (Some a1, crossing_dir c, crossing_x c)" "length a1 = length a"
      "\<And>i. i < w \<Longrightarrow> i32 (prefix_sum a1 i) = i32 (prefix_sum a i)"
      using crossing_step_spec [OF st S w, of 0 m b0 c b0] by (auto simp: samples_def)
    have len: "length ds < 16777216" using cs(3) Cons by (metis length_sort length_Cons Suc_lessD)
    obtain a2 ws p where a2: "foldM ?f ds (Some a1, crossing_dir c, crossing_x c) = Some (Some a2, ws, p)" "length a2 = length a"
      "\<And>i. i < w \<Longrightarrow> i32 (prefix_sum a2 i) = i32 (prefix_sum a1 i + samples (\<lambda>x. crossing_x c \<le> x + b0 \<and>
         (crossing_dir c + winding ds (x + b0)) AND m \<noteq> 0 \<and> (\<exists>c\<in>set ds. x + b0 < crossing_x c)) (int i * S) S)"
      using crossings_total [OF st S, of w a1 ds "crossing_x c" "crossing_dir c" m b0] w a1(2) srt Cons len abs_crossing_dir [of c] by auto
    have "samples (\<lambda>x. crossing_x c \<le> x + b0 \<and> (crossing_dir c + winding ds (x + b0)) AND m \<noteq> 0 \<and> (\<exists>c\<in>set ds. x + b0 < crossing_x c)) lo n
        = samples (\<lambda>x. inside m (sort cs) (x + b0)) lo n" for lo n
    proof (rule samples_cong)
      fix x
      show "(crossing_x c \<le> x + b0 \<and> (crossing_dir c + winding ds (x + b0)) AND m \<noteq> 0 \<and> (\<exists>c\<in>set ds. x + b0 < crossing_x c))
          = inside m (sort cs) (x + b0)"
      proof (cases "crossing_x c \<le> x + b0")
        case False
        then have "winding (sort cs) (x + b0) = 0" using srt Cons by (intro winding_right) auto
        then show ?thesis using False by (simp add: inside_def)
      qed (auto simp: inside_def Cons winding_Cons)
    qed
    then have "i32 (prefix_sum a2 i) = i32 (prefix_sum a i + samples (inside m cs) (b0 + int i * S) S)" if "i < w" for i
      using a2(3) [OF that] a1(3) [OF that] sh [of i] by (metis i32_add_left)
    then show ?thesis using run a1(1) a2(1,2) Cons by simp
  qed
qed

end
