(* ===== verification/Prism_Alpha.thy ===== *)
theory Prism_Alpha
  imports Prism_Coverage
begin

text \<open>
  The producer of alphas writes, for every pixel of its rectangle, the byte of the number of samples of the pixel that are inside the path.
\<close>

section \<open>One row of pixels\<close>

definition alpha_byte :: "int \<Rightarrow> int \<Rightarrow> int" where
  "alpha_byte most v = jbyte ((v * 255 + most div 2) div most)"

lemma alpha_table_nth:
  assumes "0 < most" "0 \<le> v" "v \<le> most"
  shows "nat v < length (alpha_table most)" "alpha_table most ! nat v = alpha_byte most v"
  using assms by (simp_all add: alpha_table_def alpha_byte_def cdiv_def sgn_if)

lemma setAndClear_spec:
  assumes st: "alphaMap st = Some (alpha_table most)" "0 < most" "most < 2147483648"
    and row: "w + 2 \<le> length a" "\<forall>c<w. i32 (prefix_sum a c) = N c" "\<forall>c<w. 0 \<le> N c \<and> N c \<le> most"
    and ac: "ac_width ac = int w" "ac_alphas ac = Some out" and off: "off = (pix_y - ac_originY ac) * int w" "0 \<le> off" "off + int w \<le> int (length out)"
      "off < 2147483648"
  shows "setAndClearRelativeAlphas st ac (Some a) pix_y f t
    = Some (ac \<lparr> ac_alphas := Some (upd_range off (int w) (\<lambda>c _. alpha_byte most (N (nat c))) out) \<rparr>, Some (upd_range 0 (int w) (\<lambda>_ _. 0) a))"
proof -
  let ?v = "\<lambda>c _. alpha_byte most (N (nat c))"
  let ?f = "\<lambda>i (s, row, out). do {
         d \<leftarrow> rd row i;
         let s = i32 (s + d);
         row \<leftarrow> wr row i 0;
         v \<leftarrow> rd (alphaMap st) s;
         out \<leftarrow> wr out (off + i) v;
         Some (s, row, out) }"
  let ?I = "\<lambda>k s. \<exists>i. k = int i \<and> i \<le> w \<and>
    s = (i32 (sum_list (take i a)), Some (upd_range 0 (int i) (\<lambda>_ _. 0) a), Some (upd_range off (int i) ?v out))"
  have "\<exists>s'. loopM ?f 0 w (0, Some a, Some out) = Some s' \<and> ?I (0 + int w) s'"
  proof (rule loopM_inv)
    show "?I 0 (0, Some a, Some out)" by (intro exI [of _ 0]) (simp add: i32_def)
  next
    fix k s assume k: "0 \<le> k" "k < 0 + int w" "?I k s"
    then obtain i where i: "k = int i" "i < w"
      "s = (i32 (sum_list (take i a)), Some (upd_range 0 (int i) (\<lambda>_ _. 0) a), Some (upd_range off (int i) ?v out))" by auto
    have a: "upd_range 0 (int i) (\<lambda>_ _. 0) a ! i = a ! i" using i(2) row(1) by simp
    have "sum_list (take (Suc i) a) = sum_list (take i a) + a ! i" using i(2) row(1) by (simp add: take_Suc_conv_app_nth)
    then have s: "i32 (i32 (sum_list (take i a)) + a ! i) = N i" "i32 (sum_list (take (Suc i) a)) = N i"
      using row(2) i(2) unfolding prefix_sum_def by (metis i32_add_left)+
    note tab = alpha_table_nth [OF st(2), of "N i"]
    have u1: "(upd_range 0 (int i) (\<lambda>_ _. 0) a)[i := 0] = upd_range 0 (int i + 1) (\<lambda>_ _. 0) a"
      using upd_range_snoc [of 0 "int i" a "\<lambda>_ _. 0"] i(2) row(1) by simp
    have u2: "(upd_range off (int i) ?v out)[nat (off + int i) := alpha_byte most (N i)] = upd_range off (int i + 1) ?v out"
      using upd_range_snoc [of off "int i" out ?v] i(2) off by simp
    have "?f k s = Some (N i, Some (upd_range 0 (int i + 1) (\<lambda>_ _. 0) a), Some (upd_range off (int i + 1) ?v out))"
      using i row(1,3) a s(1) st(1) tab off u1 u2 by (simp add: Let_def)
    moreover have "?I (k + 1) (N i, Some (upd_range 0 (int i + 1) (\<lambda>_ _. 0) a), Some (upd_range off (int i + 1) ?v out))"
      using i s(2) by (intro exI [of _ "Suc i"]) (simp add: add.commute)
    ultimately show "\<exists>s'. ?f k s = Some s' \<and> ?I (k + 1) s'" by blast
  qed
  then have "loopM ?f 0 w (0, Some a, Some out) = Some (i32 (sum_list (take w a)), Some (upd_range 0 (int w) (\<lambda>_ _. 0) a), Some (upd_range off (int w) ?v out))"
    by auto
  moreover have "i32 ((pix_y - ac_originY ac) * ac_width ac) = off" using off ac(1) by (simp add: i32_id)
  ultimately show ?thesis unfolding setAndClearRelativeAlphas_def Let_def ac by simp
qed

lemma cleared_prefix: "c < w \<Longrightarrow> w \<le> length a \<Longrightarrow> prefix_sum (upd_range 0 (int w) (\<lambda>_ _. 0) a) c = 0"
proof -
  assume c: "c < w" "w \<le> length a"
  have "take (Suc c) (upd_range 0 (int w) (\<lambda>_ _. 0) a) = replicate (Suc c) 0"
    by (rule nth_equalityI) (use c in \<open>auto simp del: replicate_Suc\<close>)
  then show ?thesis by (simp add: prefix_sum_def sum_list_replicate)
qed

section \<open>The number of samples\<close>

definition row_samples :: "'f prism_floats \<Rightarrow> AlphaStatics \<Rightarrow> int \<Rightarrow> 'f edge list \<Rightarrow> int \<Rightarrow> int \<Rightarrow> int" where
  "row_samples F st m gs px y =
     samples (inside m (row_crossings F gs y)) (px * 2 ^ SUBPIXEL_LG_POSITIONS_X st) (2 ^ SUBPIXEL_LG_POSITIONS_X st)"

text \<open>The samples of pixel \<open>(px, py)\<close> that are inside.\<close>

definition pixel_samples :: "'f prism_floats \<Rightarrow> AlphaStatics \<Rightarrow> int \<Rightarrow> 'f edge list \<Rightarrow> int \<Rightarrow> int \<Rightarrow> int" where
  "pixel_samples F st m gs px py =
     (\<Sum>y\<in>{py * 2 ^ SUBPIXEL_LG_POSITIONS_Y st..<py * 2 ^ SUBPIXEL_LG_POSITIONS_Y st + 2 ^ SUBPIXEL_LG_POSITIONS_Y st}. row_samples F st m gs px y)"

definition part_samples :: "'f prism_floats \<Rightarrow> AlphaStatics \<Rightarrow> int \<Rightarrow> 'f edge list \<Rightarrow> int \<Rightarrow> int \<Rightarrow> int \<Rightarrow> int" where
  "part_samples F st m gs px py y = (\<Sum>y'\<in>{py * 2 ^ SUBPIXEL_LG_POSITIONS_Y st..<y}. row_samples F st m gs px y')"

lemma row_samples_bounds: "0 \<le> row_samples F st m gs px y \<and> row_samples F st m gs px y \<le> 2 ^ SUBPIXEL_LG_POSITIONS_X st"
  unfolding row_samples_def by (rule samples_bounds) simp

lemma pixel_samples_bounds:
  "0 \<le> pixel_samples F st m gs px py" "pixel_samples F st m gs px py \<le> 2 ^ SUBPIXEL_LG_POSITIONS_X st * 2 ^ SUBPIXEL_LG_POSITIONS_Y st"
proof -
  let ?R = "{py * 2 ^ SUBPIXEL_LG_POSITIONS_Y st..<py * 2 ^ SUBPIXEL_LG_POSITIONS_Y st + 2 ^ SUBPIXEL_LG_POSITIONS_Y st}"
  show "0 \<le> pixel_samples F st m gs px py" unfolding pixel_samples_def using row_samples_bounds by (intro sum_nonneg) blast
  have "pixel_samples F st m gs px py \<le> (\<Sum>y\<in>?R. 2 ^ SUBPIXEL_LG_POSITIONS_X st)"
    unfolding pixel_samples_def using row_samples_bounds by (intro sum_mono) blast
  then show "pixel_samples F st m gs px py \<le> 2 ^ SUBPIXEL_LG_POSITIONS_X st * 2 ^ SUBPIXEL_LG_POSITIONS_Y st"
    by (simp add: mult.commute)
qed

text \<open>Rows that no edge crosses have no samples inside.\<close>

lemma row_samples_none: "\<forall>g\<in>set gs. \<not> crosses y g \<Longrightarrow> row_samples F st m gs px y = 0"
  by (simp add: row_samples_def row_crossings_def inside_def samples_def)

lemma part_samples_step:
  "py * 2 ^ SUBPIXEL_LG_POSITIONS_Y st \<le> y \<Longrightarrow> part_samples F st m gs px py (y + 1) = part_samples F st m gs px py y + row_samples F st m gs px y"
proof -
  assume "py * 2 ^ SUBPIXEL_LG_POSITIONS_Y st \<le> y"
  then have "{py * 2 ^ SUBPIXEL_LG_POSITIONS_Y st..<y + 1} = insert y {py * 2 ^ SUBPIXEL_LG_POSITIONS_Y st..<y}" by auto
  then show ?thesis by (simp add: part_samples_def)
qed

lemma part_samples_empty: "\<forall>g\<in>set gs. y \<le> ge_first g \<Longrightarrow> part_samples F st m gs px py y = 0"
  unfolding part_samples_def by (intro sum.neutral) (auto intro!: row_samples_none simp: crosses_def)

lemma part_samples_full:
  assumes "\<forall>g\<in>set gs. ge_last g \<le> y" "y \<le> py * 2 ^ SUBPIXEL_LG_POSITIONS_Y st + 2 ^ SUBPIXEL_LG_POSITIONS_Y st"
  shows "part_samples F st m gs px py y = pixel_samples F st m gs px py"
  unfolding part_samples_def pixel_samples_def
  by (rule sum.mono_neutral_left) (use assms in \<open>auto intro!: row_samples_none simp: crosses_def\<close>)

section \<open>All rows\<close>

definition target :: "'f prism_floats \<Rightarrow> AlphaStatics \<Rightarrow> int \<Rightarrow> 'f edge list \<Rightarrow> AlphaConsumer \<Rightarrow> int \<Rightarrow> int list \<Rightarrow> int list" where
  "target F st m gs ac rows out = upd_rect 0 (ac_width ac) (ac_width ac) rows
     (\<lambda>j c _. alpha_byte (SUBPIXEL_POSITIONS_X st * SUBPIXEL_POSITIONS_Y st) (pixel_samples F st m gs (ac_originX ac + c) (ac_originY ac + j))) out"

definition producer_at ::
  "'f prism_floats \<Rightarrow> AlphaStatics \<Rightarrow> int \<Rightarrow> 'f edge list \<Rightarrow> 'f PrismRenderer \<Rightarrow> AlphaConsumer \<Rightarrow> int list \<Rightarrow> int \<Rightarrow> 'f producer \<Rightarrow> bool" where
  "producer_at F st m gs r ac out y s \<longleftrightarrow>
     edges_at F y gs (pd_r s) \<and> iterator_at y gs (pd_it s) \<and> (\<exists>es. pd_r s = r \<lparr> pr_edges := es \<rparr>) \<and>
     pd_ac s = ac \<lparr> ac_alphas := Some (target F st m gs ac (y div SUBPIXEL_POSITIONS_Y st - ac_originY ac) out) \<rparr> \<and>
     (\<exists>a. pd_alpha s = Some a \<and> nat (ac_width ac) + 2 \<le> length a \<and>
        (\<forall>c<nat (ac_width ac). i32 (prefix_sum a c) = part_samples F st m gs (ac_originX ac + int c) (y div SUBPIXEL_POSITIONS_Y st) y)) \<and>
     pd_y s = (if y = pr_sampleRowMin r then pr_boundsMinY r else y - 1)"

text \<open>The rectangle of the consumer is that of the renderer's output, and its array is large enough.\<close>

definition consumer_ok :: "AlphaStatics \<Rightarrow> 'f PrismRenderer \<Rightarrow> AlphaConsumer \<Rightarrow> int list \<Rightarrow> bool" where
  "consumer_ok st r ac out \<longleftrightarrow> ac_alphas ac = Some out \<and> 0 < ac_width ac \<and> ac_width ac < 1073741824 \<and> int (length out) < 2147483648 \<and>
     ac_originY ac = pr_sampleRowMin r div SUBPIXEL_POSITIONS_Y st \<and>
     ac_height ac = (pr_sampleRowMax r + SUBPIXEL_MASK_Y st) div SUBPIXEL_POSITIONS_Y st - ac_originY ac \<and>
     ac_width ac * ac_height ac \<le> int (length out) \<and>
     jint_range (ac_originX ac * SUBPIXEL_POSITIONS_X st) \<and> jint_range ((ac_originX ac + ac_width ac) * SUBPIXEL_POSITIONS_X st)"

lemma consumer_size: "consumer_ok st r ac out \<Longrightarrow> ac_width ac * ac_height ac \<le> int (length out) \<and> int (length out) < 2147483648"
  unfolding consumer_ok_def by blast

lemma part_samples_bounds:
  assumes "y \<le> py * 2 ^ SUBPIXEL_LG_POSITIONS_Y st + 2 ^ SUBPIXEL_LG_POSITIONS_Y st"
  shows "0 \<le> part_samples F st m gs px py y" "part_samples F st m gs px py y \<le> pixel_samples F st m gs px py"
proof -
  show "0 \<le> part_samples F st m gs px py y" unfolding part_samples_def using row_samples_bounds by (intro sum_nonneg) blast
  show "part_samples F st m gs px py y \<le> pixel_samples F st m gs px py"
    unfolding part_samples_def pixel_samples_def by (rule sum_mono2) (use assms in \<open>auto simp: row_samples_bounds [THEN conjunct1]\<close>)
qed

lemma next_pixel_row:
  fixes T y :: int
  assumes "0 < T"
  shows "(y + 1) div T = (if y mod T = T - 1 then y div T + 1 else y div T)" "y mod T = T - 1 \<Longrightarrow> y + 1 = (y div T + 1) * T"
proof -
  have e: "y = y div T * T + y mod T" "0 \<le> y mod T" "y mod T < T" using assms by simp_all
  have d: "(y div T + 1) * T = y div T * T + T" by (simp add: distrib_right)
  then show n: "y mod T = T - 1 \<Longrightarrow> y + 1 = (y div T + 1) * T" using e by linarith
  show "(y + 1) div T = (if y mod T = T - 1 then y div T + 1 else y div T)"
  proof (cases "y mod T = T - 1")
    case True
    then show ?thesis using n assms by simp
  next
    case False
    have "y + 1 = y div T * T + (y mod T + 1)" using e by simp
    then have "(y + 1) div T = y div T + (y mod T + 1) div T" using assms by (metis div_mult_self3 add.commute less_irrefl)
    then show ?thesis using False e by simp
  qed
qed

lemma produce_row_spec:
  assumes ex: "exact_ints F" and st: "statics_ok st" and ac: "consumer_ok st r ac out" and P: "producer_at F st m gs r ac out y s"
    and y: "pr_sampleRowMin r \<le> y" "y < pr_sampleRowMax r"
  shows "\<exists>s'. produce_row F st m (ac_originX ac * SUBPIXEL_POSITIONS_X st) ((ac_originX ac + ac_width ac) * SUBPIXEL_POSITIONS_X st) s = Some s' \<and>
    producer_at F st m gs r ac out (y + 1) s'"
proof -
  let ?S = "2 ^ SUBPIXEL_LG_POSITIONS_X st :: int" and ?T = "2 ^ SUBPIXEL_LG_POSITIONS_Y st :: int"
  define w where "w = nat (ac_width ac)"
  define M where "M = ?S * ?T"
  let ?b0 = "ac_originX ac * ?S" and ?k = "y div ?T - ac_originY ac" and ?px = "\<lambda>c. ac_originX ac + int c"
  have w: "ac_width ac = int w" "0 < w" using ac by (simp_all add: w_def consumer_ok_def)
  have stq: "SUBPIXEL_POSITIONS_X st = ?S" "SUBPIXEL_POSITIONS_Y st = ?T" "SUBPIXEL_MASK_Y st = ?T - 1" "M \<le> 4096" "0 < M"
    "alphaMap st = Some (alpha_table M)" using st by (auto simp: statics_ok_def M_def)
  obtain a es where p: "edges_at F y gs (pd_r s)" "iterator_at y gs (pd_it s)" "pd_r s = r \<lparr> pr_edges := es \<rparr>"
    "pd_ac s = ac \<lparr> ac_alphas := Some (target F st m gs ac ?k out) \<rparr>" "pd_alpha s = Some a" "w + 2 \<le> length a"
    "\<forall>c<w. i32 (prefix_sum a c) = part_samples F st m gs (?px c) (y div ?T) y"
    using P by (auto simp: producer_at_def w_def stq)
  have rows: "pr_boundsMinY (pd_r s) \<le> y" "y < pr_boundsMaxY (pd_r s)" "\<bar>y\<bar> \<le> 16777216"
    using p(1,3) y by (auto simp: edges_at_def rows_ok_def)
  let ?cs = "row_crossings F gs y"
  obtain it' es' X where n: "ScanlineIterator_next F (pd_it s) (pd_r s) = Some (int (length ?cs), it', pd_r s \<lparr> pr_edges := Some es' \<rparr>)"
    "edges_at F (y + 1) gs (pd_r s \<lparr> pr_edges := Some es' \<rparr>)" "iterator_at (y + 1) gs it'" "it_crossings it' = Some X"
    "length ?cs \<le> length X" "take (length ?cs) X = sort ?cs"
    using next_spec [OF ex p(1,2) rows(1,2)] by blast
  have len: "length ?cs < 16777216"
  proof -
    have "length ?cs \<le> length gs" by (simp add: row_crossings_def)
    then show ?thesis using p(1) by (simp add: edges_at_def)
  qed
  have cy: "ScanlineIterator_curY it' = y" using n(3) rows(3) by (simp add: ScanlineIterator_curY_def iterator_at_def i32_id)
  obtain m0 m1 where mm: "pix_extent st ?b0 (?b0 + int w * ?S) (it_crossings it') (int (length ?cs)) (pd_minX s, pd_maxX s) = Some (m0, m1)"
  proof -
    have "?cs \<noteq> [] \<Longrightarrow> 0 < length X" using n(5) by (cases ?cs) auto
    then have "pix_extent st ?b0 (?b0 + int w * ?S) (it_crossings it') (int (length ?cs)) (pd_minX s, pd_maxX s) \<noteq> None"
      using n(4,5) by (cases "?cs = []") (simp_all add: pix_extent_def)
    then show thesis using that by fast
  qed
  obtain a' where a': "add_crossings st m ?b0 (?b0 + int w * ?S) (Some X) (int (length ?cs)) (Some a) = Some (Some a')" "length a' = length a"
    "\<And>i. i < w \<Longrightarrow> i32 (prefix_sum a' i) = i32 (prefix_sum a i + samples (inside m ?cs) (?b0 + int i * ?S) ?S)"
    using add_crossings_spec [OF st refl p(6) n(5,6) len] by blast
  have lo: "y div ?T * ?T \<le> y" "y < y div ?T * ?T + ?T" using pixel_of [of ?T y] by simp_all
  have part: "i32 (prefix_sum a' c) = part_samples F st m gs (?px c) (y div ?T) (y + 1)" if "c < w" for c
  proof -
    have "samples (inside m ?cs) (?b0 + int c * ?S) ?S = row_samples F st m gs (?px c) y"
      by (simp add: row_samples_def algebra_simps)
    then have "i32 (prefix_sum a' c) = i32 (i32 (prefix_sum a c) + row_samples F st m gs (?px c) y)"
      using a'(3) [OF that] by (simp only: i32_add_left)
    also have "\<dots> = i32 (part_samples F st m gs (?px c) (y div ?T) (y + 1))"
      using p(7) that by (simp add: part_samples_step [OF lo(1)])
    also have "\<dots> = part_samples F st m gs (?px c) (y div ?T) (y + 1)"
      using part_samples_bounds [of "y + 1" "y div ?T" st F m gs "?px c"] pixel_samples_bounds(2) [of F st m gs "?px c" "y div ?T"] lo stq(4)
      by (intro i32_id) (simp_all add: M_def)
    finally show ?thesis .
  qed
  have bb: "(ac_originX ac + ac_width ac) * SUBPIXEL_POSITIONS_X st = ?b0 + int w * ?S" "ac_originX ac * SUBPIXEL_POSITIONS_X st = ?b0"
    by (simp_all add: stq w algebra_simps)
  have andm: "(y AND SUBPIXEL_MASK_Y st = SUBPIXEL_MASK_Y st) = (y mod ?T = ?T - 1)" by (simp add: stq and_low_bits)
  note nx = next_pixel_row [of ?T y]
  have k: "0 \<le> ?k" using y(1) ac by (simp add: consumer_ok_def stq zdiv_mono1)
  have r': "\<exists>es. pd_r s \<lparr> pr_edges := Some es' \<rparr> = r \<lparr> pr_edges := es \<rparr>" using p(3) by auto
  have y1: "y + 1 \<noteq> pr_sampleRowMin r" using y(1) by simp
  show ?thesis
  proof (cases "y mod ?T = ?T - 1")
    case False
    let ?s = "\<lparr> pd_it = it', pd_r = pd_r s \<lparr> pr_edges := Some es' \<rparr>, pd_ac = pd_ac s, pd_alpha = Some a', pd_minX = m0, pd_maxX = m1, pd_y = y \<rparr>"
    have "produce_row F st m (ac_originX ac * SUBPIXEL_POSITIONS_X st) ((ac_originX ac + ac_width ac) * SUBPIXEL_POSITIONS_X st) s = Some ?s"
      unfolding produce_row_def bb n(1) Option.bind_lunit prod.case Let_def cy mm andm p(5) using False a'(1) n(4) mm by simp
    moreover have "producer_at F st m gs r ac out (y + 1) ?s"
      using n(2,3) r' p(4,6) a'(2) part nx(1) False y1 unfolding producer_at_def stq w by simp
    ultimately show ?thesis by blast
  next
    case True
    have full: "part_samples F st m gs (?px c) (y div ?T) (y + 1) = pixel_samples F st m gs (?px c) (y div ?T)" for c
      using nx(2) True by (simp add: part_samples_def pixel_samples_def algebra_simps)
    have h: "(?k + 1) * int w \<le> int (length out)"
    proof -
      have "y + ?T \<le> pr_sampleRowMax r + (?T - 1)" using y(2) by simp
      then have "(y + ?T) div ?T \<le> (pr_sampleRowMax r + (?T - 1)) div ?T" by (rule zdiv_mono1) simp
      moreover have "(y + ?T) div ?T = y div ?T + 1" using div_add_self2 [of ?T y] by simp
      ultimately have "?k + 1 \<le> ac_height ac" using ac by (simp add: consumer_ok_def stq)
      then have "(?k + 1) * int w \<le> ac_height ac * int w" by (rule mult_right_mono) simp
      also have "\<dots> \<le> int (length out)" using conjunct1 [OF consumer_size [OF ac]] w(1) by (simp add: mult.commute)
      finally show ?thesis .
    qed
    let ?out = "target F st m gs ac ?k out" and ?off = "?k * int w"
    have len: "length ?out = length out" "int (length out) < 2147483648" using consumer_size [OF ac] by (simp_all add: target_def)
    have step: "?off + int w = (?k + 1) * int w" by (simp add: distrib_right)
    have off: "0 \<le> ?off" "?off + int w \<le> int (length ?out)" "?off < 2147483648"
      using mult_nonneg_nonneg [OF k, of "int w"] h step len w(2) by linarith+
    let ?g = "\<lambda>j c _. alpha_byte M (pixel_samples F st m gs (ac_originX ac + c) (ac_originY ac + j))"
    have tg: "upd_range ?off (int w) (\<lambda>c _. alpha_byte M (pixel_samples F st m gs (?px (nat c)) (y div ?T))) ?out = target F st m gs ac (?k + 1) out"
    proof -
      have "upd_range ?off (int w) (\<lambda>c _. alpha_byte M (pixel_samples F st m gs (?px (nat c)) (y div ?T))) ?out = upd_range ?off (int w) (?g ?k) ?out"
        by (rule upd_range_cong) simp
      also have "\<dots> = target F st m gs ac (?k + 1) out"
        using upd_rect_step [of ?k "int w" "int w" 0 ?g out] k w(2) by (simp add: target_def w(1) stq M_def)
      finally show ?thesis .
    qed
    let ?a = "upd_range 0 (int w) (\<lambda>_ _. 0) a'"
    let ?ac = "ac \<lparr> ac_alphas := Some (target F st m gs ac (?k + 1) out) \<rparr>"
    have clr: "setAndClearRelativeAlphas st (pd_ac s) (Some a') (sar y (SUBPIXEL_LG_POSITIONS_Y st)) m0 m1 = Some (?ac, Some ?a)"
    proof -
      have "setAndClearRelativeAlphas st (pd_ac s) (Some a') (sar y (SUBPIXEL_LG_POSITIONS_Y st)) m0 m1
        = Some (pd_ac s \<lparr> ac_alphas := Some (upd_range ?off (int w) (\<lambda>c _. alpha_byte M (pixel_samples F st m gs (?px (nat c)) (y div ?T))) ?out) \<rparr>, Some ?a)"
        by (rule setAndClear_spec [OF stq(6,5)])
          (use stq(4) p(4,6) a'(2) part full off w(1) in \<open>simp_all add: M_def sar_def pixel_samples_bounds\<close>)
      then show ?thesis unfolding tg p(4) by simp
    qed
    let ?s = "\<lparr> pd_it = it', pd_r = pd_r s \<lparr> pr_edges := Some es' \<rparr>, pd_ac = ?ac, pd_alpha = Some ?a,
      pd_minX = sar ?b0 (SUBPIXEL_LG_POSITIONS_Y st), pd_maxX = sar (?b0 + int w * ?S) (SUBPIXEL_LG_POSITIONS_X st), pd_y = y \<rparr>"
    have run: "produce_row F st m (ac_originX ac * SUBPIXEL_POSITIONS_X st) ((ac_originX ac + ac_width ac) * SUBPIXEL_POSITIONS_X st) s = Some ?s"
      unfolding produce_row_def bb n(1) Option.bind_lunit prod.case Let_def cy mm andm p(5) using True a'(1) n(4) mm clr by simp
    have "i32 (prefix_sum ?a c) = part_samples F st m gs (?px c) (y div ?T + 1) (y + 1)" if "c < w" for c
      using cleared_prefix [OF that, of a'] a'(2) p(6) nx(2) True by (simp add: part_samples_def i32_def)
    then have "producer_at F st m gs r ac out (y + 1) ?s"
      using n(2,3) r' p(6) a'(2) nx(1) True y1 unfolding producer_at_def stq w by (simp add: algebra_simps)
    then show ?thesis using run by blast
  qed
qed

lemma edges_at_start:
  assumes "edges_at F y gs r" "\<forall>g\<in>set gs. y \<le> ge_first g" "\<forall>g\<in>set gs. z \<le> ge_first g"
  shows "edges_at F z gs r"
proof -
  have "rows_moved g z = rows_moved g y" if "g \<in> set gs" for g using that assms(2,3) by (auto simp: rows_moved_def min_def)
  then have "edge_stored F z es k (gs ! k) = edge_stored F y es k (gs ! k)" if "k < length gs" for es k
    using that by (simp add: edge_stored_def)
  then show ?thesis using assms(1) by (simp add: edges_at_def)
qed

lemma produce_rows_spec:
  assumes ex: "exact_ints F" and st: "statics_ok st" and ac: "consumer_ok st r ac out" and P: "producer_at F st m gs r ac out (pr_sampleRowMin r) s"
    and y: "pr_sampleRowMin r \<le> pr_sampleRowMax r"
  shows "\<exists>s'. produce_rows F st m (ac_originX ac * SUBPIXEL_POSITIONS_X st) ((ac_originX ac + ac_width ac) * SUBPIXEL_POSITIONS_X st) s = Some s' \<and>
    producer_at F st m gs r ac out (pr_sampleRowMax r) s'"
proof -
  let ?f = "\<lambda>(_ :: int) s. if ScanlineIterator_hasNext (pd_it s) (pd_r s)
    then produce_row F st m (ac_originX ac * SUBPIXEL_POSITIONS_X st) ((ac_originX ac + ac_width ac) * SUBPIXEL_POSITIONS_X st) s else Some s"
  have at: "it_nextY (pd_it t) = z" "pr_sampleRowMax (pd_r t) = pr_sampleRowMax r" if "producer_at F st m gs r ac out z t" for z t
    using that by (auto simp: producer_at_def iterator_at_def)
  have n: "rows_left s = nat (pr_sampleRowMax r - pr_sampleRowMin r)" using at [OF P] by (simp add: rows_left_def)
  have "\<exists>s'. loopM ?f 0 (rows_left s) s = Some s' \<and> producer_at F st m gs r ac out (pr_sampleRowMin r + (0 + int (rows_left s))) s'"
  proof (rule loopM_inv)
    show "producer_at F st m gs r ac out (pr_sampleRowMin r + 0) s" using P by simp
    fix k t assume k: "0 \<le> k" "k < 0 + int (rows_left s)" "producer_at F st m gs r ac out (pr_sampleRowMin r + k) t"
    have lt: "pr_sampleRowMin r + k < pr_sampleRowMax r" using k(2) n y by simp
    then have "ScanlineIterator_hasNext (pd_it t) (pd_r t)" using at [OF k(3)] by (simp add: ScanlineIterator_hasNext_def)
    then show "\<exists>t'. ?f k t = Some t' \<and> producer_at F st m gs r ac out (pr_sampleRowMin r + (k + 1)) t'"
      using produce_row_spec [OF ex st ac k(3) _ lt] k(1) by (simp add: add.assoc)
  qed
  then show ?thesis using y n by (simp add: produce_rows_def)
qed

lemma iterator_start:
  assumes "\<forall>g\<in>set gs. pr_sampleRowMin r \<le> ge_first g"
  shows "iterator_at (pr_sampleRowMin r) gs (ScanlineIterator_init it0 r)"
proof -
  have "ptrs_where (crosses (pr_sampleRowMin r - 1)) gs = []"
    unfolding ptrs_where_def using assms by (force simp: filter_empty_conv crosses_def dest: nth_mem)
  then show ?thesis by (simp add: iterator_at_def ScanlineIterator_init_def ScanlineIterator_reset_def new_int_def INIT_CROSSINGS_SIZE_def)
qed

lemma produceAlphas_spec:
  assumes ex: "exact_ints F" and st: "statics_ok st" and E: "edges_at F (pr_boundsMinY r) gs r" and ac: "consumer_ok st r ac out"
    and y: "pr_sampleRowMin r < pr_sampleRowMax r" and saved: "length saved = 1024"
  shows "\<exists>es. Renderer_produceAlphas F st saved it0 r ac
    = Some (ac \<lparr> ac_alphas := Some (target F st (winding_mask r) gs ac (ac_height ac) out) \<rparr>, r \<lparr> pr_edges := es \<rparr>)"
proof -
  let ?S = "2 ^ SUBPIXEL_LG_POSITIONS_X st :: int" and ?T = "2 ^ SUBPIXEL_LG_POSITIONS_Y st :: int"
  let ?m = "winding_mask r" and ?b0 = "ac_originX ac * SUBPIXEL_POSITIONS_X st" and ?b1 = "(ac_originX ac + ac_width ac) * SUBPIXEL_POSITIONS_X st"
  define w where "w = nat (ac_width ac)"
  define M where "M = ?S * ?T"
  have w: "ac_width ac = int w" "0 < w" "int w < 1073741824" using ac by (simp_all add: w_def consumer_ok_def)
  have stq: "SUBPIXEL_POSITIONS_X st = ?S" "SUBPIXEL_POSITIONS_Y st = ?T" "SUBPIXEL_MASK_Y st = ?T - 1" "M \<le> 4096" "0 < M"
    "alphaMap st = Some (alpha_table M)" using st by (auto simp: statics_ok_def M_def)
  have bb: "i32 (shl (ac_originX ac) (SUBPIXEL_LG_POSITIONS_X st)) = ?b0" "i32 (?b0 + shl (ac_width ac) (SUBPIXEL_LG_POSITIONS_X st)) = ?b1"
    using ac by (simp_all add: consumer_ok_def stq shl_def jint_range_def i32_id algebra_simps)
  obtain a where a: "Arrays_fill (if 1024 < ac_width ac + 2 then new_int (ac_width ac + 2) else Some saved) 0 (ac_width ac + 2) 0 = Some (Some a)"
    "w + 2 \<le> length a" "\<And>c. c < w \<Longrightarrow> prefix_sum a c = 0"
  proof -
    define b where "b = (if 1024 < ac_width ac + 2 then replicate (nat (ac_width ac + 2)) 0 else saved)"
    have b: "int w + 2 \<le> int (length b)" "(if 1024 < ac_width ac + 2 then new_int (ac_width ac + 2) else Some saved) = Some b"
      using w(1) saved by (auto simp: b_def new_int_def)
    have "prefix_sum (upd_range 0 (int w + 2) (\<lambda>_ _. 0) b) c = 0" if "c < w" for c
      using cleared_prefix [of c "w + 2" b] that b(1) by (simp add: add.commute)
    then show thesis using that [of "upd_range 0 (int w + 2) (\<lambda>_ _. 0) b"] fill_spec_range [of 0 "int w + 2" b 0] b w(1) by simp
  qed
  let ?s = "\<lparr> pd_it = ScanlineIterator_init it0 r, pd_r = r, pd_ac = ac, pd_alpha = Some a,
    pd_minX = sar ?b0 (SUBPIXEL_LG_POSITIONS_Y st), pd_maxX = sar ?b1 (SUBPIXEL_LG_POSITIONS_X st), pd_y = pr_boundsMinY r \<rparr>"
  have first: "\<forall>g\<in>set gs. pr_sampleRowMin r \<le> ge_first g" "\<forall>g\<in>set gs. pr_boundsMinY r \<le> ge_first g" "\<forall>g\<in>set gs. ge_last g \<le> pr_sampleRowMax r"
    using E by (auto simp: edges_at_def edge_in_def)
  have start: "producer_at F st ?m gs r ac out (pr_sampleRowMin r) ?s"
  proof -
    have "target F st ?m gs ac (pr_sampleRowMin r div ?T - ac_originY ac) out = out"
      using ac w by (simp add: target_def consumer_ok_def stq)
    then have "ac = ac \<lparr> ac_alphas := Some (target F st ?m gs ac (pr_sampleRowMin r div ?T - ac_originY ac) out) \<rparr>"
      using ac by (simp add: consumer_ok_def)
    moreover have "iterator_at (pr_sampleRowMin r) gs (ScanlineIterator_init it0 r)"
      by (rule iterator_start [OF first(1)])
    moreover have "\<exists>es. r = r \<lparr> pr_edges := es \<rparr>" by (intro exI [of _ "pr_edges r"]) simp
    moreover have "part_samples F st ?m gs px py (pr_sampleRowMin r) = 0" for px py by (rule part_samples_empty) (rule first(1))
    ultimately show ?thesis
      using edges_at_start [OF E first(2,1)] a(2,3) w(1) unfolding producer_at_def by (simp add: stq i32_def)
  qed
  obtain t where t: "produce_rows F st ?m ?b0 ?b1 ?s = Some t" "producer_at F st ?m gs r ac out (pr_sampleRowMax r) t"
    using produce_rows_spec [OF ex st ac start less_imp_le [OF y]] by blast
  obtain es a' where p: "pd_r t = r \<lparr> pr_edges := es \<rparr>" "pd_ac t = ac \<lparr> ac_alphas := Some (target F st ?m gs ac (pr_sampleRowMax r div ?T - ac_originY ac) out) \<rparr>"
    "pd_alpha t = Some a'" "w + 2 \<le> length a'" "pd_y t = pr_sampleRowMax r - 1"
    "\<forall>c<w. i32 (prefix_sum a' c) = part_samples F st ?m gs (ac_originX ac + int c) (pr_sampleRowMax r div ?T) (pr_sampleRowMax r)"
    using t(2) y by (auto simp: producer_at_def stq w_def)
  let ?y = "pr_sampleRowMax r - 1" and ?h = "pr_sampleRowMax r div ?T - ac_originY ac"
  have T: "0 < ?T" by simp
  note nx = next_pixel_row [OF T, of ?y]
  have andm: "(pd_y t AND SUBPIXEL_MASK_Y st < SUBPIXEL_MASK_Y st) = (?y mod ?T \<noteq> ?T - 1)"
  proof -
    have "?y mod ?T < ?T" by simp
    then show ?thesis unfolding p(5) stq(3) and_low_bits by linarith
  qed
  have hh: "ac_height ac = (?y + ?T) div ?T - ac_originY ac" using ac by (simp add: consumer_ok_def stq algebra_simps)
  have yT: "(?y + ?T) div ?T = ?y div ?T + 1" using div_add_self2 [of ?T ?y] by simp
  have run: "Renderer_produceAlphas F st saved it0 r ac =
    (if ?y mod ?T \<noteq> ?T - 1
     then do {
       (ac, _) \<leftarrow> setAndClearRelativeAlphas st (pd_ac t) (pd_alpha t) (sar (pd_y t) (SUBPIXEL_LG_POSITIONS_Y st)) (pd_minX t) (pd_maxX t);
       Some (ac, pd_r t) }
     else Some (pd_ac t, pd_r t))"
    unfolding Renderer_produceAlphas_def Let_def bb a(1) Option.bind_lunit t(1) andm ..
  show ?thesis
  proof (cases "?y mod ?T = ?T - 1")
    case True
    then have "?h = ac_height ac" using nx(1) hh yT by simp
    then show ?thesis using run True p(1,2) by auto
  next
    case False
    then have d: "?y div ?T = pr_sampleRowMax r div ?T" "?h + 1 = ac_height ac" using nx(1) hh yT by simp_all
    have h0: "0 \<le> ?h" using y ac by (simp add: consumer_ok_def stq zdiv_mono1)
    let ?out = "target F st ?m gs ac ?h out" and ?off = "?h * int w"
    have h: "(?h + 1) * int w \<le> int (length out)"
      using conjunct1 [OF consumer_size [OF ac]] w(1) unfolding d(2) by (simp add: mult.commute)
    have len: "length ?out = length out" "int (length out) < 2147483648" using consumer_size [OF ac] by (simp_all add: target_def)
    have step: "?off + int w = (?h + 1) * int w" by (simp add: distrib_right)
    have off: "0 \<le> ?off" "?off + int w \<le> int (length ?out)" "?off < 2147483648"
      using mult_nonneg_nonneg [OF h0, of "int w"] h step len w(2) by linarith+
    have full: "part_samples F st ?m gs px (pr_sampleRowMax r div ?T) (pr_sampleRowMax r) = pixel_samples F st ?m gs px (pr_sampleRowMax r div ?T)" for px
      by (rule part_samples_full [OF first(3)]) (use pixel_of(2) [OF T, of "pr_sampleRowMax r"] in simp)
    let ?g = "\<lambda>j c _. alpha_byte M (pixel_samples F st ?m gs (ac_originX ac + c) (ac_originY ac + j))"
    let ?N = "\<lambda>c. pixel_samples F st ?m gs (ac_originX ac + int c) (pr_sampleRowMax r div ?T)"
    have tg: "upd_range ?off (int w) (\<lambda>c _. alpha_byte M (?N (nat c))) ?out = target F st ?m gs ac (ac_height ac) out"
    proof -
      have "upd_range ?off (int w) (\<lambda>c _. alpha_byte M (?N (nat c))) ?out = upd_range ?off (int w) (?g ?h) ?out"
        by (rule upd_range_cong) simp
      then show ?thesis using upd_rect_step [of ?h "int w" "int w" 0 ?g out] h0 w(2) d(2) by (simp add: target_def w(1) stq M_def)
    qed
    have clr: "setAndClearRelativeAlphas st (pd_ac t) (Some a') (sar (pd_y t) (SUBPIXEL_LG_POSITIONS_Y st)) (pd_minX t) (pd_maxX t)
      = Some (pd_ac t \<lparr> ac_alphas := Some (upd_range ?off (int w) (\<lambda>c _. alpha_byte M (?N (nat c))) ?out) \<rparr>, Some (upd_range 0 (int w) (\<lambda>_ _. 0) a'))"
      by (rule setAndClear_spec [OF stq(6,5)])
        (use stq(4) p(2,4-6) full off w(1) d(1) in \<open>simp_all add: M_def sar_def pixel_samples_bounds\<close>)
    show ?thesis unfolding run p(3) clr [unfolded tg] using False p(1,2) by auto
  qed
qed

end
