(* ===== verification/Prism_Path.thy ===== *)
theory Prism_Path
  imports Prism_Alpha
begin

text \<open>
  Every operation on paths keeps the representation of the edges: the lines of the path, in order, become the edges that
  \<open>line_edge\<close> describes, whatever the state of the arrays was.
\<close>

section \<open>Adding one edge\<close>

definition rising_edge :: "'f prism_floats \<Rightarrow> int \<Rightarrow> int \<Rightarrow> bool \<Rightarrow> 'f \<Rightarrow> 'f \<Rightarrow> 'f \<Rightarrow> 'f \<Rightarrow> 'f edge list" where
  "rising_edge F lo hi up x1 y1 x2 y2 =
     (let first = max (sample_of F y1) lo; last = min (sample_of F y2) hi; slope = fl_div F (fl_sub F x2 x1) (fl_sub F y2 y1)
      in if first < last
         then [\<lparr> ge_first = first, ge_last = last, ge_up = up,
                 ge_x = fl_add F x1 (fl_mul F (fl_sub F (fl_add F (fl_of F first) (fl_half F)) y1) slope), ge_slope = slope \<rparr>]
         else [])"

fun line_edge :: "'f prism_floats \<Rightarrow> int \<Rightarrow> int \<Rightarrow> 'f \<times> 'f \<times> 'f \<times> 'f \<Rightarrow> 'f edge list" where
  "line_edge F lo hi (x1, y1, x2, y2) =
     (if fl_less F y2 y1 then rising_edge F lo hi False x2 y2 x1 y1 else rising_edge F lo hi True x1 y1 x2 y2)"

lemma ptrs_where_snoc: "ptrs_where Q (gs @ [g]) = ptrs_where Q gs @ (if Q g then [ptr (length gs)] else [])"
proof -
  have "filter (\<lambda>k. Q ((gs @ [g]) ! k)) [0..<length gs] = filter (\<lambda>k. Q (gs ! k)) [0..<length gs]"
    by (rule filter_cong) (simp_all add: nth_append)
  then show ?thesis by (simp add: ptrs_where_def)
qed

lemma starting_snoc: "starting (gs @ [g]) y = (if ge_first g = y then [ptr (length gs)] else []) @ starting gs y"
  by (simp add: starting_def ptrs_where_snoc)

lemma starting_ptrs: "p \<in> set (starting gs y) \<Longrightarrow> 0 \<le> p \<and> p + 5 \<le> ptr (length gs)"
  by (auto simp: starting_def ptrs_where_set ptr_def)

lemma starting_length: "length (starting gs y) \<le> length gs"
  unfolding starting_def ptrs_where_def using length_filter_le [of _ "[0..<length gs]"] by simp

text \<open>Links are read only from the edges of the list.\<close>

lemma chain_prefix:
  assumes "chain F es h ps" "\<forall>p\<in>set ps. p + 5 \<le> m" "m \<le> int (length es')" "\<And>i. int i < m \<Longrightarrow> es' ! i = es ! i"
  shows "chain F es' h ps"
  using assms(1,2)
proof (induction ps arbitrary: h)
  case (Cons p ps)
  then have "is_ptr es p" "p + 5 \<le> m" by simp_all
  then have "es' ! nat (p + 4) = es ! nat (p + 4)" "is_ptr es' p" using assms(3,4) by (simp_all add: is_ptr_def)
  then show ?case using Cons by simp
qed simp

lemma edge_stored_prefix:
  assumes "edge_stored F y es k g" "ptr k + 5 \<le> m" "m \<le> int (length es')" "\<And>i. int i < m \<Longrightarrow> es' ! i = es ! i"
  shows "edge_stored F y es' k g"
proof -
  have "is_ptr es (ptr k)" using assms(1) by (simp add: edge_stored_def)
  then have "es' ! nat (ptr k + d) = es ! nat (ptr k + d)" if "d \<in> {0, 1, 2, 3}" for d
    using that assms(2-4) by (auto simp: is_ptr_def)
  from this [of 0] this [of 1] this [of 2] this [of 3] show ?thesis
    using assms(1-3) by (simp add: edge_stored_def is_ptr_def)
qed

lemma chain_head: "chain F es h (starting gs y) \<Longrightarrow> 0 \<le> h \<and> h \<le> ptr (length gs)"
  using starting_ptrs [of "hd (starting gs y)" gs y] by (cases "starting gs y") (simp_all add: ptr_def)

definition with_edge :: "'f prism_floats \<Rightarrow> 'f edge \<Rightarrow> int \<Rightarrow> int \<Rightarrow> 'f list \<Rightarrow> 'f list" where
  "with_edge F g p h es = es[nat (p + 2) := fl_of F (if ge_up g then 1 else 0), nat (p + 1) := ge_x g, nat (p + 3) := ge_slope g,
     nat p := fl_of F (ge_last g), nat (p + 4) := fl_of F h]"

definition with_bucket :: "'f edge \<Rightarrow> int \<Rightarrow> int \<Rightarrow> int list \<Rightarrow> int list" where
  "with_bucket g lo p bs =
     (let b = nat (ge_first g - lo); e = nat (ge_last g - lo); bs = bs[2 * b := p + 1, 2 * b + 1 := bs ! (2 * b + 1) + 2]
      in bs[2 * e + 1 := bs ! (2 * e + 1) OR 1])"

lemma with_edge_nth:
  assumes "is_ptr es p"
  shows "length (with_edge F g p h es) = length es" "int i < p \<Longrightarrow> with_edge F g p h es ! i = es ! i"
    "with_edge F g p h es ! nat p = fl_of F (ge_last g)" "with_edge F g p h es ! nat (p + 1) = ge_x g"
    "with_edge F g p h es ! nat (p + 2) = fl_of F (if ge_up g then 1 else 0)" "with_edge F g p h es ! nat (p + 3) = ge_slope g"
    "with_edge F g p h es ! nat (p + 4) = fl_of F h"
proof -
  have n: "nat (p + 1) = nat p + 1" "nat (p + 2) = nat p + 2" "nat (p + 3) = nat p + 3" "nat (p + 4) = nat p + 4" "nat p + 4 < length es"
    using assms by (auto simp: is_ptr_def)
  show "int i < p \<Longrightarrow> with_edge F g p h es ! i = es ! i" unfolding with_edge_def n using assms by (simp add: is_ptr_def nth_list_update)
  show "with_edge F g p h es ! nat p = fl_of F (ge_last g)" "with_edge F g p h es ! nat (p + 1) = ge_x g"
    "with_edge F g p h es ! nat (p + 2) = fl_of F (if ge_up g then 1 else 0)" "with_edge F g p h es ! nat (p + 3) = ge_slope g"
    "with_edge F g p h es ! nat (p + 4) = fl_of F h" "length (with_edge F g p h es) = length es"
    unfolding with_edge_def n using n(5) by (simp_all add: nth_list_update)
qed

lemma flag_or_1: "(2 * n + (if P then 1 else 0) :: int) OR 1 = 2 * n + 1"
proof (cases P)
  case True
  have "(2 * n + 1) OR 1 = ((2 * n) OR 1) OR (1 :: int)" by (simp add: even_or_1)
  also have "\<dots> = (2 * n) OR 1" by (simp add: or.assoc)
  finally show ?thesis using True by (simp add: even_or_1)
qed (simp add: even_or_1)

lemma ends_on_snoc: "ends_on (gs @ [g]) y \<longleftrightarrow> ends_on gs y \<or> ge_last g = y"
  by (auto simp: ends_on_def)

lemma buckets_snoc:
  assumes ex: "exact_ints F" and ok: "buckets_ok F gs lo nb es bs" and room: "is_ptr es (ptr (length gs))"
    and g: "lo \<le> ge_first g" "ge_first g < ge_last g" "ge_last g \<le> lo + int nb" and lim: "5 * length gs < 16777216"
  shows "buckets_ok F (gs @ [g]) lo nb (with_edge F g (ptr (length gs)) (bs ! (2 * nat (ge_first g - lo))) es) (with_bucket g lo (ptr (length gs)) bs)"
proof -
  define b where "b = nat (ge_first g - lo)"
  define e where "e = nat (ge_last g - lo)"
  define p where "p = ptr (length gs)"
  let ?es = "with_edge F g p (bs ! (2 * b)) es" and ?bs = "with_bucket g lo p bs"
  have be: "b < e" "b < nb" "e \<le> nb" using g by (auto simp: b_def e_def)
  have len: "2 * nb + 2 \<le> length bs" using ok by (simp add: buckets_ok_def)
  have row: "ge_first g = lo + int c \<longleftrightarrow> c = b" "ge_last g = lo + int c \<longleftrightarrow> c = e" for c using g by (auto simp: b_def e_def)
  note old = with_edge_nth [OF room [folded p_def], where F = F and g = g and h = "bs ! (2 * b)"]
  have par: "Suc (2 * x) \<noteq> 2 * y" "2 * y \<noteq> Suc (2 * x)" for x y :: nat by presburger+
  have bs: "?bs ! (2 * c) = (if c = b then p + 1 else bs ! (2 * c))"
    "?bs ! (2 * c + 1) = (if c = b then bs ! (2 * c + 1) + 2 else if c = e then bs ! (2 * c + 1) OR 1 else bs ! (2 * c + 1))" if "c < nb" for c
    using that be len by (auto simp: with_bucket_def Let_def b_def [symmetric] e_def [symmetric] nth_list_update par)
  have "chain F ?es (?bs ! (2 * c)) (starting (gs @ [g]) (lo + int c)) \<and>
      ?bs ! (2 * c + 1) = 2 * int (length (starting (gs @ [g]) (lo + int c))) + (if ends_on (gs @ [g]) (lo + int c) then 1 else 0)" if c: "c < nb" for c
  proof -
    let ?ps = "starting gs (lo + int c)"
    have ch: "chain F es (bs ! (2 * c)) ?ps" and n: "bs ! (2 * c + 1) = 2 * int (length ?ps) + (if ends_on gs (lo + int c) then 1 else 0)"
      using ok c by (simp_all add: buckets_ok_def)
    have ch': "chain F ?es (bs ! (2 * c)) ?ps"
      by (rule chain_prefix [OF ch, of p]) (use starting_ptrs room old(1,2) in \<open>auto simp: p_def is_ptr_def\<close>)
    have h: "fl_to F (fl_of F (bs ! (2 * c))) = bs ! (2 * c)" using chain_head [OF ch] ex lim by (simp add: exact_ints_def ptr_def)
    have "is_ptr ?es p" using room old(1) by (simp add: is_ptr_def p_def)
    then show ?thesis using bs [OF c] ch' h n be old(7) flag_or_1 [of "int (length ?ps)"]
      by (auto simp: starting_snoc row ends_on_snoc p_def [symmetric])
  qed
  moreover have "length ?bs = length bs" by (simp add: with_bucket_def Let_def)
  ultimately show ?thesis using len unfolding buckets_ok_def b_def [symmetric] p_def [symmetric] by simp
qed


lemma edge_stored_new:
  assumes "is_ptr es (ptr (length gs))" "y \<le> ge_first g"
  shows "edge_stored F y (with_edge F g (ptr (length gs)) h es) (length gs) g"
  using assms by (simp add: edge_stored_def with_edge_nth is_ptr_def rows_moved_def edge_x_def)

lemma store_edge_spec:
  assumes ex: "exact_ints F" and E: "edges_at F (pr_boundsMinY r) gs r" and lim: "5 * (length gs + 1) < 16777216"
    and room: "ptr (length gs) + 5 \<le> pr_edgesSIZE r" and g: "edge_in r g"
  shows "\<exists>es bs. store_edge F r (ptr (length gs)) (fl_of F (if ge_up g then 1 else 0)) (ge_x g) (ge_slope g) (ge_first g) (ge_last g)
      = Some (r \<lparr> pr_numEdges := int (length gs) + 1, pr_edges := Some es, pr_edgeBuckets := Some bs \<rparr>) \<and>
    (\<forall>bs0. pr_edgeBuckets r = Some bs0 \<longrightarrow> length bs = length bs0) \<and>
    edges_at F (pr_boundsMinY r) (gs @ [g]) (r \<lparr> pr_numEdges := int (length gs) + 1, pr_edges := Some es, pr_edgeBuckets := Some bs \<rparr>)"
proof -
  define lo where "lo = pr_boundsMinY r"
  define nb where "nb = nat (pr_boundsMaxY r - lo)"
  define p where "p = ptr (length gs)"
  define b where "b = nat (ge_first g - lo)"
  define e where "e = nat (ge_last g - lo)"
  obtain es bs where st: "pr_edges r = Some es" "pr_edgesSIZE r = int (length es)" "pr_edgeBuckets r = Some bs"
    "\<forall>k<length gs. edge_stored F lo es k (gs ! k)" "buckets_ok F gs lo nb es bs" "pr_numEdges r = int (length gs)" "rows_ok r"
    using E unfolding lo_def nb_def by (auto simp: edges_at_def)
  have ip: "is_ptr es p" using room st(2) by (simp add: is_ptr_def p_def ptr_def)
  have bb: "ge_first g - lo = int b" "ge_last g - lo = int e" "b < e" "e \<le> nb" "b < nb" "pr_boundsMaxY r = lo + int nb" "int nb \<le> 33554432"
    using g st(7) by (auto simp: edge_in_def rows_ok_def b_def e_def nb_def lo_def)
  have len: "2 * nb + 2 \<le> length bs" using st(5) by (simp add: buckets_ok_def)
  have small: "p + 5 < 16777216" using lim by (simp add: p_def ptr_def)
  let ?h = "bs ! (2 * b)"
  let ?es = "with_edge F g p ?h es" and ?bs = "with_bucket g lo p bs"
  have cnt: "0 \<le> bs ! (2 * b + 1)" "bs ! (2 * b + 1) \<le> 2 * int (length gs) + 1"
    using st(5) bb(5) starting_length [of gs "lo + int b"] by (simp_all add: buckets_ok_def)
  have i: "i32 (p + 1) = p + 1" "i32 (bs ! (2 * b + 1) + 2) = bs ! (2 * b + 1) + 2" "i32 (int (length gs) + 1) = int (length gs) + 1"
    "i32 (int b) = int b" "i32 (int e) = int e"
    using small cnt bb lim by (auto intro!: i32_id simp: p_def ptr_def)
  have ix: "nat (int b * 2) = 2 * b" "nat (int b * 2 + 1) = 2 * b + 1" "nat (int e * 2 + 1) = 2 * e + 1" by simp_all
  have run: "store_edge F r p (fl_of F (if ge_up g then 1 else 0)) (ge_x g) (ge_slope g) (ge_first g) (ge_last g)
      = Some (r \<lparr> pr_numEdges := int (length gs) + 1, pr_edges := Some ?es, pr_edgeBuckets := Some ?bs \<rparr>)"
    unfolding store_edge_def addEdgeToBucket_def with_edge_def with_bucket_def
    using st(1,3,6) ip len bb i ix by (simp add: Let_def edge_fields is_ptr_def lo_def [symmetric] b_def [symmetric] e_def [symmetric])
  let ?r = "r \<lparr> pr_numEdges := int (length gs) + 1, pr_edges := Some ?es, pr_edgeBuckets := Some ?bs \<rparr>"
  have keep: "edge_stored F lo ?es k ((gs @ [g]) ! k)" if "k < length (gs @ [g])" for k
  proof (cases "k = length gs")
    case True
    then show ?thesis using edge_stored_new [OF ip [unfolded p_def]] g by (simp add: p_def edge_in_def lo_def)
  next
    case False
    then have k: "k < length gs" using that by simp
    show ?thesis
      by (rule edge_stored_prefix [where es = es and m = p])
        (use k st(4) ip with_edge_nth [OF ip] in \<open>auto simp: nth_append p_def ptr_def is_ptr_def\<close>)
  qed
  have "buckets_ok F (gs @ [g]) lo nb ?es ?bs"
    unfolding p_def b_def by (rule buckets_snoc [OF ex st(5) ip [unfolded p_def]]) (use g bb(6) lim in \<open>auto simp: edge_in_def lo_def\<close>)
  then have "edges_at F lo (gs @ [g]) ?r"
    using keep E g st(2) lim with_edge_nth(1) [OF ip] by (auto simp: edges_at_def rows_ok_def edge_in_def lo_def nb_def)
  moreover have "length ?bs = length bs" by (simp add: with_bucket_def Let_def)
  ultimately show ?thesis using run st(3) unfolding p_def lo_def by auto
qed


section \<open>Adding lines\<close>

text \<open>What adding edges leaves alone: the bounds, the winding rule and the pen.\<close>

definition same_path :: "'f PrismRenderer \<Rightarrow> 'f PrismRenderer \<Rightarrow> bool" where
  "same_path r r' \<longleftrightarrow> pr_boundsMinX r' = pr_boundsMinX r \<and> pr_boundsMinY r' = pr_boundsMinY r \<and> pr_boundsMaxX r' = pr_boundsMaxX r \<and>
     pr_boundsMaxY r' = pr_boundsMaxY r \<and> pr_windingRule r' = pr_windingRule r \<and> pr_x0 r' = pr_x0 r \<and> pr_y0 r' = pr_y0 r \<and>
     pr_pix_sx0 r' = pr_pix_sx0 r \<and> pr_pix_sy0 r' = pr_pix_sy0 r"

lemma same_path_refl [simp]: "same_path r r"
  by (simp add: same_path_def)

lemma same_path_trans: "same_path r r' \<Longrightarrow> same_path r' r'' \<Longrightarrow> same_path r r''"
  by (simp add: same_path_def)

lemma include_edge_spec:
  "\<exists>a b. include_edge F r f l slope x1 x2
     = r \<lparr> pr_sampleRowMin := min f (pr_sampleRowMin r), pr_sampleRowMax := max l (pr_sampleRowMax r), pr_edgeMinX := a, pr_edgeMaxX := b \<rparr>"
proof -
  let ?u = "if fl_less F (fl_of F 0) slope then x1 else x2" and ?v = "if fl_less F (fl_of F 0) slope then x2 else x1"
  show ?thesis
    by (intro exI [of _ "if fl_less F ?u (pr_edgeMinX r) then ?u else pr_edgeMinX r"]
        exI [of _ "if fl_less F (pr_edgeMaxX r) ?v then ?v else pr_edgeMaxX r"])
      (simp add: include_edge_def Let_def min_def max_def)
qed

lemma grow_edges_spec:
  assumes "pr_edges r = Some es" "pr_edgesSIZE r = int (length es)" "p = ptr n" "n < 16777216" "p \<le> int (length es)"
  shows "\<exists>es'. grow_edges F r p = Some (r \<lparr> pr_edges := Some es', pr_edgesSIZE := int (length es') \<rparr>) \<and> p + 5 \<le> int (length es') \<and>
    (\<forall>i. int i < p \<longrightarrow> es' ! i = es ! i)"
proof (cases "int (length es) < p + 5")
  case True
  have i: "i32 ((p + 5) * 2) = (p + 5) * 2" using assms(3,4) by (intro i32_id) (simp_all add: ptr_def)
  have p0: "0 \<le> p" using assms(3) by (simp add: ptr_def)
  let ?z = "replicate (nat ((p + 5) * 2)) (fl_of F 0)" and ?es = "take (nat p) es @ drop (nat p) (replicate (nat ((p + 5) * 2)) (fl_of F 0))"
  have "System_arraycopy (Some es) 0 (Some ?z) 0 p = Some (Some ?es)" by (rule arraycopy_spec) (use assms(5) p0 in simp_all)
  then have "grow_edges F r p = Some (r \<lparr> pr_edges := Some ?es, pr_edgesSIZE := (p + 5) * 2 \<rparr>)"
    using True i p0 assms(1,2) by (simp add: grow_edges_def SIZEOF_EDGE_def new_float_def Let_def)
  moreover have len: "int (length ?es) = (p + 5) * 2" using assms(5) p0 by (auto simp: min_def)
  moreover have "\<forall>i. int i < p \<longrightarrow> ?es ! i = es ! i" using assms(5) by (auto simp: nth_append)
  ultimately show ?thesis using p0 by (intro exI [of _ ?es]) simp
next
  case False
  then show ?thesis using assms(1,2) by (intro exI [of _ es]) (simp add: grow_edges_def SIZEOF_EDGE_def)
qed

lemma edges_at_grown:
  assumes E: "edges_at F y gs r" and es: "pr_edges r = Some es" and p: "ptr (length gs) \<le> int (length es')"
    "\<forall>i. int i < ptr (length gs) \<longrightarrow> es' ! i = es ! i"
  shows "edges_at F y gs (r \<lparr> pr_edges := Some es', pr_edgesSIZE := int (length es') \<rparr>)"
proof -
  let ?nb = "nat (pr_boundsMaxY r - pr_boundsMinY r)"
  obtain bs where st: "pr_edgeBuckets r = Some bs" "\<forall>k<length gs. edge_stored F y es k (gs ! k)" "buckets_ok F gs (pr_boundsMinY r) ?nb es bs"
    using E es by (auto simp: edges_at_def)
  have "edge_stored F y es' k (gs ! k)" if "k < length gs" for k
    by (rule edge_stored_prefix [where es = es and m = "ptr (length gs)"]) (use st(2) that p in \<open>auto simp: ptr_def\<close>)
  moreover have "chain F es' h (starting gs v)" if "chain F es h (starting gs v)" for h v
    by (rule chain_prefix [OF that _ p(1)]) (use starting_ptrs p(2) in blast)+
  then have "buckets_ok F gs (pr_boundsMinY r) ?nb es' bs" using st(3) unfolding buckets_ok_def by blast
  ultimately show ?thesis using E st(1) by (auto simp: edges_at_def rows_ok_def edge_in_def)
qed

lemma edges_at_room: "edges_at F y gs r \<Longrightarrow> pr_edges r = Some es \<Longrightarrow> ptr (length gs) \<le> int (length es)"
proof (cases gs rule: rev_cases)
  case (snoc gs' g)
  assume E: "edges_at F y gs r" "pr_edges r = Some es"
  then have "edge_stored F y es (length gs') g" using snoc by (auto simp: edges_at_def dest: spec [of _ "length gs'"])
  then show ?thesis using snoc by (simp add: edge_stored_def is_ptr_def ptr_def)
qed (simp add: ptr_def)

lemma add_rising_spec:
  assumes ex: "exact_ints F" and E: "edges_at F (pr_boundsMinY r) gs r" and lim: "5 * (length gs + 1) < 16777216"
  shows "\<exists>r'. add_rising F r (fl_of F (if up then 1 else 0)) x1 y1 x2 y2 = Some r' \<and> same_path r r' \<and>
    edges_at F (pr_boundsMinY r) (gs @ rising_edge F (pr_boundsMinY r) (pr_boundsMaxY r) up x1 y1 x2 y2) r' \<and>
    (rising_edge F (pr_boundsMinY r) (pr_boundsMaxY r) up x1 y1 x2 y2 = [] \<longrightarrow> r' = r)"
proof -
  let ?f = "max (sample_of F y1) (pr_boundsMinY r)" and ?l = "min (sample_of F y2) (pr_boundsMaxY r)"
  let ?slope = "fl_div F (fl_sub F x2 x1) (fl_sub F y2 y1)"
  let ?x = "fl_add F x1 (fl_mul F (fl_sub F (fl_add F (fl_of F ?f) (fl_half F)) y1) ?slope)"
  let ?g = "\<lparr> ge_first = ?f, ge_last = ?l, ge_up = up, ge_x = ?x, ge_slope = ?slope \<rparr>"
  show ?thesis
  proof (cases "?f < ?l")
    case False
    then have "add_rising F r (fl_of F (if up then 1 else 0)) x1 y1 x2 y2 = Some r"
      "rising_edge F (pr_boundsMinY r) (pr_boundsMaxY r) up x1 y1 x2 y2 = []"
      unfolding add_rising_def rising_edge_def Let_def not_less by (simp_all only: if_True not_less [symmetric] if_False not_False_eq_True)
    then show ?thesis using E by simp
  next
    case True
    obtain a b where inc: "include_edge F r ?f ?l ?slope x1 x2
        = r \<lparr> pr_sampleRowMin := min ?f (pr_sampleRowMin r), pr_sampleRowMax := max ?l (pr_sampleRowMax r), pr_edgeMinX := a, pr_edgeMaxX := b \<rparr>"
      (is "_ = ?r1") using include_edge_spec [of F r ?f ?l ?slope x1 x2] by blast
    obtain es where es: "pr_edges r = Some es" "pr_edgesSIZE r = int (length es)" "pr_numEdges r = int (length gs)" using E by (auto simp: edges_at_def)
    have E1: "edges_at F (pr_boundsMinY r) gs ?r1" using E by (auto simp: edges_at_def edge_in_def rows_ok_def)
    have pe: "i32 (pr_numEdges ?r1 * SIZEOF_EDGE) = ptr (length gs)" using es(3) lim by (simp add: SIZEOF_EDGE_def ptr_def i32_id)
    obtain es' where gr: "grow_edges F ?r1 (ptr (length gs)) = Some (?r1 \<lparr> pr_edges := Some es', pr_edgesSIZE := int (length es') \<rparr>)"
      "ptr (length gs) + 5 \<le> int (length es')" "\<forall>i. int i < ptr (length gs) \<longrightarrow> es' ! i = es ! i"
      using grow_edges_spec [of ?r1 es _ "length gs" F] es lim edges_at_room [OF E es(1)] by auto
    let ?r2 = "?r1 \<lparr> pr_edges := Some es', pr_edgesSIZE := int (length es') \<rparr>"
    have E2: "edges_at F (pr_boundsMinY ?r2) gs ?r2" using edges_at_grown [OF E1, of es es'] es(1) gr(2,3) by simp
    have g: "edge_in ?r2 ?g" using True E by (auto simp: edge_in_def)
    obtain es2 bs2 where st: "store_edge F ?r2 (ptr (length gs)) (fl_of F (if up then 1 else 0)) ?x ?slope ?f ?l
        = Some (?r2 \<lparr> pr_numEdges := int (length gs) + 1, pr_edges := Some es2, pr_edgeBuckets := Some bs2 \<rparr>)"
      "edges_at F (pr_boundsMinY r) (gs @ [?g]) (?r2 \<lparr> pr_numEdges := int (length gs) + 1, pr_edges := Some es2, pr_edgeBuckets := Some bs2 \<rparr>)"
      using store_edge_spec [OF ex E2 lim _ g] gr(2) by auto
    have "add_rising F r (fl_of F (if up then 1 else 0)) x1 y1 x2 y2
        = Some (?r2 \<lparr> pr_numEdges := int (length gs) + 1, pr_edges := Some es2, pr_edgeBuckets := Some bs2 \<rparr>)"
      unfolding add_rising_def Let_def inc pe gr(1) Option.bind_lunit st(1) using True by (simp only: not_le [symmetric] if_False)
    then show ?thesis using st(2) True by (simp add: same_path_def rising_edge_def Let_def)
  qed
qed

lemma addLine_spec:
  assumes "exact_ints F" "edges_at F (pr_boundsMinY r) gs r" "5 * (length gs + 1) < 16777216"
  shows "\<exists>r'. addLine F r x1 y1 x2 y2 = Some r' \<and> same_path r r' \<and>
    edges_at F (pr_boundsMinY r) (gs @ line_edge F (pr_boundsMinY r) (pr_boundsMaxY r) (x1, y1, x2, y2)) r' \<and>
    (line_edge F (pr_boundsMinY r) (pr_boundsMaxY r) (x1, y1, x2, y2) = [] \<longrightarrow> r' = r)"
  using add_rising_spec [OF assms, of False x2 y2 x1 y1] add_rising_spec [OF assms, of True x1 y1 x2 y2]
  by (simp add: addLine_def)

end
