(* ===== verification/Prism_Flatten.thy ===== *)
theory Prism_Flatten
  imports Prism_Path
begin

text \<open>
  Paths as lists of lines. The curves of a path are flattened by loops that end only when the floats get small enough; the
  list of lines is the value of a partial function, and the operations of the renderer add its lines one after the other.
\<close>

type_synonym 'f line = "'f \<times> 'f \<times> 'f \<times> 'f"

section \<open>Lists of lines\<close>

fun addLines :: "'f prism_floats \<Rightarrow> 'f PrismRenderer \<Rightarrow> 'f line list \<Rightarrow> 'f PrismRenderer option" where
  "addLines F r [] = Some r"
| "addLines F r ((x1, y1, x2, y2) # ls) = do { r \<leftarrow> addLine F r x1 y1 x2 y2; addLines F r ls }"

definition line_edges :: "'f prism_floats \<Rightarrow> int \<Rightarrow> int \<Rightarrow> 'f line list \<Rightarrow> 'f edge list" where
  "line_edges F lo hi ls = concat (map (line_edge F lo hi) ls)"

lemma line_edges_simps [simp]:
  "line_edges F lo hi [] = []" "line_edges F lo hi (l # ls) = line_edge F lo hi l @ line_edges F lo hi ls"
  "line_edges F lo hi (ks @ ls) = line_edges F lo hi ks @ line_edges F lo hi ls"
  by (simp_all add: line_edges_def)

lemma line_edge_length: "length (line_edge F lo hi l) \<le> 1"
  by (cases l) (simp add: rising_edge_def Let_def)

lemma line_edges_length: "length (line_edges F lo hi ls) \<le> length ls"
proof (induction ls)
  case (Cons l ls)
  then show ?case using line_edge_length [of F lo hi l] by simp
qed simp

lemma addLines_spec:
  assumes "exact_ints F" "edges_at F (pr_boundsMinY r) gs r" "5 * (length gs + length ls) < 16777216"
  shows "\<exists>r'. addLines F r ls = Some r' \<and> same_path r r' \<and>
    edges_at F (pr_boundsMinY r) (gs @ line_edges F (pr_boundsMinY r) (pr_boundsMaxY r) ls) r' \<and>
    (line_edges F (pr_boundsMinY r) (pr_boundsMaxY r) ls = [] \<longrightarrow> r' = r)"
  using assms(2,3)
proof (induction ls arbitrary: r gs)
  case (Cons l ls)
  obtain x1 y1 x2 y2 where l: "l = (x1, y1, x2, y2)" by (cases l)
  let ?g = "line_edge F (pr_boundsMinY r) (pr_boundsMaxY r) l"
  have lim: "5 * (length gs + 1) < 16777216" using Cons.prems(2) by simp
  obtain r1 where r1: "addLine F r x1 y1 x2 y2 = Some r1" "same_path r r1" "edges_at F (pr_boundsMinY r) (gs @ ?g) r1" "?g = [] \<longrightarrow> r1 = r"
    using addLine_spec [OF assms(1) Cons.prems(1) lim, of x1 y1 x2 y2] l by auto
  have same: "pr_boundsMinY r1 = pr_boundsMinY r" "pr_boundsMaxY r1 = pr_boundsMaxY r" using r1(2) by (simp_all add: same_path_def)
  have "5 * (length (gs @ ?g) + length ls) < 16777216"
    using Cons.prems(2) line_edge_length [of F "pr_boundsMinY r" "pr_boundsMaxY r" l] by simp
  then obtain r2 where "addLines F r1 ls = Some r2" "same_path r1 r2"
    "edges_at F (pr_boundsMinY r) ((gs @ ?g) @ line_edges F (pr_boundsMinY r) (pr_boundsMaxY r) ls) r2"
    "line_edges F (pr_boundsMinY r) (pr_boundsMaxY r) ls = [] \<longrightarrow> r2 = r1"
    using Cons.IH [of r1 "gs @ ?g"] r1(3) same by auto
  then show ?case using r1(1,2,4) same_path_trans [OF r1(2), of r2] by (simp add: l)
qed simp

section \<open>Curves\<close>

fun quad_points :: "'f prism_floats \<Rightarrow> 'f \<Rightarrow> 'f \<Rightarrow> nat \<Rightarrow> 'f \<times> 'f \<times> 'f \<times> 'f \<Rightarrow> 'f \<Rightarrow> 'f \<Rightarrow> 'f line list" where
  "quad_points F ddx ddy 0 (x0, y0, dx, dy) x2 y2 = [(x0, y0, x2, y2)]"
| "quad_points F ddx ddy (Suc n) (x0, y0, dx, dy) x2 y2 =
     (x0, y0, fl_add F x0 dx, fl_add F y0 dy) #
     quad_points F ddx ddy n (fl_add F x0 dx, fl_add F y0 dy, fl_add F dx ddx, fl_add F dy ddy) x2 y2"

definition flatten_quad :: "'f prism_floats \<Rightarrow> 'f \<Rightarrow> 'f \<Rightarrow> 'f Curve \<Rightarrow> 'f \<Rightarrow> 'f \<Rightarrow> 'f line list option" where
  "flatten_quad F x0 y0 c x2 y2 = do {
     count \<leftarrow> quad_count F (fl_max F (fl_div F (cv_dbx c) (fl_of F 256)) (fl_div F (cv_dby c) (fl_of F 256))) 16;
     let sq = fl_of F (i32 (count * count));
     Some (quad_points F (fl_div F (cv_dbx c) sq) (fl_div F (cv_dby c) sq) (nat (count - 1))
       (x0, y0, fl_add F (fl_div F (cv_bx c) sq) (fl_div F (cv_cx c) (fl_of F count)),
        fl_add F (fl_div F (cv_by c) sq) (fl_div F (cv_cy c) (fl_of F count))) x2 y2) }"

lemma quad_points_lines:
  "(do { (r, x0, y0, _, _) \<leftarrow> loopM (\<lambda>_. quad_line F ddx ddy) i n (r, x0, y0, dx, dy); addLine F r x0 y0 x2 y2 })
   = addLines F r (quad_points F ddx ddy n (x0, y0, dx, dy) x2 y2)"
proof (induction n arbitrary: i r x0 y0 dx dy)
  case (Suc n)
  show ?case
  proof (cases "addLine F r x0 y0 (fl_add F x0 dx) (fl_add F y0 dy)")
    case None
    then show ?thesis by (simp add: quad_line_def Let_def)
  next
    case (Some r')
    then show ?thesis using Suc.IH by (simp add: quad_line_def Let_def)
  qed
qed simp

lemma quad_flattened: "quadBreakIntoLinesAndAdd F r x0 y0 c x2 y2 = do { ls \<leftarrow> flatten_quad F x0 y0 c x2 y2; addLines F r ls }"
  unfolding quadBreakIntoLinesAndAdd_def flatten_quad_def Let_def quad_points_lines
  by (simp add: bind_assoc)

text \<open>The number of lines doubles for as long as a quarter of the second difference is too large: for ever, when a quarter of it is itself.\<close>

lemma quad_count_stuck:
  assumes m: "fl_less F (fl_of F 32) m" "fl_div F m (fl_of F 4) = m"
  shows "quad_count F m n = None"
proof -
  have "\<not> (G = F \<and> v = m)" if "quad_count G v n = Some k" for G v k
    using that
  proof (induction rule: quad_count.raw_induct [rotated, consumes 1, case_names step])
    case (step f G v n k)
    then show ?case using m by (auto split: if_splits)
  qed
  then show ?thesis by (cases "quad_count F m n") auto
qed

lemma quadTo_stuck:
  assumes "fl_less F (fl_of F 32) m" "fl_div F m (fl_of F 4) = m"
    "c = Curve_setquad F (pr_x0 r) (pr_y0 r) (tosubpixx F st x1) (tosubpixy F st y1) (tosubpixx F st x2) (tosubpixy F st y2)"
    "m = fl_max F (fl_div F (cv_dbx c) (fl_of F 256)) (fl_div F (cv_dby c) (fl_of F 256))"
  shows "Renderer_quadTo F st r x1 y1 x2 y2 = None"
  using quad_count_stuck [OF assms(1,2), of 16] assms(3,4)
  by (simp add: Renderer_quadTo_def quadBreakIntoLinesAndAdd_def Let_def)

lemma quad_points_length: "length (quad_points F ddx ddy n p x2 y2) = Suc n"
  by (induction F ddx ddy n p x2 y2 rule: quad_points.induct) simp_all

text \<open>The test has no absolute value: however large the second differences are, if they are negative there are sixteen lines.\<close>

lemma quad_sixteen:
  assumes "\<not> fl_less F (fl_of F 32) (fl_div F (cv_dbx c) (fl_of F 256))" "\<not> fl_less F (fl_of F 32) (fl_div F (cv_dby c) (fl_of F 256))"
  shows "\<exists>ls. flatten_quad F x0 y0 c x2 y2 = Some ls \<and> length ls = 16"
proof -
  have "\<not> fl_less F (fl_of F 32) (fl_max F (fl_div F (cv_dbx c) (fl_of F 256)) (fl_div F (cv_dby c) (fl_of F 256)))"
    using assms by (simp add: fl_max_def)
  then show ?thesis by (simp add: flatten_quad_def quad_count.simps quad_points_length Let_def)
qed

partial_function (option) curve_points ::
  "'f prism_floats \<Rightarrow> 'f differences \<Rightarrow> 'f \<Rightarrow> 'f \<Rightarrow> 'f \<Rightarrow> 'f \<Rightarrow> 'f \<Rightarrow> 'f \<Rightarrow> 'f line list option" where
  "curve_points F s x0 y0 x1 y1 x3 y3 =
     (if 0 < df_count s
      then do {
        s \<leftarrow> curve_refine F s;
        s \<leftarrow> curve_coarsen F s;
        let s = s \<lparr> df_count := i32 (df_count s - 1) \<rparr>;
        let (x1, y1, s) = (if 0 < df_count s then (fl_add F x1 (df_dx s), fl_add F y1 (df_dy s), advance_step F s) else (x3, y3, s));
        ls \<leftarrow> curve_points F s x1 y1 x1 y1 x3 y3;
        Some ((x0, y0, x1, y1) # ls) }
      else Some [])"

lemma curve_flattened: "curve_points F s x0 y0 x1 y1 x3 y3 = Some ls \<Longrightarrow> curve_lines F r s x0 y0 x1 y1 x3 y3 = addLines F r ls"
proof (induction arbitrary: r rule: curve_points.raw_induct [rotated, consumes 1, case_names step])
  case (step f F s x0 y0 x1 y1 x3 y3 ls)
  show ?case
  proof (cases "0 < df_count s")
    case False
    then show ?thesis using step(2) by (simp add: curve_lines.simps)
  next
    case True
    then show ?thesis using step by (subst curve_lines.simps) (auto simp: Let_def bind_eq_Some_conv split: prod.splits if_splits)
  qed
qed


section \<open>Consumers of paths\<close>

text \<open>
  A consumer takes the segments of a path one after the other. The contract says that a segment whose lines are known adds
  them to what the consumer holds, for as long as there is room; then a whole path adds all its lines.
\<close>

fun steps :: "('s \<Rightarrow> 'g \<Rightarrow> 's option) \<Rightarrow> 's \<Rightarrow> 'g list \<Rightarrow> 's option" where
  "steps step s [] = Some s"
| "steps step s (g # gs) = do { s \<leftarrow> step s g; steps step s gs }"

fun flats :: "('p \<Rightarrow> 'g \<Rightarrow> ('l list \<times> 'p) option) \<Rightarrow> 'p \<Rightarrow> 'g list \<Rightarrow> ('l list \<times> 'p) option" where
  "flats flat p [] = Some ([], p)"
| "flats flat p (g # gs) = do { (ls, p) \<leftarrow> flat p g; (ks, p) \<leftarrow> flats flat p gs; Some (ls @ ks, p) }"

locale path_consumer =
  fixes step :: "'s \<Rightarrow> 'g \<Rightarrow> 's option" and flat :: "'p \<Rightarrow> 'g \<Rightarrow> ('l list \<times> 'p) option"
    and pen_of :: "'s \<Rightarrow> 'p" and holds :: "'l list \<Rightarrow> 's \<Rightarrow> bool" and limit :: nat
  assumes step_holds: "\<lbrakk> holds ls s; flat (pen_of s) g = Some (ks, p); length ls + length ks < limit \<rbrakk>
    \<Longrightarrow> \<exists>s'. step s g = Some s' \<and> pen_of s' = p \<and> holds (ls @ ks) s'"
begin

lemma steps_hold:
  "\<lbrakk> holds ls s; flats flat (pen_of s) gs = Some (ks, p); length ls + length ks < limit \<rbrakk>
    \<Longrightarrow> \<exists>s'. steps step s gs = Some s' \<and> pen_of s' = p \<and> holds (ls @ ks) s'"
proof (induction gs arbitrary: s ls ks)
  case (Cons g gs)
  obtain l1 q l2 where l: "flat (pen_of s) g = Some (l1, q)" "flats flat q gs = Some (l2, p)" "ks = l1 @ l2"
    using Cons.prems(2) by (auto simp: bind_eq_Some_conv)
  obtain s1 where "step s g = Some s1" "pen_of s1 = q" "holds (ls @ l1) s1"
    using step_holds [OF Cons.prems(1) l(1)] Cons.prems(3) l(3) by auto
  then show ?case using Cons.IH [of "ls @ l1" s1 l2] l(2,3) Cons.prems(3) by auto
qed simp

end

section \<open>Paths\<close>

datatype 'f seg =
    SegMove 'f 'f
  | SegLine 'f 'f
  | SegQuad 'f 'f 'f 'f
  | SegCubic 'f 'f 'f 'f 'f 'f
  | SegClose

fun run_seg :: "'f prism_floats \<Rightarrow> AlphaStatics \<Rightarrow> 'f PrismRenderer \<Rightarrow> 'f seg \<Rightarrow> 'f PrismRenderer option" where
  "run_seg F st r (SegMove x y) = Renderer_moveTo F st r x y"
| "run_seg F st r (SegLine x y) = Renderer_lineTo F st r x y"
| "run_seg F st r (SegQuad x1 y1 x2 y2) = Renderer_quadTo F st r x1 y1 x2 y2"
| "run_seg F st r (SegCubic x1 y1 x2 y2 x3 y3) = Renderer_curveTo F st r x1 y1 x2 y2 x3 y3"
| "run_seg F st r SegClose = Renderer_closePath F st r"

definition run_path :: "'f prism_floats \<Rightarrow> AlphaStatics \<Rightarrow> 'f PrismRenderer \<Rightarrow> 'f seg list \<Rightarrow> 'f PrismRenderer option" where
  "run_path F st r ss = do { r \<leftarrow> steps (run_seg F st) r ss; Renderer_pathDone F st r }"

text \<open>The pen is where the path is, in samples, and where its subpath began, in pixels.\<close>

definition pen :: "'f PrismRenderer \<Rightarrow> 'f \<times> 'f \<times> 'f \<times> 'f" where
  "pen r = (pr_x0 r, pr_y0 r, pr_pix_sx0 r, pr_pix_sy0 r)"

fun seg_lines :: "'f prism_floats \<Rightarrow> AlphaStatics \<Rightarrow> 'f \<times> 'f \<times> 'f \<times> 'f \<Rightarrow> 'f seg \<Rightarrow> ('f line list \<times> 'f \<times> 'f \<times> 'f \<times> 'f) option" where
  "seg_lines F st (x0, y0, sx, sy) (SegMove x y) =
     Some ([(x0, y0, tosubpixx F st sx, tosubpixy F st sy)], tosubpixx F st x, tosubpixy F st y, x, y)"
| "seg_lines F st (x0, y0, sx, sy) (SegLine x y) =
     Some ([(x0, y0, tosubpixx F st x, tosubpixy F st y)], tosubpixx F st x, tosubpixy F st y, sx, sy)"
| "seg_lines F st (x0, y0, sx, sy) (SegQuad x1 y1 x2 y2) = do {
     let xe = tosubpixx F st x2;
     let ye = tosubpixy F st y2;
     ls \<leftarrow> flatten_quad F x0 y0 (Curve_setquad F x0 y0 (tosubpixx F st x1) (tosubpixy F st y1) xe ye) xe ye;
     Some (ls, xe, ye, sx, sy) }"
| "seg_lines F st (x0, y0, sx, sy) (SegCubic x1 y1 x2 y2 x3 y3) = do {
     let xe = tosubpixx F st x3;
     let ye = tosubpixy F st y3;
     ls \<leftarrow> curve_points F (first_differences F (Curve_setcubic F x0 y0 (tosubpixx F st x1) (tosubpixy F st y1)
            (tosubpixx F st x2) (tosubpixy F st y2) xe ye)) x0 y0 x0 y0 xe ye;
     Some (ls, xe, ye, sx, sy) }"
| "seg_lines F st (x0, y0, sx, sy) SegClose =
     Some ([(x0, y0, tosubpixx F st sx, tosubpixy F st sy)], tosubpixx F st sx, tosubpixy F st sy, sx, sy)"

definition path_lines :: "'f prism_floats \<Rightarrow> AlphaStatics \<Rightarrow> 'f \<times> 'f \<times> 'f \<times> 'f \<Rightarrow> 'f seg list \<Rightarrow> 'f line list option" where
  "path_lines F st p ss = do { (ls, p) \<leftarrow> flats (seg_lines F st) p ss; (ks, _) \<leftarrow> seg_lines F st p SegClose; Some (ls @ ks) }"

definition same_bounds :: "'f PrismRenderer \<Rightarrow> 'f PrismRenderer \<Rightarrow> bool" where
  "same_bounds r r' \<longleftrightarrow> pr_boundsMinX r' = pr_boundsMinX r \<and> pr_boundsMinY r' = pr_boundsMinY r \<and> pr_boundsMaxX r' = pr_boundsMaxX r \<and>
     pr_boundsMaxY r' = pr_boundsMaxY r \<and> pr_windingRule r' = pr_windingRule r"

definition adds_lines :: "'f prism_floats \<Rightarrow> 'f edge list \<Rightarrow> 'f line list \<Rightarrow> 'f PrismRenderer \<Rightarrow> 'f PrismRenderer \<Rightarrow> bool" where
  "adds_lines F gs ls r r' \<longleftrightarrow> same_bounds r r' \<and>
     edges_at F (pr_boundsMinY r) (gs @ line_edges F (pr_boundsMinY r) (pr_boundsMaxY r) ls) r' \<and>
     (line_edges F (pr_boundsMinY r) (pr_boundsMaxY r) ls = [] \<longrightarrow>
        pr_sampleRowMin r' = pr_sampleRowMin r \<and> pr_sampleRowMax r' = pr_sampleRowMax r)"

lemma edges_at_pen [simp]:
  "edges_at F y gs (r \<lparr> pr_x0 := a, pr_y0 := b \<rparr>) = edges_at F y gs r" "edges_at F y gs (r \<lparr> pr_c := c \<rparr>) = edges_at F y gs r"
  "edges_at F y gs (r \<lparr> pr_pix_sx0 := u, pr_pix_sy0 := v, pr_y0 := b, pr_x0 := a \<rparr>) = edges_at F y gs r"
  by (simp_all add: edges_at_def rows_ok_def edge_in_def)

text \<open>A segment whose lines are known adds them and moves the pen.\<close>

lemma run_seg_spec:
  assumes ex: "exact_ints F" and E: "edges_at F (pr_boundsMinY r) gs r" and ls: "seg_lines F st (pen r) s = Some (ls, p)"
    and lim: "5 * (length gs + length ls) < 16777216"
  shows "\<exists>r'. run_seg F st r s = Some r' \<and> pen r' = p \<and> adds_lines F gs ls r r'"
proof -
  obtain r1 where r1: "addLines F r ls = Some r1" "same_path r r1"
    "edges_at F (pr_boundsMinY r) (gs @ line_edges F (pr_boundsMinY r) (pr_boundsMaxY r) ls) r1"
    "line_edges F (pr_boundsMinY r) (pr_boundsMaxY r) ls = [] \<longrightarrow> r1 = r"
    using addLines_spec [OF ex E lim] by blast
  have E2: "edges_at F (pr_boundsMinY r) gs (r \<lparr> pr_c := c \<rparr>)" for c using E by simp
  have r2: "\<exists>r2. addLines F (r \<lparr> pr_c := c \<rparr>) ls = Some r2 \<and> same_path r r2 \<and>
    edges_at F (pr_boundsMinY r) (gs @ line_edges F (pr_boundsMinY r) (pr_boundsMaxY r) ls) r2 \<and>
    (line_edges F (pr_boundsMinY r) (pr_boundsMaxY r) ls = [] \<longrightarrow> r2 = r \<lparr> pr_c := c \<rparr>)" for c
    using addLines_spec [OF ex _ lim, of "r \<lparr> pr_c := c \<rparr>"] E2 by (auto simp: same_path_def)
  show ?thesis
  proof (cases s)
    case (SegQuad x1 y1 x2 y2)
    then show ?thesis
      using ls r2 by (fastforce simp: pen_def Renderer_quadTo_def quad_flattened Let_def bind_eq_Some_conv adds_lines_def same_bounds_def same_path_def)
  next
    case (SegCubic x1 y1 x2 y2 x3 y3)
    then show ?thesis
      using ls r2 by (fastforce simp: pen_def Renderer_curveTo_def curveBreakIntoLinesAndAdd_def curve_flattened Let_def bind_eq_Some_conv
          adds_lines_def same_bounds_def same_path_def)
  qed (use ls r1 in \<open>auto simp: pen_def Renderer_moveTo_def Renderer_lineTo_def Renderer_closePath_def Let_def bind_eq_Some_conv
      adds_lines_def same_bounds_def same_path_def\<close>)
qed

text \<open>What a renderer has drawn since it was \<open>r0\<close>.\<close>

definition drawn :: "'f prism_floats \<Rightarrow> 'f PrismRenderer \<Rightarrow> 'f line list \<Rightarrow> 'f PrismRenderer \<Rightarrow> bool" where
  "drawn F r0 ls r \<longleftrightarrow> exact_ints F \<and> adds_lines F [] ls r0 r"

lemma drawn_step:
  assumes "drawn F r0 ls r" "seg_lines F st (pen r) s = Some (ks, p)" "length ls + length ks < 3355444"
  shows "\<exists>r'. run_seg F st r s = Some r' \<and> pen r' = p \<and> drawn F r0 (ls @ ks) r'"
proof -
  let ?gs = "line_edges F (pr_boundsMinY r0) (pr_boundsMaxY r0) ls"
  have ex: "exact_ints F" and A: "adds_lines F [] ls r0 r" using assms(1) by (simp_all add: drawn_def)
  have b: "same_bounds r0 r" "pr_boundsMinY r = pr_boundsMinY r0" "pr_boundsMaxY r = pr_boundsMaxY r0"
    using A by (simp_all add: adds_lines_def same_bounds_def)
  have E: "edges_at F (pr_boundsMinY r) ?gs r" using A b by (simp add: adds_lines_def)
  have "5 * (length ?gs + length ks) < 16777216" using assms(3) line_edges_length [of F "pr_boundsMinY r0" "pr_boundsMaxY r0" ls] by simp
  then obtain r' where "run_seg F st r s = Some r'" "pen r' = p" "adds_lines F ?gs ks r r'" using run_seg_spec [OF ex E assms(2)] by blast
  then show ?thesis using ex A b by (auto simp: drawn_def adds_lines_def same_bounds_def)
qed

interpretation prism: path_consumer "run_seg F st" "seg_lines F st" pen "drawn F r0" 3355444 for F st r0
  by unfold_locales (rule drawn_step)

lemma run_path_spec:
  assumes "exact_ints F" "edges_at F (pr_boundsMinY r) [] r" "path_lines F st (pen r) ss = Some ls" "length ls < 3355444"
  shows "\<exists>r'. run_path F st r ss = Some r' \<and> adds_lines F [] ls r r'"
proof -
  have start: "drawn F r [] r" using assms(1,2) by (simp add: drawn_def adds_lines_def same_bounds_def)
  obtain l1 p l2 q where l: "flats (seg_lines F st) (pen r) ss = Some (l1, p)" "seg_lines F st p SegClose = Some (l2, q)" "ls = l1 @ l2"
    using assms(3) by (auto simp: path_lines_def bind_eq_Some_conv)
  obtain r1 where r1: "steps (run_seg F st) r ss = Some r1" "pen r1 = p" "drawn F r l1 r1"
    using prism.steps_hold [OF start l(1)] assms(4) l(3) by auto
  obtain r2 where "run_seg F st r1 SegClose = Some r2" "drawn F r (l1 @ l2) r2"
    using drawn_step [OF r1(3), of st SegClose l2 q] r1(2) l(2,3) assms(4) by auto
  then show ?thesis using r1(1) l(3) by (simp add: run_path_def Renderer_pathDone_def drawn_def)
qed

text \<open>Without curves the lines are always there.\<close>

fun straight :: "'f seg \<Rightarrow> bool" where
  "straight (SegQuad _ _ _ _) = False"
| "straight (SegCubic _ _ _ _ _ _) = False"
| "straight _ = True"

lemma straight_lines: "list_all straight ss \<Longrightarrow> \<exists>ls q. flats (seg_lines F st) p ss = Some (ls, q) \<and> length ls = length ss"
proof (induction ss arbitrary: p)
  case (Cons s ss)
  obtain l q where l: "seg_lines F st p s = Some ([l], q)" using Cons.prems by (cases p; cases s) auto
  then show ?case using Cons.IH [of q] Cons.prems by auto
next
  case Nil
  then show ?case by (cases p) simp
qed

end
