(* ===== verification/Prism_Fill.thy ===== *)
theory Prism_Fill
  imports Prism_Scan
begin

text \<open>
  Filling a shape: the transformer of \<^verbatim>\<open>native-prism/Transformer.c\<close>, and the functions of
  \<^verbatim>\<open>native-prism/NativePiscesRasterizer.c\<close> that feed a path to the renderer through it and produce the mask.

  The doubles of the transformation are a parameter \<open>D\<close>. The functions of the transformer differ only in how they map a point;
  the table of function pointers is the field \<open>tx_kind\<close>, with \<open>TX_Direct\<close> for the case where \<open>Transformer_init\<close> returns
  its output. The arrays of Java are lists; whether the virtual machine gives access to an array is
  the parameter \<open>acc\<close>, one entry for each call of \<open>GetPrimitiveArrayCritical\<close>. A failure of \<open>feedConsumer\<close> is the message as the
  code has it, and an exception is the class and the detail; \<open>None\<close> is a run that does not return, or one
  that leaves the arrays.
\<close>

section \<open>Transforming coordinates\<close>

record ('f, 'd) double_ops =
  db_of :: "'f \<Rightarrow> 'd"
  db_to :: "'d \<Rightarrow> 'f"
  db_int :: "int \<Rightarrow> 'd"
  db_eq :: "'d \<Rightarrow> 'd \<Rightarrow> bool"
  db_add :: "'d \<Rightarrow> 'd \<Rightarrow> 'd"
  db_mul :: "'d \<Rightarrow> 'd \<Rightarrow> 'd"

datatype tx_kind = TX_Direct | TX_Translate | TX_DeltaScale | TX_ScaleTranslate | TX_DeltaTransform | TX_Transform

record 'd Transformer =
  tx_type :: tx_kind
  tx_mxx :: 'd
  tx_mxy :: 'd
  tx_mxt :: 'd
  tx_myx :: 'd
  tx_myy :: 'd
  tx_myt :: 'd

definition Transformer_init :: "('f, 'd) double_ops \<Rightarrow> 'd \<Rightarrow> 'd \<Rightarrow> 'd \<Rightarrow> 'd \<Rightarrow> 'd \<Rightarrow> 'd \<Rightarrow> 'd Transformer" where
  "Transformer_init D mxx mxy mxt myx myy myt =
     (let zero = (\<lambda>v. db_eq D v (db_int D 0)); one = (\<lambda>v. db_eq D v (db_int D 1));
          kind = (if zero mxy \<and> zero myx
                  then if one mxx \<and> one myy
                       then if zero mxt \<and> zero myt then TX_Direct else TX_Translate
                       else if zero mxt \<and> zero myt then TX_DeltaScale else TX_ScaleTranslate
                  else if zero mxt \<and> zero myt then TX_DeltaTransform else TX_Transform)
      in \<lparr> tx_type = kind, tx_mxx = mxx, tx_mxy = mxy, tx_mxt = mxt, tx_myx = myx, tx_myy = myy, tx_myt = myt \<rparr>)"

definition Translate_point :: "('f, 'd) double_ops \<Rightarrow> 'd Transformer \<Rightarrow> 'f \<Rightarrow> 'f \<Rightarrow> 'f \<times> 'f" where
  "Translate_point D t x y = (db_to D (db_add D (db_of D x) (tx_mxt t)), db_to D (db_add D (db_of D y) (tx_myt t)))"

definition DeltaScale_point :: "('f, 'd) double_ops \<Rightarrow> 'd Transformer \<Rightarrow> 'f \<Rightarrow> 'f \<Rightarrow> 'f \<times> 'f" where
  "DeltaScale_point D t x y = (db_to D (db_mul D (db_of D x) (tx_mxx t)), db_to D (db_mul D (db_of D y) (tx_myy t)))"

definition DeltaTransform_point :: "('f, 'd) double_ops \<Rightarrow> 'd Transformer \<Rightarrow> 'f \<Rightarrow> 'f \<Rightarrow> 'f \<times> 'f" where
  "DeltaTransform_point D t x y =
     (db_to D (db_add D (db_mul D (db_of D x) (tx_mxx t)) (db_mul D (db_of D y) (tx_mxy t))),
      db_to D (db_add D (db_mul D (db_of D x) (tx_myx t)) (db_mul D (db_of D y) (tx_myy t))))"

definition ScaleTranslate_point :: "('f, 'd) double_ops \<Rightarrow> 'd Transformer \<Rightarrow> 'f \<Rightarrow> 'f \<Rightarrow> 'f \<times> 'f" where
  "ScaleTranslate_point D t x y =
     (db_to D (db_add D (db_mul D (db_of D x) (tx_mxx t)) (tx_mxt t)), db_to D (db_add D (db_mul D (db_of D y) (tx_myy t)) (tx_myt t)))"

definition Transform_point :: "('f, 'd) double_ops \<Rightarrow> 'd Transformer \<Rightarrow> 'f \<Rightarrow> 'f \<Rightarrow> 'f \<times> 'f" where
  "Transform_point D t x y =
     (db_to D (db_add D (db_add D (db_mul D (db_of D x) (tx_mxx t)) (db_mul D (db_of D y) (tx_mxy t))) (tx_mxt t)),
      db_to D (db_add D (db_add D (db_mul D (db_of D x) (tx_myx t)) (db_mul D (db_of D y) (tx_myy t))) (tx_myt t)))"

definition tx_point :: "('f, 'd) double_ops \<Rightarrow> 'd Transformer \<Rightarrow> 'f \<Rightarrow> 'f \<Rightarrow> 'f \<times> 'f" where
  "tx_point D t x y =
     (case tx_type t of
        TX_Direct \<Rightarrow> (x, y)
      | TX_Translate \<Rightarrow> Translate_point D t x y
      | TX_DeltaScale \<Rightarrow> DeltaScale_point D t x y
      | TX_ScaleTranslate \<Rightarrow> ScaleTranslate_point D t x y
      | TX_DeltaTransform \<Rightarrow> DeltaTransform_point D t x y
      | TX_Transform \<Rightarrow> Transform_point D t x y)"

definition Transformer_moveTo ::
  "'f prism_floats \<Rightarrow> ('f, 'd) double_ops \<Rightarrow> AlphaStatics \<Rightarrow> 'd Transformer \<Rightarrow> 'f PrismRenderer \<Rightarrow> 'f \<Rightarrow> 'f \<Rightarrow> 'f PrismRenderer option" where
  "Transformer_moveTo F D st t r x0 y0 = (let (x, y) = tx_point D t x0 y0 in Renderer_moveTo F st r x y)"

definition Transformer_lineTo ::
  "'f prism_floats \<Rightarrow> ('f, 'd) double_ops \<Rightarrow> AlphaStatics \<Rightarrow> 'd Transformer \<Rightarrow> 'f PrismRenderer \<Rightarrow> 'f \<Rightarrow> 'f \<Rightarrow> 'f PrismRenderer option" where
  "Transformer_lineTo F D st t r x1 y1 = (let (x, y) = tx_point D t x1 y1 in Renderer_lineTo F st r x y)"

definition Transformer_quadTo ::
  "'f prism_floats \<Rightarrow> ('f, 'd) double_ops \<Rightarrow> AlphaStatics \<Rightarrow> 'd Transformer \<Rightarrow> 'f PrismRenderer \<Rightarrow> 'f \<Rightarrow> 'f \<Rightarrow> 'f \<Rightarrow> 'f \<Rightarrow> 'f PrismRenderer option" where
  "Transformer_quadTo F D st t r xc yc x1 y1 =
     (let (xc, yc) = tx_point D t xc yc; (x1, y1) = tx_point D t x1 y1 in Renderer_quadTo F st r xc yc x1 y1)"

definition Transformer_curveTo ::
  "'f prism_floats \<Rightarrow> ('f, 'd) double_ops \<Rightarrow> AlphaStatics \<Rightarrow> 'd Transformer \<Rightarrow> 'f PrismRenderer \<Rightarrow> 'f \<Rightarrow> 'f \<Rightarrow> 'f \<Rightarrow> 'f \<Rightarrow> 'f \<Rightarrow> 'f
    \<Rightarrow> 'f PrismRenderer option" where
  "Transformer_curveTo F D st t r xc0 yc0 xc1 yc1 x1 y1 =
     (let (xc0, yc0) = tx_point D t xc0 yc0; (xc1, yc1) = tx_point D t xc1 yc1; (x1, y1) = tx_point D t x1 y1
      in Renderer_curveTo F st r xc0 yc0 xc1 yc1 x1 y1)"

section \<open>Feeding a path\<close>

definition SEG_MOVETO :: int where "SEG_MOVETO = 0"
definition SEG_LINETO :: int where "SEG_LINETO = 1"
definition SEG_QUADTO :: int where "SEG_QUADTO = 2"
definition SEG_CUBICTO :: int where "SEG_CUBICTO = 3"
definition SEG_CLOSE :: int where "SEG_CLOSE = 4"

lemmas seg_codes = SEG_MOVETO_def SEG_LINETO_def SEG_QUADTO_def SEG_CUBICTO_def SEG_CLOSE_def

text \<open>One round of the loop over the commands: the failure, the renderer and the offset of the next coordinates.\<close>

definition feed_command ::
  "'f prism_floats \<Rightarrow> ('f, 'd) double_ops \<Rightarrow> AlphaStatics \<Rightarrow> 'd Transformer \<Rightarrow> 'f buf \<Rightarrow> int \<Rightarrow> int \<Rightarrow> 'f PrismRenderer \<Rightarrow> int
    \<Rightarrow> (string option \<times> 'f PrismRenderer \<times> int) option" where
  "feed_command F D st t coords coordSize cmd r off =
     (if cmd = SEG_MOVETO then
        if i32 (off + 2) > coordSize then Some (Some ''[not enough coordinates for moveTo'', r, off)
        else do {
          x0 \<leftarrow> rd coords off; y0 \<leftarrow> rd coords (off + 1);
          r \<leftarrow> Transformer_moveTo F D st t r x0 y0;
          Some (None, r, i32 (off + 2)) }
      else if cmd = SEG_LINETO then
        if i32 (off + 2) > coordSize then Some (Some ''[not enough coordinates for lineTo'', r, off)
        else do {
          x1 \<leftarrow> rd coords off; y1 \<leftarrow> rd coords (off + 1);
          r \<leftarrow> Transformer_lineTo F D st t r x1 y1;
          Some (None, r, i32 (off + 2)) }
      else if cmd = SEG_QUADTO then
        if i32 (off + 4) > coordSize then Some (Some ''[not enough coordinates for quadTo'', r, off)
        else do {
          xc \<leftarrow> rd coords off; yc \<leftarrow> rd coords (off + 1); x1 \<leftarrow> rd coords (off + 2); y1 \<leftarrow> rd coords (off + 3);
          r \<leftarrow> Transformer_quadTo F D st t r xc yc x1 y1;
          Some (None, r, i32 (off + 4)) }
      else if cmd = SEG_CUBICTO then
        if i32 (off + 6) > coordSize then Some (Some ''[not enough coordinates for curveTo'', r, off)
        else do {
          xc0 \<leftarrow> rd coords off; yc0 \<leftarrow> rd coords (off + 1); xc1 \<leftarrow> rd coords (off + 2); yc1 \<leftarrow> rd coords (off + 3);
          x1 \<leftarrow> rd coords (off + 4); y1 \<leftarrow> rd coords (off + 5);
          r \<leftarrow> Transformer_curveTo F D st t r xc0 yc0 xc1 yc1 x1 y1;
          Some (None, r, i32 (off + 6)) }
      else if cmd = SEG_CLOSE then do { r \<leftarrow> Renderer_closePath F st r; Some (None, r, off) }
      else Some (Some ''unrecognized Path segment'', r, off))"

text \<open>The loop runs at most \<open>numCommands\<close> times, and stops at the first failure.\<close>

fun feed_loop ::
  "'f prism_floats \<Rightarrow> ('f, 'd) double_ops \<Rightarrow> AlphaStatics \<Rightarrow> 'd Transformer \<Rightarrow> 'f buf \<Rightarrow> int \<Rightarrow> int buf \<Rightarrow> nat \<Rightarrow> int \<Rightarrow> 'f PrismRenderer \<Rightarrow> int
    \<Rightarrow> (string option \<times> 'f PrismRenderer) option" where
  "feed_loop F D st t coords coordSize commands 0 cmdoff r off = Some (None, r)"
| "feed_loop F D st t coords coordSize commands (Suc n) cmdoff r off = do {
     cmd \<leftarrow> rd commands cmdoff;
     (failure, r, off) \<leftarrow> feed_command F D st t coords coordSize cmd r off;
     (case failure of
        Some msg \<Rightarrow> Some (Some msg, r)
      | None \<Rightarrow> feed_loop F D st t coords coordSize commands n (cmdoff + 1) r off) }"

definition feedConsumer ::
  "'f prism_floats \<Rightarrow> ('f, 'd) double_ops \<Rightarrow> AlphaStatics \<Rightarrow> bool \<times> bool \<Rightarrow> 'd Transformer \<Rightarrow> 'f PrismRenderer \<Rightarrow> 'f list \<Rightarrow> int \<Rightarrow> int list \<Rightarrow> int
    \<Rightarrow> (string option \<times> 'f PrismRenderer) option" where
  "feedConsumer F D st acc t r coordsArray coordSize commandsArray numCommands =
     (if \<not> fst acc then Some (Some '''', r)
      else do {
        (failure, r) \<leftarrow>
          (if \<not> snd acc then Some (Some '''', r)
           else feed_loop F D st t (Some coordsArray) coordSize (Some commandsArray) (nat numCommands) 0 r 0);
        if failure = None then do { r \<leftarrow> Renderer_pathDone F st r; Some (failure, r) } else Some (failure, r) })"

section \<open>Producing the mask\<close>

type_synonym exn = "(string \<times> string) option"

definition NPException :: string where "NPException = ''java/lang/NullPointerException''"
definition AIOOBException :: string where "AIOOBException = ''java/lang/ArrayIndexOutOfBoundsException''"
definition IError :: string where "IError = ''java/lang/InternalError''"

definition failure_exn :: "string \<Rightarrow> exn" where
  "failure_exn failure =
     (case failure of
        [] \<Rightarrow> None
      | c # rest \<Rightarrow> if c = CHR ''['' then Some (AIOOBException, rest) else Some (IError, failure))"

text \<open>The part after the path has been fed, for the bounds that the renderer reports.\<close>

definition fill_mask ::
  "'f prism_floats \<Rightarrow> AlphaStatics \<Rightarrow> int list \<Rightarrow> ScanlineIterator \<Rightarrow> bool \<Rightarrow> 'f PrismRenderer \<Rightarrow> int \<times> int \<times> int \<times> int \<Rightarrow> int list
    \<Rightarrow> (exn \<times> int list) option" where
  "fill_mask F st savedAlpha it0 acc r b msk =
     (let (b0, b1, b2, b3) = b
      in if b0 < b2 \<and> b1 < b3
         then let ac = \<lparr> ac_originX = b0, ac_originY = b1, ac_width = i32 (b2 - b0), ac_height = i32 (b3 - b1), ac_alphas = None \<rparr>
              in if cdiv (int (length msk)) (ac_width ac) < ac_height ac then Some (Some (AIOOBException, ''maskArray''), msk)
                 else if acc
                 then do {
                   (ac, _) \<leftarrow> Renderer_produceAlphas F st savedAlpha it0 r (ac \<lparr> ac_alphas := Some msk \<rparr>);
                   msk \<leftarrow> ac_alphas ac;
                   Some (None, msk) }
                 else Some (None, msk)
         else Some (None, msk))"

definition produceFillAlphas ::
  "'f prism_floats \<Rightarrow> ('f, 'd) double_ops \<Rightarrow> AlphaStatics \<Rightarrow> int list \<Rightarrow> ScanlineIterator \<Rightarrow> bool \<times> bool \<times> bool
    \<Rightarrow> 'f list option \<Rightarrow> int list option \<Rightarrow> int \<Rightarrow> bool \<Rightarrow> 'd \<times> 'd \<times> 'd \<times> 'd \<times> 'd \<times> 'd \<Rightarrow> int list option \<Rightarrow> int list option
    \<Rightarrow> (exn \<times> int list option \<times> int list option) option" where
  "produceFillAlphas F D st savedAlpha it0 acc coordsArray commandsArray numCommands nonzero m boundsArray maskArray =
     (case (coordsArray, commandsArray, boundsArray, maskArray) of
        (None, _, _, _) \<Rightarrow> Some (Some (NPException, ''coordsArray''), boundsArray, maskArray)
      | (_, None, _, _) \<Rightarrow> Some (Some (NPException, ''commandsArray''), boundsArray, maskArray)
      | (_, _, None, _) \<Rightarrow> Some (Some (NPException, ''boundsArray''), boundsArray, maskArray)
      | (_, _, _, None) \<Rightarrow> Some (Some (NPException, ''maskArray''), boundsArray, maskArray)
      | (Some coords, Some commands, Some bounds, Some msk) \<Rightarrow>
          if length bounds < 4 then Some (Some (AIOOBException, ''boundsArray''), boundsArray, maskArray)
          else if int (length commands) < numCommands then Some (Some (AIOOBException, ''commandsArray''), boundsArray, maskArray)
          else do {
            let (mxx, mxy, mxt, myx, myy, myt) = m;
            r \<leftarrow> Renderer_reset F st (Renderer_init F) (bounds ! 0) (bounds ! 1) (i32 (bounds ! 2 - bounds ! 0)) (i32 (bounds ! 3 - bounds ! 1))
                   (if nonzero then WIND_NON_ZERO else WIND_EVEN_ODD);
            (failure, r) \<leftarrow> feedConsumer F D st (fst acc, fst (snd acc)) (Transformer_init D mxx mxy mxt myx myy myt) r
                   coords (int (length coords)) commands numCommands;
            (case failure of
               None \<Rightarrow> do {
                 let (b0, b1, b2, b3) = Renderer_getOutputBounds F st r;
                 (exn, msk) \<leftarrow> fill_mask F st savedAlpha it0 (snd (snd acc)) r (b0, b1, b2, b3) msk;
                 Some (exn, Some ([b0, b1, b2, b3] @ drop 4 bounds), Some msk) }
             | Some msg \<Rightarrow> Some (failure_exn msg, boundsArray, maskArray)) })"

end
