(* ===== verification/Prism_Mask.thy ===== *)
theory Prism_Mask
  imports Prism_Flatten Prism_Fill
begin

text \<open>
  From the arrays that Java passes to the mask it gets back. The commands and coordinates are decoded into a path, the renderer
  starts from an empty list of edges, and the rectangle it reports lies in the one it was given.
\<close>

section \<open>The tables of alphas\<close>

definition tables_ok :: "AlphaStatics \<Rightarrow> bool" where
  "tables_ok st \<longleftrightarrow> (\<forall>t. alphaMap st = Some t \<longrightarrow> t = alpha_table (alphaMax st)) \<and> (\<forall>t. altAlphaMap st = Some t \<longrightarrow> t = alpha_table (altAlphaMax st))"

lemma setMaxAlpha_spec:
  assumes "tables_ok st"
  shows "tables_ok (setMaxAlpha most st)" "alphaMap (setMaxAlpha most st) = Some (alpha_table most)"
  using assms by (auto simp: tables_ok_def setMaxAlpha_def Let_def)

lemma setMaxAlpha_lg [simp]:
  "SUBPIXEL_LG_POSITIONS_X (setMaxAlpha most st) = SUBPIXEL_LG_POSITIONS_X st" "SUBPIXEL_LG_POSITIONS_Y (setMaxAlpha most st) = SUBPIXEL_LG_POSITIONS_Y st"
  "SUBPIXEL_POSITIONS_X (setMaxAlpha most st) = SUBPIXEL_POSITIONS_X st" "SUBPIXEL_POSITIONS_Y (setMaxAlpha most st) = SUBPIXEL_POSITIONS_Y st"
  "SUBPIXEL_MASK_X (setMaxAlpha most st) = SUBPIXEL_MASK_X st" "SUBPIXEL_MASK_Y (setMaxAlpha most st) = SUBPIXEL_MASK_Y st"
  by (simp_all add: setMaxAlpha_def Let_def)

lemma setup_spec:
  assumes "tables_ok st" and lg: "0 \<le> lgx" "0 \<le> lgy" "lgx + lgy \<le> 12"
  shows "tables_ok (Renderer_setup lgx lgy st)" "statics_ok (Renderer_setup lgx lgy st)"
    "SUBPIXEL_LG_POSITIONS_X (Renderer_setup lgx lgy st) = nat lgx" "SUBPIXEL_LG_POSITIONS_Y (Renderer_setup lgx lgy st) = nat lgy"
proof -
  let ?S = "2 ^ nat lgx :: int" and ?T = "2 ^ nat lgy :: int"
  have "?S * ?T = 2 ^ nat (lgx + lgy)" using lg by (simp add: power_add nat_add_distrib)
  also have "\<dots> \<le> 2 ^ 12" using lg by (intro power_increasing) simp_all
  finally have ST: "?S * ?T \<le> 4096" by simp
  have le: "?S \<le> ?S * ?T" "?T \<le> ?S * ?T" "1 \<le> ?S" "1 \<le> ?T" by (simp_all add: mult_le_cancel_left1 mult_le_cancel_right1)
  have small: "i32 v = v" if "0 \<le> v" "v \<le> 4096" for v using that by (simp add: i32_id)
  have i: "i32 ?S = ?S" "i32 ?T = ?T" "i32 (?S - 1) = ?S - 1" "i32 (?T - 1) = ?T - 1" "i32 (?S * ?T) = ?S * ?T"
    by (rule small; use le ST in linarith)+
  have t: "tables_ok (st \<lparr> SUBPIXEL_LG_POSITIONS_X := a, SUBPIXEL_LG_POSITIONS_Y := b, SUBPIXEL_POSITIONS_X := c, SUBPIXEL_POSITIONS_Y := d,
    SUBPIXEL_MASK_X := e, SUBPIXEL_MASK_Y := f \<rparr>)" for a b c d e f
    using assms(1) by (simp add: tables_ok_def)
  show "tables_ok (Renderer_setup lgx lgy st)" "statics_ok (Renderer_setup lgx lgy st)"
    "SUBPIXEL_LG_POSITIONS_X (Renderer_setup lgx lgy st) = nat lgx" "SUBPIXEL_LG_POSITIONS_Y (Renderer_setup lgx lgy st) = nat lgy"
    using ST i setMaxAlpha_spec [OF t] by (simp_all add: Renderer_setup_def Let_def shl_def statics_ok_def)
qed

section \<open>Starting\<close>

text \<open>The rectangle that Java asks for, in pixels.\<close>

definition area_ok :: "AlphaStatics \<Rightarrow> int \<Rightarrow> int \<Rightarrow> int \<Rightarrow> int \<Rightarrow> bool" where
  "area_ok st b0 b1 b2 b3 \<longleftrightarrow> b0 \<le> b2 \<and> b1 \<le> b3 \<and>
     - 16777216 \<le> b0 * SUBPIXEL_POSITIONS_X st \<and> b2 * SUBPIXEL_POSITIONS_X st \<le> 16777216 \<and>
     - 16777216 \<le> b1 * SUBPIXEL_POSITIONS_Y st \<and> b3 * SUBPIXEL_POSITIONS_Y st \<le> 16777216"

lemma scaled_bounds:
  fixes a b S :: int
  assumes "0 < S" "a \<le> b" "- 16777216 \<le> a * S" "b * S \<le> 16777216"
  shows "\<bar>a * S\<bar> \<le> 16777216" "\<bar>b * S\<bar> \<le> 16777216" "a * S \<le> b * S" "\<bar>a\<bar> \<le> 16777216" "\<bar>b\<bar> \<le> 16777216"
proof -
  have le: "a * S \<le> b * S" using assms by (simp add: mult_right_mono)
  then show "\<bar>a * S\<bar> \<le> 16777216" "\<bar>b * S\<bar> \<le> 16777216" "a * S \<le> b * S" using assms by linarith+
  have "\<bar>x\<bar> \<le> \<bar>x\<bar> * S" for x :: int using assms(1) by (simp add: mult_le_cancel_left1)
  then have "\<bar>x\<bar> \<le> \<bar>x * S\<bar>" for x :: int using assms(1) by (simp add: abs_mult)
  then show "\<bar>a\<bar> \<le> 16777216" "\<bar>b\<bar> \<le> 16777216" using le assms by (smt (verit))+
qed

lemma edges_at_empty:
  assumes "rows_ok r" "pr_numEdges r = 0" "pr_edges r = Some es" "pr_edgesSIZE r = int (length es)" "pr_edgeBuckets r = Some bs"
    "2 * nat (pr_boundsMaxY r - pr_boundsMinY r) + 2 \<le> length bs" "\<forall>i<2 * nat (pr_boundsMaxY r - pr_boundsMinY r). bs ! i = 0"
  shows "edges_at F y [] r"
  using assms by (simp add: edges_at_def buckets_ok_def starting_def ptrs_where_def ends_on_def)

lemma reset_spec:
  assumes st: "statics_ok st" and area: "area_ok st b0 b1 b2 b3"
  shows "\<exists>r. Renderer_reset F st (Renderer_init F) b0 b1 (i32 (b2 - b0)) (i32 (b3 - b1)) rule = Some r \<and>
    edges_at F (pr_boundsMinY r) [] r \<and> pr_boundsMinX r = b0 * SUBPIXEL_POSITIONS_X st \<and> pr_boundsMaxX r = b2 * SUBPIXEL_POSITIONS_X st \<and>
    pr_boundsMinY r = b1 * SUBPIXEL_POSITIONS_Y st \<and> pr_boundsMaxY r = b3 * SUBPIXEL_POSITIONS_Y st \<and> pr_windingRule r = rule \<and>
    pen r = (fl_of F 0, fl_of F 0, fl_of F 0, fl_of F 0) \<and> pr_sampleRowMin r = pr_boundsMaxY r \<and> pr_sampleRowMax r = pr_boundsMinY r"
proof -
  let ?S = "SUBPIXEL_POSITIONS_X st" and ?T = "SUBPIXEL_POSITIONS_Y st"
  have pos: "0 < ?S" "0 < ?T" using st by (simp_all add: statics_ok_def)
  have x: "\<bar>b0 * ?S\<bar> \<le> 16777216" "\<bar>b2 * ?S\<bar> \<le> 16777216" "\<bar>b0\<bar> \<le> 16777216" "\<bar>b2\<bar> \<le> 16777216"
    using scaled_bounds [OF pos(1), of b0 b2] area by (simp_all add: area_ok_def)
  have y: "\<bar>b1 * ?T\<bar> \<le> 16777216" "\<bar>b3 * ?T\<bar> \<le> 16777216" "\<bar>b1\<bar> \<le> 16777216" "\<bar>b3\<bar> \<le> 16777216" "b1 * ?T \<le> b3 * ?T"
    using scaled_bounds [OF pos(2), of b1 b3] area by (simp_all add: area_ok_def)
  have i: "i32 (b0 * ?S) = b0 * ?S" "i32 (b2 * ?S) = b2 * ?S" "i32 (b1 * ?T) = b1 * ?T" "i32 (b3 * ?T) = b3 * ?T"
    "i32 (b2 - b0) = b2 - b0" "i32 (b3 - b1) = b3 - b1" "i32 (b3 * ?T - b1 * ?T) = b3 * ?T - b1 * ?T"
    by (rule i32_id; use x y in linarith)+
  let ?nb = "b3 * ?T - b1 * ?T"
  have nb: "0 \<le> ?nb" using y(5) by simp
  let ?bs = "replicate (nat (?nb * 2 + 2)) (0 :: int)"
  let ?es = "replicate (nat (SIZEOF_EDGE * 32)) (fl_of F 0)"
  let ?z = "fl_of F 0"
  let ?r = "Renderer_init F \<lparr> pr_windingRule := rule, pr_boundsMinX := b0 * ?S, pr_boundsMinY := b1 * ?T, pr_boundsMaxX := b2 * ?S, pr_boundsMaxY := b3 * ?T,
    pr_edgeMinX := fl_biggest F, pr_edgeMaxX := fl_neg F (fl_biggest F), pr_sampleRowMax := b1 * ?T, pr_sampleRowMin := b3 * ?T,
    pr_edgeBuckets := Some ?bs, pr_edgeBucketsSIZE := ?nb * 2 + 2, pr_edges := Some ?es, pr_edgesSIZE := SIZEOF_EDGE * 32,
    pr_numEdges := 0, pr_pix_sx0 := ?z, pr_pix_sy0 := ?z, pr_x0 := ?z, pr_y0 := ?z \<rparr>"
  have run: "Renderer_reset F st (Renderer_init F) b0 b1 (i32 (b2 - b0)) (i32 (b3 - b1)) rule = Some ?r"
    unfolding Renderer_reset_def using i nb by (simp add: Renderer_init_def reset_buckets_def new_int_def new_float_def SIZEOF_EDGE_def Let_def)
  have "edges_at F (pr_boundsMinY ?r) [] ?r"
    by (rule edges_at_empty [where es = ?es and bs = ?bs]) (use y nb in \<open>simp_all add: rows_ok_def SIZEOF_EDGE_def abs_le_iff\<close>)
  then show ?thesis using run by (intro exI [of _ ?r]) (simp add: pen_def)
qed

section \<open>Decoding a path\<close>

text \<open>The segment of one command, with the number of coordinates it takes, or the message of the failure.\<close>

definition decode_one :: "('f, 'd) double_ops \<Rightarrow> 'd Transformer \<Rightarrow> 'f list \<Rightarrow> int \<Rightarrow> string + 'f seg \<times> nat" where
  "decode_one D t cs c =
     (let P = (\<lambda>i. tx_point D t (cs ! i) (cs ! (i + 1)))
      in if c = SEG_MOVETO then
           if length cs < 2 then Inl ''[not enough coordinates for moveTo'' else Inr (case_prod SegMove (P 0), 2)
         else if c = SEG_LINETO then
           if length cs < 2 then Inl ''[not enough coordinates for lineTo'' else Inr (case_prod SegLine (P 0), 2)
         else if c = SEG_QUADTO then
           if length cs < 4 then Inl ''[not enough coordinates for quadTo''
           else Inr (SegQuad (fst (P 0)) (snd (P 0)) (fst (P 2)) (snd (P 2)), 4)
         else if c = SEG_CUBICTO then
           if length cs < 6 then Inl ''[not enough coordinates for curveTo''
           else Inr (SegCubic (fst (P 0)) (snd (P 0)) (fst (P 2)) (snd (P 2)) (fst (P 4)) (snd (P 4)), 6)
         else if c = SEG_CLOSE then Inr (SegClose, 0)
         else Inl ''unrecognized Path segment'')"

fun decode :: "('f, 'd) double_ops \<Rightarrow> 'd Transformer \<Rightarrow> 'f list \<Rightarrow> int list \<Rightarrow> 'f seg list \<times> string option" where
  "decode D t cs [] = ([], None)"
| "decode D t cs (c # k) =
     (case decode_one D t cs c of
        Inl msg \<Rightarrow> ([], Some msg)
      | Inr (s, n) \<Rightarrow> apfst ((#) s) (decode D t (drop n cs) k))"

lemma decode_one_takes: "decode_one D t cs c = Inr (s, n) \<Longrightarrow> n \<le> length cs"
  by (auto simp: decode_one_def Let_def split: if_splits)

lemma feed_command_spec:
  assumes size: "length coords < 2147483640" and off: "off \<le> length coords"
  shows "feed_command F D st t (Some coords) (int (length coords)) c r (int off) =
    (case decode_one D t (drop off coords) c of
       Inl msg \<Rightarrow> Some (Some msg, r, int off)
     | Inr (s, n) \<Rightarrow> map_option (\<lambda>r. (None, r, int (off + n))) (run_seg F st r s))"
proof -
  have i: "i32 (int off + 2) = int off + 2" "i32 (int off + 4) = int off + 4" "i32 (int off + 6) = int off + 6"
    using size off by (simp_all add: i32_id)
  have ix: "nat (int off + 1) = off + 1" "nat (int off + 2) = off + 2" "nat (int off + 3) = off + 3" "nat (int off + 4) = off + 4" "nat (int off + 5) = off + 5"
    by simp_all
  consider "c = SEG_MOVETO" | "c = SEG_LINETO" | "c = SEG_QUADTO" | "c = SEG_CUBICTO" | "c = SEG_CLOSE"
    | "c \<notin> {SEG_MOVETO, SEG_LINETO, SEG_QUADTO, SEG_CUBICTO, SEG_CLOSE}" by blast
  then show ?thesis
  proof cases
    case 1
    show ?thesis
      by (cases "tx_point D t (coords ! off) (coords ! (off + 1))")
        (use 1 off i ix in \<open>auto simp: feed_command_def decode_one_def Transformer_moveTo_def map_conv_bind_option comp_def\<close>)
  next
    case 2
    show ?thesis
      by (cases "tx_point D t (coords ! off) (coords ! (off + 1))")
        (use 2 off i ix in \<open>auto simp: feed_command_def decode_one_def Transformer_lineTo_def map_conv_bind_option comp_def seg_codes\<close>)
  next
    case 3
    show ?thesis
      by (cases "tx_point D t (coords ! off) (coords ! (off + 1))"; cases "tx_point D t (coords ! (off + 2)) (coords ! (off + 3))")
        (use 3 off i ix in \<open>auto simp: feed_command_def decode_one_def Transformer_quadTo_def map_conv_bind_option comp_def eval_nat_numeral seg_codes\<close>)
  next
    case 4
    show ?thesis
      by (cases "tx_point D t (coords ! off) (coords ! (off + 1))"; cases "tx_point D t (coords ! (off + 2)) (coords ! (off + 3))";
          cases "tx_point D t (coords ! (off + 4)) (coords ! (off + 5))")
        (use 4 off i ix in \<open>auto simp: feed_command_def decode_one_def Transformer_curveTo_def map_conv_bind_option comp_def eval_nat_numeral seg_codes\<close>)
  next
    case 5
    then show ?thesis by (simp add: feed_command_def decode_one_def map_conv_bind_option comp_def seg_codes)
  next
    case 6
    then show ?thesis by (simp add: feed_command_def decode_one_def)
  qed
qed

text \<open>
  The loop of \<open>feedConsumer\<close> runs the path it decodes, up to the first command that cannot be decoded, and
  never reads a coordinate that is not there.
\<close>

lemma feed_loop_spec:
  assumes size: "length coords < 2147483640" and n: "j + n \<le> length commands" and off: "off \<le> length coords"
  shows "feed_loop F D st t (Some coords) (int (length coords)) (Some commands) n (int j) r (int off)
    = (let (ss, f) = decode D t (drop off coords) (take n (drop j commands)) in map_option (Pair f) (steps (run_seg F st) r ss))"
  using n off
proof (induction n arbitrary: j r off)
  case 0
  then show ?case by simp
next
  case (Suc n)
  let ?c = "commands ! j"
  have cmd: "take (Suc n) (drop j commands) = ?c # take n (drop (Suc j) commands)" "j < length commands"
    using Suc.prems(1) by (simp_all add: Cons_nth_drop_Suc [symmetric])
  show ?case
  proof (cases "decode_one D t (drop off coords) ?c")
    case (Inl msg)
    then show ?thesis using cmd feed_command_spec [OF size Suc.prems(2), of F D st t ?c r] by simp
  next
    case (Inr p)
    obtain s k where p: "p = (s, k)" by (cases p)
    have k: "off + k \<le> length coords" using decode_one_takes [OF Inr [unfolded p]] Suc.prems(2) by simp
    have "feed_loop F D st t (Some coords) (int (length coords)) (Some commands) n (1 + int j) r' (int off + int k)
        = (let (ss, f) = decode D t (drop (off + k) coords) (take n (drop (Suc j) commands)) in map_option (Pair f) (steps (run_seg F st) r' ss))" for r'
      using Suc.IH [of "Suc j" "off + k" r'] Suc.prems(1) k by simp
    then show ?thesis
      using cmd Inr p feed_command_spec [OF size Suc.prems(2), of F D st t ?c r]
      by (cases "run_seg F st r s"; cases "decode D t (drop (off + k) coords) (take n (drop (Suc j) commands))") (auto simp: add.commute)
  qed
qed


section \<open>The rectangle of the output\<close>

text \<open>What the code relies on of floats: small integers are exact, and a conversion gives a \<open>jint\<close>.\<close>

definition float_laws :: "'f prism_floats \<Rightarrow> bool" where
  "float_laws F \<longleftrightarrow> exact_ints F \<and> (\<forall>v. jint_range (fl_ceil F v))"

lemma ceil_div:
  fixes b T v :: int
  assumes "0 < T" "v \<le> b * T"
  shows "(v + (T - 1)) div T \<le> b"
proof -
  have "(v + (T - 1)) div T \<le> (b * T + (T - 1)) div T" using assms by (intro zdiv_mono1) simp_all
  also have "\<dots> = b" using assms(1) by (simp add: div_pos_pos_trivial)
  finally show ?thesis .
qed

lemma floor_div:
  fixes b T v :: int
  assumes "0 < T" "b * T \<le> v"
  shows "b \<le> v div T"
  using zdiv_mono1 [OF assms(2,1)] assms(1) by simp

text \<open>The bounds of the output are those of the renderer in pixels, rounded outwards; where they are not empty, they are inside the area.\<close>

definition in_area :: "AlphaStatics \<Rightarrow> 'f PrismRenderer \<Rightarrow> int \<Rightarrow> int \<Rightarrow> int \<Rightarrow> int \<Rightarrow> bool" where
  "in_area st r b0 b1 b2 b3 \<longleftrightarrow> pr_boundsMinX r = b0 * SUBPIXEL_POSITIONS_X st \<and> pr_boundsMaxX r = b2 * SUBPIXEL_POSITIONS_X st \<and>
     pr_boundsMinY r = b1 * SUBPIXEL_POSITIONS_Y st \<and> pr_boundsMaxY r = b3 * SUBPIXEL_POSITIONS_Y st \<and>
     pr_boundsMinY r \<le> pr_sampleRowMin r \<and> pr_sampleRowMin r \<le> pr_boundsMaxY r \<and> pr_boundsMinY r \<le> pr_sampleRowMax r \<and> pr_sampleRowMax r \<le> pr_boundsMaxY r"

lemma output_bounds:
  assumes F: "float_laws F" and st: "statics_ok st" and area: "area_ok st b0 b1 b2 b3" and r: "in_area st r b0 b1 b2 b3"
    and out: "Renderer_getOutputBounds F st r = (q0, q1, q2, q3)"
  shows "q1 = pr_sampleRowMin r div SUBPIXEL_POSITIONS_Y st" "q3 = (pr_sampleRowMax r + SUBPIXEL_MASK_Y st) div SUBPIXEL_POSITIONS_Y st"
    "b0 \<le> q0" "q2 \<le> b2" "b1 \<le> q1" "q3 \<le> b3"
proof -
  let ?S = "SUBPIXEL_POSITIONS_X st" and ?T = "SUBPIXEL_POSITIONS_Y st"
  have q: "?S = 2 ^ SUBPIXEL_LG_POSITIONS_X st" "?T = 2 ^ SUBPIXEL_LG_POSITIONS_Y st" "SUBPIXEL_MASK_X st = ?S - 1" "SUBPIXEL_MASK_Y st = ?T - 1"
    "?S * ?T \<le> 4096" using st by (auto simp: statics_ok_def)
  have pos: "0 < ?S" "0 < ?T" by (simp_all add: q)
  then have "?S * 1 \<le> ?S * ?T" "1 * ?T \<le> ?S * ?T" by (intro mult_left_mono mult_right_mono; simp)+
  then have small: "?S \<le> 4096" "?T \<le> 4096" using q(5) by simp_all
  have x: "\<bar>b0 * ?S\<bar> \<le> 16777216" "\<bar>b2 * ?S\<bar> \<le> 16777216" using scaled_bounds [OF pos(1), of b0 b2] area by (simp_all add: area_ok_def)
  have y: "\<bar>b1 * ?T\<bar> \<le> 16777216" "\<bar>b3 * ?T\<bar> \<le> 16777216" using scaled_bounds [OF pos(2), of b1 b3] area by (simp_all add: area_ok_def)
  have mn: "b0 * ?S \<le> getSubpixMinX F r" using r by (simp add: getSubpixMinX_def Let_def in_area_def)
  have mx: "getSubpixMaxX F r \<le> b2 * ?S" "- 2147483648 \<le> getSubpixMaxX F r"
    using r F x by (auto simp: getSubpixMaxX_def Let_def in_area_def float_laws_def sample_of_def jint_range_def)
  have ix: "i32 (getSubpixMaxX F r + (?S - 1)) = getSubpixMaxX F r + (?S - 1)"
    by (rule i32_id) (use mx x small pos in linarith)+
  have iy: "i32 (pr_sampleRowMax r + (?T - 1)) = pr_sampleRowMax r + (?T - 1)"
    by (rule i32_id) (use r y small pos in \<open>auto simp: in_area_def abs_le_iff\<close>)
  have o: "q0 = getSubpixMinX F r div ?S" "q1 = pr_sampleRowMin r div ?T" "q2 = (getSubpixMaxX F r + (?S - 1)) div ?S"
    "q3 = (pr_sampleRowMax r + (?T - 1)) div ?T"
    using out ix iy unfolding Renderer_getOutputBounds_def q(3,4) by (simp_all add: sar_def q(1,2))
  show "q1 = pr_sampleRowMin r div ?T" "q3 = (pr_sampleRowMax r + SUBPIXEL_MASK_Y st) div ?T" using o by (simp_all add: q(4))
  show "b0 \<le> q0" unfolding o by (rule floor_div [OF pos(1) mn])
  show "q2 \<le> b2" unfolding o by (rule ceil_div [OF pos(1) mx(1)])
  show "b1 \<le> q1" unfolding o using r by (intro floor_div [OF pos(2)]) (simp add: in_area_def)
  show "q3 \<le> b3" unfolding o using r by (intro ceil_div [OF pos(2)]) (simp add: in_area_def)
qed

text \<open>The rows that edges use, when there are edges.\<close>

definition rows_used :: "'f PrismRenderer \<Rightarrow> bool" where
  "rows_used r \<longleftrightarrow> pr_sampleRowMin r < pr_sampleRowMax r \<or> pr_sampleRowMin r = pr_boundsMaxY r \<and> pr_sampleRowMax r = pr_boundsMinY r"

lemma added_rows:
  assumes "adds_lines F [] ls r r'" "pr_sampleRowMin r = pr_boundsMaxY r" "pr_sampleRowMax r = pr_boundsMinY r"
  shows "rows_used r'"
proof (cases "line_edges F (pr_boundsMinY r) (pr_boundsMaxY r) ls")
  case Nil
  then show ?thesis using assms by (simp add: adds_lines_def rows_used_def same_bounds_def)
next
  case (Cons g gs)
  then have "edge_in r' g" using assms(1) by (simp add: adds_lines_def edges_at_def)
  then show ?thesis by (simp add: edge_in_def rows_used_def)
qed


section \<open>The mask\<close>

text \<open>
  What a fill leaves in the mask, for the rectangle \<open>(q0, q1, q2, q3)\<close> of its output: the first bytes are
  the alphas of the pixels, row by row, from the number of their samples inside the path.
\<close>

definition shape_mask ::
  "'f prism_floats \<Rightarrow> AlphaStatics \<Rightarrow> int \<Rightarrow> 'f edge list \<Rightarrow> int \<times> int \<times> int \<times> int \<Rightarrow> int list \<Rightarrow> int list" where
  "shape_mask F st m gs q msk =
     (let (q0, q1, q2, q3) = q
      in if q0 < q2 \<and> q1 < q3
         then upd_rect 0 (q2 - q0) (q2 - q0) (q3 - q1)
           (\<lambda>j c _. alpha_byte (SUBPIXEL_POSITIONS_X st * SUBPIXEL_POSITIONS_Y st) (pixel_samples F st m gs (q0 + c) (q1 + j))) msk
         else msk)"

lemma fill_mask_spec:
  assumes F: "float_laws F" and st: "statics_ok st" and area: "area_ok st b0 b1 b2 b3" and r: "in_area st r b0 b1 b2 b3"
    and E: "edges_at F (pr_boundsMinY r) gs r" and used: "rows_used r" and saved: "length saved = 1024"
    and msk: "(b2 - b0) * (b3 - b1) \<le> int (length msk)" "length msk < 2147483648"
  shows "fill_mask F st saved it0 True r (Renderer_getOutputBounds F st r) msk
    = Some (None, shape_mask F st (winding_mask r) gs (Renderer_getOutputBounds F st r) msk)"
proof -
  obtain q0 q1 q2 q3 where q: "Renderer_getOutputBounds F st r = (q0, q1, q2, q3)" by (metis prod_cases4)
  note ob = output_bounds [OF F st area r q]
  have pos: "0 < SUBPIXEL_POSITIONS_X st" "0 < SUBPIXEL_POSITIONS_Y st" using st by (simp_all add: statics_ok_def)
  let ?S = "SUBPIXEL_POSITIONS_X st" and ?T = "SUBPIXEL_POSITIONS_Y st"
  have x: "\<bar>b0 * ?S\<bar> \<le> 16777216" "\<bar>b2 * ?S\<bar> \<le> 16777216" "\<bar>b0\<bar> \<le> 16777216" "\<bar>b2\<bar> \<le> 16777216"
    using scaled_bounds [OF pos(1), of b0 b2] area by (simp_all add: area_ok_def)
  have y: "\<bar>b1\<bar> \<le> 16777216" "\<bar>b3\<bar> \<le> 16777216" using scaled_bounds [OF pos(2), of b1 b3] area by (simp_all add: area_ok_def)
  show ?thesis
  proof (cases "q0 < q2 \<and> q1 < q3")
    case False
    then show ?thesis unfolding q by (auto simp: fill_mask_def shape_mask_def)
  next
    case True
    have i: "i32 (q2 - q0) = q2 - q0" "i32 (q3 - q1) = q3 - q1" by (rule i32_id; use ob x y True in linarith)+
    let ?w = "q2 - q0" and ?h = "q3 - q1"
    have "?w * ?h \<le> (b2 - b0) * (b3 - b1)" using True ob by (intro mult_mono) simp_all
    then have fits: "?w * ?h \<le> int (length msk)" using msk(1) by simp
    have "?h * ?w div ?w \<le> int (length msk) div ?w" using fits True by (intro zdiv_mono1) (simp_all add: mult.commute)
    then have len: "\<not> cdiv (int (length msk)) ?w < ?h" using True by (cases msk) (auto simp: cdiv_def sgn_if)
    let ?ac = "\<lparr> ac_originX = q0, ac_originY = q1, ac_width = ?w, ac_height = ?h, ac_alphas = Some msk \<rparr>"
    have sc: "b0 * ?S \<le> q0 * ?S" "q0 * ?S \<le> q2 * ?S" "q2 * ?S \<le> b2 * ?S" using ob True pos(1) by (auto intro: mult_right_mono)
    have jr: "jint_range (q0 * ?S)" "jint_range (q2 * ?S)" unfolding jint_range_def using sc x by auto
    have ac: "consumer_ok st r ?ac msk" using True ob fits msk(2) x jr by (simp add: consumer_ok_def)
    have rows: "pr_sampleRowMin r < pr_sampleRowMax r"
    proof (rule ccontr)
      assume "\<not> ?thesis"
      then have "pr_sampleRowMin r = b3 * ?T" "pr_sampleRowMax r = b1 * ?T" using used r by (auto simp: rows_used_def in_area_def)
      then have "q1 = b3" "q3 \<le> b1" using ob(1,2) pos(2) st ceil_div [OF pos(2), of "b1 * ?T" b1] by (auto simp: statics_ok_def)
      then show False using True area by (simp add: area_ok_def)
    qed
    obtain es where "Renderer_produceAlphas F st saved it0 r ?ac
        = Some (?ac \<lparr> ac_alphas := Some (target F st (winding_mask r) gs ?ac ?h msk) \<rparr>, r \<lparr> pr_edges := es \<rparr>)"
      using produceAlphas_spec [OF _ st E ac rows saved, of it0] F by (auto simp: float_laws_def)
    then show ?thesis unfolding q using True i len by (simp add: fill_mask_def shape_mask_def target_def)
  qed
qed

lemma produceFill_spec:
  assumes F: "float_laws F" and st: "statics_ok st" and area: "area_ok st b0 b1 b2 b3" and saved: "length saved = 1024"
    and msk: "(b2 - b0) * (b3 - b1) \<le> int (length msk)" "length msk < 2147483648"
    and sizes: "length coords < 2147483640" "n \<le> length commands"
    and dec: "decode D (Transformer_init D mxx mxy mxt myx myy myt) coords (take n commands) = (ss, None)"
    and lines: "path_lines F st (fl_of F 0, fl_of F 0, fl_of F 0, fl_of F 0) ss = Some ls" "length ls < 3355444"
  shows "\<exists>q0 q1 q2 q3. produceFillAlphas F D st saved it0 (True, True, True) (Some coords) (Some commands) (int n) nonzero (mxx, mxy, mxt, myx, myy, myt)
      (Some [b0, b1, b2, b3]) (Some msk)
    = Some (None, Some [q0, q1, q2, q3],
        Some (shape_mask F st (if nonzero then -1 else 1)
          (line_edges F (b1 * SUBPIXEL_POSITIONS_Y st) (b3 * SUBPIXEL_POSITIONS_Y st) ls) (q0, q1, q2, q3) msk)) \<and>
    b0 \<le> q0 \<and> b1 \<le> q1 \<and> q2 \<le> b2 \<and> q3 \<le> b3"
proof -
  let ?rule = "if nonzero then WIND_NON_ZERO else WIND_EVEN_ODD" and ?t = "Transformer_init D mxx mxy mxt myx myy myt"
  let ?gs = "line_edges F (b1 * SUBPIXEL_POSITIONS_Y st) (b3 * SUBPIXEL_POSITIONS_Y st) ls"
  obtain r where r: "Renderer_reset F st (Renderer_init F) b0 b1 (i32 (b2 - b0)) (i32 (b3 - b1)) ?rule = Some r"
    "edges_at F (pr_boundsMinY r) [] r" "pr_boundsMinX r = b0 * SUBPIXEL_POSITIONS_X st" "pr_boundsMaxX r = b2 * SUBPIXEL_POSITIONS_X st"
    "pr_boundsMinY r = b1 * SUBPIXEL_POSITIONS_Y st" "pr_boundsMaxY r = b3 * SUBPIXEL_POSITIONS_Y st" "pr_windingRule r = ?rule"
    "pen r = (fl_of F 0, fl_of F 0, fl_of F 0, fl_of F 0)" "pr_sampleRowMin r = pr_boundsMaxY r" "pr_sampleRowMax r = pr_boundsMinY r"
    using reset_spec [OF st area] by blast
  have ex: "exact_ints F" using F by (simp add: float_laws_def)
  obtain r' where r': "run_path F st r ss = Some r'" "adds_lines F [] ls r r'"
    using run_path_spec [OF ex r(2), of st ss ls] lines r(8) by auto
  have E: "edges_at F (pr_boundsMinY r') ?gs r'" using r'(2) r(5,6) by (simp add: adds_lines_def same_bounds_def)
  have used: "rows_used r'" by (rule added_rows [OF r'(2) r(9,10)])
  have in_a: "in_area st r' b0 b1 b2 b3"
    using E used r'(2) r(3-6) by (auto simp: in_area_def adds_lines_def same_bounds_def edges_at_def rows_ok_def rows_used_def)
  obtain q0 q1 q2 q3 where q: "Renderer_getOutputBounds F st r' = (q0, q1, q2, q3)" by (metis prod_cases4)
  have wm: "winding_mask r' = (if nonzero then -1 else 1)"
    using r'(2) r(7) by (simp add: winding_mask_def adds_lines_def same_bounds_def WIND_EVEN_ODD_def WIND_NON_ZERO_def)
  have feed: "feedConsumer F D st (True, True) ?t r coords (int (length coords)) commands (int n) = Some (None, r')"
    using feed_loop_spec [OF sizes(1), of 0 n commands 0 F D st ?t r] sizes(2) dec r'(1)
    by (cases "steps (run_seg F st) r ss") (simp_all add: feedConsumer_def run_path_def)
  have fm: "fill_mask F st saved it0 True r' (q0, q1, q2, q3) msk = Some (None, shape_mask F st (if nonzero then -1 else 1) ?gs (q0, q1, q2, q3) msk)"
    using fill_mask_spec [OF F st area in_a E used saved msk, of it0] unfolding q wm .
  show ?thesis
    using r(1) feed q fm output_bounds(3-6) [OF F st area in_a q] sizes(2)
    by (intro exI [of _ q0] exI [of _ q1] exI [of _ q2] exI [of _ q3]) (simp add: produceFillAlphas_def Let_def eval_nat_numeral)
qed


text \<open>A path that cannot be decoded: the exception says why, and the arrays of Java are as they were.\<close>

lemma produceFill_failure:
  assumes ex: "exact_ints F" and st: "statics_ok st" and area: "area_ok st b0 b1 b2 b3"
    and sizes: "length coords < 2147483640" "n \<le> length commands"
    and dec: "decode D (Transformer_init D mxx mxy mxt myx myy myt) coords (take n commands) = (ss, Some msg)"
    and lines: "flats (seg_lines F st) (fl_of F 0, fl_of F 0, fl_of F 0, fl_of F 0) ss = Some (ls, p)" "length ls < 3355444"
  shows "produceFillAlphas F D st saved it0 (True, True, acc) (Some coords) (Some commands) (int n) nonzero (mxx, mxy, mxt, myx, myy, myt)
      (Some [b0, b1, b2, b3]) (Some msk) = Some (failure_exn msg, Some [b0, b1, b2, b3], Some msk)"
proof -
  let ?rule = "if nonzero then WIND_NON_ZERO else WIND_EVEN_ODD" and ?t = "Transformer_init D mxx mxy mxt myx myy myt"
  obtain r where r: "Renderer_reset F st (Renderer_init F) b0 b1 (i32 (b2 - b0)) (i32 (b3 - b1)) ?rule = Some r"
    "edges_at F (pr_boundsMinY r) [] r" "pen r = (fl_of F 0, fl_of F 0, fl_of F 0, fl_of F 0)"
    using reset_spec [OF st area] by blast
  have "drawn F r [] r" using ex r(2) by (simp add: drawn_def adds_lines_def same_bounds_def)
  then obtain r' where "steps (run_seg F st) r ss = Some r'" using prism.steps_hold [of F r "[]" r st ss ls p] lines r(3) by auto
  then have "feedConsumer F D st (True, True) ?t r coords (int (length coords)) commands (int n) = Some (Some msg, r')"
    using feed_loop_spec [OF sizes(1), of 0 n commands 0 F D st ?t r] sizes(2) dec by (simp add: feedConsumer_def)
  then show ?thesis using r(1) sizes(2) by (simp add: produceFillAlphas_def Let_def eval_nat_numeral)
qed

lemma decode_messages: "snd (decode D t cs k) = Some msg \<Longrightarrow> failure_exn msg \<noteq> None"
proof (induction D t cs k rule: decode.induct)
  case (2 D t cs c k)
  have one: "decode_one D t cs c = Inl m \<Longrightarrow> failure_exn m \<noteq> None" for m
    by (auto simp: decode_one_def failure_exn_def Let_def split: if_splits)
  show ?case
  proof (cases "decode_one D t cs c")
    case (Inl m)
    then show ?thesis using one 2(2) by simp
  next
    case (Inr q)
    then show ?thesis using 2 by (cases q) simp
  qed
qed simp

end
