(* ===== verification/Prism_Demo.thy ===== *)
theory Prism_Demo
  imports Complex_Main Prism_Mask
begin

text \<open>Rational numbers as floats, rationals with one infinite value, and a small triangle, for the witnesses.\<close>

definition demo_floats :: "rat prism_floats" where
  "demo_floats = \<lparr> fl_of = of_int, fl_to = (\<lambda>x. if x < 0 then - \<lfloor>- x\<rfloor> else \<lfloor>x\<rfloor>), fl_ceil = (\<lambda>x. max (- 2147483648) (min 2147483647 \<lceil>x\<rceil>)),
     fl_less = (<), fl_le = (\<le>), fl_add = (+), fl_sub = (-), fl_mul = (*), fl_div = (/), fl_neg = uminus, fl_abs = abs,
     fl_half = 1 / 2, fl_biggest = 2 ^ 127, fl_inc_bnd = 2 / 5 \<rparr>"

definition demo_doubles :: "(rat, rat) double_ops" where
  "demo_doubles = \<lparr> db_of = (\<lambda>x. x), db_to = (\<lambda>x. x), db_int = of_int, db_eq = (=), db_add = (+), db_mul = (*) \<rparr>"

lemma demo_float_laws: "float_laws demo_floats"
  by (auto simp: float_laws_def exact_ints_def demo_floats_def jint_range_def floor_minus)

definition demo_statics0 :: AlphaStatics where
  "demo_statics0 = \<lparr> SUBPIXEL_LG_POSITIONS_X = 0, SUBPIXEL_LG_POSITIONS_Y = 0, SUBPIXEL_POSITIONS_X = 0, SUBPIXEL_POSITIONS_Y = 0,
     SUBPIXEL_MASK_X = 0, SUBPIXEL_MASK_Y = 0, alphaMap = None, alphaMax = 0, altAlphaMap = None, altAlphaMax = 0 \<rparr>"

definition demo_statics :: AlphaStatics where
  "demo_statics = Renderer_setup 1 1 demo_statics0"

lemma demo_tables_ok: "tables_ok demo_statics0"
  by (simp add: demo_statics0_def tables_ok_def)

lemma demo_statics_ok: "statics_ok demo_statics"
  unfolding demo_statics_def by (rule setup_spec [OF demo_tables_ok]) simp_all

lemma demo_statics_lg [simp]:
  "SUBPIXEL_LG_POSITIONS_X demo_statics = 1" "SUBPIXEL_LG_POSITIONS_Y demo_statics = 1"
  "SUBPIXEL_POSITIONS_X demo_statics = 2" "SUBPIXEL_POSITIONS_Y demo_statics = 2"
  by (simp_all add: demo_statics_def demo_statics0_def Renderer_setup_def Let_def shl_def i32_def)

text \<open>The triangle with the corners \<open>(0, 0)\<close>, \<open>(2, 0)\<close> and \<open>(0, 2)\<close>.\<close>

definition demo_coords :: "rat list" where
  "demo_coords = [0, 0, 2, 0, 0, 2]"

definition demo_commands :: "int list" where
  "demo_commands = [SEG_MOVETO, SEG_LINETO, SEG_LINETO, SEG_CLOSE]"

definition demo_path :: "rat seg list" where
  "demo_path = [SegMove 0 0, SegLine 2 0, SegLine 0 2, SegClose]"

definition demo_lines :: "rat line list" where
  "demo_lines = [(0, 0, 0, 0), (0, 0, 4, 0), (4, 0, 0, 4), (0, 4, 0, 0), (0, 0, 0, 0)]"

lemma demo_decode: "decode demo_doubles (Transformer_init demo_doubles 1 0 0 0 1 0) demo_coords (take 4 demo_commands) = (demo_path, None)"
  by (simp add: demo_coords_def demo_commands_def demo_path_def decode_one_def seg_codes Let_def Transformer_init_def demo_doubles_def
      tx_point_def eval_nat_numeral)

lemma demo_path_lines:
  "path_lines demo_floats demo_statics (fl_of demo_floats 0, fl_of demo_floats 0, fl_of demo_floats 0, fl_of demo_floats 0) demo_path = Some demo_lines"
  by (simp add: path_lines_def demo_path_def demo_lines_def tosubpixx_def tosubpixy_def demo_floats_def)

lemma demo_area: "area_ok demo_statics 0 0 2 2"
  by (simp add: area_ok_def)

definition demo_iterator :: ScanlineIterator where
  "demo_iterator = \<lparr> it_crossings = None, it_crossingsSIZE = 0, it_edgePtrs = None, it_edgePtrsSIZE = 0, it_edgeCount = 0, it_nextY = 0 \<rparr>"

text \<open>A renderer with the edges of the triangle, two of its lines.\<close>

abbreviation demo_edges :: "rat edge list" where
  "demo_edges \<equiv> line_edges demo_floats 0 4 demo_lines"

lemma demo_ceilings: "\<lceil>- (1 / 2) :: rat\<rceil> = 0" "\<lceil>7 / 2 :: rat\<rceil> = 4"
  by (simp_all add: ceiling_eq_iff)

lemma demo_edges_eq: "demo_edges = [\<lparr> ge_first = 0, ge_last = 4, ge_up = True, ge_x = 7 / 2, ge_slope = - 1 \<rparr>,
    \<lparr> ge_first = 0, ge_last = 4, ge_up = False, ge_x = 0, ge_slope = 0 \<rparr>]"
  by (simp add: demo_lines_def rising_edge_def demo_floats_def sample_of_def demo_ceilings Let_def)

lemma demo_renderer:
  "\<exists>r. edges_at demo_floats 0 demo_edges r \<and> pr_boundsMinY r = 0 \<and> pr_boundsMaxY r = 4 \<and> pr_sampleRowMin r = 0"
proof -
  let ?F = demo_floats
  have ex: "exact_ints ?F" using demo_float_laws by (simp add: float_laws_def)
  obtain r where r: "edges_at ?F (pr_boundsMinY r) [] r" "pr_boundsMinY r = 0" "pr_boundsMaxY r = 4" "pen r = (fl_of ?F 0, fl_of ?F 0, fl_of ?F 0, fl_of ?F 0)"
    using reset_spec [OF demo_statics_ok demo_area, of ?F 0] by auto
  have len: "length demo_lines < 3355444" by (simp add: demo_lines_def)
  obtain r' where "adds_lines ?F [] demo_lines r r'"
    using run_path_spec [OF ex r(1), of demo_statics demo_path demo_lines] demo_path_lines r(4) len by auto
  then have E: "edges_at ?F 0 demo_edges r'" "pr_boundsMinY r' = 0" "pr_boundsMaxY r' = 4"
    using r(2,3) by (simp_all add: adds_lines_def same_bounds_def)
  then have "pr_sampleRowMin r' = 0" by (auto simp: demo_edges_eq edges_at_def edge_in_def rows_ok_def)
  then show ?thesis using E by blast
qed

text \<open>Floats with an infinite value, \<open>None\<close>, that division by a finite one leaves alone.\<close>

definition lift2 :: "(rat \<Rightarrow> rat \<Rightarrow> rat) \<Rightarrow> rat option \<Rightarrow> rat option \<Rightarrow> rat option" where
  "lift2 f a b = (case (a, b) of (Some x, Some y) \<Rightarrow> Some (f x y) | _ \<Rightarrow> None)"

definition inf_floats :: "rat option prism_floats" where
  "inf_floats = \<lparr> fl_of = (\<lambda>n. Some (of_int n)), fl_to = (\<lambda>x. case x of Some v \<Rightarrow> \<lfloor>v\<rfloor> | None \<Rightarrow> - 2147483648),
     fl_ceil = (\<lambda>x. case x of Some v \<Rightarrow> max (- 2147483648) (min 2147483647 \<lceil>v\<rceil>) | None \<Rightarrow> - 2147483648),
     fl_less = (\<lambda>a b. case (a, b) of (Some x, Some y) \<Rightarrow> x < y | (Some _, None) \<Rightarrow> True | _ \<Rightarrow> False),
     fl_le = (\<lambda>a b. case (a, b) of (Some x, Some y) \<Rightarrow> x \<le> y | (_, None) \<Rightarrow> True | _ \<Rightarrow> False),
     fl_add = lift2 (+), fl_sub = lift2 (-), fl_mul = lift2 (*), fl_div = lift2 (/), fl_neg = map_option uminus, fl_abs = map_option abs,
     fl_half = Some (1 / 2), fl_biggest = Some (2 ^ 127), fl_inc_bnd = Some (2 / 5) \<rparr>"

end
