(* ===== verification/Spec2Isabelle.thy ===== *)
theory Spec2Isabelle
  imports JFX_Demo Flv_Demo Color_Convert Hls_Demo Prism_Demo
begin

text \<open>
  \<^bold>\<open>Native code of JavaFX.\<close> This library models three parts of the C code of OpenJFX and states what makes them correct: the back end of
  the software renderer, the demuxer for Flash video, and the elements that convert and buffer media. All paths are under
  \<^verbatim>\<open>src/modules\<close>.

  \<^bold>\<open>The renderer\<close> (\<^verbatim>\<open>javafx.graphics/src/main/native-prism-sw\<close>). A Java object \<open>PiscesRenderer\<close> owns a native \<open>Renderer\<close> (its modes, colour, paint,
  transform, clip, alpha row and mask) and draws into a \<open>JavaSurface\<close>, an \<open>int[]\<close> of premultiplied
  ARGB pixels. Each native method acquires the surface, validates the renderer (which picks the
  blitting routines the current modes call for), generates paint when the paint is not a flat
  colour, blits with the routine picked, releases the surface and reports a memory error.

  \<^bold>\<open>The media elements\<close> (\<^verbatim>\<open>javafx.media/src/main/native/gstreamer/plugins\<close> and \<^verbatim>\<open>.../jfxmedia/Utils\<close>). A download arrives in the
  progress buffer, or in the HLS progress buffer when it comes in segments; both keep it in files through the file cache and have a task
  that pushes it on. The Flash demuxer cuts the bytes into tags, reads the script data, builds an index of keyframes and pushes audio and video
  packets. The colour converter turns decoded frames into BGRA pixels. The elements talk to GStreamer through calls and events; a log in their
  state records what they send.

  \<^bold>\<open>The theories of the renderer\<close>, in the order of their dependencies:
  \<^item> \<^verbatim>\<open>JFX_Prelude\<close>: 32-bit arithmetic with the wrap-around written out (\<open>i32\<close>), checked array
    access (\<open>rd\<close>, \<open>wr\<close>: an access outside the array gives \<open>None\<close>), bitwise facts, bounded loops and
    their rules, rectangles of an array.
  \<^item> \<^verbatim>\<open>Pisces_Blend\<close> (\<^verbatim>\<open>PiscesBlit.c\<close>, the pixel kernels): \<open>div255\<close>, the blending of one pixel
    for each composite rule, and the invariant \<open>premul\<close>: each channel is at most alpha.
  \<^item> \<^verbatim>\<open>Pisces_State\<close> (\<^verbatim>\<open>PiscesRenderer.h\<close>, \<^verbatim>\<open>PiscesSurface.h\<close>): the records of the renderer, the
    surface and the transform with the constants of their modes.
  \<^item> \<^verbatim>\<open>Pisces_Rows\<close>: the locale of row loops that several blitting routines share.
  \<^item> \<^verbatim>\<open>Pisces_Blit\<close> (\<^verbatim>\<open>PiscesBlit.c\<close>): every routine that writes rows of pixels: antialiased rows,
    masks, lines, LCD masks, clearing. The lemmas say which pixel is written with what, and that
    every access is inside its array.
  \<^item> \<^verbatim>\<open>Pisces_Math\<close> (\<^verbatim>\<open>PiscesMath.c\<close>, \<^verbatim>\<open>PiscesTransform.c\<close>, \<^verbatim>\<open>PiscesUtil.c\<close>): the sine table and its
    range reduction, fixed-point transforms, the conversion of float bits to 16.16 fixed point.
  \<^item> \<^verbatim>\<open>Pisces_Paint\<close> (\<^verbatim>\<open>PiscesPaint.c\<close>): linear and radial gradients, textures with and without
    interpolation and repetition, and the product of a texture with another paint.
  \<^item> \<^verbatim>\<open>Pisces_Renderer\<close> (\<^verbatim>\<open>PiscesRenderer.inl\<close>): the setters, the lazily validated function pointers
    as values of a datatype, the steps of the renderer and its reachable states.
  \<^item> \<^verbatim>\<open>Pisces_JNI\<close> (\<^verbatim>\<open>JNIUtil.c\<close>, \<^verbatim>\<open>JTransform.c\<close>, \<^verbatim>\<open>JAbstractSurface.c\<close>, \<^verbatim>\<open>JJavaSurface.c\<close>): the Java
    side of a call as a record (pending exception, array, memory flag), surfaces, \<open>getRGB\<close>, \<open>setRGB\<close>.
  \<^item> \<^verbatim>\<open>Pisces_Draw\<close> (\<^verbatim>\<open>JPiscesRenderer.c\<close>): the drawing methods. The locale \<open>band_fill\<close> is what
    \<open>fillRect\<close> relies on in a routine that emits a line; it is interpreted on the flat SrcOver routine.
  \<^item> \<^verbatim>\<open>JFX_Demo\<close>: a concrete surface, renderer and VM for the witnesses.

  \<^bold>\<open>The theories of the media elements:\<close>
  \<^item> \<^verbatim>\<open>Gst_Core\<close>: the result codes, formats and pad modes of GStreamer that the elements use.
  \<^item> \<^verbatim>\<open>Flv_Parser\<close> (\<^verbatim>\<open>flvparser.c\<close>): the readers of the header, of tag prefixes, of audio and video tags and of script data, on a block of bytes
    with a position; every access is checked against the block.
  \<^item> \<^verbatim>\<open>Flv_Metadata\<close> (\<^verbatim>\<open>flvmetadata.c\<close>): the handlers that read a script object into the element's tags and keyframe table, and the skipping
    of nested values. \<open>FLV_READ_DOUBLE_BE\<close> is modelled as on a little-endian machine.
  \<^item> \<^verbatim>\<open>Flv_Demux\<close> (\<^verbatim>\<open>flvdemux.c\<close>): the element: the loop over buffered blocks, audio and video tags, pads, the sorted index of keyframes,
    seeking, pull mode, and state changes.
  \<^item> \<^verbatim>\<open>Flv_Stream\<close>: the invariants of the element, that the loop returns for all bytes, and that it does not matter how the bytes are cut into buffers.
  \<^item> \<^verbatim>\<open>Flv_File\<close>: files as lists of tags, their encoding, and that demuxing an encoded file gives back its packets and keyframes.
  \<^item> \<^verbatim>\<open>Flv_Demo\<close>: concrete files and elements for the witnesses.
  \<^item> \<^verbatim>\<open>Color_Convert\<close> (\<^verbatim>\<open>ColorConverter.c\<close>): the tables and the portable conversions of 4:2:0 and 4:2:2 frames; the lemmas say which byte
    of the destination is written with what, in which order the pixels are visited does not matter. The locale \<open>alpha_setter\<close> is what the
    loop relies on in the way alpha is found; it is interpreted for opaque frames and for frames with a plane of alpha.
  \<^item> \<^verbatim>\<open>File_Cache\<close> (\<^verbatim>\<open>posix/filecache.c\<close>): the file with its two handles; the locale \<open>byte_queue\<close> states its contract and is interpreted on it.
  \<^item> \<^verbatim>\<open>Progress_Buffer\<close> (\<^verbatim>\<open>progressbuffer.c\<close>): the handlers of the element; those that wait or push without the lock are step functions
    with the places between two sections as a datatype.
  \<^item> \<^verbatim>\<open>Progress_Stream\<close>: source and task as a step relation in every interleaving, with the invariant that says where each byte is.
  \<^item> \<^verbatim>\<open>Progress_Pull\<close>: ranges asked for in pull mode and the thread that announces them. \<^verbatim>\<open>Progress_Demo\<close>: concrete runs.
  \<^item> \<^verbatim>\<open>Hls_Buffer\<close> (\<^verbatim>\<open>hlsprogressbuffer.c\<close>): the handlers of the element for segments, in the same style.
  \<^item> \<^verbatim>\<open>Hls_Ring\<close>: the three caches as a ring of segments. \<^verbatim>\<open>Hls_Stream\<close>: the two threads, their invariant, delivery, the end of the
    stream and a lost signal. \<^verbatim>\<open>Hls_Demo\<close>: concrete runs.

  \<^bold>\<open>What is shown.\<close> For the renderer: what each drawing method does to each pixel, that surfaces stay premultiplied, that lazily chosen routines are
  the right ones, and that all accesses are inside their arrays. For the demuxer: that it returns for any bytes without an access outside a block, that it
  recovers the packets of a file, and what its index means. For the converter: every byte of the result. For the buffers: that the file cache
  is a queue, that every interleaving delivers the bytes in order and the end of the stream last, and when the end is reached. Where
  the code does not do what it should, a theorem shows it: reads outside of a table, a lost end of stream, a wait that does not end.

  \<^bold>\<open>Parameters.\<close> The Java VM (array length and contents, results of \<open>NewObject\<close>), the float arithmetic
  of the gradients and of the bandwidth estimate (\<open>pb_dbl\<close>), \<open>pow\<close> of the gamma tables, the results of GStreamer and system calls
  (\<open>G\<close>, \<open>pb_env\<close>, \<open>hls_env\<close>, \<open>cache_io\<close>), the conversion of doubles and the contents of memory that was not initialised are not code of the
  repository: they are arguments of the definitions that use them, and what a property needs of them is a hypothesis.

  \<^bold>\<open>Loops.\<close> A loop over rows, pixels or the bytes of a tag runs a number of times that is known when it starts and is a recursion over
  that number, written with \<open>nat\<close> of the C counter; the range reduction of the
  sine is a recursion with a termination proof. The loop of the demuxer over its input is a \<open>partial_function\<close> whose totality is a theorem;
  reading nested script data takes as fuel the number of remaining bytes plus one, which is enough because every value takes a byte.
  The threads of the buffers are step functions that run for any sequence of steps; the theorems that they finish give the number of
  steps, \<open>2 n + 3\<close> or \<open>2 n + 2\<close> for \<open>n\<close> bytes, as each buffer takes a step to be read and a step to be pushed and has at least one byte.

  \<^bold>\<open>Not modelled.\<close> Freeing of memory (finalizers, \<open>renderer_dispose\<close>, \<open>destroy_cache\<close>), the registration of GStreamer classes, the pure float functions
  (\<open>asin\<close>, \<open>acos\<close>, \<open>btan\<close>, \<open>ceil\<close>), the vector instructions of the colour converter, the Windows cache, and the rest of the
  repository: the Java source and MPEG-TS elements, which call into Java and vendored code for most of what they do, bindings to OpenGL, Direct3D,
  libjpeg, FreeType and GStreamer, the window toolkits and the vendored WebKit and GLib.
\<close>

section \<open>Filling rectangles\<close>

text \<open>
  C1. Filling a rectangle with a flat colour under SrcOver: \<open>fillRectImpl\<close> returns, no exception is
  pending, and each pixel of the surface is what the specification of the rectangle says. A pixel
  that lies in the clip and is overlapped by the rectangle is blended with the colour, its coverage
  computed from the exact horizontal and vertical overlap; every other pixel keeps its value.
\<close>

theorem fillRectImpl_correct:
  assumes "surface_ok v w" "clip_ok w" "flat_over (w_rdr w)"
    and "jint_range x" "0 < wd" "x + wd < 2147483648" "jint_range y" "0 < h" "y + h < 2147483648"
  shows "\<exists>w'. fillRectImpl v w x y wd h = Some w' \<and> w_exc w' = None \<and> \<not> w_memerr w' \<and>
    w_array w' = fill_spec (w_rdr w) (s_width (w_surface w)) x y wd h (w_array w)"
  by (rule fillRectImpl_flat [OF assms])

theorem fillRectImpl_correct_witness:
  "\<exists>w'. fillRectImpl demo_jvm demo_world 32768 32768 65536 65536 = Some w' \<and> w_exc w' = None \<and> \<not> w_memerr w' \<and>
    w_array w' = fill_spec (w_rdr demo_world) (s_width (w_surface demo_world)) 32768 32768 65536 65536 (w_array demo_world)"
  using demo_flat_over
  by (intro fillRectImpl_correct demo_surface_ok demo_clip_ok) (simp_all add: jint_range_def demo_world_def)

text \<open>
  C2. The surface stays premultiplied: if every pixel holds a premultiplied colour before a flat fill,
  every pixel does afterwards, the size of the surface is unchanged, and so is every pixel outside
  the clip rectangle.
\<close>

theorem fillRectImpl_premultiplied:
  assumes "surface_ok v w" "clip_ok w" "flat_over (w_rdr w)"
    and "jint_range x" "0 < wd" "x + wd < 2147483648" "jint_range y" "0 < h" "y + h < 2147483648"
    and px: "\<forall>p\<in>set (w_array w). premul p"
  shows "\<exists>w'. fillRectImpl v w x y wd h = Some w' \<and> length (w_array w') = length (w_array w) \<and>
    (\<forall>p\<in>set (w_array w'). premul p) \<and>
    (\<forall>i < length (w_array w). int i mod s_width (w_surface w) < r_clip_bbMinX (w_rdr w) \<or>
       int i div s_width (w_surface w) < r_clip_bbMinY (w_rdr w) \<longrightarrow> w_array w' ! i = w_array w ! i)"
proof -
  obtain w' where w': "fillRectImpl v w x y wd h = Some w'"
    "w_array w' = fill_spec (w_rdr w) (s_width (w_surface w)) x y wd h (w_array w)"
    using fillRectImpl_flat [OF assms(1-9)] by blast
  have "\<forall>p\<in>set (w_array w'). premul p"
    unfolding w'(2) fill_spec_def using premul_fill_px [OF assms(3)] px by auto
  then show ?thesis using w' by (auto simp: fill_spec_def fill_px_def)
qed

theorem fillRectImpl_premultiplied_witness:
  "\<exists>w'. fillRectImpl demo_jvm demo_world 32768 32768 65536 65536 = Some w' \<and>
    length (w_array w') = length (w_array demo_world) \<and> (\<forall>p\<in>set (w_array w'). premul p)"
  using fillRectImpl_premultiplied [OF demo_surface_ok demo_clip_ok, of 32768 65536 32768 65536] demo_flat_over
  by (auto simp: jint_range_def demo_world_def premul_0)

text \<open>
  C3. Lazy validation refines the eager choice of routines. In every state that the setters of a
  renderer reach, after the surface was marked and validated, the function pointers are those that
  mask type, composite rule and paint mode call for, and the internal colour is the user's colour,
  or transparent black under the rule Clear.
\<close>

theorem dispatch_refines_modes:
  assumes "reachable fo rdr" "s_imageType s = TYPE_INT_ARGB_PRE"
  defines "u \<equiv> VALIDATE_BLITTING s (invalidate INVALID_RENDERER_SURFACE rdr)"
  shows "emitRows (r_fns u) = rows_for (r_maskType rdr) (r_compositeRule rdr) (r_paintMode rdr) \<and>
    emitLine (r_fns u) = line_for (r_compositeRule rdr) (r_paintMode rdr) \<and>
    genPaint (r_fns u) = gen_for (r_paintMode rdr) \<and> clearRect_fn (r_fns u) = ClearRect8888_any \<and> colour_ok u"
  using validated_routines_surface [OF reachable_rinv [OF assms(1)] assms(2)] by (simp add: u_def)

theorem dispatch_refines_modes_witness:
  "emitRows (r_fns (VALIDATE_BLITTING demo_surface (invalidate INVALID_RENDERER_SURFACE demo_rdr))) = BlitSrcOver8888_pre"
  using dispatch_refines_modes [OF demo_reachable, of demo_surface]
  by (simp add: demo_surface_def surface_init_def demo_rdr_modes rows_for_def pisces_consts)

text \<open>
  C4. The geometry of a filled rectangle. The coverage that \<open>fillRect\<close> derives for column \<open>c\<close> of a
  clipped axis is the exact length, in 16.16 fixed point, of the part of \<open>[x, x + w)\<close> in that pixel.
\<close>

theorem fill_axis_exact:
  assumes "jint_range x" "0 < w" "x + w < 2147483648"
    and "clip_axis mn mx (fill_axis x w IMAGE_FRAC_EDGE_KEEP IMAGE_FRAC_EDGE_KEEP) = (x_from, x_to, lf, rf)"
    and "single_axis (x_from, x_to, lf, rf) = (l, r)" "x_from \<le> x_to" "0 \<le> c" "c \<le> x_to - x_from"
  shows "row_frac (x_to - x_from + 1) l r c = overlap x (x + w) (x_from + c)"
  by (rule axis_coverage [OF assms])

theorem fill_axis_exact_witness:
  "row_frac (1 - 0 + 1) 32768 32768 1 = overlap 32768 (32768 + 65536) (0 + 1)"
  by (rule fill_axis_exact [where mn = 0 and mx = 9 and lf = 32768 and rf = 32768])
     (simp_all add: jint_range_def fill_axis_def clip_axis_def single_axis_def Let_def and_ffff pisces_consts sar_def i32_id)





text \<open>
  C7. What \<open>setRGB\<close> stores, \<open>getRGB\<close> with the same arguments reads back: both return, and each cell of the
  clipped rectangle of the second array is that of the first.
\<close>

theorem setRGB_getRGB:
  assumes "surface_ok v w" "v_critical v 1"
    and "rgb_args (w_surface w) arr offset scan x y wd h (x', y', w', h', start)" "length arr2 = length arr"
  shows "\<exists>w2 w3 out. setRGBImpl v w arr offset scan x y wd h = Some w2 \<and>
    getRGBImpl v w2 arr2 offset scan x y wd h = Some (w3, out) \<and> length out = length arr \<and>
    (\<forall>j c. 0 \<le> j \<longrightarrow> j < h' \<longrightarrow> 0 \<le> c \<longrightarrow> c < w' \<longrightarrow> out ! nat (start + j * scan + c) = arr ! nat (start + j * scan + c))"
  by (rule set_get_RGB [OF assms])

theorem setRGB_getRGB_witness:
  "\<exists>w2 w3 out. setRGBImpl demo_jvm demo_world [5, 6, 7, 8, 9, 10] 0 2 (- 1) 0 2 2 = Some w2 \<and>
    getRGBImpl demo_jvm w2 [0, 0, 0, 0, 0, 0] 0 2 (- 1) 0 2 2 = Some (w3, out) \<and> length out = length [5, 6, 7, 8, 9, 10 :: jint] \<and>
    (\<forall>j c. 0 \<le> j \<longrightarrow> j < 2 \<longrightarrow> 0 \<le> c \<longrightarrow> c < 1 \<longrightarrow>
       out ! nat (1 + j * 2 + c) = [5, 6, 7, 8, 9, 10] ! nat (1 + j * 2 + c))"
proof -
  have v: "v_critical demo_jvm 1" by (simp add: demo_jvm_def)
  have a: "rgb_args (w_surface demo_world) [5, 6, 7, 8, 9, 10] 0 2 (- 1) 0 2 2 (0, 0, 1, 2, 1)"
    by (simp add: rgb_args_def CORRECT_DIMS_def demo_world_def demo_surface_def surface_init_def jint_range_def i32_id)
  show ?thesis by (rule setRGB_getRGB [OF demo_surface_ok v a]) simp
qed

text \<open>
  C8. An antialiased row of a flat colour under SrcOver: the coverage of column \<open>c\<close> is the alpha map at
  the running sum of the deltas, the row of deltas is cleared, and no other pixel changes.
\<close>

theorem blitSrcOver_row:
  assumes "rect_fits rdr (touched_width rdr) 1 xs" "flat_colour rdr"
    and "aa_ok rdr (touched_width rdr) row" "aa_map_ok rdr (touched_width rdr) row am" "\<forall>p\<in>set xs. jint_range p"
  shows "blitSrcOver8888_pre rdr 1 = Some ((painted rdr (touched_width rdr) 1
    (\<lambda>_ c p. blendSrcOver8888_pre p (aa_cov (r_calpha rdr) am (aa_rel row c))
       (r_cred rdr) (r_cgreen rdr) (r_cblue rdr)) xs)
    \<lparr>r_rowAAInt := Some (aa_cleared (nat (touched_width rdr)) row)\<rparr>)"
  by (rule blitSrcOver_exact [OF assms])

theorem blitSrcOver_row_witness:
  "\<exists>rdr'. blitSrcOver8888_pre demo_draw 1 = Some rdr' \<and> r_rowAAInt rdr' = Some [0, 0]"
  using blitSrcOver_row [of demo_draw "[0, 0, 0, 0]" "[3, 1]"] demo_rect_fits demo_colour demo_aa
  by (simp add: demo_width aa_cleared_def jint_range_def numeral_2_eq_2)

text \<open>
  C9. Glyphs and other masks: every row of a mask of bytes is blended with the colour, scaled by the
  mask; a mask byte of 0 leaves the pixel alone and the shortcuts for full coverage agree with the blend.
\<close>

theorem blitSrcOverMask_rows:
  assumes "rect_fits rdr (touched_width rdr) h xs" "flat_colour rdr"
    and "mask_ok rdr 1 (r_alphaWidth rdr) (touched_width rdr) h ms" "\<forall>p\<in>set xs. jint_range p"
  shows "blitSrcOverMask8888_pre rdr h = Some (painted rdr (touched_width rdr) h
    (\<lambda>j c p. blendSrcOver8888_pre p
       (mask_cov (r_calpha rdr) (mask_at ms (r_maskOffset rdr + j * r_alphaWidth rdr) c))
       (r_cred rdr) (r_cgreen rdr) (r_cblue rdr)) xs)"
  by (rule blitSrcOverMask_exact [OF assms])

theorem blitSrcOverMask_rows_witness:
  "\<exists>rdr'. blitSrcOverMask8888_pre demo_draw 1 = Some rdr'"
  using blitSrcOverMask_rows [of demo_draw 1 "[0, 0, 0, 0]" "[255, 7]"] demo_rect_fits demo_colour
  by (simp add: demo_width jint_range_def mask_ok_def) (simp add: demo_draw_def)

text \<open>
  C10. Lines of a gradient or a texture under SrcOver: every pixel of the rectangle is blended with
  the generated paint at its row and column, scaled by its coverage.
\<close>

theorem emitLinePTSourceOver_rows:
  assumes "rect_fits rdr (r_alphaWidth rdr) h xs" "el_fracs rdr frc" "paint_ok rdr h ps" "\<forall>p\<in>set xs. jint_range p"
  shows "emitLinePTSourceOver8888_pre rdr h frc = Some (painted rdr (r_alphaWidth rdr) h
    (\<lambda>j c p. over_pre (pt_coverage rdr frc c) (paint_at rdr ps j c) p) xs)"
  by (rule emitLinePTSourceOver_exact [OF assms])

theorem emitLinePTSourceOver_rows_witness:
  "\<exists>rdr'. emitLinePTSourceOver8888_pre demo_draw 1 0x10000 = Some rdr'"
  using emitLinePTSourceOver_rows [where rdr = demo_draw and h = 1 and xs = "[0, 0, 0, 0]" and frc = "0x10000"
      and ps = "[-2147450880, 0]"] demo_rect_fits demo_colour
  by (simp add: demo_width jint_range_def demo_paint)

text \<open>
  C11. An antialiased row of a gradient or a texture under SrcOver: a pixel with coverage is blended with
  the paint of its column, a pixel without keeps its value, and the row of deltas is cleared.
\<close>

theorem blitPTSrcOver_row:
  assumes "rect_fits rdr (touched_width rdr) 1 xs"
    and "aa_ok rdr (touched_width rdr) row" "aa_map_ok rdr (touched_width rdr) row am"
    and "r_paint rdr = Some ps" "touched_width rdr \<le> int (length ps)" "\<forall>s\<in>set ps. premul s \<and> jint_range s"
    and "\<forall>p\<in>set xs. jint_range p"
  shows "blitPTSrcOver8888_pre rdr 1 = Some ((painted rdr (touched_width rdr) 1
    (\<lambda>_ c p. if aa_rel row c = 0 then p else over_pre (am ! nat (aa_rel row c) mod 256 + 1) (ps ! nat c) p) xs)
    \<lparr>r_rowAAInt := Some (aa_cleared (nat (touched_width rdr)) row)\<rparr>)"
  by (rule blitPTSrcOver_exact [OF assms])

theorem blitPTSrcOver_row_witness:
  "\<exists>rdr'. blitPTSrcOver8888_pre demo_draw 1 = Some rdr' \<and> r_rowAAInt rdr' = Some [0, 0]"
  using blitPTSrcOver_row [of demo_draw "[0, 0, 0, 0]" "[3, 1]" _ "[-2147450880, 0]"] demo_rect_fits demo_aa demo_paint
  by (simp add: demo_width aa_cleared_def jint_range_def paint_ok_def numeral_2_eq_2)

text \<open>
  C12. Gradient paint: with a ramp of 256 colours and a known cycle method, both generators return for any
  number of rows that fits the paint buffer; every generated pixel is a colour of the ramp and the
  rest of the buffer is untouched. This holds for any float arithmetic.
\<close>

theorem gradient_paint_in_ramp:
  assumes "gradient_ok (r_gradient rdr)" "r_paint rdr = Some xs" "paint_space rdr h xs"
  shows "(\<exists>ys. genLinearGradientPaint fo rdr h = Some (rdr\<lparr>r_paint := Some ys\<rparr>) \<and>
      filled (h * r_alphaWidth rdr) (\<lambda>v. v \<in> set (gradient_colors (r_gradient rdr))) xs ys) \<and>
    (\<exists>ys. genRadialGradientPaint fo rdr h = Some (rdr\<lparr>r_paint := Some ys\<rparr>) \<and>
      filled (h * r_alphaWidth rdr) (\<lambda>v. v \<in> set (gradient_colors (r_gradient rdr))) xs ys)"
  using gradient_paint_fills [OF assms] by blast

theorem gradient_paint_in_ramp_witness:
  "\<exists>ys. genRadialGradientPaint demo_fo demo_draw 1 = Some (demo_draw\<lparr>r_paint := Some ys\<rparr>)"
  using gradient_paint_in_ramp [OF demo_gradient demo_space(1), of demo_fo] by blast





text \<open>
  \<open>div255\<close> multiplies and shifts instead of dividing; on every sum the blends form it is the exact
  quotient, and 65790 is the first argument where it is not.
\<close>

theorem div255_is_division:
  assumes "0 \<le> x" "x < 65790"
  shows "div255 x = x div 255"
  by (rule div255_exact [OF assms])

theorem div255_is_division_witness: "div255 65789 = 257 \<and> div255 65790 \<noteq> 65790 div 255"
  using div255_is_division [of 65789] by (simp add: div255_def i32_def sar_def)

text \<open>
  Blending a premultiplied source with coverage over a premultiplied pixel gives a premultiplied
  pixel, with each channel the sum of the scaled source and the attenuated destination.
\<close>

theorem blend_pre_pre_premultiplied:
  assumes "premul p" "byte a" "0 \<le> frc" "frc \<le> 256" "0 \<le> r" "r \<le> a" "0 \<le> g" "g \<le> a" "0 \<le> b" "b \<le> a"
  shows "premul (blendSrcOver8888_pre_pre p frc a r g b) \<and>
    pxA (blendSrcOver8888_pre_pre p frc a r g b) = a * frc div 256 + (255 - a * frc div 256) * pxA p div 255"
proof -
  have a2: "byte (a * frc div 256)" using assms(2) scale_range [OF assms(2-4)] by (auto simp: byte_def)
  have ch: "byte (s * frc div 256 + (255 - a * frc div 256) * d div 255)" if "0 \<le> s" "s \<le> a" "byte d" for s d
  proof -
    have "0 \<le> s * frc div 256" "s * frc div 256 \<le> a * frc div 256"
      using that assms by (auto simp: pos_imp_zdiv_nonneg_iff intro!: zdiv_mono1 mult_right_mono)
    then show ?thesis using over_sum(2,3) [OF a2 that(3)] by (auto simp: byte_def)
  qed
  have "byte a" "0 \<le> a" using assms by (auto simp: byte_def)
  then show ?thesis
    using premul_blendSrcOver8888_pre_pre [OF assms] ch assms
    by (simp add: blendSrcOver8888_pre_pre_eq [OF assms(2-10)])
qed

theorem blend_pre_pre_premultiplied_witness: "premul (blendSrcOver8888_pre_pre (- 1) 128 200 100 0 200)"
  using blend_pre_pre_premultiplied [of "- 1" 200 128 100 0 200] demo_tex_ok(2) by (simp add: byte_def)

text \<open>
  Interpolation between two channel values is the weighted mean rounded to the nearest integer and
  lies between the two.
\<close>

theorem interp_rounds_mean:
  assumes "byte x0" "byte x1" "0 \<le> f" "f \<le> 0x10000"
  shows "interp x0 x1 f = (x0 * (0x10000 - f) + x1 * f + 0x8000) div 0x10000 \<and>
    min x0 x1 \<le> interp x0 x1 f \<and> interp x0 x1 f \<le> max x0 x1"
  using interp_eq [OF assms] interp_between [OF assms] by blast

theorem interp_rounds_mean_witness: "interp 10 20 0x8000 = 15"
  using interp_rounds_mean [of 10 20 "0x8000"] by (simp add: byte_def)

text \<open>
  C18. The sine of a fixed-point angle: for every angle but the least integer it is the table entry of the
  angle reduced to the first quadrant, with the sign of the quadrant; the range reduction ends and
  the table is read inside its 1025 entries.
\<close>

theorem sin_reads_table:
  assumes "length tab = 1025" "\<forall>s\<in>set tab. 0 \<le> s \<and> s \<le> 65536" "jint_range theta" "theta \<noteq> - 2147483648"
  shows "piscesmath_sin (Some tab) theta =
    (let t = \<bar>theta\<bar> mod PISCES_TWO_PI
     in Some ((if theta < 0 then - 1 else 1) * (if t \<ge> PISCES_PI then - 1 else 1) * tab ! nat (sin_index t)))"
  by (rule piscesmath_sin_eq [OF assms])

theorem sin_reads_table_witness: "\<exists>s. piscesmath_sin (Some (replicate 1025 7)) 1000000 = Some s"
  using sin_reads_table [of "replicate 1025 7" 1000000] by (simp add: jint_range_def Let_def)

text \<open>
  The least integer has no negation in 32 bits: \<open>piscesmath_sin\<close> of it reads before the table.
\<close>

theorem sin_of_least_integer: "piscesmath_sin (Some tab) (- 2147483648) = None"
  by (rule piscesmath_sin_min)

text \<open>
  The identity transform is neutral on both sides of the multiplication of fixed-point transforms, and
  multiplying with a translation adds to the translation.
\<close>

theorem transform_identity_neutral:
  assumes "transform_jint t" "jint_range dx" "jint_range dy"
  shows "pisces_transform_multiply t transform_ident = t \<and> pisces_transform_multiply transform_ident t = t \<and>
    pisces_transform_multiply \<lparr>m00 = 65536, m01 = 0, m10 = 0, m11 = 65536, m02 = dx, m12 = dy\<rparr> t
      = t\<lparr>m02 := i32 (dx + m02 t), m12 := i32 (dy + m12 t)\<rparr>"
  using transform_multiply_ident [OF assms(1)] transform_multiply_translate [OF assms] by blast

theorem transform_identity_neutral_witness:
  "pisces_transform_multiply null_transform transform_ident = null_transform"
  using transform_identity_neutral [of null_transform 0 0]
  by (simp add: transform_jint_def null_transform_def jint_range_def)

text \<open>
  The conversion of a float to fixed point by its bits: for an exponent between 103 and 141 the result
  is the magnitude times 65536, truncated, with the sign of the float.
\<close>

theorem toPiscesCoords_truncates:
  assumes "103 \<le> float_exp ff" "float_exp ff \<le> 141"
  shows "toPiscesCoords ff = Some ((if uint ff < 0x80000000 then 1 else - 1) *
    (float_mant ff * 2 ^ nat (float_exp ff) div 2 ^ 134))"
  by (rule toPiscesCoords_eq [OF assms])

theorem toPiscesCoords_truncates_witness: "toPiscesCoords 0x3FC00000 = Some 98304"
  using toPiscesCoords_truncates [of "0x3FC00000"] by (simp add: float_exp_def float_mant_def)

text \<open>
  The rectangle of \<open>getRGB\<close> and \<open>setRGB\<close> after \<open>CORRECT_DIMS\<close> is the intersection of the requested
  one with the surface, and the offsets are the distance its origin moved.
\<close>

theorem CORRECT_DIMS_intersects:
  assumes "CORRECT_DIMS s x y w h = (x', y', w', h', dx, dy)"
    and "jint_range x" "jint_range w" "jint_range (x + w)" "0 \<le> s_width s" "jint_range (s_width s)"
    and "jint_range y" "jint_range h" "jint_range (y + h)" "0 \<le> s_height s" "jint_range (s_height s)"
    and "- 2147483648 < x" "- 2147483648 < y"
  shows "x' = x + dx \<and> y' = y + dy \<and> 0 \<le> dx \<and> 0 \<le> dy \<and>
    (x' \<le> X \<and> X < x' + w') = (0 \<le> X \<and> X < s_width s \<and> x \<le> X \<and> X < x + w) \<and>
    (y' \<le> Y \<and> Y < y' + h') = (0 \<le> Y \<and> Y < s_height s \<and> y \<le> Y \<and> Y < y + h)"
  using CORRECT_DIMS_spec [OF assms] by blast

theorem CORRECT_DIMS_intersects_witness: "CORRECT_DIMS demo_surface (- 1) 0 2 5 = (0, 0, 1, 2, 1, 0) \<and> (0 :: int) = - 1 + 1"
  using CORRECT_DIMS_intersects [of demo_surface "- 1" 0 2 5 0 0 1 2 1 0]
  by (simp add: demo_surface_def surface_init_def CORRECT_DIMS_def jint_range_def i32_id)

text \<open>
  C23. \<open>JNI_ThrowNew\<close> never returns: the exception it throws is pending when it checks for one, and so it
  stops the VM. A drawing method whose surface cannot be locked therefore has no result either.
\<close>

theorem JNI_ThrowNew_is_fatal:
  "JNI_ThrowNew e w = None \<and> (w_memerr w2 \<longrightarrow> report_mem_error w2 = None)"
  by (simp add: report_mem_error_eq)

theorem JNI_ThrowNew_is_fatal_witness: "report_mem_error (setMemErrorFlag demo_world) = None"
  using JNI_ThrowNew_is_fatal [of OutOfMemoryError demo_world "setMemErrorFlag demo_world"] by (simp add: setMemErrorFlag_def)

section \<open>The FLV demuxer\<close>



text \<open>
  C25. The stream may be cut into buffers anywhere: when the bytes \<open>a\<close> have been taken without an
  error, giving the bytes \<open>b\<close> afterwards has the same result, the same calls of GStreamer and the same
  state as giving \<open>a @ b\<close> at once.
\<close>

theorem demux_chunks:
  assumes "flv_demux_chain G f a off = Some (GST_FLOW_OK, f')"
  shows "flv_demux_chain G f (a @ b) off = flv_demux_chain G f' b off'"
  by (rule chain_chunks [OF assms])

theorem demux_chunks_witness:
  "\<exists>f'. flv_demux_chain demo_gst (flv_demux_init demo_segment) (encode_file 5 [0, 0, 0, 0] [demo_video_tag]) 0 = Some (GST_FLOW_OK, f') \<and>
    flv_demux_chain demo_gst (flv_demux_init demo_segment) (encode_file 5 [0, 0, 0, 0] [demo_video_tag] @ [8, 0, 0]) 0 =
      flv_demux_chain demo_gst f' [8, 0, 0] 7"
proof -
  obtain f' where "flv_demux_chain demo_gst (flv_demux_init demo_segment) (encode_file 5 [0, 0, 0, 0] [demo_video_tag]) 0 = Some (GST_FLOW_OK, f')"
    using demux_file [OF demo_accepting, of 5 "[0, 0, 0, 0]" "[demo_video_tag]" demo_segment] demo_av by auto
  then show ?thesis using demux_chunks by blast
qed





text \<open>
  C28. The index implements a map from times to positions that keeps its first entry for a time: adding an
  entry keeps the order of the list and adds the pair unless the time is known.
\<close>

theorem index_add_refines_map:
  assumes "index_ok (fd_keyframes f)"
  shows "index_ok (fd_keyframes (flv_demux_index_add_entry f t p)) \<and>
    index_map (fd_keyframes (flv_demux_index_add_entry f t p)) =
      (index_map (fd_keyframes f))(t := (case index_map (fd_keyframes f) t of None \<Rightarrow> Some p | Some q \<Rightarrow> Some q))"
  by (simp add: idx.inv_add [OF assms] idx.entries_add [OF assms])

theorem index_add_refines_map_witness:
  "index_ok (fd_keyframes (flv_demux_index_add_entry demo_demux 3 50)) \<and>
    index_map (fd_keyframes (flv_demux_index_add_entry demo_demux 3 50)) =
      (index_map (fd_keyframes demo_demux))(3 := (case index_map (fd_keyframes demo_demux) 3 of None \<Rightarrow> Some 50 | Some q \<Rightarrow> Some q))"
  by (rule index_add_refines_map [OF demo_demux_ok(3)])



text \<open>
  C30. Skipping a value ends and stays inside the block: whatever the bytes are and however objects and arrays
  nest, the handler returns with a recursion depth of at most the bytes that are left, and does not
  move the reader backwards.
\<close>

theorem skip_handler_terminates:
  assumes "sr_end r \<le> length buf" "sr_end r - sr_position r < n"
  shows "\<exists>res r'. flv_metadata_skip_handler n buf r name ty p = Some (res, r', p) \<and>
    sr_end r' = sr_end r \<and> sr_position r \<le> sr_position r'"
  using skip_total [OF assms, of "\<lambda>q. q = p" p name ty] by (auto simp: moved_def)

theorem skip_handler_terminates_witness:
  "\<exists>res r'. flv_metadata_skip_handler 7 [0, 1, 65, 3, 0, 0, 9 :: 8 word] \<lparr>sr_position = 1, sr_end = 7\<rparr> None 3 () = Some (res, r', ()) \<and>
    sr_end r' = 7 \<and> 1 \<le> sr_position r'"
  using skip_handler_terminates [of "\<lparr>sr_position = 1, sr_end = 7\<rparr>" "[0, 1, 65, 3, 0, 0, 9]" 7 None 3 "()"] by simp

text \<open>
  C31. A flaw: when the second column of a table of keyframes has at least two values more than the
  first, the counter that limits the stores wraps and a value is stored outside the table.
\<close>

theorem keyframe_table_overrun:
  assumes "ks \<noteq> []" "length ks + 2 \<le> unat sz" "name = map of_char ''filepositions''"
    and "at_item buf r (be32 sz)" "doubles_at buf (r\<lparr>sr_position := sr_position r + 4\<rparr>) (unat sz)"
  shows "flv_script_read_keyframe_array F buf r (Some name) ks = None"
proof -
  have "unat sz < 2 ^ 32" using unsigned_less [of sz] by simp
  with assms(2) have l: "length ks < 2 ^ 32" by simp
  obtain ks' rs where p: "keyframe_prepare ks sz = (ks', rs)" by (cases "keyframe_prepare ks sz")
  have s: "0 + unat rs = length ks'" "unat rs + 2 \<le> unat sz"
    using keyframe_prepare_sizes [OF p l] assms(1,2) by auto
  show ?thesis
    using at_read_ui32 [OF assms(4)] keyframe_loop_overrun [OF assms(5) _ s, of 2] p assms(3)
    by (simp add: flv_script_read_keyframe_array_def Let_def streq_def)
qed

theorem keyframe_table_overrun_witness:
  "flv_script_read_keyframe_array demo_flt demo_column \<lparr>sr_position = 0, sr_end = 31\<rparr> (Some (map of_char ''filepositions''))
     [\<lparr>kf_time = 0, kf_fileposition = 0\<rparr>] = None"
  by (rule keyframe_table_overrun [where sz = 3])
    (simp_all add: demo_column_at demo_column_doubles)

text \<open>
  C32. A flaw: an MP3 tag with an empty body has a packet size that wraps to the largest number. When an
  allocation of that size is granted, the copy of the packet leaves the block.
\<close>

theorem empty_tag_overrun:
  assumes "fp_state (fd_parser f) = FLV_PARSER_EXPECT_AUDIO_TAG_BODY" "fp_next_block_size (fd_parser f) = 4"
    and "length d = 4" "is_mp3 d" "fd_audio_src_pad f" "fd_sound_format f = 2" "g_alloc G (fd_log f) (- 1)" "g_map G (fd_log f)"
  shows "flv_demux_parse_audio_tag G f d 4 = None"
  by (rule empty_audio_tag_overrun [OF assms])

theorem empty_tag_overrun_witness: "flv_demux_parse_audio_tag greedy_gst demo_empty_tag [0x2F, 0, 0, 11] 4 = None"
  by (rule empty_tag_overrun) (simp_all add: demo_empty_tag_def greedy_gst_def demo_gst_def is_mp3_def)

text \<open>
  A flaw: indexing ahead from a time that the index does not cover enters nothing, whatever the file
  holds, because the temporary parser still expects the header of the file; whether it reports
  success depends on a variable that was never set.
\<close>

theorem indexing_ahead_does_nothing:
  assumes "flv_demux_index_lookup f indexFrom = Some None"
  shows "\<exists>b. flv_demux_do_indexing_pull G indeterminate f indexFrom indexTo = Some (b, f)"
  by (rule indexing_without_entry [OF assms])

theorem indexing_ahead_does_nothing_witness:
  "\<exists>b. flv_demux_do_indexing_pull demo_gst 0 demo_demux 9 20 = Some (b, demo_demux)"
  by (rule indexing_ahead_does_nothing) (simp add: flv_demux_index_lookup_def demo_demux_def Let_def)

section \<open>Rasterizing shapes\<close>

text \<open>
  C17. Filling a shape, from the arrays of Java to the mask. If the table of alphas has been set up, the area is within 16777216 samples of the origin, the
  commands and coordinates make a path, and the path flattens to fewer than 3355444 lines, then \<open>produceFillAlphas\<close> returns without an exception for every
  transformation and winding rule, into a mask that has a byte for every pixel of the area. The rectangle it reports is inside the area, and each byte of the rectangle is the alpha of the
  number of samples of that pixel that are inside the path by the winding rule; the rest of the mask is unchanged.
\<close>

theorem fill_coverage:
  assumes floats: "float_laws F"
    and tabs: "st = Renderer_setup lgx lgy st0" "tables_ok st0" "0 \<le> lgx" "0 \<le> lgy" "lgx + lgy \<le> 12"
    and area: "area_ok st b0 b1 b2 b3" "(b2 - b0) * (b3 - b1) \<le> int (length msk)" "length msk < 2147483648"
    and arrays: "length coords < 2147483640" "n \<le> length commands" "length saved = 1024"
    and path: "decode D (Transformer_init D mxx mxy mxt myx myy myt) coords (take n commands) = (ss, None)"
      "path_lines F st (fl_of F 0, fl_of F 0, fl_of F 0, fl_of F 0) ss = Some ls" "length ls < 3355444"
  shows "\<exists>q0 q1 q2 q3. produceFillAlphas F D st saved it0 (True, True, True) (Some coords) (Some commands) (int n) nonzero (mxx, mxy, mxt, myx, myy, myt)
      (Some [b0, b1, b2, b3]) (Some msk)
    = Some (None, Some [q0, q1, q2, q3],
        Some (shape_mask F st (if nonzero then -1 else 1)
          (line_edges F (b1 * SUBPIXEL_POSITIONS_Y st) (b3 * SUBPIXEL_POSITIONS_Y st) ls) (q0, q1, q2, q3) msk)) \<and>
    b0 \<le> q0 \<and> b1 \<le> q1 \<and> q2 \<le> b2 \<and> q3 \<le> b3"
  by (rule produceFill_spec [OF floats _ area(1) arrays(3) area(2,3) arrays(1,2) path])
    (use setup_spec(2) [OF tabs(2-5)] tabs(1) in simp)

theorem fill_coverage_witness:
  "\<exists>q0 q1 q2 q3. produceFillAlphas demo_floats demo_doubles demo_statics (replicate 1024 7) demo_iterator (True, True, True)
      (Some demo_coords) (Some demo_commands) 4 True (1, 0, 0, 0, 1, 0) (Some [0, 0, 2, 2]) (Some [9, 9, 9, 9, 9])
    = Some (None, Some [q0, q1, q2, q3], Some (shape_mask demo_floats demo_statics (-1) demo_edges (q0, q1, q2, q3) [9, 9, 9, 9, 9])) \<and>
    0 \<le> q0 \<and> 0 \<le> q1 \<and> q2 \<le> 2 \<and> q3 \<le> 2"
  using fill_coverage [OF demo_float_laws demo_statics_def demo_tables_ok _ _ _ demo_area, of "[9, 9, 9, 9, 9]" demo_coords 4 demo_commands
      "replicate 1024 7" demo_doubles 1 0 0 0 1 0 demo_path demo_lines demo_iterator True] demo_decode demo_path_lines
  by (simp add: demo_coords_def demo_commands_def demo_lines_def)

text \<open>
  C33. A path that cannot be decoded. If a command has too few coordinates or is unknown, \<open>produceFillAlphas\<close> raises the exception of the
  message, never none, and neither the bounds nor the mask have changed.
\<close>

theorem fill_refused:
  assumes floats: "exact_ints F" and area: "statics_ok st" "area_ok st b0 b1 b2 b3" and arrays: "length coords < 2147483640" "n \<le> length commands"
    and path: "decode D (Transformer_init D mxx mxy mxt myx myy myt) coords (take n commands) = (ss, Some msg)"
      "flats (seg_lines F st) (fl_of F 0, fl_of F 0, fl_of F 0, fl_of F 0) ss = Some (ls, p)" "length ls < 3355444"
  shows "\<exists>c d. failure_exn msg = Some (c, d) \<and>
    produceFillAlphas F D st saved it0 (True, True, acc) (Some coords) (Some commands) (int n) nonzero (mxx, mxy, mxt, myx, myy, myt)
      (Some [b0, b1, b2, b3]) (Some msk) = Some (Some (c, d), Some [b0, b1, b2, b3], Some msk)"
  using produceFill_failure [OF floats area arrays path] decode_messages [of D "Transformer_init D mxx mxy mxt myx myy myt" coords "take n commands"] path(1)
  by auto

theorem fill_refused_witness:
  "produceFillAlphas demo_floats demo_doubles demo_statics [] demo_iterator (True, True, True) (Some [0, 0, 2]) (Some [SEG_MOVETO, SEG_LINETO]) 2 True
      (1, 0, 0, 0, 1, 0) (Some [0, 0, 2, 2]) (Some [9, 9, 9, 9])
    = Some (Some (AIOOBException, ''not enough coordinates for lineTo''), Some [0, 0, 2, 2], Some [9, 9, 9, 9])"
proof -
  have dec: "decode demo_doubles (Transformer_init demo_doubles 1 0 0 0 1 0) [0, 0, 2] (take 2 [SEG_MOVETO, SEG_LINETO])
      = ([SegMove 0 0], Some ''[not enough coordinates for lineTo'')"
    by (simp add: decode_one_def seg_codes Let_def Transformer_init_def demo_doubles_def tx_point_def)
  show ?thesis
    using fill_refused [OF _ demo_statics_ok demo_area _ _ dec, of demo_floats "[(0, 0, 0, 0)]" "(0, 0, 0, 0)" "[]" demo_iterator True True "[9, 9, 9, 9]"]
      demo_float_laws
    by (simp add: failure_exn_def float_laws_def demo_floats_def tosubpixx_def tosubpixy_def)
qed

text \<open>
  C21. The scanline iterator against its specification. In a state that represents the edges \<open>gs\<close> with the rows before \<open>y\<close> visited, a step returns
  the number of edges that cross row \<open>y\<close>, its first crossings are the sorted crossings of exactly these edges, and the
  state that it leaves represents the same edges with row \<open>y\<close> visited.
\<close>

theorem scanline_crossings:
  assumes "exact_ints F" "edges_at F y gs r" "iterator_at y gs it" "pr_boundsMinY r \<le> y" "y < pr_boundsMaxY r"
  shows "\<exists>it' es' X. ScanlineIterator_next F it r = Some (int (length (row_crossings F gs y)), it', r \<lparr> pr_edges := Some es' \<rparr>) \<and>
    edges_at F (y + 1) gs (r \<lparr> pr_edges := Some es' \<rparr>) \<and> iterator_at (y + 1) gs it' \<and> it_crossings it' = Some X \<and>
    take (length (row_crossings F gs y)) X = sort (row_crossings F gs y)"
  using next_spec [OF assms] by blast

theorem scanline_crossings_witness:
  "\<exists>r it' r' X. edges_at demo_floats 0 demo_edges r \<and> ScanlineIterator_next demo_floats (ScanlineIterator_init demo_iterator r) r = Some (2, it', r') \<and>
    it_crossings it' = Some X \<and> take 2 X = sort (row_crossings demo_floats demo_edges 0)"
proof -
  obtain r where r: "edges_at demo_floats 0 demo_edges r" "pr_boundsMinY r = 0" "pr_boundsMaxY r = 4" "pr_sampleRowMin r = 0" using demo_renderer by blast
  have it: "iterator_at 0 demo_edges (ScanlineIterator_init demo_iterator r)"
    using iterator_start [of demo_edges r demo_iterator] r(4) by (simp add: demo_edges_eq)
  have "length (row_crossings demo_floats demo_edges 0) = 2" by (simp add: row_crossings_def demo_edges_eq crosses_def)
  then show ?thesis
    using scanline_crossings [OF _ r(1) it] demo_float_laws r unfolding float_laws_def by fastforce
qed

text \<open>
  C16. The representation of a path. Every operation of the path consumer keeps the arrays of the renderer well formed: the edges, their links and
  the buckets represent the edges there were, followed by those of the lines of the segment, in order; the bounds and the winding rule stay, and the
  pen is at the end of the segment. Moves, lines and closings always return; curves return when they flatten.
\<close>

theorem path_well_formed:
  assumes "exact_ints F" "edges_at F (pr_boundsMinY r) gs r" "seg_lines F st (pen r) s = Some (ls, p)" "5 * (length gs + length ls) < 16777216"
  shows "\<exists>r'. run_seg F st r s = Some r' \<and> pen r' = p \<and> same_bounds r r' \<and>
    edges_at F (pr_boundsMinY r') (gs @ line_edges F (pr_boundsMinY r) (pr_boundsMaxY r) ls) r'"
  using run_seg_spec [OF assms] by (auto simp: adds_lines_def same_bounds_def)

theorem path_well_formed_witness:
  "\<exists>r r'. run_seg demo_floats demo_statics r (SegLine 3 1) = Some r' \<and>
    edges_at demo_floats 0 (demo_edges @ line_edges demo_floats 0 4 [(pr_x0 r, pr_y0 r, 6, 2)]) r'"
proof -
  obtain r where r: "edges_at demo_floats 0 demo_edges r" "pr_boundsMinY r = 0" "pr_boundsMaxY r = 4" using demo_renderer by blast
  have s: "seg_lines demo_floats demo_statics (pen r) (SegLine 3 1) = Some ([(pr_x0 r, pr_y0 r, 6, 2)], 6, 2, pr_pix_sx0 r, pr_pix_sy0 r)"
    by (simp add: pen_def tosubpixx_def tosubpixy_def demo_floats_def)
  have "\<exists>r'. run_seg demo_floats demo_statics r (SegLine 3 1) = Some r' \<and> pen r' = (6, 2, pr_pix_sx0 r, pr_pix_sy0 r) \<and> same_bounds r r' \<and>
    edges_at demo_floats (pr_boundsMinY r') (demo_edges @ line_edges demo_floats (pr_boundsMinY r) (pr_boundsMaxY r) [(pr_x0 r, pr_y0 r, 6, 2)]) r'"
    by (rule path_well_formed [OF _ _ s]) (use r demo_float_laws in \<open>simp_all add: float_laws_def demo_edges_eq\<close>)
  then obtain r' where r': "run_seg demo_floats demo_statics r (SegLine 3 1) = Some r'" "same_bounds r r'"
    "edges_at demo_floats (pr_boundsMinY r') (demo_edges @ line_edges demo_floats 0 4 [(pr_x0 r, pr_y0 r, 6, 2)]) r'"
    unfolding r(2,3) by blast
  moreover have "pr_boundsMinY r' = 0" using r'(2) r(2) by (simp add: same_bounds_def)
  ultimately show ?thesis by metis
qed

text \<open>
  C19. A flaw: the loop that chooses the number of lines of a quadratic curve divides the second difference by four until it is small. When the
  coordinates are so large that the difference is infinite, a quarter of it is the same and \<open>Renderer_quadTo\<close> never returns.
\<close>

theorem quad_never_returns:
  assumes "c = Curve_setquad F (pr_x0 r) (pr_y0 r) (tosubpixx F st x1) (tosubpixy F st y1) (tosubpixx F st x2) (tosubpixy F st y2)"
    "m = fl_max F (fl_div F (cv_dbx c) (fl_of F 256)) (fl_div F (cv_dby c) (fl_of F 256))"
    "fl_less F (fl_of F 32) m" "fl_div F m (fl_of F 4) = m"
  shows "(\<forall>n. quad_count F m n = None) \<and> Renderer_quadTo F st r x1 y1 x2 y2 = None"
  using quad_count_stuck [OF assms(3,4)] quadTo_stuck [OF assms(3,4,1,2)] by blast

theorem quad_never_returns_witness:
  "Renderer_quadTo inf_floats demo_statics (Renderer_init inf_floats) (Some 0) (Some 0) None (Some 0) = None"
  using quad_never_returns [of _ inf_floats "Renderer_init inf_floats" demo_statics "Some 0" "Some 0" None "Some 0" None]
  by (simp add: Curve_setquad_def inf_floats_def lift2_def tosubpixx_def tosubpixy_def fl_max_def Renderer_init_def Let_def)

text \<open>
  A related flaw: the test of that loop has no absolute value, so a curve whose second differences are negative is always drawn with sixteen lines,
  however large it is.
\<close>

theorem quad_negative_coarse:
  assumes "\<not> fl_less F (fl_of F 32) (fl_div F (cv_dbx c) (fl_of F 256))" "\<not> fl_less F (fl_of F 32) (fl_div F (cv_dby c) (fl_of F 256))"
  shows "\<exists>ls. flatten_quad F x0 y0 c x2 y2 = Some ls \<and> length ls = 16 \<and> quadBreakIntoLinesAndAdd F r x0 y0 c x2 y2 = addLines F r ls"
  using quad_sixteen [OF assms, of x0 y0 x2 y2] by (auto simp: quad_flattened)

section \<open>Converting video frames\<close>

text \<open>
  C34. Conversion of 4:2:0 frames to BGRA. With planes that hold bytes and fit the frame, both conversions return 0 and write exactly the
  bytes of the frame: pixel \<open>(r, c)\<close> gets the colour of the conversion formula, rounded and saturated to a byte, for its luma
  and the chroma of its two by two block, with its alpha byte or 255; every other byte of the destination is kept. A
  null plane, a size that is not positive and an odd size are refused with 1 and nothing is written.
\<close>

theorem yuv420_frame_exact:
  assumes "plane_fits xs bs (4 * width) height" "plane_fits ys yst width height"
    and "plane_fits vs vst (width div 2) (height div 2)" "plane_fits us ust (width div 2) (height div 2)"
    and "plane_fits as ast width height" "\<forall>b\<in>set ys. u8 b" "\<forall>b\<in>set vs. u8 b" "\<forall>b\<in>set us. u8 b"
    and "0 < width" "0 < height" "even width" "even height"
  shows "ColorConvert_YCbCr420p_to_BGRA32 (Some xs) bs width height (Some ys) (Some vs) (Some us) (Some as) yst vst ust ast
      = Some (0, Some (upd_rect 0 bs (4 * width) height
          (\<lambda>r c _. bgra_byte (c mod 4) (ys ! nat (r * yst + c div 4)) (vs ! nat (r div 2 * vst + c div 8))
             (us ! nat (r div 2 * ust + c div 8)) (as ! nat (r * ast + c div 4))) xs)) \<and>
    ColorConvert_YCbCr420p_to_BGRA32_no_alpha (Some xs) bs width height (Some ys) (Some vs) (Some us) yst vst ust
      = Some (0, Some (upd_rect 0 bs (4 * width) height
          (\<lambda>r c _. bgra_byte (c mod 4) (ys ! nat (r * yst + c div 4)) (vs ! nat (r div 2 * vst + c div 8))
             (us ! nat (r div 2 * ust + c div 8)) 255) xs)) \<and>
    (\<forall>bgra y v u w h a. bgra = None \<or> y = None \<or> v = None \<or> u = None \<or> w \<le> 0 \<or> h \<le> 0 \<or> odd w \<or> odd h \<longrightarrow>
       ColorConvert_YCbCr420p_to_BGRA32 bgra bs w h y v u a yst vst ust ast = Some (1, bgra) \<and>
       ColorConvert_YCbCr420p_to_BGRA32_no_alpha bgra bs w h y v u yst vst ust = Some (1, bgra))"
  using convert420_exact(1) [OF assms(1-4,6-12,5)] convert420_exact(2) [OF assms(1-4,6-12)] convert420_rejects
  by (auto simp: frame420_def)

theorem yuv420_frame_exact_witness:
  "ColorConvert_YCbCr420p_to_BGRA32_no_alpha (Some (replicate 17 7)) 8 2 2 (Some [235, 16, 81, 145]) (Some [128]) (Some [128]) 2 1 1
     = Some (0, Some [255, 255, 255, 255, 0, 0, 0, 255, 76, 76, 76, 255, 150, 150, 150, 255, 7])"
proof -
  have "ColorConvert_YCbCr420p_to_BGRA32_no_alpha (Some (replicate 17 7)) 8 2 2 (Some [235, 16, 81, 145]) (Some [128]) (Some [128]) 2 1 1
      = Some (0, Some (upd_rect 0 8 (4 * 2) 2
          (\<lambda>r c _. bgra_byte (c mod 4) ([235, 16, 81, 145] ! nat (r * 2 + c div 4)) ([128] ! nat (r div 2 * 1 + c div 8))
             ([128] ! nat (r div 2 * 1 + c div 8)) 255) (replicate 17 7)))"
    using yuv420_frame_exact [of "replicate 17 7" 8 2 2 "[235, 16, 81, 145]" 2 "[128]" 1 "[128]" 1 "[0, 0, 0, 0]" 2]
    by (simp add: plane_fits_def u8_def)
  also have "upd_rect 0 8 (4 * 2) 2
          (\<lambda>r c _. bgra_byte (c mod 4) ([235, 16, 81, 145] ! nat (r * 2 + c div 4)) ([128] ! nat (r div 2 * 1 + c div 8))
             ([128] ! nat (r div 2 * 1 + c div 8)) 255) (replicate 17 7)
      = [255, 255, 255, 255, 0, 0, 0, 255, 76, 76, 76, 255, 150, 150, 150, 255, 7]"
    by code_simp
  finally show ?thesis .
qed

text \<open>
  C35. Conversion of packed 4:2:2 rows to BGRA: the same for rows in which the luma bytes are two apart and the chroma bytes of
  a pair of pixels four apart; here only the width has to be even.
\<close>

theorem yuv422_frame_exact:
  assumes "plane_fits xs bs (4 * width) height" "plane_fits ys yst (2 * width - 1) height"
    and "plane_fits vs uvst (2 * width - 3) height" "plane_fits us uvst (2 * width - 3) height"
    and "\<forall>b\<in>set ys. u8 b" "\<forall>b\<in>set vs. u8 b" "\<forall>b\<in>set us. u8 b" "0 < width" "0 < height" "even width"
  shows "ColorConvert_YCbCr422p_to_BGRA32_no_alpha (Some xs) bs width height (Some ys) (Some vs) (Some us) yst uvst
      = Some (0, Some (upd_rect 0 bs (4 * width) height
          (\<lambda>r c _. bgra_byte (c mod 4) (ys ! nat (r * yst + 2 * (c div 4))) (vs ! nat (r * uvst + 4 * (c div 8)))
             (us ! nat (r * uvst + 4 * (c div 8))) 255) xs)) \<and>
    (\<forall>bgra y v u w h. bgra = None \<or> y = None \<or> v = None \<or> u = None \<or> w \<le> 0 \<or> h \<le> 0 \<or> odd w \<longrightarrow>
       ColorConvert_YCbCr422p_to_BGRA32_no_alpha bgra bs w h y v u yst uvst = Some (1, bgra))"
  using convert422_exact [OF assms] convert422_rejects by (auto simp: frame422_def)

theorem yuv422_frame_exact_witness:
  "ColorConvert_YCbCr422p_to_BGRA32_no_alpha (Some [0, 0, 0, 0, 0, 0, 0, 0]) 8 2 1 (Some [235, 128, 16]) (Some [128]) (Some [128]) 4 4
     = Some (0, Some (upd_rect 0 8 (4 * 2) 1
          (\<lambda>r c _. bgra_byte (c mod 4) ([235, 128, 16] ! nat (r * 4 + 2 * (c div 4))) ([128] ! nat (r * 4 + 4 * (c div 8)))
             ([128] ! nat (r * 4 + 4 * (c div 8))) 255) [0, 0, 0, 0, 0, 0, 0, 0]))"
  using yuv422_frame_exact [of "[0, 0, 0, 0, 0, 0, 0, 0]" 8 2 1 "[235, 128, 16]" 4 "[128]" 4 "[128]"]
  by (simp add: plane_fits_def u8_def)

section \<open>Buffering a download\<close>

text \<open>
  C36. The file cache is a first-in first-out queue of bytes. From a cache just created, for any sequence of writes of any sizes and of
  reads, each read taking one buffer if there is data (of up to 4096 bytes, or fewer where the system reads less), what was
  read followed by what is still unread is what was written, while the calls into the system succeed.
\<close>

theorem cache_is_queue:
  assumes "\<forall>op\<in>set ops. io_good (fst op)" "create_cache io = Some c"
  shows "fst (cache_run ops c) @ unread (snd (cache_run ops c)) = all_put ops"
  by (rule cache_fifo [OF assms])

theorem cache_is_queue_witness:
  "fst (cache_run [(demo_io, Some [1, 2]), (demo_io, None), (demo_io, None), (demo_io, Some [3, 4, 5])] (the (create_cache demo_io))) @
   unread (snd (cache_run [(demo_io, Some [1, 2]), (demo_io, None), (demo_io, None), (demo_io, Some [3, 4, 5])] (the (create_cache demo_io))))
     = [1, 2, 3, 4, 5]"
  using cache_is_queue [of "[(demo_io, Some [1, 2]), (demo_io, None), (demo_io, None), (demo_io, Some [3, 4, 5])]" demo_io
      "the (create_cache demo_io)"] demo_io_good
  by (simp add: create_cache_def demo_io_def)

text \<open>
  C37. Delivery in every interleaving. The source and the task of the progress buffer act in any order, with waits, signals and spurious
  wake-ups; no action goes through a null pointer. At each moment the bytes pushed downstream are a beginning of the bytes received since the
  segment began, each buffer with the offset of its first byte; the end of the stream has been pushed only if all
  that was received was pushed before it and the segment is complete or its source has ended it.
\<close>

theorem progress_delivery:
  assumes "stream D s0 rs s" "begun s0"
  shows "(\<exists>rest. initial s0 @ rs = out_bytes (pb_log (sy_el s)) @ rest) \<and>
    in_order (ps_start (pb_sink_segment (sy_el s0))) (pb_log (sy_el s)) \<and>
    (eos_sent (pb_log (sy_el s)) \<longrightarrow> out_bytes (pb_log (sy_el s)) = initial s0 @ rs \<and>
       (pb_eos (sy_el s) \<or>
        ps_start (pb_sink_segment (sy_el s0)) + int (length (initial s0 @ rs)) = ps_stop (pb_sink_segment (sy_el s0)))) \<and>
    (\<forall>a. admissible s a \<longrightarrow> (\<exists>s'. pb_step D a s = Some s'))"
  using stream_delivers [OF assms] by blast

theorem progress_delivery_witness:
  "\<exists>rs s. stream demo_dbl demo_begun rs s \<and> sy_pc s = LPushBuffer 0 [1, 2, 3, 4, 5, 6] \<and>
    (\<exists>rest. [1, 2, 3] @ rs = out_bytes (pb_log (sy_el s)) @ rest) \<and> in_order 0 (pb_log (sy_el s))"
proof -
  obtain rs s where t: "turns demo_dbl demo_drained demo_begun = Some (rs, s)" "sy_pc s = LPushBuffer 0 [1, 2, 3, 4, 5, 6]"
    using demo_drained_run by (auto split: prod.splits)
  note st = demo_stream [OF t(1) demo_calls(2)]
  have "ps_start (pb_sink_segment (sy_el demo_begun)) = 0" by code_simp
  then show ?thesis using progress_delivery [OF st demo_begun(1)] st t(2) demo_begun(2) by auto
qed

text \<open>
  C38. The end of the stream is delivered. When the event that ends the stream arrives while bytes are unread, the task, waiting or
  not, has after at most \<open>2 n + 3\<close> of its sections, for \<open>n\<close> unread bytes, pushed every byte received and the end of the
  stream, and is paused; also when the source has ended before the end of its segment.
\<close>

theorem progress_end_delivered:
  assumes "stream D s0 rs s" "begun s0" "\<not> pb_eos (sy_el s)" "pb_cache (sy_el s) = Some c" "unread c \<noteq> []"
    and "list_all env_good envs" "2 * length (unread c) + 3 \<le> length envs"
  shows "\<exists>s1 s2. pb_step D (AEvent env PbEos) s = Some s1 \<and> pb_run D (map ALoop envs) s1 = Some s2 \<and>
    sy_pc s2 = LPaused \<and> out_bytes (pb_log (sy_el s2)) = initial s0 @ rs \<and> eos_sent (pb_log (sy_el s2))"
  by (rule eos_delivered [OF assms])

theorem progress_end_delivered_witness:
  "\<exists>s s1 s2. pb_step demo_dbl (AEvent demo_env PbEos) s = Some s1 \<and>
    pb_run demo_dbl (map ALoop (replicate 13 demo_env)) s1 = Some s2 \<and>
    sy_pc s2 = LPaused \<and> out_bytes (pb_log (sy_el s2)) = [1, 2, 3, 4, 5] \<and> eos_sent (pb_log (sy_el s2))"
proof -
  obtain rs s c where t: "turns demo_dbl demo_turns demo_begun = Some (rs, s)" "rs = [4, 5]" "\<not> pb_eos (sy_el s)"
    "pb_cache (sy_el s) = Some c" "unread c = [1, 2, 3, 4, 5]"
    using demo_turns_run by (auto split: prod.splits)
  show ?thesis
    using progress_end_delivered [OF demo_stream [OF t(1) demo_calls(1)] demo_begun(1) t(3,4), of "replicate 13 demo_env" demo_env]
      t(2,5) demo_begun(2) demo_env_good by (auto simp: list_all_iff)
qed

text \<open>
  C39. A flaw: the end of the stream can be lost. When the event that ends the stream arrives after the task has read the last byte
  but before it takes the end of the stream as its next item (as while it pushes the last buffer), the event of the source clears
  the pending end, and no further action of the source or of the task ever pushes it.
\<close>

theorem progress_end_lost:
  assumes "stream D s0 rs s" "begun s0" "\<not> pb_eos (sy_el s)" "pb_cache (sy_el s) = Some c" "unread c = []"
    and "sy_pc s \<noteq> LPaused" "\<And>r. sy_pc s \<noteq> LPushEvent PbEos r"
  shows "\<exists>s'. pb_run D (AEvent env PbEos # acts) s = Some s' \<and> \<not> eos_sent (pb_log (sy_el s'))"
  by (rule eos_lost [OF assms])

theorem progress_end_lost_witness:
  "\<exists>s. pb_pending (sy_el s) = Some PbEos \<and>
    (\<forall>acts. \<exists>s'. pb_run demo_dbl (AEvent demo_env PbEos # acts) s = Some s' \<and> \<not> eos_sent (pb_log (sy_el s')))"
proof -
  obtain rs s c where t: "turns demo_dbl demo_drained demo_begun = Some (rs, s)" "\<not> pb_eos (sy_el s)"
    "pb_cache (sy_el s) = Some c" "unread c = []" "sy_pc s = LPushBuffer 0 [1, 2, 3, 4, 5, 6]"
    using demo_drained_run by (auto split: prod.splits)
  have "map_option (\<lambda>(_, s). pb_pending (sy_el s)) (turns demo_dbl demo_drained demo_begun) = Some (Some PbEos)" by code_simp
  then have "pb_pending (sy_el s) = Some PbEos" using t(1) by simp
  moreover have "sy_pc s \<noteq> LPaused" "sy_pc s \<noteq> LPushEvent PbEos r" for r using t(5) by simp_all
  ultimately show ?thesis
    using progress_end_lost [OF demo_stream [OF t(1) demo_calls(2)] demo_begun(1) t(2-4)] by blast
qed



section \<open>Live streaming\<close>

text \<open>
  C15. Delivery of segments in every interleaving. The source and the task of the HLS progress buffer act in any order, with the source waiting
  for a free cache, signals and spurious wake-ups; no action goes through a null pointer or outside of the three caches. At each moment the bytes
  pushed downstream are a beginning of the bytes of the segments received, in the order of the segments though their caches are
  reused; the end of the stream has been pushed only if the source has ended it and everything received was pushed before.
\<close>

theorem hls_delivery:
  assumes "hls_stream (hls_start ios) rs s" "caches_created ios"
  shows "(\<exists>rest. rs = hls_out (h_log (y_h s)) @ rest) \<and>
    (hls_eos_sent (h_log (y_h s)) \<longrightarrow> hls_out (h_log (y_h s)) = rs \<and> h_is_eos (y_h s)) \<and>
    (\<forall>a. hls_calls_good a \<and> hls_in_turn s a \<longrightarrow> (\<exists>s'. hls_step a s = Some s'))"
  using hls_delivers [OF assms] by blast

theorem hls_delivery_witness:
  "\<exists>rs s. hls_stream (hls_start demo_ios) rs s \<and> y_task s = HPush [4, 5] \<and> (\<exists>rest. rs = hls_out (h_log (y_h s)) @ rest) \<and>
    (\<exists>s'. hls_step (HLoop demo_hls_env) s = Some s')"
proof -
  obtain rs s where t: "hls_turns demo_reading (hls_start demo_ios) = Some (rs, s)" "y_task s = HPush [4, 5]"
    using demo_reading_run by (auto split: prod.splits)
  note st = demo_hls_stream [OF t(1) demo_hls_calls(1)]
  have "hls_calls_good (HLoop demo_hls_env) \<and> hls_in_turn s (HLoop demo_hls_env)"
    using demo_hls_env_good by (simp add: hls_calls_good_def hls_in_turn_def)
  then show ?thesis using hls_delivery [OF st demo_created] st t(2) by blast
qed

text \<open>
  C20. The end of a live stream is delivered. When the source, outside of the handler of a segment, ends the stream, the task, waiting or not, has
  after at most \<open>2 n + 2\<close> of its sections, for \<open>n\<close> bytes received and not yet pushed, pushed all of them from all caches and then
  the end of the stream, and is paused.
\<close>

theorem hls_end_delivered:
  assumes "hls_stream (hls_start ios) rs s" "caches_created ios" "y_source s = SIdle" "list_all hls_env_good envs"
    and "2 * (length rs - length (hls_out (h_log (y_h s)))) + 2 \<le> length envs"
  shows "\<exists>s1 s2. hls_step (HEvent env HlsEos) s = Some s1 \<and> hls_run (map HLoop envs) s1 = Some s2 \<and>
    y_task s2 = HPaused \<and> hls_out (h_log (y_h s2)) = rs \<and> hls_eos_sent (h_log (y_h s2))"
  by (rule hls_eos_delivered [OF assms])

theorem hls_end_delivered_witness:
  "\<exists>s s1 s2. hls_step (HEvent demo_hls_env HlsEos) s = Some s1 \<and> hls_run (map HLoop (replicate 6 demo_hls_env)) s1 = Some s2 \<and>
    y_task s2 = HPaused \<and> hls_out (h_log (y_h s2)) = [1, 2, 3, 4, 5] \<and> hls_eos_sent (h_log (y_h s2))"
proof -
  obtain s where t: "hls_turns demo_reading (hls_start demo_ios) = Some ([1, 2, 3, 4, 5], s)" "hls_out (h_log (y_h s)) = [1, 2, 3]" "y_source s = SIdle"
    using demo_reading_run by (auto split: prod.splits)
  show ?thesis
    using hls_end_delivered [OF demo_hls_stream [OF t(1) demo_hls_calls(1)] demo_created t(3), of "replicate 6 demo_hls_env" demo_hls_env]
      t(2) demo_hls_env_good by (auto simp: list_all_iff)
qed

text \<open>
  C22. A flaw: live streaming can stop for ever. The handler of a segment event finds no free cache, releases the lock to report it, and then waits
  for a cache without a second test. When the task empties the caches before the wait begins, its signals are lost: the source waits for
  a free cache though all three are free, the task waits for data, everything received has been pushed, and no section of either
  thread ever changes this.
\<close>

theorem hls_lost_signal:
  assumes "hls_stream (hls_start ios) rs s" "caches_created ios" "y_source s = SFull sg" "y_task s \<noteq> HWait" "list_all hls_env_good envs"
    and "2 * (length rs - length (hls_out (h_log (y_h s)))) + 2 \<le> length envs"
  shows "\<exists>s'. hls_run (map HLoop envs @ [HSource env]) s = Some s' \<and> y_source s' = SWait sg \<and> y_task s' = HWait \<and>
    hls_out (h_log (y_h s')) = rs \<and> list_all (\<lambda>ready. ready) (h_cache_write_ready (y_h s')) \<and>
    (\<forall>xs. hls_run (map of_thread xs) s' = Some s')"
  by (rule hls_stalls [OF assms])

theorem hls_lost_signal_witness:
  "\<exists>s s'. hls_turns demo_filled (hls_start demo_ios) = Some ([1, 2, 3], s) \<and>
    hls_run (map HLoop (replicate 8 demo_hls_env) @ [HSource demo_hls_env]) s = Some s' \<and>
    y_source s' = SWait (demo_hls_segment 1) \<and> y_task s' = HWait \<and> hls_out (h_log (y_h s')) = [1, 2, 3] \<and>
    (\<forall>xs. hls_run (map of_thread xs) s' = Some s')"
proof -
  obtain s where t: "hls_turns demo_filled (hls_start demo_ios) = Some ([1, 2, 3], s)" "hls_out (h_log (y_h s)) = []"
    "y_source s = SFull (demo_hls_segment 1)" "y_task s \<noteq> HWait"
    using demo_filled_run by (auto split: prod.splits)
  show ?thesis
    using hls_lost_signal [OF demo_hls_stream [OF t(1) demo_hls_calls(2)] demo_created t(3,4), of "replicate 8 demo_hls_env" demo_hls_env]
      t(1,2) demo_hls_env_good by (auto simp: list_all_iff)
qed

end
